(* ===== verification/Prelude.thy ===== *)
theory Prelude
  imports Main "HOL-Library.Sublist" "HOL-Library.AList"
begin

text \<open>
  What the component theories share: results of code that may throw, the parts of
  JavaScript's string library that the modelled sources call, and generic facts on lists.

  A JavaScript string is a sequence of code units. The model's strings are Isabelle
  strings, so a text here has code units below 256; whitespace, case and digits are those
  of ECMAScript restricted to that range.
\<close>

named_theorems js_text \<open>rewrites of the JavaScript text operations\<close>

section \<open>Results of code that may throw\<close>

text \<open>\<open>Inl\<close> carries the message of the thrown error, \<open>Inr\<close> the returned value.\<close>

type_synonym 'a res = "string + 'a"

definition rbind :: "'e + 'a \<Rightarrow> ('a \<Rightarrow> 'e + 'b) \<Rightarrow> 'e + 'b" where
  "rbind m f = (case m of Inl e \<Rightarrow> Inl e | Inr x \<Rightarrow> f x)"

lemma rbind_simps [simp]: "rbind (Inl e) f = Inl e" "rbind (Inr x) f = f x"
  by (simp_all add: rbind_def)

lemma rbind_Inr: "rbind m f = Inr y \<longleftrightarrow> (\<exists>x. m = Inr x \<and> f x = Inr y)"
  by (cases m) simp_all

lemma rbind_InrE [elim!]:
  assumes "rbind m f = Inr y"
  obtains x where "m = Inr x" and "f x = Inr y"
  using assms by (auto simp: rbind_Inr)

text \<open>A \<open>for\<close> loop or an \<open>Array.map\<close> whose body may throw stops at the first error.\<close>

fun rmap :: "('a \<Rightarrow> 'e + 'b) \<Rightarrow> 'a list \<Rightarrow> 'e + 'b list" where
  "rmap f [] = Inr []"
| "rmap f (x # xs) = rbind (f x) (\<lambda>y. rbind (rmap f xs) (\<lambda>ys. Inr (y # ys)))"

lemma rmap_Inr: "rmap f xs = Inr ys \<longleftrightarrow> list_all2 (\<lambda>x y. f x = Inr y) xs ys"
  by (induction xs arbitrary: ys) (auto simp: rbind_Inr list_all2_Cons1)

lemma rmap_all_Inr: "(\<And>x. x \<in> set xs \<Longrightarrow> f x = Inr (g x)) \<Longrightarrow> rmap f xs = Inr (map g xs)"
  by (induction xs) auto

section \<open>JavaScript text\<close>

definition js_ws :: "char \<Rightarrow> bool" where
  "js_ws c \<longleftrightarrow> (of_char c :: nat) \<in> {9, 10, 11, 12, 13, 32, 160}"

definition js_digit :: "char \<Rightarrow> bool" where
  "js_digit c \<longleftrightarrow> 48 \<le> (of_char c :: nat) \<and> (of_char c :: nat) \<le> 57"

text \<open>\<open>String.prototype.trim\<close>.\<close>

definition js_trim :: "string \<Rightarrow> string" where
  "js_trim s = rev (dropWhile js_ws (rev (dropWhile js_ws s)))"

text \<open>\<open>toLowerCase\<close> on code units below 256.\<close>

definition lower_char :: "char \<Rightarrow> char" where
  "lower_char c = (let n = (of_char c :: nat) in
     if 65 \<le> n \<and> n \<le> 90 \<or> 192 \<le> n \<and> n \<le> 222 \<and> n \<noteq> 215 then char_of (n + 32) else c)"

definition js_lower :: "string \<Rightarrow> string" where
  "js_lower s = map lower_char s"

text \<open>\<open>split\<close> on a one-character separator.\<close>

fun js_split :: "char \<Rightarrow> string \<Rightarrow> string list" where
  "js_split d [] = [[]]"
| "js_split d (c # cs) =
     (if c = d then [] # js_split d cs
      else (case js_split d cs of [] \<Rightarrow> [[c]] | w # ws \<Rightarrow> (c # w) # ws))"

text \<open>\<open>join\<close>.\<close>

fun js_join :: "string \<Rightarrow> string list \<Rightarrow> string" where
  "js_join d [] = []"
| "js_join d [w] = w"
| "js_join d (w # v # ws) = w @ d @ js_join d (v # ws)"

text \<open>\<open>split(/\s+/)\<close>: maximal runs of whitespace separate the parts.\<close>

fun ws_parts :: "string \<Rightarrow> bool \<Rightarrow> string list" where
  "ws_parts [] _ = [[]]"
| "ws_parts (c # cs) in_ws =
     (if js_ws c then (if in_ws then ws_parts cs True else [] # ws_parts cs True)
      else (case ws_parts cs False of [] \<Rightarrow> [[c]] | w # ws \<Rightarrow> (c # w) # ws))"

definition js_split_ws :: "string \<Rightarrow> string list" where
  "js_split_ws s = ws_parts s False"

text \<open>\<open>Number.parseInt(s, 10)\<close> of a digit string, and a number's decimal text.\<close>

definition digit_val :: "char \<Rightarrow> nat" where
  "digit_val c = of_char c - 48"

definition nat_of_digits :: "string \<Rightarrow> nat" where
  "nat_of_digits s = foldl (\<lambda>n c. 10 * n + digit_val c) 0 s"

fun digits_of_nat :: "nat \<Rightarrow> string" where
  "digits_of_nat n = (if n < 10 then [char_of (48 + n)] else digits_of_nat (n div 10) @ [char_of (48 + n mod 10)])"

declare digits_of_nat.simps [simp del]

definition show_int :: "int \<Rightarrow> string" where
  "show_int i = (if i < 0 then CHR ''-'' # digits_of_nat (nat (- i)) else digits_of_nat (nat i))"

text \<open>\<open>includes\<close>: whether \<open>pat\<close> occurs in \<open>s\<close>.\<close>

fun js_includes :: "string \<Rightarrow> string \<Rightarrow> bool" where
  "js_includes pat [] \<longleftrightarrow> pat = []"
| "js_includes pat (c # cs) \<longleftrightarrow> take (length pat) (c # cs) = pat \<or> js_includes pat cs"

text \<open>\<open>JSON.stringify\<close> of a string.\<close>

definition hex_lower :: "nat \<Rightarrow> char" where
  "hex_lower n = (if n < 10 then char_of (48 + n) else char_of (87 + n))"

definition json_char :: "char \<Rightarrow> string" where
  "json_char c = (let n = (of_char c :: nat) in
     if n = 34 then [CHR 92, CHR 34] else if n = 92 then [CHR 92, CHR 92]
     else if n = 8 then [CHR 92, CHR ''b''] else if n = 9 then [CHR 92, CHR ''t''] else if n = 10 then [CHR 92, CHR ''n'']
     else if n = 12 then [CHR 92, CHR ''f''] else if n = 13 then [CHR 92, CHR ''r'']
     else if n < 32 then [CHR 92, CHR ''u'', CHR ''0'', CHR ''0'', hex_lower (n div 16), hex_lower (n mod 16)]
     else [c])"

definition json_string :: "string \<Rightarrow> string" where
  "json_string s = CHR 34 # concat (map json_char s) @ [CHR 34]"

lemma js_split_nonempty [simp]: "js_split d s \<noteq> []"
  by (induction s) (auto split: list.splits)

lemma js_split_free: "d \<notin> set w \<Longrightarrow> js_split d w = [w]"
  by (induction w) auto

lemma js_split_append: "d \<notin> set w \<Longrightarrow> js_split d (w @ d # s) = w # js_split d s"
  by (induction w) auto

lemma js_split_join:
  "ws \<noteq> [] \<Longrightarrow> \<forall>w \<in> set ws. d \<notin> set w \<Longrightarrow> js_split d (js_join [d] ws) = ws"
  by (induction "[d]" ws rule: js_join.induct) (auto simp: js_split_free js_split_append)

lemma js_join_split: "js_join [d] (js_split d s) = s"
proof (induction s)
  case (Cons c cs)
  then show ?case
    by (cases "js_split d cs"; cases "tl (js_split d cs)") (auto split: list.splits)
qed simp

lemma digits_of_nat_nonempty [simp]: "digits_of_nat n \<noteq> []"
  by (subst digits_of_nat.simps) simp

lemma digit_char: "n < 10 \<Longrightarrow> js_digit (char_of (48 + n)) \<and> digit_val (char_of (48 + n)) = n"
  by (simp add: js_digit_def digit_val_def)

lemma digits_of_nat_digits: "\<forall>c \<in> set (digits_of_nat n). js_digit c"
proof (induction n rule: digits_of_nat.induct)
  case (1 n)
  then show ?case
    by (subst digits_of_nat.simps) (auto simp: digit_char)
qed

lemma nat_of_digits_snoc: "nat_of_digits (s @ [c]) = 10 * nat_of_digits s + digit_val c"
  by (simp add: nat_of_digits_def)

lemma nat_of_digits_of_nat [simp]: "nat_of_digits (digits_of_nat n) = n"
proof (induction n rule: digits_of_nat.induct)
  case (1 n)
  show ?case
  proof (cases "n < 10")
    case True
    then show ?thesis
      by (subst digits_of_nat.simps) (simp add: nat_of_digits_def digit_char)
  next
    case False
    with 1 show ?thesis
      by (subst digits_of_nat.simps) (simp add: nat_of_digits_snoc digit_char)
  qed
qed

lemma digits_of_nat_inj: "digits_of_nat m = digits_of_nat n \<longleftrightarrow> m = n"
  by (metis nat_of_digits_of_nat)

section \<open>Trimmed text\<close>

definition trimmed :: "string \<Rightarrow> bool" where
  "trimmed s \<longleftrightarrow> s = [] \<or> \<not> js_ws (hd s) \<and> \<not> js_ws (last s)"

lemma js_trim_trimmed: "trimmed (js_trim s)"
proof (cases "js_trim s = []")
  case False
  define t where "t = dropWhile js_ws s"
  define u where "u = dropWhile js_ws (rev t)"
  have eq: "js_trim s = rev u" by (simp add: js_trim_def t_def u_def)
  with False have u: "u \<noteq> []" by simp
  obtain v where v: "rev t = v @ u" using takeWhile_dropWhile_id u_def by metis
  then have t: "t = rev u @ rev v" by (metis rev_append rev_rev_ident)
  have "\<not> js_ws (hd t)" unfolding t_def
    by (rule hd_dropWhile) (use t u t_def in auto)
  moreover have "\<not> js_ws (hd u)" unfolding u_def
    by (rule hd_dropWhile) (use u u_def in auto)
  ultimately show ?thesis using u t eq by (simp add: trimmed_def last_rev hd_append)
qed (simp add: trimmed_def)

lemma js_trim_id: "trimmed s \<Longrightarrow> js_trim s = s"
proof (cases "s = []")
  case False
  assume "trimmed s"
  with False have "\<not> js_ws (hd s)" "\<not> js_ws (last s)" by (auto simp: trimmed_def)
  with False have "dropWhile js_ws s = s" "dropWhile js_ws (rev s) = rev s"
    by (auto simp: dropWhile_eq_self_iff hd_rev)
  then show ?thesis by (simp add: js_trim_def)
qed (simp add: js_trim_def)

lemma js_trim_idem [simp]: "js_trim (js_trim s) = js_trim s"
  by (simp add: js_trim_id js_trim_trimmed)

section \<open>Multiples of a step\<close>

lemma floor_step_aligned: "((x::int) - x mod m + m) mod m = 0"
  by (simp add: minus_mod_eq_mult_div)

lemma aligned_next: "(a::int) mod m = 0 \<Longrightarrow> (a + m) mod m = 0"
  by simp

lemma aligned_unique: "(a::int) mod m = 0 \<Longrightarrow> b mod m = 0 \<Longrightarrow> a \<le> b \<Longrightarrow> b < a + m \<Longrightarrow> b = a"
  using zdvd_not_zless [of "b - a" m] by (cases "a < b") (auto simp: mod_eq_0_iff_dvd dvd_diff)

section \<open>Finding and replacing in lists\<close>

text \<open>\<open>Array.prototype.find\<close> is \<^const>\<open>List.find\<close>; \<open>findIndex\<close> gives \<open>None\<close> for -1.\<close>

fun find_index :: "('a \<Rightarrow> bool) \<Rightarrow> 'a list \<Rightarrow> nat option" where
  "find_index P [] = None"
| "find_index P (x # xs) = (if P x then Some 0 else map_option Suc (find_index P xs))"

lemma find_index_Some:
  "find_index P xs = Some i \<Longrightarrow> i < length xs \<and> P (xs ! i) \<and> (\<forall>j < i. \<not> P (xs ! j))"
proof (induction xs arbitrary: i)
  case (Cons x xs)
  show ?case
  proof (cases "P x")
    case False
    with Cons.prems obtain k where k: "find_index P xs = Some k" "i = Suc k" by auto
    with Cons.IH [OF k(1)] False show ?thesis
      by (auto simp: nth_Cons split: nat.splits)
  qed (use Cons.prems in auto)
qed simp

lemma find_index_None: "find_index P xs = None \<longleftrightarrow> (\<forall>x \<in> set xs. \<not> P x)"
  by (induction xs) auto

text \<open>Distinct values of a list in first-occurrence order, as \<open>[...new Set(xs)]\<close> gives them.\<close>

fun js_uniq :: "'a list \<Rightarrow> 'a list" where
  "js_uniq [] = []"
| "js_uniq (x # xs) = x # filter (\<lambda>y. y \<noteq> x) (js_uniq xs)"

lemma set_js_uniq [simp]: "set (js_uniq xs) = set xs"
  by (induction xs) auto

lemma distinct_js_uniq [simp]: "distinct (js_uniq xs)"
  by (induction xs) auto

lemma js_uniq_distinct: "distinct xs \<Longrightarrow> js_uniq xs = xs"
  by (induction xs) (auto simp: filter_id_conv)

lemma length_js_uniq: "length (js_uniq xs) = length xs \<longleftrightarrow> distinct xs"
proof -
  have "length (js_uniq xs) = card (set xs)"
    using distinct_card [OF distinct_js_uniq, of xs] by simp
  then show ?thesis by (metis card_distinct distinct_card)
qed

section \<open>JavaScript Maps\<close>

text \<open>
  A Map is an association list in insertion order: \<open>AList.update\<close> is \<open>set\<close> (a key keeps its place)
  and \<open>AList.delete\<close> is \<open>delete\<close>. \<open>keyed f\<close> says that each value is filed once under its own key.
\<close>

definition keyed :: "('v \<Rightarrow> 'k) \<Rightarrow> ('k \<times> 'v) list \<Rightarrow> bool" where
  "keyed f xs \<longleftrightarrow> distinct (map fst xs) \<and> map f (map snd xs) = map fst xs"

lemma set_alist_update: "set (AList.update k v xs) \<subseteq> insert (k, v) (set xs)"
  by (induction xs) auto

lemma keyed_update: "keyed f xs \<Longrightarrow> f v = k \<Longrightarrow> keyed f (AList.update k v xs)"
proof -
  assume k: "keyed f xs" and v: "f v = k"
  have "\<forall>x \<in> set (AList.update k v xs). f (snd x) = fst x"
    using k v set_alist_update [of k v xs] by (auto simp: keyed_def)
  then show ?thesis using k by (simp add: keyed_def distinct_update)
qed

lemma keyed_filter: "keyed f xs \<Longrightarrow> keyed f (filter P xs)"
  by (induction xs) (auto simp: keyed_def)

lemma keyed_delete: "keyed f xs \<Longrightarrow> keyed f (AList.delete k xs)"
  by (simp add: AList.delete_eq keyed_filter)

lemma alist_update_fresh: "k \<notin> fst ` set xs \<Longrightarrow> AList.update k v xs = xs @ [(k, v)]"
  by (induction xs) auto

lemma fold_alist_update:
  "distinct (map fst (ys @ xs)) \<Longrightarrow> fold (\<lambda>(k, v). AList.update k v) xs ys = ys @ xs"
proof (induction xs arbitrary: ys)
  case (Cons x xs)
  obtain k v where x: "x = (k, v)" by fastforce
  have "AList.update k v ys = ys @ [(k, v)]" using Cons.prems x by (intro alist_update_fresh) auto
  with Cons.IH [of "ys @ [(k, v)]"] Cons.prems x show ?case by simp
qed simp

section \<open>Transition systems\<close>

text \<open>
  The contract of a component that moves in steps: what holds at the start and is kept by
  every step holds in every state a run reaches.
\<close>

locale step_invariant =
  fixes init :: "'s \<Rightarrow> bool" and stp :: "'s \<Rightarrow> 's \<Rightarrow> bool" and inv :: "'s \<Rightarrow> bool"
  assumes inv_init: "init s \<Longrightarrow> inv s"
    and inv_step: "inv s \<Longrightarrow> stp s t \<Longrightarrow> inv t"
begin

definition reach :: "'s \<Rightarrow> bool" where
  "reach t \<longleftrightarrow> (\<exists>s. init s \<and> stp\<^sup>*\<^sup>* s t)"

lemma inv_steps: "stp\<^sup>*\<^sup>* s t \<Longrightarrow> inv s \<Longrightarrow> inv t"
  by (induction rule: rtranclp_induct) (auto intro: inv_step)

lemma inv_reach: "init s \<Longrightarrow> stp\<^sup>*\<^sup>* s t \<Longrightarrow> inv t"
  using inv_init inv_steps by blast

end

end
