(* ===== verification/Schedule.thy ===== *)
theory Schedule
  imports Prelude
begin

text \<open>
  The schedule grammar and the job record of \<^verbatim>\<open>packages/pi-host/src/schedule.ts\<close>: one-shot,
  interval and cron schedules, the next run of each, and when a due heartbeat defers.

  A \<open>Date\<close> is its time value in milliseconds, and a stored ISO text is the time it names;
  \<open>to_iso\<close> is the check that an invalid date fails when it is written. The
  host's time zone is a fixed offset \<open>tz\<close> in milliseconds, so \<open>LocalTime(t) = t + tz\<close>; hosts
  whose offset changes within the scanned year are outside the model. \<open>new Date(<text>)\<close> of
  an \<open>at\<close> schedule is the engine's date parser, the parameter \<open>date_parse\<close>.
\<close>

section \<open>Data\<close>

type_synonym date = "int option"

text \<open>\<open>toISOString\<close> throws a RangeError for a time value outside the range of a \<open>Date\<close>.\<close>

definition to_iso :: "int \<Rightarrow> int res" where
  "to_iso t = (if \<bar>t\<bar> \<le> 8640000000000000 then Inr t else Inl ''Invalid time value'')"

datatype job_status = Active | Paused | Completed | Cancelled
datatype job_source = CronSource | Heartbeat | RlmHeartbeat
datatype delivery_mode = Steer | FollowUp
datatype schedule_kind = Once | Cron | Interval
datatype runtime_kind = TopLevel | Subagent

record schedule =
  sch_kind :: schedule_kind
  sch_expression :: string
  sch_intervalMs :: "int option"

record job =
  job_id :: string
  job_status :: job_status
  job_source :: job_source
  job_runtimeKind :: "runtime_kind option"
  job_deliveryMode :: "delivery_mode option"
  job_activeSessionId :: string
  job_sessionId :: string
  job_sessionFile :: string
  job_cwd :: string
  job_label :: "string option"
  job_prompt :: string
  job_schedule :: schedule
  job_createdAt :: int
  job_updatedAt :: int
  job_nextRunAt :: "int option"
  job_lastRunAt :: "int option"
  job_lastSkippedAt :: "int option"
  job_lastError :: "string option"
  job_runCount :: int
  job_claimedAt :: "int option"
  job_rootSessionId :: "string option"

definition DEFAULT_HEARTBEAT_SCHEDULE :: string where
  "DEFAULT_HEARTBEAT_SCHEDULE = ''every 5m''"

abbreviation SECOND :: int where "SECOND \<equiv> 1000"
abbreviation MINUTE :: int where "MINUTE \<equiv> 60000"

definition isHeartbeat :: "job \<Rightarrow> bool" where
  "isHeartbeat j \<longleftrightarrow> job_source j = Heartbeat \<or> job_source j = RlmHeartbeat"

definition isLive :: "job \<Rightarrow> bool" where
  "isLive j \<longleftrightarrow> job_status j = Active \<or> job_status j = Paused"

section \<open>The parts of an expression\<close>

definition stripQuotes :: "string \<Rightarrow> string" where
  "stripQuotes v =
     (if 2 \<le> length v \<and> (hd v = CHR 34 \<and> last v = CHR 34 \<or> hd v = CHR 39 \<and> last v = CHR 39)
      then butlast (tl v) else v)"

definition second_units :: "string list" where
  "second_units = [''s'', ''sec'', ''secs'', ''second'', ''seconds'']"
definition minute_units :: "string list" where
  "minute_units = [''m'', ''min'', ''mins'', ''minute'', ''minutes'']"
definition hour_units :: "string list" where
  "hour_units = [''h'', ''hr'', ''hrs'', ''hour'', ''hours'']"
definition day_units :: "string list" where
  "day_units = [''d'', ''day'', ''days'']"

text \<open>
  \<open>(\d+)\s*(unit)$\<close> on a text already in lower case. The digit, space and letter classes
  are disjoint, so the greedy match is the only one.
\<close>

definition count_unit :: "string list \<Rightarrow> string \<Rightarrow> (nat \<times> string) option" where
  "count_unit units s =
     (let ds = takeWhile js_digit s; u = dropWhile js_ws (dropWhile js_digit s)
      in if ds \<noteq> [] \<and> u \<in> set units then Some (nat_of_digits ds, u) else None)"

text \<open>\<open>^word\s+(\d+)\s*(unit)$\<close>, ignoring case.\<close>

definition word_count_unit :: "string \<Rightarrow> string list \<Rightarrow> string \<Rightarrow> (nat \<times> string) option" where
  "word_count_unit w units text =
     (let s = js_lower text; r = drop (length w) s
      in if take (length w) s = w \<and> r \<noteq> [] \<and> js_ws (hd r)
         then count_unit units (dropWhile js_ws r) else None)"

definition in_match :: "string \<Rightarrow> (nat \<times> string) option" where
  "in_match = word_count_unit ''in'' (minute_units @ hour_units @ day_units)"

definition every_match :: "string \<Rightarrow> (nat \<times> string) option" where
  "every_match text =
     (let units = second_units @ minute_units @ hour_units in
      case word_count_unit ''every'' units text of
        Some m \<Rightarrow> Some m | None \<Rightarrow> word_count_unit ''each'' units text)"

section \<open>Cron fields\<close>

definition cron_number :: "string \<Rightarrow> nat \<Rightarrow> nat \<Rightarrow> nat res" where
  "cron_number value mn mx =
     (if value = [] \<or> \<not> list_all js_digit value then Inl (''Invalid cron number: '' @ value)
      else let parsed = nat_of_digits value in
        if parsed < mn \<or> parsed > mx then Inl (''Cron number out of range: '' @ value)
        else Inr parsed)"

text \<open>\<open>for (let value = start; value <= end; value += step) values.add(value)\<close>, for a step of 1 or more.\<close>

definition steps_between :: "nat \<Rightarrow> nat \<Rightarrow> nat \<Rightarrow> nat list" where
  "steps_between start stop step = filter (\<lambda>v. (v - start) mod step = 0) [start ..< Suc stop]"

definition cron_range :: "string \<Rightarrow> nat \<Rightarrow> nat \<Rightarrow> (nat \<times> nat) res" where
  "cron_range rng mn mx =
     (if rng = ''*'' then Inr (mn, mx)
      else if CHR ''-'' \<in> set rng then
        (let ab = js_split (CHR ''-'') rng in
         rbind (cron_number (ab ! 0) mn mx) (\<lambda>start.
         rbind (cron_number (ab ! 1) mn mx) (\<lambda>stop.
           if start > stop then Inl (''Invalid cron range: '' @ rng) else Inr (start, stop))))
      else rbind (cron_number rng mn mx) (\<lambda>start. Inr (start, start)))"

definition cron_part :: "string \<Rightarrow> string \<Rightarrow> nat \<Rightarrow> nat \<Rightarrow> nat list res" where
  "cron_part text part mn mx =
     (if part = [] then Inl (''Invalid cron field: '' @ text)
      else let pieces = js_split (CHR ''/'') part in
        rbind (case tl pieces of [] \<Rightarrow> Inr 1 | stepText # _ \<Rightarrow> cron_number stepText 1 mx) (\<lambda>step.
        rbind (cron_range (hd pieces) mn mx) (\<lambda>(start, stop). Inr (steps_between start stop step))))"

definition cron_field :: "string \<Rightarrow> nat \<Rightarrow> nat \<Rightarrow> nat list res" where
  "cron_field text mn mx =
     rbind (rmap (\<lambda>part. cron_part text part mn mx) (js_split (CHR '','') text)) (\<lambda>vs. Inr (concat vs))"

record cron_fields =
  cf_minute :: "nat list"
  cf_hour :: "nat list"
  cf_day :: "nat list"
  cf_month :: "nat list"
  cf_weekday :: "nat list"

definition parseCron :: "string \<Rightarrow> cron_fields res" where
  "parseCron expression =
     (case js_split_ws (js_trim expression) of
        [minute, hour, day, month, weekday] \<Rightarrow>
          rbind (cron_field minute 0 59) (\<lambda>mi.
          rbind (cron_field hour 0 23) (\<lambda>h.
          rbind (cron_field day 1 31) (\<lambda>d.
          rbind (cron_field month 1 12) (\<lambda>mo.
          rbind (cron_field weekday 0 7) (\<lambda>w.
            Inr \<lparr>cf_minute = mi, cf_hour = h, cf_day = d, cf_month = mo, cf_weekday = w\<rparr>)))))
      | _ \<Rightarrow> Inl (''Unsupported cron schedule. Use '' @ [CHR 39] @ ''in 10m'' @ [CHR 39] @ '', '' @ [CHR 39] @ ''at <ISO date>'' @ [CHR 39]
          @ '', @hourly, or five fields: minute hour day month weekday''))"

section \<open>Local time\<close>

text \<open>
  The local fields of a local time value. Month and day come from the number of days since
  1970-01-01 in the proleptic Gregorian calendar, counted in 400-year eras that start in March.
\<close>

definition local_minutes :: "int \<Rightarrow> nat" where "local_minutes l = nat ((l div MINUTE) mod 60)"
definition local_hours :: "int \<Rightarrow> nat" where "local_hours l = nat ((l div 3600000) mod 24)"
definition local_day :: "int \<Rightarrow> nat" where "local_day l = nat ((l div 86400000 + 4) mod 7)"

definition month_date :: "int \<Rightarrow> nat \<times> nat" where
  "month_date days =
     (let doe = (days + 719468) mod 146097;
          yoe = (doe - doe div 1460 + doe div 36524 - doe div 146096) div 365;
          doy = doe - (365 * yoe + yoe div 4 - yoe div 100);
          mp = (5 * doy + 2) div 153
      in (nat (if mp < 10 then mp + 3 else mp - 9), nat (doy - (153 * mp + 2) div 5 + 1)))"

definition local_month :: "int \<Rightarrow> nat" where "local_month l = fst (month_date (l div 86400000))"
definition local_date :: "int \<Rightarrow> nat" where "local_date l = snd (month_date (l div 86400000))"

definition cron_matches :: "cron_fields \<Rightarrow> int \<Rightarrow> bool" where
  "cron_matches f l \<longleftrightarrow>
     local_minutes l \<in> set (cf_minute f) \<and> local_hours l \<in> set (cf_hour f)
     \<and> local_date l \<in> set (cf_day f) \<and> local_month l \<in> set (cf_month f)
     \<and> (local_day l \<in> set (cf_weekday f) \<or> local_day l = 0 \<and> 7 \<in> set (cf_weekday f))"

section \<open>The next run\<close>

text \<open>The scan of \<open>nextCronRun\<close>: one minute at a time up to the deadline.\<close>

function cron_scan :: "cron_fields \<Rightarrow> int \<Rightarrow> int \<Rightarrow> int \<Rightarrow> int option" where
  "cron_scan f tz candidate deadline =
     (if candidate \<le> deadline then
        (if cron_matches f (candidate + tz) then Some candidate
         else cron_scan f tz (candidate + MINUTE) deadline)
      else None)"
  by pat_completeness auto
termination
  by (relation "measure (\<lambda>(f, tz, c, d). nat (d + 1 - c))") auto

declare cron_scan.simps [simp del]

definition first_candidate :: "int \<Rightarrow> int \<Rightarrow> int" where
  "first_candidate tz after = after - (after + tz) mod MINUTE + MINUTE"

definition cron_deadline :: "int \<Rightarrow> int \<Rightarrow> int" where
  "cron_deadline tz after = first_candidate tz after + 366 * 24 * 60 * MINUTE"

definition nextCronRun :: "int \<Rightarrow> string \<Rightarrow> int \<Rightarrow> int res" where
  "nextCronRun tz expression after =
     rbind (parseCron expression) (\<lambda>f.
       case cron_scan f tz (first_candidate tz after) (cron_deadline tz after) of
         Some c \<Rightarrow> Inr c
       | None \<Rightarrow> Inl (''Cron schedule did not match within one year: '' @ expression))"

definition CRON_ALIASES :: "(string \<times> string) list" where
  "CRON_ALIASES = [(''@hourly'', ''0 * * * *''), (''@daily'', ''0 0 * * *''),
     (''@weekly'', ''0 0 * * 0''), (''@monthly'', ''0 0 1 * *'')]"

definition parseSchedule ::
  "(string \<Rightarrow> date) \<Rightarrow> int \<Rightarrow> string \<Rightarrow> int \<Rightarrow> (schedule \<times> int) res" where
  "parseSchedule date_parse tz input now =
     (let text = stripQuotes (js_trim input) in
      if text = [] then Inl ''Cron schedule cannot be empty''
      else case in_match text of
        Some (n, u) \<Rightarrow>
          (let ms = (if hd u = CHR ''m'' then MINUTE else if hd u = CHR ''h'' then 60 * MINUTE else 24 * 60 * MINUTE)
           in Inr (\<lparr>sch_kind = Once, sch_expression = text, sch_intervalMs = None\<rparr>, now + int n * ms))
      | None \<Rightarrow>
        (case every_match text of
          Some (n, u) \<Rightarrow>
            (let intervalMs = int n * (if hd u = CHR ''s'' then SECOND else if hd u = CHR ''m'' then MINUTE else 60 * MINUTE)
             in if intervalMs < 10 * SECOND then Inl ''Recurring interval must be at least 10 seconds''
                else Inr (\<lparr>sch_kind = Interval, sch_expression = text, sch_intervalMs = Some intervalMs\<rparr>,
                          now + intervalMs))
        | None \<Rightarrow>
          if take 3 (js_lower text) = ''at '' then
            (case date_parse (js_trim (drop 3 text)) of
               None \<Rightarrow> Inl ''Invalid one-shot schedule. Use: at <ISO date>''
             | Some w \<Rightarrow> if w \<le> now then Inl ''One-shot schedule must be in the future''
                 else Inr (\<lparr>sch_kind = Once, sch_expression = text, sch_intervalMs = None\<rparr>, w))
          else
            (let expression = (case map_of CRON_ALIASES text of Some e \<Rightarrow> e | None \<Rightarrow> text)
             in rbind (nextCronRun tz expression now) (\<lambda>at.
                  Inr (\<lparr>sch_kind = Cron, sch_expression = expression, sch_intervalMs = None\<rparr>, at)))))"

definition nextRunAfter :: "int \<Rightarrow> schedule \<Rightarrow> int \<Rightarrow> (int option) res" where
  "nextRunAfter tz s after =
     (case sch_kind s of
        Once \<Rightarrow> Inr None
      | Interval \<Rightarrow>
          (case sch_intervalMs s of
             None \<Rightarrow> Inl (''Invalid interval schedule: '' @ sch_expression s)
           | Some i \<Rightarrow> if i \<le> 0 then Inl (''Invalid interval schedule: '' @ sch_expression s)
               else Inr (Some (after + i)))
      | Cron \<Rightarrow> rbind (nextCronRun tz (sch_expression s) after) (\<lambda>at. Inr (Some at)))"

definition normalizeHeartbeatSchedule :: "string option \<Rightarrow> string" where
  "normalizeHeartbeatSchedule input =
     (case input of
        None \<Rightarrow> DEFAULT_HEARTBEAT_SCHEDULE
      | Some i \<Rightarrow>
          (let text = js_trim i in
           if text = [] then DEFAULT_HEARTBEAT_SCHEDULE
           else if count_unit (second_units @ minute_units @ hour_units) (js_lower text) \<noteq> None
             then ''every '' @ text
           else text))"

section \<open>Deferring and the heartbeat message\<close>

record activity =
  streaming :: bool
  compacting :: bool
  retrying :: bool
  pending :: bool

definition defers :: "job \<Rightarrow> activity \<Rightarrow> bool" where
  "defers j a =
     (if \<not> isHeartbeat j then False
      else if compacting a \<or> retrying a \<or> pending a then True
      else (case job_deliveryMode j of None \<Rightarrow> Steer | Some m \<Rightarrow> m) = FollowUp \<and> streaming a)"

text \<open>\<open>replace(/[\r\n\]]+/g, " ")\<close>: each run of those characters becomes one space.\<close>

fun squash_breaks :: "string \<Rightarrow> bool \<Rightarrow> string" where
  "squash_breaks [] _ = []"
| "squash_breaks (c # cs) in_run =
     (if c \<in> {CHR 10, CHR 13, CHR '']''} then (if in_run then [] else '' '') @ squash_breaks cs True
      else c # squash_breaks cs False)"

definition heartbeat_content :: "job \<Rightarrow> string" where
  "heartbeat_content j =
     ''[heartbeat: '' @ squash_breaks (sch_expression (job_schedule j)) False @ '' run#'' @ show_int (job_runCount j) @ '']''
     @ [CHR 10, CHR 10] @ job_prompt j"

section \<open>Lemmas\<close>

lemma first_candidate_aligned: "(first_candidate tz after + tz) mod MINUTE = 0"
proof -
  have "first_candidate tz after + tz = (after + tz) - (after + tz) mod MINUTE + MINUTE"
    by (simp add: first_candidate_def)
  then show ?thesis by (simp only: floor_step_aligned)
qed

lemma first_candidate_after: "after < first_candidate tz after" "first_candidate tz after \<le> after + MINUTE"
  by (simp_all add: first_candidate_def)

text \<open>A minute of the host's local time that the fields select.\<close>

definition cron_due :: "cron_fields \<Rightarrow> int \<Rightarrow> int \<Rightarrow> bool" where
  "cron_due f tz t \<longleftrightarrow> (t + tz) mod MINUTE = 0 \<and> cron_matches f (t + tz)"

lemma cron_scan_Some:
  assumes "cron_scan f tz c d = Some r" and "(c + tz) mod MINUTE = 0"
  shows "c \<le> r \<and> r \<le> d \<and> cron_due f tz r \<and> (\<forall>t. c \<le> t \<and> t < r \<longrightarrow> \<not> cron_due f tz t)"
  using assms
proof (induction f tz c d rule: cron_scan.induct)
  case (1 f tz c d)
  show ?case
  proof (cases "c \<le> d \<and> \<not> cron_matches f (c + tz)")
    case True
    from True "1.prems"(1) have "cron_scan f tz (c + MINUTE) d = Some r"
      by (subst (asm) cron_scan.simps) simp
    moreover have "(c + MINUTE + tz) mod MINUTE = 0" using "1.prems"(2) aligned_next [of "c + tz" MINUTE]
      by (simp add: algebra_simps)
    ultimately have IH: "c + MINUTE \<le> r \<and> r \<le> d \<and> cron_due f tz r
        \<and> (\<forall>t. c + MINUTE \<le> t \<and> t < r \<longrightarrow> \<not> cron_due f tz t)"
      using "1.IH" True by simp
    have "\<not> cron_due f tz t" if t: "c \<le> t" "t < c + MINUTE" for t
    proof
      assume due: "cron_due f tz t"
      then have "t = c" using aligned_unique [of "c + tz" MINUTE "t + tz"] "1.prems"(2) t by (simp add: cron_due_def)
      with due True show False by (simp add: cron_due_def)
    qed
    then have "\<forall>t. c \<le> t \<and> t < r \<longrightarrow> \<not> cron_due f tz t" using IH by (meson not_le)
    moreover have "c \<le> r" using IH by simp
    ultimately show ?thesis using IH by blast
  next
    case False
    with "1.prems" have "r = c" "c \<le> d" "cron_matches f (c + tz)"
      by (auto simp: cron_scan.simps [of f tz c d] split: if_splits)
    with "1.prems"(2) show ?thesis by (auto simp: cron_due_def)
  qed
qed

lemma cron_scan_None:
  assumes "cron_scan f tz c d = None" and "(c + tz) mod MINUTE = 0" and "c \<le> t" and "t \<le> d"
  shows "\<not> cron_due f tz t"
  using assms
proof (induction f tz c d rule: cron_scan.induct)
  case (1 f tz c d)
  then have c: "c \<le> d" by simp
  with "1.prems"(1) have no: "\<not> cron_matches f (c + tz)" and rest: "cron_scan f tz (c + MINUTE) d = None"
    by (auto simp: cron_scan.simps [of f tz c d] split: if_splits)
  show ?case
  proof (cases "t < c + MINUTE")
    case True
    show ?thesis
    proof
      assume due: "cron_due f tz t"
      then have "t = c" using aligned_unique [of "c + tz" MINUTE "t + tz"] "1.prems"(2,3) True by (simp add: cron_due_def)
      with due no show False by (simp add: cron_due_def)
    qed
  next
    case False
    moreover have "(c + MINUTE + tz) mod MINUTE = 0" using "1.prems"(2) aligned_next [of "c + tz" MINUTE]
      by (simp add: algebra_simps)
    ultimately show ?thesis using "1.IH" [OF c no rest] "1.prems"(4) by simp
  qed
qed

lemma first_candidate_le_due:
  assumes "cron_due f tz t" and "after < t"
  shows "first_candidate tz after \<le> t"
proof (rule ccontr)
  let ?c = "first_candidate tz after"
  assume "\<not> ?thesis"
  then have "t < ?c" by simp
  moreover have "?c < t + MINUTE" using assms(2) first_candidate_after(2) [of tz after] by simp
  ultimately have "?c = t"
    using aligned_unique [of "t + tz" MINUTE "?c + tz"] first_candidate_aligned assms(1)
    by (simp add: cron_due_def)
  with \<open>t < ?c\<close> show False by simp
qed

lemma nextCronRun_Inr:
  assumes "parseCron e = Inr f" and "nextCronRun tz e after = Inr c"
  shows "after < c \<and> c \<le> cron_deadline tz after \<and> cron_due f tz c \<and> (\<forall>t. after < t \<and> t < c \<longrightarrow> \<not> cron_due f tz t)"
proof -
  have "cron_scan f tz (first_candidate tz after) (cron_deadline tz after) = Some c"
    using assms by (auto simp: nextCronRun_def split: option.splits)
  from cron_scan_Some [OF this first_candidate_aligned] show ?thesis
    using first_candidate_after(1) [of after tz] first_candidate_le_due [of f tz _ after]
    by (meson less_le_trans)
qed

lemma nextCronRun_Inl:
  assumes "parseCron e = Inr f" and "nextCronRun tz e after = Inl m" and "after < t" and "t \<le> cron_deadline tz after"
  shows "\<not> cron_due f tz t"
proof -
  have "cron_scan f tz (first_candidate tz after) (cron_deadline tz after) = None"
    using assms by (auto simp: nextCronRun_def split: option.splits)
  from cron_scan_None [OF this first_candidate_aligned _ assms(4)] show ?thesis
    using first_candidate_le_due [of f tz t after] assms(3) by blast
qed

lemma nextCronRun_later: "nextCronRun tz e after = Inr c \<Longrightarrow> after < c"
  using nextCronRun_Inr [of e _ tz after c] by (auto simp: nextCronRun_def)

lemma steps_between_range:
  assumes "a \<le> b" and "mn \<le> a" and "b \<le> mx"
  shows "steps_between a b k \<noteq> [] \<and> (\<forall>v \<in> set (steps_between a b k). mn \<le> v \<and> v \<le> mx)"
proof -
  have "a \<in> set (steps_between a b k)" using assms(1) by (simp add: steps_between_def del: upt_Suc)
  then have "steps_between a b k \<noteq> []" by (metis empty_iff empty_set)
  then show ?thesis using assms(2,3) by (auto simp: steps_between_def simp del: upt_Suc)
qed

lemma cron_number_bounds: "cron_number s mn mx = Inr n \<Longrightarrow> mn \<le> n \<and> n \<le> mx"
  by (auto simp: cron_number_def Let_def split: if_splits)

lemma cron_range_bounds: "cron_range r mn mx = Inr (a, b) \<Longrightarrow> mn \<le> mx \<Longrightarrow> a \<le> b \<and> mn \<le> a \<and> b \<le> mx"
  by (auto simp: cron_range_def Let_def split: if_splits dest!: cron_number_bounds)

lemma cron_part_bounds:
  assumes "cron_part text part mn mx = Inr vs" and "mn \<le> mx"
  shows "vs \<noteq> [] \<and> (\<forall>v \<in> set vs. mn \<le> v \<and> v \<le> mx)"
proof -
  from assms(1) have "part \<noteq> []" by (auto simp: cron_part_def)
  with assms(1) obtain k where "rbind (cron_range (hd (js_split (CHR ''/'') part)) mn mx)
      (\<lambda>(start, stop). Inr (steps_between start stop k)) = Inr vs"
    unfolding cron_part_def Let_def by (simp only: if_False) (erule rbind_InrE)
  then obtain a b where "cron_range (hd (js_split (CHR ''/'') part)) mn mx = Inr (a, b)" and vs: "vs = steps_between a b k"
    by auto
  then have "a \<le> b" "mn \<le> a" "b \<le> mx" using cron_range_bounds assms(2) by blast+
  then show ?thesis unfolding vs by (rule steps_between_range)
qed

lemma cron_field_bounds:
  assumes "cron_field text mn mx = Inr vs" and "mn \<le> mx"
  shows "vs \<noteq> [] \<and> (\<forall>v \<in> set vs. mn \<le> v \<and> v \<le> mx)"
proof -
  from assms(1) obtain vss where vss: "list_all2 (\<lambda>p v. cron_part text p mn mx = Inr v) (js_split (CHR '','') text) vss"
    and vs: "vs = concat vss"
    by (auto simp: cron_field_def rmap_Inr)
  have all: "\<forall>v \<in> set vss. v \<noteq> [] \<and> (\<forall>x \<in> set v. mn \<le> x \<and> x \<le> mx)"
  proof
    fix v assume "v \<in> set vss"
    then obtain p where "cron_part text p mn mx = Inr v"
      using vss by (auto simp: list_all2_conv_all_nth in_set_conv_nth)
    then show "v \<noteq> [] \<and> (\<forall>x \<in> set v. mn \<le> x \<and> x \<le> mx)" using cron_part_bounds assms(2) by blast
  qed
  moreover have "vss \<noteq> []" using vss js_split_nonempty by fastforce
  ultimately show ?thesis unfolding vs by (cases vss) auto
qed

section \<open>The contract of a schedule's next run\<close>

text \<open>What the scheduler relies on: a next run lies after the time it is asked for, and a one-shot schedule has none.\<close>

locale next_run =
  fixes nxt :: "schedule \<Rightarrow> int \<Rightarrow> (int option) res"
  assumes nxt_later: "nxt s after = Inr (Some t) \<Longrightarrow> after < t"
    and nxt_once: "sch_kind s = Once \<Longrightarrow> nxt s after = Inr None"
    and nxt_recurs: "sch_kind s \<noteq> Once \<Longrightarrow> nxt s after \<noteq> Inr None"
begin

lemma nxt_None_iff: "nxt s after = Inr None \<longleftrightarrow> sch_kind s = Once"
  using nxt_once nxt_recurs by blast

text \<open>Following the schedule from run to run never stands still.\<close>

fun runs :: "schedule \<Rightarrow> nat \<Rightarrow> int \<Rightarrow> int list" where
  "runs s 0 after = []"
| "runs s (Suc n) after = (case nxt s after of Inr (Some t) \<Rightarrow> t # runs s n t | _ \<Rightarrow> [])"

lemma runs_later: "t \<in> set (runs s n after) \<Longrightarrow> after < t"
proof (induction n arbitrary: after)
  case (Suc n)
  then obtain u where u: "nxt s after = Inr (Some u)" "t = u \<or> t \<in> set (runs s n u)"
    by (cases "nxt s after") (auto split: option.splits)
  with nxt_later [OF u(1)] Suc.IH [of u] show ?case by auto
qed simp

lemma runs_increasing: "sorted_wrt (<) (runs s n after)"
proof (induction n arbitrary: after)
  case (Suc n)
  then show ?case using runs_later by (auto split: sum.splits option.splits)
qed simp

end

lemma nextRunAfter_later: "nextRunAfter tz s after = Inr (Some t) \<Longrightarrow> after < t"
  by (auto simp: nextRunAfter_def nextCronRun_later split: schedule_kind.splits option.splits if_splits)

interpretation nr: next_run "nextRunAfter tz" for tz
  by unfold_locales (auto simp: nextRunAfter_later, auto simp: nextRunAfter_def split: schedule_kind.splits option.splits if_splits)

lemma parseSchedule_future:
  "parseSchedule dp tz input now = Inr (s, at) \<Longrightarrow> now \<le> at \<and> (sch_kind s \<noteq> Once \<longrightarrow> now < at)
      \<and> (sch_kind s = Interval \<longrightarrow> (\<exists>i \<ge> 10000. sch_intervalMs s = Some i \<and> at = now + i))"
  by (auto simp: parseSchedule_def Let_def split: if_splits option.splits prod.splits dest!: nextCronRun_later)

section \<open>Properties\<close>

text \<open>
  C37. \<open>nextCronRun\<close> returns the first minute after \<open>after\<close>, in the host's local time, that the
  expression's five fields select, when the next year holds one, and throws exactly when no
  minute of the scanned window is selected.
\<close>

theorem nextCronRun_first_match:
  assumes "parseCron e = Inr f"
  shows "(nextCronRun tz e after = Inr c \<longleftrightarrow>
            after < c \<and> c \<le> cron_deadline tz after \<and> cron_due f tz c
            \<and> (\<forall>t. after < t \<and> t < c \<longrightarrow> \<not> cron_due f tz t))
       \<and> ((\<exists>m. nextCronRun tz e after = Inl m) \<longleftrightarrow>
            (\<forall>t. after < t \<and> t \<le> cron_deadline tz after \<longrightarrow> \<not> cron_due f tz t))"
proof (cases "nextCronRun tz e after")
  case (Inl m)
  with nextCronRun_Inl [OF assms Inl] show ?thesis by auto
next
  case (Inr d)
  from nextCronRun_Inr [OF assms Inr] Inr show ?thesis by (metis Inl_Inr_False Inr_inject linorder_neqE)
qed

theorem nextCronRun_first_match_witness:
  "nextCronRun 0 ''*/15 * * * *'' 0 = Inr 900000 \<and>
   \<not> (\<exists>f t. parseCron ''*/15 * * * *'' = Inr f \<and> 0 < t \<and> t < 900000 \<and> cron_due f 0 t)"
proof -
  have run: "nextCronRun 0 ''*/15 * * * *'' 0 = Inr 900000" by code_simp
  then show ?thesis using nextCronRun_first_match [of "''*/15 * * * *''" _ 0 0 900000] by auto
qed

text \<open>
  Every value of a parsed cron expression lies in its field's range, and no field is
  empty, so a parsed expression never selects an impossible minute, hour, day, month or weekday.
\<close>

theorem parseCron_in_range:
  assumes "parseCron e = Inr f"
  shows "(\<forall>v \<in> set (cf_minute f). v \<le> 59) \<and> (\<forall>v \<in> set (cf_hour f). v \<le> 23)
       \<and> (\<forall>v \<in> set (cf_day f). 1 \<le> v \<and> v \<le> 31) \<and> (\<forall>v \<in> set (cf_month f). 1 \<le> v \<and> v \<le> 12)
       \<and> (\<forall>v \<in> set (cf_weekday f). v \<le> 7)
       \<and> cf_minute f \<noteq> [] \<and> cf_hour f \<noteq> [] \<and> cf_day f \<noteq> [] \<and> cf_month f \<noteq> [] \<and> cf_weekday f \<noteq> []"
proof -
  from assms obtain mi h d mo w a1 a2 a3 a4 a5
    where f: "f = \<lparr>cf_minute = mi, cf_hour = h, cf_day = d, cf_month = mo, cf_weekday = w\<rparr>"
      and "cron_field a1 0 59 = Inr mi" "cron_field a2 0 23 = Inr h" "cron_field a3 (Suc 0) 31 = Inr d"
        "cron_field a4 (Suc 0) 12 = Inr mo" "cron_field a5 0 7 = Inr w"
    by (auto simp: parseCron_def split: list.splits)
  then have "mi \<noteq> [] \<and> (\<forall>v \<in> set mi. 0 \<le> v \<and> v \<le> 59)" "h \<noteq> [] \<and> (\<forall>v \<in> set h. 0 \<le> v \<and> v \<le> 23)"
    "d \<noteq> [] \<and> (\<forall>v \<in> set d. Suc 0 \<le> v \<and> v \<le> 31)" "mo \<noteq> [] \<and> (\<forall>v \<in> set mo. Suc 0 \<le> v \<and> v \<le> 12)"
    "w \<noteq> [] \<and> (\<forall>v \<in> set w. 0 \<le> v \<and> v \<le> 7)"
    by (simp_all add: cron_field_bounds)
  then show ?thesis unfolding f by simp
qed

theorem parseCron_in_range_witness:
  "\<exists>f. parseCron ''0,30 9-17 * * 1-5'' = Inr f \<and> cf_minute f = [0, 30] \<and> cf_weekday f = [1, 2, 3, 4, 5]
     \<and> \<not> (\<exists>v \<in> set (cf_day f). v < 1 \<or> 31 < v)"
proof -
  let ?f = "\<lparr>cf_minute = [0, 30], cf_hour = [9, 10, 11, 12, 13, 14, 15, 16, 17],
     cf_day = [1 ..< 32], cf_month = [1 ..< 13], cf_weekday = [1, 2, 3, 4, 5]\<rparr>"
  have "parseCron ''0,30 9-17 * * 1-5'' = Inr ?f" by code_simp
  from this parseCron_in_range [OF this] show ?thesis by fastforce
qed

text \<open>
  A schedule that parses starts in the future: a recurring one strictly after now and with
  an interval of at least ten seconds, a one-shot one not before now, and each later run of it is
  strictly after the run before, so following a schedule always makes progress.
\<close>

theorem parseSchedule_progress:
  assumes "parseSchedule dp tz input now = Inr (s, at)"
  shows "now \<le> at \<and> (sch_kind s \<noteq> Once \<longrightarrow> now < at)
       \<and> (sch_kind s = Interval \<longrightarrow> (\<exists>i \<ge> 10000. sch_intervalMs s = Some i \<and> at = now + i \<and> (\<forall>t. nextRunAfter tz s t = Inr (Some (t + i)))))
       \<and> (\<forall>t n. nextRunAfter tz s t = Inr (Some n) \<longrightarrow> t < n)
       \<and> (nextRunAfter tz s now = Inr None \<longleftrightarrow> sch_kind s = Once)"
  using parseSchedule_future [OF assms] nr.nxt_later nr.nxt_None_iff by (auto simp: nextRunAfter_def)

theorem parseSchedule_progress_witness:
  "parseSchedule (\<lambda>_. None) 0 ''Every 5 min'' 1000 =
     Inr (\<lparr>sch_kind = Interval, sch_expression = ''Every 5 min'', sch_intervalMs = Some 300000\<rparr>, 301000)
   \<and> (1000 :: int) < 301000"
proof -
  have h: "parseSchedule (\<lambda>_. None) 0 ''Every 5 min'' 1000 =
     Inr (\<lparr>sch_kind = Interval, sch_expression = ''Every 5 min'', sch_intervalMs = Some 300000\<rparr>, 301000)"
    by code_simp
  from h parseSchedule_progress [OF h] show ?thesis by auto
qed

end
