(* ===== verification/Scheduler.thy ===== *)
theory Scheduler
  imports Schedule
begin

text \<open>
  The scheduler of \<^verbatim>\<open>packages/pi-host/src/scheduler.ts\<close>: the job list and its file, the loaded
  sessions, the timer, claims of due ticks and their delivery.

  A job object of the source is its position in \<open>this.jobs\<close>, because the list only grows, so
  every place that holds a job sees later changes of it. The jobs file holds what the last
  \<open>write\<close> put there. One operation reads the clock once. A dispatch that must reopen its
  session waits for \<open>deps.reopen\<close>, so it is two steps with other operations between them.
  What a loaded session does now (\<open>activity()\<close>) and whether its \<open>send\<close> throws are fields of its
  handle; the log lines are left out.
\<close>

section \<open>State\<close>

datatype role = Root | Child

record handle =
  h_sessionId :: string
  h_sessionFile :: "string option"
  h_cwd :: string
  h_role :: role
  h_rootSessionId :: "string option"
  h_activity :: activity
  h_sendError :: "string option"

datatype send_mode = SendStart | SendSteer | SendFollowUp

datatype scheduled_message =
    HeartbeatPrompt string string string job_status int "int option" "int option"
  | TextPrompt string

datatype jobs_file = NoFile | Unparsed | Stored "job list"

record sched =
  sc_jobs :: "job list"
  sc_file :: jobs_file
  sc_handles :: "string \<Rightarrow> handle option"
  sc_lanes :: "string \<Rightarrow> nat list"
  sc_reopening :: "nat list"
  sc_stopped :: bool
  sc_timer :: "int option"
  sc_changed :: nat
  sc_sent :: "(string \<times> scheduled_message \<times> send_mode) list"

definition heartbeatMessage :: "job \<Rightarrow> scheduled_message" where
  "heartbeatMessage j = HeartbeatPrompt (heartbeat_content j) (job_id j) (sch_expression (job_schedule j))
     (job_status j) (job_runCount j) (job_nextRunAt j) (job_lastRunAt j)"

section \<open>The file and the timer\<close>

definition catalogSignature ::
  "job list \<Rightarrow> (string \<times> job_status \<times> job_source \<times> delivery_mode option \<times> string \<times> string option \<times> string \<times> schedule) list" where
  "catalogSignature js =
     map (\<lambda>j. (job_id j, job_status j, job_source j, job_deliveryMode j, job_activeSessionId j, job_label j, job_prompt j, job_schedule j))
       (filter (\<lambda>j. isHeartbeat j \<and> isLive j) js)"

definition MAX_TIMEOUT_MS :: int where "MAX_TIMEOUT_MS = 2147483647"

definition write_jobs :: "sched \<Rightarrow> sched" where
  "write_jobs s = s\<lparr>sc_file := Stored (sc_jobs s)\<rparr>"

definition armed_times :: "job list \<Rightarrow> int list" where
  "armed_times js = map (\<lambda>j. the (job_nextRunAt j))
     (filter (\<lambda>j. job_status j = Active \<and> job_nextRunAt j \<noteq> None \<and> job_claimedAt j = None) js)"

definition arm :: "int \<Rightarrow> sched \<Rightarrow> sched" where
  "arm now s =
     (if sc_stopped s then s
      else case armed_times (sc_jobs s) of
        [] \<Rightarrow> s\<lparr>sc_timer := None\<rparr>
      | t # ts \<Rightarrow> s\<lparr>sc_timer := Some (min (max 0 (foldl min t ts - now)) MAX_TIMEOUT_MS)\<rparr>)"

definition mutate :: "int \<Rightarrow> (job list \<Rightarrow> job list) \<Rightarrow> sched \<Rightarrow> sched" where
  "mutate now edit s =
     (let s' = write_jobs (s\<lparr>sc_jobs := edit (sc_jobs s)\<rparr>)
      in arm now (if catalogSignature (sc_jobs s') \<noteq> catalogSignature (sc_jobs s)
                  then s'\<lparr>sc_changed := Suc (sc_changed s')\<rparr> else s'))"

text \<open>\<open>patch\<close> on the job at a position.\<close>

definition patch :: "nat \<Rightarrow> (job \<Rightarrow> job) \<Rightarrow> job list \<Rightarrow> job list" where
  "patch i f js = (if i < length js then js[i := f (js ! i)] else js)"

text \<open>
  The constructor: the stored jobs (an unparsed file is moved aside and reads as empty), with
  every claim the stopped host left behind recorded as interrupted and dropped.
\<close>

definition interrupted :: "job \<Rightarrow> job" where
  "interrupted j =
     (case job_claimedAt j of
        None \<Rightarrow> j
      | Some c \<Rightarrow> j\<lparr>job_claimedAt := None,
          job_lastError := Some (''interrupted: pi-host stopped before the tick claimed at '' @ show_int c @ '' was delivered'')\<rparr>)"

definition boot :: "jobs_file \<Rightarrow> sched" where
  "boot file =
     (let js = (case file of Stored js \<Rightarrow> js | _ \<Rightarrow> []);
          file' = (case file of Unparsed \<Rightarrow> NoFile | f \<Rightarrow> f);
          s = \<lparr>sc_jobs = js, sc_file = file', sc_handles = (\<lambda>_. None), sc_lanes = (\<lambda>_. []), sc_reopening = [],
               sc_stopped = True, sc_timer = None, sc_changed = 0, sc_sent = []\<rparr>
      in if list_ex (\<lambda>j. job_claimedAt j \<noteq> None) js
         then write_jobs (s\<lparr>sc_jobs := map interrupted js\<rparr>) else s)"

section \<open>Sessions and new jobs\<close>

definition attach :: "handle \<Rightarrow> sched \<Rightarrow> sched" where
  "attach h s = s\<lparr>sc_handles := (sc_handles s)(h_sessionId h \<mapsto> h)\<rparr>"

definition detach :: "handle \<Rightarrow> sched \<Rightarrow> sched" where
  "detach h s =
     (if sc_handles s (h_sessionId h) = Some h then s\<lparr>sc_handles := (sc_handles s)(h_sessionId h := None)\<rparr> else s)"

definition owner :: "string \<Rightarrow> sched \<Rightarrow> handle res" where
  "owner sid s =
     (case sc_handles s sid of
        None \<Rightarrow> Inl (''Session '' @ sid @ '' is not loaded in pi-host, so it cannot own a schedule now.'')
      | Some h \<Rightarrow> if h_sessionFile h = None \<or> h_sessionFile h = Some [] then Inl ''Schedules need a persisted session file.''
          else Inr h)"

record job_input =
  in_schedule :: string
  in_prompt :: string
  in_label :: "string option"
  in_deliveryMode :: "delivery_mode option"
  in_recurring :: bool

text \<open>The clock, the time zone, the date parser and the fresh id that one operation uses.\<close>

record op_env =
  e_now :: int
  e_tz :: int
  e_parse :: "string \<Rightarrow> date"
  e_uuid :: string

definition nonempty_text :: "string option \<Rightarrow> string option" where
  "nonempty_text t = (case t of Some [] \<Rightarrow> None | _ \<Rightarrow> t)"

definition create :: "op_env \<Rightarrow> string \<Rightarrow> job_source \<Rightarrow> job_input \<Rightarrow> sched \<Rightarrow> job res" where
  "create e sid src inp s =
     rbind (owner sid s) (\<lambda>h.
       let prompt = js_trim (in_prompt inp) in
       if prompt = [] then Inl (if src = CronSource then ''Cron job prompt cannot be empty'' else ''Heartbeat instruction cannot be empty'')
       else rbind (parseSchedule (e_parse e) (e_tz e) (in_schedule inp) (e_now e)) (\<lambda>(sc, at).
         if in_recurring inp \<and> sch_kind sc = Once then Inl ''Heartbeat schedule must be recurring''
         else rbind (to_iso at) (\<lambda>at'.
           Inr \<lparr>job_id = e_uuid e, job_status = Active, job_source = src,
             job_runtimeKind = Some (if h_role h = Child then Subagent else TopLevel),
             job_deliveryMode = (if src = CronSource then None else
               Some (case in_deliveryMode inp of None \<Rightarrow> Steer | Some m \<Rightarrow> m)),
             job_activeSessionId = sid, job_sessionId = sid, job_sessionFile = the (h_sessionFile h), job_cwd = h_cwd h,
             job_label = nonempty_text (map_option js_trim (in_label inp)), job_prompt = prompt, job_schedule = sc,
             job_createdAt = e_now e, job_updatedAt = e_now e, job_nextRunAt = Some at', job_lastRunAt = None,
             job_lastSkippedAt = None, job_lastError = None, job_runCount = 0, job_claimedAt = None,
             job_rootSessionId = nonempty_text (h_rootSessionId h)\<rparr>)))"

section \<open>Reads\<close>

text \<open>
  The order of \<open>(a.nextRunAt ?? "~").localeCompare(b.nextRunAt ?? "~")\<close>: ISO texts of years up to
  9999 compare by time, and in the collation that \<open>localeCompare\<close> uses a symbol such as
  \<open>~\<close> or the plus sign of a later year sorts before every digit.
\<close>

definition YEAR_10000 :: int where "YEAR_10000 = 253402300800000"

definition next_rank :: "int option \<Rightarrow> int" where
  "next_rank n = (case n of
       Some t \<Rightarrow> if t < YEAR_10000 then t + 9000000000000000 else t - 9000000000000000
     | None \<Rightarrow> - 1)"

definition list_jobs :: "string option \<Rightarrow> bool \<Rightarrow> job_source option \<Rightarrow> sched \<Rightarrow> job list" where
  "list_jobs sid includeInactive src s =
     sort_key (\<lambda>j. next_rank (job_nextRunAt j))
       (filter (\<lambda>j. (includeInactive \<or> isLive j)
          \<and> (nonempty_text sid = None \<or> sid = Some (job_activeSessionId j))
          \<and> (src = None \<or> src = Some (job_source j))) (sc_jobs s))"

definition heartbeat :: "string \<Rightarrow> sched \<Rightarrow> job option" where
  "heartbeat sid s =
     (case sort_key (\<lambda>j. - job_updatedAt j) (list_jobs (Some sid) False (Some Heartbeat) s) of
        [] \<Rightarrow> None | j # _ \<Rightarrow> Some j)"

definition find_job :: "string \<Rightarrow> sched \<Rightarrow> nat option" where
  "find_job jid s = find_index (\<lambda>j. job_id j = jid) (sc_jobs s)"

section \<open>User heartbeats and cron jobs\<close>

definition cancelled_at :: "int \<Rightarrow> job \<Rightarrow> job" where
  "cancelled_at now j = j\<lparr>job_status := Cancelled, job_nextRunAt := None, job_updatedAt := now\<rparr>"

definition add_job :: "op_env \<Rightarrow> job \<Rightarrow> sched \<Rightarrow> sched" where
  "add_job e j = mutate (e_now e) (\<lambda>js. js @ [j])"

definition setHeartbeat :: "op_env \<Rightarrow> string \<Rightarrow> string \<Rightarrow> string \<Rightarrow> delivery_mode option \<Rightarrow> sched \<Rightarrow> sched res" where
  "setHeartbeat e sid schedule prompt mode s =
     (let previous = heartbeat sid s;
          mode' = (case mode of Some m \<Rightarrow> Some m | None \<Rightarrow> (case previous of None \<Rightarrow> None | Some p \<Rightarrow> job_deliveryMode p))
      in rbind (create e sid Heartbeat
           \<lparr>in_schedule = normalizeHeartbeatSchedule (Some schedule), in_prompt = prompt, in_label = None,
            in_deliveryMode = mode', in_recurring = True\<rparr> s) (\<lambda>j.
         Inr (mutate (e_now e) (\<lambda>js.
           map (\<lambda>old. if job_activeSessionId old = sid \<and> job_source old = Heartbeat \<and> isLive old
                       then cancelled_at (job_createdAt j) old else old) js @ [j]) s)))"

datatype manage_action = Pause | Resume | Stop

definition manage :: "op_env \<Rightarrow> string \<Rightarrow> string \<Rightarrow> manage_action \<Rightarrow> sched \<Rightarrow> sched res" where
  "manage e sid jid action s =
     (case find_job jid s of
        None \<Rightarrow> Inr s
      | Some i \<Rightarrow>
         (let j = sc_jobs s ! i in
          if job_activeSessionId j \<noteq> sid \<or> \<not> isHeartbeat j \<or> \<not> isLive j then Inr s
          else case action of
            Pause \<Rightarrow> Inr (mutate (e_now e) (patch i (\<lambda>j. j\<lparr>job_status := Paused, job_nextRunAt := None, job_updatedAt := e_now e\<rparr>)) s)
          | Stop \<Rightarrow> Inr (mutate (e_now e) (patch i (\<lambda>j. j\<lparr>job_status := Cancelled, job_nextRunAt := None, job_updatedAt := e_now e\<rparr>)) s)
          | Resume \<Rightarrow>
              rbind (nextRunAfter (e_tz e) (job_schedule j) (e_now e)) (\<lambda>n.
                case n of
                  None \<Rightarrow> Inl ''TypeError''
                | Some t \<Rightarrow> rbind (to_iso t) (\<lambda>t'.
                    Inr (mutate (e_now e) (patch i (\<lambda>j. j\<lparr>job_status := Active, job_nextRunAt := Some t', job_updatedAt := e_now e\<rparr>)) s)))))"

definition updateHeartbeat :: "op_env \<Rightarrow> string \<Rightarrow> manage_action \<Rightarrow> sched \<Rightarrow> sched res" where
  "updateHeartbeat e sid action s =
     (case heartbeat sid s of None \<Rightarrow> Inr s | Some j \<Rightarrow> manage e sid (job_id j) action s)"

definition addCron :: "op_env \<Rightarrow> string \<Rightarrow> string \<Rightarrow> string \<Rightarrow> sched \<Rightarrow> sched res" where
  "addCron e sid schedule prompt s =
     rbind (create e sid CronSource
       \<lparr>in_schedule = schedule, in_prompt = prompt, in_label = None, in_deliveryMode = None, in_recurring = False\<rparr> s)
       (\<lambda>j. Inr (add_job e j s))"

definition cancel_job :: "op_env \<Rightarrow> string \<Rightarrow> sched \<Rightarrow> sched" where
  "cancel_job e jid s =
     (case find_job jid s of
        None \<Rightarrow> s
      | Some i \<Rightarrow> if job_status (sc_jobs s ! i) = Cancelled then s
          else mutate (e_now e) (patch i (cancelled_at (e_now e))) s)"

definition cancelSession :: "op_env \<Rightarrow> string \<Rightarrow> sched \<Rightarrow> sched" where
  "cancelSession e sid s =
     (if \<not> list_ex (\<lambda>j. job_activeSessionId j = sid \<and> isLive j) (sc_jobs s) then s
      else mutate (e_now e) (map (\<lambda>j. if job_activeSessionId j = sid \<and> isLive j then cancelled_at (e_now e) j else j)) s)"

definition cancelTree :: "op_env \<Rightarrow> string \<Rightarrow> sched \<Rightarrow> sched" where
  "cancelTree e sid s =
     fold (cancelSession e)
       (js_uniq (map job_activeSessionId
         (filter (\<lambda>j. job_activeSessionId j = sid \<or> job_rootSessionId j = Some sid) (sc_jobs s)))) s"

section \<open>RLM heartbeats\<close>

definition createRlmHeartbeat ::
  "op_env \<Rightarrow> string \<Rightarrow> string \<Rightarrow> string option \<Rightarrow> string option \<Rightarrow> delivery_mode option \<Rightarrow> sched \<Rightarrow> sched res" where
  "createRlmHeartbeat e sid instruction interval label mode s =
     rbind (create e sid RlmHeartbeat
       \<lparr>in_schedule = normalizeHeartbeatSchedule interval, in_prompt = instruction, in_label = label,
        in_deliveryMode = mode, in_recurring = True\<rparr> s)
       (\<lambda>j. Inr (add_job e j s))"

record rlm_update =
  up_instruction :: "string option"
  up_interval :: "string option"
  up_label :: "string option"
  up_status :: "manage_action option"
  up_deliveryMode :: "delivery_mode option"

text \<open>The new schedule and next run that an update's interval asks for, \<open>None\<close> when it has none.\<close>

definition update_interval :: "op_env \<Rightarrow> string option \<Rightarrow> ((schedule \<times> int) option) res" where
  "update_interval e interval =
     (case interval of
        None \<Rightarrow> Inr None
      | Some t \<Rightarrow>
          rbind (parseSchedule (e_parse e) (e_tz e) (normalizeHeartbeatSchedule (Some t)) (e_now e)) (\<lambda>(sc, at).
            if sch_kind sc = Once then Inl ''RLM heartbeat schedule must be recurring''
            else rbind (to_iso at) (\<lambda>at'. Inr (Some (sc, at')))))"

definition updated_status :: "manage_action option \<Rightarrow> job_status \<Rightarrow> job_status" where
  "updated_status u st = (case u of Some Pause \<Rightarrow> Paused | Some Resume \<Rightarrow> Active | _ \<Rightarrow> st)"

definition updateRlmHeartbeat :: "op_env \<Rightarrow> string \<Rightarrow> string \<Rightarrow> rlm_update \<Rightarrow> sched \<Rightarrow> sched res" where
  "updateRlmHeartbeat e sid jid u s =
     (case find_job jid s of
        None \<Rightarrow> Inr s
      | Some i \<Rightarrow>
         (let j = sc_jobs s ! i in
          if job_activeSessionId j \<noteq> sid \<or> job_source j \<noteq> RlmHeartbeat \<or> \<not> isLive j then Inr s
          else if (\<exists>t \<in> set_option (up_instruction u). js_trim t = []) then Inl ''RLM heartbeat instruction cannot be empty''
          else rbind (update_interval e (up_interval u)) (\<lambda>iv.
            let st = updated_status (up_status u) (job_status j);
                sc = (case iv of None \<Rightarrow> job_schedule j | Some (sc, _) \<Rightarrow> sc);
                kept = (case iv of None \<Rightarrow> job_nextRunAt j | Some (_, at) \<Rightarrow> Some at)
            in rbind (if st = Paused then Inr None
                      else if up_status u = Some Resume then
                        rbind (nextRunAfter (e_tz e) sc (e_now e)) (\<lambda>n.
                          case n of None \<Rightarrow> Inl ''TypeError'' | Some t \<Rightarrow> rbind (to_iso t) (\<lambda>t'. Inr (Some t')))
                      else Inr kept) (\<lambda>nextAt.
                 Inr (mutate (e_now e) (patch i (\<lambda>j. j\<lparr>
                   job_label := (case up_label u of None \<Rightarrow> job_label j | Some l \<Rightarrow> nonempty_text (Some (js_trim l))),
                   job_deliveryMode := (case up_deliveryMode u of None \<Rightarrow> job_deliveryMode j | Some m \<Rightarrow> Some m),
                   job_prompt := (case up_instruction u of None \<Rightarrow> job_prompt j | Some t \<Rightarrow> js_trim t),
                   job_schedule := sc, job_status := st, job_nextRunAt := nextAt, job_updatedAt := e_now e\<rparr>)) s)))))"

definition deleteRlmHeartbeat :: "op_env \<Rightarrow> string \<Rightarrow> string \<Rightarrow> sched \<Rightarrow> sched" where
  "deleteRlmHeartbeat e sid jid s =
     (case find_job jid s of
        None \<Rightarrow> s
      | Some i \<Rightarrow>
         (let j = sc_jobs s ! i in
          if job_activeSessionId j \<noteq> sid \<or> job_source j \<noteq> RlmHeartbeat then s
          else mutate (e_now e) (patch i (cancelled_at (e_now e))) s))"

section \<open>The clock\<close>

definition start_sched :: "int \<Rightarrow> sched \<Rightarrow> sched" where
  "start_sched now s = arm now (s\<lparr>sc_stopped := False\<rparr>)"

definition stop_sched :: "sched \<Rightarrow> sched" where
  "stop_sched s = s\<lparr>sc_stopped := True, sc_timer := None\<rparr>"

definition is_due :: "int \<Rightarrow> job \<Rightarrow> bool" where
  "is_due now j \<longleftrightarrow> job_status j = Active \<and> job_claimedAt j = None \<and> (\<exists>t \<in> set_option (job_nextRunAt j). t \<le> now)"

definition due_jobs :: "int \<Rightarrow> job list \<Rightarrow> nat list" where
  "due_jobs now js = filter (\<lambda>i. is_due now (js ! i)) [0 ..< length js]"

text \<open>The claim of one due job; a schedule whose next run throws leaves the job as it was.\<close>

definition claim :: "int \<Rightarrow> int \<Rightarrow> job \<Rightarrow> job res" where
  "claim tz now j =
     rbind (nextRunAfter tz (job_schedule j) (if sch_kind (job_schedule j) = Cron then now + 1 else now)) (\<lambda>n.
     rbind (case n of None \<Rightarrow> Inr None | Some t \<Rightarrow> rbind (to_iso t) (\<lambda>t'. Inr (Some t'))) (\<lambda>n'.
       Inr (j\<lparr>job_claimedAt := Some now, job_nextRunAt := n'\<rparr>)))"

fun claim_all :: "int \<Rightarrow> int \<Rightarrow> nat list \<Rightarrow> job list \<Rightarrow> job list \<times> unit res" where
  "claim_all tz now [] js = (js, Inr ())"
| "claim_all tz now (i # is) js =
     (case claim tz now (js ! i) of
        Inl m \<Rightarrow> (js, Inl m)
      | Inr j \<Rightarrow> claim_all tz now is (js[i := j]))"

definition queue_job :: "nat \<Rightarrow> sched \<Rightarrow> sched" where
  "queue_job i s =
     (let lane = job_activeSessionId (sc_jobs s ! i)
      in s\<lparr>sc_lanes := (sc_lanes s)(lane := sc_lanes s lane @ [i])\<rparr>)"

text \<open>
  \<open>runDue\<close>. When a claim throws, the promise rejects: the jobs claimed so far stay claimed in
  memory, nothing is written or queued, and the timer is not armed again.
\<close>

definition runDue :: "int \<Rightarrow> int \<Rightarrow> sched \<Rightarrow> sched \<times> nat res" where
  "runDue tz now s =
     (let due = due_jobs now (sc_jobs s) in
      case claim_all tz now due (sc_jobs s) of
        (js, Inl m) \<Rightarrow> (s\<lparr>sc_jobs := js\<rparr>, Inl m)
      | (js, Inr _) \<Rightarrow>
          (let s1 = (if due = [] then s else write_jobs (s\<lparr>sc_jobs := js\<rparr>))
           in (arm now (fold queue_job due s1), Inr (length due))))"

text \<open>The timer's callback.\<close>

definition timer_fires :: "int \<Rightarrow> int \<Rightarrow> sched \<Rightarrow> sched \<times> nat res" where
  "timer_fires tz now s = runDue tz now (s\<lparr>sc_timer := None\<rparr>)"

section \<open>Delivery\<close>

datatype outcome = Ran | Skipped

text \<open>The \<open>finally\<close> block of \<open>dispatch\<close>, which ends the job's turn in its lane.\<close>

definition finished_job :: "int \<Rightarrow> outcome \<Rightarrow> string option \<Rightarrow> job \<Rightarrow> job" where
  "finished_job now oc err j =
     (let j1 = j\<lparr>job_claimedAt := None, job_updatedAt := now, job_lastError := err\<rparr>;
          j2 = (if oc = Ran then j1\<lparr>job_runCount := job_runCount j + 1, job_lastRunAt := Some now\<rparr>
                else j1\<lparr>job_lastSkippedAt := Some now\<rparr>)
      in if sch_kind (job_schedule j) = Once \<and> job_status j = Active \<and> oc = Ran
         then j2\<lparr>job_status := Completed, job_nextRunAt := None\<rparr> else j2)"

definition leave_lane :: "nat \<Rightarrow> sched \<Rightarrow> sched" where
  "leave_lane i s =
     s\<lparr>sc_lanes := (\<lambda>l. remove1 i (sc_lanes s l)), sc_reopening := remove1 i (sc_reopening s)\<rparr>"

definition dispatch_finish :: "int \<Rightarrow> nat \<Rightarrow> outcome \<Rightarrow> string option \<Rightarrow> sched \<Rightarrow> sched" where
  "dispatch_finish now i oc err s = leave_lane i (mutate now (patch i (finished_job now oc err)) s)"

text \<open>The part of \<open>dispatch\<close> after the job's session has a handle.\<close>

definition send_mode_of :: "job \<Rightarrow> bool \<Rightarrow> send_mode" where
  "send_mode_of j busy =
     (if \<not> busy then SendStart
      else if isHeartbeat j \<and> job_deliveryMode j \<noteq> Some FollowUp then SendSteer else SendFollowUp)"

definition dispatch_message :: "job \<Rightarrow> scheduled_message" where
  "dispatch_message j =
     (if isHeartbeat j then heartbeatMessage (j\<lparr>job_runCount := job_runCount j + 1\<rparr>) else TextPrompt (job_prompt j))"

definition dispatch_deliver :: "int \<Rightarrow> nat \<Rightarrow> handle \<Rightarrow> sched \<Rightarrow> sched" where
  "dispatch_deliver now i h s =
     (let j = sc_jobs s ! i in
      if defers j (h_activity h) then dispatch_finish now i Skipped None s
      else case h_sendError h of
        Some m \<Rightarrow> dispatch_finish now i Ran (Some m) s
      | None \<Rightarrow> dispatch_finish now i Ran None
          (s\<lparr>sc_sent := sc_sent s @ [(h_sessionId h, dispatch_message j, send_mode_of j (streaming (h_activity h)))]\<rparr>))"

text \<open>
  \<open>dispatch\<close> up to its end, or up to the \<open>await\<close> of \<open>deps.reopen\<close> when the session is not loaded
  and its file is there (\<open>exists\<close>).
\<close>

definition dispatch_begin :: "int \<Rightarrow> (string \<Rightarrow> bool) \<Rightarrow> nat \<Rightarrow> sched \<Rightarrow> sched" where
  "dispatch_begin now exists i s =
     (let j = sc_jobs s ! i in
      if job_status j \<noteq> Active then dispatch_finish now i Skipped None s
      else case sc_handles s (job_activeSessionId j) of
        Some h \<Rightarrow> dispatch_deliver now i h s
      | None \<Rightarrow>
          if \<not> exists (job_sessionFile j) then
            dispatch_finish now i Skipped
              (Some (''session file '' @ job_sessionFile j @ '' is gone; the job was cancelled''))
              (s\<lparr>sc_jobs := patch i (\<lambda>j. j\<lparr>job_status := Cancelled, job_nextRunAt := None\<rparr>) (sc_jobs s)\<rparr>)
          else s\<lparr>sc_reopening := i # sc_reopening s\<rparr>)"

text \<open>The rest of \<open>dispatch\<close> once \<open>deps.reopen\<close> threw \<open>Some m\<close> or returned \<open>None\<close>.\<close>

definition dispatch_reopened :: "int \<Rightarrow> string option \<Rightarrow> nat \<Rightarrow> sched \<Rightarrow> sched" where
  "dispatch_reopened now failed i s =
     (let j = sc_jobs s ! i in
      case failed of
        Some m \<Rightarrow> dispatch_finish now i Ran (Some m) s
      | None \<Rightarrow>
         (case sc_handles s (job_activeSessionId j) of
            None \<Rightarrow> dispatch_finish now i Ran
              (Some (''session '' @ job_activeSessionId j @ '' opened but attached no scheduler handle; is the scheduler extension loaded?'')) s
          | Some h \<Rightarrow> dispatch_deliver now i h s))"

section \<open>Invariant\<close>

text \<open>
  What holds of every job at clock \<open>clk\<close>: only an active job has a next run, a heartbeat
  recurs, and a claimed tick lies in the past with the next run after it.
\<close>

definition job_ok :: "int \<Rightarrow> job \<Rightarrow> bool" where
  "job_ok clk j \<longleftrightarrow>
     (job_status j \<noteq> Active \<longrightarrow> job_nextRunAt j = None)
     \<and> (isHeartbeat j \<longrightarrow> sch_kind (job_schedule j) \<noteq> Once)
     \<and> (\<forall>c. job_claimedAt j = Some c \<longrightarrow> c \<le> clk \<and> (\<forall>n. job_nextRunAt j = Some n \<longrightarrow> c < n))"

text \<open>At most one live user heartbeat per session.\<close>

definition rivals :: "job \<Rightarrow> job \<Rightarrow> bool" where
  "rivals a b \<longleftrightarrow> job_source a = Heartbeat \<and> isLive a \<and> job_source b = Heartbeat \<and> isLive b
     \<and> job_activeSessionId a = job_activeSessionId b"

definition jobs_ok :: "int \<Rightarrow> job list \<Rightarrow> bool" where
  "jobs_ok clk js \<longleftrightarrow> list_all (job_ok clk) js \<and> sorted_wrt (\<lambda>a b. \<not> rivals a b) js"

definition lanes_ok :: "job list \<Rightarrow> (string \<Rightarrow> nat list) \<Rightarrow> bool" where
  "lanes_ok js lanes \<longleftrightarrow> (\<forall>l. distinct (lanes l) \<and> (\<forall>i \<in> set (lanes l).
     i < length js \<and> job_activeSessionId (js ! i) = l \<and> job_claimedAt (js ! i) \<noteq> None))"

definition file_ok :: "int \<Rightarrow> jobs_file \<Rightarrow> bool" where
  "file_ok clk f = (case f of Stored js \<Rightarrow> jobs_ok clk js | _ \<Rightarrow> True)"

definition sched_ok :: "int \<Rightarrow> sched \<Rightarrow> bool" where
  "sched_ok clk s \<longleftrightarrow> jobs_ok clk (sc_jobs s) \<and> lanes_ok (sc_jobs s) (sc_lanes s) \<and> file_ok clk (sc_file s)
     \<and> distinct (sc_reopening s) \<and> (\<forall>i \<in> set (sc_reopening s). \<exists>l. i \<in> set (sc_lanes s l))"

text \<open>What an edit keeps of a job: its session, its source, its claim, and that a dead job stays dead.\<close>

definition derived :: "job \<Rightarrow> job \<Rightarrow> bool" where
  "derived j j' \<longleftrightarrow> job_activeSessionId j' = job_activeSessionId j \<and> job_source j' = job_source j
     \<and> (isLive j' \<longrightarrow> isLive j)"

definition edits :: "int \<Rightarrow> int \<Rightarrow> (job list \<Rightarrow> job list) \<Rightarrow> job list \<Rightarrow> bool" where
  "edits clk now edit js \<longleftrightarrow> jobs_ok now (edit js) \<and> length js \<le> length (edit js)
     \<and> (\<forall>i < length js. job_activeSessionId (edit js ! i) = job_activeSessionId (js ! i)
          \<and> job_claimedAt (edit js ! i) = job_claimedAt (js ! i))"

lemma job_ok_mono: "job_ok clk j \<Longrightarrow> clk \<le> now \<Longrightarrow> job_ok now j"
  by (auto simp: job_ok_def)

lemma jobs_ok_mono: "jobs_ok clk js \<Longrightarrow> clk \<le> now \<Longrightarrow> jobs_ok now js"
  by (auto simp: jobs_ok_def list_all_iff job_ok_mono)

lemma file_ok_mono: "file_ok clk f \<Longrightarrow> clk \<le> now \<Longrightarrow> file_ok now f"
  by (auto simp: file_ok_def jobs_ok_mono split: jobs_file.splits)

lemma derived_rivals: "derived a a' \<Longrightarrow> derived b b' \<Longrightarrow> rivals a' b' \<Longrightarrow> rivals a b"
  by (auto simp: derived_def rivals_def)

lemma derived_refl [simp]: "derived j j"
  by (simp add: derived_def)

lemma jobs_ok_derived:
  assumes "jobs_ok clk js" and "list_all2 derived js js'" and "list_all (job_ok now) js'"
  shows "jobs_ok now js'"
proof -
  have "\<not> rivals (js' ! i) (js' ! k)" if "i < k" "k < length js'" for i k
  proof
    assume r: "rivals (js' ! i) (js' ! k)"
    have len: "length js = length js'" using assms(2) by (rule list_all2_lengthD)
    with that have "derived (js ! i) (js' ! i)" "derived (js ! k) (js' ! k)"
      using assms(2) by (simp_all add: list_all2_nthD)
    with r have "rivals (js ! i) (js ! k)" using derived_rivals by blast
    moreover have "\<not> rivals (js ! i) (js ! k)"
      using assms(1) that len by (simp add: jobs_ok_def sorted_wrt_iff_nth_less)
    ultimately show False by simp
  qed
  then show ?thesis using assms(3) by (simp add: jobs_ok_def sorted_wrt_iff_nth_less)
qed

lemma jobs_ok_append:
  assumes "jobs_ok clk js" and "job_ok clk j" and "\<And>a. a \<in> set js \<Longrightarrow> \<not> rivals a j"
  shows "jobs_ok clk (js @ [j])"
  using assms by (auto simp: jobs_ok_def sorted_wrt_append)

text \<open>Changing one job, or every job that a test picks, by a function that keeps it derived and well-formed.\<close>

lemma jobs_ok_patch:
  assumes "jobs_ok clk js" and "clk \<le> now" and "i < length js"
    and "derived (js ! i) (f (js ! i))" and "job_ok now (f (js ! i))"
  shows "jobs_ok now (patch i f js)"
proof -
  have "jobs_ok now (js[i := f (js ! i)])"
  proof (rule jobs_ok_derived [OF assms(1)])
    show "list_all2 derived js (js[i := f (js ! i)])"
      using assms(3,4) by (simp add: list_all2_conv_all_nth nth_list_update)
    show "list_all (job_ok now) (js[i := f (js ! i)])"
      using assms(1,2,5) by (auto simp: jobs_ok_def list_all_iff job_ok_mono dest!: set_update_subset_insert [THEN subsetD])
  qed
  then show ?thesis using assms(3) by (simp add: patch_def)
qed

lemma edits_patch:
  assumes "jobs_ok clk js" and "clk \<le> now" and "i < length js"
    and "derived (js ! i) (f (js ! i))" and "job_ok now (f (js ! i))"
    and "job_claimedAt (f (js ! i)) = job_claimedAt (js ! i)"
  shows "edits clk now (patch i f) js"
  using jobs_ok_patch [where f = f, OF assms(1-5)] assms(3,4,6) by (auto simp: edits_def patch_def nth_list_update derived_def)

lemma edits_map:
  assumes "jobs_ok clk js" and "clk \<le> now"
    and "\<And>j. j \<in> set js \<Longrightarrow> job_ok clk j \<Longrightarrow> derived j (f j) \<and> job_ok now (f j) \<and> job_claimedAt (f j) = job_claimedAt j"
  shows "edits clk now (map f) js"
proof -
  have ok: "\<And>j. j \<in> set js \<Longrightarrow> derived j (f j) \<and> job_ok now (f j) \<and> job_claimedAt (f j) = job_claimedAt j"
    using assms(1,3) by (auto simp: jobs_ok_def list_all_iff)
  have "jobs_ok now (map f js)"
    by (rule jobs_ok_derived [OF assms(1)]) (use ok in \<open>auto simp: list_all2_conv_all_nth list_all_iff\<close>)
  then show ?thesis using ok by (auto simp: edits_def derived_def)
qed

lemma edits_append:
  assumes "edits clk now f js" and "job_ok now j" and "\<And>a. a \<in> set (f js) \<Longrightarrow> \<not> rivals a j"
  shows "edits clk now (\<lambda>js. f js @ [j]) js"
  using assms by (auto simp: edits_def nth_append intro: jobs_ok_append)

lemma cancelled_at_ok:
  "job_ok clk j \<Longrightarrow> clk \<le> now \<Longrightarrow> derived j (cancelled_at t j) \<and> job_ok now (cancelled_at t j)
     \<and> job_claimedAt (cancelled_at t j) = job_claimedAt j"
  by (auto simp: cancelled_at_def derived_def job_ok_def isLive_def isHeartbeat_def)

section \<open>Every operation keeps the invariant\<close>

lemma arm_fields [simp]:
  "sc_jobs (arm now s) = sc_jobs s" "sc_file (arm now s) = sc_file s" "sc_lanes (arm now s) = sc_lanes s"
  "sc_reopening (arm now s) = sc_reopening s" "sc_handles (arm now s) = sc_handles s" "sc_sent (arm now s) = sc_sent s"
  "sc_stopped (arm now s) = sc_stopped s" "sc_changed (arm now s) = sc_changed s"
  by (simp_all add: arm_def split: list.split)

lemma mutate_fields [simp]:
  "sc_jobs (mutate now f s) = f (sc_jobs s)" "sc_file (mutate now f s) = Stored (f (sc_jobs s))"
  "sc_lanes (mutate now f s) = sc_lanes s" "sc_reopening (mutate now f s) = sc_reopening s"
  "sc_handles (mutate now f s) = sc_handles s" "sc_sent (mutate now f s) = sc_sent s"
  "sc_stopped (mutate now f s) = sc_stopped s"
  by (simp_all add: mutate_def write_jobs_def Let_def)

lemma mutate_ok:
  assumes "sched_ok clk s" and "edits clk now f (sc_jobs s)"
  shows "sched_ok now (mutate now f s)"
proof -
  have "lanes_ok (f (sc_jobs s)) (sc_lanes s)"
    using assms unfolding sched_ok_def edits_def lanes_ok_def by (metis less_le_trans)
  then show ?thesis using assms by (simp add: sched_ok_def edits_def file_ok_def)
qed

lemma to_iso_eq: "to_iso t = Inr u \<Longrightarrow> u = t"
  by (auto simp: to_iso_def split: if_splits)

lemma sched_ok_mono: "sched_ok clk s \<Longrightarrow> clk \<le> now \<Longrightarrow> sched_ok now s"
  by (auto simp: sched_ok_def jobs_ok_mono file_ok_mono)

lemma sched_ok_jobs: "sched_ok clk s \<Longrightarrow> jobs_ok clk (sc_jobs s)"
  by (simp add: sched_ok_def)

lemma sched_ok_nth: "sched_ok clk s \<Longrightarrow> i < length (sc_jobs s) \<Longrightarrow> job_ok clk (sc_jobs s ! i)"
  by (simp add: sched_ok_def jobs_ok_def list_all_length)

lemma create_job:
  assumes "create e sid src inp s = Inr j"
  shows "job_activeSessionId j = sid \<and> job_source j = src \<and> job_claimedAt j = None \<and> job_status j = Active
     \<and> job_createdAt j = e_now e \<and> (in_recurring inp \<longrightarrow> sch_kind (job_schedule j) \<noteq> Once)
     \<and> (\<exists>at. job_nextRunAt j = Some at \<and> e_now e \<le> at)"
  using assms unfolding create_def Let_def
  by (auto split: if_split_asm prod.splits dest!: parseSchedule_future to_iso_eq)

lemma find_job_Some: "find_job jid s = Some i \<Longrightarrow> i < length (sc_jobs s) \<and> job_id (sc_jobs s ! i) = jid"
  by (auto simp: find_job_def dest: find_index_Some)

lemma mutate_patch_ok:
  assumes "sched_ok clk s" and "clk \<le> now" and "i < length (sc_jobs s)"
    and "job_ok clk (sc_jobs s ! i) \<Longrightarrow> derived (sc_jobs s ! i) (f (sc_jobs s ! i)) \<and> job_ok now (f (sc_jobs s ! i))
       \<and> job_claimedAt (f (sc_jobs s ! i)) = job_claimedAt (sc_jobs s ! i)"
  shows "sched_ok now (mutate now (patch i f) s)"
  using assms(4) [OF sched_ok_nth [OF assms(1,3)]]
  by (intro mutate_ok [OF assms(1)] edits_patch [OF sched_ok_jobs [OF assms(1)] assms(2,3)]) auto

lemma add_job_ok:
  assumes "sched_ok clk s" and "clk \<le> e_now e" and "create e sid src inp s = Inr j"
    and "src \<noteq> Heartbeat" and "src = RlmHeartbeat \<longrightarrow> in_recurring inp"
  shows "sched_ok (e_now e) (add_job e j s)"
proof -
  have j: "job_ok (e_now e) j" "\<not> rivals a j" for a
    using create_job [OF assms(3)] assms(4,5) by (auto simp: job_ok_def isHeartbeat_def rivals_def)
  have "edits clk (e_now e) (\<lambda>js. js) (sc_jobs s)"
    using assms(1,2) by (auto simp: edits_def sched_ok_def jobs_ok_mono)
  from edits_append [OF this j] show ?thesis
    unfolding add_job_def by (rule mutate_ok [OF assms(1)])
qed

lemma addCron_ok: "sched_ok clk s \<Longrightarrow> clk \<le> e_now e \<Longrightarrow> addCron e sid sc pr s = Inr t \<Longrightarrow> sched_ok (e_now e) t"
  unfolding addCron_def by (auto intro: add_job_ok)

lemma createRlmHeartbeat_ok:
  "sched_ok clk s \<Longrightarrow> clk \<le> e_now e \<Longrightarrow> createRlmHeartbeat e sid ins iv lb m s = Inr t \<Longrightarrow> sched_ok (e_now e) t"
  unfolding createRlmHeartbeat_def by (auto intro: add_job_ok)

lemma setHeartbeat_ok:
  assumes "sched_ok clk s" and "clk \<le> e_now e" and "setHeartbeat e sid sc pr m s = Inr t"
  shows "sched_ok (e_now e) t"
proof -
  from assms(3) obtain inp j where c: "create e sid Heartbeat inp s = Inr j" "in_recurring inp"
    and t: "t = mutate (e_now e) (\<lambda>js.
           map (\<lambda>old. if job_activeSessionId old = sid \<and> job_source old = Heartbeat \<and> isLive old
                       then cancelled_at (job_createdAt j) old else old) js @ [j]) s"
    unfolding setHeartbeat_def Let_def by auto
  let ?f = "\<lambda>old. if job_activeSessionId old = sid \<and> job_source old = Heartbeat \<and> isLive old
                       then cancelled_at (job_createdAt j) old else old"
  have "edits clk (e_now e) (map ?f) (sc_jobs s)"
    by (rule edits_map [OF sched_ok_jobs [OF assms(1)] assms(2)])
       (use assms(2) in \<open>auto intro: cancelled_at_ok [THEN conjunct1] job_ok_mono dest: cancelled_at_ok\<close>)
  moreover have "job_ok (e_now e) j"
    using create_job [OF c(1)] c(2) by (auto simp: job_ok_def)
  moreover have "\<not> rivals a j" if "a \<in> set (map ?f (sc_jobs s))" for a
    using that create_job [OF c(1)] by (auto simp: rivals_def cancelled_at_def isLive_def)
  ultimately show ?thesis unfolding t by (intro mutate_ok [OF assms(1)] edits_append)
qed

lemma manage_ok:
  assumes "sched_ok clk s" and "clk \<le> e_now e" and "manage e sid jid action s = Inr t"
  shows "sched_ok (e_now e) t"
proof (cases "t = s")
  case True
  then show ?thesis using assms(1,2) by (simp add: sched_ok_mono)
next
  case False
  with assms(3) obtain i where i: "find_job jid s = Some i" "isLive (sc_jobs s ! i)"
    by (auto simp: manage_def Let_def split: option.splits if_splits)
  have len: "i < length (sc_jobs s)" using find_job_Some [OF i(1)] by simp
  show ?thesis
  proof (cases action)
    case Resume
    with assms(3) False i obtain n where n: "nextRunAfter (e_tz e) (job_schedule (sc_jobs s ! i)) (e_now e) = Inr (Some n)"
      and t: "t = mutate (e_now e) (patch i (\<lambda>j. j\<lparr>job_status := Active, job_nextRunAt := Some n, job_updatedAt := e_now e\<rparr>)) s"
      by (auto simp: manage_def Let_def split: if_split_asm option.splits dest!: to_iso_eq)
    have "e_now e < n" using n by (rule nextRunAfter_later)
    with i(2) assms(2) show ?thesis unfolding t
      by (intro mutate_patch_ok [OF assms(1,2) len]) (force simp: derived_def job_ok_def isLive_def isHeartbeat_def)
  qed (use assms(3) False i in \<open>auto simp: manage_def Let_def split: if_split_asm
      intro!: mutate_patch_ok [OF assms(1,2) len]\<close>, use assms(2) in \<open>auto simp: derived_def job_ok_def isLive_def isHeartbeat_def\<close>)
qed

lemma updateHeartbeat_ok:
  "sched_ok clk s \<Longrightarrow> clk \<le> e_now e \<Longrightarrow> updateHeartbeat e sid action s = Inr t \<Longrightarrow> sched_ok (e_now e) t"
  by (auto simp: updateHeartbeat_def sched_ok_mono split: option.splits intro: manage_ok)

lemma cancel_job_ok: "sched_ok clk s \<Longrightarrow> clk \<le> e_now e \<Longrightarrow> sched_ok (e_now e) (cancel_job e jid s)"
  unfolding cancel_job_def
  by (auto simp: sched_ok_mono split: option.splits dest!: find_job_Some intro!: mutate_patch_ok cancelled_at_ok)

lemma cancelSession_ok: "sched_ok clk s \<Longrightarrow> clk \<le> e_now e \<Longrightarrow> sched_ok (e_now e) (cancelSession e sid s)"
  unfolding cancelSession_def
  by (auto simp: sched_ok_mono job_ok_mono dest: cancelled_at_ok intro!: mutate_ok edits_map sched_ok_jobs)

lemma cancelTree_ok: "sched_ok clk s \<Longrightarrow> clk \<le> e_now e \<Longrightarrow> sched_ok (e_now e) (cancelTree e sid s)"
proof -
  have "sched_ok (e_now e) u \<Longrightarrow> sched_ok (e_now e) (fold (cancelSession e) ids u)" for ids u
    by (induction ids arbitrary: u) (auto intro: cancelSession_ok)
  then show "sched_ok clk s \<Longrightarrow> clk \<le> e_now e \<Longrightarrow> sched_ok (e_now e) (cancelTree e sid s)"
    by (simp add: cancelTree_def sched_ok_mono)
qed

lemma deleteRlmHeartbeat_ok: "sched_ok clk s \<Longrightarrow> clk \<le> e_now e \<Longrightarrow> sched_ok (e_now e) (deleteRlmHeartbeat e sid jid s)"
  unfolding deleteRlmHeartbeat_def
  by (auto simp: Let_def sched_ok_mono split: option.splits dest!: find_job_Some intro!: mutate_patch_ok cancelled_at_ok)

end
