(* ===== verification/SchedulerRuns.thy ===== *)
theory SchedulerRuns
  imports Scheduler
begin

text \<open>
  Runs of the scheduler: the remaining operations keep the invariant, the step relation that
  interleaves them, the invariant of every reachable state, and the scheduler's properties.
\<close>

section \<open>The remaining operations keep the invariant\<close>

lemma update_interval_later:
  "update_interval e iv = Inr (Some (sc, at)) \<Longrightarrow> e_now e < at \<and> sch_kind sc \<noteq> Once"
  by (auto simp: update_interval_def split: option.splits if_split_asm dest!: parseSchedule_future to_iso_eq)

lemma updateRlmHeartbeat_ok:
  assumes "sched_ok clk s" and "clk \<le> e_now e" and "updateRlmHeartbeat e sid jid u s = Inr t"
  shows "sched_ok (e_now e) t"
proof (cases "t = s")
  case True
  then show ?thesis using assms(1,2) by (simp add: sched_ok_mono)
next
  case False
  with assms(3) obtain i where i: "find_job jid s = Some i" "isLive (sc_jobs s ! i)" "job_source (sc_jobs s ! i) = RlmHeartbeat"
    by (auto simp: updateRlmHeartbeat_def Let_def split: option.splits if_split_asm)
  have len: "i < length (sc_jobs s)" using find_job_Some [OF i(1)] by simp
  obtain iv nx lb dm pr where iv: "update_interval e (up_interval u) = Inr iv"
    and nx: "(if updated_status (up_status u) (job_status (sc_jobs s ! i)) = Paused then Inr None
          else if up_status u = Some Resume then
            rbind (nextRunAfter (e_tz e) (case iv of None \<Rightarrow> job_schedule (sc_jobs s ! i) | Some (sc, _) \<Rightarrow> sc) (e_now e)) (\<lambda>n.
              case n of None \<Rightarrow> Inl ''TypeError'' | Some t \<Rightarrow> rbind (to_iso t) (\<lambda>t'. Inr (Some t')))
          else Inr (case iv of None \<Rightarrow> job_nextRunAt (sc_jobs s ! i) | Some (_, at) \<Rightarrow> Some at)) = Inr nx"
    and t: "t = mutate (e_now e) (patch i (\<lambda>j. j\<lparr>job_label := lb j, job_deliveryMode := dm j, job_prompt := pr j,
        job_schedule := (case iv of None \<Rightarrow> job_schedule (sc_jobs s ! i) | Some (sc, _) \<Rightarrow> sc),
        job_status := updated_status (up_status u) (job_status (sc_jobs s ! i)), job_nextRunAt := nx, job_updatedAt := e_now e\<rparr>)) s"
    using assms(3) False i
    unfolding updateRlmHeartbeat_def Let_def
    by (auto split: if_split_asm)
  have st: "updated_status (up_status u) (job_status (sc_jobs s ! i)) \<in> {Active, Paused}"
    using i(2) by (auto simp: updated_status_def isLive_def split: option.splits manage_action.splits)
  have sc: "sch_kind (case iv of None \<Rightarrow> job_schedule (sc_jobs s ! i) | Some (sc, _) \<Rightarrow> sc) \<noteq> Once"
    using sched_ok_nth [OF assms(1) len] i(3) update_interval_later iv
    by (auto simp: job_ok_def isHeartbeat_def split: option.splits)
  have nx': "n > e_now e \<or> job_nextRunAt (sc_jobs s ! i) = Some n" if "nx = Some n" for n
    using nx that iv nextRunAfter_later update_interval_later
    by (auto split: if_split_asm option.splits dest!: to_iso_eq)
  have pz: "nx = None" if "updated_status (up_status u) (job_status (sc_jobs s ! i)) = Paused"
    using nx that by simp
  show ?thesis unfolding t
    using i(2) st sc nx' pz assms(2)
    by (intro mutate_patch_ok [OF assms(1,2) len]) (force simp: derived_def job_ok_def isLive_def isHeartbeat_def)
qed

lemma finished_job_ok:
  "job_ok clk j \<Longrightarrow> derived j (finished_job now oc err j) \<and> job_ok now (finished_job now oc err j)"
  by (auto simp: finished_job_def Let_def derived_def job_ok_def isLive_def isHeartbeat_def)

lemma lanes_ok_notin:
  "lanes_ok js lanes \<Longrightarrow> i \<notin> set (remove1 i (lanes l))"
  by (auto simp: lanes_ok_def)

lemma dispatch_finish_ok:
  assumes "sched_ok clk s" and "clk \<le> now" and "i < length (sc_jobs s)"
  shows "sched_ok now (dispatch_finish now i oc err s)"
proof -
  let ?js = "patch i (finished_job now oc err) (sc_jobs s)"
  have js: "jobs_ok now ?js"
    using finished_job_ok [OF sched_ok_nth [OF assms(1,3)]]
    by (intro jobs_ok_patch [OF sched_ok_jobs [OF assms(1)] assms(2,3)]) auto
  have L: "lanes_ok (sc_jobs s) (sc_lanes s)" using assms(1) by (simp add: sched_ok_def)
  have keep: "job_activeSessionId (?js ! k) = job_activeSessionId (sc_jobs s ! k)"
    "k \<noteq> i \<Longrightarrow> ?js ! k = sc_jobs s ! k" "length ?js = length (sc_jobs s)" for k
    using assms(3) by (auto simp: patch_def nth_list_update finished_job_def Let_def)
  have ne: "k \<noteq> i" if "k \<in> set (remove1 i (sc_lanes s l))" for k l
    using lanes_ok_notin [OF L] that by blast
  have lanes: "lanes_ok ?js (\<lambda>l. remove1 i (sc_lanes s l))"
    unfolding lanes_ok_def
  proof (intro allI conjI ballI)
    fix l k assume k: "k \<in> set (remove1 i (sc_lanes s l))"
    then have "k \<in> set (sc_lanes s l)" using set_remove1_subset by fast
    with L ne [OF k] show "k < length ?js" "job_activeSessionId (?js ! k) = l" "job_claimedAt (?js ! k) \<noteq> None"
      by (simp_all add: lanes_ok_def keep)
  qed (use L in \<open>simp add: lanes_ok_def distinct_remove1\<close>)
  show ?thesis
    using js lanes assms(1) by (auto simp: dispatch_finish_def leave_lane_def sched_ok_def file_ok_def)
qed

lemma file_ok_Stored [simp]: "file_ok clk (Stored js) = jobs_ok clk js"
  by (simp add: file_ok_def)

lemma sched_ok_fields:
  "sched_ok clk (s\<lparr>sc_sent := x\<rparr>) = sched_ok clk s" "sched_ok clk (s\<lparr>sc_timer := t\<rparr>) = sched_ok clk s"
  "sched_ok clk (s\<lparr>sc_stopped := b\<rparr>) = sched_ok clk s" "sched_ok clk (s\<lparr>sc_handles := h\<rparr>) = sched_ok clk s"
  "sched_ok clk (arm now s) = sched_ok clk s"
  by (simp_all add: sched_ok_def)

lemma dispatch_deliver_ok:
  "sched_ok clk s \<Longrightarrow> clk \<le> now \<Longrightarrow> i < length (sc_jobs s) \<Longrightarrow> sched_ok now (dispatch_deliver now i h s)"
  by (auto simp: dispatch_deliver_def Let_def sched_ok_fields split: option.splits intro!: dispatch_finish_ok)

lemma dispatch_reopened_ok:
  "sched_ok clk s \<Longrightarrow> clk \<le> now \<Longrightarrow> i < length (sc_jobs s) \<Longrightarrow> sched_ok now (dispatch_reopened now failed i s)"
  by (auto simp: dispatch_reopened_def Let_def split: option.splits intro!: dispatch_finish_ok dispatch_deliver_ok)

lemma set_jobs_ok:
  assumes "sched_ok clk s" and "edits clk now f (sc_jobs s)" and "clk \<le> now"
  shows "sched_ok now (s\<lparr>sc_jobs := f (sc_jobs s)\<rparr>)"
  using mutate_ok [OF assms(1,2)] assms(1,3) by (auto simp: sched_ok_def intro: file_ok_mono)

lemma length_patch [simp]: "length (patch i f js) = length js"
  by (simp add: patch_def)

lemma dispatch_begin_ok:
  assumes "sched_ok clk s" and "clk \<le> now" and "i \<in> set (sc_lanes s l)" and "i \<notin> set (sc_reopening s)"
  shows "sched_ok now (dispatch_begin now exists i s)"
proof -
  have i: "i < length (sc_jobs s)" using assms(1,3) by (auto simp: sched_ok_def lanes_ok_def)
  have gone: "edits clk now (patch i (\<lambda>j. j\<lparr>job_status := Cancelled, job_nextRunAt := None\<rparr>)) (sc_jobs s)"
    using sched_ok_nth [OF assms(1) i] assms(2)
    by (intro edits_patch [OF sched_ok_jobs [OF assms(1)] assms(2) i])
       (auto simp: derived_def job_ok_def isLive_def isHeartbeat_def)
  have "sched_ok now (s\<lparr>sc_reopening := i # sc_reopening s\<rparr>)"
    using sched_ok_mono [OF assms(1,2)] assms(3,4) by (auto simp: sched_ok_def)
  with gone i show ?thesis
    unfolding dispatch_begin_def Let_def
    by (auto split: option.splits
        intro!: dispatch_finish_ok [OF assms(1,2)] dispatch_deliver_ok [OF assms(1,2)]
          dispatch_finish_ok [OF set_jobs_ok [OF assms(1) gone assms(2)] order_refl])
qed

lemma claim_fields:
  assumes "claim tz now j = Inr j'"
  shows "\<exists>n. j' = j\<lparr>job_claimedAt := Some now, job_nextRunAt := n\<rparr> \<and> (n = None \<longleftrightarrow> sch_kind (job_schedule j) = Once)
     \<and> (\<forall>t. n = Some t \<longrightarrow> now < t
          \<and> nextRunAfter tz (job_schedule j) (if sch_kind (job_schedule j) = Cron then now + 1 else now) = Inr (Some t))"
  using assms unfolding claim_def
  by (fastforce split: option.splits if_split_asm dest: nr.nxt_later nr.nxt_None_iff [THEN iffD1] to_iso_eq simp: nr.nxt_once)

lemma claim_ok:
  assumes "claim tz now j = Inr j'" and "job_ok clk j" and "is_due now j"
  shows "derived j j' \<and> job_ok now j' \<and> job_claimedAt j' = Some now"
  using claim_fields [OF assms(1)] assms(2,3)
  by (auto simp: derived_def job_ok_def is_due_def isLive_def isHeartbeat_def)

lemma claim_all_spec:
  "claim_all tz now is js = (js', r) \<Longrightarrow> distinct is \<Longrightarrow>
     length js' = length js \<and> (\<forall>k. k \<notin> set is \<longrightarrow> js' ! k = js ! k)
     \<and> (\<forall>k \<in> set is. k < length js \<longrightarrow> js' ! k = js ! k \<and> r \<noteq> Inr () \<or> claim tz now (js ! k) = Inr (js' ! k))
     \<and> (\<forall>m. r = Inl m \<longrightarrow> (\<exists>k \<in> set is. claim tz now (js ! k) = Inl m))"
proof (induction "is" arbitrary: js)
  case (Cons i "is")
  show ?case
  proof (cases "claim tz now (js ! i)")
    case (Inl m)
    with Cons.prems show ?thesis by auto
  next
    case (Inr j)
    with Cons.prems have "claim_all tz now is (js[i := j]) = (js', r)" "distinct is" "i \<notin> set is" by auto
    from Cons.IH [OF this(1,2)] this(3) Inr show ?thesis
      by (auto simp: nth_list_update) (metis nth_list_update_neq)+
  qed
qed auto

lemma due_jobs_set: "distinct (due_jobs now js)" "i \<in> set (due_jobs now js) \<longleftrightarrow> i < length js \<and> is_due now (js ! i)"
  by (auto simp: due_jobs_def)

lemma claim_all_ok:
  assumes "claim_all tz now (due_jobs now js) js = (js', r)" and "jobs_ok clk js" and "clk \<le> now"
  shows "jobs_ok now js'" and "length js' = length js"
    and "\<And>k. \<not> is_due now (js ! k) \<or> length js \<le> k \<Longrightarrow> js' ! k = js ! k"
    and "\<And>k. k < length js \<Longrightarrow> job_activeSessionId (js' ! k) = job_activeSessionId (js ! k)"
proof -
  note spec = claim_all_spec [OF assms(1) due_jobs_set(1)]
  show len: "length js' = length js" using spec by simp
  show same: "js' ! k = js ! k" if "\<not> is_due now (js ! k) \<or> length js \<le> k" for k
    using spec that due_jobs_set(2) by (metis not_le)
  have ok: "derived (js ! k) (js' ! k) \<and> job_ok now (js' ! k)" if "k < length js" for k
  proof (cases "is_due now (js ! k)")
    case True
    with that spec due_jobs_set(2) have "js' ! k = js ! k \<or> claim tz now (js ! k) = Inr (js' ! k)" by metis
    moreover have "job_ok clk (js ! k)" using assms(2) that by (simp add: jobs_ok_def list_all_length)
    ultimately show ?thesis using claim_ok True assms(3) job_ok_mono derived_refl by metis
  next
    case False
    with same [of k] that assms(2,3) show ?thesis by (auto simp: jobs_ok_def list_all_length intro: job_ok_mono)
  qed
  then show "job_activeSessionId (js' ! k) = job_activeSessionId (js ! k)" if "k < length js" for k
    using that by (simp add: derived_def)
  show "jobs_ok now js'"
    by (rule jobs_ok_derived [OF assms(2)]) (use ok len in \<open>auto simp: list_all2_conv_all_nth list_all_length\<close>)
qed

lemma fold_queue_job [simp]:
  "sc_jobs (fold queue_job is s) = sc_jobs s" "sc_file (fold queue_job is s) = sc_file s"
  "sc_reopening (fold queue_job is s) = sc_reopening s" "sc_sent (fold queue_job is s) = sc_sent s"
  "sc_changed (fold queue_job is s) = sc_changed s" "sc_handles (fold queue_job is s) = sc_handles s"
  "sc_lanes (fold queue_job is s) = (\<lambda>l. sc_lanes s l @ filter (\<lambda>i. job_activeSessionId (sc_jobs s ! i) = l) is)"
  by (induction "is" arbitrary: s) (simp_all add: queue_job_def Let_def fun_eq_iff)

lemma runDue_ok:
  assumes "sched_ok clk s" and "clk \<le> now"
  shows "sched_ok now (fst (runDue tz now s))"
proof -
  obtain js r where c: "claim_all tz now (due_jobs now (sc_jobs s)) (sc_jobs s) = (js, r)" by fastforce
  note ok = claim_all_ok [OF c sched_ok_jobs [OF assms(1)] assms(2)]
  have L: "lanes_ok (sc_jobs s) (sc_lanes s)" using assms(1) by (simp add: sched_ok_def)
  have lane: "k < length js \<and> \<not> is_due now (sc_jobs s ! k) \<and> js ! k = sc_jobs s ! k" if "k \<in> set (sc_lanes s l)" for k l
    using L that ok(2,3) by (auto simp: lanes_ok_def is_due_def)
  have L': "lanes_ok js (sc_lanes s)" using L lane by (simp add: lanes_ok_def)
  show ?thesis
  proof (cases r)
    case (Inl m)
    then show ?thesis using c ok(1) L' assms by (auto simp: runDue_def sched_ok_def intro: file_ok_mono)
  next
    case (Inr u)
    have claimed: "job_claimedAt (js ! k) = Some now" if "k \<in> set (due_jobs now (sc_jobs s))" for k
      using claim_all_spec [OF c due_jobs_set(1)] that Inr due_jobs_set(2) claim_ok sched_ok_nth [OF assms(1)] by (metis old.unit.exhaust)
    have "lanes_ok js (\<lambda>l. sc_lanes s l @ filter (\<lambda>i. job_activeSessionId (js ! i) = l) (due_jobs now (sc_jobs s)))"
      unfolding lanes_ok_def
    proof (intro allI conjI ballI)
      fix l
      show "distinct (sc_lanes s l @ filter (\<lambda>i. job_activeSessionId (js ! i) = l) (due_jobs now (sc_jobs s)))"
        using L lane due_jobs_set by (auto simp: lanes_ok_def)
    qed (use L' claimed due_jobs_set(2) ok(2) in \<open>auto simp: lanes_ok_def\<close>)
    then show ?thesis
      using c Inr ok(1) assms by (auto simp: runDue_def sched_ok_def Let_def write_jobs_def intro: file_ok_mono)
  qed
qed

lemma interrupted_ok: "job_ok clk j \<Longrightarrow> derived j (interrupted j) \<and> job_ok clk (interrupted j)"
  by (auto simp: interrupted_def derived_def job_ok_def isLive_def isHeartbeat_def split: option.splits)

lemma interrupted_unclaimed: "job_claimedAt (interrupted j) = None"
  by (simp add: interrupted_def split: option.splits)

lemma interrupted_id: "job_claimedAt j = None \<Longrightarrow> interrupted j = j"
  by (simp add: interrupted_def)

lemma boot_jobs: "sc_jobs (boot (Stored js)) = map interrupted js" "sc_file (boot (Stored js)) = Stored (map interrupted js)"
proof -
  have "\<not> list_ex (\<lambda>j. job_claimedAt j \<noteq> None) js \<Longrightarrow> map interrupted js = js"
    by (rule map_idI) (auto simp: list_ex_iff interrupted_id)
  then show "sc_jobs (boot (Stored js)) = map interrupted js" "sc_file (boot (Stored js)) = Stored (map interrupted js)"
    by (auto simp: boot_def Let_def write_jobs_def)
qed

lemma boot_fields: "sc_lanes (boot f) = (\<lambda>_. [])" "sc_reopening (boot f) = []" "sc_sent (boot f) = []" "sc_timer (boot f) = None"
  by (simp_all add: boot_def Let_def write_jobs_def)

lemma boot_empty: "f \<in> {NoFile, Unparsed} \<Longrightarrow> sc_jobs (boot f) = [] \<and> sc_file (boot f) = NoFile"
  by (auto simp: boot_def)

lemma boot_ok:
  assumes "file_ok clk f"
  shows "sched_ok clk (boot f)"
proof (cases f)
  case (Stored js)
  with assms have js: "jobs_ok clk js" by simp
  then have "jobs_ok clk (map interrupted js)"
    by (intro jobs_ok_derived [OF js]) (use interrupted_ok in \<open>auto simp: jobs_ok_def list_all2_conv_all_nth list_all_length\<close>)
  then show ?thesis by (simp add: Stored sched_ok_def boot_jobs boot_fields lanes_ok_def)
qed (simp_all add: sched_ok_def boot_empty boot_fields lanes_ok_def jobs_ok_def file_ok_def)

section \<open>Runs\<close>

text \<open>
  A configuration is the latest time an operation read and the scheduler. Every public
  operation, the timer's callback, the two halves of a delivery (the head of a lane starts, a
  reopened session answers) and a restart of the host from the jobs file are steps; an
  operation that throws before its edit leaves the scheduler as it was and so is no step.
\<close>

inductive sched_step :: "int \<times> sched \<Rightarrow> int \<times> sched \<Rightarrow> bool" where
  StSetHeartbeat: "clk \<le> e_now e \<Longrightarrow> setHeartbeat e sid sc pr m s = Inr t \<Longrightarrow> sched_step (clk, s) (e_now e, t)"
| StUpdateHeartbeat: "clk \<le> e_now e \<Longrightarrow> updateHeartbeat e sid a s = Inr t \<Longrightarrow> sched_step (clk, s) (e_now e, t)"
| StManage: "clk \<le> e_now e \<Longrightarrow> manage e sid jid a s = Inr t \<Longrightarrow> sched_step (clk, s) (e_now e, t)"
| StAddCron: "clk \<le> e_now e \<Longrightarrow> addCron e sid sc pr s = Inr t \<Longrightarrow> sched_step (clk, s) (e_now e, t)"
| StCancel: "clk \<le> e_now e \<Longrightarrow> sched_step (clk, s) (e_now e, cancel_job e jid s)"
| StCancelSession: "clk \<le> e_now e \<Longrightarrow> sched_step (clk, s) (e_now e, cancelSession e sid s)"
| StCancelTree: "clk \<le> e_now e \<Longrightarrow> sched_step (clk, s) (e_now e, cancelTree e sid s)"
| StCreateRlm: "clk \<le> e_now e \<Longrightarrow> createRlmHeartbeat e sid ins iv lb m s = Inr t \<Longrightarrow> sched_step (clk, s) (e_now e, t)"
| StUpdateRlm: "clk \<le> e_now e \<Longrightarrow> updateRlmHeartbeat e sid jid u s = Inr t \<Longrightarrow> sched_step (clk, s) (e_now e, t)"
| StDeleteRlm: "clk \<le> e_now e \<Longrightarrow> sched_step (clk, s) (e_now e, deleteRlmHeartbeat e sid jid s)"
| StAttach: "sched_step (clk, s) (clk, attach h s)"
| StDetach: "sched_step (clk, s) (clk, detach h s)"
| StStart: "clk \<le> now \<Longrightarrow> sched_step (clk, s) (now, start_sched now s)"
| StStop: "sched_step (clk, s) (clk, stop_sched s)"
| StTimer: "clk \<le> now \<Longrightarrow> sc_timer s \<noteq> None \<Longrightarrow> sched_step (clk, s) (now, fst (timer_fires tz now s))"
| StRunDue: "clk \<le> now \<Longrightarrow> sched_step (clk, s) (now, fst (runDue tz now s))"
| StDispatch: "clk \<le> now \<Longrightarrow> sc_lanes s l = i # rest \<Longrightarrow> i \<notin> set (sc_reopening s) \<Longrightarrow>
    sched_step (clk, s) (now, dispatch_begin now ex i s)"
| StReopened: "clk \<le> now \<Longrightarrow> i \<in> set (sc_reopening s) \<Longrightarrow> sched_step (clk, s) (now, dispatch_reopened now failed i s)"
| StRestart: "sched_step (clk, s) (clk, boot (sc_file s))"

definition sched_init :: "int \<times> sched \<Rightarrow> bool" where
  "sched_init c \<longleftrightarrow> snd c = boot NoFile"

lemma sched_step_ok: "sched_step c d \<Longrightarrow> sched_ok (fst c) (snd c) \<Longrightarrow> sched_ok (fst d) (snd d)"
proof (induction rule: sched_step.induct)
  case (StTimer clk now s tz)
  then show ?case by (simp add: timer_fires_def runDue_ok sched_ok_fields)
next
  case (StDispatch clk now s l i rest ex)
  then show ?case by (auto intro!: dispatch_begin_ok [where l = l])
next
  case (StReopened clk now i s failed)
  then have "i < length (sc_jobs s)" by (auto simp: sched_ok_def lanes_ok_def)
  with StReopened show ?case by (auto intro: dispatch_reopened_ok)
next
  case (StRestart clk s)
  then have "file_ok clk (sc_file s)" by (simp add: sched_ok_def)
  then show ?case by (simp add: boot_ok)
next
  case (StStart clk now s)
  then show ?case by (auto simp: start_sched_def sched_ok_fields intro: sched_ok_mono)
qed (auto simp: attach_def detach_def stop_sched_def sched_ok_fields
      intro: setHeartbeat_ok updateHeartbeat_ok manage_ok addCron_ok cancel_job_ok cancelSession_ok cancelTree_ok
        createRlmHeartbeat_ok updateRlmHeartbeat_ok deleteRlmHeartbeat_ok runDue_ok)

interpretation sc: step_invariant sched_init sched_step "\<lambda>c. sched_ok (fst c) (snd c)"
proof unfold_locales
  show "sched_ok (fst c) (snd c)" if "sched_init c" for c
    using that boot_ok [of "fst c" NoFile] by (simp add: sched_init_def file_ok_def)
qed (auto dest: sched_step_ok)

section \<open>Properties\<close>

text \<open>
  C1. In every state that any interleaving of operations, deliveries, timer callbacks and
  restarts reaches: a session has at most one live user heartbeat; only an active job has a
  next run; a claimed tick lies in the past and the job's next run after it, so the same tick
  cannot come due twice; and a session's lane holds only claimed jobs of that session, each once.
\<close>

theorem scheduler_reachable_invariant:
  assumes "sched_step\<^sup>*\<^sup>* (t0, boot NoFile) (clk, s)"
  shows "(\<forall>i k. i < k \<and> k < length (sc_jobs s) \<and> job_source (sc_jobs s ! i) = Heartbeat \<and> isLive (sc_jobs s ! i)
            \<and> job_source (sc_jobs s ! k) = Heartbeat \<and> isLive (sc_jobs s ! k)
            \<longrightarrow> job_activeSessionId (sc_jobs s ! i) \<noteq> job_activeSessionId (sc_jobs s ! k))
       \<and> (\<forall>j \<in> set (sc_jobs s). (job_nextRunAt j \<noteq> None \<longrightarrow> job_status j = Active)
            \<and> (\<forall>c. job_claimedAt j = Some c \<longrightarrow> c \<le> clk \<and> (\<forall>n. job_nextRunAt j = Some n \<longrightarrow> c < n)))
       \<and> (\<forall>l. distinct (sc_lanes s l) \<and> (\<forall>i \<in> set (sc_lanes s l). i < length (sc_jobs s)
            \<and> job_activeSessionId (sc_jobs s ! i) = l \<and> job_claimedAt (sc_jobs s ! i) \<noteq> None))"
proof -
  have ok: "sched_ok clk s"
    using sc.inv_reach [OF _ assms] by (simp add: sched_init_def)
  then have "\<not> rivals (sc_jobs s ! i) (sc_jobs s ! k)" if "i < k" "k < length (sc_jobs s)" for i k
    using that by (simp add: sched_ok_def jobs_ok_def sorted_wrt_iff_nth_less)
  moreover have "(job_nextRunAt j \<noteq> None \<longrightarrow> job_status j = Active)
      \<and> (\<forall>c. job_claimedAt j = Some c \<longrightarrow> c \<le> clk \<and> (\<forall>n. job_nextRunAt j = Some n \<longrightarrow> c < n))" if "j \<in> set (sc_jobs s)" for j
    using ok that by (auto simp: sched_ok_def jobs_ok_def list_all_iff job_ok_def)
  moreover have "\<forall>l. distinct (sc_lanes s l) \<and> (\<forall>i \<in> set (sc_lanes s l). i < length (sc_jobs s)
      \<and> job_activeSessionId (sc_jobs s ! i) = l \<and> job_claimedAt (sc_jobs s ! i) \<noteq> None)"
    using ok by (simp add: sched_ok_def lanes_ok_def)
  ultimately show ?thesis by (simp add: rivals_def)
qed

definition demo_handle :: handle where
  "demo_handle = \<lparr>h_sessionId = ''s1'', h_sessionFile = Some ''/f'', h_cwd = ''/'', h_role = Root, h_rootSessionId = None,
     h_activity = \<lparr>streaming = False, compacting = False, retrying = False, pending = False\<rparr>, h_sendError = None\<rparr>"

definition demo_env :: "int \<Rightarrow> op_env" where
  "demo_env now = \<lparr>e_now = now, e_tz = 0, e_parse = (\<lambda>_. None), e_uuid = ''u''\<rparr>"

theorem scheduler_reachable_invariant_witness:
  "\<exists>s. addCron (demo_env 5) ''s1'' ''every 1m'' ''go'' (attach demo_handle (boot NoFile)) = Inr s
     \<and> map job_nextRunAt (sc_jobs s) = [Some 60005]
     \<and> \<not> (\<exists>j \<in> set (sc_jobs s). job_nextRunAt j \<noteq> None \<and> job_status j \<noteq> Active)"
proof -
  let ?r = "addCron (demo_env 5) ''s1'' ''every 1m'' ''go'' (attach demo_handle (boot NoFile))"
  have r: "\<not> isl ?r" "map job_nextRunAt (sc_jobs (projr ?r)) = [Some 60005]" by code_simp+
  then obtain s where s: "?r = Inr s" by (cases ?r) auto
  have "sched_step (0, boot NoFile) (0, attach demo_handle (boot NoFile))" by (rule StAttach)
  moreover have "sched_step (0, attach demo_handle (boot NoFile)) (e_now (demo_env 5), s)"
    using s by (intro StAddCron) (auto simp: demo_env_def)
  ultimately have "sched_step\<^sup>*\<^sup>* (0, boot NoFile) (e_now (demo_env 5), s)" by (meson converse_rtranclp_into_rtranclp rtranclp.rtrancl_refl)
  from scheduler_reachable_invariant [OF this] s r show ?thesis by auto
qed

text \<open>
  C2. A \<open>runDue\<close> that returns has claimed exactly the due jobs: it returns their number, each of
  them carries a claim of now and a next run strictly after now (none for a one-shot), stands
  exactly once more in its session's lane, and the claims are on disk; every other job is as it
  was; nothing is due any more, and nothing has been sent yet.
\<close>

theorem runDue_claims_exactly_due:
  assumes "runDue tz now s = (t, Inr n)"
  shows "n = card {i. i < length (sc_jobs s) \<and> is_due now (sc_jobs s ! i)}
       \<and> length (sc_jobs t) = length (sc_jobs s)
       \<and> (\<forall>i < length (sc_jobs s). if is_due now (sc_jobs s ! i)
            then \<exists>nx. sc_jobs t ! i = (sc_jobs s ! i)\<lparr>job_claimedAt := Some now, job_nextRunAt := nx\<rparr>
                   \<and> (nx = None \<longleftrightarrow> sch_kind (job_schedule (sc_jobs s ! i)) = Once) \<and> (\<forall>x. nx = Some x \<longrightarrow> now < x)
            else sc_jobs t ! i = sc_jobs s ! i)
       \<and> (\<forall>i < length (sc_jobs t). \<not> is_due now (sc_jobs t ! i))
       \<and> (\<forall>l. \<exists>new. sc_lanes t l = sc_lanes s l @ new \<and> distinct new
            \<and> set new = {i. i < length (sc_jobs s) \<and> is_due now (sc_jobs s ! i) \<and> job_activeSessionId (sc_jobs s ! i) = l})
       \<and> (n > 0 \<longrightarrow> sc_file t = Stored (sc_jobs t)) \<and> sc_sent t = sc_sent s"
proof -
  let ?due = "due_jobs now (sc_jobs s)"
  obtain js r where c: "claim_all tz now ?due (sc_jobs s) = (js, r)" by fastforce
  with assms have r: "r = Inr ()" by (cases r) (auto simp: runDue_def Let_def)
  have nodue: "js = sc_jobs s" if "?due = []" using c that by simp
  have t: "sc_jobs t = js" "sc_lanes t = (\<lambda>l. sc_lanes s l @ filter (\<lambda>i. job_activeSessionId (js ! i) = l) ?due)"
    "n = length ?due" "n > 0 \<Longrightarrow> sc_file t = Stored js" "sc_sent t = sc_sent s"
    using assms c r nodue by (auto simp: runDue_def Let_def write_jobs_def split: if_split_asm)
  note spec = claim_all_spec [OF c due_jobs_set(1)]
  have claimed: "claim tz now (sc_jobs s ! i) = Inr (js ! i)" if "i < length (sc_jobs s)" "is_due now (sc_jobs s ! i)" for i
    using spec that r due_jobs_set(2) by blast
  have other: "js ! i = sc_jobs s ! i" if "\<not> is_due now (sc_jobs s ! i)" for i
    using spec that due_jobs_set(2) by blast
  have "set ?due = {i. i < length (sc_jobs s) \<and> is_due now (sc_jobs s ! i)}" using due_jobs_set(2) by auto
  then have n: "n = card {i. i < length (sc_jobs s) \<and> is_due now (sc_jobs s ! i)}"
    using distinct_card [OF due_jobs_set(1), of now "sc_jobs s"] t(3) by simp
  have each: "if is_due now (sc_jobs s ! i)
            then \<exists>nx. js ! i = (sc_jobs s ! i)\<lparr>job_claimedAt := Some now, job_nextRunAt := nx\<rparr>
                   \<and> (nx = None \<longleftrightarrow> sch_kind (job_schedule (sc_jobs s ! i)) = Once) \<and> (\<forall>x. nx = Some x \<longrightarrow> now < x)
            else js ! i = sc_jobs s ! i" if "i < length (sc_jobs s)" for i
    using claim_fields [OF claimed [OF that]] other [of i] by auto
  have sid: "job_activeSessionId (js ! i) = job_activeSessionId (sc_jobs s ! i)" if "i < length (sc_jobs s)" for i
    using each [OF that] by (auto split: if_split_asm)
  have quiet: "\<not> is_due now (js ! i)" if "i < length (sc_jobs s)" for i
    using each [OF that] by (auto simp: is_due_def split: if_split_asm)
  have lanes: "set (filter (\<lambda>i. job_activeSessionId (js ! i) = l) ?due)
      = {i. i < length (sc_jobs s) \<and> is_due now (sc_jobs s ! i) \<and> job_activeSessionId (sc_jobs s ! i) = l}" for l
    using sid due_jobs_set(2) by auto
  have "\<exists>new. sc_lanes t l = sc_lanes s l @ new \<and> distinct new
      \<and> set new = {i. i < length (sc_jobs s) \<and> is_due now (sc_jobs s ! i) \<and> job_activeSessionId (sc_jobs s ! i) = l}" for l
    unfolding t(2) by (intro exI conjI, rule refl, simp add: due_jobs_set(1), rule lanes)
  moreover have "length js = length (sc_jobs s)" using spec by simp
  ultimately show ?thesis
    unfolding t(1) using n each quiet t(4,5) by simp
qed

theorem runDue_claims_exactly_due_witness:
  "\<exists>s t. addCron (demo_env 5) ''s1'' ''in 1m'' ''go'' (attach demo_handle (boot NoFile)) = Inr s
     \<and> runDue 0 60005 s = (t, Inr 1) \<and> sc_file t = Stored (sc_jobs t)"
proof -
  let ?r = "addCron (demo_env 5) ''s1'' ''in 1m'' ''go'' (attach demo_handle (boot NoFile))"
  have r: "\<not> isl ?r" "snd (runDue 0 60005 (projr ?r)) = Inr 1" by code_simp+
  then obtain s t where s: "?r = Inr s" "runDue 0 60005 s = (t, Inr 1)" by (cases ?r) (auto simp: prod_eq_iff)
  with runDue_claims_exactly_due [OF s(2)] show ?thesis by auto
qed

text \<open>
  C3. A restarted host replays nothing: from the jobs file of any host it starts with no claim,
  no queued delivery and nothing sent; a tick that was claimed is recorded as interrupted, keeps
  its advanced next run, and so only comes due again at a run after the claimed one; the other
  jobs are as stored, and the cleared claims are on disk.
\<close>

theorem boot_no_replay:
  assumes "jobs_ok clk js" and "boot (Stored js) = s"
  shows "length (sc_jobs s) = length js \<and> sc_file s = Stored (sc_jobs s) \<and> (\<forall>l. sc_lanes s l = []) \<and> sc_sent s = []
       \<and> (\<forall>i < length js. job_claimedAt (sc_jobs s ! i) = None \<and>
            (case job_claimedAt (js ! i) of
               None \<Rightarrow> sc_jobs s ! i = js ! i
             | Some c \<Rightarrow> job_nextRunAt (sc_jobs s ! i) = job_nextRunAt (js ! i) \<and> job_runCount (sc_jobs s ! i) = job_runCount (js ! i)
                 \<and> job_lastError (sc_jobs s ! i)
                    = Some (''interrupted: pi-host stopped before the tick claimed at '' @ show_int c @ '' was delivered'')
                 \<and> (\<forall>now. is_due now (sc_jobs s ! i) \<longrightarrow> c < now)))"
proof -
  have "job_ok clk (js ! i)" if "i < length js" for i using assms(1) that by (simp add: jobs_ok_def list_all_length)
  then have "\<forall>now. is_due now (interrupted (js ! i)) \<longrightarrow> c < now" if "i < length js" "job_claimedAt (js ! i) = Some c" for i c
    using that by (fastforce simp: job_ok_def is_due_def interrupted_def)
  then show ?thesis
    unfolding assms(2) [symmetric]
    by (auto simp: boot_jobs boot_fields interrupted_unclaimed interrupted_id interrupted_def split: option.splits)
qed

definition demo_job :: "schedule \<Rightarrow> int option \<Rightarrow> int option \<Rightarrow> job" where
  "demo_job sc nx cl = \<lparr>job_id = ''u'', job_status = Active, job_source = CronSource, job_runtimeKind = Some TopLevel,
     job_deliveryMode = None, job_activeSessionId = ''s1'', job_sessionId = ''s1'', job_sessionFile = ''/f'', job_cwd = ''/'',
     job_label = None, job_prompt = ''go'', job_schedule = sc, job_createdAt = 0, job_updatedAt = 0, job_nextRunAt = nx,
     job_lastRunAt = None, job_lastSkippedAt = None, job_lastError = None, job_runCount = 0, job_claimedAt = cl,
     job_rootSessionId = None\<rparr>"

definition demo_interval :: schedule where
  "demo_interval = \<lparr>sch_kind = Interval, sch_expression = ''every 1m'', sch_intervalMs = Some 60000\<rparr>"

theorem boot_no_replay_witness:
  "\<not> (\<exists>now \<le> 60000. is_due now (sc_jobs (boot (Stored [demo_job demo_interval (Some 120000) (Some 60000)])) ! 0))"
proof -
  have "jobs_ok 60000 [demo_job demo_interval (Some 120000) (Some 60000)]"
    by (simp add: jobs_ok_def job_ok_def demo_job_def isHeartbeat_def)
  from boot_no_replay [OF this refl] show ?thesis by (auto simp: demo_job_def)
qed

text \<open>
  C4. The outcome of one delivery to a loaded session. A job that is no longer active, or that
  the session's activity defers, is skipped: nothing is sent, no run is counted and a one-shot
  job stays active. Any other tick is sent once, as a new turn to an idle session, else steered for a heartbeat that is not set to follow up and queued behind the turn otherwise,
  and counted as a run, whether or not \<open>send\<close> throws, and a one-shot job is then completed.
  In every case the claim is cleared on disk and the job leaves its lane.
\<close>

theorem dispatch_outcome:
  assumes "i < length (sc_jobs s)" and "sc_handles s (job_activeSessionId (sc_jobs s ! i)) = Some h"
    and "distinct (sc_lanes s (job_activeSessionId (sc_jobs s ! i)))"
    and "dispatch_begin now exists i s = t"
  shows "(let j = sc_jobs s ! i; j' = sc_jobs t ! i;
              skip = (job_status j \<noteq> Active \<or> defers j (h_activity h))
          in sc_sent t = sc_sent s @ (if skip \<or> h_sendError h \<noteq> None then []
               else [(h_sessionId h, dispatch_message j,
                 if \<not> streaming (h_activity h) then SendStart
                 else if isHeartbeat j \<and> job_deliveryMode j \<noteq> Some FollowUp then SendSteer else SendFollowUp)])
           \<and> job_runCount j' = (if skip then job_runCount j else job_runCount j + 1)
           \<and> job_lastError j' = (if skip then None else h_sendError h)
           \<and> job_status j' = (if \<not> skip \<and> sch_kind (job_schedule j) = Once then Completed else job_status j)
           \<and> job_claimedAt j' = None \<and> i \<notin> set (sc_lanes t (job_activeSessionId j)) \<and> sc_file t = Stored (sc_jobs t)
           \<and> (\<forall>k. k \<noteq> i \<longrightarrow> sc_jobs t ! k = sc_jobs s ! k))"
proof -
  have fin: "sc_jobs (dispatch_finish now i oc err u) = (sc_jobs u)[i := finished_job now oc err (sc_jobs u ! i)]"
    "sc_file (dispatch_finish now i oc err u) = Stored (sc_jobs (dispatch_finish now i oc err u))"
    "sc_sent (dispatch_finish now i oc err u) = sc_sent u"
    "sc_lanes (dispatch_finish now i oc err u) l = remove1 i (sc_lanes u l)"
    if "i < length (sc_jobs u)" for oc err u l
    using that by (simp_all add: dispatch_finish_def leave_lane_def patch_def)
  let ?j = "sc_jobs s ! i"
  have t: "t = (if job_status ?j \<noteq> Active \<or> defers ?j (h_activity h) then dispatch_finish now i Skipped None s
      else dispatch_finish now i Ran (h_sendError h) (s\<lparr>sc_sent := sc_sent s @ (if h_sendError h \<noteq> None then []
         else [(h_sessionId h, dispatch_message ?j, send_mode_of ?j (streaming (h_activity h)))])\<rparr>))"
    unfolding assms(4) [symmetric] using assms(2)
    by (auto simp: dispatch_begin_def dispatch_deliver_def Let_def split: option.splits)
  show ?thesis
    unfolding Let_def t using assms(1,3) by (simp add: fin finished_job_def send_mode_of_def Let_def)
qed

theorem dispatch_outcome_witness:
  "sc_sent (dispatch_begin 60000 (\<lambda>_. True) 0
     (fst (runDue 0 60000 (attach demo_handle (boot (Stored [demo_job demo_interval (Some 60000) None]))))))
   = [(''s1'', TextPrompt ''go'', SendStart)]"
proof -
  let ?s = "fst (runDue 0 60000 (attach demo_handle (boot (Stored [demo_job demo_interval (Some 60000) None]))))"
  have "0 < length (sc_jobs ?s)" "sc_handles ?s ''s1'' = Some demo_handle" "distinct (sc_lanes ?s ''s1'')"
    "job_activeSessionId (sc_jobs ?s ! 0) = ''s1''" "job_status (sc_jobs ?s ! 0) = Active" "sc_sent ?s = []"
    "\<not> defers (sc_jobs ?s ! 0) (h_activity demo_handle)" "h_sendError demo_handle = None" "h_sessionId demo_handle = ''s1''"
    "dispatch_message (sc_jobs ?s ! 0) = TextPrompt ''go''"
    "\<not> streaming (h_activity demo_handle)"
    by code_simp+
  with dispatch_outcome [of 0 ?s demo_handle 60000 "\<lambda>_. True", OF _ _ _ refl] show ?thesis
    unfolding Let_def by simp
qed

lemma claim_all_throw:
  "claim_all tz now is js = (js', Inl m) \<Longrightarrow> distinct is \<Longrightarrow> set is \<subseteq> {..<length js} \<Longrightarrow>
     \<exists>pre k post. is = pre @ k # post \<and> claim tz now (js ! k) = Inl m
       \<and> (\<forall>i \<in> set pre. claim tz now (js ! i) = Inr (js' ! i)) \<and> (\<forall>i. i \<notin> set pre \<longrightarrow> js' ! i = js ! i)"
proof (induction "is" arbitrary: js)
  case (Cons i "is")
  show ?case
  proof (cases "claim tz now (js ! i)")
    case (Inl e)
    with Cons.prems show ?thesis by (intro exI [of _ "[]"]) auto
  next
    case (Inr j)
    with Cons.prems have "claim_all tz now is (js[i := j]) = (js', Inl m)" "distinct is" "set is \<subseteq> {..<length (js[i := j])}" by auto
    from Cons.IH [OF this] obtain pre k post where *: "is = pre @ k # post" "claim tz now (js[i := j] ! k) = Inl m"
      "\<forall>x \<in> set pre. claim tz now (js[i := j] ! x) = Inr (js' ! x)" "\<forall>x. x \<notin> set pre \<longrightarrow> js' ! x = js[i := j] ! x" by blast
    have "i \<notin> set is" using Cons.prems by simp
    with *(1) have ne: "i \<noteq> k" "x \<in> set pre \<Longrightarrow> x \<noteq> i" for x by auto
    have i: "i < length js" using Cons.prems(3) by simp
    have "i # is = (i # pre) @ k # post" "claim tz now (js ! k) = Inl m" using * ne(1) by simp_all
    moreover have "\<forall>x \<in> set (i # pre). claim tz now (js ! x) = Inr (js' ! x)"
      using *(3,4) ne(2) i Inr by (metis nth_list_update_eq nth_list_update_neq set_ConsD)
    moreover have "\<forall>x. x \<notin> set (i # pre) \<longrightarrow> js' ! x = js ! x" using *(4) by simp
    ultimately show ?thesis by blast
  qed
qed simp

text \<open>
  C22. When the next run of a due job cannot be computed, the timer's \<open>runDue\<close> rejects and the
  scheduler is left behind: no timer is armed, nothing is written or queued, the job that threw
  is still due, and every due job before it is claimed in memory without standing in any lane, so
  it never comes due again while the host runs.
\<close>

theorem timer_throw_strands_due_jobs:
  assumes "timer_fires tz now s = (t, Inl m)"
  shows "sc_timer t = None \<and> sc_file t = sc_file s \<and> sc_lanes t = sc_lanes s \<and> sc_sent t = sc_sent s
       \<and> (\<exists>k < length (sc_jobs s). is_due now (sc_jobs s ! k) \<and> claim tz now (sc_jobs s ! k) = Inl m
            \<and> sc_jobs t ! k = sc_jobs s ! k
            \<and> (\<forall>i < k. is_due now (sc_jobs s ! i) \<longrightarrow>
                 job_claimedAt (sc_jobs t ! i) = Some now \<and> (\<forall>later. \<not> is_due later (sc_jobs t ! i))))"
proof -
  let ?due = "due_jobs now (sc_jobs s)"
  obtain js r where c0: "claim_all tz now ?due (sc_jobs s) = (js, r)" by fastforce
  with assms have r: "r = Inl m" and t: "t = s\<lparr>sc_timer := None, sc_jobs := js\<rparr>"
    by (cases r; simp add: timer_fires_def runDue_def Let_def)+
  have "set ?due \<subseteq> {..<length (sc_jobs s)}" using due_jobs_set(2) by auto
  from claim_all_throw [OF c0 [unfolded r] due_jobs_set(1) this]
  obtain pre k post where k: "?due = pre @ k # post" "claim tz now (sc_jobs s ! k) = Inl m"
    "\<forall>i \<in> set pre. claim tz now (sc_jobs s ! i) = Inr (js ! i)" "\<forall>i. i \<notin> set pre \<longrightarrow> js ! i = sc_jobs s ! i" by blast
  have sorted: "sorted_wrt (<) (pre @ k # post)"
    unfolding k(1) [symmetric] due_jobs_def by (rule sorted_wrt_filter) simp
  then have "k \<notin> set pre" by (auto simp: sorted_wrt_append)
  moreover have kd: "k < length (sc_jobs s)" "is_due now (sc_jobs s ! k)" using k(1) due_jobs_set(2) by (metis in_set_conv_decomp)+
  moreover have "job_claimedAt (js ! i) = Some now" if "i < k" "is_due now (sc_jobs s ! i)" for i
  proof -
    have "i \<in> set (pre @ k # post)" using that kd(1) due_jobs_set(2) [of i] k(1) by (metis less_trans)
    with sorted that(1) have "i \<in> set pre" by (auto simp: sorted_wrt_append)
    with k(3) show ?thesis using claim_fields by fastforce
  qed
  ultimately show ?thesis using k(2,4) unfolding t by (auto simp: is_due_def intro!: exI [of _ k])
qed

definition leap_day :: schedule where
  "leap_day = \<lparr>sch_kind = Cron, sch_expression = ''0 0 29 2 *'', sch_intervalMs = None\<rparr>"

text \<open>On 2028-02-29 the next leap day is four years away, beyond the scan of \<open>nextCronRun\<close>.\<close>

lemma no_leap_day:
  assumes "21244 \<le> d" "d < 21611"
  shows "month_date d \<noteq> (2, 29)"
proof -
  define x where "x = (d + 719468) mod 146097"
  have x: "x = d - 11017"
    using assms mod_pos_pos_trivial [of "d - 11017" 146097] mod_mult_self2 [of "d - 11017" 146097 5] by (simp add: x_def add.commute)
  have q: "x div 1460 = 7" "x div 36524 = 0" "x div 146096 = 0" using assms unfolding x by linarith+
  define y where "y = (x - 7) div 365"
  have y: "y = 28 \<and> x \<le> 10591 \<or> y = 29 \<and> 10592 \<le> x \<and> x \<le> 10593" using assms unfolding y_def x by linarith
  define doy where "doy = x - (365 * y + y div 4 - y div 100)"
  have doy: "0 \<le> doy" "doy \<le> 364" using y assms x by (auto simp: doy_def)
  define mp where "mp = (5 * doy + 2) div 153"
  have "x - x div 1460 + x div 36524 - x div 146096 = x - 7" using q by simp
  then have md: "month_date d = (nat (if mp < 10 then mp + 3 else mp - 9), nat (doy - (153 * mp + 2) div 5 + 1))"
    unfolding month_date_def Let_def x_def [symmetric] mp_def doy_def y_def by (simp only:)
  show ?thesis
  proof
    assume "month_date d = (2, 29)"
    then have m: "nat (if mp < 10 then mp + 3 else mp - 9) = 2" "nat (doy - (153 * mp + 2) div 5 + 1) = 29" unfolding md by auto
    have "0 \<le> mp" using doy unfolding mp_def by linarith
    with m(1) have "mp = 11" by (auto split: if_split_asm)
    with m(2) doy show False by simp
  qed
qed
lemma leap_day_throws: "\<exists>m. claim 0 1835395200000 (demo_job leap_day nx cl) = Inl m"
proof -
  let ?f = "\<lparr>cf_minute = [0], cf_hour = [0], cf_day = [29], cf_month = [2], cf_weekday = [0, 1, 2, 3, 4, 5, 6, 7]\<rparr>"
  have parsed: "parseCron ''0 0 29 2 *'' = Inr ?f" by code_simp
  have dl: "cron_deadline 0 1835395200001 = 1835395260000 + 31622400000" by code_simp
  have no: "\<not> cron_due ?f 0 c" if "1835395200001 < c" "c \<le> 1835395260000 + 31622400000" for c
  proof
    assume d: "cron_due ?f 0 c"
    have rng: "21243 \<le> c div 86400000" "c div 86400000 < 21611" using that by linarith+
    show False
    proof (cases "c div 86400000 = 21243")
      case True
      have nat0: "x mod k = 0" if "nat (x mod k) = 0" "0 < k" for x k :: int
        using that pos_mod_sign [of k x] by linarith
      have z: "c mod 60000 = 0" "(c div 60000) mod 60 = 0" "(c div 3600000) mod 24 = 0"
        using d nat0 [of "c div 60000" 60] nat0 [of "c div 3600000" 24]
        by (auto simp: cron_due_def cron_matches_def local_minutes_def local_hours_def)
      have "c div 3600000 div 24 = 21243" using True zdiv_zmult2_eq [of 24 c 3600000] by simp
      with z(3) have h: "c div 3600000 = 24 * 21243" using div_mult_mod_eq [of "c div 3600000" 24] by linarith
      have "c div 60000 div 60 = 24 * 21243" using h zdiv_zmult2_eq [of 60 c 60000] by simp
      with z(2) have "c div 60000 = 60 * (24 * 21243)" using div_mult_mod_eq [of "c div 60000" 60] by linarith
      with z(1) have "c = 60000 * (60 * (24 * 21243))" using div_mult_mod_eq [of c 60000] by linarith
      with that show False by simp
    next
      case False
      with rng have "month_date (c div 86400000) \<noteq> (2, 29)" by (intro no_leap_day) linarith+
      with d show False
        by (auto simp: cron_due_def cron_matches_def local_month_def local_date_def prod_eq_iff)
    qed
  qed
  have "\<exists>m. nextCronRun 0 ''0 0 29 2 *'' 1835395200001 = Inl m"
    using nextCronRun_Inr [OF parsed, of 0 1835395200001] no unfolding dl by (metis sum.exhaust)
  then show ?thesis by (auto simp: claim_def demo_job_def leap_day_def nextRunAfter_def)
qed

theorem timer_throw_strands_due_jobs_witness:
  "\<exists>t m. timer_fires 0 1835395200000 (boot (Stored [demo_job demo_interval (Some 1835395200000) None, demo_job leap_day (Some 1835395200000) None])) = (t, Inl m)
     \<and> sc_timer t = None \<and> job_claimedAt (sc_jobs t ! 0) = Some 1835395200000 \<and> (\<forall>later. \<not> is_due later (sc_jobs t ! 0))"
proof -
  let ?a = "demo_job demo_interval (Some 1835395200000) None" and ?b = "demo_job leap_day (Some 1835395200000) None"
  let ?s = "boot (Stored [?a, ?b])"
  have jobs: "sc_jobs ?s = [?a, ?b]" by (simp add: boot_jobs interrupted_def demo_job_def)
  have due: "due_jobs 1835395200000 [?a, ?b] = [0, 1]" by code_simp
  obtain m where m: "claim 0 1835395200000 ?b = Inl m" using leap_day_throws by blast
  have a: "\<exists>a'. claim 0 1835395200000 ?a = Inr a'"
    by (simp add: claim_def demo_job_def demo_interval_def nextRunAfter_def to_iso_def)
  have e: "\<exists>t. timer_fires 0 1835395200000 ?s = (t, Inl m)"
    using a m by (auto simp: timer_fires_def runDue_def jobs due)
  then obtain t where t: "timer_fires 0 1835395200000 ?s = (t, Inl m)" by blast
  from timer_throw_strands_due_jobs [OF t] obtain k where
    k: "k < Suc (Suc 0)" "claim 0 1835395200000 ([?a, ?b] ! k) = Inl m" "sc_timer t = None"
     "\<forall>i<k. is_due 1835395200000 ([?a, ?b] ! i) \<longrightarrow> job_claimedAt (sc_jobs t ! i) = Some 1835395200000 \<and> (\<forall>later. \<not> is_due later (sc_jobs t ! i))"
    unfolding jobs by auto
  with a have "k = 1" by (auto simp: less_Suc_eq)
  moreover have "is_due 1835395200000 ?a" by code_simp
  ultimately show ?thesis using k t by auto
qed

text \<open>
  A due heartbeat whose session file is gone is cancelled, but the cancellation is not
  reported: \<open>changed\<close> is not called, although the heartbeat leaves the catalog, while the same
  cancellation through \<open>cancel\<close> is reported.
\<close>

theorem dispatch_gone_unreported:
  assumes "i < length (sc_jobs s)" and "job_status (sc_jobs s ! i) = Active" and "isHeartbeat (sc_jobs s ! i)"
    and "sc_handles s (job_activeSessionId (sc_jobs s ! i)) = None" and "\<not> exists (job_sessionFile (sc_jobs s ! i))"
    and "find_job (job_id (sc_jobs s ! i)) s = Some i"
  shows "job_status (sc_jobs (dispatch_begin now exists i s) ! i) = Cancelled
       \<and> sc_changed (dispatch_begin now exists i s) = sc_changed s
       \<and> sc_changed (cancel_job (demo_env now) (job_id (sc_jobs s ! i)) s) = Suc (sc_changed s)"
proof -
  let ?g = "\<lambda>j. j\<lparr>job_status := Cancelled, job_nextRunAt := None\<rparr>"
  let ?f = "finished_job now Skipped (Some (''session file '' @ job_sessionFile (sc_jobs s ! i) @ '' is gone; the job was cancelled''))"
  have b: "dispatch_begin now exists i s = leave_lane i (mutate now (patch i ?f) (s\<lparr>sc_jobs := patch i ?g (sc_jobs s)\<rparr>))"
    using assms by (simp add: dispatch_begin_def dispatch_finish_def Let_def)
  have cs: "catalogSignature (js[i := j]) = catalogSignature js" if "i < length js" "\<not> isLive (js ! i)" "\<not> isLive j" for js j
    using that by (subst id_take_nth_drop [OF that(1)]) (simp add: catalogSignature_def upd_conv_take_nth_drop)
  have len: "length (catalogSignature (js[i := j])) < length (catalogSignature js)"
    if "i < length js" "isHeartbeat (js ! i)" "isLive (js ! i)" "\<not> isLive j" for js j
    using that by (subst (2) id_take_nth_drop [OF that(1)]) (simp add: catalogSignature_def upd_conv_take_nth_drop)
  have live: "isLive (sc_jobs s ! i)" using assms(2) by (simp add: isLive_def)
  have dead: "\<not> isLive (?g j)" "\<not> isLive (?f (?g j))" "\<not> isLive (cancelled_at now j)" for j
    by (simp_all add: isLive_def finished_job_def cancelled_at_def Let_def)
  have "sc_changed (mutate now (patch i ?f) (s\<lparr>sc_jobs := patch i ?g (sc_jobs s)\<rparr>)) = sc_changed s"
    using assms(1) dead cs [of "(sc_jobs s)[i := ?g (sc_jobs s ! i)]" "?f (?g (sc_jobs s ! i))"]
    by (simp add: mutate_def Let_def patch_def write_jobs_def)
  moreover have "sc_changed (cancel_job (demo_env now) (job_id (sc_jobs s ! i)) s) = Suc (sc_changed s)"
    using assms(1,2,6) len [OF assms(1,3) live dead(3), of "sc_jobs s ! i"]
    by (auto simp: cancel_job_def demo_env_def mutate_def Let_def patch_def write_jobs_def)
  ultimately show ?thesis
    unfolding b using assms(1) by (simp add: leave_lane_def patch_def finished_job_def Let_def)
qed

text \<open>
  The status of a job is not checked again once its session has been reopened: a job that
  was cancelled or paused while the reopening ran is still sent to the session and counted as a
  run, whereas a delivery that starts after the cancellation sends nothing.
\<close>

theorem dispatch_reopened_ignores_cancel:
  assumes "i < length (sc_jobs s)" and "job_status (sc_jobs s ! i) \<noteq> Active"
    and "sc_handles s (job_activeSessionId (sc_jobs s ! i)) = Some h"
    and "\<not> defers (sc_jobs s ! i) (h_activity h)" and "h_sendError h = None"
  shows "sc_sent (dispatch_reopened now None i s) = sc_sent s
           @ [(h_sessionId h, dispatch_message (sc_jobs s ! i), send_mode_of (sc_jobs s ! i) (streaming (h_activity h)))]
       \<and> job_runCount (sc_jobs (dispatch_reopened now None i s) ! i) = job_runCount (sc_jobs s ! i) + 1
       \<and> sc_sent (dispatch_begin now exists i s) = sc_sent s"
  using assms
  by (auto simp: dispatch_reopened_def dispatch_begin_def dispatch_deliver_def dispatch_finish_def leave_lane_def
      patch_def finished_job_def Let_def)

definition demo_beat :: job where
  "demo_beat = (demo_job demo_interval (Some 60000) None)\<lparr>job_source := Heartbeat, job_deliveryMode := Some Steer\<rparr>"

theorem dispatch_gone_unreported_witness:
  "sc_changed (dispatch_begin 60000 (\<lambda>_. False) 0 (boot (Stored [demo_beat]))) = 0"
proof -
  let ?s = "boot (Stored [demo_beat])"
  have h: "0 < length (sc_jobs ?s)" "job_status (sc_jobs ?s ! 0) = Active" "isHeartbeat (sc_jobs ?s ! 0)"
    "sc_handles ?s (job_activeSessionId (sc_jobs ?s ! 0)) = None" "find_job (job_id (sc_jobs ?s ! 0)) ?s = Some 0"
    "sc_changed ?s = 0"
    by code_simp+
  from dispatch_gone_unreported [of 0 ?s "\<lambda>_. False" 60000, OF h(1-4) _ h(5)] show ?thesis unfolding h(6) by blast
qed

theorem dispatch_reopened_ignores_cancel_witness:
  "sc_sent (dispatch_reopened 60000 None 0 (cancel_job (demo_env 60000) ''u'' (attach demo_handle
     (dispatch_begin 60000 (\<lambda>_. True) 0 (fst (runDue 0 60000 (boot (Stored [demo_job demo_interval (Some 60000) None]))))))))
   = [(''s1'', TextPrompt ''go'', SendStart)]"
proof -
  let ?s = "cancel_job (demo_env 60000) ''u'' (attach demo_handle
     (dispatch_begin 60000 (\<lambda>_. True) 0 (fst (runDue 0 60000 (boot (Stored [demo_job demo_interval (Some 60000) None]))))))"
  have h: "0 < length (sc_jobs ?s)" "job_status (sc_jobs ?s ! 0) \<noteq> Active"
    "sc_handles ?s (job_activeSessionId (sc_jobs ?s ! 0)) = Some demo_handle"
    "\<not> defers (sc_jobs ?s ! 0) (h_activity demo_handle)" "h_sendError demo_handle = None" "sc_sent ?s = []"
    "h_sessionId demo_handle = ''s1''" "dispatch_message (sc_jobs ?s ! 0) = TextPrompt ''go''"
    "send_mode_of (sc_jobs ?s ! 0) (streaming (h_activity demo_handle)) = SendStart"
    by code_simp+
  from dispatch_reopened_ignores_cancel [of 0 ?s demo_handle 60000 "\<lambda>_. True", OF h(1-5)] show ?thesis
    unfolding h(6-9) append_Nil by blast
qed

end
