(* ===== verification/Lease.thy ===== *)
theory Lease
  imports Prelude
begin

text \<open>
  One writer per session file: \<^verbatim>\<open>packages/pi-host/src/lease.ts\<close>. The lockfiles are a map from lock path
  to content; \<open>realpath\<close> is the parameter \<open>real\<close> and the process table (\<open>process.kill(pid, 0)\<close>) the
  parameter \<open>kill\<close>, true also for a process of another user (\<open>EPERM\<close>). The first model runs each
  \<open>takeLock\<close> without interruption; the second one interleaves its file operations. The session
  folder exists and is writable, so creating the lockfile fails only because it exists. Times are
  milliseconds; the empty \<open>at\<close> text of the in-host error is 0.
\<close>

section \<open>Lockfiles\<close>

record lock_record =
  lk_pid :: int
  lk_owner :: string
  lk_sessionId :: string
  lk_at :: int

text \<open>A lockfile that does not parse reads as undefined.\<close>

datatype lockfile = LockFile lock_record | Unreadable

type_synonym lockfs = "string \<Rightarrow> lockfile option"

datatype lock_error = SessionLocked string "lock_record option" bool

definition lock_message :: "lock_error \<Rightarrow> string" where
  "lock_message e = (case e of SessionLocked path holder inHost \<Rightarrow>
     if inHost then ''Session '' @ path @ '' is already open in this pi-host.''
     else ''Session '' @ path @ '' is open in another process (pid ''
       @ (case holder of None \<Rightarrow> ''unknown'' | Some r \<Rightarrow> show_int (lk_pid r)) @ '', ''
       @ (case holder of None \<Rightarrow> ''unknown'' | Some r \<Rightarrow> lk_owner r) @ '').'')"

definition lockPathOf :: "string \<Rightarrow> string" where
  "lockPathOf path = path @ ''.lock''"

definition alive :: "int \<Rightarrow> (int \<Rightarrow> bool) \<Rightarrow> int \<Rightarrow> bool" where
  "alive me kill pid \<longleftrightarrow> pid = me \<or> kill pid"

definition readLock :: "string \<Rightarrow> lockfs \<Rightarrow> lock_record option" where
  "readLock path fs = (case fs (lockPathOf path) of Some (LockFile r) \<Rightarrow> Some r | _ \<Rightarrow> None)"

definition lock_stale :: "int \<Rightarrow> (int \<Rightarrow> bool) \<Rightarrow> bool \<Rightarrow> lock_record option \<Rightarrow> bool" where
  "lock_stale me kill ownedHere holder \<longleftrightarrow>
     (case holder of
        None \<Rightarrow> True
      | Some r \<Rightarrow> \<not> alive me kill (lk_pid r) \<or> lk_pid r = me \<and> \<not> ownedHere)"

text \<open>What one call knows: the process, the process table, the clock, the owner text and the session id.\<close>

record lock_call =
  lc_me :: int
  lc_kill :: "int \<Rightarrow> bool"
  lc_now :: int
  lc_owner :: string
  lc_sid :: string
  lc_ownedHere :: bool

definition own_record :: "lock_call \<Rightarrow> lock_record" where
  "own_record c = \<lparr>lk_pid = lc_me c, lk_owner = lc_owner c, lk_sessionId = lc_sid c, lk_at = lc_now c\<rparr>"

text \<open>The loop of \<open>takeLock\<close>, with the attempts that are left.\<close>

fun take_attempts :: "nat \<Rightarrow> lock_call \<Rightarrow> string \<Rightarrow> lockfs \<Rightarrow> lockfs \<times> (lock_error + unit)" where
  "take_attempts 0 c path fs = (fs, Inl (SessionLocked path (readLock path fs) False))"
| "take_attempts (Suc n) c path fs =
     (case fs (lockPathOf path) of
        None \<Rightarrow> (fs(lockPathOf path \<mapsto> LockFile (own_record c)), Inr ())
      | Some _ \<Rightarrow>
         (let holder = readLock path fs in
          if \<not> lock_stale (lc_me c) (lc_kill c) (lc_ownedHere c) holder
          then (fs, Inl (SessionLocked path holder False))
          else take_attempts n c path (fs(lockPathOf path := None))))"

definition takeLock :: "lock_call \<Rightarrow> string \<Rightarrow> lockfs \<Rightarrow> lockfs \<times> (lock_error + unit)" where
  "takeLock c path fs = take_attempts 3 c path fs"

definition dropLock :: "int \<Rightarrow> string \<Rightarrow> lockfs \<Rightarrow> lockfs" where
  "dropLock me path fs =
     (case readLock path fs of
        Some r \<Rightarrow> if lk_pid r \<noteq> me then fs else fs(lockPathOf path := None)
      | None \<Rightarrow> fs(lockPathOf path := None))"

section \<open>The host's lease map\<close>

text \<open>\<open>held\<close> is a JavaScript Map, an association list in insertion order.\<close>

type_synonym leases = "(string \<times> string) list"

definition acquire :: "(string \<Rightarrow> string) \<Rightarrow> lock_call \<Rightarrow> string \<Rightarrow> leases \<times> lockfs \<Rightarrow> (leases \<times> lockfs) \<times> (lock_error + string)" where
  "acquire real c path st =
     (let rp = real path in
      case map_of (fst st) rp of
        Some holder \<Rightarrow> (st, Inl (SessionLocked rp
          (Some \<lparr>lk_pid = lc_me c, lk_owner = lc_owner c, lk_sessionId = holder, lk_at = 0\<rparr>) True))
      | None \<Rightarrow>
         (case takeLock (c\<lparr>lc_ownedHere := False\<rparr>) rp (snd st) of
            (fs, Inl e) \<Rightarrow> ((fst st, fs), Inl e)
          | (fs, Inr _) \<Rightarrow> ((fst st @ [(rp, lc_sid c)], fs), Inr rp)))"

definition holderOf :: "(string \<Rightarrow> string) \<Rightarrow> bool \<Rightarrow> string \<Rightarrow> leases \<Rightarrow> string option" where
  "holderOf real dir_exists path held = (if dir_exists then map_of held (real path) else None)"

definition release :: "int \<Rightarrow> string \<Rightarrow> leases \<times> lockfs \<Rightarrow> leases \<times> lockfs" where
  "release me rp st =
     (if map_of (fst st) rp = None then st
      else (filter (\<lambda>e. fst e \<noteq> rp) (fst st), dropLock me rp (snd st)))"

definition releaseAll :: "int \<Rightarrow> leases \<times> lockfs \<Rightarrow> leases \<times> lockfs" where
  "releaseAll me st = fold (release me) (map fst (fst st)) st"

text \<open>\<open>leaseExtension\<close>: the plain CLI holds at most one path; a failed start shuts the session down.\<close>

definition cli_session_start :: "(string \<Rightarrow> string) \<Rightarrow> lock_call \<Rightarrow> string option \<Rightarrow> leases \<times> lockfs \<Rightarrow> (leases \<times> lockfs) \<times> bool" where
  "cli_session_start real c sfile st =
     (case sfile of
        None \<Rightarrow> (st, True)
      | Some f \<Rightarrow>
         (case takeLock (c\<lparr>lc_ownedHere := False\<rparr>) (real f) (snd st) of
            (fs, Inr _) \<Rightarrow> (([(real f, lc_sid c)], fs), True)
          | (fs, Inl e) \<Rightarrow> ((fst st, fs), False)))"

definition cli_session_shutdown :: "int \<Rightarrow> leases \<times> lockfs \<Rightarrow> leases \<times> lockfs" where
  "cli_session_shutdown me st =
     (case fst st of [] \<Rightarrow> st | (p, _) # _ \<Rightarrow> ([], dropLock me p (snd st)))"

section \<open>Processes that share the lockfiles\<close>

text \<open>
  Any number of hosts and CLIs, each with its leases; a process may die and lose them, and a
  new process may get its pid. Each operation of a live process runs without interruption.
\<close>

record box =
  bx_fs :: lockfs
  bx_up :: "int \<Rightarrow> bool"
  bx_held :: "int \<Rightarrow> leases"

definition with_proc :: "int \<Rightarrow> box \<Rightarrow> leases \<times> lockfs \<Rightarrow> box" where
  "with_proc p b st = b\<lparr>bx_fs := snd st, bx_held := (bx_held b)(p := fst st)\<rparr>"

inductive box_step :: "(string \<Rightarrow> string) \<Rightarrow> box \<Rightarrow> box \<Rightarrow> bool" for real where
  BoxAcquire: "bx_up b (lc_me c) \<Longrightarrow> lc_kill c = bx_up b \<Longrightarrow>
     box_step real b (with_proc (lc_me c) b (fst (acquire real c path (bx_held b (lc_me c), bx_fs b))))"
| BoxRelease: "bx_up b p \<Longrightarrow> box_step real b (with_proc p b (release p rp (bx_held b p, bx_fs b)))"
| BoxReleaseAll: "bx_up b p \<Longrightarrow> box_step real b (with_proc p b (releaseAll p (bx_held b p, bx_fs b)))"
| BoxCliStart: "bx_up b (lc_me c) \<Longrightarrow> lc_kill c = bx_up b \<Longrightarrow>
     box_step real b (with_proc (lc_me c) b (fst (cli_session_start real c sfile (bx_held b (lc_me c), bx_fs b))))"
| BoxCliStop: "bx_up b p \<Longrightarrow> box_step real b (with_proc p b (cli_session_shutdown p (bx_held b p, bx_fs b)))"
| BoxDie: "bx_up b p \<Longrightarrow> box_step real b (b\<lparr>bx_up := (bx_up b)(p := False), bx_held := (bx_held b)(p := [])\<rparr>)"
| BoxSpawn: "\<not> bx_up b p \<Longrightarrow> box_step real b (b\<lparr>bx_up := (bx_up b)(p := True), bx_held := (bx_held b)(p := [])\<rparr>)"

definition box_init :: "box \<Rightarrow> bool" where
  "box_init b \<longleftrightarrow> (\<forall>p. bx_held b p = [])"

text \<open>Every path a live process holds has a lockfile with its pid.\<close>

definition owned :: "int \<Rightarrow> string \<Rightarrow> lockfs \<Rightarrow> bool" where
  "owned p path fs \<longleftrightarrow> (\<exists>r. readLock path fs = Some r \<and> lk_pid r = p)"

definition box_ok :: "box \<Rightarrow> bool" where
  "box_ok b \<longleftrightarrow> (\<forall>p path. bx_up b p \<and> path \<in> fst ` set (bx_held b p) \<longrightarrow> owned p path (bx_fs b))"

section \<open>File operations of concurrent openers\<close>

text \<open>
  One session path, and every process inside \<open>takeLock\<close>. A process stops between any two file
  operations: \<open>openSync(lock, "wx")\<close> makes an empty file, \<open>writeSync\<close> fills the file it opened even
  if its name is gone by then, \<open>readFileSync\<close> and \<open>unlinkSync\<close> go through the name.
\<close>

datatype lock_pc = AtOpen nat | AtWrite | AtRead nat | AtUnlink nat | Holds | Refused

record lock_sys =
  ls_name :: "nat option"
  ls_data :: "nat \<Rightarrow> lockfile"
  ls_fresh :: nat
  ls_fd :: "int \<Rightarrow> nat"
  ls_pc :: "int \<Rightarrow> lock_pc"

definition lock_syscall :: "(int \<Rightarrow> lock_call) \<Rightarrow> int \<Rightarrow> lock_sys \<Rightarrow> lock_sys" where
  "lock_syscall calls p s =
     (case ls_pc s p of
        AtOpen a \<Rightarrow>
          if 3 \<le> a then s\<lparr>ls_pc := (ls_pc s)(p := Refused)\<rparr>
          else (case ls_name s of
             None \<Rightarrow> s\<lparr>ls_name := Some (ls_fresh s), ls_data := (ls_data s)(ls_fresh s := Unreadable), ls_fresh := Suc (ls_fresh s),
                ls_fd := (ls_fd s)(p := ls_fresh s), ls_pc := (ls_pc s)(p := AtWrite)\<rparr>
           | Some _ \<Rightarrow> s\<lparr>ls_pc := (ls_pc s)(p := AtRead a)\<rparr>)
      | AtWrite \<Rightarrow> s\<lparr>ls_data := (ls_data s)(ls_fd s p := LockFile (own_record (calls p))), ls_pc := (ls_pc s)(p := Holds)\<rparr>
      | AtRead a \<Rightarrow>
          (let holder = (case ls_name s of
               Some n \<Rightarrow> (case ls_data s n of LockFile r \<Rightarrow> Some r | Unreadable \<Rightarrow> None) | None \<Rightarrow> None)
           in s\<lparr>ls_pc := (ls_pc s)(p :=
                (if lock_stale (lc_me (calls p)) (lc_kill (calls p)) (lc_ownedHere (calls p)) holder then AtUnlink a else Refused))\<rparr>)
      | AtUnlink a \<Rightarrow> s\<lparr>ls_name := None, ls_pc := (ls_pc s)(p := AtOpen (Suc a))\<rparr>
      | Holds \<Rightarrow> s
      | Refused \<Rightarrow> s)"

definition lock_run :: "(int \<Rightarrow> lock_call) \<Rightarrow> int list \<Rightarrow> lock_sys \<Rightarrow> lock_sys" where
  "lock_run calls ps s = fold (lock_syscall calls) ps s"

text \<open>The lockfile that the name leads to.\<close>

definition ls_file :: "lock_sys \<Rightarrow> lockfile option" where
  "ls_file s = map_option (ls_data s) (ls_name s)"

section \<open>Lemmas\<close>

lemma lockPathOf_inj [simp]: "lockPathOf a = lockPathOf b \<longleftrightarrow> a = b"
  by (simp add: lockPathOf_def)

lemma readLock_other [simp]: "a \<noteq> b \<Longrightarrow> readLock a (fs(lockPathOf b := v)) = readLock a fs"
  by (simp add: readLock_def)

lemma readLock_same [simp]:
  "readLock a (fs(lockPathOf a := None)) = None" "readLock a (fs(lockPathOf a \<mapsto> LockFile r)) = Some r"
  by (simp_all add: readLock_def)

text \<open>\<open>takeLock\<close> without interruption: refused by a live holder, otherwise the lockfile is ours.\<close>

lemma takeLock_eq:
  "takeLock c path fs =
     (if fs (lockPathOf path) \<noteq> None \<and> \<not> lock_stale (lc_me c) (lc_kill c) (lc_ownedHere c) (readLock path fs)
      then (fs, Inl (SessionLocked path (readLock path fs) False))
      else (fs(lockPathOf path \<mapsto> LockFile (own_record c)), Inr ()))"
  by (auto simp: takeLock_def numeral_3_eq_3 Let_def split: option.splits)

lemma takeLock_keeps_others:
  assumes "takeLock c path fs = (fs', r)" and "owned q path' fs" and "q \<noteq> lc_me c \<or> path' \<noteq> path"
    and "lc_kill c q \<or> q = lc_me c"
  shows "owned q path' fs'"
  using assms
  by (auto simp: takeLock_eq owned_def lock_stale_def alive_def split: if_split_asm option.splits)
     (auto simp: readLock_def split: option.splits)

lemma dropLock_keeps: "owned q path' fs \<Longrightarrow> q \<noteq> p \<or> path' \<noteq> path \<Longrightarrow> owned q path' (dropLock p path fs)"
  by (cases "path' = path") (auto simp: dropLock_def owned_def split: option.splits)

lemma takeLock_owned: "takeLock c path fs = (fs', Inr u) \<Longrightarrow> owned (lc_me c) path fs'"
  by (auto simp: takeLock_eq owned_def own_record_def split: if_split_asm)

definition call_ok :: "int \<Rightarrow> leases \<times> lockfs \<Rightarrow> (int \<Rightarrow> bool) \<Rightarrow> leases \<times> lockfs \<Rightarrow> bool" where
  "call_ok p st up st' \<longleftrightarrow>
     ((\<forall>path \<in> fst ` set (fst st). owned p path (snd st)) \<longrightarrow> (\<forall>path \<in> fst ` set (fst st'). owned p path (snd st')))
     \<and> (\<forall>q path. q \<noteq> p \<and> up q \<and> owned q path (snd st) \<longrightarrow> owned q path (snd st'))"

lemma acquire_call: "lc_kill c = up \<Longrightarrow> call_ok (lc_me c) st up (fst (acquire real c path st))"
proof -
  assume k: "lc_kill c = up"
  show ?thesis
  proof (cases "map_of (fst st) (real path)")
    case None
    obtain fs r where t: "takeLock (c\<lparr>lc_ownedHere := False\<rparr>) (real path) (snd st) = (fs, r)" by fastforce
    have keep: "owned q p' fs" if "owned q p' (snd st)" "q \<noteq> lc_me c \<or> p' \<noteq> real path" "up q \<or> q = lc_me c" for q p'
      using takeLock_keeps_others [OF t that(1)] that k by simp
    have "owned (lc_me c) a fs" if "(a, b) \<in> set (fst st)" "owned (lc_me c) a (snd st)" for a b
      using that None by (intro keep) (auto simp: map_of_eq_None_iff image_iff)
    then show ?thesis
      using None t keep takeLock_owned [OF t [THEN trans, of "(fs, Inr ())"]]
      by (cases r) (auto simp: acquire_def call_ok_def Let_def)
  qed (simp add: acquire_def call_ok_def)
qed

lemma cli_call: "lc_kill c = up \<Longrightarrow> call_ok (lc_me c) st up (fst (cli_session_start real c sfile st))"
proof -
  assume k: "lc_kill c = up"
  show ?thesis
  proof (cases sfile)
    case (Some f)
    obtain fs r where t: "takeLock (c\<lparr>lc_ownedHere := False\<rparr>) (real f) (snd st) = (fs, r)" by fastforce
    have "owned q p' fs" if "owned q p' (snd st)" "q \<noteq> lc_me c \<or> p' \<noteq> real f" "up q \<or> q = lc_me c" for q p'
      using takeLock_keeps_others [OF t that(1)] that k by simp
    moreover have "fs = snd st" if "r = Inl e" for e using t that by (auto simp: takeLock_eq split: if_split_asm)
    ultimately show ?thesis
      using Some t takeLock_owned [OF t [THEN trans, of "(fs, Inr ())"]]
      by (cases r) (auto simp: cli_session_start_def call_ok_def Let_def)
  qed (simp add: cli_session_start_def call_ok_def)
qed

lemma release_call: "call_ok p st up (release p rp st)"
  by (auto simp: call_ok_def release_def dropLock_keeps)

lemma call_ok_trans: "call_ok p a up b \<Longrightarrow> call_ok p b up c \<Longrightarrow> call_ok p a up c"
  by (auto simp: call_ok_def)

lemma releaseAll_call: "call_ok p st up (releaseAll p st)"
proof -
  have "call_ok p s up (fold (release p) xs s)" for xs s
  proof (induction xs arbitrary: s)
    case (Cons x xs)
    then show ?case using call_ok_trans [OF release_call Cons.IH] by simp
  qed (simp add: call_ok_def)
  then show ?thesis by (simp add: releaseAll_def)
qed

lemma cli_stop_call: "call_ok p st up (cli_session_shutdown p st)"
  by (auto simp: call_ok_def cli_session_shutdown_def dropLock_keeps split: list.splits)

lemma call_box_ok:
  "box_ok b \<Longrightarrow> bx_up b p \<Longrightarrow> call_ok p (bx_held b p, bx_fs b) (bx_up b) st \<Longrightarrow> box_ok (with_proc p b st)"
  by (auto simp: box_ok_def with_proc_def call_ok_def)

interpretation bx: step_invariant box_init "box_step real" box_ok for real
proof
  show "box_init b \<Longrightarrow> box_ok b" for b by (simp add: box_init_def box_ok_def)
  show "box_ok b'" if "box_ok b" "box_step real b b'" for b b'
    using that(2,1)
    by (induction rule: box_step.induct)
       (auto intro!: call_box_ok acquire_call release_call releaseAll_call cli_call cli_stop_call, auto simp: box_ok_def)
qed

section \<open>Properties\<close>

text \<open>
  C5. When each operation runs without interruption, no two live processes ever hold the same
  session file, whatever hosts and CLIs acquire, release, crash and start again with a used pid;
  and the lockfile of a held session names its holder.
\<close>

theorem lease_exclusive:
  assumes "box_init b" and "(box_step real)\<^sup>*\<^sup>* b b'" and "bx_up b' p" and "path \<in> fst ` set (bx_held b' p)"
  shows "(\<exists>r. readLock path (bx_fs b') = Some r \<and> lk_pid r = p)
       \<and> (\<forall>q. bx_up b' q \<and> path \<in> fst ` set (bx_held b' q) \<longrightarrow> q = p)"
proof -
  have "box_ok b'" using bx.inv_reach assms(1,2) by blast
  then have "owned q path (bx_fs b')" if "bx_up b' q" "path \<in> fst ` set (bx_held b' q)" for q
    using that by (simp add: box_ok_def)
  then show ?thesis using assms(3,4) unfolding owned_def by (metis option.inject)
qed

definition demo_call :: "int \<Rightarrow> (int \<Rightarrow> bool) \<Rightarrow> lock_call" where
  "demo_call p up = \<lparr>lc_me = p, lc_kill = up, lc_now = 0, lc_owner = ''pi-host'', lc_sid = ''s'', lc_ownedHere = False\<rparr>"

theorem lease_exclusive_witness:
  "\<exists>b'. (box_step id)\<^sup>*\<^sup>* \<lparr>bx_fs = Map.empty, bx_up = (\<lambda>_. True), bx_held = (\<lambda>_. [])\<rparr> b'
     \<and> bx_held b' 7 = [(''f'', ''s'')] \<and> (\<exists>r. readLock ''f'' (bx_fs b') = Some r \<and> lk_pid r = 7)"
proof -
  let ?b = "\<lparr>bx_fs = Map.empty, bx_up = (\<lambda>_. True), bx_held = (\<lambda>_. [])\<rparr> :: box"
  let ?c = "demo_call 7 (\<lambda>_. True)"
  let ?b' = "with_proc 7 ?b (fst (acquire id ?c ''f'' ([], Map.empty)))"
  have s: "box_step id ?b ?b'"
    using BoxAcquire [of ?b ?c id "''f''"] by (simp add: demo_call_def)
  have h: "bx_held ?b' 7 = [(''f'', ''s'')]"
    by (simp add: with_proc_def acquire_def takeLock_eq demo_call_def Let_def)
  have i: "box_init ?b" and u: "bx_up ?b' 7" and m: "''f'' \<in> fst ` set (bx_held ?b' 7)"
    unfolding h by (simp_all add: box_init_def with_proc_def)
  from lease_exclusive [OF i r_into_rtranclp [of "box_step id", OF s] u m] h s show ?thesis by blast
qed

text \<open>
  What \<open>acquire\<close> answers: a path this host holds is refused as already open here; one whose
  lockfile names another live process is refused with that holder and left alone; in every other
  case (no lockfile, an unreadable one, one of a dead process, or one of this pid that holds no
  lease) it succeeds, keyed by the real path, with a lockfile of this process on disk.
\<close>

theorem acquire_outcome:
  "acquire real c path (held, fs) =
     (case map_of held (real path) of
        Some sid \<Rightarrow> ((held, fs), Inl (SessionLocked (real path)
          (Some \<lparr>lk_pid = lc_me c, lk_owner = lc_owner c, lk_sessionId = sid, lk_at = 0\<rparr>) True))
      | None \<Rightarrow>
         (case fs (lockPathOf (real path)) of
            Some (LockFile r) \<Rightarrow>
              if lk_pid r \<noteq> lc_me c \<and> lc_kill c (lk_pid r)
              then ((held, fs), Inl (SessionLocked (real path) (Some r) False))
              else ((held @ [(real path, lc_sid c)], fs(lockPathOf (real path) \<mapsto> LockFile (own_record c))), Inr (real path))
          | _ \<Rightarrow> ((held @ [(real path, lc_sid c)], fs(lockPathOf (real path) \<mapsto> LockFile (own_record c))), Inr (real path))))"
  by (auto simp: acquire_def takeLock_eq Let_def readLock_def lock_stale_def alive_def own_record_def
      split: option.splits lockfile.splits)

text \<open>
  The file operations of one opener that nobody interrupts do what \<open>takeLock\<close> does: after at
  most five of them it holds the lock or is refused, with the same lockfile left behind.
\<close>

theorem takeLock_syscalls:
  assumes "ls_pc s p = AtOpen 0" and "fs (lockPathOf path) = ls_file s" and "takeLock (calls p) path fs = (fs', r)"
    and "lock_run calls [p, p, p, p, p] s = t"
  shows "ls_pc t p = (case r of Inr _ \<Rightarrow> Holds | Inl _ \<Rightarrow> Refused) \<and> ls_file t = fs' (lockPathOf path)"
proof (cases "ls_name s")
  case None
  then show ?thesis
    using assms by (auto simp: lock_run_def lock_syscall_def takeLock_eq ls_file_def)
next
  case (Some n)
  then have rd: "readLock path fs = (case ls_data s n of LockFile r \<Rightarrow> Some r | Unreadable \<Rightarrow> None)"
    using assms(2) by (simp add: readLock_def ls_file_def split: lockfile.splits)
  show ?thesis
    using assms Some
    by (cases "lock_stale (lc_me (calls p)) (lc_kill (calls p)) (lc_ownedHere (calls p)) (readLock path fs)")
       (auto simp: lock_run_def lock_syscall_def takeLock_eq ls_file_def rd Let_def)
qed

definition fresh_sys :: lock_sys where
  "fresh_sys = \<lparr>ls_name = None, ls_data = (\<lambda>_. Unreadable), ls_fresh = 0, ls_fd = (\<lambda>_. 0), ls_pc = (\<lambda>_. AtOpen 0)\<rparr>"

theorem takeLock_syscalls_witness:
  "ls_pc (lock_run (\<lambda>p. demo_call p (\<lambda>_. True)) [7, 7, 7, 7, 7] fresh_sys) 7 = Holds"
proof -
  let ?calls = "\<lambda>p. demo_call p (\<lambda>_. True)"
  have "takeLock (?calls 7) ''f'' Map.empty = (Map.empty(lockPathOf ''f'' \<mapsto> LockFile (own_record (?calls 7))), Inr ())"
    by (simp add: takeLock_eq)
  from takeLock_syscalls [of fresh_sys 7 Map.empty "''f''" ?calls, OF _ _ this refl] show ?thesis by (simp add: fresh_sys_def ls_file_def)
qed

text \<open>
  Interleaved file operations break the lock: two openers of an unlocked session can both
  return from \<open>takeLock\<close>. The second one reads the file that the first has created and not yet
  written, takes it for a stale lock and removes it. Both processes live and both hold the lease,
  with a lockfile that names only one of them.
\<close>

theorem takeLock_race:
  "\<exists>ps. set ps = {1, 2} \<and>
     (let t = lock_run (\<lambda>p. demo_call p (\<lambda>_. True)) ps fresh_sys
      in ls_pc t 1 = Holds \<and> ls_pc t 2 = Holds \<and> ls_file t = Some (LockFile (own_record (demo_call 2 (\<lambda>_. True)))))"
proof (intro exI conjI)
  show "set [1, 2, 2, 2, 2, 2, 1] = {1, 2 :: int}" by auto
  show "let t = lock_run (\<lambda>p. demo_call p (\<lambda>_. True)) [1, 2, 2, 2, 2, 2, 1] fresh_sys
      in ls_pc t 1 = Holds \<and> ls_pc t 2 = Holds \<and> ls_file t = Some (LockFile (own_record (demo_call 2 (\<lambda>_. True))))"
    by (simp add: Let_def lock_run_def lock_syscall_def fresh_sys_def ls_file_def lock_stale_def own_record_def demo_call_def)
qed

end
