(* ===== verification/Family.thy ===== *)
theory Family
  imports Prelude "HOL-Library.Product_Lexorder"
begin

text \<open>
  Who an agent can reach: the process-wide registry of \<^verbatim>\<open>packages/pi-family/registry.ts\<close>, the reach
  rule of \<^verbatim>\<open>packages/pi-rlm/src/core/bus/family.ts\<close> and the members of \<^verbatim>\<open>members.ts\<close> beside it.

  A JavaScript Map is an association list in insertion order: \<open>AList.update\<close> is \<open>set\<close> (a key
  keeps its place) and \<open>AList.delete\<close> is \<open>delete\<close>. The functions of a registered entry
  (\<open>deliver\<close>, \<open>activity\<close>, \<open>preview\<close>) belong to the session that registered it. \<open>localeCompare\<close> is
  the parameter \<open>rank\<close>, the place of a text in the collation order.
\<close>

section \<open>The registry\<close>

datatype agent_role = RootAgent | ChildAgent

record identity =
  idn_name :: string
  idn_role :: agent_role
  idn_parentId :: "string option"
  idn_depth :: int

record agent_entry = identity +
  ag_id :: string
  ag_cwd :: string
  ag_sessionFile :: "string option"

record dormant_agent = agent_entry +
  dm_firstMessage :: "string option"

datatype registry_event = Registered string | Unregistered string

text \<open>\<open>rg_events\<close> is what the listeners were told, in order.\<close>

record registry =
  rg_identities :: "(string \<times> identity) list"
  rg_agents :: "(string \<times> agent_entry) list"
  rg_dormant :: "(string \<times> dormant_agent) list"
  rg_events :: "registry_event list"

definition assignIdentity :: "string \<Rightarrow> identity \<Rightarrow> registry \<Rightarrow> registry" where
  "assignIdentity sid i g = g\<lparr>rg_identities := AList.update sid i (rg_identities g)\<rparr>"

definition identityOf :: "string \<Rightarrow> string \<Rightarrow> registry \<Rightarrow> identity" where
  "identityOf sid fallbackName g =
     (case map_of (rg_identities g) sid of
        Some i \<Rightarrow> i
      | None \<Rightarrow> \<lparr>idn_name = fallbackName, idn_role = RootAgent, idn_parentId = None, idn_depth = 0\<rparr>)"

definition reg_register :: "agent_entry \<Rightarrow> registry \<Rightarrow> registry" where
  "reg_register e g = g\<lparr>rg_agents := AList.update (ag_id e) e (rg_agents g), rg_events := rg_events g @ [Registered (ag_id e)]\<rparr>"

definition reg_unregister :: "string \<Rightarrow> registry \<Rightarrow> registry" where
  "reg_unregister sid g =
     (if map_of (rg_agents g) sid = None then g
      else g\<lparr>rg_agents := AList.delete sid (rg_agents g), rg_identities := AList.delete sid (rg_identities g),
             rg_events := rg_events g @ [Unregistered sid]\<rparr>)"

definition reg_get :: "string \<Rightarrow> registry \<Rightarrow> agent_entry option" where
  "reg_get sid g = map_of (rg_agents g) sid"

definition reg_list :: "registry \<Rightarrow> agent_entry list" where
  "reg_list g = map snd (rg_agents g)"

definition childrenOf :: "string \<Rightarrow> registry \<Rightarrow> agent_entry list" where
  "childrenOf pid g = filter (\<lambda>a. idn_parentId a = Some pid) (reg_list g)"

definition registerDormant :: "dormant_agent \<Rightarrow> registry \<Rightarrow> registry" where
  "registerDormant r g = g\<lparr>rg_dormant := AList.update (ag_id r) r (rg_dormant g)\<rparr>"

definition unregisterDormant :: "string \<Rightarrow> registry \<Rightarrow> registry" where
  "unregisterDormant sid g = g\<lparr>rg_dormant := AList.delete sid (rg_dormant g)\<rparr>"

definition reg_dormant :: "registry \<Rightarrow> dormant_agent list" where
  "reg_dormant g = filter (\<lambda>r. reg_get (ag_id r) g = None) (map snd (rg_dormant g))"

definition dormantOf :: "string \<Rightarrow> registry \<Rightarrow> dormant_agent option" where
  "dormantOf sid g = (if reg_get sid g \<noteq> None then None else map_of (rg_dormant g) sid)"

section \<open>The reach rule\<close>

datatype relationship_kind = ParentRel | SiblingRel | ChildRel

record bus_member =
  mb_id :: string
  mb_name :: string
  mb_role :: agent_role
  mb_parentId :: "string option"
  mb_depth :: int

definition REACH_ERROR :: string where
  "REACH_ERROR = ''Agent reach is limited to parent, siblings, and children''"

definition relationship :: "bus_member \<Rightarrow> bus_member \<Rightarrow> relationship_kind option" where
  "relationship self other =
     (if mb_id self = mb_id other then None
      else if mb_parentId self = Some (mb_id other) then Some ParentRel
      else if mb_parentId other = Some (mb_id self) then Some ChildRel
      else if mb_depth self \<noteq> mb_depth other then None
      else if mb_parentId self \<noteq> None \<and> mb_parentId self = mb_parentId other then Some SiblingRel
      else if mb_depth self = 0 \<and> mb_parentId self = None \<and> mb_parentId other = None then Some SiblingRel
      else None)"

definition ORDER :: "relationship_kind \<Rightarrow> nat" where
  "ORDER r = (case r of ParentRel \<Rightarrow> 0 | SiblingRel \<Rightarrow> 1 | ChildRel \<Rightarrow> 2)"

text \<open>The loop of \<open>family\<close>: the first row of an id counts, later ones are skipped.\<close>

fun family_rows :: "('a \<Rightarrow> bus_member) \<Rightarrow> bus_member \<Rightarrow> string list \<Rightarrow> 'a list \<Rightarrow> (relationship_kind \<times> 'a) list" where
  "family_rows mem self seen [] = []"
| "family_rows mem self seen (x # xs) =
     (if mb_id (mem x) \<in> set seen then family_rows mem self seen xs
      else (case relationship self (mem x) of
          Some r \<Rightarrow> [(r, x)] | None \<Rightarrow> []) @ family_rows mem self (mb_id (mem x) # seen) xs)"

definition family :: "(string \<Rightarrow> int) \<Rightarrow> ('a \<Rightarrow> bus_member) \<Rightarrow> bus_member \<Rightarrow> 'a list \<Rightarrow> (relationship_kind \<times> 'a) list" where
  "family rank mem self xs =
     sort_key (\<lambda>(r, x). (ORDER r, rank (mb_name (mem x)))) (family_rows mem self [] xs)"

section \<open>Members\<close>

datatype roster_status = RosterRunning | RosterIdle | RosterInactive

record host_root =
  hr_sessionId :: string
  hr_sessionName :: "string option"
  hr_cwd :: string
  hr_sessionFile :: "string option"
  hr_rosterStatus :: roster_status
  hr_box :: "string option"

datatype route = ViaSocket string | ViaBox string

datatype known =
    KnownLive bus_member agent_entry
  | KnownDormant bus_member dormant_agent
  | KnownRemote bus_member host_root route

fun known_member :: "known \<Rightarrow> bus_member" where
  "known_member (KnownLive m _) = m"
| "known_member (KnownDormant m _) = m"
| "known_member (KnownRemote m _ _) = m"

definition memberOf :: "'a agent_entry_scheme \<Rightarrow> bus_member" where
  "memberOf e = \<lparr>mb_id = ag_id e, mb_name = idn_name e, mb_role = idn_role e, mb_parentId = idn_parentId e, mb_depth = idn_depth e\<rparr>"

definition localMembers :: "registry \<Rightarrow> known list" where
  "localMembers g = map (\<lambda>e. KnownLive (memberOf e) e) (reg_list g) @ map (\<lambda>r. KnownDormant (memberOf r) r) (reg_dormant g)"

definition remoteKnown :: "host_root \<Rightarrow> route \<Rightarrow> known" where
  "remoteKnown root rt =
     KnownRemote \<lparr>mb_id = hr_sessionId root,
        mb_name = (case hr_sessionName root of Some n \<Rightarrow> n | None \<Rightarrow> hr_sessionId root),
        mb_role = RootAgent, mb_parentId = None, mb_depth = 0\<rparr> root rt"

text \<open>The loops that add the roots of the boxes that answered; \<open>Inl\<close> is a box that did not.\<close>

fun add_roots :: "route \<Rightarrow> host_root list \<Rightarrow> string list \<times> known list \<Rightarrow> string list \<times> known list" where
  "add_roots rt [] acc = acc"
| "add_roots rt (r # rs) (seen, out) =
     (if hr_sessionId r \<in> set seen then add_roots rt rs (seen, out)
      else add_roots rt rs (hr_sessionId r # seen, out @ [remoteKnown r rt]))"

definition allMembers :: "(route \<times> host_root list res) list \<Rightarrow> registry \<Rightarrow> known list" where
  "allMembers answers g =
     (let out = localMembers g
      in snd (fold (\<lambda>(rt, ans) acc. case ans of Inl _ \<Rightarrow> acc | Inr roots \<Rightarrow> add_roots rt roots acc)
           answers (map (mb_id \<circ> known_member) out, out)))"

section \<open>Lemmas\<close>

text \<open>What every registry operation keeps: an entry and a dormant row are filed under their own id, once.\<close>

definition registry_ok :: "registry \<Rightarrow> bool" where
  "registry_ok g \<longleftrightarrow> keyed ag_id (rg_agents g) \<and> keyed ag_id (rg_dormant g)"

lemma registry_ok_ops:
  assumes "registry_ok g"
  shows "registry_ok (reg_register e g)" "registry_ok (reg_unregister sid g)" "registry_ok (registerDormant r g)"
    "registry_ok (unregisterDormant sid g)" "registry_ok (assignIdentity sid i g)"
  using assms by (simp_all add: registry_ok_def reg_register_def reg_unregister_def registerDormant_def unregisterDormant_def
      assignIdentity_def keyed_update keyed_delete)

abbreviation kid :: "known \<Rightarrow> string" where
  "kid k \<equiv> mb_id (known_member k)"

lemma localMembers_ids:
  assumes "registry_ok g"
  shows "distinct (map kid (localMembers g))"
proof -
  let ?P = "\<lambda>r. reg_get (ag_id r) g = None"
  have agents: "map ag_id (map snd (rg_agents g)) = map fst (rg_agents g)" "distinct (map fst (rg_agents g))"
    using assms by (simp_all add: registry_ok_def keyed_def)
  have "distinct (map ag_id (map snd (rg_dormant g)))"
    using assms unfolding registry_ok_def keyed_def by metis
  then have "distinct (map ag_id (filter ?P (map snd (rg_dormant g))))" by (rule distinct_map_filter)
  moreover have "set (map ag_id (filter ?P (map snd (rg_dormant g)))) \<inter> set (map fst (rg_agents g)) = {}"
    by (auto simp: reg_get_def map_of_eq_None_iff)
  moreover have "map kid (localMembers g) = map ag_id (map snd (rg_agents g)) @ map ag_id (filter ?P (map snd (rg_dormant g)))"
    by (simp add: localMembers_def reg_list_def reg_dormant_def memberOf_def)
  ultimately show ?thesis using agents by (metis Int_commute distinct_append)
qed

lemma remoteKnown_id [simp]: "kid (remoteKnown r rt) = hr_sessionId r"
  by (simp add: remoteKnown_def)

text \<open>The accumulator of \<open>allMembers\<close>: the ids seen are those of the members found, each once.\<close>

definition roots_acc :: "known list \<Rightarrow> string list \<times> known list \<Rightarrow> bool" where
  "roots_acc out acc \<longleftrightarrow> set (fst acc) = set (map kid (snd acc)) \<and> distinct (map kid (snd acc)) \<and> (\<exists>new. snd acc = out @ new)"

lemma add_roots_acc: "roots_acc out acc \<Longrightarrow> roots_acc out (add_roots rt rs acc)"
proof (induction rt rs acc rule: add_roots.induct)
  case (2 rt r rs seen out')
  show ?case
  proof (cases "hr_sessionId r \<in> set seen")
    case False
    with 2(3) have "roots_acc out (hr_sessionId r # seen, out' @ [remoteKnown r rt])"
      by (auto simp: roots_acc_def)
    from 2(2) [OF False this] False show ?thesis by simp
  qed (use 2 in simp)
qed simp

lemma allMembers_ids:
  assumes "registry_ok g"
  shows "distinct (map kid (allMembers answers g))" and "\<exists>remote. allMembers answers g = localMembers g @ remote"
proof -
  let ?f = "\<lambda>(rt, ans) acc. case ans of Inl _ \<Rightarrow> acc | Inr roots \<Rightarrow> add_roots rt roots acc"
  have step: "roots_acc out acc \<Longrightarrow> roots_acc out (?f a acc)" for out acc a
    by (auto simp: add_roots_acc split: prod.splits sum.splits)
  have fold: "roots_acc out acc \<Longrightarrow> roots_acc out (fold ?f xs acc)" for out acc xs
    by (induction xs arbitrary: acc) (simp_all add: step del: split_paired_All)
  have "roots_acc (localMembers g) (map (mb_id \<circ> known_member) (localMembers g), localMembers g)"
    using localMembers_ids [OF assms] by (simp add: roots_acc_def)
  from fold [OF this, of answers]
  show "distinct (map kid (allMembers answers g))" "\<exists>remote. allMembers answers g = localMembers g @ remote"
    by (simp_all add: allMembers_def Let_def roots_acc_def)
qed

lemma family_rows_set:
  "(r, x) \<in> set (family_rows mem self seen xs) \<longleftrightarrow>
     (\<exists>pre post. xs = pre @ x # post \<and> mb_id (mem x) \<notin> set seen \<union> set (map (mb_id \<circ> mem) pre) \<and> relationship self (mem x) = Some r)"
proof (induction xs arbitrary: seen)
  case (Cons y ys)
  have split: "(\<exists>pre post. y # ys = pre @ x # post \<and> P pre) \<longleftrightarrow> x = y \<and> P [] \<or> (\<exists>pre post. ys = pre @ x # post \<and> P (y # pre))" for P
    by (auto simp: Cons_eq_append_conv)
  show ?case
  proof (cases "mb_id (mem y) \<in> set seen")
    case True
    then show ?thesis unfolding split using Cons.IH [of seen] by auto
  next
    case False
    then have "(r, x) \<in> set (family_rows mem self seen (y # ys)) \<longleftrightarrow>
        x = y \<and> relationship self (mem y) = Some r \<or> (r, x) \<in> set (family_rows mem self (mb_id (mem y) # seen) ys)"
      by (auto split: option.splits)
    then show ?thesis unfolding split using Cons.IH [of "mb_id (mem y) # seen"] False by auto
  qed
qed simp

lemma family_rows_distinct: "distinct (map (\<lambda>rx. mb_id (mem (snd rx))) (family_rows mem self seen xs))"
proof (induction xs arbitrary: seen)
  case (Cons y ys)
  have "mb_id (mem y) \<notin> (\<lambda>rx. mb_id (mem (snd rx))) ` set (family_rows mem self (mb_id (mem y) # seen) ys)"
    by (auto simp: family_rows_set)
  with Cons show ?case by (auto split: option.splits)
qed simp

section \<open>Properties\<close>

text \<open>
  Reach is mutual. Siblinghood is symmetric, nobody is family of itself, and, unless each of
  two agents names the other as its parent, one is the other's parent exactly when the other is
  its child.
\<close>

theorem relationship_mutual:
  "(relationship a b = Some SiblingRel \<longleftrightarrow> relationship b a = Some SiblingRel)
   \<and> relationship a a = None
   \<and> (\<not> (mb_parentId a = Some (mb_id b) \<and> mb_parentId b = Some (mb_id a)) \<longrightarrow>
        (relationship a b = Some ParentRel \<longleftrightarrow> relationship b a = Some ChildRel)
        \<and> (relationship a b = None \<longleftrightarrow> relationship b a = None))"
  by (auto simp: relationship_def)

theorem relationship_mutual_witness:
  "relationship \<lparr>mb_id = ''r'', mb_name = ''r'', mb_role = RootAgent, mb_parentId = None, mb_depth = 0\<rparr>
     \<lparr>mb_id = ''c'', mb_name = ''c'', mb_role = ChildAgent, mb_parentId = Some ''r'', mb_depth = 1\<rparr> = Some ChildRel"
proof -
  let ?r = "\<lparr>mb_id = ''r'', mb_name = ''r'', mb_role = RootAgent, mb_parentId = None, mb_depth = 0\<rparr>"
  let ?c = "\<lparr>mb_id = ''c'', mb_name = ''c'', mb_role = ChildAgent, mb_parentId = Some ''r'', mb_depth = 1\<rparr>"
  have "relationship ?c ?r = Some ParentRel" by (simp add: relationship_def)
  moreover have "\<not> (mb_parentId ?c = Some (mb_id ?r) \<and> mb_parentId ?r = Some (mb_id ?c))" by simp
  ultimately show ?thesis using relationship_mutual [of ?c ?r] by blast
qed

text \<open>
  The roster of \<open>family\<close> over every member this process can see holds exactly the members in
  reach, each once and never oneself, with the local row of an id before a remote one; it lists
  the parent first, then siblings, then children, and within each by name.
\<close>

theorem family_roster:
  assumes "registry_ok g" and "family rank known_member self (allMembers answers g) = roster"
  shows "(\<forall>r k. (r, k) \<in> set roster \<longleftrightarrow> k \<in> set (allMembers answers g) \<and> relationship self (known_member k) = Some r)
       \<and> distinct (map (\<lambda>rk. mb_id (known_member (snd rk))) roster)
       \<and> mb_id self \<notin> (\<lambda>rk. mb_id (known_member (snd rk))) ` set roster
       \<and> sorted_wrt (\<lambda>(r, k) (r', k'). ORDER r < ORDER r'
            \<or> ORDER r = ORDER r' \<and> rank (mb_name (known_member k)) \<le> rank (mb_name (known_member k'))) roster"
proof -
  let ?xs = "allMembers answers g" and ?key = "\<lambda>(r, k). (ORDER r, rank (mb_name (known_member k)))"
  have roster: "roster = sort_key ?key (family_rows known_member self [] ?xs)"
    using assms(2) by (simp add: family_def)
  have first: "kid k \<notin> set (map kid pre)" if "?xs = pre @ k # post" for pre k post
    using allMembers_ids(1) [OF assms(1), of answers] that by auto
  have mem: "(r, k) \<in> set roster \<longleftrightarrow> k \<in> set ?xs \<and> relationship self (known_member k) = Some r" for r k
    unfolding roster set_sort family_rows_set using first by (fastforce simp: comp_def in_set_conv_decomp)
  have "distinct (map (\<lambda>rk. kid (snd rk)) roster)"
    unfolding roster using family_rows_distinct [of known_member self "[]" ?xs] by (simp add: distinct_map)
  moreover have "sorted (map ?key roster)" unfolding roster by simp
  then have "sorted_wrt (\<lambda>(r, k) (r', k'). ORDER r < ORDER r'
            \<or> ORDER r = ORDER r' \<and> rank (mb_name (known_member k)) \<le> rank (mb_name (known_member k'))) roster"
    unfolding sorted_wrt_map by (rule sorted_wrt_mono_rel [rotated]) (auto simp: less_eq_prod_def split: prod.splits)
  moreover have "mb_id self \<noteq> kid k" if "(r, k) \<in> set roster" for r k
    using mem that by (auto simp: relationship_def)
  ultimately show ?thesis using mem by fastforce
qed

theorem family_roster_witness:
  "map (\<lambda>(r, k). (r, mb_id (known_member k))) (family (\<lambda>_. 0) known_member
     \<lparr>mb_id = ''c'', mb_name = ''c'', mb_role = ChildAgent, mb_parentId = Some ''r'', mb_depth = 1\<rparr>
     (allMembers [] (reg_register \<lparr>idn_name = ''r'', idn_role = RootAgent, idn_parentId = None, idn_depth = 0,
        ag_id = ''r'', ag_cwd = [], ag_sessionFile = None\<rparr> \<lparr>rg_identities = [], rg_agents = [], rg_dormant = [], rg_events = []\<rparr>)))
   = [(ParentRel, ''r'')]"
proof -
  let ?g = "\<lparr>rg_identities = [], rg_agents = [], rg_dormant = [], rg_events = []\<rparr>"
  let ?e = "\<lparr>idn_name = ''r'', idn_role = RootAgent, idn_parentId = None, idn_depth = 0, ag_id = ''r'', ag_cwd = [], ag_sessionFile = None\<rparr>"
  let ?self = "\<lparr>mb_id = ''c'', mb_name = ''c'', mb_role = ChildAgent, mb_parentId = Some ''r'', mb_depth = 1\<rparr>"
  have ok: "registry_ok (reg_register ?e ?g)" by (rule registry_ok_ops) (simp add: registry_ok_def keyed_def)
  have "allMembers [] (reg_register ?e ?g) = [KnownLive (memberOf ?e) ?e]"
    by (simp add: allMembers_def localMembers_def reg_register_def reg_list_def reg_dormant_def)
  with family_roster [OF ok refl, of "\<lambda>_. 0" ?self "[]"] show ?thesis
    by (simp add: family_def relationship_def memberOf_def)
qed

end
