(* ===== verification/Bus.thy ===== *)
theory Bus
  imports Family
begin

text \<open>
  The agent bus of \<^verbatim>\<open>packages/pi-rlm/src/core/bus\<close>: the soft caps (\<^verbatim>\<open>limits.ts\<close>), the shared state
  (\<^verbatim>\<open>state.ts\<close>), the messages (\<^verbatim>\<open>message.ts\<close>), the durable inbox (\<^verbatim>\<open>inbox.ts\<close>), the session side
  of \<^verbatim>\<open>src/pi/agent-bus.ts\<close> and the sends of \<^verbatim>\<open>route.ts\<close>.

  Pi, which runs the sessions, is outside this repository. The model keeps what the bus sees of it: the
  entries of a transcript, whether a session is idle, and the messages given to \<open>sendMessage\<close>
  that have not reached the transcript. Waking or restoring a session, the host's own delivery
  and a send to another box are parameters.
\<close>

section \<open>Messages\<close>

text \<open>A value of unchecked type as it comes from a kernel or a socket.\<close>

datatype jsv = JUndefined | JNull | JString string | JOther

datatype sender_role = FromRoot | FromChild | FromHost | FromOwner
datatype bus_mode = ModeAuto | ModeSteer | ModeFollowUp
datatype delivery = Started | Queued
datatype deliver_as = AsSteer | AsFollowUp

record bus_message =
  bm_id :: string
  bm_fromId :: string
  bm_fromName :: string
  bm_fromRole :: sender_role
  bm_text :: string
  bm_mode :: bus_mode
  bm_sentAt :: int

datatype bus_runtime = BusTopLevel | BusSubagent

record endpoint =
  ep_sessionId :: string
  ep_sessionName :: string
  ep_runtimeKind :: bus_runtime
  ep_clientId :: "string option"

datatype delivery_status = DeliveredAt int | QueuedAt int

record receipt =
  rc_id :: string
  rc_target :: endpoint
  rc_from :: endpoint
  rc_message :: string
  rc_deliveryStatus :: delivery_status
  rc_deliveryMode :: deliver_as
  rc_overLimit :: "(string list) option"
  rc_duplicate :: bool

record custom_message =
  cm_content :: string
  cm_id :: string
  cm_message :: string
  cm_from :: endpoint
  cm_fromRelationship :: "relationship_kind option"
  cm_target :: endpoint

text \<open>The id of a keyed send, from the hexadecimal SHA-256 \<open>hex\<close> of the target and the key.\<close>

definition hex_digit :: "char \<Rightarrow> nat" where
  "hex_digit c = (let n = (of_char c :: nat) in if n \<le> 57 then n - 48 else n - 87)"

definition variant_digit :: "nat \<Rightarrow> nat" where
  "variant_digit n = 8 + n mod 4"

definition keyedMessageId :: "(string \<Rightarrow> string) \<Rightarrow> string \<Rightarrow> string \<Rightarrow> string" where
  "keyedMessageId hex targetId key =
     (let h = hex (targetId @ [CHR 10] @ key); sl = (\<lambda>a b. take (b - a) (drop a h))
      in ''agentmsg_'' @ sl 0 8 @ ''-'' @ sl 8 12 @ ''-5'' @ sl 13 16 @ ''-''
         @ [hex_lower (variant_digit (hex_digit (h ! 16)))] @ sl 17 20 @ ''-'' @ sl 20 32)"

definition runtime_of :: "sender_role \<Rightarrow> bus_runtime" where
  "runtime_of r = (if r = FromChild then BusSubagent else BusTopLevel)"

definition mk_endpoint :: "string \<Rightarrow> string \<Rightarrow> sender_role \<Rightarrow> string option \<Rightarrow> endpoint" where
  "mk_endpoint i nm r clientId =
     \<lparr>ep_sessionId = i, ep_sessionName = nm, ep_runtimeKind = runtime_of r,
      ep_clientId = (if clientId = Some [] then None else clientId)\<rparr>"

definition sender_of :: "agent_role \<Rightarrow> sender_role" where
  "sender_of r = (case r of RootAgent \<Rightarrow> FromRoot | ChildAgent \<Rightarrow> FromChild)"

definition rel_text :: "relationship_kind \<Rightarrow> string" where
  "rel_text r = (case r of ParentRel \<Rightarrow> ''parent'' | SiblingRel \<Rightarrow> ''sibling'' | ChildRel \<Rightarrow> ''child'')"

definition header :: "string \<Rightarrow> relationship_kind option \<Rightarrow> string" where
  "header fromName rel =
     (let t = js_trim (map (\<lambda>c. if c = CHR '']'' \<or> c = CHR 10 then CHR '' '' else c) fromName);
          nm = (if t = [] then ''unknown'' else t)
      in ''[agent-message from '' @ (case rel of Some r \<Rightarrow> rel_text r @ '':'' @ nm | None \<Rightarrow> nm) @ '']'')"

definition customMessage :: "bus_message \<Rightarrow> relationship_kind option \<Rightarrow> endpoint \<Rightarrow> custom_message" where
  "customMessage b rel target =
     \<lparr>cm_content = header (bm_fromName b) rel @ [CHR 10, CHR 10] @ bm_text b, cm_id = bm_id b, cm_message = bm_text b,
      cm_from = mk_endpoint (bm_fromId b) (bm_fromName b) (bm_fromRole b)
        (Some (case bm_fromRole b of FromHost \<Rightarrow> ''host'' | FromOwner \<Rightarrow> ''owner'' | _ \<Rightarrow> ''agent'')),
      cm_fromRelationship = rel, cm_target = target\<rparr>"

definition mk_receipt :: "int \<Rightarrow> bus_message \<Rightarrow> endpoint \<Rightarrow> endpoint \<Rightarrow> delivery \<Rightarrow> string list \<Rightarrow> receipt" where
  "mk_receipt now b from target d over =
     \<lparr>rc_id = bm_id b, rc_target = target, rc_from = from, rc_message = bm_text b,
      rc_deliveryStatus = (if d = Started then DeliveredAt now else QueuedAt now),
      rc_deliveryMode = (if bm_mode b = ModeFollowUp then AsFollowUp else AsSteer),
      rc_overLimit = (if over = [] then None else Some over), rc_duplicate = False\<rparr>"

definition parseMode :: "jsv \<Rightarrow> bus_mode res" where
  "parseMode v =
     (if v = JUndefined \<or> v = JNull then Inr ModeAuto
      else if v = JString ''auto'' then Inr ModeAuto
      else if v = JString ''steer'' then Inr ModeSteer
      else if v = JString ''follow_up'' then Inr ModeFollowUp
      else Inl ''agent_message.send mode must be \"auto\", \"steer\", or \"follow_up\"'')"

section \<open>The durable inbox\<close>

record inbox_record =
  ir_id :: string
  ir_sessionId :: string
  ir_sessionFile :: "string option"
  ir_deliverAs :: deliver_as
  ir_message :: custom_message
  ir_at :: int

text \<open>
  The file of one session: its complete lines, those that parse and those that do not, and
  whether an append that a crash cut off left a torn line without a newline at the end. A torn
  line does not parse, and the next append continues it.
\<close>

datatype inbox_line = Whole inbox_record | Broken

record inbox_file =
  if_lines :: "inbox_line list"
  if_torn :: bool

definition inbox_record_append :: "inbox_record \<Rightarrow> inbox_file option \<Rightarrow> inbox_file option" where
  "inbox_record_append r f =
     (case f of
        None \<Rightarrow> Some \<lparr>if_lines = [Whole r], if_torn = False\<rparr>
      | Some g \<Rightarrow> Some \<lparr>if_lines = if_lines g @ [if if_torn g then Broken else Whole r], if_torn = False\<rparr>)"

definition inbox_torn_append :: "inbox_file option \<Rightarrow> inbox_file option" where
  "inbox_torn_append f =
     (case f of None \<Rightarrow> Some \<lparr>if_lines = [], if_torn = True\<rparr> | Some g \<Rightarrow> Some (g\<lparr>if_torn := True\<rparr>))"

fun whole_lines :: "inbox_line list \<Rightarrow> inbox_record list" where
  "whole_lines [] = []"
| "whole_lines (Whole r # ls) = r # whole_lines ls"
| "whole_lines (Broken # ls) = whole_lines ls"

definition records :: "inbox_file option \<Rightarrow> inbox_record list" where
  "records f = (case f of None \<Rightarrow> [] | Some g \<Rightarrow> whole_lines (if_lines g))"

definition keepUnlanded :: "string set \<Rightarrow> inbox_file option \<Rightarrow> inbox_record list \<times> inbox_file option" where
  "keepUnlanded landed f =
     (let allr = records f; left = filter (\<lambda>r. ir_id r \<notin> landed) allr
      in if length left = length allr then (left, f)
         else if left = [] then (left, None)
         else (left, Some \<lparr>if_lines = map Whole left, if_torn = False\<rparr>))"

text \<open>A transcript's entries: an agent message with its id, or anything else.\<close>

datatype tr_entry = AgentMessageEntry string | OtherEntry

definition landed_list :: "tr_entry list \<Rightarrow> string list" where
  "landed_list es = concat (map (\<lambda>e. case e of AgentMessageEntry i \<Rightarrow> [i] | OtherEntry \<Rightarrow> []) es)"

definition landedIds :: "tr_entry list \<Rightarrow> string set" where
  "landedIds es = set (landed_list es)"

section \<open>State\<close>

record live_session =
  lv_pending :: "string set"
  lv_seen :: "string set"

record bucket =
  bk_tokens :: int
  bk_updatedAt :: int

record bus =
  bs_reg :: registry
  bs_live :: "string \<Rightarrow> live_session option"
  bs_buckets :: "string \<Rightarrow> bucket option"
  bs_replied :: "string \<Rightarrow> bool option"
  bs_receipts :: "(string \<times> receipt) list"
  bs_inbox :: "string \<Rightarrow> inbox_file option"
  bs_entries :: "string \<Rightarrow> tr_entry list"
  bs_queue :: "string \<Rightarrow> (custom_message \<times> deliver_as) list"
  bs_replay :: "string \<Rightarrow> inbox_record list"
  bs_idle :: "string \<Rightarrow> bool"

definition RECEIPTS_KEPT :: nat where "RECEIPTS_KEPT = 10000"

definition repliedSinceTask :: "string \<Rightarrow> bus \<Rightarrow> bool" where
  "repliedSinceTask childId s = (case bs_replied s childId of Some b \<Rightarrow> b | None \<Rightarrow> False)"

definition pendingCount :: "string \<Rightarrow> bus \<Rightarrow> nat" where
  "pendingCount sid s = (case bs_live s sid of Some l \<Rightarrow> card (lv_pending l) | None \<Rightarrow> 0)"

definition rememberReceipt :: "string \<Rightarrow> receipt \<Rightarrow> (string \<times> receipt) list \<Rightarrow> (string \<times> receipt) list" where
  "rememberReceipt i r m =
     (let m' = AList.delete i m @ [(i, r)] in drop (length m' - RECEIPTS_KEPT) m')"

section \<open>Soft caps\<close>

abbreviation MAX_MESSAGE_CHARS :: nat where "MAX_MESSAGE_CHARS \<equiv> 16384"
abbreviation MAX_PENDING :: nat where "MAX_PENDING \<equiv> 20"
abbreviation RATE_CAPACITY :: int where "RATE_CAPACITY \<equiv> 3"
abbreviation RATE_REFILL_MS :: int where "RATE_REFILL_MS \<equiv> 1000"

definition consumeRate :: "int \<Rightarrow> bucket option \<Rightarrow> bucket \<times> int option" where
  "consumeRate now b0 =
     (let b = (case b0 of Some b \<Rightarrow> b | None \<Rightarrow> \<lparr>bk_tokens = RATE_CAPACITY, bk_updatedAt = now\<rparr>);
          refills = max 0 (now - bk_updatedAt b) div RATE_REFILL_MS;
          b1 = (if refills > 0 then \<lparr>bk_tokens = min RATE_CAPACITY (bk_tokens b + refills),
                  bk_updatedAt = bk_updatedAt b + refills * RATE_REFILL_MS\<rparr> else b)
      in if bk_tokens b1 \<le> 0 then (b1, Some (max 1 (bk_updatedAt b1 + RATE_REFILL_MS - now)))
         else (b1\<lparr>bk_tokens := bk_tokens b1 - 1\<rparr>, None))"

definition overLimits :: "int \<Rightarrow> nat \<Rightarrow> nat \<Rightarrow> string \<Rightarrow> bus \<Rightarrow> bus \<times> string list" where
  "overLimits now chars pend rateKey s =
     (let (b, wait) = consumeRate now (bs_buckets s rateKey)
      in (s\<lparr>bs_buckets := (bs_buckets s)(rateKey \<mapsto> b)\<rparr>,
          (if chars > MAX_MESSAGE_CHARS then [''message is '' @ digits_of_nat chars @ '' chars, the target is 16384''] else [])
          @ (if pend \<ge> MAX_PENDING then [''target has '' @ digits_of_nat pend @ '' unfinished messages, the target is 20''] else [])
          @ (case wait of Some w \<Rightarrow> [''sender is over 3 messages a second to this target, next token in '' @ show_int w @ ''ms''] | None \<Rightarrow> [])))"

section \<open>The session side\<close>

definition senderMember :: "bus_message \<Rightarrow> registry \<Rightarrow> bus_member option" where
  "senderMember b g =
     (case reg_get (bm_fromId b) g of
        Some e \<Rightarrow> Some (memberOf e)
      | None \<Rightarrow> if bm_fromRole b = FromRoot
          then Some \<lparr>mb_id = bm_fromId b, mb_name = bm_fromName b, mb_role = RootAgent, mb_parentId = None, mb_depth = 0\<rparr> else None)"

definition bus_deliver :: "int \<Rightarrow> agent_entry \<Rightarrow> bus_message \<Rightarrow> bus \<Rightarrow> bus \<times> delivery res" where
  "bus_deliver now e b s =
     (let sid = ag_id e in
      case bs_live s sid of
        None \<Rightarrow> (s, Inl (''session '' @ sid @ '' has shut down''))
      | Some lv \<Rightarrow>
         if bm_id b \<in> lv_seen lv
         then (s, Inr (if bs_idle s sid \<and> bm_id b \<notin> lv_pending lv then Started else Queued))
         else
          (let self = memberOf e;
               rel = (case senderMember b (bs_reg s) of Some m \<Rightarrow> relationship self m | None \<Rightarrow> None);
               idle = bs_idle s sid;
               msg = customMessage b rel (mk_endpoint (mb_id self) (mb_name self) (sender_of (mb_role self)) None);
               da = (if bm_mode b = ModeFollowUp then AsFollowUp else AsSteer);
               r = \<lparr>ir_id = bm_id b, ir_sessionId = sid, ir_sessionFile = ag_sessionFile e, ir_deliverAs = da, ir_message = msg, ir_at = now\<rparr>;
               lv' = lv\<lparr>lv_seen := insert (bm_id b) (lv_seen lv),
                        lv_pending := (if idle then lv_pending lv else insert (bm_id b) (lv_pending lv))\<rparr>
           in (s\<lparr>bs_live := (bs_live s)(sid \<mapsto> lv'), bs_inbox := (bs_inbox s)(sid := inbox_record_append r (bs_inbox s sid)),
                 bs_queue := (bs_queue s)(sid := bs_queue s sid @ [(msg, da)])\<rparr>,
               Inr (if idle then Started else Queued))))"

text \<open>
  \<open>session_start\<close> and its \<open>setImmediate\<close>, \<open>session_shutdown\<close>, \<open>message_start\<close> and \<open>agent_end\<close>. A start that
  is no reload runs in a fresh session of Pi, so nothing is queued there yet.
\<close>

record session_info =
  si_id :: string
  si_name :: "string option"
  si_cwd :: string
  si_file :: "string option"

definition started_entry :: "session_info \<Rightarrow> registry \<Rightarrow> agent_entry" where
  "started_entry i g =
     (let idn = identityOf (si_id i) (case si_name i of Some n \<Rightarrow> n | None \<Rightarrow> si_id i) g
      in \<lparr>idn_name = (if idn_role idn = RootAgent then (case si_name i of Some n \<Rightarrow> n | None \<Rightarrow> idn_name idn) else idn_name idn),
          idn_role = idn_role idn, idn_parentId = idn_parentId idn, idn_depth = idn_depth idn,
          ag_id = si_id i, ag_cwd = si_cwd i, ag_sessionFile = si_file i\<rparr>)"

definition session_shutdown :: "string \<Rightarrow> bus \<Rightarrow> bus" where
  "session_shutdown sid s =
     s\<lparr>bs_live := (bs_live s)(sid := None), bs_reg := reg_unregister sid (bs_reg s), bs_replay := (bs_replay s)(sid := [])\<rparr>"

definition session_start :: "session_info \<Rightarrow> bool \<Rightarrow> bus \<Rightarrow> bus" where
  "session_start i reload s =
     (let sid = si_id i;
          landed = landedIds (bs_entries s sid);
          lv = \<lparr>lv_pending = {}, lv_seen = landed \<union> ir_id ` set (records (bs_inbox s sid))\<rparr>;
          s1 = s\<lparr>bs_live := (bs_live s)(sid \<mapsto> lv), bs_reg := reg_register (started_entry i (bs_reg s)) (bs_reg s),
                 bs_replay := (bs_replay s)(sid := [])\<rparr>
      in if reload then s1
         else let (replay, file') = keepUnlanded landed (bs_inbox s sid)
              in s1\<lparr>bs_inbox := (bs_inbox s1)(sid := file'), bs_queue := (bs_queue s1)(sid := []),
                    bs_replay := (bs_replay s1)(sid := replay)\<rparr>)"

text \<open>\<open>idle_at\<close> is what \<open>isIdle()\<close> answers before each replayed message, since one of them may start a turn.\<close>

definition session_replay :: "(nat \<Rightarrow> bool) \<Rightarrow> string \<Rightarrow> bus \<Rightarrow> bus" where
  "session_replay idle_at sid s =
     (case bs_live s sid of
        None \<Rightarrow> s
      | Some lv \<Rightarrow>
          s\<lparr>bs_live := (bs_live s)(sid \<mapsto> lv\<lparr>lv_pending := lv_pending lv \<union> ir_id ` set (map snd (filter (\<lambda>(k, r). \<not> idle_at k) (enumerate 0 (bs_replay s sid))))\<rparr>),
            bs_queue := (bs_queue s)(sid := bs_queue s sid @ map (\<lambda>r. (ir_message r, ir_deliverAs r)) (bs_replay s sid)),
            bs_replay := (bs_replay s)(sid := [])\<rparr>)"

definition message_start :: "string \<Rightarrow> string \<Rightarrow> bus \<Rightarrow> bus" where
  "message_start sid i s =
     (case bs_live s sid of
        None \<Rightarrow> s
      | Some lv \<Rightarrow> s\<lparr>bs_live := (bs_live s)(sid \<mapsto> lv\<lparr>lv_pending := lv_pending lv - {i}\<rparr>)\<rparr>)"

definition agent_end :: "string \<Rightarrow> bus \<Rightarrow> bus" where
  "agent_end sid s =
     (if bs_live s sid = None then s
      else s\<lparr>bs_inbox := (bs_inbox s)(sid := snd (keepUnlanded (landedIds (bs_entries s sid)) (bs_inbox s sid)))\<rparr>)"

definition clearInbox :: "string \<Rightarrow> bus \<Rightarrow> bus" where
  "clearInbox sid s = s\<lparr>bs_inbox := (bs_inbox s)(sid := None)\<rparr>"

section \<open>Sends\<close>

text \<open>
  What a send asks of the world: the clock, a fresh message id, SHA-256, the collation, the
  answers of the boxes, whether this process is pi-host, waking a dormant row, restoring a
  session by id, the host's delivery to a session that has no entry, and a send to another box.
\<close>

record bus_env =
  be_now :: int
  be_newId :: string
  be_hex :: "string \<Rightarrow> string"
  be_rank :: "string \<Rightarrow> int"
  be_answers :: "(route \<times> host_root list res) list"
  be_isHost :: bool
  be_wake :: "dormant_agent \<Rightarrow> bus \<Rightarrow> bus \<times> agent_entry res"
  be_restore :: "string \<Rightarrow> bus \<Rightarrow> bus \<times> unit res"
  be_hostDeliver :: "string \<Rightarrow> bus_message \<Rightarrow> bus \<Rightarrow> bus \<times> delivery res"
  be_hostSend :: "string \<Rightarrow> string \<Rightarrow> bus_mode \<Rightarrow> bus_member \<Rightarrow> route \<Rightarrow> receipt res"

definition cleanText :: "jsv \<Rightarrow> string res" where
  "cleanText m =
     (case m of
        JString t \<Rightarrow> if js_trim t = [] then Inl ''Agent session message cannot be empty'' else Inr (js_trim t)
      | _ \<Rightarrow> Inl ''agent_message.send message must be a string'')"

definition selfMember :: "string \<Rightarrow> bus \<Rightarrow> bus_member res" where
  "selfMember sid s =
     (case reg_get sid (bs_reg s) of
        None \<Rightarrow> Inl (''agent messaging is not available in session '' @ sid @ '': pi-agent-bus has not registered it'')
      | Some e \<Rightarrow> Inr (memberOf e))"

definition endpointOf :: "bus_member \<Rightarrow> string option \<Rightarrow> endpoint" where
  "endpointOf m clientId = mk_endpoint (mb_id m) (mb_name m) (sender_of (mb_role m)) clientId"

definition deliverLocal :: "bus_env \<Rightarrow> known \<Rightarrow> bus_message \<Rightarrow> bus \<Rightarrow> bus \<times> delivery res" where
  "deliverLocal env target b s =
     (case target of
        KnownLive _ e \<Rightarrow> bus_deliver (be_now env) e b s
      | KnownDormant _ row \<Rightarrow>
         (case be_wake env row s of
            (s', Inl m) \<Rightarrow> (s', Inl m)
          | (s', Inr e) \<Rightarrow> bus_deliver (be_now env) e b s')
      | KnownRemote m _ _ \<Rightarrow> (s, Inl (''session '' @ mb_id m @ '' is in another process'')))"

definition rate_key :: "string \<Rightarrow> string \<Rightarrow> string" where
  "rate_key a b = a @ ''->'' @ b"

text \<open>\<open>replied\<close>: a message to the parent marks the sender, one to a child unmarks the child.\<close>

definition mark_replied :: "relationship_kind option \<Rightarrow> string \<Rightarrow> string \<Rightarrow> bus \<Rightarrow> bus" where
  "mark_replied rel fromId targetId s =
     (case rel of
        Some ParentRel \<Rightarrow> s\<lparr>bs_replied := (bs_replied s)(fromId \<mapsto> True)\<rparr>
      | Some ChildRel \<Rightarrow> s\<lparr>bs_replied := (bs_replied s)(targetId \<mapsto> False)\<rparr>
      | _ \<Rightarrow> s)"

definition deliverFrom :: "bus_env \<Rightarrow> bus_member \<Rightarrow> relationship_kind \<Rightarrow> known \<Rightarrow> jsv \<Rightarrow> bus_mode \<Rightarrow> bus \<Rightarrow> bus \<times> receipt res" where
  "deliverFrom env self rel target message mode s =
     (case cleanText message of
        Inl m \<Rightarrow> (s, Inl m)
      | Inr text \<Rightarrow>
         (case target of
            KnownRemote m _ rt \<Rightarrow> (s, be_hostSend env (mb_id m) text mode self rt)
          | _ \<Rightarrow>
            (let tm = known_member target;
                 b = \<lparr>bm_id = be_newId env, bm_fromId = mb_id self, bm_fromName = mb_name self, bm_fromRole = sender_of (mb_role self),
                      bm_text = text, bm_mode = mode, bm_sentAt = be_now env\<rparr>;
                 (s1, over) = overLimits (be_now env) (length text) (pendingCount (mb_id tm) s) (rate_key (mb_id self) (mb_id tm)) s
             in case deliverLocal env target b s1 of
                  (s2, Inl m) \<Rightarrow> (s2, Inl m)
                | (s2, Inr d) \<Rightarrow>
                    (mark_replied (Some rel) (mb_id self) (mb_id tm) s2,
                     Inr (mk_receipt (be_now env) b (endpointOf self (Some ''agent'')) (endpointOf tm None) d over)))))"

record send_payload =
  sp_message :: jsv
  sp_target :: jsv
  sp_receiverRole :: jsv
  sp_receiverName :: jsv
  sp_mode :: jsv

datatype send_result = OneReceipt receipt | Broadcast "(receipt + string \<times> string) list"

definition json_value :: "jsv \<Rightarrow> string" where
  "json_value v = (case v of JString t \<Rightarrow> json_string t | JNull \<Rightarrow> ''null'' | _ \<Rightarrow> ''undefined'')"

definition nullish :: "jsv \<Rightarrow> bool" where
  "nullish v \<longleftrightarrow> v = JUndefined \<or> v = JNull"

definition role_of_text :: "jsv \<Rightarrow> relationship_kind option" where
  "role_of_text v =
     (if v = JString ''parent'' then Some ParentRel else if v = JString ''sibling'' then Some SiblingRel
      else if v = JString ''child'' then Some ChildRel else None)"

text \<open>Each broadcast delivery runs whether or not an earlier one failed; ids of the messages come from \<open>env\<close> per place.\<close>

fun send_all :: "(nat \<Rightarrow> bus_env) \<Rightarrow> nat \<Rightarrow> bus_member \<Rightarrow> jsv \<Rightarrow> bus_mode \<Rightarrow> (relationship_kind \<times> known) list \<Rightarrow> bus
    \<Rightarrow> bus \<times> (receipt + string \<times> string) list" where
  "send_all envs k self message mode [] s = (s, [])"
| "send_all envs k self message mode ((rel, t) # ts) s =
     (let (s1, r) = deliverFrom (envs k) self rel t message mode s;
          (s2, rs) = send_all envs (Suc k) self message mode ts s1
      in (s2, (case r of Inr x \<Rightarrow> Inl x | Inl m \<Rightarrow> Inr (mb_id (known_member t), m)) # rs))"

definition bus_send :: "(nat \<Rightarrow> bus_env) \<Rightarrow> string \<Rightarrow> send_payload \<Rightarrow> bus \<Rightarrow> bus \<times> send_result res" where
  "bus_send envs fromId p s =
     (case rbind (selfMember fromId s) (\<lambda>self. rbind (parseMode (sp_mode p)) (\<lambda>mode. Inr (self, mode))) of
        Inl m \<Rightarrow> (s, Inl m)
      | Inr (self, mode) \<Rightarrow>
         (let roster = family (be_rank (envs 0)) known_member self (allMembers (be_answers (envs 0)) (bs_reg s)) in
          case sp_message p of
            JString _ \<Rightarrow>
             (case sp_target p of
                JString t \<Rightarrow>
                  if t \<noteq> ''all'' then (s, Inl ''positional agent_message.send targets are not supported; use receiver_role and receiver_name'')
                  else if \<not> nullish (sp_receiverRole p) \<or> \<not> nullish (sp_receiverName p)
                  then (s, Inl ''agent_message.send broadcast cannot be combined with receiver_role/receiver_name'')
                  else (let (s', rs) = send_all envs 0 self (sp_message p) mode roster s in (s', Inr (Broadcast rs)))
              | _ \<Rightarrow>
                (case role_of_text (sp_receiverRole p) of
                   None \<Rightarrow> (s, Inl ''agent_message.send receiver_role must be \"parent\", \"sibling\", or \"child\"'')
                 | Some role \<Rightarrow>
                    (let wanted = (case sp_receiverName p of JString n \<Rightarrow> Some (js_trim n) | _ \<Rightarrow> None) in
                     if role = ParentRel \<and> \<not> nullish (sp_receiverName p)
                     then (s, Inl ''agent_message.send receiver_name must be omitted for parent messages'')
                     else if role \<noteq> ParentRel \<and> (wanted = None \<or> wanted = Some [])
                     then (s, Inl ''agent_message.send receiver_name is required for sibling and child messages'')
                     else
                      (case filter (\<lambda>(r, k). r = role \<and> (role = ParentRel \<or> wanted = Some (mb_name (known_member k)) \<or> wanted = Some (mb_id (known_member k)))) roster of
                         [(r, k)] \<Rightarrow>
                           (let (s', x) = deliverFrom (envs 0) self r k (sp_message p) mode s
                            in (s', rbind x (\<lambda>rc. Inr (OneReceipt rc))))
                       | [] \<Rightarrow> (s, Inl (''No '' @ rel_text role @ '' matches ''
                           @ (if role = ParentRel then ''the current agent'' else json_value (sp_receiverName p))))
                       | _ \<Rightarrow> (s, Inl (rel_text role @ '' selector '' @ json_value (sp_receiverName p) @ '' is ambiguous''))))))
          | _ \<Rightarrow> (s, Inl ''agent_message.send message must be a string'')))"

text \<open>\<open>resolveById\<close>: the entry and the member of a session this process can open; \<open>None\<close> without a host.\<close>

definition resolveById :: "bus_env \<Rightarrow> string \<Rightarrow> bus \<Rightarrow> bus \<times> ((agent_entry option \<times> bus_member) option) res" where
  "resolveById env sid s =
     (case reg_get sid (bs_reg s) of
        Some e \<Rightarrow> (s, Inr (Some (Some e, memberOf e)))
      | None \<Rightarrow>
         (case dormantOf sid (bs_reg s) of
            Some row \<Rightarrow>
             (case be_wake env row s of
                (s', Inl m) \<Rightarrow> (s', Inl m)
              | (s', Inr e) \<Rightarrow> (s', Inr (Some (Some e, memberOf e))))
          | None \<Rightarrow>
             if \<not> be_isHost env then (s, Inr None)
             else (case be_restore env sid s of
                (s', Inl m) \<Rightarrow> (s', Inl m)
              | (s', Inr _) \<Rightarrow>
                 (s', Inr (Some (case reg_get sid (bs_reg s') of
                     Some e \<Rightarrow> (Some e, memberOf e)
                   | None \<Rightarrow> (None, \<lparr>mb_id = sid, mb_name = sid, mb_role = RootAgent, mb_parentId = None, mb_depth = 0\<rparr>)))))))"

record client_send =
  cs_target :: string
  cs_message :: string
  cs_mode :: jsv
  cs_clientId :: "string option"
  cs_from :: "(string \<times> string option) option"
  cs_key :: "string option"

definition client_target :: "client_send \<Rightarrow> registry \<Rightarrow> string" where
  "client_target req g =
     (let byName = filter (\<lambda>e. idn_name e = cs_target req) (reg_list g)
      in if reg_get (cs_target req) g \<noteq> None \<or> dormantOf (cs_target req) g \<noteq> None \<or> length byName \<noteq> 1
         then cs_target req else ag_id (hd byName))"

text \<open>The sender of a client send and what the target is to it: a session in reach, or the client itself.\<close>

definition client_sender :: "client_send \<Rightarrow> bus_member \<Rightarrow> registry \<Rightarrow> (string \<times> string \<times> sender_role \<times> relationship_kind option) res" where
  "client_sender req target g =
     (case cs_from req of
        Some (i, nm) \<Rightarrow>
         (let sender = (case reg_get i g of
              Some e \<Rightarrow> memberOf e
            | None \<Rightarrow> \<lparr>mb_id = i, mb_name = (case nm of Some n \<Rightarrow> n | None \<Rightarrow> i), mb_role = RootAgent, mb_parentId = None, mb_depth = 0\<rparr>)
          in case relationship sender target of
               None \<Rightarrow> Inl REACH_ERROR
             | Some rel \<Rightarrow> Inr (mb_id sender, mb_name sender, sender_of (mb_role sender), Some rel))
      | None \<Rightarrow>
         (let client = (case cs_clientId req of Some c \<Rightarrow> c | None \<Rightarrow> ''client'')
          in Inr (''client:'' @ client, client, FromHost, None)))"

definition client_message :: "bus_env \<Rightarrow> client_send \<Rightarrow> bus_member \<Rightarrow> string \<times> string \<times> sender_role \<times> relationship_kind option \<Rightarrow> string \<Rightarrow> bus_mode \<Rightarrow> bus_message" where
  "client_message env req target from text mode =
     (let (i, nm, role, _) = from
      in \<lparr>bm_id = (case cs_key req of None \<Rightarrow> be_newId env | Some k \<Rightarrow> keyedMessageId (be_hex env) (mb_id target) k),
          bm_fromId = i, bm_fromName = nm, bm_fromRole = role, bm_text = text, bm_mode = mode, bm_sentAt = be_now env\<rparr>)"

text \<open>The end of \<open>sendFromClient\<close>, once target and sender are known.\<close>

definition client_deliver ::
  "bus_env \<Rightarrow> client_send \<Rightarrow> agent_entry option \<Rightarrow> bus_member \<Rightarrow> string \<times> string \<times> sender_role \<times> relationship_kind option \<Rightarrow> string \<Rightarrow> bus_mode \<Rightarrow> bus
     \<Rightarrow> bus \<times> receipt res" where
  "client_deliver env req entry target from text mode s =
     (let b = client_message env req target from text mode;
          fromEndpoint = mk_endpoint (bm_fromId b) (bm_fromName b) (bm_fromRole b)
            (Some (if cs_from req \<noteq> None then ''agent'' else (case cs_clientId req of Some c \<Rightarrow> c | None \<Rightarrow> ''client'')));
          targetEndpoint = endpointOf target None
      in if cs_key req \<noteq> None \<and> (\<exists>lv \<in> set_option (bs_live s (mb_id target)). bm_id b \<in> lv_seen lv)
         then (s, Inr ((case map_of (bs_receipts s) (bm_id b) of
                 Some first \<Rightarrow> first
               | None \<Rightarrow> mk_receipt (be_now env) b fromEndpoint targetEndpoint Queued [])\<lparr>rc_duplicate := True\<rparr>))
         else
          (let (s1, over) = overLimits (be_now env) (length text) (pendingCount (mb_id target) s) (rate_key (bm_fromId b) (mb_id target)) s
           in case (case entry of Some e \<Rightarrow> bus_deliver (be_now env) e b s1 | None \<Rightarrow> be_hostDeliver env (mb_id target) b s1) of
                (s2, Inl m) \<Rightarrow> (s2, Inl m)
              | (s2, Inr d) \<Rightarrow>
                  (let out = mk_receipt (be_now env) b fromEndpoint targetEndpoint d over;
                       s3 = mark_replied (snd (snd (snd from))) (bm_fromId b) (mb_id target) s2
                   in (if cs_key req \<noteq> None then s3\<lparr>bs_receipts := rememberReceipt (bm_id b) out (bs_receipts s3)\<rparr> else s3, Inr out))))"

definition sendFromClient :: "bus_env \<Rightarrow> client_send \<Rightarrow> bus \<Rightarrow> bus \<times> receipt res" where
  "sendFromClient env req0 s =
     (let req = req0\<lparr>cs_key := (if cs_key req0 = Some [] then None else cs_key req0)\<rparr> in
      case rbind (cleanText (JString (cs_message req))) (\<lambda>text. rbind (parseMode (cs_mode req)) (\<lambda>mode. Inr (text, mode))) of
        Inl m \<Rightarrow> (s, Inl m)
      | Inr (text, mode) \<Rightarrow>
         (case resolveById env (client_target req (bs_reg s)) s of
            (s1, Inl m) \<Rightarrow> (s1, Inl m)
          | (s1, Inr None) \<Rightarrow> (s1, Inl (''sending to session '' @ cs_target req @ '' needs pi-host: this session runs outside pi-host and PI_HOST_SOCKET is not set''))
          | (s1, Inr (Some (entry, target))) \<Rightarrow>
             (case client_sender req target (bs_reg s1) of
                Inl m \<Rightarrow> (s1, Inl m)
              | Inr from \<Rightarrow> client_deliver env req entry target from text mode s1)))"

end
