(* ===== verification/BusRuns.thy ===== *)
theory BusRuns
  imports Bus
begin

text \<open>
  Properties of the agent bus: the durable inbox as a transition system of one session, keyed
  sends, the rate bucket, the kept receipts and the reach of a send.
\<close>

section \<open>One session's inbox\<close>

definition queue_ids :: "string \<Rightarrow> bus \<Rightarrow> string list" where
  "queue_ids sid s = map (cm_id \<circ> fst) (bs_queue s sid)"

definition file_ids :: "string \<Rightarrow> bus \<Rightarrow> string list" where
  "file_ids sid s = map ir_id (records (bs_inbox s sid))"





lemma landed_list_snoc [simp]:
  "landed_list (es @ [AgentMessageEntry i]) = landed_list es @ [i]" "landed_list (es @ [OtherEntry]) = landed_list es"
  by (simp_all add: landed_list_def)

lemma whole_lines_append [simp]: "whole_lines (a @ b) = whole_lines a @ whole_lines b"
  by (induction a rule: whole_lines.induct) auto

lemma whole_lines_Whole [simp]: "whole_lines (map Whole rs) = rs"
  by (induction rs) auto



lemma session_fields [simp]:
  "bs_entries (session_shutdown sid s) = bs_entries s" "bs_inbox (session_shutdown sid s) = bs_inbox s"
  "bs_queue (session_shutdown sid s) = bs_queue s" "bs_live (session_shutdown sid s) sid = None"
  "bs_replay (session_shutdown sid s) sid = []"
  by (simp_all add: session_shutdown_def)


lemma bus_deliver_cases:
  assumes "bus_deliver now e b s = (t, r)"
  obtains (down) m where "bs_live s (ag_id e) = None" "t = s" "r = Inl m"
  | (seen) lv d where "bs_live s (ag_id e) = Some lv" "bm_id b \<in> lv_seen lv" "t = s" "r = Inr d"
  | (fresh) lv lv' x m da d where "bs_live s (ag_id e) = Some lv" "bm_id b \<notin> lv_seen lv" "r = Inr d"
      "t = s\<lparr>bs_live := (bs_live s)(ag_id e \<mapsto> lv'),
         bs_inbox := (bs_inbox s)(ag_id e := inbox_record_append x (bs_inbox s (ag_id e))),
         bs_queue := (bs_queue s)(ag_id e := bs_queue s (ag_id e) @ [(m, da)])\<rparr>"
      "ir_id x = bm_id b" "ir_message x = m" "cm_id m = bm_id b" "lv_seen lv' = insert (bm_id b) (lv_seen lv)"
proof (cases "bs_live s (ag_id e)")
  case None
  then have "t = s" "r = Inl (''session '' @ ag_id e @ '' has shut down'')" using assms by (simp_all add: bus_deliver_def)
  then show thesis by (rule down [OF None])
next
  case (Some lv)
  show thesis
  proof (cases "bm_id b \<in> lv_seen lv")
    case True
    then have "t = s" "r = Inr (if bs_idle s (ag_id e) \<and> bm_id b \<notin> lv_pending lv then Started else Queued)"
      using assms Some by (auto simp: bus_deliver_def)
    then show thesis by (rule seen [OF Some True])
  next
    case False
    define m where "m = customMessage b (case senderMember b (bs_reg s) of Some m \<Rightarrow> relationship (memberOf e) m | None \<Rightarrow> None)
      (mk_endpoint (mb_id (memberOf e)) (mb_name (memberOf e)) (sender_of (mb_role (memberOf e))) None)"
    define da where "da = (if bm_mode b = ModeFollowUp then AsFollowUp else AsSteer)"
    define x where "x = \<lparr>ir_id = bm_id b, ir_sessionId = ag_id e, ir_sessionFile = ag_sessionFile e, ir_deliverAs = da, ir_message = m, ir_at = now\<rparr>"
    define lv' where "lv' = lv\<lparr>lv_seen := insert (bm_id b) (lv_seen lv),
      lv_pending := (if bs_idle s (ag_id e) then lv_pending lv else insert (bm_id b) (lv_pending lv))\<rparr>"
    have "bus_deliver now e b s = (s\<lparr>bs_live := (bs_live s)(ag_id e \<mapsto> lv'),
         bs_inbox := (bs_inbox s)(ag_id e := inbox_record_append x (bs_inbox s (ag_id e))),
         bs_queue := (bs_queue s)(ag_id e := bs_queue s (ag_id e) @ [(m, da)])\<rparr>, Inr (if bs_idle s (ag_id e) then Started else Queued))"
      unfolding bus_deliver_def Let_def Some option.case m_def da_def x_def lv'_def using False by (simp only: if_False)
    then show thesis using assms
      by (intro fresh [OF Some False, where x = x and m = m and da = da and lv' = lv']) (simp_all add: x_def m_def lv'_def customMessage_def)
  qed
qed















section \<open>Properties\<close>


text \<open>
  A torn line breaks the durable inbox. When a crash has cut off an append, the next accepted
  message is written onto the torn line: the delivery returns, yet the file holds no record of
  the message, so a second crash before it lands loses it and the next start replays nothing for it.
\<close>

theorem inbox_torn_line_loses_next:
  assumes "bs_inbox s (ag_id e) = inbox_torn_append f" and "bs_live s (ag_id e) = Some lv" and "bm_id b \<notin> lv_seen lv"
    and "bm_id b \<notin> ir_id ` set (records f)"
    and "bus_deliver now e b s = (t, r)"
  shows "(\<exists>d. r = Inr d) \<and> bm_id b \<in> set (queue_ids (ag_id e) t) \<and> bm_id b \<notin> set (file_ids (ag_id e) t)
       \<and> records (bs_inbox t (ag_id e)) = records f"
  using assms(5)
proof (cases rule: bus_deliver_cases)
  case (fresh lv lv' x m da d)
  have "records (inbox_record_append x (inbox_torn_append f)) = records f"
    by (auto simp: inbox_torn_append_def inbox_record_append_def records_def split: option.splits)
  with assms(1,4) fresh show ?thesis by (auto simp: queue_ids_def file_ids_def)
qed (use assms in simp_all)

section \<open>The rate bucket\<close>

definition bucket_ok :: "int \<Rightarrow> bucket option \<Rightarrow> bool" where
  "bucket_ok now b = (case b of None \<Rightarrow> True | Some k \<Rightarrow> 0 \<le> bk_tokens k \<and> bk_tokens k \<le> RATE_CAPACITY \<and> bk_updatedAt k \<le> now)"

text \<open>The calls for one key at the given times, and whether each was within the rate.\<close>

fun consume_run :: "int list \<Rightarrow> bucket option \<Rightarrow> bool list" where
  "consume_run [] b = []"
| "consume_run (t # ts) b = (let (b', w) = consumeRate t b in (w = None) # consume_run ts (Some b'))"

lemma consumeRate_step:
  assumes "bucket_ok now b" and "consumeRate now b = (b', w)"
  shows "bucket_ok now (Some b')" and "now - RATE_REFILL_MS < bk_updatedAt b'"
    and "w = None \<Longrightarrow> bk_tokens b' < RATE_CAPACITY"
    and "\<And>k. w = Some k \<Longrightarrow> bk_tokens b' = 0 \<and> k = bk_updatedAt b' + RATE_REFILL_MS - now \<and> 1 \<le> k \<and> k \<le> RATE_REFILL_MS"
    and "\<And>c. b = Some c \<Longrightarrow> RATE_REFILL_MS * (bk_tokens b' + (if w = None then 1 else 0)) - bk_updatedAt b'
           \<le> RATE_REFILL_MS * bk_tokens c - bk_updatedAt c"
proof -
  define c where "c = (case b of Some b \<Rightarrow> b | None \<Rightarrow> \<lparr>bk_tokens = RATE_CAPACITY, bk_updatedAt = now\<rparr>)"
  define q where "q = (now - bk_updatedAt c) div RATE_REFILL_MS"
  define c1 where "c1 = (if q > 0 then \<lparr>bk_tokens = min RATE_CAPACITY (bk_tokens c + q), bk_updatedAt = bk_updatedAt c + q * RATE_REFILL_MS\<rparr> else c)"
  have c: "0 \<le> bk_tokens c" "bk_tokens c \<le> RATE_CAPACITY" "bk_updatedAt c \<le> now"
    using assms(1) by (auto simp: c_def bucket_ok_def split: option.splits)
  have q: "0 \<le> q" "q * RATE_REFILL_MS \<le> now - bk_updatedAt c" "now - bk_updatedAt c < (q + 1) * RATE_REFILL_MS"
    unfolding q_def using c(3) by (auto simp: pos_imp_zdiv_nonneg_iff)
  have c1: "0 \<le> bk_tokens c1" "bk_tokens c1 \<le> RATE_CAPACITY" "bk_updatedAt c1 \<le> now" "now - RATE_REFILL_MS < bk_updatedAt c1"
    "RATE_REFILL_MS * bk_tokens c1 - bk_updatedAt c1 \<le> RATE_REFILL_MS * bk_tokens c - bk_updatedAt c"
    using c q by (auto simp: c1_def min_def)
  have mx: "max 0 (now - bk_updatedAt c) = now - bk_updatedAt c" using c(3) by simp
  have r: "consumeRate now b = (if bk_tokens c1 \<le> 0 then (c1, Some (max 1 (bk_updatedAt c1 + RATE_REFILL_MS - now)))
      else (c1\<lparr>bk_tokens := bk_tokens c1 - 1\<rparr>, None))"
    by (simp only: consumeRate_def Let_def c_def [symmetric] mx q_def [symmetric] c1_def [symmetric])
  have d: "b = Some d \<Longrightarrow> c = d" for d by (simp add: c_def)
  show "bucket_ok now (Some b')" "now - RATE_REFILL_MS < bk_updatedAt b'" "w = None \<Longrightarrow> bk_tokens b' < RATE_CAPACITY"
    "\<And>k. w = Some k \<Longrightarrow> bk_tokens b' = 0 \<and> k = bk_updatedAt b' + RATE_REFILL_MS - now \<and> 1 \<le> k \<and> k \<le> RATE_REFILL_MS"
    "\<And>c. b = Some c \<Longrightarrow> RATE_REFILL_MS * (bk_tokens b' + (if w = None then 1 else 0)) - bk_updatedAt b'
           \<le> RATE_REFILL_MS * bk_tokens c - bk_updatedAt c"
    using assms(2) c1 d unfolding r by (auto simp: bucket_ok_def split: if_split_asm)
qed

lemma bucket_ok_mono: "bucket_ok now b \<Longrightarrow> now \<le> t \<Longrightarrow> bucket_ok t b"
  by (auto simp: bucket_ok_def split: option.splits)

lemma consume_run_bound:
  assumes "sorted (t # ts)" and "bucket_ok t (Some c)"
  shows "RATE_REFILL_MS * int (length (filter id (consume_run (t # ts) (Some c)))) \<le> RATE_REFILL_MS * bk_tokens c + (last (t # ts) - bk_updatedAt c)"
  using assms
proof (induction ts arbitrary: t c)
  case Nil
  obtain b' w where r: "consumeRate t (Some c) = (b', w)" by fastforce
  have "bucket_ok t (Some c)" using Nil by simp
  from consumeRate_step(1,5) [OF this r] show ?case by (auto simp: r bucket_ok_def)
next
  case (Cons u us)
  obtain b' w where r: "consumeRate t (Some c) = (b', w)" by fastforce
  note st = consumeRate_step [OF Cons.prems(2) r]
  have "bucket_ok u (Some b')" using st(1) Cons.prems(1) bucket_ok_mono by auto
  from Cons.IH [OF _ this] Cons.prems(1) st(5) [OF refl] show ?case by (auto simp: r)
qed

text \<open>
  C40. The rate bucket of a sender and target: over calls at non-decreasing times, from any state
  of the bucket, the number of sends found within the rate is at most three plus one for each
  started second of the span, and a send found over the rate names a wait of 1 to 1000 ms after
  which the next one is within it.
\<close>

theorem consumeRate_window:
  assumes "bucket_ok t (Some c)" and "sorted (t # ts)"
  shows "RATE_REFILL_MS * (int (length (filter id (consume_run (t # ts) (Some c)))) - RATE_CAPACITY) < last (t # ts) - t + RATE_REFILL_MS
       \<and> (\<forall>b w. consumeRate t (Some c) = (b, Some w) \<longrightarrow>
            1 \<le> w \<and> w \<le> RATE_REFILL_MS \<and> snd (consumeRate (t + w) (Some b)) = None)"
proof -
  obtain b w where r: "consumeRate t (Some c) = (b, w)" by fastforce
  note st = consumeRate_step [OF assms(1) r]
  have run: "consume_run (t # ts) (Some c) = (w = None) # consume_run ts (Some b)" by (simp add: r)
  have first: "RATE_REFILL_MS * int (length (filter id (consume_run ts (Some b)))) \<le> RATE_REFILL_MS * bk_tokens b + (last (t # ts) - bk_updatedAt b)"
  proof (cases ts)
    case Nil
    then show ?thesis using st(1) by (simp add: bucket_ok_def)
  next
    case (Cons u us)
    have "bucket_ok u (Some b)" using st(1) assms(2) Cons bucket_ok_mono by auto
    from consume_run_bound [OF _ this, of us] show ?thesis using assms(2) Cons by simp
  qed
  have "bk_tokens b + (if w = None then 1 else 0) \<le> RATE_CAPACITY"
    using st(1,3,4) by (cases w) (auto simp: bucket_ok_def)
  with first st(2) have "RATE_REFILL_MS * (int (length (filter id (consume_run (t # ts) (Some c)))) - RATE_CAPACITY) < last (t # ts) - t + RATE_REFILL_MS"
    unfolding run by (cases w) auto
  moreover have "snd (consumeRate (t + k) (Some b)) = None" if "w = Some k" for k
  proof -
    have "t + k - bk_updatedAt b = RATE_REFILL_MS" "bk_tokens b = 0" using st(4) [OF that] by auto
    then show ?thesis by (simp add: consumeRate_def Let_def)
  qed
  ultimately show ?thesis using st(4) r by auto
qed

theorem consumeRate_window_witness:
  "consume_run [0, 10, 20, 30, 1500] (Some \<lparr>bk_tokens = 3, bk_updatedAt = 0\<rparr>) = [True, True, True, False, True]
   \<and> 1000 * ((4 :: int) - 3) < 1500 - 0 + 1000"
proof -
  have run: "consume_run [0, 10, 20, 30, 1500] (Some \<lparr>bk_tokens = 3, bk_updatedAt = 0\<rparr>) = [True, True, True, False, True]"
    by (simp add: consumeRate_def Let_def)
  have "bucket_ok 0 (Some \<lparr>bk_tokens = 3, bk_updatedAt = 0\<rparr>)" by (simp add: bucket_ok_def)
  from consumeRate_window [OF this, of "[10, 20, 30, 1500]"] run show ?thesis by simp
qed

lemma rememberReceipt_find: "map_of (rememberReceipt i r m) i = Some r"
proof -
  have "map_of (drop k (AList.delete i m)) i = None" for k
    by (auto simp: map_of_eq_None_iff AList.delete_eq dest: in_set_dropD)
  then show ?thesis by (simp add: rememberReceipt_def Let_def RECEIPTS_KEPT_def map_add_def)
qed

text \<open>
  The kept receipts: a remembered receipt is found under its id and is the newest one, ids
  stay unique, at most ten thousand are kept, and what is dropped is the oldest.
\<close>

theorem rememberReceipt_bounded:
  assumes "distinct (map fst m)"
  shows "map_of (rememberReceipt i r m) i = Some r \<and> distinct (map fst (rememberReceipt i r m))
       \<and> length (rememberReceipt i r m) \<le> RECEIPTS_KEPT
       \<and> (\<exists>old. AList.delete i m @ [(i, r)] = old @ rememberReceipt i r m
            \<and> (old = [] \<or> length (rememberReceipt i r m) = RECEIPTS_KEPT))"
proof -
  let ?d = "AList.delete i m" and ?k = "Suc (length (AList.delete i m)) - RECEIPTS_KEPT"
  have eq: "rememberReceipt i r m = drop ?k ?d @ [(i, r)]"
    by (simp add: rememberReceipt_def Let_def RECEIPTS_KEPT_def)
  have d: "distinct (map fst ?d)" "i \<notin> fst ` set ?d" using assms by (auto simp: AList.delete_eq distinct_map_filter)
  have keys: "map fst (rememberReceipt i r m) = drop ?k (map fst ?d) @ [i]" by (simp add: eq drop_map)
  have "i \<notin> set (drop ?k (map fst ?d))" using d(2) in_set_dropD [of i ?k "map fst ?d"] by auto
  then have dd: "distinct (map fst (rememberReceipt i r m))" unfolding keys using d(1) by (simp add: distinct_drop)
  have "map_of (rememberReceipt i r m) i = Some r" by (rule rememberReceipt_find)
  moreover have "length (rememberReceipt i r m) = min (Suc (length ?d)) RECEIPTS_KEPT"
    by (simp add: eq min_def RECEIPTS_KEPT_def)
  moreover have "?d @ [(i, r)] = take ?k ?d @ rememberReceipt i r m" by (simp add: eq)
  ultimately show ?thesis using dd by (intro conjI exI [of _ "take ?k ?d"]) auto
qed

theorem rememberReceipt_bounded_witness:
  "\<exists>r. map_of (rememberReceipt ''a'' r [(''a'', r), (''b'', r)]) ''a'' = Some r"
  using rememberReceipt_bounded [of "[(''a'', r), (''b'', r)]" "''a''" r for r] by auto

section \<open>Keyed sends and reach\<close>

lemma overLimits_fields [simp]:
  "bs_reg (fst (overLimits now c p k s)) = bs_reg s" "bs_live (fst (overLimits now c p k s)) = bs_live s"
  "bs_queue (fst (overLimits now c p k s)) = bs_queue s" "bs_inbox (fst (overLimits now c p k s)) = bs_inbox s"
  "bs_receipts (fst (overLimits now c p k s)) = bs_receipts s" "bs_entries (fst (overLimits now c p k s)) = bs_entries s"
  "bs_replied (fst (overLimits now c p k s)) = bs_replied s"
  by (simp_all add: overLimits_def split_beta Let_def)

lemma mark_replied_fields [simp]:
  "bs_reg (mark_replied rel a b s) = bs_reg s" "bs_live (mark_replied rel a b s) = bs_live s"
  "bs_queue (mark_replied rel a b s) = bs_queue s" "bs_inbox (mark_replied rel a b s) = bs_inbox s"
  "bs_receipts (mark_replied rel a b s) = bs_receipts s" "bs_entries (mark_replied rel a b s) = bs_entries s"
  by (simp_all add: mark_replied_def split: option.splits relationship_kind.splits)

lemma bus_deliver_reg: "bus_deliver now e b s = (t, r) \<Longrightarrow> bs_reg t = bs_reg s"
  by (erule bus_deliver_cases) auto

lemma bus_deliver_seen: "bus_deliver now e b s = (t, Inr d) \<Longrightarrow> \<exists>lv. bs_live t (ag_id e) = Some lv \<and> bm_id b \<in> lv_seen lv"
  by (erule bus_deliver_cases) auto

text \<open>
  C7. A keyed send lands once. When a client's send with an idempotency key was delivered to a
  registered session, repeating it changes nothing at all, neither the target's queue, inbox and
  transcript nor the rate bucket, and returns the first receipt marked as a duplicate.
\<close>

theorem keyed_send_idempotent:
  assumes "sendFromClient env req s = (t, Inr r)" and "\<not> rc_duplicate r"
    and "cs_key req = Some key" and "key \<noteq> []"
    and "reg_get (client_target req (bs_reg s)) (bs_reg s) = Some e" and "ag_id e = client_target req (bs_reg s)"
    and "be_hex env' = be_hex env"
  shows "sendFromClient env' req t = (t, Inr (r\<lparr>rc_duplicate := True\<rparr>))"
proof -
  have key: "req\<lparr>cs_key := (if cs_key req = Some [] then None else cs_key req)\<rparr> = req" using assms(3,4) by simp
  obtain tx mode where tm: "rbind (cleanText (JString (cs_message req))) (\<lambda>text. rbind (parseMode (cs_mode req)) (\<lambda>mode. Inr (text, mode))) = Inr (tx, mode)"
    using assms(1) unfolding sendFromClient_def Let_def key by (auto split: sum.splits)
  have res: "resolveById env'' (client_target req (bs_reg u)) u = (u, Inr (Some (Some e, memberOf e)))" if "bs_reg u = bs_reg s" for u env''
    using assms(5) that by (simp add: resolveById_def)
  from assms(1) obtain frm where f: "client_sender req (memberOf e) (bs_reg s) = Inr frm"
    and cd: "client_deliver env req (Some e) (memberOf e) frm tx mode s = (t, Inr r)"
    unfolding sendFromClient_def Let_def key tm by (auto simp: res split: sum.splits)
  let ?b = "client_message env req (memberOf e) frm tx mode"
  have id: "bm_id (client_message env' req (memberOf e) frm tx mode) = bm_id ?b" "mb_id (memberOf e) = ag_id e"
    using assms(3,7) by (simp_all add: client_message_def split_beta memberOf_def)
  let ?s1 = "fst (overLimits (be_now env) (length tx) (pendingCount (ag_id e) s) (rate_key (bm_fromId ?b) (ag_id e)) s)"
  obtain s2 r2 where d0: "bus_deliver (be_now env) e ?b ?s1 = (s2, r2)" by fastforce
  from cd assms(2,3) d0 obtain d where d: "bus_deliver (be_now env) e ?b ?s1 = (s2, Inr d)"
    and t: "t = (mark_replied (snd (snd (snd frm))) (bm_fromId ?b) (ag_id e) s2)
        \<lparr>bs_receipts := rememberReceipt (bm_id ?b) r (bs_receipts s2)\<rparr>"
    by (cases r2) (auto simp: client_deliver_def Let_def id split_beta split: if_split_asm)
  have reg: "bs_reg t = bs_reg s" using bus_deliver_reg [OF d] by (simp add: t)
  obtain lv where lv: "bs_live t (ag_id e) = Some lv" "bm_id ?b \<in> lv_seen lv" using bus_deliver_seen [OF d] by (auto simp: t)
  have rec: "map_of (bs_receipts t) (bm_id ?b) = Some r" by (simp add: t rememberReceipt_find)
  have "client_deliver env' req (Some e) (memberOf e) frm tx mode t = (t, Inr (r\<lparr>rc_duplicate := True\<rparr>))"
    unfolding client_deliver_def Let_def id using lv rec assms(3) by simp
  then show ?thesis
    unfolding sendFromClient_def Let_def key tm using f reg res [OF reg, of env'] by simp
qed

definition demo_entry :: agent_entry where
  "demo_entry = \<lparr>idn_name = ''r'', idn_role = RootAgent, idn_parentId = None, idn_depth = 0, ag_id = ''r'', ag_cwd = [], ag_sessionFile = None\<rparr>"

definition demo_info :: session_info where
  "demo_info = \<lparr>si_id = ''r'', si_name = Some ''r'', si_cwd = [], si_file = None\<rparr>"

definition empty_bus :: bus where
  "empty_bus = \<lparr>bs_reg = \<lparr>rg_identities = [], rg_agents = [], rg_dormant = [], rg_events = []\<rparr>, bs_live = Map.empty,
     bs_buckets = Map.empty, bs_replied = Map.empty, bs_receipts = [], bs_inbox = Map.empty, bs_entries = (\<lambda>_. []),
     bs_queue = (\<lambda>_. []), bs_replay = (\<lambda>_. []), bs_idle = (\<lambda>_. True)\<rparr>"

definition demo_bus :: bus where
  "demo_bus = session_start demo_info False empty_bus"

definition demo_bus_env :: bus_env where
  "demo_bus_env = \<lparr>be_now = 0, be_newId = ''n'', be_hex = (\<lambda>_. replicate 40 (CHR ''a'')), be_rank = (\<lambda>_. 0), be_answers = [], be_isHost = True,
     be_wake = (\<lambda>_ s. (s, Inl [])), be_restore = (\<lambda>_ s. (s, Inl [])), be_hostDeliver = (\<lambda>_ _ s. (s, Inl [])), be_hostSend = (\<lambda>_ _ _ _ _. Inl [])\<rparr>"

definition demo_send :: client_send where
  "demo_send = \<lparr>cs_target = ''r'', cs_message = ''hi'', cs_mode = JNull, cs_clientId = None, cs_from = None, cs_key = Some ''k''\<rparr>"

theorem keyed_send_idempotent_witness:
  "\<exists>t r. sendFromClient demo_bus_env demo_send demo_bus = (t, Inr r) \<and> length (bs_queue t ''r'') = 1
     \<and> sendFromClient demo_bus_env demo_send t = (t, Inr (r\<lparr>rc_duplicate := True\<rparr>))"
proof -
  let ?x = "sendFromClient demo_bus_env demo_send demo_bus"
  have h: "\<not> isl (snd ?x)" "\<not> rc_duplicate (projr (snd ?x))" "length (bs_queue (fst ?x) ''r'') = 1"
    "client_target demo_send (bs_reg demo_bus) = ''r''" "cs_key demo_send = Some ''k''"
    by code_simp+
  have g: "\<exists>e. reg_get ''r'' (bs_reg demo_bus) = Some e \<and> ag_id e = ''r''"
    by (simp add: demo_bus_def demo_info_def session_start_def Let_def split_beta reg_get_def reg_register_def started_entry_def empty_bus_def)
  obtain t r where x: "?x = (t, Inr r)" using h(1) by (cases ?x; cases "snd ?x") auto
  have "\<not> rc_duplicate r" "length (bs_queue t ''r'') = 1" using h(2,3) x by simp_all
  with keyed_send_idempotent [OF x _ h(5)] g h(4) x show ?thesis by auto
qed

lemma demo_bus_live: "bs_live demo_bus ''r'' = Some \<lparr>lv_pending = {}, lv_seen = {}\<rparr>" "bs_queue demo_bus ''r'' = []" "bs_inbox demo_bus ''r'' = None"
  by (simp_all add: demo_bus_def demo_info_def session_start_def Let_def split_beta empty_bus_def landedIds_def landed_list_def records_def keepUnlanded_def)

definition demo_msg :: bus_message where
  "demo_msg = \<lparr>bm_id = ''m1'', bm_fromId = ''x'', bm_fromName = ''x'', bm_fromRole = FromHost, bm_text = ''hi'', bm_mode = ModeAuto, bm_sentAt = 0\<rparr>"


theorem inbox_torn_line_loses_next_witness:
  "file_ids ''r'' (fst (bus_deliver 0 demo_entry demo_msg (demo_bus\<lparr>bs_inbox := [''r'' \<mapsto> \<lparr>if_lines = [], if_torn = True\<rparr>]\<rparr>))) = []"
proof -
  let ?s = "demo_bus\<lparr>bs_inbox := [''r'' \<mapsto> \<lparr>if_lines = [], if_torn = True\<rparr>]\<rparr>"
  have e: "ag_id demo_entry = ''r''" by (simp add: demo_entry_def)
  obtain t r where t: "bus_deliver 0 demo_entry demo_msg ?s = (t, r)" by fastforce
  from inbox_torn_line_loses_next [OF _ _ _ _ t, of None "\<lparr>lv_pending = {}, lv_seen = {}\<rparr>"] show ?thesis
    unfolding e t by (simp add: demo_bus_live inbox_torn_append_def records_def file_ids_def)
qed

lemma family_mem: "(r, k) \<in> set (family rank mem self xs) \<Longrightarrow> k \<in> set xs \<and> relationship self (mem k) = Some r"
  by (auto simp: family_def family_rows_set)

text \<open>
  A role-addressed send stays in the family and goes to one agent: when \<open>send\<close> returns one
  receipt, the sender is registered, the payload names a role and, for a sibling or a child, a
  name, exactly one member of the sender's roster has that role and that name or id, and the
  result is that member's delivery.
\<close>

theorem send_reaches_one_member:
  assumes "bus_send envs fromId p s = (t, Inr (OneReceipt rc))"
  shows "\<exists>e role mode k. reg_get fromId (bs_reg s) = Some e \<and> role_of_text (sp_receiverRole p) = Some role
      \<and> parseMode (sp_mode p) = Inr mode
      \<and> k \<in> set (allMembers (be_answers (envs 0)) (bs_reg s)) \<and> relationship (memberOf e) (known_member k) = Some role
      \<and> (role \<noteq> ParentRel \<longrightarrow> (\<exists>n. sp_receiverName p = JString n
            \<and> js_trim n \<in> {mb_name (known_member k), mb_id (known_member k)}))
      \<and> deliverFrom (envs 0) (memberOf e) role k (sp_message p) mode s = (t, Inr rc)"
proof -
  obtain e mode where e: "reg_get fromId (bs_reg s) = Some e" "parseMode (sp_mode p) = Inr mode"
    using assms by (auto simp: bus_send_def selfMember_def rbind_def split: option.splits sum.splits)
  define roster where "roster = family (be_rank (envs 0)) known_member (memberOf e) (allMembers (be_answers (envs 0)) (bs_reg s))"
  have self: "rbind (selfMember fromId s) (\<lambda>self. rbind (parseMode (sp_mode p)) (\<lambda>mode. Inr (self, mode))) = Inr (memberOf e, mode)"
    using e by (simp add: selfMember_def)
  define wanted where "wanted = (case sp_receiverName p of JString n \<Rightarrow> Some (js_trim n) | _ \<Rightarrow> None)"
  from assms obtain role r k where role: "role_of_text (sp_receiverRole p) = Some role"
    and m: "filter (\<lambda>(r, k). r = role \<and> (role = ParentRel \<or> wanted = Some (mb_name (known_member k)) \<or> wanted = Some (mb_id (known_member k)))) roster = [(r, k)]"
    and d: "deliverFrom (envs 0) (memberOf e) r k (sp_message p) mode s = (t, Inr rc)"
    unfolding bus_send_def self Let_def roster_def wanted_def
    by (auto simp: rbind_def split: jsv.splits if_split_asm option.splits list.splits sum.splits prod.splits)
  have "(r, k) \<in> set (filter (\<lambda>(r, k). r = role \<and> (role = ParentRel \<or> wanted = Some (mb_name (known_member k)) \<or> wanted = Some (mb_id (known_member k)))) roster)"
    unfolding m by simp
  then have rk: "(r, k) \<in> set roster" "r = role" "role = ParentRel \<or> wanted = Some (mb_name (known_member k)) \<or> wanted = Some (mb_id (known_member k))"
    by auto
  have "role \<noteq> ParentRel \<longrightarrow> (\<exists>n. sp_receiverName p = JString n \<and> js_trim n \<in> {mb_name (known_member k), mb_id (known_member k)})"
    using rk(3) by (auto simp: wanted_def split: jsv.splits)
  with e role d rk family_mem [OF rk(1) [unfolded roster_def]] show ?thesis by blast
qed

definition demo_family :: bus where
  "demo_family = session_start \<lparr>si_id = ''c'', si_name = None, si_cwd = [], si_file = None\<rparr> False
     (demo_bus\<lparr>bs_reg := assignIdentity ''c'' \<lparr>idn_name = ''kid'', idn_role = ChildAgent, idn_parentId = Some ''r'', idn_depth = 1\<rparr> (bs_reg demo_bus)\<rparr>)"

definition demo_payload :: send_payload where
  "demo_payload = \<lparr>sp_message = JString ''done'', sp_target = JUndefined, sp_receiverRole = JString ''parent'', sp_receiverName = JUndefined, sp_mode = JUndefined\<rparr>"

theorem send_reaches_one_member_witness:
  "\<exists>t rc k. bus_send (\<lambda>_. demo_bus_env) ''c'' demo_payload demo_family = (t, Inr (OneReceipt rc))
     \<and> k \<in> set (allMembers [] (bs_reg demo_family)) \<and> length (bs_queue t ''r'') = 1"
proof -
  let ?x = "bus_send (\<lambda>_. demo_bus_env) ''c'' demo_payload demo_family"
  have h: "\<not> isl (snd ?x)" "case projr (snd ?x) of OneReceipt _ \<Rightarrow> True | _ \<Rightarrow> False" "length (bs_queue (fst ?x) ''r'') = 1" by code_simp+
  obtain t rc where x: "?x = (t, Inr (OneReceipt rc))"
    using h(1,2) by (cases ?x; cases "snd ?x") (auto split: send_result.splits)
  have a: "be_answers demo_bus_env = []" by (simp add: demo_bus_env_def)
  have q: "length (bs_queue t ''r'') = 1" using h(3) unfolding x by simp
  from send_reaches_one_member [OF x] x q show ?thesis unfolding a by blast
qed

end
