(* ===== verification/Outbox.thy ===== *)
theory Outbox
  imports Prelude
begin

text \<open>
  The owner's outbox of \<^verbatim>\<open>apps/chat/server/outbox.ts\<close>: sends written to disk before they are answered,
  their hop to pi-host with retries, and the pairing of landed inputs with rows.

  A Map is an association list in insertion order and a row object is named by its request id.
  The file is the list of its lines, which \<^verbatim>\<open>disk.ts\<close> writes in order; a line that does not parse
  is skipped. pi-host's answers (\<open>submit\<close>, \<open>entries\<close>, the mentions) are arguments of the step that
  receives them; each asynchronous method is one step up to its \<open>await\<close> and one step after it.
  Images are their references, and the log lines are left out.
\<close>

section \<open>Rows and lines\<close>

datatype send_state = Sending | Sent | Failed

record outbox_row =
  ob_requestId :: string
  ob_conversation :: string
  ob_text :: string
  ob_images :: "string list"
  ob_mentions :: "string list"
  ob_whenBusySteer :: bool
  ob_at :: int
  ob_state :: send_state
  ob_attempts :: nat
  ob_error :: "string option"
  ob_sentAt :: "int option"
  ob_deliveries :: "string list"
  ob_mentioned :: bool

text \<open>A patch: a field that is not named, one that is cleared (null) or one that is set.\<close>

record outbox_patch =
  op_state :: "send_state option"
  op_attempts :: "nat option"
  op_error :: "string option option"
  op_sentAt :: "int option"
  op_deliveries :: "string list option"
  op_mentioned :: "bool option"

definition no_patch :: outbox_patch where
  "no_patch = \<lparr>op_state = None, op_attempts = None, op_error = None, op_sentAt = None, op_deliveries = None, op_mentioned = None\<rparr>"

definition patch_row :: "outbox_patch \<Rightarrow> outbox_row \<Rightarrow> outbox_row" where
  "patch_row p r = r\<lparr>
     ob_state := (case op_state p of Some x \<Rightarrow> x | None \<Rightarrow> ob_state r),
     ob_attempts := (case op_attempts p of Some x \<Rightarrow> x | None \<Rightarrow> ob_attempts r),
     ob_error := (case op_error p of Some x \<Rightarrow> x | None \<Rightarrow> ob_error r),
     ob_sentAt := (case op_sentAt p of Some x \<Rightarrow> Some x | None \<Rightarrow> ob_sentAt r),
     ob_deliveries := (case op_deliveries p of Some x \<Rightarrow> x | None \<Rightarrow> ob_deliveries r),
     ob_mentioned := (case op_mentioned p of Some x \<Rightarrow> x | None \<Rightarrow> ob_mentioned r)\<rparr>"

datatype outbox_line =
    RowLine outbox_row
  | SetLine string outbox_patch
  | DoneLine string "int option"
  | BadLine

abbreviation MAX_BACKOFF_MS :: nat where "MAX_BACKOFF_MS \<equiv> 30000"
abbreviation SENT_TTL_MS :: int where "SENT_TTL_MS \<equiv> 21600000"
abbreviation DONE_TTL_MS :: int where "DONE_TTL_MS \<equiv> 86400000"
abbreviation LAND_SLACK_MS :: int where "LAND_SLACK_MS \<equiv> 10000"

definition retryWait :: "nat \<Rightarrow> nat" where
  "retryWait attempts = min MAX_BACKOFF_MS (250 * 2 ^ min attempts 10)"

definition FATAL :: "string list" where
  "FATAL = [''no thread'', ''no conversation'', ''needs text'', ''archived'']"

definition refusedForGood :: "string \<Rightarrow> bool" where
  "refusedForGood message = list_ex (\<lambda>p. js_includes p (js_lower message)) FATAL"

section \<open>State\<close>

type_synonym rows = "(string \<times> outbox_row) list"

record outbox_input =
  oi_id :: string
  oi_text :: string
  oi_at :: int

text \<open>
  The object's fields, the file, what the watchers were told (\<open>changed\<close>) and the submissions
  that reached pi-host. \<open>ox_timers\<close> maps a request id to its delay; \<open>ox_mentioning\<close> holds the
  deliveries in flight that wait for \<open>mention\<close>.
\<close>

record outbox =
  ox_rows :: rows
  ox_done :: "(string \<times> int) list"
  ox_timers :: "string \<Rightarrow> nat option"
  ox_inflight :: "string set"
  ox_mentioning :: "string set"
  ox_matched :: "string \<Rightarrow> string list"
  ox_swept :: "string \<Rightarrow> int option"
  ox_sweeping :: bool
  ox_stopped :: bool
  ox_file :: "outbox_line list"
  ox_told :: "(string \<times> outbox_row list \<times> string list) list"
  ox_submitted :: "string list"

definition row_item_id :: "string \<Rightarrow> string" where
  "row_item_id requestId = ''r:'' @ requestId"

section \<open>The file\<close>

definition apply_line :: "int \<Rightarrow> outbox_line \<Rightarrow> rows \<times> (string \<times> int) list \<Rightarrow> rows \<times> (string \<times> int) list" where
  "apply_line now l st =
     (case l of
        RowLine r \<Rightarrow> (AList.update (ob_requestId r) r (fst st), snd st)
      | SetLine i p \<Rightarrow>
         (case map_of (fst st) i of
            Some r \<Rightarrow> (AList.update i (patch_row p r) (fst st), snd st)
          | None \<Rightarrow> st)
      | DoneLine i at \<Rightarrow> (AList.delete i (fst st), AList.update i (case at of Some t \<Rightarrow> t | None \<Rightarrow> now) (snd st))
      | BadLine \<Rightarrow> st)"

definition replay_lines :: "int \<Rightarrow> outbox_line list \<Rightarrow> rows \<times> (string \<times> int) list" where
  "replay_lines now ls = fold (apply_line now) ls ([], [])"

definition compact :: "int \<Rightarrow> outbox \<Rightarrow> outbox" where
  "compact now s =
     (let dn = filter (\<lambda>(i, at). \<not> now - at > DONE_TTL_MS) (ox_done s)
      in s\<lparr>ox_done := dn, ox_file := map (\<lambda>(i, at). DoneLine i (Some at)) dn @ map (RowLine \<circ> snd) (ox_rows s)\<rparr>)"

text \<open>The constructor; \<open>None\<close> is a file that does not exist.\<close>

definition outbox_load :: "int \<Rightarrow> outbox_line list option \<Rightarrow> outbox" where
  "outbox_load now file =
     (let s = \<lparr>ox_rows = [], ox_done = [], ox_timers = Map.empty, ox_inflight = {}, ox_mentioning = {}, ox_matched = (\<lambda>_. []), ox_swept = Map.empty,
               ox_sweeping = False, ox_stopped = False, ox_file = [], ox_told = [], ox_submitted = []\<rparr>
      in case file of
           None \<Rightarrow> s
         | Some ls \<Rightarrow> compact now (s\<lparr>ox_rows := fst (replay_lines now ls), ox_done := snd (replay_lines now ls)\<rparr>))"

definition write_line :: "outbox_line \<Rightarrow> outbox \<Rightarrow> outbox" where
  "write_line l s = s\<lparr>ox_file := ox_file s @ [l]\<rparr>"

definition tell :: "string \<Rightarrow> outbox_row list \<Rightarrow> string list \<Rightarrow> outbox \<Rightarrow> outbox" where
  "tell conv items removed s = s\<lparr>ox_told := ox_told s @ [(conv, items, removed)]\<rparr>"

section \<open>Operations\<close>

definition ob_schedule :: "string \<Rightarrow> nat \<Rightarrow> outbox \<Rightarrow> outbox" where
  "ob_schedule i delay s = (if ox_stopped s then s else s\<lparr>ox_timers := (ox_timers s)(i \<mapsto> delay)\<rparr>)"

text \<open>\<open>set\<close> of an open row; a row that is gone only gets its line in the file.\<close>

definition ob_set :: "outbox_row \<Rightarrow> outbox_patch \<Rightarrow> outbox \<Rightarrow> outbox" where
  "ob_set r p s =
     (let i = ob_requestId r; r' = patch_row p r
      in if map_of (ox_rows s) i = None then write_line (SetLine i p) s
         else tell (ob_conversation r') [r'] [] (write_line (SetLine i p) (s\<lparr>ox_rows := AList.update i r' (ox_rows s)\<rparr>)))"

definition ob_finish :: "int \<Rightarrow> outbox_row \<Rightarrow> outbox \<Rightarrow> outbox" where
  "ob_finish now r s =
     (let i = ob_requestId r;
          s1 = write_line (DoneLine i (Some now))
            (s\<lparr>ox_timers := (ox_timers s)(i := None), ox_rows := AList.delete i (ox_rows s), ox_done := AList.update i now (ox_done s)\<rparr>)
      in if ox_rows s1 = [] \<and> length (ox_done s1) > 500 then compact now s1 else s1)"

definition ob_start :: "outbox \<Rightarrow> outbox" where
  "ob_start s =
     fold (\<lambda>(i, r) s. if ob_state r = Sending then ob_schedule i 0 s else s) (ox_rows s) (s\<lparr>ox_stopped := False\<rparr>)"

definition ob_stop :: "outbox \<Rightarrow> outbox" where
  "ob_stop s = s\<lparr>ox_stopped := True, ox_timers := Map.empty\<rparr>"

definition ob_retry :: "string \<Rightarrow> outbox \<Rightarrow> outbox \<times> outbox_row option" where
  "ob_retry i s =
     (case map_of (ox_rows s) i of
        None \<Rightarrow> (s, None)
      | Some r \<Rightarrow>
         (let s1 = (if ob_state r = Failed then ob_set r (no_patch\<lparr>op_state := Some Sending, op_error := Some None\<rparr>) s else s);
              r1 = (if ob_state r = Failed then patch_row (no_patch\<lparr>op_state := Some Sending, op_error := Some None\<rparr>) r else r);
              s2 = (if ob_state r1 = Sending then ob_schedule i 0 s1 else s1)
          in (s2, Some r1)))"

definition ob_add :: "int \<Rightarrow> outbox_row \<Rightarrow> outbox \<Rightarrow> outbox \<times> outbox_row" where
  "ob_add now input s =
     (let i = ob_requestId input in
      case map_of (ox_rows s) i of
        Some r \<Rightarrow> if ob_state r = Failed then (case ob_retry i s of (s', x) \<Rightarrow> (s', the x)) else (s, r)
      | None \<Rightarrow>
          if map_of (ox_done s) i \<noteq> None
          then (s, input\<lparr>ob_at := now, ob_state := Sent, ob_attempts := 1, ob_deliveries := []\<rparr>)
          else
           (let r = input\<lparr>ob_at := now, ob_state := Sending, ob_attempts := 0, ob_deliveries := []\<rparr>;
                s1 = tell (ob_conversation r) [r] [] (write_line (RowLine r) (s\<lparr>ox_rows := AList.update i r (ox_rows s)\<rparr>))
            in (ob_schedule i 0 s1, r)))"

definition ob_open :: "string \<Rightarrow> outbox \<Rightarrow> outbox_row list" where
  "ob_open conv s = sort_key ob_at (filter (\<lambda>r. ob_conversation r = conv) (map snd (ox_rows s)))"

definition ob_discard :: "int \<Rightarrow> string \<Rightarrow> outbox \<Rightarrow> outbox \<times> bool" where
  "ob_discard now i s =
     (case map_of (ox_rows s) i of
        None \<Rightarrow> (s, False)
      | Some r \<Rightarrow> (tell (ob_conversation r) [] [row_item_id i] (ob_finish now r s), True))"

section \<open>Landing\<close>

definition sameText :: "string \<Rightarrow> string \<Rightarrow> bool" where
  "sameText a b \<longleftrightarrow> js_trim a = js_trim b"

definition lands :: "string list \<Rightarrow> outbox_row \<Rightarrow> outbox_input \<Rightarrow> bool" where
  "lands used r i \<longleftrightarrow> oi_id i \<notin> set used \<and> sameText (oi_text i) (ob_text r) \<and> oi_at i \<ge> ob_at r - LAND_SLACK_MS"

text \<open>The loop of \<open>land\<close>: the pairs it finds, with the inputs used so far in insertion order.\<close>

fun land_pairs :: "outbox_input list \<Rightarrow> string list \<Rightarrow> outbox_row list \<Rightarrow> (outbox_row \<times> outbox_input) list" where
  "land_pairs inputs used [] = []"
| "land_pairs inputs used (r # rs) =
     (case find (lands used r) inputs of
        None \<Rightarrow> land_pairs inputs used rs
      | Some i \<Rightarrow> (r, i) # land_pairs inputs (used @ [oi_id i]) rs)"

definition ob_land :: "int \<Rightarrow> string \<Rightarrow> outbox_row list \<Rightarrow> outbox_input list \<Rightarrow> outbox \<Rightarrow> outbox" where
  "ob_land now conv rs inputs s =
     (let pairs = land_pairs inputs (ox_matched s conv) rs;
          used = ox_matched s conv @ map (oi_id \<circ> snd) pairs;
          s1 = fold (\<lambda>(r, _). ob_finish now r) pairs s;
          s2 = s1\<lparr>ox_matched := (ox_matched s1)(conv := (if length used > 200 then drop (length used - 100) used else used))\<rparr>
      in if pairs = [] then s2 else tell conv [] (map (row_item_id \<circ> ob_requestId \<circ> fst) pairs) s2)"

text \<open>\<open>reconcile\<close>, given the owner inputs among the items that were read.\<close>

definition ob_reconcile :: "int \<Rightarrow> string \<Rightarrow> outbox_input list \<Rightarrow> outbox \<Rightarrow> outbox" where
  "ob_reconcile now conv inputs s =
     (let rs = filter (\<lambda>r. ob_state r \<noteq> Failed) (ob_open conv s)
      in if rs = [] then s else ob_land now conv rs inputs s)"

section \<open>Delivery\<close>

text \<open>\<open>deliver\<close> up to the call of \<open>submit\<close>: the second part says whether it was called.\<close>

definition deliver_begin :: "string \<Rightarrow> outbox \<Rightarrow> outbox \<times> bool" where
  "deliver_begin i s =
     (let s1 = s\<lparr>ox_timers := (ox_timers s)(i := None)\<rparr>
      in case map_of (ox_rows s1) i of
           Some r \<Rightarrow>
             if ox_stopped s1 \<or> ob_state r \<noteq> Sending \<or> i \<in> ox_inflight s1 then (s1, False)
             else (s1\<lparr>ox_inflight := insert i (ox_inflight s1)\<rparr>, True)
         | None \<Rightarrow> (s1, False))"

text \<open>
  \<open>submit\<close> returned, at \<open>now\<close>, for the row \<open>r0\<close> that was sent. With mentions the delivery stays in
  flight until \<open>mention\<close> is over.
\<close>

definition deliver_ok :: "int \<Rightarrow> outbox_row \<Rightarrow> outbox \<Rightarrow> outbox" where
  "deliver_ok now r0 s =
     (let i = ob_requestId r0;
          s1 = (case map_of (ox_rows s) i of
          Some r \<Rightarrow> ob_set r (no_patch\<lparr>op_state := Some Sent, op_sentAt := Some now, op_attempts := Some (ob_attempts r + 1), op_error := Some None\<rparr>) s
        | None \<Rightarrow> s);
          s2 = s1\<lparr>ox_submitted := ox_submitted s1 @ [i]\<rparr>
      in if ob_mentions r0 \<noteq> [] then s2\<lparr>ox_mentioning := insert i (ox_mentioning s2)\<rparr>
         else s2\<lparr>ox_inflight := ox_inflight s2 - {i}\<rparr>)"

text \<open>\<open>submit\<close> threw.\<close>

definition deliver_failed :: "string \<Rightarrow> string \<Rightarrow> outbox \<Rightarrow> outbox" where
  "deliver_failed message i s =
     (let s1 = (case map_of (ox_rows s) i of
          None \<Rightarrow> s
        | Some r \<Rightarrow>
           (let attempts = ob_attempts r + 1 in
            if refusedForGood message then ob_set r (no_patch\<lparr>op_state := Some Failed, op_attempts := Some attempts, op_error := Some (Some message)\<rparr>) s
            else ob_schedule i (retryWait attempts)
              (ob_set r (no_patch\<lparr>op_attempts := Some attempts, op_error := (if attempts \<ge> 3 then Some (Some message) else None)\<rparr>) s)))
      in s1\<lparr>ox_inflight := ox_inflight s1 - {i}\<rparr>)"

text \<open>\<open>mention\<close> once the deliveries are known; a failure is only logged.\<close>

definition mention_done :: "string \<Rightarrow> string list \<Rightarrow> outbox \<Rightarrow> outbox" where
  "mention_done i deliveries s =
     (case map_of (ox_rows s) i of
        Some r \<Rightarrow> ob_set r (no_patch\<lparr>op_deliveries := Some deliveries, op_mentioned := Some True\<rparr>) s
      | None \<Rightarrow> s)"

text \<open>The end of a delivery that waited for its mentions; \<open>None\<close> when they failed.\<close>

definition deliver_mentioned :: "string \<Rightarrow> string list option \<Rightarrow> outbox \<Rightarrow> outbox" where
  "deliver_mentioned i deliveries s =
     (let s1 = (case deliveries of Some d \<Rightarrow> mention_done i d s | None \<Rightarrow> s)
      in s1\<lparr>ox_inflight := ox_inflight s1 - {i}, ox_mentioning := ox_mentioning s1 - {i}\<rparr>)"

section \<open>The sweep\<close>

definition sweep_expired :: "int \<Rightarrow> outbox_row \<Rightarrow> bool" where
  "sweep_expired now r \<longleftrightarrow> ob_state r = Sent
     \<and> now - (case ob_sentAt r of Some t \<Rightarrow> t | None \<Rightarrow> ob_at r) > SENT_TTL_MS"

definition sweep_reads :: "int \<Rightarrow> outbox_row \<Rightarrow> bool" where
  "sweep_reads now r \<longleftrightarrow> ob_state r \<noteq> Failed \<and> \<not> (ob_state r = Sending \<and> ob_attempts r = 0) \<and> \<not> sweep_expired now r"

text \<open>The first loop of \<open>sweep\<close>: expired rows go, the rows to read are grouped by conversation.\<close>

definition sweep_begin :: "int \<Rightarrow> outbox \<Rightarrow> outbox \<times> (string \<times> string list) list" where
  "sweep_begin now s =
     (if ox_sweeping s then (s, [])
      else
       (let rs = map snd (ox_rows s);
            s1 = fold (\<lambda>r s. tell (ob_conversation r) [] [row_item_id (ob_requestId r)] (ob_finish now r s)) (filter (sweep_expired now) rs)
              (s\<lparr>ox_sweeping := True\<rparr>)
        in (s1, map (\<lambda>c. (c, map ob_requestId (filter (\<lambda>r. ob_conversation r = c \<and> sweep_reads now r) rs)))
              (js_uniq (map ob_conversation (filter (sweep_reads now) rs))))))"

text \<open>One conversation of the sweep: the newest entry id and the owner inputs of the page, in entry order.\<close>

definition sweep_conversation :: "int \<Rightarrow> string \<Rightarrow> string list \<Rightarrow> int option \<Rightarrow> outbox_input list \<Rightarrow> outbox \<Rightarrow> outbox" where
  "sweep_conversation now conv ids newest inputs s =
     (let s1 = (case newest of
          None \<Rightarrow> s
        | Some n \<Rightarrow> s\<lparr>ox_swept := (ox_swept s)(conv \<mapsto> max (case ox_swept s conv of Some c \<Rightarrow> c | None \<Rightarrow> 0) n)\<rparr>);
          rs = sort_key ob_at (filter (\<lambda>r. ob_requestId r \<in> set ids) (map snd (ox_rows s1)))
      in ob_land now conv rs inputs s1)"

definition sweep_end :: "outbox \<Rightarrow> outbox" where
  "sweep_end s = s\<lparr>ox_sweeping := False\<rparr>"

section \<open>Runs\<close>

text \<open>
  Every public operation, the timers, the two halves of a delivery, the sweep, and a restart
  from the file. A request id whose delivery is still in flight is not sent anew after its row
  has been gone for a day.
\<close>

inductive outbox_step :: "outbox \<Rightarrow> outbox \<Rightarrow> bool" where
  OxAdd: "ob_requestId input \<notin> ox_inflight s \<or> map_of (ox_rows s) (ob_requestId input) \<noteq> None
    \<or> map_of (ox_done s) (ob_requestId input) \<noteq> None \<Longrightarrow> outbox_step s (fst (ob_add now input s))"
| OxRetry: "outbox_step s (fst (ob_retry i s))"
| OxDiscard: "outbox_step s (fst (ob_discard now i s))"
| OxReconcile: "outbox_step s (ob_reconcile now conv inputs s)"
| OxTimer: "ox_timers s i \<noteq> None \<Longrightarrow> outbox_step s (fst (deliver_begin i s))"
| OxOk: "ob_requestId r \<in> ox_inflight s - ox_mentioning s \<Longrightarrow> outbox_step s (deliver_ok now r s)"
| OxFailed: "i \<in> ox_inflight s - ox_mentioning s \<Longrightarrow> outbox_step s (deliver_failed m i s)"
| OxMentioned: "i \<in> ox_mentioning s \<Longrightarrow> outbox_step s (deliver_mentioned i d s)"
| OxMention: "outbox_step s (mention_done i d s)"
| OxSweep: "outbox_step s (fst (sweep_begin now s))"
| OxSweepConversation: "outbox_step s (sweep_conversation now conv ids newest inputs s)"
| OxSweepEnd: "outbox_step s (sweep_end s)"
| OxStop: "outbox_step s (ob_stop s)"
| OxStart: "outbox_step s (ob_start s)"
| OxRestart: "outbox_step s (ob_start (outbox_load now (Some (ox_file s))))"

text \<open>
  The invariant: rows and finished ids are filed once under their id, the file replays to
  exactly them, and while the outbox runs every row that is \<open>sending\<close> has a timer or a submission
  in flight.
\<close>

definition log_ok :: "outbox \<Rightarrow> bool" where
  "log_ok s \<longleftrightarrow> keyed ob_requestId (ox_rows s) \<and> distinct (map fst (ox_done s))
     \<and> (\<forall>now. replay_lines now (ox_file s) = (ox_rows s, ox_done s))"

definition live_ok :: "outbox \<Rightarrow> bool" where
  "live_ok s \<longleftrightarrow> ox_mentioning s \<subseteq> ox_inflight s
     \<and> (\<forall>i r. map_of (ox_rows s) i = Some r \<longrightarrow> (i \<in> ox_mentioning s \<longrightarrow> ob_state r = Sent)
          \<and> (ob_state r = Sending \<longrightarrow> ox_stopped s \<or> ox_timers s i \<noteq> None \<or> i \<in> ox_inflight s))"

lemma replay_snoc: "replay_lines now (ls @ [l]) = apply_line now l (replay_lines now ls)"
  by (simp add: replay_lines_def)

lemma log_ok_write:
  assumes "log_ok s" and "keyed ob_requestId rs" and "distinct (map fst dn)"
    and "\<And>now. apply_line now l (ox_rows s, ox_done s) = (rs, dn)"
  shows "log_ok (write_line l (s\<lparr>ox_rows := rs, ox_done := dn\<rparr>))"
  using assms by (simp add: log_ok_def write_line_def replay_snoc)

lemma log_ok_fields:
  "log_ok (tell c a b s) = log_ok s" "log_ok (s\<lparr>ox_timers := t\<rparr>) = log_ok s" "log_ok (s\<lparr>ox_inflight := f\<rparr>) = log_ok s"
  "log_ok (s\<lparr>ox_mentioning := f\<rparr>) = log_ok s" "log_ok (s\<lparr>ox_matched := m\<rparr>) = log_ok s" "log_ok (s\<lparr>ox_swept := w\<rparr>) = log_ok s"
  "log_ok (s\<lparr>ox_sweeping := b'\<rparr>) = log_ok s" "log_ok (s\<lparr>ox_stopped := b'\<rparr>) = log_ok s" "log_ok (s\<lparr>ox_submitted := u\<rparr>) = log_ok s"
  "log_ok (ob_schedule i d s) = log_ok s"
  by (simp_all add: log_ok_def tell_def ob_schedule_def)

lemma keyed_update_same:
  "keyed f xs \<Longrightarrow> map_of xs k = Some v \<Longrightarrow> f v = k"
  by (auto simp: keyed_def dest!: map_of_SomeD)

lemma patch_row_id [simp]: "ob_requestId (patch_row p r) = ob_requestId r" "ob_conversation (patch_row p r) = ob_conversation r"
  by (simp_all add: patch_row_def)

lemma log_ok_row: "log_ok s \<Longrightarrow> map_of (ox_rows s) i = Some r \<Longrightarrow> ob_requestId r = i"
  by (auto simp: log_ok_def dest: keyed_update_same)

lemma ob_set_log:
  assumes "log_ok s" and "map_of (ox_rows s) (ob_requestId r) = Some r"
  shows "log_ok (ob_set r p s)"
proof -
  have "log_ok (write_line (SetLine (ob_requestId r) p) (s\<lparr>ox_rows := AList.update (ob_requestId r) (patch_row p r) (ox_rows s), ox_done := ox_done s\<rparr>))"
    by (rule log_ok_write [OF assms(1)]) (use assms in \<open>auto simp: log_ok_def apply_line_def keyed_update\<close>)
  then show ?thesis using assms(2) by (simp add: ob_set_def Let_def log_ok_fields)
qed

lemma compact_log:
  assumes "keyed ob_requestId (ox_rows s)" and "distinct (map fst (ox_done s))"
  shows "log_ok (compact now s)"
proof -
  let ?dn = "filter (\<lambda>(i, at). \<not> now - at > DONE_TTL_MS) (ox_done s)"
  have d: "distinct (map fst ?dn)" using assms(2) by (rule distinct_map_filter)
  have "fold (apply_line t) (map (\<lambda>(i, at). DoneLine i (Some at)) xs) ([], ys) = ([], fold (\<lambda>(k, v). AList.update k v) xs ys)" for xs ys t
    by (induction xs arbitrary: ys) (auto simp: apply_line_def)
  moreover have "fold (apply_line t) (map (RowLine \<circ> snd) xs) (ys, dn) = (fold (\<lambda>(k, v). AList.update k v) xs ys, dn)"
    if "map ob_requestId (map snd xs) = map fst xs" for xs ys dn t
    using that by (induction xs arbitrary: ys) (auto simp: apply_line_def)
  ultimately have "replay_lines t (map (\<lambda>(i, at). DoneLine i (Some at)) ?dn @ map (RowLine \<circ> snd) (ox_rows s)) = (ox_rows s, ?dn)" for t
    using assms fold_alist_update [of "[]" ?dn] fold_alist_update [of "[]" "ox_rows s"] d
    unfolding replay_lines_def keyed_def by (simp del: map_map)
  with assms d show ?thesis by (simp add: log_ok_def compact_def Let_def)
qed

lemma log_ok_compact: "log_ok s \<Longrightarrow> log_ok (compact now s)"
  by (rule compact_log) (simp_all add: log_ok_def)

lemma finish_log:
  assumes "log_ok s"
  shows "log_ok (ob_finish now r s)"
proof -
  let ?s = "s\<lparr>ox_timers := (ox_timers s)(ob_requestId r := None)\<rparr>"
  have "log_ok (write_line (DoneLine (ob_requestId r) (Some now))
      (?s\<lparr>ox_rows := AList.delete (ob_requestId r) (ox_rows s), ox_done := AList.update (ob_requestId r) now (ox_done s)\<rparr>))"
    by (rule log_ok_write) (use assms in \<open>auto simp: log_ok_fields log_ok_def apply_line_def keyed_delete distinct_update\<close>)
  then show ?thesis by (simp add: ob_finish_def Let_def log_ok_compact)
qed

lemma fold_log: "log_ok s \<Longrightarrow> (\<And>x u. x \<in> set xs \<Longrightarrow> log_ok u \<Longrightarrow> log_ok (f x u)) \<Longrightarrow> log_ok (fold f xs s)"
  by (induction xs arbitrary: s) auto

lemma land_log: "log_ok s \<Longrightarrow> log_ok (ob_land now conv rs inputs s)"
  by (auto simp: ob_land_def Let_def log_ok_fields intro!: fold_log finish_log split: prod.splits)

lemma retry_log: "log_ok s \<Longrightarrow> log_ok (fst (ob_retry i s))"
  by (auto simp: ob_retry_def Let_def log_ok_fields log_ok_row intro!: ob_set_log split: option.splits)

lemma add_log: "log_ok s \<Longrightarrow> log_ok (fst (ob_add now input s))"
proof -
  assume ok: "log_ok s"
  let ?r = "input\<lparr>ob_at := now, ob_state := Sending, ob_attempts := 0, ob_deliveries := []\<rparr>"
  have "log_ok (write_line (RowLine ?r) (s\<lparr>ox_rows := AList.update (ob_requestId input) ?r (ox_rows s), ox_done := ox_done s\<rparr>))"
    by (rule log_ok_write [OF ok]) (use ok in \<open>auto simp: log_ok_def apply_line_def keyed_update\<close>)
  with ok retry_log [OF ok, of "ob_requestId input"] show ?thesis
    by (auto simp: ob_add_def Let_def log_ok_fields split: option.splits prod.splits)
qed

lemma load_log:
  assumes "log_ok s"
  shows "log_ok (outbox_load now (Some (ox_file s)))" and "ox_rows (outbox_load now (Some (ox_file s))) = ox_rows s"
    and "ox_done (outbox_load now (Some (ox_file s))) = filter (\<lambda>(i, at). \<not> now - at > DONE_TTL_MS) (ox_done s)"
proof -
  have r: "replay_lines now (ox_file s) = (ox_rows s, ox_done s)" using assms by (simp add: log_ok_def)
  show "log_ok (outbox_load now (Some (ox_file s)))"
    using assms by (auto simp: outbox_load_def r Let_def log_ok_def [of s] intro!: compact_log)
  show "ox_rows (outbox_load now (Some (ox_file s))) = ox_rows s"
    "ox_done (outbox_load now (Some (ox_file s))) = filter (\<lambda>(i, at). \<not> now - at > DONE_TTL_MS) (ox_done s)"
    by (simp_all add: outbox_load_def r Let_def compact_def)
qed

lemma start_log: "log_ok s \<Longrightarrow> log_ok (ob_start s)"
  by (auto simp: ob_start_def log_ok_fields intro!: fold_log split: prod.splits)

lemma outbox_step_log: "outbox_step s t \<Longrightarrow> log_ok s \<Longrightarrow> log_ok t"
proof (induction rule: outbox_step.induct)
  case (OxSweep s now)
  then show ?case by (auto simp: sweep_begin_def Let_def log_ok_fields intro!: fold_log finish_log)
next
  case (OxRestart s now)
  then show ?case by (intro start_log load_log(1))
next
  case (OxOk r s now)
  then show ?case by (auto simp: deliver_ok_def Let_def log_ok_fields log_ok_row split: option.splits intro!: ob_set_log)
next
  case (OxFailed i s m)
  then show ?case by (auto simp: deliver_failed_def Let_def log_ok_fields log_ok_row split: option.splits intro!: ob_set_log)
next
  case (OxMentioned i s d)
  then show ?case by (auto simp: deliver_mentioned_def mention_done_def Let_def log_ok_fields log_ok_row split: option.splits intro!: ob_set_log)
qed (auto simp: add_log retry_log ob_discard_def ob_reconcile_def deliver_begin_def mention_done_def sweep_conversation_def sweep_end_def ob_stop_def
      log_ok_fields log_ok_row Let_def start_log split: option.splits intro!: ob_set_log finish_log land_log)

lemma live_set:
  assumes "live_ok s" and "map_of (ox_rows s) (ob_requestId r) = Some r"
    and "ob_state (patch_row p r) = ob_state r \<or> ob_state (patch_row p r) = Sent \<or> ob_state (patch_row p r) = Failed \<and> ob_requestId r \<notin> ox_mentioning s"
  shows "live_ok (ob_set r p s)"
proof -
  have "ob_set r p s = tell (ob_conversation r) [patch_row p r] [] (write_line (SetLine (ob_requestId r) p)
      (s\<lparr>ox_rows := AList.update (ob_requestId r) (patch_row p r) (ox_rows s)\<rparr>))"
    using assms(2) by (simp add: ob_set_def Let_def)
  moreover have "(ob_requestId r \<in> ox_mentioning s \<longrightarrow> ob_state (patch_row p r) = Sent)
      \<and> (ob_state (patch_row p r) = Sending \<longrightarrow> ox_stopped s \<or> ox_timers s (ob_requestId r) \<noteq> None \<or> ob_requestId r \<in> ox_inflight s)"
    using assms unfolding live_ok_def by (metis send_state.distinct)
  ultimately show ?thesis using assms(1) by (auto simp: live_ok_def tell_def write_line_def update_conv')
qed

lemma live_finish: "live_ok s \<Longrightarrow> live_ok (ob_finish now r s)"
  by (auto simp: live_ok_def ob_finish_def Let_def write_line_def compact_def delete_conv' split: if_split_asm)

lemma live_fold: "live_ok s \<Longrightarrow> (\<And>x u. x \<in> set xs \<Longrightarrow> live_ok u \<Longrightarrow> live_ok (f x u)) \<Longrightarrow> live_ok (fold f xs s)"
  by (induction xs arbitrary: s) auto

lemma live_fields:
  "live_ok (tell c a b s) = live_ok s" "live_ok (s\<lparr>ox_matched := m\<rparr>) = live_ok s" "live_ok (s\<lparr>ox_swept := w\<rparr>) = live_ok s"
  "live_ok (s\<lparr>ox_sweeping := b'\<rparr>) = live_ok s" "live_ok (s\<lparr>ox_submitted := u\<rparr>) = live_ok s" "live_ok s \<Longrightarrow> live_ok (ob_schedule i d s)"
  by (auto simp: live_ok_def tell_def ob_schedule_def)

lemma live_land: "live_ok s \<Longrightarrow> live_ok (ob_land now conv rs inputs s)"
  by (auto simp: ob_land_def Let_def live_fields intro!: live_fold live_finish split: prod.splits)

lemma live_retry:
  assumes "live_ok s" and "log_ok s"
  shows "live_ok (fst (ob_retry i s))"
proof (cases "map_of (ox_rows s) i")
  case (Some r)
  have "ob_requestId r = i" using log_ok_row [OF assms(2) Some] .
  then show ?thesis
    using assms(1) Some
    by (auto simp: ob_retry_def Let_def live_ok_def ob_set_def tell_def write_line_def ob_schedule_def update_conv' no_patch_def patch_row_def
        split: if_split_asm)
qed (use assms in \<open>simp add: ob_retry_def\<close>)

lemma live_add:
  assumes "live_ok s" and "log_ok s"
    and "ob_requestId input \<notin> ox_inflight s \<or> map_of (ox_rows s) (ob_requestId input) \<noteq> None \<or> map_of (ox_done s) (ob_requestId input) \<noteq> None"
  shows "live_ok (fst (ob_add now input s))"
proof (cases "map_of (ox_rows s) (ob_requestId input)")
  case None
  then show ?thesis using assms(1,3)
    by (auto simp: ob_add_def Let_def live_ok_def tell_def write_line_def ob_schedule_def update_conv')
next
  case (Some r)
  then show ?thesis using assms(1) live_retry [OF assms(1,2), of "ob_requestId input"]
    by (simp add: ob_add_def split_beta)
qed

lemma live_ok_sent:
  assumes "live_ok s" and "log_ok s" and "ob_requestId r0 \<in> ox_inflight s - ox_mentioning s"
  shows "live_ok (deliver_ok now r0 s)"
proof (cases "map_of (ox_rows s) (ob_requestId r0)")
  case (Some r)
  have "ob_requestId r = ob_requestId r0" using log_ok_row [OF assms(2) Some] .
  then show ?thesis
    using assms(1,3) Some
    by (auto simp: deliver_ok_def Let_def live_ok_def ob_set_def tell_def write_line_def update_conv' no_patch_def patch_row_def split: if_split_asm)
qed (use assms in \<open>auto simp: deliver_ok_def Let_def live_ok_def\<close>)

lemma live_ok_failed:
  assumes "live_ok s" and "log_ok s" and "i \<in> ox_inflight s - ox_mentioning s"
  shows "live_ok (deliver_failed m i s)"
proof (cases "map_of (ox_rows s) i")
  case (Some r)
  have "ob_requestId r = i" using log_ok_row [OF assms(2) Some] .
  then show ?thesis
    using assms(1,3) Some
    by (auto simp: deliver_failed_def Let_def live_ok_def ob_set_def tell_def write_line_def ob_schedule_def update_conv' no_patch_def patch_row_def
        split: if_split_asm)
qed (use assms in \<open>auto simp: deliver_failed_def Let_def live_ok_def\<close>)

lemma live_mention: "live_ok s \<Longrightarrow> log_ok s \<Longrightarrow> live_ok (mention_done i d s)"
  by (auto simp: mention_done_def no_patch_def patch_row_def log_ok_row intro!: live_set split: option.splits)

lemma mention_fields: "ox_inflight (mention_done i d s) = ox_inflight s" "ox_mentioning (mention_done i d s) = ox_mentioning s"
  by (simp_all add: mention_done_def ob_set_def Let_def tell_def write_line_def split: option.splits)

lemma live_mentioned:
  assumes "live_ok s" and "log_ok s" and "i \<in> ox_mentioning s"
  shows "live_ok (deliver_mentioned i d s)"
proof -
  let ?s = "case d of Some x \<Rightarrow> mention_done i x s | None \<Rightarrow> s"
  have "live_ok ?s" "ox_mentioning ?s = ox_mentioning s" using assms live_mention by (auto simp: mention_fields split: option.splits)
  with assms(3) show ?thesis
    unfolding deliver_mentioned_def Let_def live_ok_def by fastforce
qed

lemma start_fields:
  "ox_rows (ob_start s) = ox_rows s \<and> ox_inflight (ob_start s) = ox_inflight s \<and> ox_mentioning (ob_start s) = ox_mentioning s
     \<and> ox_stopped (ob_start s) = False
     \<and> (\<forall>(i, r) \<in> set (ox_rows s). ob_state r = Sending \<longrightarrow> ox_timers (ob_start s) i \<noteq> None)"
proof -
  let ?f = "\<lambda>(i, r) s. if ob_state r = Sending then ob_schedule i 0 s else s"
  have "ox_rows (fold ?f xs u) = ox_rows u \<and> ox_inflight (fold ?f xs u) = ox_inflight u \<and> ox_mentioning (fold ?f xs u) = ox_mentioning u
     \<and> ox_stopped (fold ?f xs u) = ox_stopped u \<and> (\<forall>i. ox_timers u i \<noteq> None \<longrightarrow> ox_timers (fold ?f xs u) i \<noteq> None)
     \<and> (\<forall>(i, r) \<in> set xs. ob_state r = Sending \<longrightarrow> ox_timers (fold ?f xs u) i \<noteq> None)" if "\<not> ox_stopped u" for xs u
    using that
  proof (induction xs arbitrary: u)
    case (Cons x xs)
    have "\<not> ox_stopped (?f x u)" using Cons.prems by (auto simp: ob_schedule_def split: prod.splits)
    from Cons.IH [OF this] Cons.prems show ?case by (cases x) (auto simp: ob_schedule_def)
  qed simp
  from this [of "s\<lparr>ox_stopped := False\<rparr>" "ox_rows s"] show ?thesis by (simp add: ob_start_def)
qed

lemma live_start:
  assumes "\<forall>i r. map_of (ox_rows s) i = Some r \<longrightarrow> i \<in> ox_mentioning s \<longrightarrow> ob_state r = Sent" and "ox_mentioning s \<subseteq> ox_inflight s"
  shows "live_ok (ob_start s)"
  using assms start_fields [of s] by (fastforce simp: live_ok_def dest: map_of_SomeD)

lemma outbox_step_live: "outbox_step s t \<Longrightarrow> log_ok s \<Longrightarrow> live_ok s \<Longrightarrow> live_ok t"
proof (induction rule: outbox_step.induct)
  case (OxSweep s now)
  then show ?case by (auto simp: sweep_begin_def Let_def live_fields intro!: live_fold live_finish)
next
  case (OxRestart s now)
  then show ?case by (intro live_start) (simp_all add: outbox_load_def Let_def compact_def)
next
  case (OxStart s)
  then show ?case by (intro live_start) (auto simp: live_ok_def)
next
  case (OxTimer s i)
  then show ?case by (auto simp: deliver_begin_def Let_def live_ok_def split: option.splits)
next
  case (OxSweepConversation s now conv ids newest inputs)
  then show ?case by (auto simp: sweep_conversation_def Let_def live_fields intro!: live_land split: option.splits)
next
  case (OxStop s)
  then show ?case by (auto simp: ob_stop_def live_ok_def)
qed (auto simp: live_add live_retry ob_discard_def ob_reconcile_def sweep_end_def live_fields live_mention live_mentioned live_ok_sent live_ok_failed
      Let_def split: option.splits intro!: live_finish live_land)

definition outbox_init :: "outbox \<Rightarrow> bool" where
  "outbox_init s \<longleftrightarrow> (\<exists>now. s = ob_start (outbox_load now None))"

interpretation ox: step_invariant outbox_init outbox_step "\<lambda>s. log_ok s \<and> live_ok s"
proof
  show "log_ok s \<and> live_ok s" if init: "outbox_init s" for s
  proof -
    obtain now where s: "s = ob_start (outbox_load now None)" using init unfolding outbox_init_def by blast
    have "log_ok (outbox_load now None)" by (simp add: outbox_load_def Let_def keyed_def log_ok_def replay_lines_def)
    then show ?thesis unfolding s by (simp add: start_log live_start outbox_load_def Let_def)
  qed
qed (auto dest: outbox_step_log outbox_step_live)

section \<open>Landing\<close>

lemma find_SomeD: "find P xs = Some x \<Longrightarrow> x \<in> set xs \<and> P x"
  by (induction xs) (auto split: if_split_asm)

lemma land_pairs_used:
  "(r, i) \<in> set (land_pairs inputs used rs) \<Longrightarrow> r \<in> set rs \<and> i \<in> set inputs \<and> oi_id i \<notin> set used
     \<and> sameText (oi_text i) (ob_text r) \<and> ob_at r - LAND_SLACK_MS \<le> oi_at i"
proof (induction rs arbitrary: used)
  case (Cons x xs)
  show ?case
  proof (cases "find (lands used x) inputs")
    case None
    with Cons.prems Cons.IH [of used] show ?thesis by auto
  next
    case (Some j)
    with Cons.prems Cons.IH [of "used @ [oi_id j]"] find_SomeD [OF Some] show ?thesis by (auto simp: lands_def)
  qed
qed simp

lemma land_pairs_distinct: "distinct (map (oi_id \<circ> snd) (land_pairs inputs used rs))"
proof (induction rs arbitrary: used)
  case (Cons x xs)
  have "oi_id i \<notin> (oi_id \<circ> snd) ` set (land_pairs inputs (used @ [oi_id i]) xs)" for i
    using land_pairs_used [of _ _ inputs "used @ [oi_id i]" xs] by fastforce
  with Cons show ?case by (auto split: option.splits)
qed simp

lemma land_pairs_rows: "subseq (map fst (land_pairs inputs used rs)) rs"
  by (induction rs arbitrary: used) (auto split: option.splits)

lemma land_pairs_complete:
  "r \<in> set rs \<Longrightarrow> r \<notin> fst ` set (land_pairs inputs used rs) \<Longrightarrow> i \<in> set inputs \<Longrightarrow> sameText (oi_text i) (ob_text r) \<Longrightarrow>
     ob_at r - LAND_SLACK_MS \<le> oi_at i \<Longrightarrow> oi_id i \<in> set used \<union> (oi_id \<circ> snd) ` set (land_pairs inputs used rs)"
proof (induction rs arbitrary: used)
  case (Cons x xs)
  show ?case
  proof (cases "find (lands used x) inputs")
    case None
    then have eq: "land_pairs inputs used (x # xs) = land_pairs inputs used xs" by simp
    have "\<not> lands used x i" using None Cons.prems(3) by (auto simp: find_None_iff)
    then show ?thesis using Cons.prems Cons.IH [of used] unfolding eq by (cases "r = x") (auto simp: lands_def)
  next
    case (Some j)
    with Cons.prems have "r \<in> set xs" "r \<notin> fst ` set (land_pairs inputs (used @ [oi_id j]) xs)" by auto
    from Cons.IH [OF this Cons.prems(3-5)] Some show ?thesis by auto
  qed
qed simp

section \<open>Properties\<close>

text \<open>
  C9. Nothing accepted is lost in a restart: in every state the outbox reaches, its file replays
  to exactly the open rows and finished ids in memory, so a chat server that starts again from
  the file has the same rows in the same order and state, and the same finished ids but those
  older than a day.
\<close>

theorem outbox_restart_restores:
  assumes "outbox_init s0" and "outbox_step\<^sup>*\<^sup>* s0 s" and "outbox_load now (Some (ox_file s)) = t"
  shows "ox_rows t = ox_rows s \<and> ox_done t = filter (\<lambda>(i, at). \<not> now - at > DONE_TTL_MS) (ox_done s)
       \<and> (\<forall>later. replay_lines later (ox_file t) = (ox_rows t, ox_done t))"
proof -
  have ok: "log_ok s" using ox.inv_reach [OF assms(1,2)] by simp
  show ?thesis using load_log [OF ok, of now] unfolding assms(3) [symmetric] by (simp add: log_ok_def)
qed

text \<open>
  C12. No send is forgotten: in every state the outbox reaches while it is not stopped, each row
  that is still \<open>sending\<close> has a timer that will try it or a submission in flight; and no request id
  has two rows.
\<close>

theorem outbox_no_stuck_send:
  assumes "outbox_init s0" and "outbox_step\<^sup>*\<^sup>* s0 s" and "(i, r) \<in> set (ox_rows s)"
  shows "i = ob_requestId r \<and> distinct (map fst (ox_rows s))
       \<and> (ob_state r = Sending \<and> \<not> ox_stopped s \<longrightarrow> ox_timers s i \<noteq> None \<or> i \<in> ox_inflight s)"
proof -
  have ok: "log_ok s" "live_ok s" using ox.inv_reach [OF assms(1,2)] by simp_all
  have d: "distinct (map fst (ox_rows s))" using ok(1) by (simp add: log_ok_def keyed_def)
  have m: "map_of (ox_rows s) i = Some r" using d assms(3) by simp
  show ?thesis using log_ok_row [OF ok(1) m] d m ok(2) by (auto simp: live_ok_def)
qed

text \<open>
  A repeated request id makes no second send: adding an id that has an open row or has landed
  changes no row, writes no line and schedules nothing, except that a failed row is tried again.
\<close>

theorem outbox_add_repeated:
  assumes "map_of (ox_rows s) (ob_requestId input) = Some r \<and> ob_state r \<noteq> Failed
     \<or> map_of (ox_rows s) (ob_requestId input) = None \<and> map_of (ox_done s) (ob_requestId input) \<noteq> None"
  shows "fst (ob_add now input s) = s
       \<and> snd (ob_add now input s) = (case map_of (ox_rows s) (ob_requestId input) of Some r \<Rightarrow> r
            | None \<Rightarrow> input\<lparr>ob_at := now, ob_state := Sent, ob_attempts := 1, ob_deliveries := []\<rparr>)"
  using assms by (auto simp: ob_add_def Let_def)

text \<open>
  Retry waits start at half a second, never fall with more attempts, and stay at thirty
  seconds from the seventh failure on.
\<close>

theorem retryWait_bounds:
  "(1 \<le> n \<longrightarrow> 500 \<le> retryWait n) \<and> retryWait n \<le> MAX_BACKOFF_MS \<and> (m \<le> n \<longrightarrow> retryWait m \<le> retryWait n)
   \<and> (7 \<le> n \<longrightarrow> retryWait n = MAX_BACKOFF_MS)"
proof -
  have mono: "retryWait m \<le> retryWait n" if "m \<le> n" for m n
  proof -
    have "(2 :: nat) ^ min m 10 \<le> 2 ^ min n 10" using that by (intro power_increasing) auto
    then show ?thesis unfolding retryWait_def by (intro min.mono) simp_all
  qed
  have "retryWait 1 = 500" "retryWait 7 = MAX_BACKOFF_MS" by (simp_all add: retryWait_def)
  with mono [of 1 n] mono [of 7 n] mono [of m n] show ?thesis by (auto simp: retryWait_def)
qed

text \<open>
  Landing pairs each open row with at most one owner input of its text, not older than ten
  seconds before the row, and each input with at most one row, in the order of the rows; a row is
  left open only if every input that could be its own was used before or goes to another row.
\<close>

theorem land_pairs_match:
  assumes "land_pairs inputs used rs = ps"
  shows "(\<forall>(r, i) \<in> set ps. r \<in> set rs \<and> i \<in> set inputs \<and> oi_id i \<notin> set used
            \<and> js_trim (oi_text i) = js_trim (ob_text r) \<and> ob_at r - LAND_SLACK_MS \<le> oi_at i)
       \<and> distinct (map (oi_id \<circ> snd) ps) \<and> subseq (map fst ps) rs
       \<and> (\<forall>r i. r \<in> set rs \<and> r \<notin> fst ` set ps \<and> i \<in> set inputs \<and> js_trim (oi_text i) = js_trim (ob_text r)
            \<and> ob_at r - LAND_SLACK_MS \<le> oi_at i \<longrightarrow> oi_id i \<in> set used \<union> (oi_id \<circ> snd) ` set ps)"
  using land_pairs_used [of _ _ inputs used rs] land_pairs_distinct [of inputs used rs] land_pairs_rows [of inputs used rs]
    land_pairs_complete [of _ rs inputs used]
  unfolding assms sameText_def by fast

definition demo_row :: outbox_row where
  "demo_row = \<lparr>ob_requestId = ''q1'', ob_conversation = ''t/1'', ob_text = ''hello'', ob_images = [], ob_mentions = [], ob_whenBusySteer = True,
     ob_at = 0, ob_state = Sending, ob_attempts = 0, ob_error = None, ob_sentAt = None, ob_deliveries = [], ob_mentioned = False\<rparr>"

definition demo_outbox :: outbox where
  "demo_outbox = ob_start (outbox_load 0 None)"

lemma demo_added: "outbox_init demo_outbox" "outbox_step\<^sup>*\<^sup>* demo_outbox (fst (ob_add 5 demo_row demo_outbox))"
proof -
  show "outbox_init demo_outbox" by (auto simp: outbox_init_def demo_outbox_def)
  have "ox_inflight demo_outbox = {}" by (simp add: demo_outbox_def ob_start_def outbox_load_def Let_def)
  then show "outbox_step\<^sup>*\<^sup>* demo_outbox (fst (ob_add 5 demo_row demo_outbox))" by (intro r_into_rtranclp OxAdd) simp
qed

lemma demo_rows: "ox_rows (fst (ob_add 5 demo_row demo_outbox)) = [(''q1'', demo_row\<lparr>ob_at := 5\<rparr>)]"
  "ox_stopped (fst (ob_add 5 demo_row demo_outbox)) = False" "ox_inflight (fst (ob_add 5 demo_row demo_outbox)) = {}"
  by (simp_all add: demo_outbox_def ob_start_def outbox_load_def Let_def ob_add_def demo_row_def ob_schedule_def tell_def write_line_def)

lemma demo_row_fields: "ob_state demo_row = Sending" "ob_requestId demo_row = ''q1''"
  by (simp_all add: demo_row_def)

theorem outbox_restart_restores_witness:
  "ox_rows (outbox_load 9 (Some (ox_file (fst (ob_add 5 demo_row demo_outbox))))) = [(''q1'', demo_row\<lparr>ob_at := 5\<rparr>)]"
  using outbox_restart_restores [OF demo_added refl, of 9] by (simp add: demo_rows)

theorem outbox_no_stuck_send_witness:
  "ox_timers (fst (ob_add 5 demo_row demo_outbox)) ''q1'' \<noteq> None"
  using outbox_no_stuck_send [OF demo_added, of "''q1''" "demo_row\<lparr>ob_at := 5\<rparr>"] by (simp add: demo_rows demo_row_fields)

theorem outbox_add_repeated_witness:
  "fst (ob_add 9 demo_row (fst (ob_add 5 demo_row demo_outbox))) = fst (ob_add 5 demo_row demo_outbox)"
  using outbox_add_repeated [of "fst (ob_add 5 demo_row demo_outbox)" demo_row "demo_row\<lparr>ob_at := 5\<rparr>" 9] by (simp add: demo_rows demo_row_fields)

theorem retryWait_bounds_witness: "retryWait 9 = 30000 \<and> 500 \<le> retryWait 3"
  using retryWait_bounds [of 9 3] retryWait_bounds [of 3 3] by simp

theorem land_pairs_match_witness:
  "map (\<lambda>(r, i). (ob_requestId r, oi_id i)) (land_pairs [\<lparr>oi_id = ''e1'', oi_text = ''hello '', oi_at = 2\<rparr>] [] [demo_row, demo_row\<lparr>ob_requestId := ''q2''\<rparr>])
   = [(''q1'', ''e1'')]
   \<and> distinct (map (oi_id \<circ> snd) (land_pairs [\<lparr>oi_id = ''e1'', oi_text = ''hello '', oi_at = 2\<rparr>] [] [demo_row, demo_row\<lparr>ob_requestId := ''q2''\<rparr>]))"
proof
  show "map (\<lambda>(r, i). (ob_requestId r, oi_id i)) (land_pairs [\<lparr>oi_id = ''e1'', oi_text = ''hello '', oi_at = 2\<rparr>] [] [demo_row, demo_row\<lparr>ob_requestId := ''q2''\<rparr>])
   = [(''q1'', ''e1'')]" by code_simp
qed (use land_pairs_match [OF refl] in blast)

end
