(* ===== verification/LineDelta.thy ===== *)
theory LineDelta
  imports Prelude
begin

text \<open>
  The line deltas of the relay (\<open>components/prime-relay/line-delta.ts\<close>): a streamed
  \<open>message_update\<close> line is sent as copies of the session's previous update and inserted
  text. The differ and its inverse, the newline-framed transform that picks lines out of a
  chunked byte stream, and the two ends of the stream.

  A line is its text: the bytes are ASCII, so each byte is one code unit, the UTF-8 check of
  the encoder holds, and a head of 160 bytes is a head of 160 code units. A delta line is
  the value its JSON text stands for; its JSON text is written out where the encoder compares lengths.
\<close>

section \<open>Definitions\<close>

definition ANCHOR :: nat where "ANCHOR = 16"

definition SKIP_WINDOW :: nat where "SKIP_WINDOW = 256"

definition MAX_OPS :: nat where "MAX_OPS = 64"

definition HEAD_BYTES :: nat where "HEAD_BYTES = 160"

definition DELTA_TYPE :: string where "DELTA_TYPE = ''prime_relay_line_delta''"

datatype DeltaOp = Copy nat nat | Insert string

text \<open>\<open>slice(from, to)\<close> with non-negative bounds, and \<open>indexOf(pat, at)\<close> for \<open>at\<close> inside the text.\<close>

definition slice :: "string \<Rightarrow> nat \<Rightarrow> nat \<Rightarrow> string" where
  "slice s i j = take (j - i) (drop i s)"

fun index_of :: "string \<Rightarrow> string \<Rightarrow> nat option" where
  "index_of pat [] = (if pat = [] then Some 0 else None)"
| "index_of pat (c # cs) = (if prefix pat (c # cs) then Some 0 else map_option Suc (index_of pat cs))"

definition indexOf :: "string \<Rightarrow> string \<Rightarrow> nat \<Rightarrow> nat option" where
  "indexOf s pat i = map_option (\<lambda>k. i + k) (index_of pat (drop i s))"

text \<open>\<open>sameRun\<close>: how far base from \<open>frm\<close> and line from \<open>at\<close> agree before either end.\<close>

function sameRun_loop :: "string \<Rightarrow> nat \<Rightarrow> nat \<Rightarrow> string \<Rightarrow> nat \<Rightarrow> nat \<Rightarrow> nat \<Rightarrow> nat" where
  "sameRun_loop base frm baseEnd line at lineEnd n =
     (if frm + n < baseEnd \<and> at + n < lineEnd \<and> base ! (frm + n) = line ! (at + n)
      then sameRun_loop base frm baseEnd line at lineEnd (Suc n) else n)"
  by pat_completeness auto
termination
  by (relation "measure (\<lambda>(base, frm, baseEnd, line, at, lineEnd, n). baseEnd - (frm + n))") auto

definition sameRun :: "string \<Rightarrow> nat \<Rightarrow> nat \<Rightarrow> string \<Rightarrow> nat \<Rightarrow> nat \<Rightarrow> nat" where
  "sameRun base frm baseEnd line at lineEnd = sameRun_loop base frm baseEnd line at lineEnd 0"

declare sameRun_loop.simps [simp del]

text \<open>\<open>resync\<close>: the next \<open>(at, from)\<close> where both agree for \<^const>\<open>ANCHOR\<close> characters.\<close>

function resync_skip :: "string \<Rightarrow> nat \<Rightarrow> nat \<Rightarrow> string \<Rightarrow> nat \<Rightarrow> nat \<Rightarrow> nat \<Rightarrow> (nat \<times> nat) option" where
  "resync_skip base frm baseEnd line at lineEnd skip =
     (if skip \<le> SKIP_WINDOW \<and> at + skip + ANCHOR \<le> lineEnd then
        (case indexOf base (slice line (at + skip) (at + skip + ANCHOR)) frm of
           Some found \<Rightarrow>
             if found + ANCHOR \<le> baseEnd then Some (at + skip, found)
             else resync_skip base frm baseEnd line at lineEnd (skip + 4)
         | None \<Rightarrow> resync_skip base frm baseEnd line at lineEnd (skip + 4))
      else None)"
  by pat_completeness auto
termination
  by (relation "measure (\<lambda>(base, frm, baseEnd, line, at, lineEnd, skip). Suc SKIP_WINDOW - skip)") auto

declare resync_skip.simps [simp del]

definition resync :: "string \<Rightarrow> nat \<Rightarrow> nat \<Rightarrow> string \<Rightarrow> nat \<Rightarrow> nat \<Rightarrow> (nat \<times> nat) option" where
  "resync base frm baseEnd line at lineEnd =
     (case (if frm + ANCHOR \<le> baseEnd then indexOf line (slice base frm (frm + ANCHOR)) at else None) of
        Some found \<Rightarrow>
          if found + ANCHOR \<le> lineEnd then Some (found, frm)
          else resync_skip base frm baseEnd line at lineEnd 0
      | None \<Rightarrow> resync_skip base frm baseEnd line at lineEnd 0)"

subsection \<open>What a run and an anchor are\<close>

lemma sameRun_loop_props:
  assumes "sameRun_loop base frm baseEnd line at lineEnd n = m"
  shows "n \<le> m \<and> (\<forall>i. n \<le> i \<and> i < m \<longrightarrow> frm + i < baseEnd \<and> at + i < lineEnd \<and> base ! (frm + i) = line ! (at + i))
       \<and> \<not> (frm + m < baseEnd \<and> at + m < lineEnd \<and> base ! (frm + m) = line ! (at + m))"
  using assms
proof (induction base frm baseEnd line at lineEnd n rule: sameRun_loop.induct)
  case (1 base frm baseEnd line at lineEnd n)
  show ?case
  proof (cases "frm + n < baseEnd \<and> at + n < lineEnd \<and> base ! (frm + n) = line ! (at + n)")
    case True
    with "1.prems" have "sameRun_loop base frm baseEnd line at lineEnd (Suc n) = m"
      by (simp add: sameRun_loop.simps [of _ _ _ _ _ _ n])
    from "1.IH" [OF True this] True show ?thesis
      by (metis Suc_leD le_antisym not_less_eq_eq)
  next
    case False
    with "1.prems" have "m = n" by (simp add: sameRun_loop.simps [of _ _ _ _ _ _ n])
    with False show ?thesis by auto
  qed
qed

lemma sameRun_agree:
  "i < sameRun base frm baseEnd line at lineEnd \<Longrightarrow>
   frm + i < baseEnd \<and> at + i < lineEnd \<and> base ! (frm + i) = line ! (at + i)"
  using sameRun_loop_props [where n = 0 and base = base and frm = frm and baseEnd = baseEnd and line = line and at = at and lineEnd = lineEnd, OF refl] by (simp add: sameRun_def)

lemma sameRun_maximal:
  "sameRun base frm baseEnd line at lineEnd = m \<Longrightarrow>
   sameRun base (frm + m) baseEnd line (at + m) lineEnd = 0"
  using sameRun_loop_props [where n = 0 and base = base and frm = frm and baseEnd = baseEnd and line = line and at = at and lineEnd = lineEnd, OF refl]
  by (subst sameRun_def, subst sameRun_loop.simps) (auto simp: sameRun_def)

lemma sameRun_ge:
  assumes "\<And>i. i < k \<Longrightarrow> frm + i < baseEnd \<and> at + i < lineEnd \<and> base ! (frm + i) = line ! (at + i)"
  shows "k \<le> sameRun base frm baseEnd line at lineEnd"
  using assms sameRun_loop_props [where n = 0 and base = base and frm = frm and baseEnd = baseEnd and line = line and at = at and lineEnd = lineEnd, OF refl]
  by (metis not_less sameRun_def)

lemma index_of_Some: "index_of pat s = Some k \<Longrightarrow> prefix pat (drop k s)"
  by (induction pat s arbitrary: k rule: index_of.induct) (auto split: if_splits)

lemma indexOf_Some: "indexOf s pat i = Some k \<Longrightarrow> i \<le> k \<and> prefix pat (drop k s)"
  by (auto simp: indexOf_def add.commute dest: index_of_Some)

lemma anchor_agree:
  assumes p: "prefix (slice s i (i + ANCHOR)) (drop k t)" and s: "i + ANCHOR \<le> length s"
    and j: "j < ANCHOR"
  shows "s ! (i + j) = t ! (k + j)"
proof -
  have len: "length (slice s i (i + ANCHOR)) = ANCHOR" using s by (simp add: slice_def)
  obtain r where r: "drop k t = slice s i (i + ANCHOR) @ r" using p by (auto simp: prefix_def)
  then have kt: "k + ANCHOR \<le> length t"
    using len by (metis ANCHOR_def add.commute drop_eq_Nil2 le_add1 length_append length_drop le_diff_conv2 nat_le_linear append_is_Nil_conv list.size(3) zero_neq_numeral)
  have "t ! (k + j) = drop k t ! j" using kt by simp
  also have "\<dots> = slice s i (i + ANCHOR) ! j" using r len j by (simp add: nth_append)
  also have "\<dots> = s ! (i + j)" using s j by (simp add: slice_def)
  finally show ?thesis by simp
qed

lemma resync_skip_Some:
  "resync_skip base frm baseEnd line at lineEnd skip = Some (a, f) \<Longrightarrow> lineEnd \<le> length line \<Longrightarrow>
   at \<le> a \<and> frm \<le> f \<and> a + ANCHOR \<le> lineEnd \<and> f + ANCHOR \<le> baseEnd \<and> (\<forall>i < ANCHOR. base ! (f + i) = line ! (a + i))"
proof (induction base frm baseEnd line at lineEnd skip rule: resync_skip.induct)
  case (1 base frm baseEnd line at lineEnd skip)
  let ?go = "resync_skip base frm baseEnd line at lineEnd (skip + 4)"
  let ?hit = "indexOf base (slice line (at + skip) (at + skip + ANCHOR)) frm"
  have c: "skip \<le> SKIP_WINDOW \<and> at + skip + ANCHOR \<le> lineEnd"
    using "1.prems" by (subst (asm) resync_skip.simps) (simp split: if_splits)
  show ?case
  proof (cases "\<exists>k. ?hit = Some k \<and> k + ANCHOR \<le> baseEnd")
    case True
    then obtain k where k: "?hit = Some k" "k + ANCHOR \<le> baseEnd" by blast
    then have "a = at + skip" "f = k"
      using "1.prems" c by (subst (asm) resync_skip.simps, simp)+
    with k c indexOf_Some [OF k(1)] anchor_agree [of line "at + skip" k base] "1.prems"(2) show ?thesis
      by auto
  next
    case False
    then have "?go = Some (a, f)"
      using "1.prems" c by (subst (asm) resync_skip.simps) (auto split: option.splits if_splits)
    then show ?thesis using "1.IH" [OF c] False "1.prems"(2) by (cases ?hit) auto
  qed
qed

lemma resync_Some:
  assumes r: "resync base frm baseEnd line at lineEnd = Some (a, f)"
    and len: "lineEnd \<le> length line" "baseEnd \<le> length base"
  shows "at \<le> a \<and> frm \<le> f \<and> a + ANCHOR \<le> lineEnd \<and> f + ANCHOR \<le> baseEnd \<and> (\<forall>i < ANCHOR. base ! (f + i) = line ! (a + i))"
proof (cases "resync_skip base frm baseEnd line at lineEnd 0 = Some (a, f)")
  case True
  then show ?thesis using resync_skip_Some len by blast
next
  case False
  then have f: "frm + ANCHOR \<le> baseEnd" "f = frm" "indexOf line (slice base frm (frm + ANCHOR)) at = Some a" "a + ANCHOR \<le> lineEnd"
    using r by (auto simp: resync_def split: option.splits if_splits)
  then show ?thesis using indexOf_Some [OF f(3)] anchor_agree [of base frm a line] len by auto
qed

lemma resync_runs:
  assumes "resync base frm baseEnd line at lineEnd = Some (a, f)" "lineEnd \<le> length line" "baseEnd \<le> length base"
  shows "ANCHOR \<le> sameRun base f baseEnd line a lineEnd"
  using resync_Some [OF assms] by (intro sameRun_ge) auto

lemma ANCHOR_pos: "0 < ANCHOR"
  by (simp add: ANCHOR_def)

section \<open>The differ\<close>

text \<open>
  The loop of \<open>diffLine\<close>. It ends because a hit of \<open>resync\<close> is followed by a run of at least
  \<^const>\<open>ANCHOR\<close> characters, even when the hit itself does not move \<open>at\<close>. The ends are those of
  the two lines less their common suffix, so they lie inside them.
\<close>

function diff_loop :: "string \<Rightarrow> nat \<Rightarrow> string \<Rightarrow> nat \<Rightarrow> nat \<Rightarrow> nat \<Rightarrow> DeltaOp list \<Rightarrow> DeltaOp list" where
  "diff_loop base baseEnd line lineEnd at frm ops =
     (if at < lineEnd \<and> lineEnd \<le> length line \<and> baseEnd \<le> length base then
        (let run = sameRun base frm baseEnd line at lineEnd in
         if run \<ge> ANCHOR \<or> run > 0 \<and> at = 0
         then diff_loop base baseEnd line lineEnd (at + run) (frm + run) (ops @ [Copy frm run])
         else (case (if length ops < MAX_OPS then resync base frm baseEnd line at lineEnd else None) of
                 None \<Rightarrow> ops @ [Insert (slice line at lineEnd)]
               | Some (a, f) \<Rightarrow>
                   diff_loop base baseEnd line lineEnd a f (if a > at then ops @ [Insert (slice line at a)] else ops)))
      else ops)"
  by pat_completeness auto

termination
proof (relation "measures [\<lambda>(base, baseEnd, line, lineEnd, at, frm, ops). lineEnd - at,
    \<lambda>(base, baseEnd, line, lineEnd, at, frm, ops). if ANCHOR \<le> sameRun base frm baseEnd line at lineEnd then 0 else 1]", goal_cases)
  case (2 base baseEnd line lineEnd at frm ops run)
  then have "0 < run" using ANCHOR_pos by auto
  then show ?case using 2 by auto
next
  case (3 base baseEnd line lineEnd at frm ops run hit a f)
  then have hit: "resync base frm baseEnd line at lineEnd = Some (a, f)" by (auto split: if_splits)
  have "ANCHOR \<le> sameRun base f baseEnd line a lineEnd" using resync_runs [OF hit] 3 by auto
  moreover have "at \<le> a" using resync_Some [OF hit] 3 by auto
  ultimately show ?case using 3 by auto
qed simp

declare diff_loop.simps [simp del]

function suffix_loop :: "string \<Rightarrow> string \<Rightarrow> nat \<Rightarrow> nat" where
  "suffix_loop base line sfx =
     (if sfx < min (length base) (length line) \<and> base ! (length base - 1 - sfx) = line ! (length line - 1 - sfx)
      then suffix_loop base line (Suc sfx) else sfx)"
  by pat_completeness auto
termination
  by (relation "measure (\<lambda>(base, line, sfx). length base - sfx)") auto

declare suffix_loop.simps [simp del]

definition diffLine :: "string \<Rightarrow> string \<Rightarrow> DeltaOp list" where
  "diffLine base line =
     (let sfx = suffix_loop base line 0;
          ops = diff_loop base (length base - sfx) line (length line - sfx) 0 0 []
      in if sfx > 0 then ops @ [Copy (length base - sfx) sfx] else ops)"

definition apply_op :: "string \<Rightarrow> DeltaOp \<Rightarrow> string" where
  "apply_op base op = (case op of Insert s \<Rightarrow> s | Copy start len \<Rightarrow> slice base start (start + len))"

definition applyOps :: "string \<Rightarrow> DeltaOp list \<Rightarrow> string" where
  "applyOps base ops = foldl (\<lambda>line op. line @ apply_op base op) [] ops"

subsection \<open>Round trip\<close>

lemma applyOps_Nil [simp]: "applyOps base [] = []"
  by (simp add: applyOps_def)

lemma applyOps_snoc [simp]: "applyOps base (ops @ [op]) = applyOps base ops @ apply_op base op"
  by (simp add: applyOps_def)

lemma take_slice: "i \<le> j \<Longrightarrow> take i s @ slice s i j = take j s"
  by (metis le_add_diff_inverse slice_def take_add)

lemma slice_eqI:
  assumes "i + n \<le> length s" "k + n \<le> length t" "\<And>j. j < n \<Longrightarrow> s ! (i + j) = t ! (k + j)"
  shows "slice s i (i + n) = slice t k (k + n)"
  using assms by (intro nth_equalityI) (auto simp: slice_def)

lemma run_copy:
  assumes "lineEnd \<le> length line" "baseEnd \<le> length base" "sameRun base frm baseEnd line at lineEnd = run" "0 < run"
  shows "at + run \<le> lineEnd \<and> frm + run \<le> baseEnd \<and> slice base frm (frm + run) = slice line at (at + run)"
proof -
  have e: "frm + (run - 1) < baseEnd" "at + (run - 1) < lineEnd"
    using sameRun_agree [of "run - 1" base frm baseEnd line at lineEnd] assms by auto
  then have "slice base frm (frm + run) = slice line at (at + run)"
    using assms sameRun_agree [of _ base frm baseEnd line at lineEnd] by (intro slice_eqI) auto
  then show ?thesis using e \<open>0 < run\<close> by linarith
qed

lemma diff_loop_step:
  assumes b: "lineEnd \<le> length line" "baseEnd \<le> length base" and lt: "at < lineEnd"
  obtains (run) run where "sameRun base frm baseEnd line at lineEnd = run" "0 < run"
      "diff_loop base baseEnd line lineEnd at frm ops = diff_loop base baseEnd line lineEnd (at + run) (frm + run) (ops @ [Copy frm run])"
  | (rest) "diff_loop base baseEnd line lineEnd at frm ops = ops @ [Insert (slice line at lineEnd)]"
  | (hit) a f where "sameRun base frm baseEnd line at lineEnd < ANCHOR" "length ops < MAX_OPS" "resync base frm baseEnd line at lineEnd = Some (a, f)"
      "diff_loop base baseEnd line lineEnd at frm ops = diff_loop base baseEnd line lineEnd a f (if a > at then ops @ [Insert (slice line at a)] else ops)"
proof -
  let ?run = "sameRun base frm baseEnd line at lineEnd"
  let ?hit = "if length ops < MAX_OPS then resync base frm baseEnd line at lineEnd else None"
  note unf = diff_loop.simps [of base baseEnd line lineEnd at frm ops]
  show thesis
  proof (cases "?run \<ge> ANCHOR \<or> ?run > 0 \<and> at = 0")
    case True
    then show thesis using run [OF refl] unf b lt ANCHOR_pos by (auto simp: Let_def)
  next
    case False
    show thesis
    proof (cases ?hit)
      case None
      then show thesis using rest unf b lt False by (simp add: Let_def)
    next
      case (Some p)
      obtain a f where p: "p = (a, f)" by fastforce
      have r: "length ops < MAX_OPS" "resync base frm baseEnd line at lineEnd = Some (a, f)"
        using Some p by (auto split: if_splits)
      have "diff_loop base baseEnd line lineEnd at frm ops =
          diff_loop base baseEnd line lineEnd a f (if a > at then ops @ [Insert (slice line at a)] else ops)"
        using unf b lt False r by (simp add: Let_def)
      with r False show thesis by (intro hit) auto
    qed
  qed
qed

lemma diff_loop_invariant:
  assumes b: "lineEnd \<le> length line" "baseEnd \<le> length base"
    and run: "\<And>at frm ops run. I at frm ops \<Longrightarrow> at < lineEnd \<Longrightarrow> sameRun base frm baseEnd line at lineEnd = run \<Longrightarrow> 0 < run
      \<Longrightarrow> I (at + run) (frm + run) (ops @ [Copy frm run])"
    and hit: "\<And>at frm ops a f. I at frm ops \<Longrightarrow> at < lineEnd \<Longrightarrow> length ops < MAX_OPS \<Longrightarrow> resync base frm baseEnd line at lineEnd = Some (a, f)
      \<Longrightarrow> I a f (if a > at then ops @ [Insert (slice line at a)] else ops)"
    and rest: "\<And>at frm ops. I at frm ops \<Longrightarrow> at < lineEnd \<Longrightarrow> Q (ops @ [Insert (slice line at lineEnd)])"
    and stop: "\<And>at frm ops. I at frm ops \<Longrightarrow> \<not> at < lineEnd \<Longrightarrow> Q ops"
    and init: "I at frm ops"
  shows "Q (diff_loop base baseEnd line lineEnd at frm ops)"
proof -
  let ?m = "\<lambda>(at, frm, ops :: DeltaOp list). lineEnd - at"
  let ?n = "\<lambda>(at, frm, ops :: DeltaOp list). if ANCHOR \<le> sameRun base frm baseEnd line at lineEnd then 0 else 1 :: nat"
  have "I (fst x) (fst (snd x)) (snd (snd x)) \<Longrightarrow> Q (diff_loop base baseEnd line lineEnd (fst x) (fst (snd x)) (snd (snd x)))" for x
  proof (induction x rule: wf_induct_rule [OF wf_measures [of "[?m, ?n]"]])
    case (1 x)
    obtain at frm ops where x: "x = (at, frm, ops)" by (cases x)
    have I: "I at frm ops" using 1(2) x by simp
    show ?case
    proof (cases "at < lineEnd")
      case True
      show ?thesis
        using b True
      proof (cases rule: diff_loop_step [of lineEnd line baseEnd base at frm ops])
        case (run run)
        have "((at + run, frm + run, ops @ [Copy frm run]), x) \<in> measures [?m, ?n]" using x True run by auto
        from 1(1) [OF this] run assms(3) [OF I True run(1,2)] x show ?thesis by simp
      next
        case rest
        with assms(5) [OF I True] x show ?thesis by simp
      next
        case (hit a f)
        let ?o = "if a > at then ops @ [Insert (slice line at a)] else ops"
        have "((a, f, ?o), x) \<in> measures [?m, ?n]" using x True hit resync_Some [OF hit(3) b] resync_runs [OF hit(3) b] by auto
        from 1(1) [OF this] hit assms(4) [OF I True hit(2,3)] x show ?thesis by simp
      qed
    next
      case False
      then show ?thesis using assms(6) [OF I] x by (simp add: diff_loop.simps)
    qed
  qed
  from this [of "(at, frm, ops)"] init show ?thesis by simp
qed


lemma diff_loop_applies:
  assumes "lineEnd \<le> length line" "baseEnd \<le> length base"
  shows "applyOps base (diff_loop base baseEnd line lineEnd 0 0 []) = take lineEnd line"
proof (rule diff_loop_invariant [OF assms, where I = "\<lambda>at frm ops. at \<le> lineEnd \<and> applyOps base ops = take at line"])
  fix at frm ops run
  assume *: "at \<le> lineEnd \<and> applyOps base ops = take at line" "sameRun base frm baseEnd line at lineEnd = run" "0 < run"
  show "at + run \<le> lineEnd \<and> applyOps base (ops @ [Copy frm run]) = take (at + run) line"
    using run_copy [OF assms *(2,3)] *(1) take_slice [of at "at + run" line] by (simp add: apply_op_def)
next
  fix at frm ops a f
  assume *: "at \<le> lineEnd \<and> applyOps base ops = take at line" "resync base frm baseEnd line at lineEnd = Some (a, f)"
  show "a \<le> lineEnd \<and> applyOps base (if a > at then ops @ [Insert (slice line at a)] else ops) = take a line"
    using resync_Some [OF *(2) assms] *(1) take_slice [of at a line] by (auto simp: apply_op_def)
next
  fix at frm :: nat and ops
  assume "at \<le> lineEnd \<and> applyOps base ops = take at line" "at < lineEnd"
  then show "applyOps base (ops @ [Insert (slice line at lineEnd)]) = take lineEnd line"
    using take_slice [of at lineEnd line] by (simp add: apply_op_def)
qed auto

lemma suffix_loop_props:
  assumes "sfx \<le> min (length base) (length line)" "\<forall>i < sfx. base ! (length base - 1 - i) = line ! (length line - 1 - i)"
  shows "suffix_loop base line sfx \<le> min (length base) (length line) \<and>
    (\<forall>i < suffix_loop base line sfx. base ! (length base - 1 - i) = line ! (length line - 1 - i))"
  using assms
proof (induction base line sfx rule: suffix_loop.induct)
  case (1 base line sfx)
  show ?case
  proof (cases "sfx < min (length base) (length line) \<and> base ! (length base - 1 - sfx) = line ! (length line - 1 - sfx)")
    case True
    then have "\<forall>i < Suc sfx. base ! (length base - 1 - i) = line ! (length line - 1 - i)"
      using "1.prems"(2) less_Suc_eq by auto
    with "1.IH" [OF True] True show ?thesis by (subst (1 2) suffix_loop.simps) auto
  next
    case False
    then have "suffix_loop base line sfx = sfx" by (subst suffix_loop.simps) auto
    with "1.prems" show ?thesis by simp
  qed
qed

lemma suffix_copy:
  assumes "suffix_loop base line 0 = n"
  shows "n \<le> length base" "n \<le> length line" "drop (length base - n) base = drop (length line - n) line"
proof -
  have p: "n \<le> min (length base) (length line)" "\<forall>i < n. base ! (length base - 1 - i) = line ! (length line - 1 - i)"
    using suffix_loop_props [of 0 base line] assms by auto
  then show "n \<le> length base" "n \<le> length line" by auto
  have "base ! (length base - n + j) = line ! (length line - n + j)" if "j < n" for j
    using p(2) [rule_format, of "n - 1 - j"] p(1) that by (simp add: Suc_diff_Suc algebra_simps)
  then show "drop (length base - n) base = drop (length line - n) line"
    using p(1) by (intro nth_equalityI) auto
qed

text \<open>
  C14. A delta rebuilds the line it was made from: \<open>applyOps\<close> of the operations \<open>diffLine\<close> gives, on
  the same base, is the line, whatever the two lines are. In particular the search loop returns.
\<close>
theorem diffLine_roundtrip: "applyOps base (diffLine base line) = line"
proof -
  obtain n where n: "suffix_loop base line 0 = n" by blast
  note sfx = suffix_copy [OF n]
  have ops: "applyOps base (diff_loop base (length base - n) line (length line - n) 0 0 []) = take (length line - n) line"
    by (rule diff_loop_applies) auto
  have "slice base (length base - n) (length base - n + n) = drop (length line - n) line"
    using sfx by (simp add: slice_def)
  with ops n sfx show ?thesis by (auto simp: diffLine_def Let_def apply_op_def)
qed

text \<open>
  A delta has at most 67 operations: after the 64th the differ stops looking for anchors, and only
  the run at the last anchor, the rest of the line and the common suffix are still added.
\<close>
theorem diffLine_bounded: "length (diffLine base line) \<le> MAX_OPS + 3"
proof -
  let ?n = "suffix_loop base line 0"
  let ?be = "length base - ?n" and ?le = "length line - ?n"
  let ?I = "\<lambda>at frm (ops :: DeltaOp list). length ops \<le> (if sameRun base frm ?be line at ?le = 0 then MAX_OPS + 1 else MAX_OPS)"
  have "length (diff_loop base ?be line ?le 0 0 []) \<le> MAX_OPS + 2"
  proof (rule diff_loop_invariant [where I = ?I])
    fix at frm ops run
    assume "?I at frm ops" "sameRun base frm ?be line at ?le = run" "0 < run"
    then show "?I (at + run) (frm + run) (ops @ [Copy frm run])"
      using sameRun_maximal [of base frm ?be line at ?le run] by simp
  qed (auto split: if_splits)
  then show ?thesis by (cases "?n = 0") (simp_all add: diffLine_def Let_def)
qed


section \<open>The newline-framed transform\<close>

text \<open>
  \<open>lineTransform\<close>: between chunks it keeps the mode and the held bytes; \<open>swap\<close> has a state of
  its own (the base lines) and may throw. What a call pushes is the concatenation of its pieces.
\<close>

datatype mode = Start | Pass | Hold

record 's framing =
  fr_mode :: mode
  fr_pending :: string
  fr_swap :: 's

definition NEWLINE :: char where "NEWLINE = CHR 10"

fun next_piece :: "string \<Rightarrow> string \<times> string \<times> bool" where
  "next_piece [] = ([], [], False)"
| "next_piece (c # cs) =
     (if c = NEWLINE then ([c], cs, True)
      else (case next_piece cs of (p, r, e) \<Rightarrow> (c # p, r, e)))"

definition take_piece :: "(string \<Rightarrow> bool) \<Rightarrow> ('s \<Rightarrow> string \<Rightarrow> (string \<times> 's) res) \<Rightarrow> 's framing \<Rightarrow> string \<Rightarrow> bool \<Rightarrow> (string \<times> 's framing) res" where
  "take_piece wants swap st piece ended =
     (if fr_mode st = Pass then Inr (piece, if ended then st\<lparr>fr_mode := Start\<rparr> else st)
      else (let held = fr_pending st @ piece in
        if ended then
          (if fr_mode st = Hold \<or> wants (take HEAD_BYTES held)
           then rbind (swap (fr_swap st) held) (\<lambda>(out, sw). Inr (out, \<lparr>fr_mode = Start, fr_pending = [], fr_swap = sw\<rparr>))
           else Inr (held, st\<lparr>fr_mode := Start, fr_pending := []\<rparr>))
        else if fr_mode st = Start \<and> length held \<ge> HEAD_BYTES then
          (if wants (take HEAD_BYTES held) then Inr ([], st\<lparr>fr_mode := Hold, fr_pending := held\<rparr>)
           else Inr (held, st\<lparr>fr_mode := Pass, fr_pending := []\<rparr>))
        else Inr ([], st\<lparr>fr_pending := held\<rparr>)))"

lemma next_piece_append: "next_piece s = (p, r, e) \<Longrightarrow> s = p @ r"
  by (induction s arbitrary: p r e) (auto split: if_splits prod.splits)

lemma next_piece_pos: "next_piece (c # cs) = (p, r, e) \<Longrightarrow> p \<noteq> []"
  by (auto split: if_splits prod.splits)

lemma next_piece_less: "next_piece (c # cs) = (p, r, e) \<Longrightarrow> length r < Suc (length cs)"
  using next_piece_append [of "c # cs" p r e] next_piece_pos [of c cs p r e]
  by (metis add_less_cancel_right append_Nil impossible_Cons length_Cons length_append length_greater_0_conv less_add_same_cancel2 not_less)

function transform :: "(string \<Rightarrow> bool) \<Rightarrow> ('s \<Rightarrow> string \<Rightarrow> (string \<times> 's) res) \<Rightarrow> 's framing \<Rightarrow> string \<Rightarrow> (string \<times> 's framing) res" where
  "transform wants swap st [] = Inr ([], st)"
| "transform wants swap st (c # cs) =
     (case next_piece (c # cs) of (piece, rest, ended) \<Rightarrow>
        rbind (take_piece wants swap st piece ended) (\<lambda>(out, st').
        rbind (transform wants swap st' rest) (\<lambda>(out', st''). Inr (out @ out', st''))))"
  by pat_completeness auto
termination
proof (relation "measure (\<lambda>(w, s, st, data). length data)", goal_cases)
  case (2 wants swap st c cs piece y rest ended)
  then have "next_piece (c # cs) = (piece, rest, ended)" by simp
  from next_piece_less [OF this] show ?case by simp
qed simp

definition flush :: "'s framing \<Rightarrow> string" where
  "flush st = fr_pending st"

text \<open>A stage of a stream: what it makes of the chunks in turn, and at the end what it still holds.\<close>

fun run_chunks :: "('st \<Rightarrow> string \<Rightarrow> (string \<times> 'st) res) \<Rightarrow> 'st \<Rightarrow> string list \<Rightarrow> (string \<times> 'st) res" where
  "run_chunks f st [] = Inr ([], st)"
| "run_chunks f st (c # cs) =
     rbind (f st c) (\<lambda>(out, st'). rbind (run_chunks f st' cs) (\<lambda>(out', st''). Inr (out @ out', st'')))"

text \<open>The law of a stage that cannot see where its input was cut.\<close>

locale cut_blind =
  fixes f :: "'st \<Rightarrow> string \<Rightarrow> (string \<times> 'st) res" and ok :: "'st \<Rightarrow> bool"
  assumes cut_nil: "f st [] = Inr ([], st)"
    and glue: "ok st \<Longrightarrow> f st (a @ b) = rbind (f st a) (\<lambda>(out, st'). rbind (f st' b) (\<lambda>(out', st''). Inr (out @ out', st'')))"
    and keeps: "ok st \<Longrightarrow> f st a = Inr (out, st') \<Longrightarrow> ok st'"
begin

lemma run_chunks_concat: "ok st \<Longrightarrow> run_chunks f st cs = f st (concat cs)"
proof (induction cs arbitrary: st)
  case Nil
  show ?case using cut_nil [of st] by simp
next
  case (Cons c cs)
  have "run_chunks f st' cs = f st' (concat cs)" if "f st c = Inr (out, st')" for out st'
    using Cons.IH keeps [OF Cons.prems that] .
  then show ?case using glue [OF Cons.prems, of c "concat cs"] by (cases "f st c") auto
qed

lemma cuts_do_not_matter: "ok st \<Longrightarrow> concat cs = concat ds \<Longrightarrow> run_chunks f st cs = run_chunks f st ds"
  by (simp add: run_chunks_concat)

end

text \<open>What the framing is between chunks: a passed line holds nothing, a line not yet decided is shorter than its head, a held one is wanted.\<close>

definition framing_ok :: "(string \<Rightarrow> bool) \<Rightarrow> 's framing \<Rightarrow> bool" where
  "framing_ok wants st \<longleftrightarrow> (case fr_mode st of
     Start \<Rightarrow> length (fr_pending st) < HEAD_BYTES
   | Pass \<Rightarrow> fr_pending st = []
   | Hold \<Rightarrow> HEAD_BYTES \<le> length (fr_pending st) \<and> wants (take HEAD_BYTES (fr_pending st)))"

lemma take_piece_ok:
  assumes "framing_ok wants st" "take_piece wants swap st p e = Inr (out, st')"
  shows "framing_ok wants st'"
  using assms
  by (auto simp: take_piece_def framing_ok_def Let_def HEAD_BYTES_def split: if_splits mode.splits prod.splits)

lemma take_piece_cut:
  assumes "framing_ok wants st" "take_piece wants swap st a False = Inr (out, st')"
  shows "take_piece wants swap st (a @ b) e = rbind (take_piece wants swap st' b e) (\<lambda>(out', st''). Inr (out @ out', st''))"
proof (cases "fr_mode st")
  case Pass
  then show ?thesis using assms by (simp add: take_piece_def)
next
  case Hold
  then have "out = []" "st' = st\<lparr>fr_pending := fr_pending st @ a\<rparr>" using assms by (auto simp: take_piece_def)
  then show ?thesis using Hold
    by (auto simp: take_piece_def Let_def rbind_def split: sum.splits prod.splits)
next
  case Start
  show ?thesis
  proof (cases "HEAD_BYTES \<le> length (fr_pending st @ a)")
    case False
    then have "out = []" "st' = st\<lparr>fr_pending := fr_pending st @ a\<rparr>" using assms Start by (auto simp: take_piece_def)
    then show ?thesis using Start
      by (auto simp: take_piece_def Let_def rbind_def split: sum.splits prod.splits)
  next
    case True
    then have head: "take HEAD_BYTES (fr_pending st @ a @ b) = take HEAD_BYTES (fr_pending st @ a)" by simp
    then show ?thesis
    proof (cases "wants (take HEAD_BYTES (fr_pending st @ a))")
      case w: True
      then have "out = []" "st' = st\<lparr>fr_mode := Hold, fr_pending := fr_pending st @ a\<rparr>"
        using assms Start True by (auto simp: take_piece_def)
      then show ?thesis using Start True w head
        by (auto simp: take_piece_def Let_def rbind_def split: sum.splits prod.splits)
    next
      case w: False
      then have "out = fr_pending st @ a" "st' = st\<lparr>fr_mode := Pass, fr_pending := []\<rparr>"
        using assms Start True by (auto simp: take_piece_def)
      then show ?thesis using Start True w head by (auto simp: take_piece_def)
    qed
  qed
qed

lemma next_piece_glue:
  "next_piece a = (p, r, e) \<Longrightarrow>
   next_piece (a @ b) = (if e then (p, r @ b, True) else (case next_piece b of (p', r', e') \<Rightarrow> (p @ p', r', e')))"
  by (induction a arbitrary: p r e) (auto split: if_splits prod.splits)

lemma next_piece_unended: "next_piece a = (p, r, False) \<Longrightarrow> p = a \<and> r = []"
  by (induction a arbitrary: p r) (auto split: if_splits prod.splits)

lemma take_piece_unended: "\<exists>out st'. take_piece wants swap st a False = Inr (out, st')"
  by (simp add: take_piece_def Let_def)

lemma take_piece_empty: "framing_ok wants st \<Longrightarrow> take_piece wants swap st [] False = Inr ([], st)"
  by (auto simp: take_piece_def framing_ok_def Let_def split: mode.splits)

lemma transform_unfold:
  "framing_ok wants st \<Longrightarrow> transform wants swap st s =
     (case next_piece s of (piece, rest, ended) \<Rightarrow>
        rbind (take_piece wants swap st piece ended) (\<lambda>(out, st').
        rbind (transform wants swap st' rest) (\<lambda>(out', st''). Inr (out @ out', st''))))"
  by (cases s) (simp_all add: take_piece_empty del: next_piece.simps(2))

lemma transform_ok:
  "framing_ok wants st \<Longrightarrow> transform wants swap st s = Inr (out, st') \<Longrightarrow> framing_ok wants st'"
proof (induction wants swap st s arbitrary: out st' rule: transform.induct)
  case (2 wants swap st c cs)
  obtain p r e where n: "next_piece (c # cs) = (p, r, e)" by (metis prod_cases3)
  then obtain o1 s1 o2 where "take_piece wants swap st p e = Inr (o1, s1)" "transform wants swap s1 r = Inr (o2, st')"
    using "2.prems"(2) by (auto simp del: next_piece.simps split: prod.splits)
  then show ?case using "2.IH" [OF n [symmetric] refl] take_piece_ok "2.prems"(1) by metis
qed simp

lemma transform_glue:
  "framing_ok wants st \<Longrightarrow> transform wants swap st (a @ b) =
     rbind (transform wants swap st a) (\<lambda>(out, st'). rbind (transform wants swap st' b) (\<lambda>(out', st''). Inr (out @ out', st'')))"
proof (induction "length a" arbitrary: a st rule: less_induct)
  case less
  obtain p r e where n: "next_piece a = (p, r, e)" by (metis prod_cases3)
  show ?case
  proof (cases e)
    case True
    then obtain c cs where "a = c # cs" using n by (cases a) auto
    then have "length r < length a" using next_piece_less n by auto
    then have IH: "framing_ok wants st' \<Longrightarrow> transform wants swap st' (r @ b) =
       rbind (transform wants swap st' r) (\<lambda>(out, st'). rbind (transform wants swap st' b) (\<lambda>(out', st''). Inr (out @ out', st'')))" for st'
      using less.hyps by blast
    show ?thesis
    proof (cases "take_piece wants swap st p e")
      case (Inr x)
      obtain o1 s1 where x: "x = (o1, s1)" by fastforce
      note ok = take_piece_ok [OF less.prems Inr [unfolded x]]
      show ?thesis
        using transform_unfold [OF less.prems, of swap "a @ b"] transform_unfold [OF less.prems, of swap a]
          next_piece_glue [OF n, of b] n True Inr x IH [OF ok]
        by (auto simp: rbind_def split: sum.splits prod.splits)
    qed (use transform_unfold [OF less.prems, of swap "a @ b"] transform_unfold [OF less.prems, of swap a]
          next_piece_glue [OF n, of b] n True in simp)
  next
    case False
    then have a: "p = a" "r = []" using next_piece_unended n by auto
    obtain p' r' e' where n': "next_piece b = (p', r', e')" by (metis prod_cases3)
    obtain o1 s1 where t: "take_piece wants swap st a False = Inr (o1, s1)"
      using take_piece_unended by blast
    note ok = take_piece_ok [OF less.prems t]
    show ?thesis
      using transform_unfold [OF less.prems, of swap "a @ b"] transform_unfold [OF less.prems, of swap a]
        transform_unfold [OF ok, of swap b] next_piece_glue [OF n, of b] n n' a False t take_piece_cut [OF less.prems t, of p' e']
      by (auto simp: rbind_def split: sum.splits prod.splits)
  qed
qed

interpretation framed: cut_blind "transform wants swap" "framing_ok wants"
  for wants :: "string \<Rightarrow> bool" and swap :: "'s \<Rightarrow> string \<Rightarrow> (string \<times> 's) res"
  by unfold_locales (auto intro: transform_glue transform_ok)

definition lineTransform_start :: "'s \<Rightarrow> 's framing" where
  "lineTransform_start sw = \<lparr>fr_mode = Start, fr_pending = [], fr_swap = sw\<rparr>"

lemma framing_ok_start: "framing_ok wants (lineTransform_start sw)"
  by (simp add: framing_ok_def lineTransform_start_def HEAD_BYTES_def)

text \<open>
  C32. The transform does not see where the network cut the stream: for every line predicate, every swap
  function (one that throws included) and any two ways to cut the same bytes into chunks, the bytes
  pushed, the held bytes, the mode and the swap's state at the end are the same, or both throw the same error.
\<close>
theorem lineTransform_cuts:
  "concat cs = concat ds \<Longrightarrow>
   run_chunks (transform wants swap) (lineTransform_start sw) cs = run_chunks (transform wants swap) (lineTransform_start sw) ds"
  by (rule framed.cuts_do_not_matter [OF framing_ok_start])

theorem lineTransform_cuts_witness:
  "run_chunks (transform (\<lambda>h. take 1 h = ''b'') (\<lambda>n l. Inr (digits_of_nat n @ l, Suc n))) (lineTransform_start 0) [''a'', ''b'' @ [NEWLINE] @ ''b'', ''c'' @ [NEWLINE]]
   = run_chunks (transform (\<lambda>h. take 1 h = ''b'') (\<lambda>n l. Inr (digits_of_nat n @ l, Suc n))) (lineTransform_start 0) [''ab'' @ [NEWLINE] @ ''bc'' @ [NEWLINE]]"
  by (rule lineTransform_cuts) simp


section \<open>The two ends of the stream\<close>

definition after :: "string \<Rightarrow> string \<Rightarrow> string option" where
  "after pat s = (if prefix pat s then Some (drop (length pat) s) else None)"

text \<open>\<open>[^"\\]+"\<close> at the start of a text: the run before the quote and what follows the quote.\<close>

definition id_char :: "char \<Rightarrow> bool" where
  "id_char c \<longleftrightarrow> c \<noteq> CHR 34 \<and> c \<noteq> CHR 92"

definition quoted_id :: "string \<Rightarrow> (string \<times> string) option" where
  "quoted_id s = (let i = takeWhile id_char s in
     case dropWhile id_char s of
       c # rest \<Rightarrow> if i \<noteq> [] \<and> c = CHR 34 then Some (i, rest) else None
     | [] \<Rightarrow> None)"

definition SESSION_PREFIX :: string where
  \<open>SESSION_PREFIX = ''{"type":"session_event","activeSessionId":"''\<close>

definition EVENT_PREFIX :: string where
  \<open>EVENT_PREFIX = '',"event":{"type":"''\<close>

definition DELTA_PREFIX :: string where
  \<open>DELTA_PREFIX = ''{"type":"prime_relay_line_delta","activeSessionId":"''\<close>

text \<open>\<open>SESSION_LINE.exec\<close>: the session id and the event type; \<open>DELTA_LINE.test\<close>.\<close>

definition SESSION_LINE :: "string \<Rightarrow> (string \<times> string) option" where
  "SESSION_LINE head = Option.bind (after SESSION_PREFIX head) (\<lambda>r. Option.bind (quoted_id r) (\<lambda>(i, r').
     Option.bind (after EVENT_PREFIX r') (\<lambda>r''.
       if after (''message_update'' @ [CHR 34]) r'' \<noteq> None then Some (i, ''message_update'')
       else if after (''message_end'' @ [CHR 34]) r'' \<noteq> None then Some (i, ''message_end'')
       else None)))"

definition DELTA_LINE :: "string \<Rightarrow> bool" where
  "DELTA_LINE head \<longleftrightarrow> Option.bind (after DELTA_PREFIX head) quoted_id \<noteq> None"

definition op_json :: "DeltaOp \<Rightarrow> string" where
  "op_json op = (case op of
     Insert s \<Rightarrow> json_string s
   | Copy start len \<Rightarrow> ''['' @ show_int (int start) @ '','' @ show_int (int len) @ '']'')"

definition delta_json :: "string \<Rightarrow> DeltaOp list \<Rightarrow> string" where
  \<open>delta_json i ops = ''{"type":"'' @ DELTA_TYPE @ ''","activeSessionId":'' @ json_string i
     @ '',"ops":['' @ js_join '','' (map op_json ops) @ '']}''\<close>

text \<open>What goes over the wire: a line as it came, or a delta for a session.\<close>

datatype wire = Line string | DeltaLine string "DeltaOp list"

type_synonym bases = "(string \<times> string) list"

definition encode_line :: "bases \<Rightarrow> string \<Rightarrow> wire \<times> bases" where
  "encode_line bases line =
     (case SESSION_LINE (take HEAD_BYTES line) of
        None \<Rightarrow> (Line line, bases)
      | Some (i, ty) \<Rightarrow>
          if ty = ''message_end'' \<or> line = [] \<or> last line \<noteq> NEWLINE then (Line line, AList.delete i bases)
          else (let tx = butlast line; bases' = AList.update i tx bases in
            case map_of bases i of
              None \<Rightarrow> (Line line, bases')
            | Some base \<Rightarrow> (let ops = diffLine base tx in
                if length (delta_json i ops) < length tx \<and> applyOps base ops = tx
                then (DeltaLine i ops, bases') else (Line line, bases'))))"

text \<open>
  The decoder sees a delta by the head of its JSON text; one whose head its pattern does not match goes through as
  it came. A line that came whole and matches the delta pattern stands outside the model (\<open>Inl\<close>).
\<close>

definition decode_line :: "bases \<Rightarrow> wire \<Rightarrow> (string \<times> bases) res" where
  "decode_line bases w = (case w of
     Line line \<Rightarrow>
       (case SESSION_LINE (take HEAD_BYTES line) of
          Some (i, ty) \<Rightarrow>
            if ty = ''message_end'' \<or> line = [] \<or> last line \<noteq> NEWLINE then Inr (line, AList.delete i bases)
            else Inr (line, AList.update i (butlast line) bases)
        | None \<Rightarrow> if DELTA_LINE (take HEAD_BYTES line) then Inl ''a delta that is not a delta of the encoder'' else Inr (line, bases))
   | DeltaLine i ops \<Rightarrow>
       if DELTA_LINE (take HEAD_BYTES (delta_json i ops @ [NEWLINE])) then
         (case map_of bases i of
            None \<Rightarrow> Inl (''a line delta for session '' @ i @ '' came with no earlier update to apply it to'')
          | Some base \<Rightarrow> (let tx = applyOps base ops in Inr (tx @ [NEWLINE], AList.update i tx bases)))
       else Inr (delta_json i ops @ [NEWLINE], bases))"

fun encodeLineDeltas :: "bases \<Rightarrow> string list \<Rightarrow> wire list" where
  "encodeLineDeltas bases [] = []"
| "encodeLineDeltas bases (l # ls) = (case encode_line bases l of (w, bases') \<Rightarrow> w # encodeLineDeltas bases' ls)"

fun decodeLineDeltas :: "bases \<Rightarrow> wire list \<Rightarrow> string list res" where
  "decodeLineDeltas bases [] = Inr []"
| "decodeLineDeltas bases (w # ws) =
     rbind (decode_line bases w) (\<lambda>(l, bases'). rbind (decodeLineDeltas bases' ws) (\<lambda>ls. Inr (l # ls)))"

text \<open>A line the relay's daemon writes: not itself a delta line, and a session id without control characters.\<close>

definition daemon_line :: "string \<Rightarrow> bool" where
  "daemon_line l \<longleftrightarrow> \<not> DELTA_LINE (take HEAD_BYTES l) \<and>
     (case SESSION_LINE (take HEAD_BYTES l) of None \<Rightarrow> True | Some (i, _) \<Rightarrow> list_all (\<lambda>c. 32 \<le> (of_char c :: nat)) i)"

lemma quoted_id_Some:
  assumes "quoted_id s = Some (i, r)"
  shows "s = i @ CHR 34 # r \<and> i \<noteq> [] \<and> list_all id_char i"
proof -
  have "s = takeWhile id_char s @ dropWhile id_char s" by simp
  moreover have "dropWhile id_char s = CHR 34 # r" "i = takeWhile id_char s" "i \<noteq> []"
    using assms by (auto simp: quoted_id_def Let_def split: list.splits if_splits)
  ultimately show ?thesis by (metis list_all_iff set_takeWhileD)
qed

lemma quoted_id_intro: "list_all id_char i \<Longrightarrow> i \<noteq> [] \<Longrightarrow> quoted_id (i @ CHR 34 # r) = Some (i, r)"
  by (simp add: quoted_id_def Let_def list_all_iff id_char_def takeWhile_append dropWhile_append)

lemma SESSION_LINE_Some:
  assumes "SESSION_LINE head = Some (i, ty)"
  shows "length i + 70 \<le> length head \<and> i \<noteq> [] \<and> list_all id_char i"
proof -
  obtain r where q: "quoted_id (drop (length SESSION_PREFIX) head) = Some (i, r)" and p: "prefix SESSION_PREFIX head"
    and e: "prefix EVENT_PREFIX r"
    and m: "prefix (''message_update'' @ [CHR 34]) (drop (length EVENT_PREFIX) r) \<or> prefix (''message_end'' @ [CHR 34]) (drop (length EVENT_PREFIX) r)"
    using assms by (auto simp: SESSION_LINE_def after_def split: bind_splits if_splits)
  have "12 + length EVENT_PREFIX \<le> length r" using m e prefix_length_le by fastforce
  moreover have "length head = length SESSION_PREFIX + (length i + 1 + length r)"
  proof -
    have "length (drop (length SESSION_PREFIX) head) = length i + 1 + length r" using quoted_id_Some [OF q] by simp
    then show ?thesis using prefix_length_le [OF p] by simp
  qed
  ultimately show ?thesis using quoted_id_Some [OF q] by (simp add: SESSION_PREFIX_def EVENT_PREFIX_def)
qed

lemma quote_chars: "char_of (34 :: nat) = CHR 34" "char_of (92 :: nat) = CHR 92"
  by code_simp+

lemma json_char_plain: "id_char c \<Longrightarrow> 32 \<le> (of_char c :: nat) \<Longrightarrow> json_char c = [c]"
proof -
  assume c: "id_char c" "32 \<le> (of_char c :: nat)"
  have c': "c = char_of (of_char c :: nat)" by simp
  have "(of_char c :: nat) \<noteq> 34"
  proof
    assume "(of_char c :: nat) = 34"
    with c' have "c = char_of (34 :: nat)" by simp
    with c(1) show False by (simp add: id_char_def quote_chars)
  qed
  moreover have "(of_char c :: nat) \<noteq> 92"
  proof
    assume "(of_char c :: nat) = 92"
    with c' have "c = char_of (92 :: nat)" by simp
    with c(1) show False by (simp add: id_char_def quote_chars)
  qed
  ultimately show ?thesis using c(2) by (simp add: json_char_def Let_def)
qed

lemma json_plain: "list_all id_char i \<Longrightarrow> list_all (\<lambda>c. 32 \<le> (of_char c :: nat)) i \<Longrightarrow> concat (map json_char i) = i"
  by (induction i) (auto simp: json_char_plain)

lemma delta_json_head:
  assumes "list_all id_char i" "list_all (\<lambda>c. 32 \<le> (of_char c :: nat)) i" "i \<noteq> []" "length i + 70 \<le> HEAD_BYTES"
  shows "DELTA_LINE (take HEAD_BYTES (delta_json i ops @ [NEWLINE]))"
proof -
  obtain r where r: "delta_json i ops @ [NEWLINE] = DELTA_PREFIX @ i @ CHR 34 # r"
    by (simp add: delta_json_def json_string_def json_plain [OF assms(1,2)] DELTA_PREFIX_def DELTA_TYPE_def)
  have "take HEAD_BYTES (DELTA_PREFIX @ i @ CHR 34 # r) = DELTA_PREFIX @ i @ CHR 34 # take (HEAD_BYTES - length DELTA_PREFIX - length i - 1) r"
    using assms(4) by (simp add: DELTA_PREFIX_def HEAD_BYTES_def take_Cons')
  then show ?thesis using r quoted_id_intro [OF assms(1,3)] by (simp add: DELTA_LINE_def after_def)
qed

lemma decode_encode_line:
  assumes "daemon_line l"
  shows "decode_line bases (fst (encode_line bases l)) = Inr (l, snd (encode_line bases l))"
proof (cases "SESSION_LINE (take HEAD_BYTES l)")
  case None
  then show ?thesis using assms by (simp add: encode_line_def decode_line_def daemon_line_def)
next
  case (Some x)
  obtain i ty where x: "x = (i, ty)" by fastforce
  have "DELTA_LINE (take HEAD_BYTES (delta_json i ops @ [NEWLINE]))" for ops
    using SESSION_LINE_Some [OF Some [unfolded x]] assms Some x
    by (intro delta_json_head) (auto simp: daemon_line_def)
  moreover have "butlast l @ [NEWLINE] = l" if "l \<noteq> []" "last l = NEWLINE" using that by (metis append_butlast_last_id)
  ultimately show ?thesis using Some x
    by (simp add: encode_line_def decode_line_def Let_def split: option.splits)
qed

text \<open>
  C16. Decoding what the encoder sends gives the same lines back, whatever mixture of sessions, first updates,
  message ends and other lines the stream has, and the decoder never throws: both ends hold the same base for every
  session after every line. It rests on what the daemon writes: no line that is itself a delta line, and
  no control character in a session id.
\<close>
theorem line_delta_stream_roundtrip:
  assumes "list_all daemon_line ls"
  shows "decodeLineDeltas bases (encodeLineDeltas bases ls) = Inr ls"
  using assms
proof (induction ls arbitrary: bases)
  case (Cons l ls)
  obtain w b where e: "encode_line bases l = (w, b)" by fastforce
  with decode_encode_line [of l bases] Cons show ?case by simp
qed simp

definition example_update :: "string \<Rightarrow> string" where
  \<open>example_update t = ''{"type":"session_event","activeSessionId":"s1","event":{"type":"message_update","message":{"role":"assistant","content":"the reply so far and ''
     @ t @ ''","usage":{"input":1200,"output":40}}}}'' @ [NEWLINE]\<close>

theorem line_delta_stream_roundtrip_witness:
  "decodeLineDeltas [] (encodeLineDeltas [] [example_update ''a'', example_update ''ab'']) = Inr [example_update ''a'', example_update ''ab'']
   \<and> (case encodeLineDeltas [] [example_update ''a'', example_update ''ab''] of [Line _, DeltaLine i ops] \<Rightarrow> length ops = 3 | _ \<Rightarrow> False)"
proof
  show "decodeLineDeltas [] (encodeLineDeltas [] [example_update ''a'', example_update ''ab'']) = Inr [example_update ''a'', example_update ''ab'']"
  proof (rule line_delta_stream_roundtrip)
    show "list_all daemon_line [example_update ''a'', example_update ''ab'']" by code_simp
  qed
  show "case encodeLineDeltas [] [example_update ''a'', example_update ''ab''] of [Line _, DeltaLine i ops] \<Rightarrow> length ops = 3 | _ \<Rightarrow> False" by code_simp
qed

end
