(* ===== verification/Board.thy ===== *)
theory Board
  imports Complex_Main Prelude
begin

text \<open>
  The shared board of a chat (\<open>shared/types.ts\<close>: plan, todos) and the board deltas the
  thread feed sends (\<open>shared/board-delta.ts\<close>): the flat plan, the step between two boards, the delta, its application, and
  the follower that keeps a page's board.

  A plan item is its own fields and its children; a number is rational. An optional field is an
  option. Two items are compared by their values, where the code compares their JSON texts.
\<close>

section \<open>Data\<close>

datatype PlanStatus = Todo | Doing | Done | Blocked | Dropped

datatype direction = Up | Down

record GoalTarget =
  gt_metric :: string
  gt_target :: rat
  gt_unit :: string
  gt_current :: "rat option"
  gt_measuredAt :: "string option"
  gt_source :: "string option"
  gt_daily :: bool
  gt_direction :: "direction option"

datatype RequirementStatus = ReqMet | ReqUnmet | ReqOpen

record Requirement =
  rq_text :: string
  rq_status :: RequirementStatus
  rq_evidence :: "string option"
  rq_note :: "string option"

text \<open>The fields of a \<open>PlanItem\<close> other than its children.\<close>

record plan_fields =
  pf_id :: string
  pf_text :: string
  pf_status :: PlanStatus
  pf_job :: "string option"
  pf_note :: "string option"
  pf_waitUntil :: "string option"
  pf_waitFor :: "string option"
  pf_sessionId :: "string option"
  pf_go :: bool
  pf_build :: bool
  pf_requirements :: "Requirement list option"
  pf_target :: "GoalTarget option"
  pf_duty :: "string option"
  pf_reopened :: bool

datatype PlanItem = PlanItem (item: plan_fields) (children: "PlanItem list")

record ArtifactLink =
  al_label :: string
  al_target :: string

record OwnerTodo =
  td_id :: string
  td_text :: string
  td_done :: bool
  td_reply :: "string option"
  td_choices :: "string list option"
  td_fromAgent :: bool
  td_at :: string
  td_step :: "string option"
  td_answeredByOwner :: bool
  td_links :: "ArtifactLink list option"

record board_top =
  bt_rev :: nat
  bt_updatedAt :: string
  bt_lastIds :: "(nat \<times> nat) option"

record ChatBoard =
  cb_top :: board_top
  cb_plan :: "PlanItem list"
  cb_todos :: "OwnerTodo list"

abbreviation item_id :: "PlanItem \<Rightarrow> string" where
  "item_id p \<equiv> pf_id (item p)"

abbreviation cb_rev :: "ChatBoard \<Rightarrow> nat" where
  "cb_rev b \<equiv> bt_rev (cb_top b)"

section \<open>Board deltas\<close>

definition boardKey :: "ChatBoard \<Rightarrow> string" where
  "boardKey b = show_int (int (cb_rev b)) @ ''|'' @ bt_updatedAt (cb_top b)"

text \<open>A board file as stored can carry fields no reader names (\<open>extra\<close>).\<close>

record stored_board = ChatBoard +
  sb_extra :: "(string \<times> string) list"

definition feedBoard :: "stored_board \<Rightarrow> ChatBoard" where
  "feedBoard b = \<lparr>cb_top = cb_top b, cb_plan = cb_plan b, cb_todos = cb_todos b\<rparr>"

type_synonym FlatPlanItem = "plan_fields \<times> string list"
type_synonym flat = "(string \<times> FlatPlanItem) list"

record BoardDelta =
  bd_base :: string
  bd_top :: board_top
  bd_plan :: "FlatPlanItem list"
  bd_roots :: "string list option"
  bd_todos :: "OwnerTodo list"
  bd_todoIds :: "string list option"

record BoardStep =
  bs_plan :: "string list"
  bs_roots :: bool
  bs_todos :: "string list"
  bs_todoIds :: bool

fun flat_walk :: "PlanItem list \<Rightarrow> flat \<Rightarrow> flat option" where
  "flat_walk [] items = Some items"
| "flat_walk (PlanItem f cs # ps) items =
     (if pf_id f \<in> fst ` set items then None
      else (case flat_walk cs (items @ [(pf_id f, (f, map item_id cs))]) of
              None \<Rightarrow> None
            | Some items' \<Rightarrow> flat_walk ps items'))"

definition flatPlan :: "ChatBoard \<Rightarrow> flat option" where
  "flatPlan b = flat_walk (cb_plan b) []"

definition todo_map :: "OwnerTodo list \<Rightarrow> (string \<times> OwnerTodo) list" where
  "todo_map ts = fold (\<lambda>t. AList.update (td_id t) t) ts []"

definition changed :: "(string \<times> 'a) list \<Rightarrow> (string \<times> 'a) list \<Rightarrow> string list" where
  "changed was now = map fst (filter (\<lambda>(i, x). map_of was i \<noteq> Some x) now)"

definition boardStep :: "ChatBoard \<Rightarrow> ChatBoard \<Rightarrow> BoardStep option" where
  "boardStep before after =
     (case (flatPlan before, flatPlan after) of
        (Some was, Some now) \<Rightarrow>
          (let oldTodos = todo_map (cb_todos before); nowTodos = todo_map (cb_todos after) in
           if length oldTodos \<noteq> length (cb_todos before) \<or> length nowTodos \<noteq> length (cb_todos after) then None
           else Some \<lparr>bs_plan = changed was now,
                      bs_roots = (map item_id (cb_plan before) \<noteq> map item_id (cb_plan after)),
                      bs_todos = changed oldTodos nowTodos,
                      bs_todoIds = (map td_id (cb_todos before) \<noteq> map td_id (cb_todos after))\<rparr>)
      | _ \<Rightarrow> None)"

text \<open>
  \<open>boardDelta\<close> reads \<open>flatPlan(board)!\<close>: on a board with a repeated id it throws at the first changed plan id, which here gives \<open>None\<close>.
\<close>

definition boardDelta :: "string \<Rightarrow> ChatBoard \<Rightarrow> BoardStep list \<Rightarrow> BoardDelta option" where
  "boardDelta base b steps =
     (let items = flatPlan b; planIds = js_uniq (concat (map bs_plan steps)); todoIds = concat (map bs_todos steps) in
      if items = None \<and> planIds \<noteq> [] then None
      else Some \<lparr>bd_base = base, bd_top = cb_top b,
                 bd_plan = (case items of Some m \<Rightarrow> List.map_filter (map_of m) planIds | None \<Rightarrow> []),
                 bd_roots = (if list_ex bs_roots steps then Some (map item_id (cb_plan b)) else None),
                 bd_todos = filter (\<lambda>t. td_id t \<in> set todoIds) (cb_todos b),
                 bd_todoIds = (if list_ex bs_todoIds steps then Some (map td_id (cb_todos b)) else None)\<rparr>)"

text \<open>
  \<open>tree\<close> follows the ids through the items. A delta that makes an item its own descendant sends it round
  forever, until the stack overflows; a path longer than the number of items repeats an id, so that many
  levels of fuel tell the two apart, and \<open>None\<close> is the overflow.
\<close>

fun tree :: "nat \<Rightarrow> flat \<Rightarrow> string list \<Rightarrow> PlanItem list option" where
  "tree n items [] = Some []"
| "tree 0 items (i # is) = None"
| "tree (Suc n) items (i # is) =
     (case map_of items i of
        None \<Rightarrow> tree (Suc n) items is
      | Some (f, cs) \<Rightarrow>
          Option.bind (tree n items cs) (\<lambda>ps. Option.bind (tree (Suc n) items is) (\<lambda>qs. Some (PlanItem f ps # qs))))"

datatype applied = NotMine | Overflow | Applied ChatBoard

definition applyBoardDelta :: "ChatBoard \<Rightarrow> BoardDelta \<Rightarrow> applied" where
  "applyBoardDelta b d =
     (case (if boardKey b = bd_base d then flatPlan b else None) of
        None \<Rightarrow> NotMine
      | Some items \<Rightarrow>
          (let items' = fold (\<lambda>(f, cs). AList.update (pf_id f) (f, cs)) (bd_plan d) items;
               todos = fold (\<lambda>t. AList.update (td_id t) t) (bd_todos d) (todo_map (cb_todos b))
           in case tree (Suc (length items')) items' (case bd_roots d of Some r \<Rightarrow> r | None \<Rightarrow> map item_id (cb_plan b)) of
                None \<Rightarrow> Overflow
              | Some plan \<Rightarrow> Applied \<lparr>cb_top = bd_top d, cb_plan = plan,
                  cb_todos = List.map_filter (map_of todos) (case bd_todoIds d of Some r \<Rightarrow> r | None \<Rightarrow> map td_id (cb_todos b))\<rparr>))"


subsection \<open>The flat plan and the tree\<close>

fun flat_of :: "PlanItem list \<Rightarrow> flat" where
  "flat_of [] = []"
| "flat_of (PlanItem f cs # ps) = (pf_id f, (f, map item_id cs)) # flat_of cs @ flat_of ps"

fun depth :: "PlanItem list \<Rightarrow> nat" where
  "depth [] = 0"
| "depth (PlanItem f cs # ps) = max (Suc (depth cs)) (depth ps)"

lemma flat_walk_Some:
  "flat_walk ps items = Some r \<Longrightarrow> distinct (map fst items) \<Longrightarrow> r = items @ flat_of ps \<and> distinct (map fst r)"
proof (induction ps items arbitrary: r rule: flat_walk.induct)
  case (2 f cs ps items)
  let ?e = "(pf_id f, (f, map item_id cs))"
  from "2.prems"(1) obtain m where fresh: "pf_id f \<notin> fst ` set items"
    and m: "flat_walk cs (items @ [?e]) = Some m" and r: "flat_walk ps m = Some r"
    by (auto split: if_splits option.splits)
  have "distinct (map fst (items @ [?e]))" using fresh "2.prems"(2) by simp
  then have "m = (items @ [?e]) @ flat_of cs" "distinct (map fst m)" using "2.IH"(1) [OF fresh m] by blast+
  with "2.IH"(2) [OF fresh m r] show ?case by (metis append.assoc append_Cons append_Nil flat_of.simps(2))
qed simp

lemma flatPlan_Some: "flatPlan b = Some r \<Longrightarrow> r = flat_of (cb_plan b) \<and> distinct (map fst r)"
  using flat_walk_Some [of "cb_plan b" "[]" r] by (auto simp: flatPlan_def)

lemma flat_of_keyed: "(i, f, cs) \<in> set (flat_of ps) \<Longrightarrow> pf_id f = i"
  by (induction ps rule: flat_of.induct) auto

lemma depth_le: "depth ps \<le> length (flat_of ps)"
  by (induction ps rule: flat_of.induct) auto

lemma tree_rebuilds:
  "(\<And>i x. (i, x) \<in> set (flat_of ps) \<Longrightarrow> map_of items i = Some x) \<Longrightarrow> depth ps \<le> n \<Longrightarrow>
   tree n items (map item_id ps) = Some ps"
proof (induction ps arbitrary: n rule: flat_of.induct)
  case (2 f cs ps)
  then obtain m where n: "n = Suc m" by (cases n) auto
  have "tree m items (map item_id cs) = Some cs" using "2.prems" n by (intro "2.IH"(1)) auto
  moreover have "tree n items (map item_id ps) = Some ps" using "2.prems" by (intro "2.IH"(2)) auto
  moreover have "map_of items (pf_id f) = Some (f, map item_id cs)" using "2.prems"(1) by simp
  ultimately show ?case using n by simp
qed simp

subsection \<open>Maps filled by a loop\<close>

lemma fold_update_miss:
  "i \<notin> k ` set xs \<Longrightarrow> map_of (fold (\<lambda>x. AList.update (k x) (g x)) xs m) i = map_of m i"
  by (induction xs arbitrary: m) (auto simp: update_conv')

lemma fold_update_hit:
  "i \<in> k ` set xs \<Longrightarrow> (\<And>x. x \<in> set xs \<Longrightarrow> k x = i \<Longrightarrow> g x = v) \<Longrightarrow>
   map_of (fold (\<lambda>x. AList.update (k x) (g x)) xs m) i = Some v"
proof (induction xs arbitrary: m)
  case (Cons x xs)
  show ?case
  proof (cases "i \<in> k ` set xs")
    case True
    then show ?thesis using Cons by simp
  next
    case False
    then have "k x = i" "g x = v" using Cons.prems by auto
    then show ?thesis using fold_update_miss [OF False, of g] by (simp add: update_conv')
  qed
qed simp

lemma fold_update_keys:
  "fst ` set (fold (\<lambda>x. AList.update (k x) (g x)) xs m) = fst ` set m \<union> k ` set xs"
  by (induction xs arbitrary: m) (auto simp: dom_update)

lemma fold_update_distinct:
  "distinct (map fst m) \<Longrightarrow> distinct (map fst (fold (\<lambda>x. AList.update (k x) (g x)) xs m))"
  by (induction xs arbitrary: m) (auto simp: distinct_update)

lemma todo_map_full:
  assumes "length (todo_map ts) = length ts"
  shows "distinct (map td_id ts)"
proof -
  have "distinct (map fst (todo_map ts))" unfolding todo_map_def by (rule fold_update_distinct) simp
  moreover have "fst ` set (todo_map ts) = td_id ` set ts" unfolding todo_map_def by (simp add: fold_update_keys)
  ultimately have "card (td_id ` set ts) = length ts"
    using assms by (metis distinct_card length_map list.set_map)
  then show ?thesis by (metis card_distinct length_map list.set_map)
qed

lemma todo_map_lookup: "distinct (map td_id ts) \<Longrightarrow> t \<in> set ts \<Longrightarrow> map_of (todo_map ts) (td_id t) = Some t"
  unfolding todo_map_def by (rule fold_update_hit) (auto simp: distinct_map inj_on_def)

subsection \<open>Deltas over several changes\<close>

text \<open>The steps of a board that became each of \<open>bs\<close> in turn.\<close>

fun steps_along :: "ChatBoard \<Rightarrow> ChatBoard list \<Rightarrow> BoardStep list option" where
  "steps_along b [] = Some []"
| "steps_along b (c # cs) =
     (case boardStep b c of None \<Rightarrow> None | Some s \<Rightarrow> map_option (\<lambda>ss. s # ss) (steps_along c cs))"

lemma boardStep_Some:
  assumes "boardStep b c = Some s"
  obtains "flatPlan b = Some (flat_of (cb_plan b))" "flatPlan c = Some (flat_of (cb_plan c))"
    "distinct (map td_id (cb_todos b))" "distinct (map td_id (cb_todos c))"
    "bs_plan s = changed (flat_of (cb_plan b)) (flat_of (cb_plan c))"
    "bs_todos s = changed (todo_map (cb_todos b)) (todo_map (cb_todos c))"
    "bs_roots s \<longleftrightarrow> map item_id (cb_plan b) \<noteq> map item_id (cb_plan c)"
    "bs_todoIds s \<longleftrightarrow> map td_id (cb_todos b) \<noteq> map td_id (cb_todos c)"
proof -
  obtain w n where wn: "flatPlan b = Some w" "flatPlan c = Some n"
    using assms by (auto simp: boardStep_def split: option.splits)
  note f = flatPlan_Some [OF wn(1)] flatPlan_Some [OF wn(2)]
  show thesis
    using assms wn f by (intro that) (auto simp: boardStep_def Let_def dest: todo_map_full split: if_splits)
qed

lemma unchanged_value: "map_of now i = Some x \<Longrightarrow> i \<notin> set (changed was now) \<Longrightarrow> map_of was i = Some x"
  by (force simp: changed_def dest: map_of_SomeD)

lemma steps_along_keep:
  "steps_along b cs = Some ss \<Longrightarrow>
   (\<forall>i x. map_of (flat_of (cb_plan (last (b # cs)))) i = Some x \<and> i \<notin> set (concat (map bs_plan ss)) \<longrightarrow> map_of (flat_of (cb_plan b)) i = Some x) \<and>
   (\<forall>i t. map_of (todo_map (cb_todos (last (b # cs)))) i = Some t \<and> i \<notin> set (concat (map bs_todos ss)) \<longrightarrow> map_of (todo_map (cb_todos b)) i = Some t) \<and>
   (\<not> list_ex bs_roots ss \<longrightarrow> map item_id (cb_plan b) = map item_id (cb_plan (last (b # cs)))) \<and>
   (\<not> list_ex bs_todoIds ss \<longrightarrow> map td_id (cb_todos b) = map td_id (cb_todos (last (b # cs))))"
proof (induction cs arbitrary: b ss)
  case (Cons c cs)
  obtain s rest where s: "boardStep b c = Some s" and rest: "steps_along c cs = Some rest" "ss = s # rest"
    using Cons.prems by (auto split: option.splits)
  note IH = Cons.IH [OF rest(1)]
  have l: "last (b # c # cs) = last (c # cs)" by simp
  show ?case
  proof (cases rule: boardStep_Some [OF s])
    case 1
    show ?thesis unfolding l
    proof (intro conjI allI impI; (elim conjE)?)
      fix i x assume "map_of (flat_of (cb_plan (last (c # cs)))) i = Some x" "i \<notin> set (concat (map bs_plan ss))"
      moreover from this(2) rest(2) have "i \<notin> set (concat (map bs_plan rest))" "i \<notin> set (bs_plan s)" by simp_all
      ultimately have "map_of (flat_of (cb_plan c)) i = Some x" "i \<notin> set (bs_plan s)" using IH by blast+
      then show "map_of (flat_of (cb_plan b)) i = Some x" unfolding 1(5) by (rule unchanged_value)
    next
      fix i x assume "map_of (todo_map (cb_todos (last (c # cs)))) i = Some x" "i \<notin> set (concat (map bs_todos ss))"
      moreover from this(2) rest(2) have "i \<notin> set (concat (map bs_todos rest))" "i \<notin> set (bs_todos s)" by simp_all
      ultimately have "map_of (todo_map (cb_todos c)) i = Some x" "i \<notin> set (bs_todos s)" using IH by blast+
      then show "map_of (todo_map (cb_todos b)) i = Some x" unfolding 1(6) by (rule unchanged_value)
    next
      assume "\<not> list_ex bs_roots ss"
      with IH rest(2) 1(7) show "map item_id (cb_plan b) = map item_id (cb_plan (last (c # cs)))" by simp
    next
      assume "\<not> list_ex bs_todoIds ss"
      with IH rest(2) 1(8) show "map td_id (cb_todos b) = map td_id (cb_todos (last (c # cs)))" by simp
    qed
  qed
qed simp

lemma steps_along_last:
  assumes "steps_along b cs = Some ss" "cs \<noteq> []"
  shows "flatPlan (last cs) = Some (flat_of (cb_plan (last cs))) \<and> distinct (map td_id (cb_todos (last cs))) \<and>
    flatPlan b = Some (flat_of (cb_plan b)) \<and> distinct (map td_id (cb_todos b))"
  using assms
proof (induction cs arbitrary: b ss)
  case (Cons c cs)
  obtain s rest where s: "boardStep b c = Some s" and rest: "steps_along c cs = Some rest"
    using Cons.prems by (auto split: option.splits)
  show ?case using Cons.IH [OF rest] by (cases cs; cases rule: boardStep_Some [OF s]) auto
qed simp

lemma map_filter_lookup: "(\<And>x. x \<in> set xs \<Longrightarrow> f (k x) = Some x) \<Longrightarrow> List.map_filter f (map k xs) = xs"
  by (induction xs) (auto simp: List.map_filter_def)

text \<open>
  C17. A board delta carries a whole run of changes: for a board that became each of a sequence of boards in
  turn, with no id repeated on any of them, the delta made from the last board and the steps between them
  turns the first board into the last one, plan tree, todos and all. Rebuilding the tree ends.
\<close>
theorem board_delta_roundtrip:
  assumes steps: "steps_along b cs = Some ss" and ne: "cs \<noteq> []"
  shows "\<exists>d. boardDelta (boardKey b) (last cs) ss = Some d \<and> applyBoardDelta b d = Applied (last cs)"
proof -
  let ?a = "last cs"
  note ends = steps_along_last [OF steps ne]
  have la: "last (b # cs) = ?a" using ne by simp
  note keep = steps_along_keep [OF steps, unfolded la]
  have da: "distinct (map fst (flat_of (cb_plan ?a)))" using ends flatPlan_Some by blast
  define now where "now = flat_of (cb_plan ?a)"
  define ids where "ids = js_uniq (concat (map bs_plan ss))"
  define ps where "ps = List.map_filter (map_of now) ids"
  define items where "items = fold (\<lambda>(f, cs). AList.update (pf_id f) (f, cs)) ps (flat_of (cb_plan b))"
  define tds where "tds = filter (\<lambda>t. td_id t \<in> set (concat (map bs_todos ss))) (cb_todos ?a)"
  define todos where "todos = fold (\<lambda>t. AList.update (td_id t) t) tds (todo_map (cb_todos b))"
  have dn: "distinct (map fst now)" using da now_def by simp
  have in_ps: "x \<in> set ps \<longleftrightarrow> (\<exists>i \<in> set ids. map_of now i = Some x)" for x
    by (force simp: ps_def List.map_filter_def)
  have keyed: "pf_id (fst x) = i" if "map_of now i = Some x" for i x
    using map_of_SomeD [OF that] flat_of_keyed [of i "fst x" "snd x"] by (simp add: now_def)
  have items_eq: "items = fold (\<lambda>x. AList.update (pf_id (fst x)) x) ps (flat_of (cb_plan b))"
    by (simp add: items_def split_def)
  have look: "map_of items i = Some x" if x: "(i, x) \<in> set now" for i x
  proof (cases "i \<in> set ids")
    case True
    have m: "map_of now i = Some x" using x dn by simp
    then have "x \<in> set ps" "pf_id (fst x) = i" using True in_ps keyed by blast+
    then have "i \<in> (\<lambda>x. pf_id (fst x)) ` set ps" by blast
    moreover have "y = x" if "y \<in> set ps" "pf_id (fst y) = i" for y
      using that in_ps keyed m by (metis option.inject)
    ultimately show ?thesis unfolding items_eq by (rule fold_update_hit)
  next
    case False
    have m: "map_of now i = Some x" using x dn by simp
    have "pf_id (fst y) \<noteq> i" if "y \<in> set ps" for y using that False in_ps keyed by metis
    then have "i \<notin> (\<lambda>x. pf_id (fst x)) ` set ps" by blast
    moreover have "map_of (flat_of (cb_plan b)) i = Some x"
      using keep [THEN conjunct1, rule_format, of i x] m False by (simp add: now_def ids_def)
    ultimately show ?thesis unfolding items_eq by (simp add: fold_update_miss)
  qed
  have "set (map fst now) \<subseteq> set (map fst items)" using look map_of_SomeD by force
  then have "length now \<le> length items"
    using dn by (metis card_length card_mono distinct_card finite_set le_trans length_map)
  then have tr: "tree (Suc (length items)) items (map item_id (cb_plan ?a)) = Some (cb_plan ?a)"
    using look depth_le [of "cb_plan ?a"] by (intro tree_rebuilds) (auto simp: now_def)
  have tlook: "map_of todos (td_id t) = Some t" if t: "t \<in> set (cb_todos ?a)" for t
  proof (cases "td_id t \<in> set (concat (map bs_todos ss))")
    case True
    then show ?thesis unfolding todos_def using t ends
      by (intro fold_update_hit) (auto simp: tds_def distinct_map inj_on_def)
  next
    case False
    then have "td_id t \<notin> td_id ` set tds" by (auto simp: tds_def)
    then show ?thesis unfolding todos_def using keep False todo_map_lookup [OF _ t] ends by (simp add: fold_update_miss)
  qed
  have "List.map_filter (map_of todos) (map td_id (cb_todos ?a)) = cb_todos ?a"
    using tlook by (rule map_filter_lookup)
  with tr keep ends show ?thesis
    by (auto simp: boardDelta_def applyBoardDelta_def Let_def items_def todos_def tds_def ps_def ids_def now_def)
qed


section \<open>The follower\<close>

text \<open>
  \<open>BoardFollower\<close>: the board it holds, the deltas that wait, the promises it has outstanding (a cached board, a
  fetched one) and the boards it handed to \<open>onBoard\<close>, newest last. A handler runs to its end before the next one
  starts. An overflow while a delta is applied throws out of the handler, which leaves the board as it was.
\<close>

datatype asked = Cached | Fetch

record follower =
  fo_board :: "ChatBoard option"
  fo_waiting :: "BoardDelta list option"
  fo_asked :: "asked list"
  fo_shown :: "ChatBoard list"

definition follower_start :: follower where
  "follower_start = \<lparr>fo_board = None, fo_waiting = None, fo_asked = [], fo_shown = []\<rparr>"

definition fo_set :: "ChatBoard \<Rightarrow> follower \<Rightarrow> follower" where
  "fo_set b s = s\<lparr>fo_board := Some b, fo_shown := fo_shown s @ [b]\<rparr>"

definition fo_hold :: "ChatBoard \<Rightarrow> follower \<Rightarrow> follower" where
  "fo_hold b s = (case fo_board s of
     Some h \<Rightarrow> if cb_rev b < cb_rev h then s else fo_set b s
   | None \<Rightarrow> fo_set b s)"

definition fo_refetch :: "BoardDelta list \<Rightarrow> follower \<Rightarrow> follower" where
  "fo_refetch queued s = s\<lparr>fo_waiting := Some queued, fo_asked := fo_asked s @ [Fetch]\<rparr>"

definition fo_seed :: "follower \<Rightarrow> follower" where
  "fo_seed s = (if fo_board s \<noteq> None \<or> fo_waiting s \<noteq> None then s
     else s\<lparr>fo_waiting := Some [], fo_asked := fo_asked s @ [Cached]\<rparr>)"

datatype feed_event = BoardEvent ChatBoard | DeltaEvent BoardDelta

text \<open>The boolean is false when the handler threw.\<close>

definition fo_take_delta :: "BoardDelta \<Rightarrow> follower \<Rightarrow> follower \<times> bool" where
  "fo_take_delta d s = (case fo_waiting s of
     Some q \<Rightarrow> (s\<lparr>fo_waiting := Some (q @ [d])\<rparr>, True)
   | None \<Rightarrow>
       (case fo_board s of
          None \<Rightarrow> (fo_refetch [d] s, True)
        | Some b \<Rightarrow>
            if bt_rev (bd_top d) \<le> cb_rev b \<and> bd_base d \<noteq> boardKey b then (s, True)
            else (case applyBoardDelta b d of
                    Applied next \<Rightarrow> (fo_set next s, True)
                  | NotMine \<Rightarrow> (fo_refetch [d] s, True)
                  | Overflow \<Rightarrow> (s, False))))"

text \<open>A loop over the queued deltas stops where its body throws.\<close>

fun fo_each :: "(BoardDelta \<Rightarrow> follower \<Rightarrow> follower \<times> bool) \<Rightarrow> BoardDelta list \<Rightarrow> follower \<Rightarrow> follower" where
  "fo_each f [] s = s"
| "fo_each f (d # ds) s = (case f d s of (t, ok) \<Rightarrow> if ok then fo_each f ds t else t)"

definition fo_take :: "feed_event \<Rightarrow> follower \<Rightarrow> follower" where
  "fo_take e s = (case e of BoardEvent b \<Rightarrow> fo_hold b s | DeltaEvent d \<Rightarrow> fst (fo_take_delta d s))"

definition fo_cached :: "ChatBoard option \<Rightarrow> follower \<Rightarrow> follower" where
  "fo_cached cached s =
     (let queued = (case fo_waiting s of Some q \<Rightarrow> q | None \<Rightarrow> []);
          s1 = s\<lparr>fo_waiting := None\<rparr>;
          s2 = (case cached of Some b \<Rightarrow> fo_hold b s1 | None \<Rightarrow> s1)
      in if fo_board s2 \<noteq> None then fo_each fo_take_delta queued s2 else fo_refetch queued s2)"

definition fo_catch_up :: "BoardDelta \<Rightarrow> follower \<Rightarrow> follower \<times> bool" where
  "fo_catch_up d s = (case fo_board s of
     Some b \<Rightarrow> if bt_rev (bd_top d) > cb_rev b
       then (case applyBoardDelta b d of Applied next \<Rightarrow> (fo_set next s, True) | NotMine \<Rightarrow> (s, True) | Overflow \<Rightarrow> (s, False)) else (s, True)
   | None \<Rightarrow> (s, True))"

definition fo_fetched :: "ChatBoard option \<Rightarrow> follower \<Rightarrow> follower" where
  "fo_fetched fetched s =
     (let queued = (case fo_waiting s of Some q \<Rightarrow> q | None \<Rightarrow> []);
          s1 = s\<lparr>fo_waiting := None\<rparr>;
          s2 = (case fetched of Some b \<Rightarrow> fo_hold b s1 | None \<Rightarrow> s1)
      in fo_each fo_catch_up queued s2)"

text \<open>
  A delta the server made: the base names a board whose revision is not above the delta's own.
\<close>

definition forward :: "BoardDelta \<Rightarrow> bool" where
  "forward d \<longleftrightarrow> (\<exists>b. boardKey b = bd_base d \<and> cb_rev b \<le> bt_rev (bd_top d))"

definition resolve :: "asked \<Rightarrow> follower \<Rightarrow> follower" where
  "resolve a s = s\<lparr>fo_asked := remove1 a (fo_asked s)\<rparr>"

inductive follower_step :: "follower \<Rightarrow> follower \<Rightarrow> bool" where
  seed: "follower_step s (fo_seed s)"
| board: "follower_step s (fo_take (BoardEvent b) s)"
| delta: "forward d \<Longrightarrow> follower_step s (fo_take (DeltaEvent d) s)"
| cached: "Cached \<in> set (fo_asked s) \<Longrightarrow> follower_step s (fo_cached c (resolve Cached s))"
| fetched: "Fetch \<in> set (fo_asked s) \<Longrightarrow> follower_step s (fo_fetched c (resolve Fetch s))"

text \<open>
  At most one promise is outstanding, exactly while deltas wait; the waiting deltas came from the server; the board held is the one shown
  last; and the boards shown never go back to an older revision.
\<close>

definition follower_inv :: "follower \<Rightarrow> bool" where
  "follower_inv s \<longleftrightarrow>
     (case fo_waiting s of None \<Rightarrow> fo_asked s = [] | Some q \<Rightarrow> list_all forward q \<and> length (fo_asked s) = 1) \<and>
     (case fo_board s of None \<Rightarrow> fo_shown s = [] | Some b \<Rightarrow> fo_shown s \<noteq> [] \<and> last (fo_shown s) = b) \<and>
     sorted (map cb_rev (fo_shown s))"


text \<open>What a handler's body keeps: the board and shown part of the invariant.\<close>

definition shown_inv :: "follower \<Rightarrow> bool" where
  "shown_inv s \<longleftrightarrow>
     (case fo_board s of None \<Rightarrow> fo_shown s = [] | Some b \<Rightarrow> fo_shown s \<noteq> [] \<and> last (fo_shown s) = b) \<and>
     sorted (map cb_rev (fo_shown s))"

definition wait_inv :: "follower \<Rightarrow> bool" where
  "wait_inv s \<longleftrightarrow> (case fo_waiting s of None \<Rightarrow> fo_asked s = [] | Some q \<Rightarrow> list_all forward q \<and> length (fo_asked s) = 1)"

lemma follower_inv_split: "follower_inv s \<longleftrightarrow> wait_inv s \<and> shown_inv s"
  by (simp add: follower_inv_def wait_inv_def shown_inv_def)

lemma shown_inv_wait [simp]:
  "shown_inv (s\<lparr>fo_waiting := q\<rparr>) = shown_inv s" "shown_inv (s\<lparr>fo_asked := a\<rparr>) = shown_inv s"
  by (simp_all add: shown_inv_def cong: option.case_cong)

lemma boardKey_rev: "boardKey b = boardKey c \<Longrightarrow> cb_rev b = cb_rev c"
proof -
  assume k: "boardKey b = boardKey c"
  have bar: "CHR ''|'' \<notin> set (digits_of_nat n)" for n
    using digits_of_nat_digits [of n] by (auto simp: js_digit_def)
  have "takeWhile (\<lambda>x. x \<noteq> CHR ''|'') (digits_of_nat n @ ''|'' @ u) = digits_of_nat n" for n u
    using bar [of n] by (subst takeWhile_append2) auto
  with k have "digits_of_nat (cb_rev b) = digits_of_nat (cb_rev c)"
    by (metis boardKey_def nat_int not_less of_nat_0_le_iff show_int_def)
  then show ?thesis by (simp add: digits_of_nat_inj)
qed

lemma Applied_rev:
  assumes "applyBoardDelta b d = Applied c"
  shows "boardKey b = bd_base d" "cb_rev c = bt_rev (bd_top d)"
  using assms by (auto simp: applyBoardDelta_def Let_def split: if_splits option.splits)

lemma Applied_forward:
  assumes "applyBoardDelta b d = Applied c" "forward d"
  shows "cb_rev b \<le> cb_rev c"
proof -
  obtain b0 where b0: "boardKey b0 = bd_base d" "cb_rev b0 \<le> bt_rev (bd_top d)" using assms(2) by (auto simp: forward_def)
  have "cb_rev b0 = cb_rev b" by (rule boardKey_rev) (simp add: b0 Applied_rev(1) [OF assms(1)])
  with b0(2) Applied_rev(2) [OF assms(1)] show ?thesis by simp
qed

lemma shown_inv_set:
  assumes "shown_inv s" "\<And>h. fo_board s = Some h \<Longrightarrow> cb_rev h \<le> cb_rev b"
  shows "shown_inv (fo_set b s)"
proof (cases "fo_board s")
  case (Some h)
  then have "fo_shown s \<noteq> []" "last (fo_shown s) = h" using assms(1) by (auto simp: shown_inv_def)
  then obtain xs where xs: "fo_shown s = xs @ [h]" by (metis append_butlast_last_id)
  have "cb_rev h \<le> cb_rev b" using assms(2) Some by blast
  moreover have "sorted (map cb_rev (xs @ [h]))" using assms(1) xs by (simp add: shown_inv_def)
  ultimately have "sorted (map cb_rev ((xs @ [h]) @ [b]))" by (fastforce simp: sorted_append)
  with xs show ?thesis by (simp add: shown_inv_def fo_set_def)
next
  case None
  with assms(1) show ?thesis by (simp add: shown_inv_def fo_set_def)
qed

lemma hold_inv: "shown_inv s \<Longrightarrow> shown_inv (fo_hold b s)"
  by (auto simp: fo_hold_def intro: shown_inv_set split: option.splits)

lemma wait_inv_board [simp]: "wait_inv (fo_set b s) = wait_inv s" "wait_inv (fo_hold b s) = wait_inv s"
  by (auto simp: wait_inv_def fo_set_def fo_hold_def split: option.splits)

lemma refetch_inv:
  "fo_asked s = [] \<Longrightarrow> list_all forward q \<Longrightarrow> shown_inv s \<Longrightarrow> follower_inv (fo_refetch q s)"
  by (simp add: follower_inv_split wait_inv_def fo_refetch_def)

lemma take_delta_inv:
  assumes "follower_inv s" "forward d"
  shows "follower_inv (fst (fo_take_delta d s))"
proof (cases "fo_waiting s")
  case None
  then have a: "fo_asked s = []" "shown_inv s" "wait_inv s" using assms(1) by (auto simp: follower_inv_split wait_inv_def)
  show ?thesis
  proof (cases "fo_board s")
    case (Some b)
    have "follower_inv (fo_set c s)" if "applyBoardDelta b d = Applied c" for c
      using a shown_inv_set [OF a(2)] Applied_forward [OF that assms(2)] Some by (simp add: follower_inv_split)
    then show ?thesis using None Some a assms refetch_inv
      by (auto simp: fo_take_delta_def split: applied.splits)
  qed (use None a assms refetch_inv in \<open>simp add: fo_take_delta_def\<close>)
next
  case (Some q)
  then show ?thesis using assms by (simp add: fo_take_delta_def follower_inv_split wait_inv_def)
qed

lemma catch_up_inv: "follower_inv s \<Longrightarrow> follower_inv (fst (fo_catch_up d s))"
proof (cases "fo_board s")
  case (Some b)
  assume s: "follower_inv s"
  have "follower_inv (fo_set c s)" if "applyBoardDelta b d = Applied c" "cb_rev b < bt_rev (bd_top d)" for c
    using s shown_inv_set [of s c] Applied_rev [OF that(1)] that(2) Some by (simp add: follower_inv_split)
  with s Some show ?thesis by (auto simp: fo_catch_up_def split: applied.splits)
qed (simp add: fo_catch_up_def)

lemma each_inv:
  assumes "\<And>d s. d \<in> set ds \<Longrightarrow> follower_inv s \<Longrightarrow> follower_inv (fst (f d s))"
  shows "follower_inv s \<Longrightarrow> follower_inv (fo_each f ds s)"
  using assms by (induction ds arbitrary: s) (auto split: prod.splits, metis fst_conv, metis fst_conv)

lemma resolved_inv:
  assumes "follower_inv s" "a \<in> set (fo_asked s)"
  defines "t \<equiv> (resolve a s)\<lparr>fo_waiting := None\<rparr>"
  shows "follower_inv t" "\<exists>q. fo_waiting s = Some q \<and> list_all forward q"
proof -
  obtain q where q: "fo_waiting s = Some q" "list_all forward q" "length (fo_asked s) = 1"
    using assms by (auto simp: follower_inv_def split: option.splits)
  then have "fo_asked s = [a]" using assms(2) by (cases "fo_asked s") auto
  then show "follower_inv t" using assms(1) by (simp add: follower_inv_split wait_inv_def t_def resolve_def)
  show "\<exists>q. fo_waiting s = Some q \<and> list_all forward q" using q by blast
qed

lemma follower_step_inv:
  assumes s: "follower_inv s" and t: "follower_step s t"
  shows "follower_inv t"
  using t
proof cases
  case seed
  with s show ?thesis by (auto simp: fo_seed_def follower_inv_split wait_inv_def)
next
  case (board b)
  with s show ?thesis by (simp add: fo_take_def follower_inv_split hold_inv)
next
  case (delta d)
  with s take_delta_inv show ?thesis by (simp add: fo_take_def)
next
  case (cached c)
  note r = resolved_inv [OF s cached(2)]
  then obtain q where q: "fo_waiting s = Some q" "list_all forward q" by blast
  let ?s1 = "(resolve Cached s)\<lparr>fo_waiting := None\<rparr>"
  let ?s2 = "case c of Some b \<Rightarrow> fo_hold b ?s1 | None \<Rightarrow> ?s1"
  have s2: "follower_inv ?s2" using r(1) by (auto simp: follower_inv_split hold_inv split: option.splits)
  have "fo_asked ?s2 = []"
    using s2 by (auto simp: follower_inv_split wait_inv_def fo_hold_def fo_set_def split: option.splits if_splits)
  then have "follower_inv (fo_refetch q ?s2)" using s2 q by (intro refetch_inv) (auto simp: follower_inv_split)
  moreover have "follower_inv (fo_each fo_take_delta q ?s2)"
    using q(2) s2 by (intro each_inv take_delta_inv) (auto simp: list_all_iff)
  moreover have "fo_waiting (resolve Cached s) = Some q" using q by (simp add: resolve_def)
  ultimately show ?thesis using cached(1) by (simp add: fo_cached_def Let_def)
next
  case (fetched c)
  note r = resolved_inv [OF s fetched(2)]
  let ?s1 = "(resolve Fetch s)\<lparr>fo_waiting := None\<rparr>"
  have "follower_inv (case c of Some b \<Rightarrow> fo_hold b ?s1 | None \<Rightarrow> ?s1)"
    using r(1) by (auto simp: follower_inv_split hold_inv split: option.splits)
  then show ?thesis using fetched(1) by (auto simp: fo_fetched_def Let_def intro!: each_inv catch_up_inv)
qed

interpretation following: step_invariant "\<lambda>s. s = follower_start" follower_step follower_inv
proof unfold_locales
  show "follower_inv s" if "s = follower_start" for s
    using that by (simp add: follower_inv_def follower_start_def)
qed (rule follower_step_inv)

text \<open>
  C34. A page never shows an older board after a newer one, and never has two board requests under way. In every
  state the follower reaches, through any interleaving of seeding, whole boards, the server's deltas and the answers of its own requests,
  failed ones included, the boards it showed have revisions in order, and it has one request
  outstanding exactly while it queues deltas.
\<close>
theorem follower_never_goes_back:
  assumes "follower_step\<^sup>*\<^sup>* follower_start s"
  shows "sorted (map cb_rev (fo_shown s)) \<and> length (fo_asked s) = (if fo_waiting s = None then 0 else 1)
    \<and> (fo_shown s \<noteq> [] \<longrightarrow> fo_board s = Some (last (fo_shown s)))"
  using following.inv_reach [OF refl assms] by (auto simp: follower_inv_def split: option.splits)


section \<open>An example board\<close>

definition ex_fields :: "string \<Rightarrow> PlanStatus \<Rightarrow> plan_fields" where
  "ex_fields i st = \<lparr>pf_id = i, pf_text = ''step'', pf_status = st, pf_job = None, pf_note = None, pf_waitUntil = None,
     pf_waitFor = None, pf_sessionId = None, pf_go = False, pf_build = False, pf_requirements = None, pf_target = None,
     pf_duty = None, pf_reopened = False\<rparr>"

definition ex_todo :: "string \<Rightarrow> OwnerTodo" where
  "ex_todo i = \<lparr>td_id = i, td_text = ''sign in'', td_done = False, td_reply = None, td_choices = None, td_fromAgent = True,
     td_at = ''10-18'', td_step = None, td_answeredByOwner = False, td_links = None\<rparr>"

definition ex_board :: "nat \<Rightarrow> PlanItem list \<Rightarrow> OwnerTodo list \<Rightarrow> ChatBoard" where
  "ex_board r ps ts = \<lparr>cb_top = \<lparr>bt_rev = r, bt_updatedAt = ''10-18'', bt_lastIds = None\<rparr>, cb_plan = ps, cb_todos = ts\<rparr>"

definition ex_b1 :: ChatBoard where
  "ex_b1 = ex_board 1 [PlanItem (ex_fields ''p1'' Doing) [PlanItem (ex_fields ''p2'' Todo) []], PlanItem (ex_fields ''p3'' Todo) []] [ex_todo ''t1'']"

definition ex_b2 :: ChatBoard where
  "ex_b2 = ex_board 2 [PlanItem (ex_fields ''p1'' Doing) [PlanItem (ex_fields ''p2'' Done) [], PlanItem (ex_fields ''p4'' Todo) []], PlanItem (ex_fields ''p3'' Todo) []] [ex_todo ''t1'']"

definition ex_b3 :: ChatBoard where
  "ex_b3 = ex_board 3 [PlanItem (ex_fields ''p3'' Todo) [PlanItem (ex_fields ''p4'' Todo) []]] [ex_todo ''t2'', ex_todo ''t1'']"

theorem board_delta_roundtrip_witness:
  "case steps_along ex_b1 [ex_b2, ex_b3] of None \<Rightarrow> False
   | Some ss \<Rightarrow> (case boardDelta (boardKey ex_b1) ex_b3 ss of None \<Rightarrow> False | Some d \<Rightarrow> applyBoardDelta ex_b1 d = Applied ex_b3)"
proof -
  have "steps_along ex_b1 [ex_b2, ex_b3] \<noteq> None" by code_simp
  then obtain ss where ss: "steps_along ex_b1 [ex_b2, ex_b3] = Some ss" by blast
  show ?thesis using board_delta_roundtrip [OF ss] ss by auto
qed

theorem follower_never_goes_back_witness:
  "sorted (map cb_rev (fo_shown (fo_take (BoardEvent ex_b2) (fo_take (BoardEvent ex_b1) (fo_seed follower_start)))))
   \<and> length (fo_asked (fo_take (BoardEvent ex_b2) (fo_take (BoardEvent ex_b1) (fo_seed follower_start)))) = 1"
proof -
  let ?s = "fo_take (BoardEvent ex_b2) (fo_take (BoardEvent ex_b1) (fo_seed follower_start))"
  have "follower_step\<^sup>*\<^sup>* follower_start ?s"
    by (meson follower_step.seed follower_step.board rtranclp.intros)
  from follower_never_goes_back [OF this] have "sorted (map cb_rev (fo_shown ?s))"
    "length (fo_asked ?s) = (if fo_waiting ?s = None then 0 else 1)" by blast+
  moreover have "fo_waiting ?s \<noteq> None"
    by (simp add: fo_take_def fo_hold_def fo_set_def fo_seed_def follower_start_def)
  ultimately show ?thesis by simp
qed

end
