(* ===== verification/Duties.thy ===== *)
theory Duties
  imports Board
begin

text \<open>
  The rules of a chat's duties (\<open>shared/chat-duties.ts\<close>): a duty's definition and run records, when it is due, how
  a precheck's numbers are judged, and the definitions a person writes, parsed and filed.

  A metric value is a rational: the code reads a JSON value only as a finite number or as no number, so a value
  of a precheck is a \<open>rat option\<close>. Times are milliseconds since the epoch; the machine's local
  time is UTC plus a fixed offset, so a local day has 24 hours.
\<close>

section \<open>Data\<close>

datatype DutySchedule = Daily string | Every int

datatype metric_op = AtMost | AtLeast

record DutyMetric =
  dm_key :: string
  dm_label :: string
  dm_op :: metric_op
  dm_target :: rat
  dm_unit :: "string option"
  dm_headline :: bool
  dm_windowMs :: "rat option"

record DutyReading =
  dr_key :: string
  dr_label :: string
  dr_unit :: "string option"

record DutyPrecheck =
  pc_command :: "string list"
  pc_cwd :: string
  pc_timeoutMs :: rat

record PrecheckOverrun =
  ov_ms :: rat
  ov_targetMs :: rat

record FlaggedSlice =
  fs_chat :: "string option"
  fs_at :: "int option"
  fs_kind :: string
  fs_excerpt :: string
  fs_item :: "string option"
  fs_handOff :: bool
  fs_host :: "string option"
  fs_todo :: "string option"
  fs_sig :: "string option"

text \<open>An item of a precheck as it came: \<open>None\<close> for what is no object, no finite number or no known op.\<close>

record item_input =
  ii_value :: "rat option"
  ii_target :: "rat option"
  ii_op :: "metric_op option"

record notice =
  tl_chat :: string
  tl_text :: string
  tl_session :: "string option"

record PrecheckOutput =
  po_metrics :: "(string \<times> rat option) list"
  po_flagged :: "FlaggedSlice list option"
  po_lastEventAt :: "(string \<times> rat option) list"
  po_windowMs :: "(string \<times> rat option) list"
  po_items :: "(string \<times> item_input option) list"
  po_tells :: "notice list"

datatype duty_status = ActiveDuty | PausedDuty

record Duty =
  du_id :: string
  du_name :: string
  du_ownerWords :: string
  du_goal :: string
  du_metrics :: "DutyMetric list"
  du_readings :: "DutyReading list option"
  du_schedule :: DutySchedule
  du_precheck :: DutyPrecheck
  du_onMiss :: string
  du_boardGoal :: "string option"
  du_status :: duty_status
  du_createdAt :: int
  du_updatedAt :: int
  du_runCount :: nat
  du_lastRunAt :: "int option"
  du_lastSlotAt :: "int option"
  du_lastSkippedAt :: "int option"

datatype DutyTrigger = TrSchedule | TrCatchUp | TrOwner | TrVerify | TrPush | TrRerun | TrHostBack

datatype DutyVerdict = Met | Missed | Error | Skipped

record MetricResult =
  mr_value :: rat
  mr_target :: rat
  mr_op :: metric_op
  mr_met :: bool
  mr_lastEventAt :: "rat option"
  mr_windowMs :: "rat option"

type_synonym results = "(string \<times> MetricResult) list"

record DutyJobRef =
  jr_id :: string
  jr_name :: string

record DutyCut =
  dc_error :: string
  dc_at :: int
  dc_provider :: "string option"
  dc_slotAt :: "int option"

record CallProcess =
  cp_pid :: nat
  cp_command :: string
  cp_startedAt :: "int option"

record StalledCall =
  sc_session :: string
  sc_since :: int
  sc_process :: "CallProcess option"

record fix_target =
  ft_current :: rat
  ft_target :: rat
  ft_direction :: "direction option"
  ft_measuredAt :: "string option"

record FixLink =
  fl_step :: string
  fl_job :: "string option"
  fl_live :: bool
  fl_hold :: "string option"
  fl_target :: "fix_target option"
  fl_stalled :: "StalledCall option"

record AfterMeasure =
  am_at :: int
  am_verdict :: DutyVerdict
  am_metrics :: results
  am_summary :: string
  am_parts :: "results option"
  am_readings :: "(string \<times> rat) list option"
  am_items :: "results option"
  am_hostAway :: "string option"

record DutyRunRecord =
  rn_duty :: string
  rn_at :: int
  rn_slot :: "int option"
  rn_trigger :: DutyTrigger
  rn_ms :: nat
  rn_verdict :: DutyVerdict
  rn_metrics :: results
  rn_summary :: string
  rn_detail :: "string option"
  rn_error :: "string option"
  rn_parts :: "results option"
  rn_readings :: "(string \<times> rat) list option"
  rn_items :: "results option"
  rn_classes :: "(string \<times> int) list option"
  rn_flagged :: "FlaggedSlice list option"
  rn_job :: "DutyJobRef option"
  rn_overrun :: "PrecheckOverrun option"
  rn_fixes :: "(string \<times> FixLink) list option"
  rn_after :: "AfterMeasure option"
  rn_cut :: "DutyCut option"
  rn_rerunOf :: "int option"
  rn_hostAway :: "string option"
  rn_keptAt :: "int option"

datatype PoolPriority = High | Normal | Low

section \<open>Numbers and times as text\<close>

text \<open>\<open>Math.round\<close>, and the text of \<open>Math.round(x * 10) / 10\<close>.\<close>

definition js_round :: "rat \<Rightarrow> int" where
  "js_round x = \<lfloor>x + 1 / 2\<rfloor>"

definition tenths_text :: "int \<Rightarrow> string" where
  "tenths_text k = (let a = nat \<bar>k\<bar> in
     (if k < 0 then ''-'' else '''') @ digits_of_nat (a div 10) @ (if a mod 10 = 0 then '''' else ''.'' @ digits_of_nat (a mod 10)))"

definition number_text :: "rat \<Rightarrow> string" where
  "number_text x = tenths_text (js_round (x * 10))"

definition pad2 :: "nat \<Rightarrow> string" where
  "pad2 n = (if n < 10 then ''0'' else '''') @ digits_of_nat n"

text \<open>The year, month and day of a day number since 1970-01-01, and \<open>toISOString().slice(0, 16)\<close>.\<close>

definition civil :: "int \<Rightarrow> int \<times> nat \<times> nat" where
  "civil days =
     (let z = days + 719468; era = z div 146097; doe = z mod 146097;
          yoe = (doe - doe div 1460 + doe div 36524 - doe div 146096) div 365;
          doy = doe - (365 * yoe + yoe div 4 - yoe div 100);
          mp = (5 * doy + 2) div 153;
          month = (if mp < 10 then mp + 3 else mp - 9)
      in (yoe + era * 400 + (if month \<le> 2 then 1 else 0), nat month, nat (doy - (153 * mp + 2) div 5 + 1)))"

definition clock_text :: "int \<Rightarrow> string" where
  "clock_text ms = pad2 (nat ((ms div 3600000) mod 24)) @ '':'' @ pad2 (nat ((ms div 60000) mod 60))"

definition iso_minute :: "int \<Rightarrow> string" where
  "iso_minute ms = (case civil (ms div 86400000) of (y, m, d) \<Rightarrow>
     show_int y @ ''-'' @ pad2 m @ ''-'' @ pad2 d @ ''T'' @ clock_text ms)"

section \<open>Shape\<close>

definition headlineMetric :: "DutyMetric list \<Rightarrow> DutyMetric option" where
  "headlineMetric ms = List.find dm_headline ms"

definition MAX_DUTY_METRICS :: nat where "MAX_DUTY_METRICS = 4"

definition SHAPE_FIX :: string where
  \<open>SHAPE_FIX = ''keep the one number the owner would ask about as the headline ("headline": true), keep up to 3 supporting numbers he can read, ''
     @ ''and leave the rest in the precheck output, where the run detail shows them''\<close>

definition dutyShapeProblem :: "DutyMetric list \<Rightarrow> string option" where
  "dutyShapeProblem ms =
     (let headlines = map dm_key (filter dm_headline ms);
          problem =
            (if length ms > MAX_DUTY_METRICS
             then Some (digits_of_nat (length ms) @ '' metrics, over the limit of '' @ digits_of_nat MAX_DUTY_METRICS)
             else if headlines = [] then Some ''no headline metric''
             else if length headlines > 1 then Some (digits_of_nat (length headlines) @ '' headlines, '' @ js_join '' and '' headlines)
             else None)
      in map_option (\<lambda>p. ''metrics: a duty targets one headline metric and at most 3 supporting ones; this one has '' @ p
           @ ''. Fix it: '' @ SHAPE_FIX @ ''.'') problem)"

text \<open>The filter of the code drops the lead by identity: the first metric equal to it is the lead itself.\<close>

definition verdictMetrics :: "DutyMetric list \<Rightarrow> DutyMetric list" where
  "verdictMetrics ms =
     (case (case headlineMetric ms of Some h \<Rightarrow> Some h | None \<Rightarrow> (case ms of m # _ \<Rightarrow> Some m | [] \<Rightarrow> None)) of
        Some lead \<Rightarrow> lead # remove1 lead ms
      | None \<Rightarrow> [])"

definition overrunWords :: "PrecheckOverrun \<Rightarrow> string" where
  "overrunWords ov = ''the precheck took '' @ show_int (js_round (ov_ms ov / 1000)) @ '' s, over its ''
     @ show_int (js_round (ov_targetMs ov / 1000)) @ '' s target''"

definition shapeNote :: "DutyMetric list \<Rightarrow> string option" where
  "shapeNote ms = (if dutyShapeProblem ms = None then None else
     (let headlines = length (filter dm_headline ms) in
      Some (''this duty is over the shape target of one headline and 3 more ('' @ digits_of_nat (length ms) @ '' metrics, ''
        @ (if headlines = 1 then ''1 headline'' else digits_of_nat headlines @ '' headlines'') @ ''), ''
        @ ''and the verdict counts all of them; tell the chat to rework it with scripts/duties/add.ts: '' @ SHAPE_FIX)))"

section \<open>When a duty runs\<close>

definition MORNING_BANDS :: "PoolPriority \<Rightarrow> nat \<times> nat" where
  "MORNING_BANDS p = (case p of High \<Rightarrow> (360, 459) | Normal \<Rightarrow> (460, 559) | Low \<Rightarrow> (560, 659))"

definition CATCH_UP_MS :: int where "CATCH_UP_MS = 6 * 60 * 60000"

definition LATE_MS :: int where "LATE_MS = 5 * 60000"

definition ERROR_RUNS_TARGET :: nat where "ERROR_RUNS_TARGET = 3"

definition PRECHECK_TARGET_MS :: rat where "PRECHECK_TARGET_MS = 120000"

definition DAY_MS :: int where "DAY_MS = 86400000"

text \<open>\<open>HHMM\<close>: the hours and minutes of a text like 23:07.\<close>

definition HHMM :: "string \<Rightarrow> (nat \<times> nat) option" where
  "HHMM s = (case s of
     [a, b, c, d, e] \<Rightarrow>
       (if list_all js_digit [a, b, d, e] \<and> c = CHR '':'' \<and> nat_of_digits [a, b] < 24 \<and> digit_val d < 6
        then Some (nat_of_digits [a, b], nat_of_digits [d, e]) else None)
   | _ \<Rightarrow> None)"

text \<open>\<open>dailySlot\<close> throws on a time its pattern does not match; \<open>off\<close> is the local offset.\<close>

definition dailySlot :: "int \<Rightarrow> string \<Rightarrow> int \<Rightarrow> int res" where
  "dailySlot off tm now =
     (case HHMM tm of
        None \<Rightarrow> Inl ''object null is not iterable''
      | Some (h, m) \<Rightarrow>
          (let local = now + off; slot = local - local mod DAY_MS + int h * 3600000 + int m * 60000 - off in
           Inr (if slot > now then slot - DAY_MS else slot)))"

definition clock :: "nat \<Rightarrow> string" where
  "clock minute = pad2 (minute div 60) @ '':'' @ pad2 (minute mod 60)"

text \<open>\<open>minutes(from, to)\<close>; \<open>r\<close> is what \<open>random()\<close> gave, at least 0 and below 1.\<close>

definition morningTime :: "string set \<Rightarrow> PoolPriority \<Rightarrow> rat \<Rightarrow> string" where
  "morningTime taken p r =
     (case MORNING_BANDS p of (first, lst) \<Rightarrow>
        let free = filter (\<lambda>m. clock m \<notin> taken) [first..<Suc lst] in
        if free \<noteq> [] then clock (free ! min (length free - 1) (nat \<lfloor>r * of_nat (length free)\<rfloor>))
        else (case List.find (\<lambda>m. clock m \<notin> taken) [lst + 1..<Suc (snd (MORNING_BANDS Low))] of
                Some m \<Rightarrow> clock m
              | None \<Rightarrow> clock (first + min (lst - first) (nat \<lfloor>r * of_nat (lst - first + 1)\<rfloor>))))"

datatype due = NotDue | Run DutyTrigger int | Skip int

definition dutyDue :: "int \<Rightarrow> Duty \<Rightarrow> int \<Rightarrow> due res" where
  "dutyDue off d now =
     (if du_status d \<noteq> ActiveDuty then Inr NotDue
      else (case du_schedule d of
          Every minutes \<Rightarrow>
            Inr (if now - (case du_lastRunAt d of Some t \<Rightarrow> t | None \<Rightarrow> du_createdAt d) \<ge> minutes * 60000
                 then Run TrSchedule now else NotDue)
        | Daily tm \<Rightarrow> rbind (dailySlot off tm now) (\<lambda>slot.
            Inr (if slot \<le> max (case du_lastSlotAt d of Some t \<Rightarrow> t | None \<Rightarrow> 0) (du_createdAt d) then NotDue
                 else if now - slot > CATCH_UP_MS then Skip slot
                 else Run (if now - slot > LATE_MS then TrCatchUp else TrSchedule) slot))))"

definition nextRunAt :: "int \<Rightarrow> Duty \<Rightarrow> int \<Rightarrow> (int option) res" where
  "nextRunAt off d now =
     (if du_status d \<noteq> ActiveDuty then Inr None
      else (case du_schedule d of
          Every minutes \<Rightarrow> Inr (Some (max now ((case du_lastRunAt d of Some t \<Rightarrow> t | None \<Rightarrow> du_createdAt d) + minutes * 60000)))
        | Daily tm \<Rightarrow> rbind (dutyDue off d now) (\<lambda>due.
            case due of Run _ _ \<Rightarrow> Inr (Some now)
            | _ \<Rightarrow> rbind (dailySlot off tm now) (\<lambda>slot. Inr (Some (slot + DAY_MS))))))"

section \<open>Judging a precheck\<close>

definition metric_met :: "metric_op \<Rightarrow> rat \<Rightarrow> rat \<Rightarrow> bool" where
  "metric_met op target v = (case op of AtMost \<Rightarrow> v \<le> target | AtLeast \<Rightarrow> v \<ge> target)"

definition met :: "DutyMetric \<Rightarrow> rat \<Rightarrow> bool" where
  "met m v = metric_met (dm_op m) (dm_target m) v"

definition show_value :: "DutyMetric \<Rightarrow> rat \<Rightarrow> string" where
  "show_value m v = number_text v @ (case dm_unit m of Some u \<Rightarrow> u | None \<Rightarrow> '''')"

definition PLACEHOLDER :: rat where "PLACEHOLDER = 999999"

definition isPlaceholder :: "rat \<Rightarrow> bool" where
  "isPlaceholder v \<longleftrightarrow> v = PLACEHOLDER \<or> v = - PLACEHOLDER"

definition HOST_AWAY :: string where "HOST_AWAY = ''host_away''"

definition flagged_of :: "PrecheckOutput \<Rightarrow> FlaggedSlice list" where
  "flagged_of out = (case po_flagged out of Some fs \<Rightarrow> fs | None \<Rightarrow> [])"

definition hostAwayOf :: "PrecheckOutput \<Rightarrow> string option" where
  "hostAwayOf out = Option.bind
     (List.find (\<lambda>s. fs_kind s = HOST_AWAY \<and> (case fs_host s of Some h \<Rightarrow> h \<noteq> [] | None \<Rightarrow> False)) (flagged_of out)) fs_host"

text \<open>The ellipsis the code cuts a long text with lies outside the model's characters; \<open>CHR 133\<close> stands for it.\<close>

definition sourceReasons :: "PrecheckOutput \<Rightarrow> string" where
  "sourceReasons out =
     (let reasons = js_uniq (map (js_trim \<circ> fs_excerpt)
            (filter (\<lambda>s. fs_kind s = ''source_error'' \<or> fs_kind s = ''gap'' \<or> fs_kind s = HOST_AWAY) (flagged_of out)));
          tx = js_join ''; '' (take 4 reasons)
      in if length tx > 300 then take 299 tx @ [CHR 133] else tx)"

text \<open>The number an output gives under a key: \<open>None\<close> when it is absent, no number or not finite.\<close>

definition number_of :: "(string \<times> rat option) list \<Rightarrow> string \<Rightarrow> rat option" where
  "number_of xs k = Option.bind (map_of xs k) id"

definition plain_result :: "metric_op \<Rightarrow> rat \<Rightarrow> rat \<Rightarrow> MetricResult" where
  "plain_result op target v = \<lparr>mr_value = v, mr_target = target, mr_op = op, mr_met = metric_met op target v,
     mr_lastEventAt = None, mr_windowMs = None\<rparr>"

definition nonempty :: "'a list \<Rightarrow> 'a list option" where
  "nonempty xs = (if xs = [] then None else Some xs)"

definition metricParts :: "DutyMetric list \<Rightarrow> PrecheckOutput \<Rightarrow> results option" where
  "metricParts ms out = nonempty (fold (\<lambda>(key, v) parts.
     case (List.find (\<lambda>m. prefix (dm_key m @ ''_'') key) ms, v) of
       (Some m, Some x) \<Rightarrow>
         if key \<in> dm_key ` set ms \<or> isPlaceholder x then parts
         else AList.update key (plain_result (dm_op m) (dm_target m) x) parts
     | _ \<Rightarrow> parts) (po_metrics out) [])"

definition outputReadings :: "DutyReading list option \<Rightarrow> PrecheckOutput \<Rightarrow> (string \<times> rat) list option" where
  "outputReadings readings out = nonempty (fold (\<lambda>r found.
     case number_of (po_metrics out) (dr_key r) of
       Some x \<Rightarrow> if isPlaceholder x then found else AList.update (dr_key r) x found
     | None \<Rightarrow> found) (case readings of Some rs \<Rightarrow> rs | None \<Rightarrow> []) [])"

definition outputItems :: "PrecheckOutput \<Rightarrow> results option" where
  "outputItems out = nonempty (fold (\<lambda>(i, inp) found.
     case inp of
       Some it \<Rightarrow> (case (ii_value it, ii_target it, ii_op it) of
           (Some v, Some t, Some op) \<Rightarrow> if isPlaceholder v then found else AList.update i (plain_result op t v) found
         | _ \<Rightarrow> found)
     | None \<Rightarrow> found) (po_items out) [])"

definition UNMEASURED_HEADLINE_MS :: int where "UNMEASURED_HEADLINE_MS = 24 * 60 * 60000"

definition later :: "int option \<Rightarrow> int \<Rightarrow> int option" where
  "later newest t = (case newest of None \<Rightarrow> Some t | Some n \<Rightarrow> if t > n then Some t else newest)"

definition measuredAt :: "DutyRunRecord list \<Rightarrow> string \<Rightarrow> int option" where
  "measuredAt rs key = fold (\<lambda>r newest.
     let newest' = (if map_of (rn_metrics r) key \<noteq> None then later newest (rn_at r) else newest) in
     case rn_after r of
       Some a \<Rightarrow> if map_of (am_metrics a) key \<noteq> None then later newest' (am_at a) else newest'
     | None \<Rightarrow> newest') rs None"

text \<open>\<open>staleHeadline\<close> with the history's \<open>now\<close> and \<open>runs\<close>; \<open>Math.min\<close> of no run is not finite.\<close>

definition staleHeadline :: "DutyMetric list \<Rightarrow> PrecheckOutput \<Rightarrow> int \<Rightarrow> DutyRunRecord list \<Rightarrow> string option" where
  "staleHeadline ms out now rs =
     (case verdictMetrics ms of
        [] \<Rightarrow> None
      | lead # _ \<Rightarrow>
          if (case number_of (po_metrics out) (dm_key lead) of Some v \<Rightarrow> \<not> isPlaceholder v | None \<Rightarrow> False) then None
          else (let lst = measuredAt rs (dm_key lead) in
            case (case lst of Some t \<Rightarrow> Some t | None \<Rightarrow> (if rs = [] then None else Some (Min (set (map rn_at rs))))) of
              None \<Rightarrow> None
            | Some since \<Rightarrow>
                if now - since \<le> UNMEASURED_HEADLINE_MS then None
                else Some (''unmeasured: '' @ dm_key lead @ '', the headline, has no value ''
                  @ (if lst = None then ''in any run since'' else ''since its last measure at'') @ '' ''
                  @ iso_minute since @ ''Z, '' @ show_int (js_round (of_int (now - since) / 3600000)) @ '' h ago, over the 24 h limit'')))"

record judged =
  jd_verdict :: DutyVerdict
  jd_metrics :: results
  jd_summary :: string
  jd_parts :: "results option"
  jd_items :: "results option"

definition result_of :: "DutyMetric \<Rightarrow> PrecheckOutput \<Rightarrow> rat \<Rightarrow> MetricResult" where
  "result_of m out v = \<lparr>mr_value = v, mr_target = dm_target m, mr_op = dm_op m, mr_met = met m v,
     mr_lastEventAt = number_of (po_lastEventAt out) (dm_key m),
     mr_windowMs = (case number_of (po_windowMs out) (dm_key m) of Some w \<Rightarrow> if w > 0 then Some w else None | None \<Rightarrow> None)\<rparr>"

definition target_words :: "metric_op \<Rightarrow> string" where
  "target_words op = (case op of AtMost \<Rightarrow> ''at most'' | AtLeast \<Rightarrow> ''at least'')"

definition miss_words :: "DutyMetric \<Rightarrow> rat \<Rightarrow> string" where
  "miss_words m v = dm_key m @ '' '' @ show_value m v @ '' (target '' @ target_words (dm_op m) @ '' '' @ show_value m (dm_target m) @ '')''"

text \<open>The counted metrics of an output: those without a value, those with the placeholder, and the measured ones with their values.\<close>

definition no_value :: "PrecheckOutput \<Rightarrow> DutyMetric \<Rightarrow> bool" where
  "no_value out m \<longleftrightarrow> number_of (po_metrics out) (dm_key m) = None"

definition placeheld :: "PrecheckOutput \<Rightarrow> DutyMetric \<Rightarrow> bool" where
  "placeheld out m \<longleftrightarrow> (case number_of (po_metrics out) (dm_key m) of Some v \<Rightarrow> isPlaceholder v | None \<Rightarrow> False)"

definition value_in :: "PrecheckOutput \<Rightarrow> DutyMetric \<Rightarrow> rat" where
  "value_in out m = the (number_of (po_metrics out) (dm_key m))"

definition judgeCounted :: "DutyMetric list \<Rightarrow> PrecheckOutput \<Rightarrow> judged" where
  "judgeCounted ms out =
     (let note = shapeNote ms;
          counted = verdictMetrics ms;
          missing = filter (no_value out) counted;
          placeholders = filter (\<lambda>m. \<not> no_value out m \<and> placeheld out m) counted;
          absent = missing @ placeholders;
          reasons = (if absent \<noteq> [] then sourceReasons out else '''');
          unmeasured = js_join '' and ''
              ((if missing \<noteq> [] then [''the precheck gave no value for '' @ js_join '', '' (map dm_key missing)] else [])
               @ (if placeholders \<noteq> [] then [''the precheck wrote the placeholder 999999 for '' @ js_join '', '' (map dm_key placeholders)] else []))
            @ (if reasons \<noteq> '''' then '' ('' @ reasons @ '')'' else '''');
          withNote = (\<lambda>ps. js_join ''; '' (ps @ (case note of Some n \<Rightarrow> [n] | None \<Rightarrow> [])))
      in if absent \<noteq> [] \<and> length absent = length counted
         then \<lparr>jd_verdict = Error, jd_metrics = [], jd_summary = withNote [unmeasured], jd_parts = None, jd_items = None\<rparr>
         else
           (let ending = (\<lambda>s. withNote (s # (if absent \<noteq> [] then [''not measured: '' @ unmeasured] else [])));
                measured = filter (\<lambda>m. m \<notin> set absent) counted;
                results = fold (\<lambda>m. AList.update (dm_key m) (result_of m out (value_in out m))) measured [];
                misses = map (\<lambda>m. miss_words m (value_in out m)) (filter (\<lambda>m. \<not> met m (value_in out m)) measured);
                lead = Option.bind (headlineMetric measured) (\<lambda>h.
                  if map_option mr_met (map_of results (dm_key h)) = Some True then Some (dm_key h @ '' '' @ show_value h (value_in out h) @ '' (on target)'') else None);
                everything = ''all '' @ digits_of_nat (length measured) @ (if absent \<noteq> [] then '' measured'' else '''') @ '' on target''
            in if misses = []
               then \<lparr>jd_verdict = Met, jd_metrics = results,
                     jd_summary = ending (case lead of Some l \<Rightarrow> l @ ''; '' @ everything | None \<Rightarrow> everything), jd_parts = None, jd_items = None\<rparr>
               else \<lparr>jd_verdict = Missed, jd_metrics = results,
                     jd_summary = ending (js_join '', '' (case lead of Some l \<Rightarrow> l # misses | None \<Rightarrow> misses)), jd_parts = None, jd_items = None\<rparr>))"

definition judge :: "DutyMetric list \<Rightarrow> PrecheckOutput \<Rightarrow> (int \<times> DutyRunRecord list) option \<Rightarrow> judged" where
  "judge ms out history =
     (let judged = judgeCounted ms out in
      if jd_verdict judged = Error then judged
      else (case Option.bind history (\<lambda>(now, rs). staleHeadline ms out now rs) of
          Some stale \<Rightarrow> \<lparr>jd_verdict = Error, jd_metrics = jd_metrics judged, jd_summary = stale @ ''; '' @ jd_summary judged, jd_parts = None, jd_items = None\<rparr>
        | None \<Rightarrow> judged\<lparr>jd_parts := metricParts ms out, jd_items := outputItems out\<rparr>))"

definition errorStreak :: "DutyRunRecord list \<Rightarrow> nat" where
  "errorStreak rs = length (takeWhile (\<lambda>r. rn_verdict r = Error) (filter (\<lambda>r. rn_verdict r \<noteq> Skipped) rs))"

end
