(* ===== verification/DutyRules.thy ===== *)
theory DutyRules
  imports Duties
begin

text \<open>
  What the duty rules of \<^theory_text>\<open>Duties\<close> guarantee: the verdict of a precheck, the next time a duty
  runs, one run per daily slot, and the morning time of a new duty.
\<close>

section \<open>The verdict\<close>




text \<open>The headline leads, or the first metric when none is marked.\<close>

lemma verdictMetrics_lead:
  "ms \<noteq> [] \<Longrightarrow> hd (verdictMetrics ms) = (case headlineMetric ms of Some h \<Rightarrow> h | None \<Rightarrow> hd ms)"
  by (cases ms) (auto simp: verdictMetrics_def split: option.splits)













definition ex_metric :: "string \<Rightarrow> metric_op \<Rightarrow> rat \<Rightarrow> bool \<Rightarrow> DutyMetric" where
  "ex_metric k op t h = \<lparr>dm_key = k, dm_label = k, dm_op = op, dm_target = t, dm_unit = None, dm_headline = h, dm_windowMs = None\<rparr>"



section \<open>Daily slots\<close>

lemma dailySlot_Inr:
  assumes "dailySlot off tm now = Inr slot"
  obtains h m where "HHMM tm = Some (h, m)" "slot \<le> now" "now < slot + DAY_MS" "(slot + off - int h * 3600000 - int m * 60000) mod DAY_MS = 0"
proof -
  obtain h m where hm: "HHMM tm = Some (h, m)" using assms by (auto simp: dailySlot_def split: option.splits)
  let ?l = "now + off"
  let ?b = "?l - ?l mod DAY_MS"
  let ?t = "int h * 3600000 + int m * 60000"
  have lt: "0 \<le> ?t" "?t < DAY_MS"
  proof -
    have "h < 24" "m < 60"
      using hm by (auto simp: HHMM_def nat_of_digits_def digit_val_def js_digit_def split: list.splits if_splits)
    then show "?t < DAY_MS" by (simp add: DAY_MS_def)
  qed simp
  have b: "?b \<le> ?l" "?l < ?b + DAY_MS" "?b mod DAY_MS = 0"
    by (simp_all add: DAY_MS_def minus_mod_eq_mult_div)
  have s: "slot = (if ?b + ?t - off > now then ?b + ?t - off - DAY_MS else ?b + ?t - off)"
    using assms hm by (auto simp: dailySlot_def Let_def algebra_simps split: if_splits)
  have "slot + off - int h * 3600000 - int m * 60000 = (if ?b + ?t - off > now then ?b - DAY_MS else ?b)"
    unfolding s by simp
  then have "(slot + off - int h * 3600000 - int m * 60000) mod DAY_MS = 0"
    using b(3) by (simp add: mod_diff_right_eq mod_eq_0_iff_dvd)
  moreover have "slot \<le> now" "now < slot + DAY_MS" proof -
    define t where "t = ?t"
    define q where "q = ?l mod DAY_MS"
    have q: "0 \<le> q" "q < DAY_MS" by (simp_all add: q_def DAY_MS_def)
    have "slot = (if q < t then now - q + t - DAY_MS else now - q + t)" unfolding s t_def [symmetric] q_def [symmetric] by simp
    then have "slot \<le> now \<and> now < slot + DAY_MS" using q lt unfolding t_def [symmetric] by (simp split: if_splits)
    then show "slot \<le> now" "now < slot + DAY_MS" by blast+
  qed
  ultimately show thesis by (intro that [OF hm])
qed

lemma dailySlot_same:
  assumes s: "dailySlot off tm now = Inr slot" and u: "slot \<le> u" "u < slot + DAY_MS"
  shows "dailySlot off tm u = Inr slot"
proof -
  from s obtain h m where hm: "HHMM tm = Some (h, m)" and a: "(slot + off - int h * 3600000 - int m * 60000) mod DAY_MS = 0"
    by (rule dailySlot_Inr)
  obtain slot' where s': "dailySlot off tm u = Inr slot'" using hm by (simp add: dailySlot_def Let_def)
  then obtain h' m' where hm': "HHMM tm = Some (h', m')" and b: "slot' \<le> u" "u < slot' + DAY_MS"
    and a': "(slot' + off - int h' * 3600000 - int m' * 60000) mod DAY_MS = 0"
    by (rule dailySlot_Inr)
  let ?c = "off - int h * 3600000 - int m * 60000"
  have e: "(slot + ?c) mod DAY_MS = 0" "(slot' + ?c) mod DAY_MS = 0" using a a' hm hm' by (simp_all add: algebra_simps)
  have "slot + ?c = slot' + ?c"
  proof (cases "slot \<le> slot'")
    case True
    then show ?thesis using aligned_unique [OF e] b u by auto
  next
    case False
    then show ?thesis using aligned_unique [OF e(2,1)] b u by auto
  qed
  then show ?thesis using s' by simp
qed

lemma dailySlot_next:
  assumes s: "dailySlot off tm now = Inr slot"
  shows "dailySlot off tm (slot + DAY_MS) = Inr (slot + DAY_MS)"
proof -
  from s obtain h m where hm: "HHMM tm = Some (h, m)" and a: "(slot + off - int h * 3600000 - int m * 60000) mod DAY_MS = 0"
    by (rule dailySlot_Inr)
  let ?u = "slot + DAY_MS"
  obtain slot' where s': "dailySlot off tm ?u = Inr slot'" using hm by (simp add: dailySlot_def Let_def)
  then obtain h' m' where hm': "HHMM tm = Some (h', m')" and b: "slot' \<le> ?u" "?u < slot' + DAY_MS"
    and a': "(slot' + off - int h' * 3600000 - int m' * 60000) mod DAY_MS = 0"
    by (rule dailySlot_Inr)
  let ?c = "off - int h * 3600000 - int m * 60000"
  have e: "(slot' + ?c) mod DAY_MS = 0" using a' hm hm' by (simp add: algebra_simps)
  have e': "(slot + ?c + DAY_MS) mod DAY_MS = 0" by (rule aligned_next) (use a in \<open>simp add: algebra_simps\<close>)
  have "slot + ?c + DAY_MS = slot' + ?c" by (rule aligned_unique [OF e e']) (use b in linarith)+
  then show ?thesis using s' by simp
qed

definition runs_at :: "int \<Rightarrow> Duty \<Rightarrow> int \<Rightarrow> bool" where
  "runs_at off d t \<longleftrightarrow> (\<exists>tr slot. dutyDue off d t = Inr (Run tr slot))"

definition duty_times_ok :: "Duty \<Rightarrow> int \<Rightarrow> bool" where
  "duty_times_ok d now \<longleftrightarrow> 0 \<le> now \<and> du_createdAt d \<le> now \<and> (case du_lastSlotAt d of Some t \<Rightarrow> t \<le> now | None \<Rightarrow> True) \<and>
     (case du_schedule d of Daily tm \<Rightarrow> HHMM tm \<noteq> None | Every _ \<Rightarrow> True)"

text \<open>
  The next time a duty's card shows is the first time the duty runs: for an active duty with a
  readable schedule and no slot recorded in the future, \<open>nextRunAt\<close> returns a time not before now at which
  \<open>dutyDue\<close> says run, and \<open>dutyDue\<close> says run at no time between now and then.
\<close>
theorem nextRunAt_first_due:
  assumes act: "du_status d = ActiveDuty" and ok: "duty_times_ok d now"
  shows "\<exists>t. nextRunAt off d now = Inr (Some t) \<and> now \<le> t \<and> runs_at off d t \<and> \<not> (\<exists>u. now \<le> u \<and> u < t \<and> runs_at off d u)"
proof (cases "du_schedule d")
  case (Every n)
  then show ?thesis using act by (auto simp: nextRunAt_def runs_at_def dutyDue_def max_def)
next
  case (Daily tm)
  then obtain slot where s: "dailySlot off tm now = Inr slot" using ok by (auto simp: duty_times_ok_def dailySlot_def Let_def)
  from s have b: "slot \<le> now" "now < slot + DAY_MS" by (auto elim: dailySlot_Inr)
  let ?floor = "max (case du_lastSlotAt d of Some t \<Rightarrow> t | None \<Rightarrow> 0) (du_createdAt d)"
  show ?thesis
  proof (cases "runs_at off d now")
    case True
    then have "nextRunAt off d now = Inr (Some now)" using act Daily by (auto simp: nextRunAt_def runs_at_def)
    with True show ?thesis by auto
  next
    case False
    then have nx: "nextRunAt off d now = Inr (Some (slot + DAY_MS))"
      using act Daily s by (auto simp: nextRunAt_def runs_at_def dutyDue_def split: if_splits)
    have "?floor < slot + DAY_MS" using ok b by (auto simp: duty_times_ok_def split: option.splits)
    then have "runs_at off d (slot + DAY_MS)"
      using act Daily dailySlot_next [OF s] by (auto simp: runs_at_def dutyDue_def CATCH_UP_MS_def)
    moreover have "\<not> runs_at off d u" if "now \<le> u" "u < slot + DAY_MS" for u
    proof -
      have "dailySlot off tm u = Inr slot" using dailySlot_same [OF s] b that by simp
      moreover have "slot \<le> ?floor \<or> now - slot > CATCH_UP_MS" using False act Daily s by (auto simp: runs_at_def dutyDue_def split: if_splits)
      ultimately show ?thesis using act Daily that by (auto simp: runs_at_def dutyDue_def split: if_splits)
    qed
    ultimately show ?thesis using nx b by force
  qed
qed

text \<open>
  A daily slot runs once: when a daily duty is due for a slot, recording that slot (as a run or as a skip) leaves it not due
  at any time until the next day's slot.
\<close>
theorem duty_once_per_slot:
  assumes "du_schedule d = Daily tm" and due: "dutyDue off d now = Inr (Run tr slot) \<or> dutyDue off d now = Inr (Skip slot)"
    and u: "slot \<le> u" "u < slot + DAY_MS"
  shows "dutyDue off (d\<lparr>du_lastSlotAt := Some slot\<rparr>) u = Inr NotDue"
proof -
  have "dailySlot off tm now = Inr slot"
    using assms(1) due by (auto simp: dutyDue_def split: if_splits)
  from dailySlot_same [OF this u] show ?thesis using assms(1) by (simp add: dutyDue_def)
qed


definition ex_duty :: Duty where
  "ex_duty = \<lparr>du_id = ''d1'', du_name = ''Portal'', du_ownerWords = ''keep it up'', du_goal = ''up'', du_metrics = [ex_metric ''up_pct'' AtLeast 99 True],
     du_readings = None, du_schedule = Daily ''09:30'', du_precheck = \<lparr>pc_command = [''node''], pc_cwd = ''/'', pc_timeoutMs = 120000\<rparr>,
     du_onMiss = ''fix it'', du_boardGoal = None, du_status = ActiveDuty, du_createdAt = 1000, du_updatedAt = 1000, du_runCount = 0,
     du_lastRunAt = None, du_lastSlotAt = None, du_lastSkippedAt = None\<rparr>"

lemma HHMM_0930: "HHMM ''09:30'' = Some (9, 30)"
  by code_simp

theorem nextRunAt_first_due_witness:
  "\<exists>t. nextRunAt 0 ex_duty 2000 = Inr (Some t) \<and> 2000 \<le> t \<and> runs_at 0 ex_duty t \<and> \<not> (\<exists>u. 2000 \<le> u \<and> u < t \<and> runs_at 0 ex_duty u)"
  by (rule nextRunAt_first_due) (simp_all add: ex_duty_def duty_times_ok_def HHMM_0930)

theorem duty_once_per_slot_witness:
  "dutyDue 0 (ex_duty\<lparr>du_lastSlotAt := Some 34200000\<rparr>) 50000000 = Inr NotDue"
proof (rule duty_once_per_slot [where now = 34260000 and tr = TrSchedule and tm = "''09:30''"])
  show "dutyDue 0 ex_duty 34260000 = Inr (Run TrSchedule 34200000) \<or> dutyDue 0 ex_duty 34260000 = Inr (Skip 34200000)"
    by (simp add: dutyDue_def ex_duty_def dailySlot_def HHMM_0930 DAY_MS_def CATCH_UP_MS_def LATE_MS_def)
qed (simp_all add: ex_duty_def DAY_MS_def)

section \<open>The morning time\<close>

lemma pick_in_range: "0 \<le> r \<Longrightarrow> xs \<noteq> [] \<Longrightarrow> xs ! min (length xs - 1) (nat \<lfloor>r * of_nat (length xs)\<rfloor>) \<in> set xs"
  by (rule nth_mem) (cases xs, auto)

text \<open>
  A new duty's daily time lies in the morning window from the start of its priority's band, whatever the random number; it is a minute
  no duty uses whenever one is left from the band's start to the window's end, and inside the band whenever the band has one left.
\<close>
theorem morningTime_free:
  assumes r: "0 \<le> r" and band: "MORNING_BANDS p = (f, l)"
  shows "\<exists>m. morningTime taken p r = clock m \<and> f \<le> m \<and> m \<le> 659
    \<and> ((\<exists>k. f \<le> k \<and> k \<le> 659 \<and> clock k \<notin> taken) \<longrightarrow> clock m \<notin> taken)
    \<and> ((\<exists>k. f \<le> k \<and> k \<le> l \<and> clock k \<notin> taken) \<longrightarrow> m \<le> l)"
proof -
  have fl: "f \<le> l" "l \<le> 659" using band by (auto simp: MORNING_BANDS_def split: PoolPriority.splits)
  define free where "free = filter (\<lambda>m. clock m \<notin> taken) [f..<Suc l]"
  let ?after = "List.find (\<lambda>m. clock m \<notin> taken) [l + 1..<660]"
  have mt: "morningTime taken p r = (if free \<noteq> [] then clock (free ! min (length free - 1) (nat \<lfloor>r * of_nat (length free)\<rfloor>))
      else (case ?after of Some m \<Rightarrow> clock m | None \<Rightarrow> clock (f + min (l - f) (nat \<lfloor>r * of_nat (l - f + 1)\<rfloor>))))"
    using band by (simp add: morningTime_def Let_def free_def MORNING_BANDS_def [of Low])
  have empty: "free = [] \<longleftrightarrow> \<not> (\<exists>k. f \<le> k \<and> k \<le> l \<and> clock k \<notin> taken)"
    by (auto simp: free_def filter_empty_conv)
  show ?thesis
  proof (cases "free = []")
    case False
    define m where "m = free ! min (length free - 1) (nat \<lfloor>r * of_nat (length free)\<rfloor>)"
    have "m \<in> set free" unfolding m_def using pick_in_range [OF r False] .
    then have "m \<in> {k. k \<in> set [f..<Suc l] \<and> clock k \<notin> taken}" unfolding free_def set_filter by blast
    then have "f \<le> m" "m \<le> l" "clock m \<notin> taken" by auto
    with mt False fl show ?thesis unfolding m_def [symmetric] by (intro exI [of _ m]) simp
  next
    case True
    show ?thesis
    proof (cases ?after)
      case None
      then have "\<not> (\<exists>k. f \<le> k \<and> k \<le> 659 \<and> clock k \<notin> taken)"
        using True empty unfolding find_None_iff by (auto simp: not_le Suc_le_eq) (metis less_Suc_eq_le not_less eval_nat_numeral(3) numeral_plus_one semiring_norm(2,5,8) Suc_eq_plus1)
      with mt True None fl empty show ?thesis
        by (intro exI [of _ "f + min (l - f) (nat \<lfloor>r * of_nat (l - f + 1)\<rfloor>)"]) auto
    next
      case (Some m)
      then have "m \<in> set [l + 1..<660]" "clock m \<notin> taken" by (auto simp: find_Some_iff dest: nth_mem)
      with mt True Some fl empty show ?thesis by (intro exI [of _ m]) auto
    qed
  qed
qed

theorem morningTime_free_witness:
  "\<exists>m. morningTime {clock 360} High (1 / 3) = clock m \<and> 360 \<le> m \<and> m \<le> 659"
  using morningTime_free [of "1 / 3" High 360 459 "{clock 360}"] by (auto simp: MORNING_BANDS_def)

end
