(* ===== verification/Json.thy ===== *)
theory Json
  imports Complex_Main Prelude
begin

text \<open>
  The values \<open>JSON.parse\<close> gives and the reads the modelled code makes of them. A JSON number is finite, so it is a rational;
  an object is its fields in order. Where a text is parsed, the parse itself, \<open>None\<close> for a text it refuses, is an argument.
\<close>

datatype json = JNull | JBool bool | JNum rat | JStr string | JArr "json list" | JObj "(string \<times> json) list"

fun isRecord :: "json \<Rightarrow> bool" where
  "isRecord (JObj _) = True"
| "isRecord _ = False"

text \<open>A property read: \<open>None\<close> is \<open>undefined\<close>.\<close>

fun field :: "json \<Rightarrow> string \<Rightarrow> json option" where
  "field (JObj fs) k = map_of fs k"
| "field _ k = None"

definition as_string :: "json option \<Rightarrow> string option" where
  "as_string v = (case v of Some (JStr s) \<Rightarrow> Some s | _ \<Rightarrow> None)"

definition as_number :: "json option \<Rightarrow> rat option" where
  "as_number v = (case v of Some (JNum q) \<Rightarrow> Some q | _ \<Rightarrow> None)"

end
