(* ===== verification/DutyFile.thy ===== *)
theory DutyFile
  imports Duties Json
begin

text \<open>
  Duty definitions as a person or a request writes them (\<open>shared/chat-duties.ts\<close>): the parser with every error it throws, adding or
  updating a duty by name, duty ids, the stored duties file and the built-in check-in's metrics.

  The check of branch names (\<open>machine-branches.ts\<close>) is an argument of \<open>upsertDuty\<close>.
\<close>

section \<open>Definitions\<close>

text \<open>\<open>str\<close>: a string with more than whitespace.\<close>

definition str :: "json option \<Rightarrow> string option" where
  "str v = (case as_string v of Some s \<Rightarrow> if js_trim s \<noteq> [] then Some s else None | None \<Rightarrow> None)"

definition lower_letter :: "char \<Rightarrow> bool" where
  "lower_letter c \<longleftrightarrow> 97 \<le> (of_char c :: nat) \<and> (of_char c :: nat) \<le> 122"

definition KEY :: "string \<Rightarrow> bool" where
  "KEY s \<longleftrightarrow> (case s of c # cs \<Rightarrow> lower_letter c \<and> length cs \<le> 39 \<and>
     list_all (\<lambda>c. lower_letter c \<or> js_digit c \<or> c = CHR ''_'') cs | [] \<Rightarrow> False)"

definition plan_id :: "string \<Rightarrow> bool" where
  "plan_id s \<longleftrightarrow> (case s of c # cs \<Rightarrow> c = CHR ''p'' \<and> cs \<noteq> [] \<and> list_all js_digit cs | [] \<Rightarrow> False)"

definition parseDutySchedule :: "json option \<Rightarrow> DutySchedule res" where
  "parseDutySchedule v =
     (let bad = Inl ''schedule: { kind: daily, at: HH:MM } or { kind: every, minutes } with a whole number of minutes.'' in
      case v of
        Some (JObj fs) \<Rightarrow>
          (case (as_string (map_of fs ''kind''), as_string (map_of fs ''at''), as_number (map_of fs ''minutes'')) of
             (Some k, tm, n) \<Rightarrow>
               if k = ''daily'' then (case tm of Some t \<Rightarrow> if HHMM t \<noteq> None then Inr (Daily t) else bad | None \<Rightarrow> bad)
               else if k = ''every'' then
                 (case n of Some q \<Rightarrow> if of_int \<lfloor>q\<rfloor> = q \<and> q \<ge> 1 then Inr (Every \<lfloor>q\<rfloor>) else bad | None \<Rightarrow> bad)
               else bad
           | _ \<Rightarrow> bad)
      | _ \<Rightarrow> bad)"

definition parse_op :: "json option \<Rightarrow> metric_op option" where
  "parse_op v = (case as_string v of
     Some s \<Rightarrow> if s = ''<='' then Some AtMost else if s = ''>='' then Some AtLeast else None
   | None \<Rightarrow> None)"

definition unit_ok :: "json option \<Rightarrow> bool" where
  "unit_ok v \<longleftrightarrow> v = None \<or> as_string v \<noteq> None"

definition parse_metric :: "nat \<Rightarrow> json \<Rightarrow> DutyMetric res" where
  "parse_metric index v =
     (case (as_string (field v ''key''), str (field v ''label''), parse_op (field v ''op''), as_number (field v ''target'')) of
        (Some k, Some l, Some op, Some t) \<Rightarrow>
          if KEY k \<and> unit_ok (field v ''unit'')
          then Inr \<lparr>dm_key = k, dm_label = l, dm_op = op, dm_target = t, dm_unit = as_string (field v ''unit''),
                    dm_headline = (field v ''headline'' = Some (JBool True)),
                    dm_windowMs = (case as_number (field v ''windowMs'') of Some w \<Rightarrow> if w > 0 then Some w else None | None \<Rightarrow> None)\<rparr>
          else Inl (''metrics['' @ digits_of_nat index @ '']: key, label, op (<= or >=) and target.'')
      | _ \<Rightarrow> Inl (''metrics['' @ digits_of_nat index @ '']: key, label, op (<= or >=) and target.''))"

definition parse_reading :: "DutyMetric list \<Rightarrow> nat \<Rightarrow> json \<Rightarrow> DutyReading res" where
  "parse_reading ms index v =
     (let bad = Inl (''readings['' @ digits_of_nat index @ '']: key, label and unit?, with a key that is no metric's.'') in
      case (as_string (field v ''key''), str (field v ''label'')) of
        (Some k, Some l) \<Rightarrow>
          if KEY k \<and> unit_ok (field v ''unit'') \<and> k \<notin> dm_key ` set ms
          then Inr \<lparr>dr_key = k, dr_label = l, dr_unit = as_string (field v ''unit'')\<rparr> else bad
      | _ \<Rightarrow> bad)"

definition parse_list :: "(nat \<Rightarrow> json \<Rightarrow> 'a res) \<Rightarrow> json list \<Rightarrow> 'a list res" where
  "parse_list f xs = rmap (\<lambda>(i, x). f i x) (enumerate 0 xs)"

definition parse_precheck :: "json option \<Rightarrow> DutyPrecheck res" where
  "parse_precheck v =
     (let bad = Inl ''precheck: { command: [argv], cwd, timeoutMs? }.'' in
      case v of
        Some (JObj fs) \<Rightarrow>
          (case (map_of fs ''command'', str (map_of fs ''cwd'')) of
             (Some (JArr ws), Some cwd) \<Rightarrow>
               (let words = map (\<lambda>w. as_string (Some w)) ws in
                if ws \<noteq> [] \<and> list_all (\<lambda>w. w \<noteq> None \<and> w \<noteq> Some []) words
                then Inr \<lparr>pc_command = map the words, pc_cwd = cwd,
                  pc_timeoutMs = (case as_number (map_of fs ''timeoutMs'') of Some t \<Rightarrow> if t > 0 then t else PRECHECK_TARGET_MS | None \<Rightarrow> PRECHECK_TARGET_MS)\<rparr>
                else bad)
           | _ \<Rightarrow> bad)
      | _ \<Rightarrow> bad)"

text \<open>The fields a person writes; \<open>parseDutyInput\<close> adds the id, the times and an empty run state.\<close>

record duty_fields =
  df_name :: string
  df_ownerWords :: string
  df_goal :: string
  df_metrics :: "DutyMetric list"
  df_readings :: "DutyReading list option"
  df_schedule :: DutySchedule
  df_precheck :: DutyPrecheck
  df_onMiss :: string
  df_boardGoal :: "string option"

definition mark_single :: "DutyMetric list \<Rightarrow> DutyMetric list" where
  "mark_single ms = (case ms of [m] \<Rightarrow> [m\<lparr>dm_headline := True\<rparr>] | _ \<Rightarrow> ms)"

definition need :: "'a option \<Rightarrow> string \<Rightarrow> 'a res" where
  "need v e = (case v of Some x \<Rightarrow> Inr x | None \<Rightarrow> Inl e)"

definition check :: "bool \<Rightarrow> string \<Rightarrow> unit res" where
  "check b e = (if b then Inr () else Inl e)"

definition parse_fields :: "json \<Rightarrow> DutySchedule option \<Rightarrow> duty_fields res" where
  "parse_fields v sch =
     rbind (check (isRecord v) ''A duty is an object.'') (\<lambda>_.
     rbind (need (str (field v ''name'')) ''name: the system the duty looks after, in plain words.'') (\<lambda>name.
     rbind (need (str (field v ''ownerWords'')) ''ownerWords: the owner's words, verbatim.'') (\<lambda>words.
     rbind (need (str (field v ''goal'')) ''goal: what good means, in plain words.'') (\<lambda>goal.
     rbind (need (str (field v ''onMiss'')) ''onMiss: what the duty job does about a miss.'') (\<lambda>onMiss.
     rbind (check (field v ''boardGoal'' = None \<or> (case as_string (field v ''boardGoal'') of Some g \<Rightarrow> plan_id g | None \<Rightarrow> False))
              ''boardGoal: a plan item id like p87.'') (\<lambda>_.
     rbind (need (case field v ''metrics'' of Some (JArr xs) \<Rightarrow> if xs \<noteq> [] then Some xs else None | _ \<Rightarrow> None)
              ''metrics: at least one, with the headline marked.'') (\<lambda>xs.
     rbind (parse_list parse_metric xs) (\<lambda>ms0. let ms = mark_single ms0 in
     rbind (need (case field v ''readings'' of None \<Rightarrow> Some [] | Some (JArr rs) \<Rightarrow> Some rs | _ \<Rightarrow> None)
              ''readings: a list of { key, label, unit? }.'') (\<lambda>rs.
     rbind (parse_list (parse_reading ms) rs) (\<lambda>readings.
     rbind (case (field v ''schedule'', sch) of (None, Some s) \<Rightarrow> Inr s | (w, _) \<Rightarrow> parseDutySchedule w) (\<lambda>schedule.
     rbind (parse_precheck (field v ''precheck'')) (\<lambda>precheck.
     Inr \<lparr>df_name = js_trim name, df_ownerWords = words, df_goal = js_trim goal, df_metrics = ms,
          df_readings = (if readings = [] then None else Some readings), df_schedule = schedule, df_precheck = precheck,
          df_onMiss = js_trim onMiss, df_boardGoal = as_string (field v ''boardGoal'')\<rparr>))))))))))))"

definition parseDutyInput :: "json \<Rightarrow> string \<Rightarrow> int \<Rightarrow> DutySchedule option \<Rightarrow> Duty res" where
  "parseDutyInput v i now sch = rbind (parse_fields v sch) (\<lambda>f.
     Inr \<lparr>du_id = i, du_name = df_name f, du_ownerWords = df_ownerWords f, du_goal = df_goal f, du_metrics = df_metrics f,
          du_readings = df_readings f, du_schedule = df_schedule f, du_precheck = df_precheck f, du_onMiss = df_onMiss f,
          du_boardGoal = df_boardGoal f, du_status = ActiveDuty, du_createdAt = now, du_updatedAt = now, du_runCount = 0,
          du_lastRunAt = None, du_lastSlotAt = None, du_lastSkippedAt = None\<rparr>)"

text \<open>\<open>Number(id.slice(1)) || 0\<close> of a text of digits; another text counts as 0.\<close>

definition id_number :: "string \<Rightarrow> nat" where
  "id_number i = (let r = drop 1 i in if r \<noteq> [] \<and> list_all js_digit r then nat_of_digits r else 0)"

definition nextDutyId :: "Duty list \<Rightarrow> string" where
  "nextDutyId ds = ''d'' @ digits_of_nat (fold (\<lambda>d m. max m (id_number (du_id d))) ds 0 + 1)"

definition merge :: "Duty \<Rightarrow> Duty \<Rightarrow> Duty" where
  "merge e p = e\<lparr>du_name := du_name p, du_ownerWords := du_ownerWords p, du_goal := du_goal p, du_metrics := du_metrics p,
     du_readings := du_readings p, du_schedule := du_schedule p, du_precheck := du_precheck p, du_onMiss := du_onMiss p,
     du_boardGoal := (case du_boardGoal p of Some g \<Rightarrow> Some g | None \<Rightarrow> du_boardGoal e)\<rparr>"

definition same_name :: "string \<Rightarrow> Duty \<Rightarrow> bool" where
  "same_name n d \<longleftrightarrow> du_name d = n"

definition STRAY_BRANCH_FIX :: string where
  "STRAY_BRANCH_FIX = ''Each machine has one checkout and one dev branch (c119): dev/sieun on us-metal02 and dev/sieun-mac on the Mac. ''
     @ ''Name the machine's branch, and never give a job its own branch, clone or worktree.''"

text \<open>What \<open>upsertDuty\<close> returns and the duties after it; when it throws, the list is as it was.\<close>

definition upsertDuty :: "(json \<Rightarrow> string list) \<Rightarrow> Duty list \<Rightarrow> json \<Rightarrow> int \<Rightarrow> string option \<Rightarrow> (string \<times> Duty list) res" where
  "upsertDuty stray ds v now morning =
     (let name = map_option js_trim (as_string (field v ''name''));
          before = Option.bind name (\<lambda>n. List.find (same_name n) ds) in
      rbind (check (\<not> isRecord v \<or> stray v = [])
        (''names '' @ js_join '', '' (map (\<lambda>b. CHR 34 # b @ [CHR 34]) (stray v)) @ ''. '' @ STRAY_BRANCH_FIX)) (\<lambda>_.
      rbind (parseDutyInput v (nextDutyId ds) now
        (case before of Some d \<Rightarrow> Some (du_schedule d) | None \<Rightarrow> map_option Daily morning)) (\<lambda>p.
      case find_index (same_name (du_name p)) ds of
        None \<Rightarrow> Inr (''added '' @ du_id p, ds @ [p])
      | Some k \<Rightarrow>
          if merge (ds ! k) p = ds ! k then Inr (''unchanged '' @ du_id (ds ! k), ds)
          else Inr (''updated '' @ du_id (ds ! k), ds[k := (merge (ds ! k) p)\<lparr>du_updatedAt := now\<rparr>]))))"

record check_in_state =
  ci_createdAt :: rat
  ci_runCount :: rat
  ci_lastRunAt :: "rat option"

record duty_file =
  dy_duties :: "json list"
  dy_checkIn :: "check_in_state option"
  dy_noDuties :: "string option"

text \<open>A stored duty is kept as it is when it has the shape of one.\<close>

definition stored_duty :: "json \<Rightarrow> bool" where
  "stored_duty d \<longleftrightarrow> isRecord d \<and> as_string (field d ''id'') \<noteq> None
     \<and> (case field d ''schedule'' of Some s \<Rightarrow> isRecord s | None \<Rightarrow> False)
     \<and> (case field d ''precheck'' of Some s \<Rightarrow> isRecord s | None \<Rightarrow> False)
     \<and> (case field d ''metrics'' of Some (JArr _) \<Rightarrow> True | _ \<Rightarrow> False)
     \<and> (as_string (field d ''status'') = Some ''active'' \<or> as_string (field d ''status'') = Some ''paused'')
     \<and> as_number (field d ''runCount'') \<noteq> None"

definition parseDutyFile :: "json \<Rightarrow> duty_file" where
  "parseDutyFile v =
     \<lparr>dy_duties = filter stored_duty (case field v ''duties'' of Some (JArr ds) \<Rightarrow> ds | _ \<Rightarrow> []),
      dy_checkIn = (case field v ''checkIn'' of
          Some c \<Rightarrow> (case (as_number (field c ''createdAt''), as_number (field c ''runCount'')) of
              (Some t, Some n) \<Rightarrow> Some \<lparr>ci_createdAt = t, ci_runCount = n, ci_lastRunAt = as_number (field c ''lastRunAt'')\<rparr>
            | _ \<Rightarrow> None)
        | None \<Rightarrow> None),
      dy_noDuties = (case as_string (field v ''noDuties'') of Some s \<Rightarrow> if s \<noteq> [] then Some s else None | None \<Rightarrow> None)\<rparr>"

definition CHECK_IN_DUTY_ID :: string where "CHECK_IN_DUTY_ID = ''checkin''"

definition CHECK_IN_METRICS :: "DutyMetric list" where
  "CHECK_IN_METRICS =
     (let m = (\<lambda>k l h. \<lparr>dm_key = k, dm_label = l, dm_op = AtMost, dm_target = 0, dm_unit = None, dm_headline = h, dm_windowMs = None\<rparr>) in
      [m ''goal_gaps'' ''Open goals no live job works on'' True,
       m ''stuck_steps'' ''Open steps nobody is moving (no live job, For you todo or owner ruling holds them)'' False,
       m ''no_done_line'' (''Open goals with no done line (no target and no '' @ [CHR 34] @ ''Done when'' @ [CHR 34] @ '' note)'') False,
       m ''plan_risks'' ''Open plan items that hold a standing risk or upkeep, not a task that finishes'' False])"

section \<open>What the parser guarantees\<close>

lemma check_in_shape: "dutyShapeProblem CHECK_IN_METRICS = None"
  by code_simp

lemma parse_fields_schedule:
  assumes "parse_fields v sch = Inr f"
  shows "parse_fields v (Some (df_schedule f)) = Inr f"
proof -
  obtain sc where sc: "(case (field v ''schedule'', sch) of (None, Some s) \<Rightarrow> Inr s | (w, _) \<Rightarrow> parseDutySchedule w) = Inr sc" "df_schedule f = sc"
    using assms by (auto simp: parse_fields_def Let_def)
  have n: "parseDutySchedule None \<noteq> Inr s" for s by (simp add: parseDutySchedule_def)
  have "(case (field v ''schedule'', Some sc) of (None, Some s) \<Rightarrow> Inr s | (w, _) \<Rightarrow> parseDutySchedule w) = (Inr sc :: DutySchedule res)"
    using sc(1) n by (auto split: option.splits)
  with assms sc show ?thesis by (simp add: parse_fields_def Let_def)
qed


lemma parse_name: "parse_fields v sch = Inr f \<Longrightarrow> map_option js_trim (as_string (field v ''name'')) = Some (df_name f)"
  by (auto simp: parse_fields_def Let_def need_def str_def split: option.splits if_splits)

text \<open>The run state of a duty: what a definition never touches.\<close>

definition run_state :: "Duty \<Rightarrow> string \<times> duty_status \<times> int \<times> nat \<times> int option \<times> int option \<times> int option" where
  "run_state d = (du_id d, du_status d, du_createdAt d, du_runCount d, du_lastRunAt d, du_lastSlotAt d, du_lastSkippedAt d)"

text \<open>A duty that says what the written fields say, so that applying them again changes nothing.\<close>

definition says :: "duty_fields \<Rightarrow> Duty \<Rightarrow> bool" where
  "says f d \<longleftrightarrow> du_name d = df_name f \<and> du_ownerWords d = df_ownerWords f \<and> du_goal d = df_goal f \<and> du_metrics d = df_metrics f
     \<and> du_readings d = df_readings f \<and> du_schedule d = df_schedule f \<and> du_precheck d = df_precheck f \<and> du_onMiss d = df_onMiss f
     \<and> (df_boardGoal f = None \<or> du_boardGoal d = df_boardGoal f)"

lemma parseDutyInput_says:
  assumes "parseDutyInput v i now sch = Inr p"
  obtains f where "parse_fields v sch = Inr f" "says f p" "du_boardGoal p = df_boardGoal f" "du_id p = i"
proof -
  from assms obtain f where f: "parse_fields v sch = Inr f" by (auto simp: parseDutyInput_def)
  then show thesis using assms by (intro that [OF f]) (auto simp: parseDutyInput_def says_def)
qed

lemma says_merge: "says f p \<Longrightarrow> du_boardGoal p = df_boardGoal f \<Longrightarrow> merge d p = d \<longleftrightarrow> says f d"
  by (cases d) (auto simp: says_def merge_def split: option.splits)

lemma merge_says: "says f p \<Longrightarrow> du_boardGoal p = df_boardGoal f \<Longrightarrow> says f ((merge d p)\<lparr>du_updatedAt := t\<rparr>)"
  by (auto simp: says_def merge_def split: option.splits)

lemma merge_run_state: "run_state ((merge d p)\<lparr>du_updatedAt := t\<rparr>) = run_state d"
  by (simp add: run_state_def merge_def)

lemma find_index_find: "List.find P xs = map_option (\<lambda>k. xs ! k) (find_index P xs)"
  by (induction xs) (auto simp: option.map_comp comp_def)

lemma find_index_eqI: "k < length xs \<Longrightarrow> P (xs ! k) \<Longrightarrow> (\<forall>j < k. \<not> P (xs ! j)) \<Longrightarrow> find_index P xs = Some k"
proof (cases "find_index P xs")
  case None
  moreover assume "k < length xs" "P (xs ! k)"
  ultimately show ?thesis using nth_mem by (fastforce simp: find_index_None)
next
  case (Some i)
  moreover assume "P (xs ! k)" "\<forall>j < k. \<not> P (xs ! j)"
  ultimately show ?thesis using find_index_Some [OF Some] by (metis linorder_neqE_nat)
qed

lemma upsertDuty_cases:
  assumes "upsertDuty stray ds v now morning = Inr (r, ds')"
  obtains sch f p where "parse_fields v sch = Inr f" "says f p" "du_boardGoal p = df_boardGoal f" "du_id p = nextDutyId ds"
      "\<not> isRecord v \<or> stray v = []"
      "find_index (same_name (df_name f)) ds = None" "ds' = ds @ [p]" "r = ''added '' @ du_id p"
  | sch f k where "parse_fields v sch = Inr f" "\<not> isRecord v \<or> stray v = []" "find_index (same_name (df_name f)) ds = Some k"
      "says f (ds' ! k)" "length ds' = length ds" "\<forall>j < length ds. j \<noteq> k \<longrightarrow> ds' ! j = ds ! j" "run_state (ds' ! k) = run_state (ds ! k)"
      "r = ''unchanged '' @ du_id (ds ! k) \<and> ds' = ds \<or> r = ''updated '' @ du_id (ds ! k)"
proof -
  let ?sch = "case Option.bind (map_option js_trim (as_string (field v ''name''))) (\<lambda>n. List.find (same_name n) ds) of
    Some d \<Rightarrow> Some (du_schedule d) | None \<Rightarrow> map_option Daily morning"
  obtain p where ok: "\<not> isRecord v \<or> stray v = []" and p: "parseDutyInput v (nextDutyId ds) now ?sch = Inr p"
    and r: "(case find_index (same_name (du_name p)) ds of
        None \<Rightarrow> Inr (''added '' @ du_id p, ds @ [p])
      | Some k \<Rightarrow>
          if merge (ds ! k) p = ds ! k then Inr (''unchanged '' @ du_id (ds ! k), ds)
          else Inr (''updated '' @ du_id (ds ! k), ds[k := (merge (ds ! k) p)\<lparr>du_updatedAt := now\<rparr>])) = (Inr (r, ds') :: (string \<times> Duty list) res)"
    using assms by (auto simp: upsertDuty_def Let_def check_def split: if_splits)
  from p obtain f where f: "parse_fields v ?sch = Inr f" "says f p" "du_boardGoal p = df_boardGoal f" "du_id p = nextDutyId ds"
    by (rule parseDutyInput_says)
  have n: "du_name p = df_name f" using f(2) by (simp add: says_def)
  show thesis
  proof (cases "find_index (same_name (df_name f)) ds")
    case None
    then show thesis using r n by (intro that(1) [OF f ok None]) auto
  next
    case (Some k)
    then have k: "k < length ds" using find_index_Some by blast
    show thesis
    proof (cases "merge (ds ! k) p = ds ! k")
      case True
      then show thesis using r n Some says_merge [OF f(2,3), where d = "ds ! k"] by (intro that(2) [OF f(1) ok Some]) auto
    next
      case False
      then show thesis using r n Some k merge_says [OF f(2,3), where d = "ds ! k" and t = now]
        by (intro that(2) [OF f(1) ok Some]) (auto simp: merge_run_state)
    qed
  qed
qed

lemma upsertDuty_again:
  assumes f: "parse_fields v sch = Inr f" and ok: "\<not> isRecord v \<or> stray v = []"
    and k: "find_index (same_name (df_name f)) ds = Some k" and s: "says f (ds ! k)"
  shows "upsertDuty stray ds v now morning = Inr (''unchanged '' @ du_id (ds ! k), ds)"
proof -
  have "List.find (same_name (df_name f)) ds = Some (ds ! k)" using k by (simp add: find_index_find)
  moreover have sc: "du_schedule (ds ! k) = df_schedule f" using s by (simp add: says_def)
  moreover obtain p where p: "parseDutyInput v (nextDutyId ds) now (Some (df_schedule f)) = Inr p"
    using parse_fields_schedule [OF f] by (simp add: parseDutyInput_def)
  moreover from p obtain g where g: "parse_fields v (Some (df_schedule f)) = Inr g" "says g p" "du_boardGoal p = df_boardGoal g"
    by (rule parseDutyInput_says)
  moreover have "g = f" using g(1) parse_fields_schedule [OF f] by simp
  moreover have "merge (ds ! k) p = ds ! k" using says_merge [OF g(2,3), where d = "ds ! k"] \<open>g = f\<close> s by simp
  moreover have "du_name p = df_name f" using g(2) \<open>g = f\<close> by (simp add: says_def)
  ultimately show ?thesis using ok k unfolding upsertDuty_def Let_def parse_name [OF f] by (simp add: check_def)
qed

lemma fold_max_ge: "m \<le> fold (\<lambda>d m. max m (g d)) ds (m :: nat)"
  by (induction ds arbitrary: m) (auto intro: order_trans [OF max.cobounded1])

lemma fold_max_in: "d \<in> set ds \<Longrightarrow> g d \<le> fold (\<lambda>d m. max m (g d)) ds (m :: nat)"
proof (induction ds arbitrary: m)
  case (Cons e ds)
  then show ?case using fold_max_ge [of "max m (g e)" g ds] by auto
qed simp

lemma nextDutyId_fresh: "nextDutyId ds \<notin> du_id ` set ds"
proof
  assume "nextDutyId ds \<in> du_id ` set ds"
  then obtain d where d: "d \<in> set ds" "du_id d = nextDutyId ds" by auto
  let ?n = "fold (\<lambda>d m. max m (id_number (du_id d))) ds 0"
  have "id_number (du_id d) = ?n + 1"
    using digits_of_nat_digits by (auto simp: d(2) nextDutyId_def id_number_def Let_def list_all_iff)
  with fold_max_in [OF d(1), of "\<lambda>d. id_number (du_id d)" 0] show False by simp
qed

text \<open>
  Applying a duty definition: when it succeeds, applying the same definition again, at any later time and
  with any morning time, changes nothing and says so; every duty that was there keeps its id, its place and its run state; and at most one duty is
  added, under an id no duty of the list has.
\<close>
theorem upsertDuty_idempotent:
  assumes "upsertDuty stray ds v now morning = Inr (r, ds')"
  shows "(\<exists>i. upsertDuty stray ds' v now' morning' = Inr (''unchanged '' @ i, ds'))
    \<and> map run_state (take (length ds) ds') = map run_state ds
    \<and> (ds' = take (length ds) ds' \<or> (\<exists>p. ds' = ds @ [p] \<and> du_id p \<notin> du_id ` set ds))"
  using assms
proof (cases rule: upsertDuty_cases)
  case (1 sch f p)
  have "find_index (same_name (df_name f)) ds' = Some (length ds)"
    using 1 by (intro find_index_eqI) (auto simp: says_def same_name_def find_index_None nth_append)
  from upsertDuty_again [where stray = stray, OF 1(1,5) this] 1 show ?thesis using nextDutyId_fresh [of ds] by auto
next
  case (2 sch f k)
  note k = find_index_Some [OF 2(3)]
  have "find_index (same_name (df_name f)) ds' = Some k"
    using 2 k by (intro find_index_eqI) (auto simp: says_def same_name_def)
  from upsertDuty_again [where stray = stray, OF 2(1,2) this 2(4)] have "\<exists>i. upsertDuty stray ds' v now' morning' = Inr (''unchanged '' @ i, ds')" by blast
  moreover have "map run_state ds' = map run_state ds"
    using 2(5-7) by (intro nth_equalityI) (simp, metis length_map nth_map)
  ultimately show ?thesis using 2(5) by simp
qed


definition ex_json :: json where
  "ex_json = JObj [(''name'', JStr '' Portal ''), (''ownerWords'', JStr ''keep it up''), (''goal'', JStr ''up''), (''onMiss'', JStr ''fix it''),
     (''metrics'', JArr [JObj [(''key'', JStr ''up_pct''), (''label'', JStr ''Uptime''), (''op'', JStr ''>=''), (''target'', JNum 99)]]),
     (''precheck'', JObj [(''command'', JArr [JStr ''node'']), (''cwd'', JStr ''/srv'')])]"

lemma ex_json_parses: "isl (parse_fields ex_json (Some (Daily ''06:05''))) = False"
  by code_simp

theorem upsertDuty_idempotent_witness:
  "\<exists>ds i. upsertDuty (\<lambda>_. []) [] ex_json 5 (Some ''06:05'') = Inr (''added d1'', ds)
     \<and> upsertDuty (\<lambda>_. []) ds ex_json 9 (Some ''07:00'') = Inr (''unchanged '' @ i, ds)"
proof -
  obtain f where f: "parse_fields ex_json (Some (Daily ''06:05'')) = Inr f" using ex_json_parses by (cases "parse_fields ex_json (Some (Daily ''06:05''))") auto
  have n: "nextDutyId [] = ''d1''" by code_simp
  have "upsertDuty (\<lambda>_. []) [] ex_json 5 (Some ''06:05'') = Inr (r, ds) \<Longrightarrow> \<exists>i. upsertDuty (\<lambda>_. []) ds ex_json 9 (Some ''07:00'') = Inr (''unchanged '' @ i, ds)" for r ds
    using upsertDuty_idempotent [of "\<lambda>_. []" "[]" ex_json 5 "Some ''06:05''" r ds 9 "Some ''07:00''"] by blast
  moreover have "\<exists>ds. upsertDuty (\<lambda>_. []) [] ex_json 5 (Some ''06:05'') = Inr (''added d1'', ds)"
    using f n by (simp add: upsertDuty_def Let_def check_def parseDutyInput_def split: option.splits bind_splits)
  ultimately show ?thesis by blast
qed

text \<open>An id comes back: after the newest duty is removed, the next one added takes its id.\<close>

lemma nextDutyId_reused:
  "upsertDuty stray ds v now morning = Inr (r, ds @ [p]) \<Longrightarrow> du_id p = nextDutyId ds"
  by (erule upsertDuty_cases) auto

end
