(* ===== verification/DutyStreak.thy ===== *)
theory DutyStreak
  imports DutyRules
begin

text \<open>
  Miss streaks of a duty (\<open>shared/duty-streak.ts\<close>), read from its runs newest first: a run as judged after its own job, the newest reading, the
  current miss streak of each metric, and how a fix step is judged on the runs that named it.
\<close>

section \<open>Definitions\<close>

definition CHANGE_APPROACH_MISSES :: nat where "CHANGE_APPROACH_MISSES = 3"

record MetricStreak =
  ms_key :: string
  ms_misses :: nat
  ms_moved :: bool
  ms_since :: int
  ms_value :: rat
  ms_target :: rat
  ms_op :: metric_op
  ms_fix :: "FixLink option"
  ms_quietSince :: "rat option"
  ms_windowMs :: "rat option"
  ms_lastEventAt :: "rat option"
  ms_stuck :: bool

record effective =
  ef_verdict :: DutyVerdict
  ef_metrics :: results
  ef_summary :: string
  ef_parts :: "results option"
  ef_items :: "results option"

definition effectiveRun :: "DutyRunRecord \<Rightarrow> effective" where
  "effectiveRun r = (case rn_after r of
     Some a \<Rightarrow> \<lparr>ef_verdict = am_verdict a, ef_metrics = am_metrics a, ef_summary = am_summary a, ef_parts = am_parts a, ef_items = am_items a\<rparr>
   | None \<Rightarrow> \<lparr>ef_verdict = rn_verdict r, ef_metrics = rn_metrics r, ef_summary = rn_summary r, ef_parts = rn_parts r, ef_items = rn_items r\<rparr>)"

definition measured :: "DutyRunRecord \<Rightarrow> bool" where
  "measured r \<longleftrightarrow> ef_verdict (effectiveRun r) = Met \<or> ef_verdict (effectiveRun r) = Missed"

text \<open>\<open>run.after?.at ?? run.at\<close>.\<close>

definition reading_at :: "DutyRunRecord \<Rightarrow> int" where
  "reading_at r = (case rn_after r of Some a \<Rightarrow> am_at a | None \<Rightarrow> rn_at r)"

definition newestReading :: "DutyRunRecord list \<Rightarrow> DutyRunRecord option" where
  "newestReading rs = fold (\<lambda>r best.
     if measured r \<and> (case best of None \<Rightarrow> True | Some b \<Rightarrow> reading_at r > reading_at b) then Some r else best) rs None"

definition gap :: "MetricResult \<Rightarrow> rat" where
  "gap r = \<bar>mr_value r - mr_target r\<bar>"

definition streakRuns :: "DutyRunRecord list \<Rightarrow> DutyRunRecord list" where
  "streakRuns rs = (case filter measured rs of [] \<Rightarrow> [] | r # older \<Rightarrow> r # filter (\<lambda>q. rn_cut q = None) older)"

definition missStreak :: "DutyRunRecord list \<Rightarrow> nat" where
  "missStreak rs = (let ordered = streakRuns rs in
     case find_index (\<lambda>r. ef_verdict (effectiveRun r) \<noteq> Missed) ordered of Some k \<Rightarrow> k | None \<Rightarrow> length ordered)"

definition fix_of :: "DutyRunRecord \<Rightarrow> string \<Rightarrow> FixLink option" where
  "fix_of r key = Option.bind (rn_fixes r) (\<lambda>fs. map_of fs key)"

definition fixMisses :: "DutyRunRecord list \<Rightarrow> string \<Rightarrow> FixLink \<Rightarrow> nat" where
  "fixMisses streak key fx = length (filter (\<lambda>r. case fix_of r key of
     Some named \<Rightarrow> fl_step named = fl_step fx \<and> fl_job named = fl_job fx | None \<Rightarrow> False) streak)"

record FixJudging =
  fj_own :: "string list"
  fj_windowMs :: "rat option"

record WorkedReading =
  wr_item :: string
  wr_value :: rat
  wr_target :: rat
  wr_op :: "metric_op option"

record WorkedMove =
  wm_item :: string
  wm_from :: rat
  wm_to :: rat
  wm_target :: rat

definition item_reading :: "string \<Rightarrow> MetricResult \<Rightarrow> WorkedReading" where
  "item_reading i r = \<lparr>wr_item = i, wr_value = mr_value r, wr_target = mr_target r, wr_op = Some (mr_op r)\<rparr>"

definition workedReading :: "DutyRunRecord \<Rightarrow> FixLink option \<Rightarrow> string \<Rightarrow> string list \<Rightarrow> string list \<Rightarrow> WorkedReading option" where
  "workedReading r fx step over same =
     (let items = (case ef_items (effectiveRun r) of Some is \<Rightarrow> is | None \<Rightarrow> []);
          first = (\<lambda>ids. Option.bind (List.find (\<lambda>e. map_of items e \<noteq> None) ids) (\<lambda>e. map_option (item_reading e) (map_of items e)))
      in case map_of items step of
           Some own \<Rightarrow> Some (item_reading step own)
         | None \<Rightarrow>
             (case first same of
                Some twin \<Rightarrow> Some twin
              | None \<Rightarrow>
                  (case Option.bind fx (\<lambda>f. if fl_step f = step then fl_target f else None) of
                     Some t \<Rightarrow> Some \<lparr>wr_item = step, wr_value = ft_current t, wr_target = ft_target t,
                       wr_op = map_option (\<lambda>d. case d of Down \<Rightarrow> AtMost | Up \<Rightarrow> AtLeast) (ft_direction t)\<rparr>
                   | None \<Rightarrow> first over)))"

record step_streak =
  st_misses :: nat
  st_moved :: bool
  st_worked :: "WorkedMove option"
  st_judgedFrom :: "rat option"

definition on_target :: "WorkedReading \<Rightarrow> bool" where
  "on_target w = (case wr_op w of
     Some AtMost \<Rightarrow> wr_value w \<le> wr_target w | Some AtLeast \<Rightarrow> wr_value w \<ge> wr_target w | None \<Rightarrow> False)"

definition distance :: "WorkedReading \<Rightarrow> rat" where
  "distance w = (if on_target w then 0 else \<bar>wr_value w - wr_target w\<bar>)"

definition names_step :: "string \<Rightarrow> string \<Rightarrow> DutyRunRecord \<Rightarrow> bool" where
  "names_step key step r \<longleftrightarrow> (case fix_of r key of Some f \<Rightarrow> fl_step f = step | None \<Rightarrow> False)"

text \<open>Where the walk over the streak stops: the metric is not missed, or the run found the step held by a todo.\<close>

definition walk_stops :: "string \<Rightarrow> string \<Rightarrow> DutyRunRecord \<Rightarrow> bool" where
  "walk_stops key step r \<longleftrightarrow>
     (case map_of (ef_metrics (effectiveRun r)) key of None \<Rightarrow> True | Some found \<Rightarrow> mr_met found)
     \<or> (case fix_of r key of Some f \<Rightarrow> fl_step f = step \<and> fl_hold f \<noteq> None | None \<Rightarrow> False)"

definition under_step :: "DutyRunRecord list \<Rightarrow> string \<Rightarrow> string \<Rightarrow> DutyRunRecord list" where
  "under_step rs key step = filter (names_step key step) (takeWhile (\<lambda>r. \<not> walk_stops key step r) (streakRuns rs))"

definition gather :: "string \<Rightarrow> string \<Rightarrow> string list \<Rightarrow> string list \<Rightarrow> DutyRunRecord \<Rightarrow> MetricResult list \<times> WorkedReading list \<Rightarrow> MetricResult list \<times> WorkedReading list" where
  "gather key step over own r = (\<lambda>(named, readings).
     (named @ [the (map_of (ef_metrics (effectiveRun r)) key)],
      case workedReading r (fix_of r key) step over own of
        Some w \<Rightarrow> if named = [] \<or> (case readings of w0 # _ \<Rightarrow> wr_item w = wr_item w0 | [] \<Rightarrow> False) then readings @ [w] else readings
      | None \<Rightarrow> readings))"

definition fixStepStreak :: "DutyRunRecord list \<Rightarrow> string \<Rightarrow> string \<Rightarrow> string list \<Rightarrow> FixJudging \<Rightarrow> step_streak" where
  "fixStepStreak rs key step over options =
     (let under = under_step rs key step;
          judgedFrom = (case (fj_windowMs options, under) of
              (Some w, _ # _) \<Rightarrow> Some (of_int (rn_at (last under)) + w) | _ \<Rightarrow> None);
          judged = filter (\<lambda>r. case judgedFrom of Some t \<Rightarrow> \<not> of_int (rn_at r) < t | None \<Rightarrow> True) under
      in case fold (gather key step over (fj_own options)) judged ([], []) of
           (named, readings) \<Rightarrow>
             (case readings of
                now # _ \<Rightarrow> \<lparr>st_misses = length readings,
                    st_moved = (on_target now \<or> distance now < distance (last readings)),
                    st_worked = Some \<lparr>wm_item = wr_item now, wm_from = wr_value (last readings), wm_to = wr_value now, wm_target = wr_target now\<rparr>,
                    st_judgedFrom = judgedFrom\<rparr>
              | [] \<Rightarrow> \<lparr>st_misses = length named, st_moved = (named \<noteq> [] \<and> gap (hd named) < gap (last named)),
                    st_worked = None, st_judgedFrom = judgedFrom\<rparr>))"

definition misses_key :: "string \<Rightarrow> DutyRunRecord \<Rightarrow> bool" where
  "misses_key key r \<longleftrightarrow> (case map_of (ef_metrics (effectiveRun r)) key of Some found \<Rightarrow> \<not> mr_met found | None \<Rightarrow> False)"

definition metric_streak :: "DutyRunRecord list \<Rightarrow> DutyRunRecord list \<Rightarrow> DutyRunRecord \<Rightarrow> string \<Rightarrow> MetricResult \<Rightarrow> MetricStreak" where
  "metric_streak rs ordered newest key result =
     (let streak = takeWhile (misses_key key) ordered;
          oldest = (if streak = [] then result else the (map_of (ef_metrics (effectiveRun (last streak))) key));
          since = (if streak = [] then rn_at newest else rn_at (last streak));
          misses = length streak;
          moved = gap result < gap oldest;
          fx = fix_of newest key;
          judged = (case fx of Some f \<Rightarrow> fixMisses streak key f | None \<Rightarrow> misses);
          previous = List.find (\<lambda>r. rn_at r < rn_at newest) (filter measured rs);
          quiet = (case (mr_lastEventAt result, previous) of (Some e, Some p) \<Rightarrow> e < of_int (rn_at p) | _ \<Rightarrow> False)
      in \<lparr>ms_key = key, ms_misses = misses, ms_moved = moved, ms_since = since, ms_value = mr_value result, ms_target = mr_target result,
          ms_op = mr_op result, ms_fix = fx, ms_quietSince = (if quiet then mr_lastEventAt result else None),
          ms_windowMs = mr_windowMs result, ms_lastEventAt = mr_lastEventAt result,
          ms_stuck = (judged \<ge> CHANGE_APPROACH_MISSES \<and> \<not> moved \<and> \<not> quiet)\<rparr>)"

definition metricStreaks :: "DutyRunRecord list \<Rightarrow> MetricStreak list" where
  "metricStreaks rs = (let ordered = streakRuns rs in
     case ordered of
       [] \<Rightarrow> []
     | newest # _ \<Rightarrow> map (\<lambda>(key, result). metric_streak rs ordered newest key result)
         (filter (\<lambda>(key, result). \<not> mr_met result) (ef_metrics (effectiveRun newest))))"

definition verdict_read :: "DutyRunRecord \<Rightarrow> (int \<times> DutyVerdict) option" where
  "verdict_read r =
     (if measured r then Some (reading_at r, ef_verdict (effectiveRun r))
      else if rn_verdict r = Skipped \<and> rn_metrics r \<noteq> []
           then Some (rn_at r, if list_all (mr_met \<circ> snd) (rn_metrics r) then Met else Missed)
      else None)"

definition verdictNow :: "DutyRunRecord list \<Rightarrow> DutyVerdict option" where
  "verdictNow rs = map_option snd (fold (\<lambda>r best.
     case verdict_read r of
       Some read \<Rightarrow> (case best of Some b \<Rightarrow> if fst read > fst b then Some read else best | None \<Rightarrow> Some read)
     | None \<Rightarrow> best) rs None)"

definition leadMetric :: "DutyMetric list \<Rightarrow> MetricStreak list \<Rightarrow> MetricStreak option" where
  "leadMetric metrics streaks =
     (case Option.bind (headlineMetric metrics) (\<lambda>h. List.find (\<lambda>s. ms_key s = dm_key h) streaks) of
        Some s \<Rightarrow> Some s
      | None \<Rightarrow> (case sort_key (\<lambda>s. - int (ms_misses s)) streaks of s # _ \<Rightarrow> Some s | [] \<Rightarrow> None))"

section \<open>The newest reading\<close>

text \<open>A loop that keeps the first of the best: the contract of the reading loops.\<close>

locale keep_best =
  fixes key :: "'a \<Rightarrow> 'k :: linorder" and good :: "'a \<Rightarrow> bool"
begin

definition pick :: "'a list \<Rightarrow> 'a option \<Rightarrow> 'a option" where
  "pick xs b = fold (\<lambda>x best. if good x \<and> (case best of None \<Rightarrow> True | Some b \<Rightarrow> key x > key b) then Some x else best) xs b"

lemma pick_Nil: "pick [] b = b"
  by (simp add: pick_def)

lemma pick_snoc: "pick (xs @ [x]) b = (if good x \<and> (case pick xs b of None \<Rightarrow> True | Some y \<Rightarrow> key x > key y) then Some x else pick xs b)"
  by (simp add: pick_def)

lemma pick_None: "pick xs None = None \<longleftrightarrow> (\<forall>x \<in> set xs. \<not> good x)"
  by (induction xs rule: rev_induct) (simp add: pick_def, auto simp: pick_snoc split: option.splits if_splits)

lemma pick_Some:
  "pick xs None = Some y \<Longrightarrow> good y \<and> (\<exists>us vs. xs = us @ y # vs \<and> (\<forall>u \<in> set us. good u \<longrightarrow> key u < key y) \<and> (\<forall>v \<in> set vs. good v \<longrightarrow> key v \<le> key y))"
proof (induction xs arbitrary: y rule: rev_induct)
  case Nil
  then show ?case by (simp add: pick_def)
next
  case (snoc x xs)
  show ?case
  proof (cases "good x \<and> (case pick xs None of None \<Rightarrow> True | Some z \<Rightarrow> key x > key z)")
    case True
    then have y: "y = x" using snoc.prems by (simp add: pick_snoc)
    have "\<forall>u \<in> set xs. good u \<longrightarrow> key u < key x"
    proof (cases "pick xs None")
      case None
      then show ?thesis by (simp add: pick_None)
    next
      case (Some z)
      then have "key z < key x" using True by simp
      moreover have "\<forall>u \<in> set xs. good u \<longrightarrow> key u \<le> key z" using snoc.IH [OF Some] by (auto simp: le_less)
      ultimately show ?thesis by (blast intro: le_less_trans)
    qed
    then show ?thesis using y True by (intro conjI exI [of _ xs] exI [of _ "[]"]) auto
  next
    case False
    then have p: "pick xs None = Some y" using snoc.prems unfolding pick_snoc if_not_P [OF False] by simp
    from snoc.IH [OF p] obtain us vs where "good y" "xs = us @ y # vs" "\<forall>u \<in> set us. good u \<longrightarrow> key u < key y" "\<forall>v \<in> set vs. good v \<longrightarrow> key v \<le> key y"
      by blast
    moreover have "good x \<longrightarrow> key x \<le> key y" using False p by (auto simp: not_less)
    ultimately show ?thesis by (intro conjI exI [of _ us] exI [of _ "vs @ [x]"]) auto
  qed
qed

end

interpretation reading: keep_best reading_at measured .

lemma newestReading_pick: "newestReading rs = reading.pick rs None"
  by (simp add: newestReading_def reading.pick_def)


definition verdict_at :: "DutyRunRecord \<Rightarrow> int" where
  "verdict_at r = fst (the (verdict_read r))"

definition has_verdict :: "DutyRunRecord \<Rightarrow> bool" where
  "has_verdict r \<longleftrightarrow> verdict_read r \<noteq> None"

interpretation verdict: keep_best verdict_at has_verdict .

lemma verdictNow_pick: "verdictNow rs = map_option (\<lambda>r. snd (the (verdict_read r))) (verdict.pick rs None)"
proof -
  have "fold (\<lambda>r best. case verdict_read r of
       Some read \<Rightarrow> (case best of Some b \<Rightarrow> if fst read > fst b then Some read else best | None \<Rightarrow> Some read)
     | None \<Rightarrow> best) rs None = map_option (\<lambda>r. the (verdict_read r)) (verdict.pick rs None)"
  proof (induction rs rule: rev_induct)
    case Nil
    then show ?case by (simp add: verdict.pick_Nil)
  next
    case (snoc r rs)
    show ?case
    proof (cases "verdict_read r")
      case None
      then have "\<not> has_verdict r" by (simp add: has_verdict_def)
      then show ?thesis using None by (simp add: snoc.IH verdict.pick_snoc)
    next
      case (Some x)
      then have "has_verdict r" "verdict_at r = fst x" by (simp_all add: has_verdict_def verdict_at_def)
      then show ?thesis using Some
        by (cases "verdict.pick rs None") (simp_all add: snoc.IH verdict.pick_snoc verdict_at_def [symmetric])
    qed
  qed
  then show ?thesis by (simp add: verdictNow_def option.map_comp comp_def)
qed

lemma verdict_read_measured: "measured r \<Longrightarrow> verdict_read r = Some (reading_at r, ef_verdict (effectiveRun r))"
  by (simp add: verdict_read_def)

text \<open>
  A duty's state is its newest reading by the time it was taken. \<open>newestReading\<close> gives nothing exactly when no run was
  measured; otherwise it gives a measured run whose reading (after its job, when it has one) no measured run's is later than, and the first of
  those in the list. The verdict shown now is that run's verdict unless a skipped run kept numbers of its own.
\<close>
theorem newest_reading_wins:
  "(newestReading rs = None \<longleftrightarrow> \<not> (\<exists>r \<in> set rs. measured r))
   \<and> (\<forall>r. newestReading rs = Some r \<longrightarrow> measured r \<and>
        (\<exists>us vs. rs = us @ r # vs \<and> (\<forall>u \<in> set us. measured u \<longrightarrow> reading_at u < reading_at r) \<and> (\<forall>v \<in> set vs. measured v \<longrightarrow> reading_at v \<le> reading_at r)))
   \<and> ((\<forall>r \<in> set rs. rn_verdict r = Skipped \<longrightarrow> rn_metrics r = []) \<longrightarrow>
        verdictNow rs = map_option (\<lambda>r. ef_verdict (effectiveRun r)) (newestReading rs))"
proof (intro conjI allI impI)
  show "newestReading rs = None \<longleftrightarrow> \<not> (\<exists>r \<in> set rs. measured r)"
    by (simp add: newestReading_pick reading.pick_None)
  show "measured r" "\<exists>us vs. rs = us @ r # vs \<and> (\<forall>u \<in> set us. measured u \<longrightarrow> reading_at u < reading_at r) \<and> (\<forall>v \<in> set vs. measured v \<longrightarrow> reading_at v \<le> reading_at r)"
    if "newestReading rs = Some r" for r
    using reading.pick_Some [of rs r] that unfolding newestReading_pick by blast+
  assume "\<forall>r \<in> set rs. rn_verdict r = Skipped \<longrightarrow> rn_metrics r = []"
  then have good: "has_verdict r \<longleftrightarrow> measured r" if "r \<in> set rs" for r
    using that by (auto simp: verdict_read_def has_verdict_def)
  have va: "verdict_at r = reading_at r" if "measured r" for r
    by (simp add: verdict_at_def verdict_read_measured [OF that])
  have "verdict.pick us None = reading.pick us None" if "set us \<subseteq> set rs" for us
    using that
  proof (induction us rule: rev_induct)
    case Nil
    then show ?case by (simp add: verdict.pick_Nil reading.pick_Nil)
  next
    case (snoc r us)
    have "measured b" if "reading.pick us None = Some b" for b using reading.pick_Some [OF that] by blast
    with snoc good [of r] va show ?case
      by (auto simp: verdict.pick_snoc reading.pick_snoc split: option.splits)
  qed
  moreover have "measured b" if "reading.pick rs None = Some b" for b using reading.pick_Some [OF that] by blast
  ultimately show "verdictNow rs = map_option (\<lambda>r. ef_verdict (effectiveRun r)) (newestReading rs)"
    by (cases "reading.pick rs None") (simp_all add: verdictNow_pick newestReading_pick verdict_read_measured)
qed

section \<open>Miss streaks\<close>

text \<open>A run's results name each metric once.\<close>

definition run_keys_ok :: "DutyRunRecord \<Rightarrow> bool" where
  "run_keys_ok r \<longleftrightarrow> distinct (map fst (ef_metrics (effectiveRun r)))"

lemma metric_streak_simps [simp]:
  "ms_key (metric_streak rs ordered newest key result) = key"
  "ms_misses (metric_streak rs ordered newest key result) = length (takeWhile (misses_key key) ordered)"
  "ms_fix (metric_streak rs ordered newest key result) = fix_of newest key"
  by (simp_all add: metric_streak_def Let_def)

lemma misses_key_in:
  assumes "run_keys_ok r"
  shows "misses_key key r \<longleftrightarrow> (\<exists>result. (key, result) \<in> set (ef_metrics (effectiveRun r)) \<and> \<not> mr_met result)"
proof -
  have "map_of (ef_metrics (effectiveRun r)) key = Some result \<longleftrightarrow> (key, result) \<in> set (ef_metrics (effectiveRun r))" for result
    using assms by (simp add: run_keys_ok_def)
  then show ?thesis unfolding misses_key_def by (cases "map_of (ef_metrics (effectiveRun r)) key") (simp, metis option.case(2))
qed

lemma metricStreaks_keys:
  assumes runs: "streakRuns rs = newest # older" and ok: "run_keys_ok newest"
  shows "set (map ms_key (metricStreaks rs)) = {key. misses_key key newest}"
  using runs by (force simp: metricStreaks_def misses_key_in [OF ok])

lemma metricStreaks_fix:
  assumes "streakRuns rs = newest # older" and "s \<in> set (metricStreaks rs)"
  shows "ms_fix s = fix_of newest (ms_key s)"
  using assms by (auto simp: metricStreaks_def)

lemma takeWhile_take: "takeWhile P xs = take (length (takeWhile P xs)) xs"
  by (rule takeWhile_eq_take)

lemma fixMisses_le: "fixMisses streak key fx \<le> length streak"
  by (simp add: fixMisses_def)

lemma metric_streak_stuck:
  "ms_stuck (metric_streak rs ordered newest key result) \<longrightarrow>
     CHANGE_APPROACH_MISSES \<le> length (takeWhile (misses_key key) ordered)
     \<and> \<not> ms_moved (metric_streak rs ordered newest key result) \<and> ms_quietSince (metric_streak rs ordered newest key result) = None"
proof (cases "fix_of newest key")
  case None
  then show ?thesis unfolding metric_streak_def Let_def MetricStreak.select_convs by simp
next
  case (Some f)
  then show ?thesis using fixMisses_le [of "takeWhile (misses_key key) ordered" key f]
    unfolding metric_streak_def Let_def MetricStreak.select_convs by simp
qed

text \<open>
  The miss streaks of a duty: one for each metric the newest counted run missed and for no other, and a streak of n says exactly that the n newest
  counted runs all missed the metric and the one before them, if there is one, did not. A streak is called stuck only with three misses or more,
  when its newest value is no closer to the target than its oldest.
\<close>
theorem metricStreaks_exact:
  assumes runs: "streakRuns rs = newest # older" and ok: "run_keys_ok newest"
  shows "set (map ms_key (metricStreaks rs)) = {key. misses_key key newest}
    \<and> (\<forall>s \<in> set (metricStreaks rs).
        1 \<le> ms_misses s \<and> ms_misses s \<le> length (streakRuns rs)
        \<and> list_all (misses_key (ms_key s)) (take (ms_misses s) (streakRuns rs))
        \<and> (ms_misses s < length (streakRuns rs) \<longrightarrow> \<not> misses_key (ms_key s) (streakRuns rs ! ms_misses s))
        \<and> (ms_stuck s \<longrightarrow> CHANGE_APPROACH_MISSES \<le> ms_misses s \<and> \<not> ms_moved s \<and> ms_quietSince s = None))"
proof -
  let ?ms = "ef_metrics (effectiveRun newest)"
  have S: "metricStreaks rs = map (\<lambda>(key, result). metric_streak rs (newest # older) newest key result) (filter (\<lambda>(key, result). \<not> mr_met result) ?ms)"
    using runs by (simp add: metricStreaks_def)
  note key = misses_key_in [OF ok]
  show ?thesis
  proof (intro conjI ballI)
    show "set (map ms_key (metricStreaks rs)) = {key. misses_key key newest}"
      by (rule metricStreaks_keys [OF runs ok])
  next
    fix s assume "s \<in> set (metricStreaks rs)"
    then obtain k res where s: "s = metric_streak rs (newest # older) newest k res" and kr: "(k, res) \<in> set ?ms" "\<not> mr_met res"
      unfolding S by auto
    then have m: "misses_key k newest" using key by blast
    let ?t = "takeWhile (misses_key k) (newest # older)"
    show "1 \<le> ms_misses s" unfolding s using m by simp
    show "ms_misses s \<le> length (streakRuns rs)" unfolding s runs by (simp add: length_takeWhile_le)
    have "take (length ?t) (newest # older) = ?t" by (rule takeWhile_take [symmetric])
    then show "list_all (misses_key (ms_key s)) (take (ms_misses s) (streakRuns rs))"
      unfolding s runs metric_streak_simps by (simp only: list_all_iff) (metis set_takeWhileD)
    show "ms_misses s < length (streakRuns rs) \<longrightarrow> \<not> misses_key (ms_key s) (streakRuns rs ! ms_misses s)"
      unfolding s runs metric_streak_simps using nth_length_takeWhile [of "misses_key k" "newest # older"] by blast
    show "ms_stuck s \<longrightarrow> CHANGE_APPROACH_MISSES \<le> ms_misses s \<and> \<not> ms_moved s \<and> ms_quietSince s = None"
      unfolding s metric_streak_simps by (rule metric_streak_stuck)
  qed
qed


definition ex_result :: "rat \<Rightarrow> rat \<Rightarrow> bool \<Rightarrow> MetricResult" where
  "ex_result v t b = \<lparr>mr_value = v, mr_target = t, mr_op = AtMost, mr_met = b, mr_lastEventAt = None, mr_windowMs = None\<rparr>"

definition ex_run :: "int \<Rightarrow> DutyVerdict \<Rightarrow> results \<Rightarrow> (string \<times> FixLink) list option \<Rightarrow> results option \<Rightarrow> DutyRunRecord" where
  "ex_run t v ms fs is = \<lparr>rn_duty = ''d1'', rn_at = t, rn_slot = None, rn_trigger = TrSchedule, rn_ms = 5, rn_verdict = v, rn_metrics = ms,
     rn_summary = ''s'', rn_detail = None, rn_error = None, rn_parts = None, rn_readings = None, rn_items = is, rn_classes = None,
     rn_flagged = None, rn_job = None, rn_overrun = None, rn_fixes = fs, rn_after = None, rn_cut = None, rn_rerunOf = None,
     rn_hostAway = None, rn_keptAt = None\<rparr>"

definition ex_missed :: "int \<Rightarrow> DutyRunRecord" where
  "ex_missed t = ex_run t Missed [(''lag'', ex_result 9 5 False)] None None"

definition ex_met :: "int \<Rightarrow> DutyRunRecord" where
  "ex_met t = ex_run t Met [(''lag'', ex_result 4 5 True)] None None"

lemma ex_streak: "streakRuns [ex_missed 30, ex_missed 20, ex_met 10] = [ex_missed 30, ex_missed 20, ex_met 10]"
  by (simp add: streakRuns_def measured_def effectiveRun_def ex_missed_def ex_met_def ex_run_def)

theorem newest_reading_wins_witness:
  "\<not> (newestReading [ex_missed 30, ex_met 10] = None) \<and> verdictNow [ex_missed 30, ex_met 10] = map_option (\<lambda>r. ef_verdict (effectiveRun r)) (newestReading [ex_missed 30, ex_met 10])"
proof -
  note N = newest_reading_wins [of "[ex_missed 30, ex_met 10]"]
  have "measured (ex_missed 30)" by (simp add: measured_def effectiveRun_def ex_missed_def ex_run_def)
  moreover have "\<forall>r \<in> set [ex_missed 30, ex_met 10]. rn_verdict r = Skipped \<longrightarrow> rn_metrics r = []"
    by (simp add: ex_missed_def ex_met_def ex_run_def)
  ultimately show ?thesis using N by (metis list.set_intros(1))
qed

theorem metricStreaks_exact_witness:
  "set (map ms_key (metricStreaks [ex_missed 30, ex_missed 20, ex_met 10])) = {key. misses_key key (ex_missed 30)}"
  using metricStreaks_exact [OF ex_streak]
  by (simp add: run_keys_ok_def effectiveRun_def ex_missed_def ex_run_def)


section \<open>A gap in a fix step's readings\<close>

definition ex_fixed :: "int \<Rightarrow> results option \<Rightarrow> DutyRunRecord" where
  "ex_fixed t is = ex_run t Missed [(''lag'', ex_result 9 5 False)]
     (Some [(''lag'', \<lparr>fl_step = ''p1'', fl_job = None, fl_live = True, fl_hold = None, fl_target = None, fl_stalled = None\<rparr>)]) is"

text \<open>
  Three missed runs name the step; the middle one reads no number for it. The count goes over the gap: 2 misses, and the move is taken
  from the run before the gap.
\<close>

lemma fixStepStreak_counts_over_gap:
  "fixStepStreak [ex_fixed 30 (Some [(''p1'', ex_result 8 5 False)]), ex_fixed 20 None, ex_fixed 10 (Some [(''p1'', ex_result 9 5 False)])]
     ''lag'' ''p1'' [] \<lparr>fj_own = [], fj_windowMs = None\<rparr>
   = \<lparr>st_misses = 2, st_moved = True, st_worked = Some \<lparr>wm_item = ''p1'', wm_from = 9, wm_to = 8, wm_target = 5\<rparr>, st_judgedFrom = None\<rparr>"
  by code_simp

end
