(* ===== verification/DutyFixes.thy ===== *)
theory DutyFixes
  imports DutyStreak DutyFile
begin

text \<open>
  Fix steps (\<open>shared/duty-fixes.ts\<close>) and stalled calls (\<open>shared/stalled-calls.ts\<close>): a plan step whose duty link names a metric is
  the chat's fix for it. Which step a run records, whether its job is at work, what a verify run writes into it, and which closes
  start a verify run.

  The asynchronous answers (is this job live?) are arguments: a function of the step.
\<close>

section \<open>Stalled calls\<close>

definition STALL_MS :: int where "STALL_MS = 45 * 60000"

text \<open>A daemon row; a time is what \<open>Date.parse\<close> gives, \<open>None\<close> for no date.\<close>

record StallRow =
  sr_sessionId :: string
  sr_archived :: bool
  sr_active :: bool
  sr_runningTools :: bool
  sr_lastActivityAt :: "int option"
  sr_modified :: "int option"

definition stalledSince :: "StallRow \<Rightarrow> int \<Rightarrow> int option" where
  "stalledSince row now =
     (if sr_archived row \<or> \<not> sr_active row \<or> \<not> sr_runningTools row then None
      else (case List.map_filter id [sr_lastActivityAt row, sr_modified row] of
          [] \<Rightarrow> None
        | t # ts \<Rightarrow> (let wrote = Max (set (t # ts)) in if now - wrote \<ge> STALL_MS then Some wrote else None)))"

definition stalledCalls :: "StallRow list \<Rightarrow> int \<Rightarrow> (string \<Rightarrow> CallProcess option) \<Rightarrow> (string \<times> StalledCall) list" where
  "stalledCalls rows now processOf = fold (\<lambda>row calls.
     case stalledSince row now of
       None \<Rightarrow> calls
     | Some since \<Rightarrow> AList.update (sr_sessionId row)
         \<lparr>sc_session = sr_sessionId row, sc_since = since, sc_process = processOf (sr_sessionId row)\<rparr> calls) rows []"

definition minutes_of :: "int \<Rightarrow> int" where
  "minutes_of ms = max 0 (js_round (of_int ms / 60000))"

definition stallWords :: "StalledCall \<Rightarrow> int \<Rightarrow> string" where
  "stallWords call now =
     (let headw = ''has sat in one tool call for '' @ show_int (minutes_of (now - sc_since call)) @ '' min since ''
            @ clock_text (sc_since call) @ ''Z with no new session entry'' in
      case sc_process call of
        None \<Rightarrow> headw @ ''; this box's watch does not see its process, so find it under the session's kernel on its box''
      | Some p \<Rightarrow> headw @ ''; its process pid '' @ digits_of_nat (cp_pid p) @ '' runs `'' @ take 120 (cp_command p) @ ''`''
          @ (case cp_startedAt p of Some t \<Rightarrow> '' and has run '' @ show_int (minutes_of (now - t)) @ '' min'' | None \<Rightarrow> []))"

section \<open>Duty links\<close>

datatype FixLiveness = Live | NotLive | Stalled StalledCall

definition link_id :: "string \<Rightarrow> bool" where
  "link_id s \<longleftrightarrow> (case s of c # cs \<Rightarrow> lower_letter c \<and> length cs \<le> 39 \<and>
     list_all (\<lambda>c. lower_letter c \<or> js_digit c \<or> c = CHR ''_'' \<or> c = CHR ''-'') cs | [] \<Rightarrow> False)"

definition DUTY_LINK_SHAPE :: string where
  \<open>DUTY_LINK_SHAPE = ''duty must be "<dutyId>/<metricKey>", like "d6/usable_pct_24h" or "checkin/stuck_steps"''\<close>

definition parseDutyLink :: "string \<Rightarrow> (string \<times> string) option" where
  "parseDutyLink s = (case js_split (CHR ''/'') s of
     [d, m] \<Rightarrow> if link_id d \<and> KEY m then Some (d, m) else None
   | _ \<Rightarrow> None)"

definition dutyLink :: "string \<Rightarrow> string \<Rightarrow> string" where
  "dutyLink d m = d @ ''/'' @ m"

text \<open>A duty as a link can name it: id, name, metric keys and reading keys.\<close>

type_synonym duty_keys = "(string \<times> string \<times> string list) list"

definition dutyKeys :: "Duty list \<Rightarrow> duty_keys" where
  "dutyKeys ds = fold (\<lambda>(i, n, ks). AList.update i (n, ks))
     ((CHECK_IN_DUTY_ID, ''Check-in'', map dm_key CHECK_IN_METRICS)
      # map (\<lambda>d. (du_id d, du_name d, map dm_key (du_metrics d) @ (case du_readings d of Some rs \<Rightarrow> map dr_key rs | None \<Rightarrow> []))) ds) []"

definition key_list :: "string list \<Rightarrow> string" where
  "key_list ks = (if ks \<noteq> [] then js_join '', '' ks else ''none'')"

definition dutyLinkProblem :: "string \<Rightarrow> duty_keys \<Rightarrow> string option" where
  "dutyLinkProblem v duties =
     (case parseDutyLink v of
        None \<Rightarrow> Some (DUTY_LINK_SHAPE @ ''.'')
      | Some (d, m) \<Rightarrow>
          (case map_of duties d of
             None \<Rightarrow> Some (''duty '' @ v @ '' names '' @ d @ '', which is no duty of this chat; its duties are ''
               @ js_join ''; '' (map (\<lambda>(i, n, ks). i @ '' '' @ json_string n @ '' ('' @ key_list ks @ '')'') duties) @ ''.'')
           | Some (n, ks) \<Rightarrow>
               if m \<in> set ks then None
               else Some (''duty '' @ v @ '' names '' @ m @ '', which '' @ d @ '' '' @ json_string n
                 @ '' does not measure; its metric keys are '' @ key_list ks @ ''.'')))"

definition OPEN :: "PlanStatus set" where "OPEN = {Todo, Doing, Blocked}"

definition stepNumber :: "string \<Rightarrow> nat" where
  "stepNumber i = nat_of_digits (rev (takeWhile js_digit (rev i)))"

text \<open>The items of a plan in the order a walk visits them, each with the ids from its root down to it.\<close>

fun walk_plan :: "string list \<Rightarrow> PlanItem list \<Rightarrow> (PlanItem \<times> string list) list" where
  "walk_plan up [] = []"
| "walk_plan up (PlanItem f cs # ps) =
     (PlanItem f cs, up @ [pf_id f]) # walk_plan (up @ [pf_id f]) cs @ walk_plan up ps"

definition board_plan :: "ChatBoard option \<Rightarrow> PlanItem list" where
  "board_plan b = (case b of Some c \<Rightarrow> cb_plan c | None \<Rightarrow> [])"

definition item_link :: "PlanItem \<Rightarrow> (string \<times> string) option" where
  "item_link p = (case pf_duty (item p) of Some d \<Rightarrow> if d \<noteq> [] then parseDutyLink d else None | None \<Rightarrow> None)"

definition linked :: "ChatBoard option \<Rightarrow> string \<Rightarrow> string \<Rightarrow> (PlanItem \<times> string list) list" where
  "linked b duty metric = filter (\<lambda>(p, _). item_link p = Some (duty, metric)) (walk_plan [] (board_plan b))"

section \<open>The fix of a metric\<close>

record pick =
  pk_item :: PlanItem
  pk_live :: bool
  pk_hold :: "string option"
  pk_stalled :: "StalledCall option"

definition asked_live :: "(PlanItem \<Rightarrow> FixLiveness) \<Rightarrow> PlanItem \<Rightarrow> FixLiveness" where
  "asked_live live p = (if pf_job (item p) \<noteq> None \<or> pf_sessionId (item p) \<noteq> None then live p else NotLive)"

fun pick_open :: "(PlanItem \<Rightarrow> FixLiveness) \<Rightarrow> (PlanItem \<Rightarrow> string option) \<Rightarrow> PlanItem list \<Rightarrow> pick option \<Rightarrow> PlanItem option \<Rightarrow> pick option \<times> PlanItem option" where
  "pick_open live held [] pk first = (pk, first)"
| "pick_open live held (p # ps) pk first =
     (let state = asked_live live p in
      if state = Live then (Some \<lparr>pk_item = p, pk_live = True, pk_hold = None, pk_stalled = None\<rparr>, first)
      else
        (let pk1 = (case state of
               Stalled c \<Rightarrow> (if Option.bind pk pk_stalled = None then Some \<lparr>pk_item = p, pk_live = False, pk_hold = None, pk_stalled = Some c\<rparr> else pk)
             | _ \<Rightarrow> pk);
             pk2 = (case held p of
               Some h \<Rightarrow> (if pk1 = None then Some \<lparr>pk_item = p, pk_live = False, pk_hold = Some h, pk_stalled = None\<rparr> else pk1)
             | None \<Rightarrow> pk1)
         in pick_open live held ps pk2 (case first of Some f \<Rightarrow> Some f | None \<Rightarrow> Some p)))"

definition plain_pick :: "PlanItem \<Rightarrow> pick" where
  "plain_pick p = \<lparr>pk_item = p, pk_live = False, pk_hold = None, pk_stalled = None\<rparr>"

definition newest_step :: "PlanItem list \<Rightarrow> PlanItem option" where
  "newest_step ps = (case sort_key (\<lambda>p. - int (stepNumber (item_id p))) ps of p # _ \<Rightarrow> Some p | [] \<Rightarrow> None)"

definition truthy :: "string option \<Rightarrow> string option" where
  "truthy s = (if s = Some [] then None else s)"

definition stepTarget :: "PlanItem \<Rightarrow> fix_target option" where
  "stepTarget p = Option.bind (pf_target (item p)) (\<lambda>t. map_option
     (\<lambda>c. \<lparr>ft_current = c, ft_target = gt_target t, ft_direction = gt_direction t, ft_measuredAt = truthy (gt_measuredAt t)\<rparr>) (gt_current t))"

definition fix_link :: "pick \<Rightarrow> FixLink" where
  "fix_link pk = \<lparr>fl_step = item_id (pk_item pk), fl_job = truthy (pf_job (item (pk_item pk))), fl_live = pk_live pk,
     fl_hold = truthy (pk_hold pk), fl_target = stepTarget (pk_item pk), fl_stalled = pk_stalled pk\<rparr>"

definition ranked_steps :: "ChatBoard option \<Rightarrow> string \<Rightarrow> FlaggedSlice list \<Rightarrow> string option \<Rightarrow> string \<Rightarrow> PlanItem list" where
  "ranked_steps b duty flagged goal metric =
     (let items = List.map_filter (\<lambda>s. if fs_kind s = metric then truthy (fs_item s) else None) flagged;
          under = (\<lambda>(p, path). list_ex (\<lambda>i. i \<in> set items) path);
          ranked = filter (\<lambda>(p, path). Some (item_id p) \<noteq> goal) (linked b duty metric)
      in map fst (filter under ranked @ filter (\<lambda>s. \<not> under s) ranked))"

definition is_open :: "PlanItem \<Rightarrow> bool" where
  "is_open p \<longleftrightarrow> pf_status (item p) \<in> OPEN"

definition fix_pick :: "(PlanItem \<Rightarrow> FixLiveness) \<Rightarrow> (PlanItem \<Rightarrow> string option) \<Rightarrow> PlanItem list \<Rightarrow> pick option" where
  "fix_pick live held found =
     (case pick_open live held (filter is_open found) None None of
        (Some pk, _) \<Rightarrow> Some pk
      | (None, Some f) \<Rightarrow> Some (plain_pick f)
      | (None, None) \<Rightarrow> map_option plain_pick (newest_step found))"

definition dutyFixes :: "ChatBoard option \<Rightarrow> string \<Rightarrow> string list \<Rightarrow> (PlanItem \<Rightarrow> FixLiveness) \<Rightarrow> FlaggedSlice list \<Rightarrow> string option
    \<Rightarrow> (PlanItem \<Rightarrow> string option) \<Rightarrow> (string \<times> FixLink) list" where
  "dutyFixes b duty metrics live flagged goal held = fold (\<lambda>metric acc.
     case fix_pick live held (ranked_steps b duty flagged goal metric) of
       Some pk \<Rightarrow> AList.update metric (fix_link pk) acc
     | None \<Rightarrow> acc) metrics []"

definition missedKeys :: "DutyRunRecord \<Rightarrow> string list" where
  "missedKeys r = map fst (filter (\<lambda>(k, m). \<not> mr_met m) (rn_metrics r))"

section \<open>Verify runs\<close>

definition plan_steps :: "PlanItem list \<Rightarrow> (string \<times> PlanItem) list" where
  "plan_steps ps = fold (\<lambda>(p, _). AList.update (item_id p) p) (walk_plan [] ps) []"

text \<open>\<open>num\<close> is how the runtime prints a number in a template.\<close>

definition op_text :: "metric_op \<Rightarrow> string" where
  "op_text op = (case op of AtMost \<Rightarrow> ''<='' | AtLeast \<Rightarrow> ''>='')"

definition verify_words :: "(rat \<Rightarrow> string) \<Rightarrow> int \<Rightarrow> MetricStreak \<Rightarrow> string" where
  "verify_words num t s = ''The '' @ clock_text t @ ''Z verify run read '' @ ms_key s @ '' '' @ num (ms_value s) @ '', target ''
     @ op_text (ms_op s) @ '' '' @ num (ms_target s) @ ''.''"

definition verifyNoteOps :: "(rat \<Rightarrow> string) \<Rightarrow> ChatBoard option \<Rightarrow> MetricStreak list \<Rightarrow> int \<Rightarrow> (string \<times> string) list" where
  "verifyNoteOps num b streaks t =
     (let steps = plan_steps (board_plan b) in
      fold (\<lambda>s notes.
        case Option.bind (ms_fix s) (\<lambda>f. map_of steps (fl_step f)) of
          None \<Rightarrow> notes
        | Some step \<Rightarrow>
            if pf_status (item step) \<noteq> Done then notes
            else (let words = verify_words num t s;
                      note = (case map_of notes (item_id step) of Some n \<Rightarrow> n | None \<Rightarrow> (case pf_note (item step) of Some n \<Rightarrow> n | None \<Rightarrow> []))
                  in if js_includes words note then notes
                     else AList.update (item_id step) (if note \<noteq> [] then note @ '' '' @ words else words) notes)) streaks [])"

definition closedFixes :: "ChatBoard option \<Rightarrow> ChatBoard \<Rightarrow> (string \<times> string \<times> string) list" where
  "closedFixes before after =
     (let was = fold (\<lambda>(p, _). AList.update (item_id p) (pf_status (item p))) (walk_plan [] (board_plan before)) [] in
      List.map_filter (\<lambda>(p, _). case item_link p of
          Some (d, m) \<Rightarrow> if pf_status (item p) = Done \<and> map_of was (item_id p) \<noteq> Some Done then Some (item_id p, d, m) else None
        | None \<Rightarrow> None) (walk_plan [] (cb_plan after)))"

section \<open>Whether a fix job is at work\<close>

datatype AgentState = Working | Waiting | Idle | DoneAgent | FailedAgent

record chat_agent =
  ca_sessionId :: "string option"
  ca_name :: string
  ca_job :: string
  ca_sender :: string
  ca_state :: AgentState
  ca_steps :: "string list"
  ca_queued :: bool
  ca_subagentsRunning :: nat

record session_row =
  sw_id :: string
  sw_name :: string
  sw_archived :: bool
  sw_working :: bool
  sw_agents :: "chat_agent list"

definition UNLISTED_LIVE_MS :: int where "UNLISTED_LIVE_MS = 1250000"

definition hex_val :: "char \<Rightarrow> nat option" where
  "hex_val c = (let n = (of_char c :: nat) in
     if 48 \<le> n \<and> n \<le> 57 then Some (n - 48) else if 97 \<le> n \<and> n \<le> 102 then Some (n - 87) else if 65 \<le> n \<and> n \<le> 70 then Some (n - 55) else None)"

definition sessionBornAt :: "string \<Rightarrow> int option" where
  "sessionBornAt i =
     (let hex = filter (\<lambda>c. c \<noteq> CHR ''-'') i in
      if length hex \<noteq> 32 \<or> list_ex (\<lambda>c. hex_val c = None) hex \<or> hex ! 12 \<noteq> CHR ''7'' then None
      else Some (foldl (\<lambda>n c. 16 * n + int (the (hex_val c))) 0 (take 12 hex)))"

definition owns :: "plan_fields \<Rightarrow> chat_agent \<Rightarrow> bool" where
  "owns it a \<longleftrightarrow> pf_id it \<in> set (ca_steps a) \<or> pf_sessionId it \<noteq> None \<and> ca_sessionId a = pf_sessionId it
     \<or> (case pf_job it of Some j \<Rightarrow> ca_sender a = j \<or> ca_name a = j | None \<Rightarrow> False)"

definition session_live :: "session_row list \<Rightarrow> string set \<Rightarrow> string set \<Rightarrow> int \<Rightarrow> (string \<times> StalledCall) list \<Rightarrow> string \<Rightarrow> bool" where
  "session_live rows asleep waiting now stalls s =
     (if s \<in> asleep \<or> s \<in> waiting then True
      else if map_of stalls s \<noteq> None then False
      else (case List.find (\<lambda>r. sw_id r = s) rows of
          None \<Rightarrow> (case sessionBornAt s of Some born \<Rightarrow> now - born < UNLISTED_LIVE_MS | None \<Rightarrow> False)
        | Some r \<Rightarrow> \<not> sw_archived r \<and> sw_working r))"

definition owner_sessions :: "plan_fields \<Rightarrow> chat_agent list \<Rightarrow> session_row list \<Rightarrow> string list" where
  "owner_sessions it owners rows =
     (let sessions = js_uniq (List.map_filter (\<lambda>a. truthy (ca_sessionId a)) owners @ (case truthy (pf_sessionId it) of Some s \<Rightarrow> [s] | None \<Rightarrow> []))
      in if sessions \<noteq> [] then sessions
         else (case List.find (\<lambda>r. Some (sw_name r) = pf_job it \<and> \<not> sw_archived r) rows of
             Some r \<Rightarrow> if sw_id r \<noteq> [] then [sw_id r] else [] | None \<Rightarrow> []))"

definition fixJobState :: "plan_fields \<Rightarrow> string \<Rightarrow> session_row list \<Rightarrow> string set \<Rightarrow> string set \<Rightarrow> int \<Rightarrow> (string \<times> StalledCall) list \<Rightarrow> FixLiveness" where
  "fixJobState it chat rows asleep waiting now stalls =
     (let agents = (case List.find (\<lambda>r. sw_id r = chat) rows of Some r \<Rightarrow> sw_agents r | None \<Rightarrow> []);
          owners = filter (owns it) agents
      in if list_ex (\<lambda>a. ca_queued a \<or> ca_state a = Working \<and> \<not> (case ca_sessionId a of Some s \<Rightarrow> map_of stalls s \<noteq> None | None \<Rightarrow> False)) owners then Live
         else (let sessions = owner_sessions it owners rows in
           if list_ex (session_live rows asleep waiting now stalls) sessions then Live
           else (case List.map_filter (map_of stalls) sessions of c # _ \<Rightarrow> Stalled c | [] \<Rightarrow> NotLive)))"

definition fixJobLive :: "plan_fields \<Rightarrow> string \<Rightarrow> session_row list \<Rightarrow> string set \<Rightarrow> string set \<Rightarrow> int \<Rightarrow> (string \<times> StalledCall) list \<Rightarrow> bool" where
  "fixJobLive it chat rows asleep waiting now stalls \<longleftrightarrow> fixJobState it chat rows asleep waiting now stalls = Live"

text \<open>\<open>fixLiveReader\<close>: what its sources answered, \<open>None\<close> for a promise that failed.\<close>

definition fixLiveReader :: "session_row list \<Rightarrow> string list option \<Rightarrow> string list option \<Rightarrow> string list \<Rightarrow> (string \<times> StalledCall) list option \<Rightarrow> int \<Rightarrow> string \<Rightarrow> plan_fields \<Rightarrow> FixLiveness" where
  "fixLiveReader rows asleep pool held stalls now chat it =
     fixJobState it chat rows (case asleep of Some s \<Rightarrow> set s | None \<Rightarrow> {})
       ((case pool of Some s \<Rightarrow> set s | None \<Rightarrow> {}) \<union> set held) now (case stalls of Some m \<Rightarrow> m | None \<Rightarrow> [])"


section \<open>Which step a run records\<close>

definition live_pick :: "PlanItem \<Rightarrow> pick" where
  "live_pick p = \<lparr>pk_item = p, pk_live = True, pk_hold = None, pk_stalled = None\<rparr>"

definition stalled_pick :: "PlanItem \<Rightarrow> StalledCall \<Rightarrow> pick" where
  "stalled_pick p c = \<lparr>pk_item = p, pk_live = False, pk_hold = None, pk_stalled = Some c\<rparr>"

definition held_pick :: "PlanItem \<Rightarrow> string \<Rightarrow> pick" where
  "held_pick p h = \<lparr>pk_item = p, pk_live = False, pk_hold = Some h, pk_stalled = None\<rparr>"

lemmas pick_defs = live_pick_def [symmetric] stalled_pick_def [symmetric] held_pick_def [symmetric]

definition stall_of :: "(PlanItem \<Rightarrow> FixLiveness) \<Rightarrow> PlanItem \<Rightarrow> StalledCall option" where
  "stall_of live p = (case asked_live live p of Stalled c \<Rightarrow> Some c | _ \<Rightarrow> None)"

text \<open>The first item of a list that a partial function answers for, with the answer.\<close>

fun first_some :: "('a \<Rightarrow> 'b option) \<Rightarrow> 'a list \<Rightarrow> ('a \<times> 'b) option" where
  "first_some f [] = None"
| "first_some f (x # xs) = (case f x of Some y \<Rightarrow> Some (x, y) | None \<Rightarrow> first_some f xs)"

text \<open>
  The reference: the first open step with a live job; else the first whose job is stalled; else the first a todo holds; else the first open
  one; else the closed one with the highest number.
\<close>

definition best_fix :: "(PlanItem \<Rightarrow> FixLiveness) \<Rightarrow> (PlanItem \<Rightarrow> string option) \<Rightarrow> PlanItem list \<Rightarrow> pick option" where
  "best_fix live held found =
     (let opn = filter is_open found in
      case List.find (\<lambda>p. asked_live live p = Live) opn of
        Some p \<Rightarrow> Some (live_pick p)
      | None \<Rightarrow> (case first_some (stall_of live) opn of
          Some (p, c) \<Rightarrow> Some (stalled_pick p c)
        | None \<Rightarrow> (case first_some held opn of
            Some (p, h) \<Rightarrow> Some (held_pick p h)
          | None \<Rightarrow> (case opn of p # _ \<Rightarrow> Some (plain_pick p) | [] \<Rightarrow> map_option plain_pick (newest_step found)))))"

lemma pick_open_Cons:
  "asked_live live p = Live \<Longrightarrow> fst (pick_open live held (p # ps) pk first) = Some (live_pick p)"
  "asked_live live p = NotLive \<Longrightarrow> \<exists>first'. pick_open live held (p # ps) pk first =
     pick_open live held ps (if pk = None then map_option (held_pick p) (held p) else pk) first'"
  "asked_live live p = Stalled c \<Longrightarrow> \<exists>first'. pick_open live held (p # ps) pk first =
     pick_open live held ps (if Option.bind pk pk_stalled = None then Some (stalled_pick p c) else pk) first'"
  by (auto simp: Let_def pick_defs split: option.splits)

lemma pick_open_fst:
  "fst (pick_open live held ps pk first) =
     (case List.find (\<lambda>p. asked_live live p = Live) ps of
        Some p \<Rightarrow> Some (live_pick p)
      | None \<Rightarrow> if Option.bind pk pk_stalled \<noteq> None then pk
          else (case first_some (stall_of live) ps of
              Some (p, c) \<Rightarrow> Some (stalled_pick p c)
            | None \<Rightarrow> if pk \<noteq> None then pk else map_option (\<lambda>(p, h). held_pick p h) (first_some held ps)))"
proof (induction ps arbitrary: pk first)
  case Nil
  then show ?case by (cases pk) auto
next
  case (Cons p ps)
  show ?case
  proof (cases "asked_live live p")
    case Live
    then show ?thesis by (simp add: pick_open_Cons(1) del: pick_open.simps)
  next
    case NotLive
    then have s: "stall_of live p = None" by (simp add: stall_of_def)
    have n: "pk_stalled (held_pick p h) = None" for h by (simp add: held_pick_def)
    from pick_open_Cons(2) [OF NotLive, of held ps pk first] obtain first' where
      "pick_open live held (p # ps) pk first = pick_open live held ps (if pk = None then map_option (held_pick p) (held p) else pk) first'" by blast
    then show ?thesis using NotLive s n Cons.IH [of "if pk = None then map_option (held_pick p) (held p) else pk" first']
      by (cases pk; cases "held p") (auto simp del: pick_open.simps split: option.split)
  next
    case (Stalled c)
    then have s: "stall_of live p = Some c" by (simp add: stall_of_def)
    have n: "pk_stalled (stalled_pick p c) = Some c" by (simp add: stalled_pick_def)
    from pick_open_Cons(3) [OF Stalled, of held ps pk first] obtain first' where
      "pick_open live held (p # ps) pk first = pick_open live held ps (if Option.bind pk pk_stalled = None then Some (stalled_pick p c) else pk) first'" by blast
    then show ?thesis using Stalled s n Cons.IH [of "if Option.bind pk pk_stalled = None then Some (stalled_pick p c) else pk" first']
      by (cases "Option.bind pk pk_stalled") (auto simp del: pick_open.simps split: option.split)
  qed
qed

lemma pick_open_snd:
  "List.find (\<lambda>p. asked_live live p = Live) ps = None \<Longrightarrow>
   snd (pick_open live held ps pk first) = (case first of Some f \<Rightarrow> Some f | None \<Rightarrow> (case ps of p # _ \<Rightarrow> Some p | [] \<Rightarrow> None))"
  by (induction live held ps pk first rule: pick_open.induct) (auto simp: Let_def split: option.splits if_splits)

lemma fix_pick_best: "fix_pick live held found = best_fix live held found"
proof -
  let ?o = "filter is_open found"
  obtain pk f where r: "pick_open live held ?o None None = (pk, f)" by fastforce
  have F: "fst (pick_open live held ?o None None) = pk" "snd (pick_open live held ?o None None) = f" using r by simp_all
  show ?thesis
  proof (cases "List.find (\<lambda>p. asked_live live p = Live) ?o")
    case None
    note S = pick_open_snd [OF None, of held None None]
    show ?thesis using F(1) pick_open_fst [of live held ?o None None] F(2) S None r
      by (auto simp: fix_pick_def best_fix_def Let_def split: option.splits list.splits)
  next
    case (Some p)
    then show ?thesis using F(1) pick_open_fst [of live held ?o None None] r by (simp add: fix_pick_def best_fix_def Let_def)
  qed
qed

lemma newest_step_max:
  assumes "newest_step ps = Some p"
  shows "p \<in> set ps \<and> (\<forall>q \<in> set ps. stepNumber (item_id q) \<le> stepNumber (item_id p))"
proof -
  let ?k = "\<lambda>p. - int (stepNumber (item_id p))"
  obtain qs where s: "sort_key ?k ps = p # qs" using assms by (auto simp: newest_step_def split: list.splits)
  have "sorted (map ?k (p # qs))" using sorted_sort_key [of ?k ps] s by simp
  moreover have "set (p # qs) = set ps" using set_sort [of ?k ps] s by simp
  ultimately show ?thesis by auto
qed

text \<open>
  A run records the best fix step there is for each metric it asks about and nothing for another: the loop over the ranked open steps, which stops
  at the first live one and remembers a stalled, a held and a first one on the way, agrees with the plain order of preference (live, stalled, held, open, then
  the highest-numbered closed step). So a step with a live job is recorded whenever there is one, wherever it stands among stalled and held ones.
\<close>
theorem dutyFixes_best:
  "map_of (dutyFixes b duty metrics live flagged goal held) metric =
     (if metric \<in> set metrics then map_option fix_link (best_fix live held (ranked_steps b duty flagged goal metric)) else None)"
proof -
  let ?pick = "\<lambda>m. fix_pick live held (ranked_steps b duty flagged goal m)"
  have "map_of (fold (\<lambda>m acc. case ?pick m of Some pk \<Rightarrow> AList.update m (fix_link pk) acc | None \<Rightarrow> acc) ms acc) metric =
      (if metric \<in> set ms \<and> ?pick metric \<noteq> None then map_option fix_link (?pick metric) else map_of acc metric)" for ms acc
    by (induction ms arbitrary: acc) (auto simp: update_conv' split: option.splits)
  from this [of metrics "[]"] show ?thesis by (auto simp: dutyFixes_def fix_pick_best)
qed

section \<open>Closed fixes\<close>

lemma walk_plan_flat: "map (\<lambda>(p, _). item_id p) (walk_plan up ps) = map fst (flat_of ps)"
  by (induction up ps rule: walk_plan.induct) auto

text \<open>An unchanged board starts no verify run.\<close>

lemma closedFixes_same:
  assumes "distinct (map fst (flat_of (cb_plan b)))"
  shows "closedFixes (Some b) b = []"
proof -
  let ?w = "walk_plan [] (cb_plan b)"
  let ?was = "fold (\<lambda>x. AList.update (item_id (fst x)) (pf_status (item (fst x)))) ?w []"
  have d: "distinct (map (\<lambda>x. item_id (fst x)) ?w)" using assms walk_plan_flat [of "[]" "cb_plan b"] by (simp add: split_def)
  have "map_of ?was (item_id (fst x)) = Some (pf_status (item (fst x)))" if "x \<in> set ?w" for x
  proof (rule fold_update_hit)
    show "pf_status (item (fst y)) = pf_status (item (fst x))" if "y \<in> set ?w" "item_id (fst y) = item_id (fst x)" for y
      using d that \<open>x \<in> set ?w\<close> by (auto simp: distinct_map inj_on_def)
  qed (use that in blast)
  then show ?thesis
    by (auto simp: closedFixes_def Let_def board_plan_def split_def List.map_filter_def filter_empty_conv split: option.splits)
qed

lemma dutyLink_parse: "link_id d \<Longrightarrow> KEY m \<Longrightarrow> parseDutyLink (dutyLink d m) = Some (d, m)"
proof -
  assume d: "link_id d" and m: "KEY m"
  have slash: "(of_char (CHR ''/'') :: nat) = 47" by code_simp
  have "CHR ''/'' \<notin> set d" using d by (auto simp: link_id_def lower_letter_def js_digit_def list_all_iff slash split: list.splits)
  moreover have "CHR ''/'' \<notin> set m" using m by (auto simp: KEY_def lower_letter_def js_digit_def list_all_iff slash split: list.splits)
  ultimately show ?thesis using d m by (simp add: parseDutyLink_def dutyLink_def js_split_append js_split_free)
qed

end
