(* ===== verification/DutyCard.thy ===== *)
theory DutyCard
  imports DutyFixes
begin

text \<open>
  What a duty's card shows (\<open>shared/duty-card.ts\<close>) and the texts and the cadence editor it uses
  (\<open>shared/duty-cadence.ts\<close>). The theorems show that the card names every missed metric once, in the duty's order, and
  nothing else; that its status line is never missing; and that the cadence editor's draft gives back the schedule it was filled from.
\<close>

section \<open>The cadence editor\<close>

text \<open>The editor's minutes are a number or \<open>None\<close>, what no number reads as.\<close>

datatype cadence_kind = KDaily | KEvery

record CadenceDraft =
  cd_kind :: cadence_kind
  cd_minutes :: "rat option"
  cd_at :: string

definition cadenceDraft :: "DutySchedule \<Rightarrow> CadenceDraft" where
  "cadenceDraft s = (case s of
     Every m \<Rightarrow> \<lparr>cd_kind = KEvery, cd_minutes = Some (of_int m), cd_at = ''09:00''\<rparr>
   | Daily tm \<Rightarrow> \<lparr>cd_kind = KDaily, cd_minutes = Some 60, cd_at = tm\<rparr>)"

definition CHECK_IN_MIN_MINUTES :: int where "CHECK_IN_MIN_MINUTES = 1"

definition cadenceSchedule :: "CadenceDraft \<Rightarrow> bool \<Rightarrow> DutySchedule res" where
  "cadenceSchedule d builtin =
     (case cd_kind d of
        KDaily \<Rightarrow>
          if builtin then Inl ''The check-in runs every N minutes.''
          else if HHMM (cd_at d) \<noteq> None then Inr (Daily (cd_at d)) else Inl ''Give a time like 23:07.''
      | KEvery \<Rightarrow>
          (case cd_minutes d of
             Some m \<Rightarrow>
               if of_int \<lfloor>m\<rfloor> = m \<and> m \<ge> of_int CHECK_IN_MIN_MINUTES then Inr (Every \<lfloor>m\<rfloor>)
               else Inl (''Give a whole number of minutes, '' @ show_int CHECK_IN_MIN_MINUTES @ '' or more.'')
           | None \<Rightarrow> Inl (''Give a whole number of minutes, '' @ show_int CHECK_IN_MIN_MINUTES @ '' or more.'')))"

section \<open>Labels\<close>

definition count_of :: "nat \<Rightarrow> string \<Rightarrow> string" where
  "count_of n noun = digits_of_nat n @ '' '' @ noun @ (if n = 1 then '''' else ''s'')"

definition sentence :: "string list \<Rightarrow> string" where
  "sentence parts = (if parts = [] then ''''
     else (if length parts = 1 then hd parts else js_join '', '' (butlast parts) @ '' and '' @ last parts) @ ''.'')"

definition CLASS_WORDS :: "(string \<times> string) list" where
  "CLASS_WORDS = [(''live'', ''in progress''), (''foryou'', ''waiting on you''), (''waiting'', ''waiting until a set time''),
     (''due'', ''due now''), (''stale-chase'', ''gone quiet''), (''orphan'', ''with no job''), (''parked'', ''parked'')]"

definition spaced :: "char list \<Rightarrow> string \<Rightarrow> string" where
  "spaced cs s = map (\<lambda>c. if c \<in> set cs then CHR '' '' else c) s"

definition classesLabel :: "DutyRunRecord option \<Rightarrow> string" where
  "classesLabel r = sentence (map (\<lambda>(cls, n). count_of (nat n) ''step'' @ '' ''
       @ (case map_of CLASS_WORDS cls of Some w \<Rightarrow> w | None \<Rightarrow> spaced ''-_'' cls))
     (filter (\<lambda>(_, n). n > 0) (case Option.bind r rn_classes of Some cs \<Rightarrow> cs | None \<Rightarrow> [])))"

text \<open>\<open>FLAG_WORDS\<close>: \<open>Inl\<close> is a whole finding, \<open>Inr\<close> a noun with what is wrong with it.\<close>

definition FLAG_WORDS :: "(string \<times> (string + string \<times> string)) list" where
  "FLAG_WORDS =
     [(''orphan_steps'', Inr (''step'', ''with no job'')),
      (''due_late'', Inr (''step'', ''past due'')),
      (''stale_chase_24h'', Inr (''step'', ''quiet for a day'')),
      (''job_end_unrecorded'', Inr (''step'', ''not updated after its job ended'')),
      (''job_end_silent'', Inr (''step'', ''whose job failed with no report'')),
      (''scope_misses'', Inr (''step'', ''on another chat'' @ [CHR 39] @ ''s work'')),
      (''idle_goals'', Inr (''goal'', ''with no job working'')),
      (''stalled_steps'', Inr (''step'', ''stalled'')),
      (''go_missing'', Inr (''step'', ''missing the owner'' @ [CHR 39] @ ''s go'')),
      (''requirements_missing'', Inr (''goal'', ''missing requirements'')),
      (''merges_without_go'', Inr (''merge'', ''done without the owner'' @ [CHR 39] @ ''s go'')),
      (''goal_gaps'', Inr (''goal'', ''with no live job'')),
      (''goals_off_pace'', Inr (''goal'', ''off pace'')),
      (''blocked_on_others'', Inr (''step'', ''blocked on others for over an hour'')),
      (''finished_open'', Inr (''item'', ''done but still open'')),
      (''loose_goals'', Inr (''goal'', ''with no steps'')),
      (''extra_goals'', Inr (''goal'', ''past the goal target with no number or no live owner'')),
      (''open_under_closed'', Inr (''item'', ''open under a closed one'')),
      (''held_elsewhere'', Inr (''goal'', ''held by other chats'')),
      (''wait_met'', Inr (''step'', ''whose wait is over'')),
      (''no_progress'', Inl ''no progress in the last hour''),
      (''stale_steps'', Inr (''item'', ''with an old record'')),
      (''goals_to_fold'', Inr (''goal'', ''to fold into a duty'')),
      (''one_session_load'', Inr (''goal'', ''with too much on one job'')),
      (''redundant_heartbeats'', Inr (''heartbeat'', ''repeating a duty'' @ [CHR 39] @ ''s work'')),
      (''goals_without_duty'', Inl ''open goals with no duty''),
      (''no_done_line'', Inr (''goal'', ''with no done line'')),
      (''plan_risks'', Inr (''item'', ''holding a standing risk or upkeep'')),
      (''met_open'', Inr (''item'', ''met and still open'')),
      (''stuck_steps'', Inr (''step'', ''stuck'')),
      (''host_held'', Inr (''step'', ''waiting for the owner to bring its job'' @ [CHR 39] @ ''s box back''))]"

record DutyView =
  dv_duty :: Duty
  dv_builtin :: bool
  dv_schedule :: DutySchedule
  dv_paused :: bool
  dv_nextAt :: "int option"
  dv_running :: bool
  dv_runs :: "DutyRunRecord list"
  dv_priority :: PoolPriority

text \<open>The set of items each kind was flagged with, an item with no name counted by its place.\<close>

definition flag_items :: "FlaggedSlice list \<Rightarrow> (string \<times> string list) list" where
  "flag_items slices = fold (\<lambda>(i, s) found.
     let item = (case fs_item s of Some x \<Rightarrow> x | None \<Rightarrow> CHR ''#'' # digits_of_nat i);
         had = (case map_of found (fs_kind s) of Some xs \<Rightarrow> xs | None \<Rightarrow> [])
     in AList.update (fs_kind s) (List.insert item had) found) (enumerate 0 slices) []"

definition flaggedLabel :: "DutyView \<Rightarrow> string" where
  "flaggedLabel v =
     (let r = List.find (\<lambda>r. rn_verdict r \<noteq> Skipped) (dv_runs v);
          items = flag_items (case Option.bind r rn_flagged of Some fs \<Rightarrow> fs | None \<Rightarrow> [])
      in sentence (map (\<lambda>(kind, found). case map_of FLAG_WORDS kind of
             Some (Inl words) \<Rightarrow> words
           | Some (Inr (noun, words)) \<Rightarrow> count_of (length found) noun @ '' '' @ words
           | None \<Rightarrow> digits_of_nat (length found) @ '' '' @ spaced ''_'' kind) items))"

definition metricText :: "rat \<Rightarrow> string option \<Rightarrow> string" where
  "metricText v unit = number_text v @ (case unit of Some u \<Rightarrow> u | None \<Rightarrow> '''')"

definition headline_result :: "DutyRunRecord list \<Rightarrow> string \<Rightarrow> MetricResult option" where
  "headline_result rs key = Option.bind
     (List.find (\<lambda>e. ef_verdict e \<noteq> Skipped \<and> map_of (ef_metrics e) key \<noteq> None) (map effectiveRun rs)) (\<lambda>e. map_of (ef_metrics e) key)"

definition headlineLabel :: "DutyView \<Rightarrow> string option" where
  "headlineLabel v = map_option (\<lambda>m.
     let target = ''target '' @ target_words (dm_op m) @ '' '' @ metricText (dm_target m) (dm_unit m) in
     case headline_result (dv_runs v) (dm_key m) of
       Some r \<Rightarrow> dm_label m @ '' '' @ metricText (mr_value r) (dm_unit m) @ '', '' @ target @ '', '' @ (if mr_met r then ''met'' else ''off target'')
     | None \<Rightarrow> dm_label m @ '': not measured yet, '' @ target) (headlineMetric (du_metrics (dv_duty v)))"

section \<open>The card\<close>

datatype FixState = FixLive string string | FixIdle "string option" string | FixNone

record MissLine =
  ml_key :: string
  ml_text :: string
  ml_misses :: nat
  ml_stuck :: bool
  ml_fix :: FixState

record card_job =
  cj_id :: string
  cj_name :: string
  cj_live :: bool

record DutyCardModel =
  dk_headline :: "string option"
  dk_headlineMiss :: "MissLine option"
  dk_misses :: "MissLine list"
  dk_onTarget :: "string list"
  dk_streak :: nat
  dk_job :: "card_job option"
  dk_shape :: "string option"

definition jobLive :: "string \<Rightarrow> chat_agent list \<Rightarrow> bool \<Rightarrow> bool" where
  "jobLive name agents fallback =
     (case List.find (\<lambda>a. ca_name a = name \<or> ca_sender a = name \<or> ca_job a = name) agents of
        None \<Rightarrow> fallback
      | Some a \<Rightarrow> ca_state a = Working \<or> ca_state a = Waiting \<or> ca_queued a \<or> ca_subagentsRunning a > 0)"

definition fixState :: "FixLink option \<Rightarrow> chat_agent list \<Rightarrow> FixState" where
  "fixState fx agents =
     (case fx of
        None \<Rightarrow> FixNone
      | Some f \<Rightarrow>
          (case truthy (fl_job f) of
             Some j \<Rightarrow> if jobLive j agents (fl_live f) then FixLive j (fl_step f) else FixIdle (Some j) (fl_step f)
           | None \<Rightarrow> FixIdle None (fl_step f)))"

record judged_run =
  ju_verdict :: DutyVerdict
  ju_metrics :: results
  ju_summary :: string

definition judgedRun :: "DutyRunRecord \<Rightarrow> DutyMetric list \<Rightarrow> judged_run" where
  "judgedRun r metrics =
     (let e = effectiveRun r;
          same = \<lparr>ju_verdict = ef_verdict e, ju_metrics = ef_metrics e, ju_summary = ef_summary e\<rparr>
      in if ef_verdict e \<noteq> Met \<and> ef_verdict e \<noteq> Missed then same
         else (let counted = fold (\<lambda>m acc. case map_of (ef_metrics e) (dm_key m) of
                   Some res \<Rightarrow> AList.update (dm_key m) res acc | None \<Rightarrow> acc) (verdictMetrics metrics) []
           in if counted = [] then same
              else \<lparr>ju_verdict = (if list_ex (\<lambda>(_, res). \<not> mr_met res) counted then Missed else Met),
                    ju_metrics = counted, ju_summary = ef_summary e\<rparr>))"

text \<open>A verdict stays what it is; the cast of the code does not rule \<open>skipped\<close> out, so the model keeps it.\<close>

datatype DutyState = OfVerdict DutyVerdict | PausedState | RunningState | NewState

definition dutyState :: "DutyView \<Rightarrow> DutyState" where
  "dutyState v =
     (if dv_running v then RunningState
      else if dv_paused v then PausedState
      else (case List.find (\<lambda>r. rn_verdict r \<noteq> Skipped) (dv_runs v) of
          Some r \<Rightarrow> OfVerdict (ju_verdict (judgedRun r (du_metrics (dv_duty v))))
        | None \<Rightarrow> NewState))"

definition card_missStreak :: "DutyRunRecord list \<Rightarrow> DutyMetric list \<Rightarrow> nat" where
  "card_missStreak rs metrics = length (takeWhile (\<lambda>r. ju_verdict (judgedRun r metrics) = Missed) (streakRuns rs))"

definition shapeLine :: "DutyMetric list \<Rightarrow> string option" where
  "shapeLine ms =
     (if shapeNote ms = None then None
      else (let headlines = length (filter dm_headline ms);
                has = (if length ms > MAX_DUTY_METRICS
                       then digits_of_nat (length ms) @ '' metrics, over the target of one headline and '' @ digits_of_nat (MAX_DUTY_METRICS - 1) @ '' more''
                       else if headlines > 0 then digits_of_nat headlines @ '' headline metrics, over the target of one''
                       else ''no headline metric'')
            in Some (''This duty has '' @ has @ ''. Its chat should rework it.'')))"

definition missText :: "DutyMetric \<Rightarrow> rat \<Rightarrow> string" where
  "missText m v = dm_label m @ '' '' @ metricText v (dm_unit m) @ '', target '' @ target_words (dm_op m) @ '' '' @ metricText (dm_target m) (dm_unit m)"

definition miss_line :: "chat_agent list \<Rightarrow> DutyMetric \<Rightarrow> MetricStreak \<Rightarrow> MissLine" where
  "miss_line agents m s = \<lparr>ml_key = dm_key m, ml_text = missText m (ms_value s), ml_misses = ms_misses s, ml_stuck = ms_stuck s,
     ml_fix = fixState (ms_fix s) agents\<rparr>"

definition streak_map :: "DutyRunRecord list \<Rightarrow> (string \<times> MetricStreak) list" where
  "streak_map rs = fold (\<lambda>s. AList.update (ms_key s) s) (metricStreaks rs) []"

definition card_lines :: "chat_agent list \<Rightarrow> DutyMetric list \<Rightarrow> (string \<times> MetricStreak) list \<Rightarrow> (string \<times> MissLine) list" where
  "card_lines agents metrics streaks = fold (\<lambda>m lines. case map_of streaks (dm_key m) of
     Some s \<Rightarrow> AList.update (dm_key m) (miss_line agents m s) lines | None \<Rightarrow> lines) metrics []"

text \<open>The headline metric of the card and the other counted ones: the lead is dropped by identity, so only the first goes.\<close>

definition card_headline :: "DutyMetric list \<Rightarrow> DutyMetric option" where
  "card_headline metrics = (case metrics of m # _ \<Rightarrow> if dm_headline m then Some m else None | [] \<Rightarrow> None)"

definition card_others :: "DutyMetric list \<Rightarrow> DutyMetric list" where
  "card_others metrics = (if card_headline metrics = None then metrics else tl metrics)"

definition dutyCard :: "DutyView \<Rightarrow> chat_agent list \<Rightarrow> DutyCardModel" where
  "dutyCard v agents =
     (let metrics = verdictMetrics (du_metrics (dv_duty v));
          lines = card_lines agents metrics (streak_map (dv_runs v));
          results = (case List.find measured (dv_runs v) of Some r \<Rightarrow> ef_metrics (effectiveRun r) | None \<Rightarrow> []);
          newestJob = Option.bind (List.find (\<lambda>r. rn_job r \<noteq> None) (dv_runs v)) rn_job
      in \<lparr>dk_headline = headlineLabel v,
          dk_headlineMiss = Option.bind (card_headline metrics) (\<lambda>m. map_of lines (dm_key m)),
          dk_misses = List.map_filter (\<lambda>m. map_of lines (dm_key m)) (card_others metrics),
          dk_onTarget = map dm_label (filter (\<lambda>m. map_option mr_met (map_of results (dm_key m)) = Some True) (card_others metrics)),
          dk_streak = card_missStreak (dv_runs v) (du_metrics (dv_duty v)),
          dk_job = map_option (\<lambda>j. \<lparr>cj_id = jr_id j, cj_name = jr_name j, cj_live = jobLive (jr_name j) agents False\<rparr>) newestJob,
          dk_shape = shapeLine (du_metrics (dv_duty v))\<rparr>)"

section \<open>The status line\<close>

datatype fix_by = ByFix | ByRun

datatype DutyStatus = PlainStatus DutyState | Fixing string fix_by | Unfixed

definition is_live :: "FixState \<Rightarrow> bool" where
  "is_live f = (case f of FixLive _ _ \<Rightarrow> True | _ \<Rightarrow> False)"

definition card_miss_lines :: "DutyCardModel \<Rightarrow> MissLine list" where
  "card_miss_lines c = (case dk_headlineMiss c of Some l \<Rightarrow> [l] | None \<Rightarrow> []) @ dk_misses c"

definition dutyStatus :: "DutyView \<Rightarrow> DutyCardModel \<Rightarrow> DutyStatus" where
  "dutyStatus v c =
     (if dutyState v \<noteq> OfVerdict Missed then PlainStatus (dutyState v)
      else (case List.find (\<lambda>l. is_live (ml_fix l)) (card_miss_lines c) of
          Some l \<Rightarrow> (case ml_fix l of FixLive j _ \<Rightarrow> Fixing j ByFix | _ \<Rightarrow> Unfixed)
        | None \<Rightarrow> (case dk_job c of Some j \<Rightarrow> if cj_live j then Fixing (cj_name j) ByRun else Unfixed | None \<Rightarrow> Unfixed)))"

text \<open>\<open>toUpperCase\<close> of one code unit below 256; the upper cases of codes 181 and 255 lie outside the model's characters and stay.\<close>

definition upper_char :: "char \<Rightarrow> string" where
  "upper_char c = (let n = (of_char c :: nat) in
     if n = 223 then ''SS'' else if 97 \<le> n \<and> n \<le> 122 \<or> 224 \<le> n \<and> n \<le> 254 \<and> n \<noteq> 247 then [char_of (n - 32)] else [c])"

definition upper_first :: "string \<Rightarrow> string" where
  "upper_first s = (case s of c # cs \<Rightarrow> upper_char c @ cs | [] \<Rightarrow> [])"

text \<open>What is being done, per kind; the switch has no branch for \<open>skipped\<close> and leaves it undefined.\<close>

definition doing_words :: "DutyStatus \<Rightarrow> bool \<Rightarrow> string option" where
  "doing_words st lead =
     (case st of
        PlainStatus (OfVerdict Met) \<Rightarrow> Some (if lead then '''' else ''On target'')
      | Fixing _ by \<Rightarrow> Some (case by of ByFix \<Rightarrow> ''a fix is running'' | ByRun \<Rightarrow> ''its check job is working on it'')
      | Unfixed \<Rightarrow> Some ''no fix is running yet''
      | PlainStatus (OfVerdict Error) \<Rightarrow> Some ''The last run could not measure it, and the next run tries again''
      | PlainStatus RunningState \<Rightarrow> Some ''a check is running now''
      | PlainStatus PausedState \<Rightarrow> Some ''its checks are paused''
      | PlainStatus NewState \<Rightarrow> Some ''Not checked yet''
      | PlainStatus (OfVerdict _) \<Rightarrow> None)"

definition dutyStatusLine :: "DutyStatus \<Rightarrow> string option \<Rightarrow> bool \<Rightarrow> string res" where
  "dutyStatusLine st words headlineOff =
     (let lead = (if st = PlainStatus (OfVerdict Error) \<or> st = PlainStatus NewState then None else truthy words);
          acting = (case st of Fixing _ _ \<Rightarrow> True | Unfixed \<Rightarrow> True | _ \<Rightarrow> False);
          off = (if headlineOff \<or> \<not> acting then '''' else '', but another of its numbers is off target'');
          doing = doing_words st (lead \<noteq> None)
      in case lead of
           None \<Rightarrow> (case doing of
               None \<Rightarrow> Inl ''Cannot read properties of undefined''
             | Some d \<Rightarrow> Inr (upper_first d @ off @ ''.''))
         | Some l \<Rightarrow> (let head = upper_first l @ off in
             Inr (case truthy doing of Some d \<Rightarrow> head @ '', and '' @ d @ ''.'' | None \<Rightarrow> head @ ''.'')))"


section \<open>What the card shows\<close>

lemma streak_map_lookup:
  "map_of (streak_map rs) k = None \<longleftrightarrow> k \<notin> set (map ms_key (metricStreaks rs))"
  "map_of (streak_map rs) k = Some s \<Longrightarrow> s \<in> set (metricStreaks rs) \<and> ms_key s = k"
proof -
  have m: "map_of (fold (\<lambda>s. AList.update (ms_key s) s) ss m) k = Some s \<Longrightarrow> (s \<in> set ss \<and> ms_key s = k) \<or> map_of m k = Some s" for ss m s
  proof (induction ss arbitrary: m)
    case (Cons a ss)
    from Cons.IH [of "AList.update (ms_key a) a m"] Cons.prems show ?case
      by (auto simp: update_conv' split: if_splits)
  qed simp
  show "map_of (streak_map rs) k = None \<longleftrightarrow> k \<notin> set (map ms_key (metricStreaks rs))"
    by (simp add: streak_map_def map_of_eq_None_iff fold_update_keys)
  show "map_of (streak_map rs) k = Some s \<Longrightarrow> s \<in> set (metricStreaks rs) \<and> ms_key s = k"
    using m [of "metricStreaks rs" "[]" s] by (simp add: streak_map_def)
qed

definition line_of :: "string \<Rightarrow> FixState \<Rightarrow> MissLine \<Rightarrow> bool" where
  "line_of k f l \<longleftrightarrow> ml_key l = k \<and> ml_fix l = f"

lemma miss_line_of: "line_of (dm_key m) (fixState (ms_fix s) agents) (miss_line agents m s)"
  by (simp add: line_of_def miss_line_def)

lemma card_lines_lookup:
  assumes "k \<in> dm_key ` set metrics"
  shows "case map_of streaks k of
      None \<Rightarrow> map_of (card_lines agents metrics streaks) k = None
    | Some s \<Rightarrow> (\<exists>l. map_of (card_lines agents metrics streaks) k = Some l \<and> line_of k (fixState (ms_fix s) agents) l)"
proof -
  let ?f = "\<lambda>m lines. case map_of streaks (dm_key m) of Some s \<Rightarrow> AList.update (dm_key m) (miss_line agents m s) lines | None \<Rightarrow> lines"
  have none: "map_of streaks k = None \<Longrightarrow> map_of (fold ?f ms m) k = map_of m k" for ms m
  proof (induction ms arbitrary: m)
    case (Cons a ms)
    from Cons.IH [OF Cons.prems] show ?case using Cons.prems
      by (auto simp: update_conv' split: option.split)
  qed simp
  have some: "map_of streaks k = Some s \<Longrightarrow>
      (k \<in> dm_key ` set ms \<or> (\<exists>l. map_of m k = Some l \<and> line_of k (fixState (ms_fix s) agents) l)) \<Longrightarrow>
      (\<exists>l. map_of (fold ?f ms m) k = Some l \<and> line_of k (fixState (ms_fix s) agents) l)" for ms m s
  proof (induction ms arbitrary: m)
    case (Cons a ms)
    show ?case
    proof (cases "dm_key a = k")
      case True
      then have "map_of (?f a m) k = Some (miss_line agents a s)" using Cons.prems(1) by (simp add: update_conv')
      with miss_line_of [of a s agents] True have "\<exists>l. map_of (?f a m) k = Some l \<and> line_of k (fixState (ms_fix s) agents) l" by blast
      from Cons.IH [OF Cons.prems(1) disjI2 [OF this]] show ?thesis by simp
    next
      case False
      then have "map_of (?f a m) k = map_of m k" by (simp add: update_conv' split: option.split)
      with Cons.IH [OF Cons.prems(1), of "?f a m"] Cons.prems(2) False show ?thesis by auto
    qed
  qed simp
  show ?thesis
    using none [of metrics "[]"] some [OF _ disjI1 [OF assms], of _ "[]"]
    by (cases "map_of streaks k") (simp_all add: card_lines_def)
qed

lemma find_measured: "streakRuns rs = newest # older \<Longrightarrow> List.find measured rs = Some newest"
  by (induction rs) (auto simp: streakRuns_def split: if_splits list.splits)

lemma card_split: "metrics = (case card_headline metrics of Some m \<Rightarrow> [m] | None \<Rightarrow> []) @ card_others metrics"
  by (cases metrics) (auto simp: card_headline_def card_others_def)

lemma lookup_all_keys:
  assumes "\<And>m. m \<in> set ms \<Longrightarrow> case g (dm_key m) of None \<Rightarrow> \<not> P (dm_key m) | Some l \<Rightarrow> P (dm_key m) \<and> ml_key l = dm_key m"
  shows "map ml_key (List.map_filter (\<lambda>m. g (dm_key m)) ms) = filter P (map dm_key ms)"
  using assms
proof (induction ms)
  case (Cons m ms)
  have "case g (dm_key m) of None \<Rightarrow> \<not> P (dm_key m) | Some l \<Rightarrow> P (dm_key m) \<and> ml_key l = dm_key m"
    by (rule Cons.prems) simp
  moreover have "map ml_key (List.map_filter (\<lambda>m. g (dm_key m)) ms) = filter P (map dm_key ms)"
    using Cons by simp
  ultimately show ?case by (cases "g (dm_key m)") (simp_all add: List.map_filter_simps)
qed (simp add: List.map_filter_simps)

lemma card_miss_lines_all:
  "card_miss_lines (dutyCard v agents) = List.map_filter
     (\<lambda>m. map_of (card_lines agents (verdictMetrics (du_metrics (dv_duty v))) (streak_map (dv_runs v))) (dm_key m))
     (verdictMetrics (du_metrics (dv_duty v)))"
proof -
  let ?ms = "verdictMetrics (du_metrics (dv_duty v))"
  let ?g = "\<lambda>m. map_of (card_lines agents ?ms (streak_map (dv_runs v))) (dm_key m)"
  have "List.map_filter ?g ?ms = List.map_filter ?g ((case card_headline ?ms of Some m \<Rightarrow> [m] | None \<Rightarrow> []) @ card_others ?ms)"
    using card_split [of ?ms] by simp
  also have "\<dots> = List.map_filter ?g (case card_headline ?ms of Some m \<Rightarrow> [m] | None \<Rightarrow> []) @ List.map_filter ?g (card_others ?ms)"
    by (simp add: List.map_filter_def)
  also have "List.map_filter ?g (case card_headline ?ms of Some m \<Rightarrow> [m] | None \<Rightarrow> []) = (case Option.bind (card_headline ?ms) ?g of Some l \<Rightarrow> [l] | None \<Rightarrow> [])"
    by (cases "card_headline ?ms") (auto simp: List.map_filter_simps split: option.split)
  finally show ?thesis
    unfolding card_miss_lines_def dutyCard_def Let_def DutyCardModel.select_convs by simp
qed

text \<open>
  The card of a duty: its miss lines, the headline's first, name exactly the counted metrics that the newest counted run missed, each once and in the
  duty's order; each line's fix is the one that run recorded for the metric; and the labels on target are those of the other counted metrics that the same run met.
\<close>
theorem dutyCard_misses:
  assumes runs: "streakRuns (dv_runs v) = newest # older" and ok: "run_keys_ok newest"
  shows "map ml_key (card_miss_lines (dutyCard v agents)) = filter (\<lambda>k. misses_key k newest) (map dm_key (verdictMetrics (du_metrics (dv_duty v))))
    \<and> (\<forall>l \<in> set (card_miss_lines (dutyCard v agents)). ml_fix l = fixState (fix_of newest (ml_key l)) agents)
    \<and> dk_onTarget (dutyCard v agents) = map dm_label (filter
        (\<lambda>m. map_option mr_met (map_of (ef_metrics (effectiveRun newest)) (dm_key m)) = Some True) (card_others (verdictMetrics (du_metrics (dv_duty v)))))"
proof -
  let ?ms = "verdictMetrics (du_metrics (dv_duty v))"
  let ?lines = "card_lines agents ?ms (streak_map (dv_runs v))"
  have keys: "map_of (streak_map (dv_runs v)) k = None \<longleftrightarrow> \<not> misses_key k newest" for k
    using metricStreaks_keys [OF runs ok] by (simp add: streak_map_lookup(1))
  have line: "case map_of ?lines (dm_key m) of None \<Rightarrow> \<not> misses_key (dm_key m) newest
      | Some l \<Rightarrow> misses_key (dm_key m) newest \<and> line_of (dm_key m) (fixState (fix_of newest (dm_key m)) agents) l" if "m \<in> set ?ms" for m
  proof (cases "map_of (streak_map (dv_runs v)) (dm_key m)")
    case None
    with card_lines_lookup [of "dm_key m" ?ms agents "streak_map (dv_runs v)"] that keys show ?thesis by simp
  next
    case (Some s)
    have "ms_fix s = fix_of newest (dm_key m)"
      using streak_map_lookup(2) [OF Some] metricStreaks_fix [OF runs, of s] by simp
    moreover have "misses_key (dm_key m) newest" using Some keys [of "dm_key m"] by simp
    ultimately show ?thesis
      using card_lines_lookup [of "dm_key m" ?ms agents "streak_map (dv_runs v)"] that Some by auto
  qed
  have 1: "map ml_key (card_miss_lines (dutyCard v agents)) = filter (\<lambda>k. misses_key k newest) (map dm_key ?ms)"
    unfolding card_miss_lines_all
  proof (rule lookup_all_keys)
    fix m assume "m \<in> set ?ms"
    from line [OF this] show "case map_of ?lines (dm_key m) of None \<Rightarrow> \<not> misses_key (dm_key m) newest
        | Some l \<Rightarrow> misses_key (dm_key m) newest \<and> ml_key l = dm_key m"
      by (cases "map_of ?lines (dm_key m)") (simp_all add: line_of_def)
  qed
  have 2: "ml_fix l = fixState (fix_of newest (ml_key l)) agents" if "l \<in> set (card_miss_lines (dutyCard v agents))" for l
  proof -
    from that obtain m where "m \<in> set ?ms" "map_of ?lines (dm_key m) = Some l"
      unfolding card_miss_lines_all by (auto simp: List.map_filter_def)
    with line [of m] show ?thesis by (simp add: line_of_def)
  qed
  have 3: "dk_onTarget (dutyCard v agents) = map dm_label (filter
      (\<lambda>m. map_option mr_met (map_of (ef_metrics (effectiveRun newest)) (dm_key m)) = Some True) (card_others ?ms))"
    unfolding dutyCard_def Let_def DutyCardModel.select_convs find_measured [OF runs] option.case by (rule refl)
  from 1 2 3 show ?thesis by blast
qed

lemma judgedRun_met_iff:
  assumes "measured r" and "\<exists>m \<in> set (verdictMetrics ms). map_of (ef_metrics (effectiveRun r)) (dm_key m) \<noteq> None"
  shows "ju_verdict (judgedRun r ms) = (if \<exists>m \<in> set (verdictMetrics ms). misses_key (dm_key m) r then Missed else Met)"
proof -
  let ?e = "map_of (ef_metrics (effectiveRun r))"
  define f where "f = (\<lambda>(m::DutyMetric) acc. case ?e (dm_key m) of Some res \<Rightarrow> AList.update (dm_key m) res acc | None \<Rightarrow> acc)"
  have vals: "set (fold f xs acc) \<subseteq> set acc \<union> {(dm_key m, res) |m res. m \<in> set xs \<and> ?e (dm_key m) = Some res}" for xs acc
  proof (induction xs arbitrary: acc)
    case (Cons x xs)
    have "set (f x acc) \<subseteq> set acc \<union> {(dm_key x, res) |res. ?e (dm_key x) = Some res}"
      using set_alist_update [of "dm_key x" _ acc] by (cases "?e (dm_key x)") (simp_all add: f_def)
    then have "p \<in> set acc \<union> {(dm_key m, res) |m res. m \<in> set (x # xs) \<and> ?e (dm_key m) = Some res}"
      if "p \<in> set (fold f xs (f x acc))" for p
      using that subsetD [OF Cons.IH [of "f x acc"], of p] by (cases p) (auto dest: subsetD)
    then show ?case by auto
  qed simp
  have keys: "fst ` set (fold f xs acc) = fst ` set acc \<union> {dm_key m |m. m \<in> set xs \<and> ?e (dm_key m) \<noteq> None}" for xs acc
  proof (induction xs arbitrary: acc)
    case (Cons x xs)
    have "fst ` set (f x acc) = fst ` set acc \<union> (if ?e (dm_key x) \<noteq> None then {dm_key x} else {})"
      by (cases "?e (dm_key x)") (auto simp: f_def dom_update)
    with Cons.IH [of "f x acc"] show ?case by auto
  qed simp
  let ?c = "fold f (verdictMetrics ms) []"
  have ne: "?c \<noteq> []" using keys [of "verdictMetrics ms" "[]"] assms(2) by force
  have "list_ex (\<lambda>(_, res). \<not> mr_met res) ?c \<longleftrightarrow> (\<exists>m \<in> set (verdictMetrics ms). misses_key (dm_key m) r)"
  proof
    assume "list_ex (\<lambda>(_, res). \<not> mr_met res) ?c"
    then obtain k res where "(k, res) \<in> set ?c" "\<not> mr_met res" by (auto simp: list_ex_iff)
    with vals [of "verdictMetrics ms" "[]"] show "\<exists>m \<in> set (verdictMetrics ms). misses_key (dm_key m) r"
      by (force simp: misses_key_def)
  next
    assume "\<exists>m \<in> set (verdictMetrics ms). misses_key (dm_key m) r"
    then obtain m res where m: "m \<in> set (verdictMetrics ms)" "?e (dm_key m) = Some res" "\<not> mr_met res"
      by (auto simp: misses_key_def split: option.splits)
    then have "dm_key m \<in> fst ` set ?c" using keys [of "verdictMetrics ms" "[]"] by auto
    then obtain res' where in_c: "(dm_key m, res') \<in> set ?c" by auto
    with vals [of "verdictMetrics ms" "[]"] m(2) have "res' = res" by auto
    with in_c m(3) show "list_ex (\<lambda>(_, res). \<not> mr_met res) ?c" by (auto simp: list_ex_iff)
  qed
  with ne assms(1) show ?thesis
    unfolding judgedRun_def Let_def measured_def f_def by auto
qed

lemma dutyStatus_fixing:
  "dutyStatus v c = Fixing j ByFix \<Longrightarrow> \<exists>l \<in> set (card_miss_lines c). \<exists>step. ml_fix l = FixLive j step"
proof -
  assume s: "dutyStatus v c = Fixing j ByFix"
  then obtain l where l: "List.find (\<lambda>l. is_live (ml_fix l)) (card_miss_lines c) = Some l"
    by (auto simp: dutyStatus_def split: if_splits option.splits)
  with s have "\<exists>step. ml_fix l = FixLive j step" by (auto simp: dutyStatus_def split: if_splits FixState.splits)
  moreover have "l \<in> set (card_miss_lines c)" using l by (auto simp: find_Some_iff)
  ultimately show ?thesis by blast
qed

lemma dutyStatus_unfixed:
  "dutyStatus v c = Unfixed \<longleftrightarrow> dutyState v = OfVerdict Missed \<and> (\<forall>l \<in> set (card_miss_lines c). \<not> is_live (ml_fix l)) \<and> (\<forall>j. dk_job c = Some j \<longrightarrow> \<not> cj_live j)"
proof (cases "List.find (\<lambda>l. is_live (ml_fix l)) (card_miss_lines c)")
  case None
  moreover from None have "\<forall>l \<in> set (card_miss_lines c). \<not> is_live (ml_fix l)" by (simp add: find_None_iff)
  ultimately show ?thesis by (cases "dk_job c") (simp_all add: dutyStatus_def)
next
  case (Some l)
  then have l: "l \<in> set (card_miss_lines c)" "is_live (ml_fix l)" by (auto simp: find_Some_iff)
  then obtain j step where "ml_fix l = FixLive j step" by (auto simp: is_live_def split: FixState.splits)
  with Some have "dutyStatus v c \<noteq> Unfixed" by (simp add: dutyStatus_def)
  with l show ?thesis by blast
qed

text \<open>
  The row of a duty whose newest run that was not skipped was measured: it reads on target exactly when no counted metric that the run measured missed,
  and it reads that no fix runs exactly when one missed, no miss line has a live fix job and the duty's own newest job does not work.
\<close>
theorem dutyStatus_correct:
  assumes "\<not> dv_running v" and "\<not> dv_paused v"
    and newest: "List.find (\<lambda>r. rn_verdict r \<noteq> Skipped) (dv_runs v) = Some r" and "measured r"
    and some: "\<exists>m \<in> set (verdictMetrics (du_metrics (dv_duty v))). map_of (ef_metrics (effectiveRun r)) (dm_key m) \<noteq> None"
  shows "(dutyStatus v (dutyCard v agents) = PlainStatus (OfVerdict Met)
           \<longleftrightarrow> (\<forall>m \<in> set (verdictMetrics (du_metrics (dv_duty v))). \<not> misses_key (dm_key m) r))
    \<and> (dutyStatus v (dutyCard v agents) = Unfixed
           \<longleftrightarrow> (\<exists>m \<in> set (verdictMetrics (du_metrics (dv_duty v))). misses_key (dm_key m) r)
             \<and> (\<forall>l \<in> set (card_miss_lines (dutyCard v agents)). \<not> is_live (ml_fix l))
             \<and> (\<forall>j. dk_job (dutyCard v agents) = Some j \<longrightarrow> \<not> cj_live j))"
proof -
  have st: "dutyState v = OfVerdict (if \<exists>m \<in> set (verdictMetrics (du_metrics (dv_duty v))). misses_key (dm_key m) r then Missed else Met)"
    using assms(1,2) newest judgedRun_met_iff [OF assms(4) some] by (simp add: dutyState_def)
  have "dutyStatus v c \<noteq> PlainStatus (OfVerdict Missed)" for c
    by (auto simp: dutyStatus_def split: option.split FixState.split)
  then have "dutyStatus v (dutyCard v agents) = PlainStatus (OfVerdict Met) \<longleftrightarrow> dutyState v = OfVerdict Met"
    by (auto simp: dutyStatus_def split: option.split FixState.split)
  with st dutyStatus_unfixed [of v "dutyCard v agents"] show ?thesis by (auto split: if_splits)
qed

lemma dutyStatusLine_total:
  assumes "\<And>r. r \<in> set (dv_runs v) \<Longrightarrow> rn_verdict r \<noteq> Skipped \<Longrightarrow> ef_verdict (effectiveRun r) \<noteq> Skipped"
  shows "\<exists>s. dutyStatusLine (dutyStatus v c) words off = Inr s \<and> s \<noteq> []"
proof -
  have "dutyState v \<noteq> OfVerdict Skipped"
    using assms by (auto simp: dutyState_def judgedRun_def Let_def find_Some_iff split: option.splits)
  moreover have "dutyStatus v c \<noteq> PlainStatus (OfVerdict Missed)"
    by (auto simp: dutyStatus_def split: option.split FixState.split)
  ultimately have "dutyStatus v c \<noteq> PlainStatus (OfVerdict Skipped)" "doing_words (dutyStatus v c) False \<noteq> None"
    by (auto simp: dutyStatus_def doing_words_def split: option.split FixState.split DutyState.split DutyVerdict.split)
  then show ?thesis
    by (auto simp: dutyStatusLine_def Let_def split: option.split)
qed

section \<open>The cadence editor gives back what it was filled with\<close>

definition schedule_ok :: "DutySchedule \<Rightarrow> bool" where
  "schedule_ok s = (case s of Daily tm \<Rightarrow> HHMM tm \<noteq> None | Every m \<Rightarrow> m \<ge> CHECK_IN_MIN_MINUTES)"

text \<open>
  The cadence editor: saving an untouched draft gives back the duty's schedule, and whatever draft is saved, the schedule that comes out
  is a valid one, a whole number of minutes of at least 1 or, for a duty that is not the check-in, a time of day.
\<close>
theorem cadence_roundtrip:
  "(schedule_ok s \<and> \<not> (builtin \<and> (\<exists>tm. s = Daily tm)) \<longrightarrow> cadenceSchedule (cadenceDraft s) builtin = Inr s)
   \<and> (cadenceSchedule d builtin = Inr t \<longrightarrow> schedule_ok t \<and> \<not> (builtin \<and> (\<exists>tm. t = Daily tm)))"
  by (cases s)
    (auto simp: schedule_ok_def cadenceSchedule_def cadenceDraft_def CHECK_IN_MIN_MINUTES_def le_floor_iff
      split: cadence_kind.splits if_splits option.splits)

section \<open>Examples\<close>

definition ex_metric :: DutyMetric where
  "ex_metric = \<lparr>dm_key = ''lag'', dm_label = ''Lag'', dm_op = AtMost, dm_target = 5, dm_unit = None, dm_headline = True, dm_windowMs = None\<rparr>"

definition ex_duty :: Duty where
  "ex_duty = \<lparr>du_id = ''d1'', du_name = ''lag'', du_ownerWords = ''w'', du_goal = ''g'', du_metrics = [ex_metric], du_readings = None,
     du_schedule = Every 60, du_precheck = \<lparr>pc_command = [''p''], pc_cwd = '''', pc_timeoutMs = 1000\<rparr>, du_onMiss = ''m'', du_boardGoal = None,
     du_status = ActiveDuty, du_createdAt = 0, du_updatedAt = 0, du_runCount = 0, du_lastRunAt = None, du_lastSlotAt = None, du_lastSkippedAt = None\<rparr>"

definition ex_view :: DutyView where
  "ex_view = \<lparr>dv_duty = ex_duty, dv_builtin = False, dv_schedule = Every 60, dv_paused = False, dv_nextAt = None, dv_running = False,
     dv_runs = [ex_missed 30, ex_missed 20, ex_met 10], dv_priority = Normal\<rparr>"

lemma ex_verdictMetrics: "verdictMetrics (du_metrics (dv_duty ex_view)) = [ex_metric]"
  by (simp add: ex_view_def ex_duty_def verdictMetrics_def headlineMetric_def ex_metric_def)

theorem dutyCard_misses_witness:
  "map ml_key (card_miss_lines (dutyCard ex_view [])) = filter (\<lambda>k. misses_key k (ex_missed 30)) [''lag'']"
proof -
  have "streakRuns (dv_runs ex_view) = ex_missed 30 # [ex_missed 20, ex_met 10]"
    using ex_streak by (simp add: ex_view_def)
  moreover have "run_keys_ok (ex_missed 30)"
    by (simp add: run_keys_ok_def effectiveRun_def ex_missed_def ex_run_def)
  ultimately show ?thesis
    using dutyCard_misses [of ex_view "ex_missed 30" "[ex_missed 20, ex_met 10]" "[]"] ex_verdictMetrics
    by (simp add: ex_metric_def)
qed

theorem dutyStatus_correct_witness:
  "\<not> (dutyStatus ex_view (dutyCard ex_view []) = PlainStatus (OfVerdict Met))"
proof -
  have r: "List.find (\<lambda>r. rn_verdict r \<noteq> Skipped) (dv_runs ex_view) = Some (ex_missed 30)" "measured (ex_missed 30)"
    "map_of (ef_metrics (effectiveRun (ex_missed 30))) (dm_key ex_metric) \<noteq> None" "misses_key (dm_key ex_metric) (ex_missed 30)"
    by (simp_all add: ex_view_def measured_def misses_key_def effectiveRun_def ex_missed_def ex_run_def ex_result_def ex_metric_def)
  have "\<not> dv_running ex_view" "\<not> dv_paused ex_view" by (simp_all add: ex_view_def)
  then show ?thesis
    using dutyStatus_correct [of ex_view "ex_missed 30" "[]", OF _ _ r(1,2)] r(3,4) unfolding ex_verdictMetrics by simp
qed

theorem cadence_roundtrip_witness:
  "cadenceSchedule (cadenceDraft (Daily ''23:07'')) False = Inr (Daily ''23:07'')"
  using cadence_roundtrip [of "Daily ''23:07''" False]
  by (simp add: schedule_ok_def HHMM_def js_digit_def digit_val_def nat_of_digits_def)

end
