(* ===== verification/BriefCap.thy ===== *)
theory BriefCap
  imports Duties
begin

text \<open>
  The capped lists of flagged items in the briefs and notices of duties (\<open>apps/chat/server/brief-cap.ts\<close>). How a number prints is an
  argument.
\<close>

definition BRIEF_ITEMS :: nat where "BRIEF_ITEMS = 3"

definition capped_parts :: "string list \<Rightarrow> string option \<Rightarrow> string list" where
  "capped_parts lines detail =
     (let shown = map (\<lambda>l. ''- '' @ l) (take BRIEF_ITEMS lines); rest = length lines - length shown in
      shown @ (if rest > 0 then [''- and '' @ digits_of_nat rest @ '' more''
        @ (case detail of Some d \<Rightarrow> if d = [] then '''' else '', all listed in '' @ d | None \<Rightarrow> '''')] else []))"

definition cappedLines :: "string list \<Rightarrow> string option \<Rightarrow> string" where
  "cappedLines lines detail = js_join [CHR 10] (capped_parts lines detail)"

definition RULE_KINDS :: "string list" where
  "RULE_KINDS = [''merges_without_go'', ''go_missing'', ''requirements_missing'']"

definition MAX_CHARS :: nat where "MAX_CHARS = 240"

text \<open>\<open>replace(/\s+/g, " ")\<close>: each run of whitespace becomes one blank.\<close>

fun squeeze :: "string \<Rightarrow> bool \<Rightarrow> string" where
  "squeeze [] _ = []"
| "squeeze (c # cs) in_ws = (if js_ws c then (if in_ws then squeeze cs True else CHR '' '' # squeeze cs True) else c # squeeze cs False)"

text \<open>The ellipsis is the character that stands for it in the duties' texts.\<close>

definition plainItem :: "FlaggedSlice \<Rightarrow> string" where
  "plainItem s =
     (let tx = js_trim (squeeze (fs_excerpt s) False);
          clipped = (if length tx > MAX_CHARS then rev (dropWhile js_ws (rev (take (MAX_CHARS - 1) tx))) @ [CHR 133] else tx)
      in case fs_item s of
           Some i \<Rightarrow> if i \<noteq> [] \<and> \<not> js_includes i clipped then clipped @ '' ('' @ i @ '')'' else clipped
         | None \<Rightarrow> clipped)"

definition brief_rank :: "string option \<Rightarrow> FlaggedSlice \<Rightarrow> nat" where
  "brief_rank headlineKey s = (if fs_kind s \<in> set RULE_KINDS then 0 else if Some (fs_kind s) = headlineKey then 1 else 2)"

text \<open>The sort compares ranks and then places, so it is the stable sort by rank.\<close>

definition briefOrder :: "FlaggedSlice list \<Rightarrow> string option \<Rightarrow> FlaggedSlice list" where
  "briefOrder flagged headlineKey = sort_key (brief_rank headlineKey) flagged"

definition brief_headlineWords :: "(rat \<Rightarrow> string) \<Rightarrow> DutyMetric \<Rightarrow> rat \<Rightarrow> string" where
  "brief_headlineWords num m v =
     (let unit = (case dm_unit m of Some u \<Rightarrow> u | None \<Rightarrow> '''') in
      dm_key m @ '' at '' @ num v @ unit @ '', target '' @ target_words (dm_op m) @ '' '' @ num (dm_target m) @ unit @ '' ('' @ dm_label m @ '')'')"

definition briefFindings :: "string option \<Rightarrow> FlaggedSlice list \<Rightarrow> string option \<Rightarrow> string \<Rightarrow> string" where
  "briefFindings headline flagged headlineKey detail =
     (let items = map plainItem (briefOrder flagged headlineKey);
          count = (if length items = 1 then ''1 flagged item'' else digits_of_nat (length items) @ '' flagged items'')
      in js_join [CHR 10, CHR 10]
        ((case headline of Some h \<Rightarrow> if h = [] then [] else [''The headline number this run is '' @ h @ ''.''] | None \<Rightarrow> [])
         @ [if items \<noteq> [] then count @ ''; the first '' @ digits_of_nat (min (length items) BRIEF_ITEMS) @ '':'' @ [CHR 10] @ cappedLines items None else ''No flagged items.'',
            ''Every flagged item and the full precheck are in '' @ detail @ ''. Read it for the items you work on; never paste the list into a message.'']))"

section \<open>The order and the cap\<close>

lemma sorted_ranks:
  assumes "sorted (map f ys)" "\<forall>x \<in> set ys. f x \<le> (2::nat)"
  shows "ys = filter (\<lambda>x. f x = 0) ys @ filter (\<lambda>x. f x = 1) ys @ filter (\<lambda>x. f x = 2) ys"
  using assms
proof (induction ys)
  case (Cons y ys)
  then have IH: "ys = filter (\<lambda>x. f x = 0) ys @ filter (\<lambda>x. f x = 1) ys @ filter (\<lambda>x. f x = 2) ys" by simp
  have low: "filter (\<lambda>x. f x = k) ys = []" if "k < f y" for k
    using Cons.prems(1) that by (auto simp: filter_empty_conv)
  have "f y = 0 \<or> f y = 1 \<or> f y = 2" using Cons.prems(2) by auto
  then show ?case using IH low by (elim disjE) auto
qed simp

text \<open>
  The brief's order: the breaches of a hard rule first, then the headline metric's items, then the rest, each group as it was flagged, with
  nothing lost.
\<close>
lemma briefOrder_groups:
  "briefOrder flagged key = filter (\<lambda>s. fs_kind s \<in> set RULE_KINDS) flagged
     @ filter (\<lambda>s. fs_kind s \<notin> set RULE_KINDS \<and> Some (fs_kind s) = key) flagged
     @ filter (\<lambda>s. fs_kind s \<notin> set RULE_KINDS \<and> Some (fs_kind s) \<noteq> key) flagged"
proof -
  let ?r = "brief_rank key"
  have le: "\<forall>x \<in> set (sort_key ?r flagged). ?r x \<le> 2" by (simp add: brief_rank_def)
  have "?r s = 0 \<longleftrightarrow> fs_kind s \<in> set RULE_KINDS" "?r s = 1 \<longleftrightarrow> fs_kind s \<notin> set RULE_KINDS \<and> Some (fs_kind s) = key"
    "?r s = 2 \<longleftrightarrow> fs_kind s \<notin> set RULE_KINDS \<and> Some (fs_kind s) \<noteq> key" for s by (simp_all add: brief_rank_def)
  then show ?thesis
    using sorted_ranks [OF sorted_sort_key le] unfolding briefOrder_def sort_key_stable by simp
qed

lemma capped_parts_bound: "length (capped_parts lines detail) \<le> BRIEF_ITEMS + 1"
  by (auto simp: capped_parts_def Let_def)

lemma capped_parts_whole: "length lines \<le> BRIEF_ITEMS \<Longrightarrow> capped_parts lines detail = map (\<lambda>l. ''- '' @ l) lines"
  by (simp add: capped_parts_def Let_def)

end
