(* ===== verification/Turns.thy ===== *)
theory Turns
  imports Json
begin

text \<open>
  A run's wait for its working slot in the machine's turn queue (\<open>packages/pi-pool/src/core/turns.ts\<close>).

  The wait is a state machine over what can happen next: a pool call takes effect, a pool call returns, an answered ask goes
  on, the timer fires, the wait is stopped. The pool's CLI is outside the wait: a call takes effect at one moment between its start
  and its return, and a call that fails may take none if it is an admit; a release that returned has taken effect.
  The theorems show that a wait that has not answered always has something under way that will go on with it, that a stopped wait never answers
  with a slot nor a finished one releases it, and that a stopped wait leaves no entry in the queue once its calls have returned.
\<close>

section \<open>Replies\<close>

record AdmitReply =
  ar_state :: string
  ar_kind :: "json option"
  ar_position :: "json option"
  ar_total :: "json option"

datatype part = PWorking | PQueued | PGone

definition truthy_json :: "json option \<Rightarrow> bool" where
  "truthy_json v = (case v of
     None \<Rightarrow> False | Some JNull \<Rightarrow> False | Some (JBool b) \<Rightarrow> b | Some (JNum q) \<Rightarrow> q \<noteq> 0 | Some (JStr s) \<Rightarrow> s \<noteq> [] | Some _ \<Rightarrow> True)"

text \<open>\<open>turns.working?.[sid]\<close>: a property read of null throws only without the question mark.\<close>

definition entry_of :: "json \<Rightarrow> string \<Rightarrow> string \<Rightarrow> json option" where
  "entry_of turns which sid = Option.bind (field turns which) (\<lambda>es. field es sid)"

text \<open>\<open>placeIn\<close> of the parsed text, \<open>None\<close> when the parse throws. A list is an object with no field of that name.\<close>

definition placeIn :: "json option \<Rightarrow> string \<Rightarrow> (part \<times> string option) option" where
  "placeIn parsed sid =
     (case parsed of
        None \<Rightarrow> None
      | Some turns \<Rightarrow>
          (case turns of
             JObj _ \<Rightarrow>
               (case entry_of turns ''working'' sid of
                  Some w \<Rightarrow> if truthy_json (Some w) then Some (PWorking, as_string (field w ''kind''))
                            else Some (if truthy_json (entry_of turns ''queued'' sid) then PQueued else PGone, None)
                | None \<Rightarrow> Some (if truthy_json (entry_of turns ''queued'' sid) then PQueued else PGone, None))
           | JArr _ \<Rightarrow> Some (PGone, None)
           | _ \<Rightarrow> None))"

text \<open>\<open>admitReply\<close>: the parse is of the last line of the trimmed output.\<close>

definition admitReply :: "(string \<Rightarrow> json option) \<Rightarrow> string \<Rightarrow> AdmitReply option" where
  "admitReply parse out =
     Option.bind (parse (last (js_split (CHR 10) (js_trim out)))) (\<lambda>j.
       map_option (\<lambda>s. \<lparr>ar_state = s, ar_kind = field j ''kind'', ar_position = field j ''position'', ar_total = field j ''total''\<rparr>)
         (as_string (field j ''state'')))"

definition ordinal :: "nat \<Rightarrow> string" where
  "ordinal n = digits_of_nat n @
     (let tens = n mod 100 in
      if 11 \<le> tens \<and> tens \<le> 13 then ''th''
      else if n mod 10 = 1 then ''st'' else if n mod 10 = 2 then ''nd'' else if n mod 10 = 3 then ''rd'' else ''th'')"

section \<open>The wait\<close>

definition WAIT_READ_MS :: int where "WAIT_READ_MS = 1000"

definition WAIT_ASK_MS :: int where "WAIT_ASK_MS = 30000"

datatype admit_result = AnsweredReply AdmitReply | StoppedWait | FailedWait

text \<open>
  An ask goes through its pool call and then, back in the code after \<open>await\<close>, to what follows it. A call is in flight before or
  after it took effect.
\<close>

datatype flight = Sent | Took

datatype asking = NoAsk | InCall flight | Asked bool

record wait =
  w_done :: bool
  w_stopped :: bool
  w_timer :: bool
  w_askedAt :: int
  w_seen :: rat
  w_asking :: asking
  w_stopRelease :: "flight option"
  w_lateRelease :: "flight option"
  w_released :: nat
  w_result :: "admit_result option"
  w_queued :: "AdmitReply list"
  w_entry :: bool

definition finish :: "admit_result \<Rightarrow> wait \<Rightarrow> wait" where
  "finish v w = (if w_done w then w else w\<lparr>w_done := True, w_timer := False, w_result := Some v\<rparr>)"

definition stop_wait :: "wait \<Rightarrow> wait" where
  "stop_wait w = (if w_done w \<or> w_stopped w then w
     else w\<lparr>w_stopped := True, w_stopRelease := Some Sent, w_released := w_released w + 1\<rparr>)"

definition ask :: "int \<Rightarrow> wait \<Rightarrow> wait" where
  "ask now w = w\<lparr>w_askedAt := now, w_asking := InCall Sent\<rparr>"

definition file_reply :: "string option \<Rightarrow> AdmitReply" where
  "file_reply kind = \<lparr>ar_state = ''admitted'', ar_kind = Some (case kind of Some k \<Rightarrow> JStr k | None \<Rightarrow> JNull), ar_position = Some JNull, ar_total = Some JNull\<rparr>"

text \<open>
  \<open>ask\<close> after its \<open>await\<close>: \<open>ok\<close> and \<open>reply\<close> are the call's answer and what \<open>admitReply\<close> reads of it, \<open>place\<close> what \<open>readPlace\<close> gives.
  The flag it leaves is what the ask returns.
\<close>

definition ask_returned :: "bool \<Rightarrow> AdmitReply option \<Rightarrow> (part \<times> string option) option \<Rightarrow> wait \<Rightarrow> wait" where
  "ask_returned ok reply place w =
     (if w_stopped w then w\<lparr>w_asking := Asked True, w_lateRelease := Some Sent, w_released := w_released w + 1\<rparr>
      else (case (if ok then reply else None) of
          None \<Rightarrow>
            (case place of
               Some (PWorking, kind) \<Rightarrow> finish (AnsweredReply (file_reply kind)) (w\<lparr>w_asking := Asked True\<rparr>)
             | Some (PQueued, _) \<Rightarrow> w\<lparr>w_asking := Asked False\<rparr>
             | _ \<Rightarrow> finish FailedWait (w\<lparr>w_asking := Asked True\<rparr>))
        | Some r \<Rightarrow>
            if ar_state r = ''queued'' then w\<lparr>w_asking := Asked False, w_queued := w_queued w @ [r]\<rparr>
            else finish (if ar_state r = ''admitted'' \<or> ar_state r = ''off'' then AnsweredReply r else FailedWait) (w\<lparr>w_asking := Asked True\<rparr>)))"

text \<open>What follows an ask, the first one's \<open>then\<close> and the rest of a tick alike.\<close>

definition after_ask :: "bool \<Rightarrow> wait \<Rightarrow> wait" where
  "after_ask over w = (if \<not> over \<and> \<not> w_done w then w\<lparr>w_asking := NoAsk, w_timer := True\<rparr> else w\<lparr>w_asking := NoAsk\<rparr>)"

text \<open>
  A tick: \<open>mtime\<close> is \<open>None\<close> when the stat throws.
\<close>

definition tick :: "int \<Rightarrow> bool \<Rightarrow> rat option \<Rightarrow> (part \<times> string option) option \<Rightarrow> wait \<Rightarrow> wait" where
  "tick now aborted mtime place w0 =
     (let w = w0\<lparr>w_timer := False\<rparr> in
      if w_done w \<or> w_stopped w then w
      else if aborted then stop_wait w
      else if now - w_askedAt w \<ge> WAIT_ASK_MS then ask now w
      else (case mtime of
          None \<Rightarrow> ask now w
        | Some t \<Rightarrow>
            if t = w_seen w then w\<lparr>w_timer := True\<rparr>
            else (case place of
                Some (PWorking, kind) \<Rightarrow> finish (AnsweredReply (file_reply kind)) (w\<lparr>w_seen := t\<rparr>)
              | Some (PGone, _) \<Rightarrow> ask now (w\<lparr>w_seen := t\<rparr>)
              | _ \<Rightarrow> w\<lparr>w_seen := t, w_timer := True\<rparr>)))"

definition admitWait :: "int \<Rightarrow> wait" where
  "admitWait now = ask now \<lparr>w_done = False, w_stopped = False, w_timer = False, w_askedAt = 0, w_seen = 0, w_asking = NoAsk,
     w_stopRelease = None, w_lateRelease = None, w_released = 0, w_result = None, w_queued = [], w_entry = False\<rparr>"

text \<open>
  What can happen next. \<open>w_entry\<close> is whether the pool has an entry of the run: an admit that takes effect may make one, others' admits and
  the queue itself may change its part or end it, a release removes it.
\<close>

inductive wait_step :: "wait \<Rightarrow> wait \<Rightarrow> bool" where
  admit_takes: "w_asking w = InCall Sent \<Longrightarrow> wait_step w (w\<lparr>w_asking := InCall Took, w_entry := e\<rparr>)"
| admit_returns: "w_asking w = InCall f \<Longrightarrow> wait_step w (ask_returned ok reply place w)"
| ask_goes_on: "w_asking w = Asked over \<Longrightarrow> wait_step w (after_ask over w)"
| timer_fires: "w_timer w \<Longrightarrow> wait_step w (tick now aborted mtime place w)"
| stops: "wait_step w (stop_wait w)"
| release_takes: "w_stopRelease w = Some Sent \<Longrightarrow> wait_step w (w\<lparr>w_stopRelease := Some Took, w_entry := False\<rparr>)"
| late_release_takes: "w_lateRelease w = Some Sent \<Longrightarrow> wait_step w (w\<lparr>w_lateRelease := Some Took, w_entry := False\<rparr>)"
| release_returns: "w_stopRelease w = Some Took \<Longrightarrow> wait_step w (finish StoppedWait (w\<lparr>w_stopRelease := None\<rparr>))"
| late_release_returns: "w_lateRelease w = Some Took \<Longrightarrow> wait_step w (w\<lparr>w_lateRelease := None\<rparr>)"
| entry_ends: "wait_step w (w\<lparr>w_entry := False\<rparr>)"

inductive_cases wait_stepE [elim]: "wait_step w w'"

section \<open>What every state of a wait keeps\<close>

definition in_call :: "wait \<Rightarrow> bool" where
  "in_call w \<longleftrightarrow> w_asking w = InCall Sent \<or> w_asking w = InCall Took"

text \<open>What drives the answer: something is under way until there is one, and a stopped wait answers nothing else.\<close>

definition drive_inv :: "wait \<Rightarrow> bool" where
  "drive_inv w \<longleftrightarrow>
     (w_timer w \<longrightarrow> w_asking w = NoAsk \<and> w_result w = None)
     \<and> (w_done w \<longleftrightarrow> w_result w \<noteq> None)
     \<and> (w_stopped w \<longrightarrow> w_result w = None \<and> w_stopRelease w \<noteq> None \<or> w_result w = Some StoppedWait)
     \<and> (\<not> w_stopped w \<longrightarrow> w_result w \<noteq> Some StoppedWait \<and> w_released w = 0 \<and> w_stopRelease w = None)
     \<and> (\<not> w_stopped w \<and> \<not> w_done w \<longrightarrow> w_timer w \<or> in_call w \<or> w_asking w = Asked False)
     \<and> (\<not> w_stopped w \<and> w_done w \<longrightarrow> w_asking w = NoAsk \<or> w_asking w = Asked True)"

text \<open>What holds of the calls and the entry: with the run stopped, an entry has a release on its way or an ask still in its call.\<close>

definition entry_inv :: "wait \<Rightarrow> bool" where
  "entry_inv w \<longleftrightarrow>
     (\<not> w_stopped w \<longrightarrow> w_lateRelease w = None)
     \<and> (in_call w \<longrightarrow> w_lateRelease w = None)
     \<and> (w_stopped w \<and> w_entry w \<longrightarrow> in_call w \<or> w_stopRelease w = Some Sent \<or> w_lateRelease w = Some Sent)
     \<and> (in_call w \<or> w_timer w \<or> w_asking w = Asked False \<longrightarrow> w_released w \<le> 1)
     \<and> w_released w \<le> 2"

lemmas wait_ops = finish_def stop_wait_def ask_def ask_returned_def after_ask_def tick_def Let_def in_call_def

lemma drive_admit: "drive_inv (admitWait now)" and entry_admit: "entry_inv (admitWait now)"
  by (simp_all add: drive_inv_def entry_inv_def admitWait_def ask_def in_call_def)

lemma in_call_cases: "w_asking w = InCall f \<Longrightarrow> in_call w"
  by (cases f) (simp_all add: in_call_def)

lemma drive_stop: "drive_inv w \<Longrightarrow> drive_inv (stop_wait w)"
  by (auto simp: drive_inv_def stop_wait_def in_call_def)

lemma drive_finish:
  "drive_inv w \<Longrightarrow> \<not> w_stopped w \<Longrightarrow> v \<noteq> StoppedWait \<Longrightarrow> drive_inv (finish v (w\<lparr>w_asking := Asked True\<rparr>))"
  by (auto simp: drive_inv_def finish_def in_call_def)

lemma drive_ask_returned:
  assumes i: "drive_inv w" and c: "in_call w"
  shows "drive_inv (ask_returned ok reply place w)"
proof (cases "w_stopped w")
  case True
  with i c show ?thesis by (auto simp: ask_returned_def drive_inv_def in_call_def)
next
  case False
  have again: "drive_inv (w\<lparr>w_asking := Asked False\<rparr>)" "drive_inv (w\<lparr>w_asking := Asked False, w_queued := q\<rparr>)" for q
    using i c False by (auto simp: drive_inv_def in_call_def)
  have fin: "drive_inv (finish (AnsweredReply r) (w\<lparr>w_asking := Asked True\<rparr>))" "drive_inv (finish FailedWait (w\<lparr>w_asking := Asked True\<rparr>))" for r
    using drive_finish [OF i False] by simp_all
  show ?thesis
    using False again fin by (simp add: ask_returned_def split: option.split part.split prod.split)
qed

lemma drive_after_ask: "drive_inv w \<Longrightarrow> w_asking w = Asked over \<Longrightarrow> drive_inv (after_ask over w)"
  by (cases over) (auto simp: drive_inv_def after_ask_def in_call_def)

lemma drive_tick:
  assumes i: "drive_inv w" and t: "w_timer w"
  shows "drive_inv (tick now aborted mtime place w)"
proof (cases "w_stopped w")
  case True
  with i t show ?thesis by (auto simp: tick_def drive_inv_def in_call_def)
next
  case False
  from i t have idle: "w_asking w = NoAsk" "\<not> w_done w" "w_result w = None" "w_released w = 0"
    using False by (auto simp: drive_inv_def)
  have "drive_inv (stop_wait (w\<lparr>w_timer := False\<rparr>))" "drive_inv (ask now (w\<lparr>w_timer := False\<rparr>))"
    "drive_inv (w\<lparr>w_timer := True\<rparr>)" "drive_inv (w\<lparr>w_timer := True, w_seen := s\<rparr>)" "drive_inv (w\<lparr>w_seen := s, w_timer := True\<rparr>)"
    "drive_inv (ask now (w\<lparr>w_timer := False, w_seen := s\<rparr>))"
    "drive_inv (finish (AnsweredReply r) (w\<lparr>w_timer := False, w_seen := s\<rparr>))" for s r
    using i False idle by (auto simp: drive_inv_def stop_wait_def ask_def finish_def in_call_def)
  then show ?thesis
    using False idle by (simp add: tick_def Let_def split: option.split part.split prod.split)
qed

lemma drive_step:
  assumes i: "drive_inv w" and "wait_step w w'"
  shows "drive_inv w'"
  using assms(2)
proof cases
  case (admit_takes e)
  with i show ?thesis by (auto simp: drive_inv_def in_call_def)
next
  case (admit_returns f ok reply place)
  show ?thesis unfolding admit_returns(1) by (rule drive_ask_returned [OF i in_call_cases [OF admit_returns(2)]])
next
  case (ask_goes_on over)
  show ?thesis unfolding ask_goes_on(1) by (rule drive_after_ask [OF i ask_goes_on(2)])
next
  case (timer_fires now aborted mtime place)
  show ?thesis unfolding timer_fires(1) by (rule drive_tick [OF i timer_fires(2)])
next
  case stops
  show ?thesis unfolding stops by (rule drive_stop [OF i])
next
  case release_returns
  have "w_stopped w" using i release_returns(2) by (simp add: drive_inv_def)
  with i show ?thesis unfolding release_returns(1) by (auto simp: drive_inv_def finish_def in_call_def)
qed (use i in \<open>simp_all add: drive_inv_def in_call_def\<close>)

lemma entry_ask_returned:
  assumes d: "drive_inv w" and i: "entry_inv w" and c: "in_call w"
  shows "entry_inv (ask_returned ok reply place w)"
proof (cases "w_stopped w")
  case True
  moreover have "\<not> w_timer w" using d c by (auto simp: drive_inv_def in_call_def)
  ultimately show ?thesis using i c by (auto simp: ask_returned_def entry_inv_def in_call_def)
next
  case False
  with d i have "entry_inv w'" if "\<not> w_stopped w'" "w_lateRelease w' = w_lateRelease w" "w_released w' = w_released w" for w'
    using that by (auto simp: drive_inv_def entry_inv_def)
  with False show ?thesis by (simp add: ask_returned_def finish_def split: option.split part.split prod.split)
qed

lemma entry_tick:
  assumes d: "drive_inv w" and i: "entry_inv w" and t: "w_timer w"
  shows "entry_inv (tick now aborted mtime place w)"
proof (cases "w_stopped w")
  case True
  with i t show ?thesis by (auto simp: tick_def entry_inv_def in_call_def)
next
  case False
  from d i False have same: "entry_inv w'" if "\<not> w_stopped w'" "w_lateRelease w' = w_lateRelease w" "w_released w' = w_released w" for w'
    using that by (auto simp: drive_inv_def entry_inv_def)
  have "entry_inv (stop_wait (w\<lparr>w_timer := False\<rparr>))"
    using i False d t by (auto simp: entry_inv_def stop_wait_def in_call_def drive_inv_def)
  with False show ?thesis
    by (auto simp: tick_def Let_def finish_def ask_def intro!: same split: option.split part.split prod.split)
qed

lemma entry_step:
  assumes d: "drive_inv w" and i: "entry_inv w" and "wait_step w w'"
  shows "entry_inv w'"
  using assms(3)
proof cases
  case (admit_returns f ok reply place)
  show ?thesis unfolding admit_returns(1) by (rule entry_ask_returned [OF d i in_call_cases [OF admit_returns(2)]])
next
  case (ask_goes_on over)
  with i show ?thesis by (cases over) (auto simp: entry_inv_def after_ask_def in_call_def)
next
  case (timer_fires now aborted mtime place)
  show ?thesis unfolding timer_fires(1) by (rule entry_tick [OF d i timer_fires(2)])
next
  case stops
  with d i show ?thesis by (simp add: drive_inv_def entry_inv_def stop_wait_def in_call_def)
next
  case release_returns
  with i show ?thesis by (auto simp: entry_inv_def finish_def in_call_def split: if_splits)
next
  case late_release_returns
  with i show ?thesis by (auto simp: entry_inv_def in_call_def)
qed (use i in \<open>simp_all add: entry_inv_def in_call_def\<close>)

definition wait_start :: "wait \<Rightarrow> bool" where
  "wait_start w \<longleftrightarrow> w \<in> range admitWait"

interpretation admit: step_invariant wait_start wait_step "\<lambda>w. drive_inv w \<and> entry_inv w"
  by unfold_locales (auto simp: wait_start_def drive_admit entry_admit intro: drive_step entry_step)

lemma wait_reached: "wait_step\<^sup>*\<^sup>* (admitWait now) w \<Longrightarrow> drive_inv w \<and> entry_inv w"
  using admit.inv_reach [of "admitWait now" w] by (simp add: wait_start_def)

text \<open>
  C35. A run's wait for its slot, whatever happens in whatever order: until it has answered, an ask, the timer or the stop's
  release is under way to go on with it, and once it has answered no timer is left; an answer with a slot is never given after a stop and
  the wait has then released nothing; and a stopped wait answers only that it was stopped.
\<close>
theorem admitWait_outcome:
  assumes "wait_step\<^sup>*\<^sup>* (admitWait now) w"
  shows "(w_result w = None \<longrightarrow> w_timer w \<or> w_asking w \<noteq> NoAsk \<or> w_stopRelease w \<noteq> None)
    \<and> (w_result w \<noteq> None \<longrightarrow> \<not> w_timer w)
    \<and> (\<forall>r. w_result w = Some (AnsweredReply r) \<longrightarrow> \<not> w_stopped w \<and> w_released w = 0)
    \<and> (w_stopped w \<longrightarrow> w_result w = None \<or> w_result w = Some StoppedWait)"
proof -
  have d: "drive_inv w" using wait_reached [OF assms] by blast
  then have "w_result w = None \<longrightarrow> w_timer w \<or> w_asking w \<noteq> NoAsk \<or> w_stopRelease w \<noteq> None"
    by (auto simp: drive_inv_def in_call_def)
  with d show ?thesis by (simp add: drive_inv_def) (metis admit_result.distinct(1) option.inject option.distinct(1))
qed

text \<open>
  A stopped wait leaves nothing in the turn queue: when the run was stopped, even with an ask in flight that takes effect after the release,
  and none of its calls is in flight any more, the queue has no entry of the run; it made at most two releases.
\<close>
theorem admitWait_no_leak:
  assumes "wait_step\<^sup>*\<^sup>* (admitWait now) w" and "w_stopped w"
    and "\<not> in_call w" and "w_stopRelease w = None" and "w_lateRelease w = None"
  shows "\<not> w_entry w \<and> w_result w = Some StoppedWait \<and> w_released w \<le> 2"
proof -
  have "drive_inv w" "entry_inv w" using wait_reached [OF assms(1)] by auto
  with assms(2-) show ?thesis by (auto simp: drive_inv_def entry_inv_def split: if_splits)
qed

lemma tick_asks_again: "w_timer w \<Longrightarrow> \<not> w_done w \<Longrightarrow> \<not> w_stopped w \<Longrightarrow> now - w_askedAt w \<ge> WAIT_ASK_MS \<Longrightarrow>
    w_asking (tick now False mtime place w) = InCall Sent"
  by (simp add: tick_def Let_def ask_def)

lemma tick_sees_the_slot: "w_timer w \<Longrightarrow> \<not> w_done w \<Longrightarrow> \<not> w_stopped w \<Longrightarrow> now - w_askedAt w < WAIT_ASK_MS \<Longrightarrow> t \<noteq> w_seen w \<Longrightarrow>
    w_result (tick now False (Some t) (Some (PWorking, kind)) w) = Some (AnsweredReply (file_reply kind))"
  by (simp add: tick_def Let_def finish_def)

section \<open>Examples\<close>

text \<open>A stop while the first ask is in its call; the release takes effect before the ask does.\<close>

definition ex_stopped :: wait where
  "ex_stopped = stop_wait (admitWait 5)"

definition ex_entered :: wait where
  "ex_entered = ex_stopped\<lparr>w_stopRelease := Some Took, w_entry := False, w_asking := InCall Took, w_entry := True\<rparr>"

definition ex_left :: wait where
  "ex_left = (ask_returned True None None ex_entered)\<lparr>w_lateRelease := Some Took, w_entry := False\<rparr>"

definition ex_over :: wait where
  "ex_over = (finish StoppedWait (ex_left\<lparr>w_stopRelease := None\<rparr>))\<lparr>w_lateRelease := None\<rparr>"

lemma ex_entered_reached: "wait_step\<^sup>*\<^sup>* (admitWait 5) ex_entered"
proof -
  have "wait_step (admitWait 5) ex_stopped" unfolding ex_stopped_def by (rule stops)
  moreover have "wait_step ex_stopped (ex_stopped\<lparr>w_stopRelease := Some Took, w_entry := False\<rparr>)"
    by (rule release_takes) (simp add: ex_stopped_def stop_wait_def admitWait_def ask_def)
  moreover have "wait_step (ex_stopped\<lparr>w_stopRelease := Some Took, w_entry := False\<rparr>)
      (ex_stopped\<lparr>w_stopRelease := Some Took, w_entry := False, w_asking := InCall Took, w_entry := True\<rparr>)"
    by (rule admit_takes) (simp add: ex_stopped_def stop_wait_def admitWait_def ask_def)
  ultimately show ?thesis unfolding ex_entered_def by (meson converse_rtranclp_into_rtranclp rtranclp.rtrancl_refl)
qed

lemma ex_over_reached: "wait_step\<^sup>*\<^sup>* (admitWait 5) ex_over"
proof -
  note s = ex_left_def ex_entered_def ex_stopped_def stop_wait_def admitWait_def ask_def ask_returned_def finish_def
  have "wait_step ex_entered (ask_returned True None None ex_entered)"
    by (rule admit_returns [of _ Took]) (simp add: s)
  moreover have "wait_step (ask_returned True None None ex_entered) ex_left"
    unfolding ex_left_def by (rule late_release_takes) (simp add: s)
  moreover have "wait_step ex_left (finish StoppedWait (ex_left\<lparr>w_stopRelease := None\<rparr>))"
    by (rule release_returns) (simp add: s)
  moreover have "wait_step (finish StoppedWait (ex_left\<lparr>w_stopRelease := None\<rparr>)) ex_over"
    unfolding ex_over_def by (rule late_release_returns) (simp add: s)
  ultimately have "wait_step\<^sup>*\<^sup>* ex_entered ex_over"
    by (meson converse_rtranclp_into_rtranclp rtranclp.rtrancl_refl)
  with ex_entered_reached show ?thesis by (rule rtranclp_trans)
qed

theorem admitWait_outcome_witness: "w_stopped ex_entered \<and> w_entry ex_entered \<and> (w_result ex_entered = None \<or> w_result ex_entered = Some StoppedWait)"
  using admitWait_outcome [OF ex_entered_reached] by (simp add: ex_entered_def ex_stopped_def stop_wait_def admitWait_def ask_def)

theorem admitWait_no_leak_witness: "\<not> w_entry ex_over \<and> w_result ex_over = Some StoppedWait \<and> w_released ex_over \<le> 2"
  by (rule admitWait_no_leak [OF ex_over_reached])
    (simp_all add: ex_over_def ex_left_def ex_entered_def ex_stopped_def stop_wait_def admitWait_def ask_def ask_returned_def finish_def in_call_def)

end
