(* ===== verification/PoolCli.thy ===== *)
theory PoolCli
  imports Json
begin

text \<open>
  The calls of the pool's credential hook (\<open>packages/pi-pool/src/core/pool-cli.ts\<close>): the environment of a call, how a run of the hook is
  read, and the loop that gets one request's credential.

  The loop runs on a script of what it meets, one entry per round; where the script ends it is still waiting, the value \<open>None\<close>. The
  theorem shows that the loop, with its counter and its flag, ends at the first round a plain rule over the last three rounds names, and what it
  tells its caller about waits.
\<close>

section \<open>A call\<close>

record TreeKey =
  tk_root :: string
  tk_session :: string

definition session_key :: "TreeKey \<Rightarrow> string" where
  "session_key k = ''{'' @ json_string ''key'' @ '':'' @ json_string (tk_root k) @ '','' @ json_string ''uuid'' @ '':'' @ json_string (tk_root k)
     @ '','' @ json_string ''active'' @ '':'' @ json_string (tk_session k) @ ''}''"

text \<open>Environments are association lists, names in their order.\<close>

definition poolEnv :: "TreeKey option \<Rightarrow> string option \<Rightarrow> (string \<times> string) list \<Rightarrow> (string \<times> string) list" where
  "poolEnv key agentDir base =
     (let env0 = AList.delete ''PI_POOL_SESSION_KEY'' (filter (\<lambda>(n, _). \<not> prefix ''PRIME_AGENT_INTERNAL_'' n) base);
          env1 = (case key of Some k \<Rightarrow> AList.update ''PI_POOL_SESSION_KEY'' (session_key k) env0 | None \<Rightarrow> env0)
      in case agentDir of
           Some d \<Rightarrow> if d = [] then env1 else AList.update ''PRIME_AGENT_CODING_AGENT_DIR'' d env1
         | None \<Rightarrow> env1)"

record Run =
  rc_code :: "int option"
  rc_stdout :: string
  rc_stderr :: string

text \<open>What \<open>execFile\<close> calls back with: no error, or an error with a numeric code or none and a message.\<close>

definition runPool :: "(int option \<times> string) option \<Rightarrow> string \<Rightarrow> string \<Rightarrow> Run" where
  "runPool err stdout stderr =
     (let code = (case err of None \<Rightarrow> Some 0 | Some (c, _) \<Rightarrow> c) in
      \<lparr>rc_code = code, rc_stdout = stdout,
       rc_stderr = (if stderr \<noteq> [] then stderr else (case err of Some (None, msg) \<Rightarrow> msg | _ \<Rightarrow> ''''))\<rparr>)"

section \<open>Reading a run\<close>

datatype Vend = Token string "string list option" | Wait rat string | Final string | Failed string

definition SLOT_WAIT_EXIT :: int where "SLOT_WAIT_EXIT = 75"

text \<open>The rest of the first line that starts with a text, as a multi-line pattern finds it: a carriage return ends a line too.\<close>

definition line_ends :: "char \<Rightarrow> char" where
  "line_ends c = (if c = CHR 13 then CHR 10 else c)"

definition line_rest :: "string \<Rightarrow> string \<Rightarrow> string option" where
  "line_rest lead s = map_option (drop (length lead)) (List.find (prefix lead) (js_split (CHR 10) (map line_ends s)))"

definition string_items :: "json \<Rightarrow> string list option" where
  "string_items j = (case j of
     JArr xs \<Rightarrow> if list_all (\<lambda>x. as_string (Some x) \<noteq> None) xs then Some (List.map_filter (\<lambda>x. as_string (Some x)) xs) else None
   | _ \<Rightarrow> None)"

definition listedModels :: "(string \<Rightarrow> json option) \<Rightarrow> string \<Rightarrow> string list option" where
  "listedModels parse stderr = Option.bind (line_rest ''pi-pool-token: models: '' stderr) (\<lambda>line. Option.bind (parse line) string_items)"

definition word_char :: "char \<Rightarrow> bool" where
  "word_char c \<longleftrightarrow> (let n = (of_char c :: nat) in 48 \<le> n \<and> n \<le> 57 \<or> 65 \<le> n \<and> n \<le> 90 \<or> n = 95 \<or> 97 \<le> n \<and> n \<le> 122)"

text \<open>\<open>/no token \((\w+)\)/\<close>: the word of the first match.\<close>

definition no_token_here :: "string \<Rightarrow> string option" where
  "no_token_here s =
     (let rest = drop 10 s; w = takeWhile word_char rest in
      if prefix ''no token ('' s \<and> w \<noteq> [] \<and> prefix '')'' (drop (length w) rest) then Some w else None)"

fun no_token :: "string \<Rightarrow> string option" where
  "no_token [] = None"
| "no_token (c # cs) = (case no_token_here (c # cs) of Some w \<Rightarrow> Some w | None \<Rightarrow> no_token cs)"

definition wait_reply :: "(string \<Rightarrow> json option) \<Rightarrow> string \<Rightarrow> Vend option" where
  "wait_reply parse out = Option.bind (parse out) (\<lambda>j. map_option
     (\<lambda>tm. Wait tm (case as_string (field j ''message'') of Some m \<Rightarrow> m | None \<Rightarrow> ''waiting for an account slot''))
     (as_number (field j ''retryAt'')))"

definition readVend :: "(string \<Rightarrow> json option) \<Rightarrow> Run \<Rightarrow> Vend" where
  "readVend parse r =
     (if rc_code r = Some 0 \<and> js_trim (rc_stdout r) \<noteq> [] then Token (js_trim (rc_stdout r)) (listedModels parse (rc_stderr r))
      else (case (if rc_code r = Some SLOT_WAIT_EXIT then wait_reply parse (rc_stdout r) else None) of
          Some v \<Rightarrow> v
        | None \<Rightarrow>
            (let said = no_token (rc_stderr r) in
             if said = Some ''no_model_room''
             then Final (case line_rest ''pi-pool-token: final: '' (rc_stderr r) of Some m \<Rightarrow> m
                         | None \<Rightarrow> ''pi-pool: no account with room serves this model, and no_model_room is fail.'')
             else Failed (case said of Some w \<Rightarrow> w
               | None \<Rightarrow> (case rc_code r of
                   Some c \<Rightarrow> if c = 0 then ''empty_result'' else ''exit '' @ show_int c
                 | None \<Rightarrow> (let l = hd (js_split (CHR 10) (rc_stderr r)) in if l = [] then ''killed'' else l))))))"

text \<open>\<open>vendOnce\<close> with the run of the hook as an argument.\<close>

definition vendOnce :: "(string \<Rightarrow> json option) \<Rightarrow> (string list \<Rightarrow> (string \<times> string) list \<Rightarrow> Run) \<Rightarrow> string \<Rightarrow> (string \<times> string) list \<Rightarrow> string option \<Rightarrow> Vend" where
  "vendOnce parse hook provider env model =
     (let asked = AList.update ''PRIME_CREDENTIAL_COMMAND_PROTOCOL'' ''1'' env;
          asked' = (case model of Some m \<Rightarrow> if m = [] then asked else AList.update ''PI_POOL_MODEL'' m asked | None \<Rightarrow> asked)
      in readVend parse (hook [''--provider'', provider] asked'))"

section \<open>The credential loop\<close>

definition WAIT_ASK_MS :: rat where "WAIT_ASK_MS = 30000"

definition VEND_TRIES :: nat where "VEND_TRIES = 3"

datatype Credential = CToken string "string list option" | CAborted | CFailed string

text \<open>\<open>sleep\<close>: \<open>abortAfter\<close> is how long after its start the signal aborts, if it does.\<close>

definition sleep :: "rat \<Rightarrow> bool \<Rightarrow> rat option \<Rightarrow> bool" where
  "sleep ms aborted abortAfter \<longleftrightarrow> \<not> aborted \<and> (case abortAfter of Some t \<Rightarrow> t \<ge> max 0 ms | None \<Rightarrow> True)"

text \<open>A round: whether the signal is aborted before and after the hook's answer, the answer, the time, and the abort in the sleep.\<close>

record round =
  ro_before :: bool
  ro_answer :: Vend
  ro_after :: bool
  ro_now :: rat
  ro_abortAfter :: "rat option"

definition wait_ms :: "rat \<Rightarrow> rat \<Rightarrow> rat" where
  "wait_ms retryAt now = min (max 1000 (retryAt * 1000 - now)) WAIT_ASK_MS"

type_synonym wait_note = "(rat \<times> string) option"

text \<open>\<open>done\<close> tells the caller that its wait is over; the notes are the calls of \<open>onWait\<close>, in order.\<close>

definition done_with :: "bool \<Rightarrow> wait_note list \<Rightarrow> Credential \<Rightarrow> Credential \<times> wait_note list" where
  "done_with waited notes c = (c, if waited then notes @ [None] else notes)"

fun credential_loop :: "round list \<Rightarrow> nat \<Rightarrow> bool \<Rightarrow> wait_note list \<Rightarrow> (Credential \<times> wait_note list) option" where
  "credential_loop [] failures waited notes = None"
| "credential_loop (r # rs) failures waited notes =
     (if ro_before r \<or> ro_after r then Some (done_with waited notes CAborted)
      else (case ro_answer r of
          Token t ms \<Rightarrow> Some (done_with waited notes (CToken t ms))
        | Final _ \<Rightarrow> Some (done_with waited notes (CFailed ''no_model_room''))
        | Wait retryAt message \<Rightarrow>
            (let notes' = notes @ [Some (retryAt, message)] in
             if \<not> sleep (wait_ms retryAt (ro_now r)) False (ro_abortAfter r) then Some (done_with True notes' CAborted)
             else credential_loop rs 0 True notes')
        | Failed reason \<Rightarrow>
            (let failures' = failures + 1 in
             if failures' \<ge> VEND_TRIES then Some (done_with waited notes (CFailed reason))
             else if \<not> sleep (1000 * 2 ^ (failures' - 1)) False (ro_abortAfter r) then Some (done_with waited notes CAborted)
             else credential_loop rs failures' waited notes)))"

definition credential :: "round list \<Rightarrow> (Credential \<times> wait_note list) option" where
  "credential rs = credential_loop rs 0 False []"

section \<open>When the loop ends\<close>

definition is_failed :: "round \<Rightarrow> bool" where
  "is_failed r \<longleftrightarrow> (case ro_answer r of Failed _ \<Rightarrow> True | _ \<Rightarrow> False)"

definition is_wait :: "round \<Rightarrow> bool" where
  "is_wait r \<longleftrightarrow> (case ro_answer r of Wait _ _ \<Rightarrow> True | _ \<Rightarrow> False)"

text \<open>The hook failed in this round and the two before it.\<close>

definition third_failure :: "round list \<Rightarrow> nat \<Rightarrow> bool" where
  "third_failure rs i \<longleftrightarrow> is_failed (rs ! i) \<and> 2 \<le> i \<and> is_failed (rs ! (i - 1)) \<and> is_failed (rs ! (i - 2))"

text \<open>How long round \<open>i\<close> sleeps: up to the wait's time, 1 s after a first failure and 2 s after a second.\<close>

definition round_sleep :: "round list \<Rightarrow> nat \<Rightarrow> rat" where
  "round_sleep rs i = (case ro_answer (rs ! i) of
     Wait retryAt _ \<Rightarrow> wait_ms retryAt (ro_now (rs ! i))
   | _ \<Rightarrow> if 1 \<le> i \<and> is_failed (rs ! (i - 1)) then 2000 else 1000)"

definition ends_round :: "round list \<Rightarrow> nat \<Rightarrow> Credential option" where
  "ends_round rs i =
     (let r = rs ! i in
      if ro_before r \<or> ro_after r then Some CAborted
      else (case ro_answer r of
          Token t ms \<Rightarrow> Some (CToken t ms)
        | Final _ \<Rightarrow> Some (CFailed ''no_model_room'')
        | Wait _ _ \<Rightarrow> if sleep (round_sleep rs i) False (ro_abortAfter r) then None else Some CAborted
        | Failed reason \<Rightarrow>
            if third_failure rs i then Some (CFailed reason)
            else if sleep (round_sleep rs i) False (ro_abortAfter r) then None else Some CAborted))"

text \<open>The failures in a row right before round \<open>i\<close>, and the waits told up to it.\<close>

fun fails_before :: "round list \<Rightarrow> nat \<Rightarrow> nat" where
  "fails_before rs 0 = 0"
| "fails_before rs (Suc i) = (if is_failed (rs ! i) then Suc (fails_before rs i) else 0)"

fun told_wait :: "round \<Rightarrow> wait_note list" where
  "told_wait r = (if ro_before r \<or> ro_after r then [] else (case ro_answer r of Wait t m \<Rightarrow> [Some (t, m)] | _ \<Rightarrow> []))"

definition told :: "round list \<Rightarrow> nat \<Rightarrow> wait_note list" where
  "told rs i = concat (map told_wait (take i rs))"

definition closed_notes :: "wait_note list \<Rightarrow> wait_note list" where
  "closed_notes notes = (if notes = [] then [] else notes @ [None])"

lemma fails_before_2: "2 \<le> fails_before rs i \<longleftrightarrow> 2 \<le> i \<and> is_failed (rs ! (i - 1)) \<and> is_failed (rs ! (i - 2))"
proof (cases i)
  case (Suc j)
  then show ?thesis by (cases j) auto
qed simp

lemma fails_before_1: "1 \<le> fails_before rs i \<longleftrightarrow> 1 \<le> i \<and> is_failed (rs ! (i - 1))"
  by (cases i) auto

lemma told_Suc: "i < length rs \<Longrightarrow> told rs (Suc i) = told rs i @ told_wait (rs ! i)"
  by (simp add: told_def take_Suc_conv_app_nth)

lemma third_failure_count: "is_failed (rs ! i) \<Longrightarrow> third_failure rs i \<longleftrightarrow> VEND_TRIES \<le> fails_before rs i + 1"
  using fails_before_2 [of rs i] by (simp add: third_failure_def VEND_TRIES_def)

lemma failed_sleep:
  "ro_answer (rs ! i) = Failed reason \<Longrightarrow> \<not> third_failure rs i \<Longrightarrow> round_sleep rs i = 1000 * 2 ^ (fails_before rs i + 1 - 1)"
proof -
  assume a: "ro_answer (rs ! i) = Failed reason" and n: "\<not> third_failure rs i"
  have f: "is_failed (rs ! i)" using a by (simp add: is_failed_def)
  have "fails_before rs i = 0 \<or> fails_before rs i = 1"
    using n third_failure_count [OF f] by (simp add: VEND_TRIES_def) linarith
  then show ?thesis
  proof
    assume z: "fails_before rs i = 0"
    then have "\<not> (1 \<le> i \<and> is_failed (rs ! (i - 1)))" using fails_before_1 [of rs i] by simp
    with a z show ?thesis by (simp add: round_sleep_def)
  next
    assume o: "fails_before rs i = 1"
    then have "1 \<le> i \<and> is_failed (rs ! (i - 1))" using fails_before_1 [of rs i] by simp
    with a o show ?thesis by (simp add: round_sleep_def)
  qed
qed

text \<open>One round of the loop, in the terms of the rule.\<close>

lemma credential_round:
  assumes i: "i < length rs"
  shows "credential_loop (drop i rs) (fails_before rs i) (told rs i \<noteq> []) (told rs i) =
    (case ends_round rs i of
       Some c \<Rightarrow> Some (c, closed_notes (told rs (Suc i)))
     | None \<Rightarrow> credential_loop (drop (Suc i) rs) (fails_before rs (Suc i)) (told rs (Suc i) \<noteq> []) (told rs (Suc i)))"
proof -
  have d: "drop i rs = rs ! i # drop (Suc i) rs" using i by (simp add: Cons_nth_drop_Suc)
  have t: "told rs (Suc i) = told rs i @ told_wait (rs ! i)" by (rule told_Suc [OF i])
  show ?thesis
  proof (cases "ro_before (rs ! i) \<or> ro_after (rs ! i)")
    case True
    then show ?thesis unfolding d t by (auto simp: ends_round_def done_with_def closed_notes_def)
  next
    case False
    show ?thesis
    proof (cases "ro_answer (rs ! i)")
      case (Token tk ms)
      with False show ?thesis unfolding d t by (simp add: ends_round_def done_with_def closed_notes_def)
    next
      case (Final m)
      with False show ?thesis unfolding d t by (simp add: ends_round_def done_with_def closed_notes_def)
    next
      case (Wait tm m)
      with False have w: "\<not> is_failed (rs ! i)" "told_wait (rs ! i) = [Some (tm, m)]" "fails_before rs (Suc i) = 0"
        "ends_round rs i = (if sleep (wait_ms tm (ro_now (rs ! i))) False (ro_abortAfter (rs ! i)) then None else Some CAborted)"
        by (simp_all add: is_failed_def ends_round_def round_sleep_def Let_def)
      show ?thesis unfolding d t w(2,3,4) using Wait False by (simp add: Let_def done_with_def closed_notes_def)
    next
      case (Failed reason)
      then have f: "is_failed (rs ! i)" by (simp add: is_failed_def)
      show ?thesis
      proof (cases "third_failure rs i")
        case True
        with third_failure_count [OF f] Failed False show ?thesis unfolding d t
          by (simp add: ends_round_def done_with_def closed_notes_def)
      next
        case no: False
        have m: "\<not> VEND_TRIES \<le> fails_before rs i + 1" using no third_failure_count [OF f] by blast
        have e: "ends_round rs i = (if sleep (1000 * 2 ^ (fails_before rs i + 1 - 1)) False (ro_abortAfter (rs ! i)) then None else Some CAborted)"
          unfolding failed_sleep [OF Failed no, symmetric] using no Failed False by (simp add: ends_round_def Let_def)
        have "told_wait (rs ! i) = []" "fails_before rs (Suc i) = fails_before rs i + 1" using Failed f by simp_all
        with m Failed False show ?thesis unfolding d t e by (simp add: Let_def done_with_def closed_notes_def)
      qed
    qed
  qed
qed

lemma credential_from:
  assumes "i \<le> length rs"
  shows "credential_loop (drop i rs) (fails_before rs i) (told rs i \<noteq> []) (told rs i) =
    map_option (\<lambda>k. (the (ends_round rs k), closed_notes (told rs (Suc k)))) (List.find (\<lambda>k. ends_round rs k \<noteq> None) [i..<length rs])"
  using assms
proof (induction "length rs - i" arbitrary: i)
  case (Suc n)
  then have i: "i < length rs" by simp
  have "[i..<length rs] = i # [Suc i..<length rs]" using i by (simp add: upt_conv_Cons)
  moreover have "n = length rs - Suc i" "Suc i \<le> length rs" using Suc.hyps(2) i by simp_all
  ultimately show ?case
    unfolding credential_round [OF i] using Suc.hyps(1) [of "Suc i"] by (auto split: option.split)
qed simp

text \<open>
  One request's credential: over any script of answers, times and aborts, the loop with its failure counter ends at the first round that the rule names
  (an abort before, after or in the sleep of a round, a token, a final answer, or a third failure in a row with no wait between), with that round's outcome, and
  it waits on exactly when there is no such round. The caller is told every slot wait in order and, exactly when there was one, once that the wait is over.
\<close>
theorem credential_rule:
  "credential rs = map_option (\<lambda>k. (the (ends_round rs k), closed_notes (told rs (Suc k))))
     (List.find (\<lambda>k. ends_round rs k \<noteq> None) [0..<length rs])"
  using credential_from [of 0 rs] by (simp add: credential_def told_def)

lemma wait_ms_bounds: "1000 \<le> wait_ms retryAt now \<and> wait_ms retryAt now \<le> 30000"
  by (simp add: wait_ms_def WAIT_ASK_MS_def)

text \<open>A token that comes before three failures in a row is what the request gets.\<close>

lemma credential_token:
  assumes "k < length rs" "ro_answer (rs ! k) = Token t ms" "\<not> ro_before (rs ! k)" "\<not> ro_after (rs ! k)"
    and "\<forall>i < k. ends_round rs i = None"
  shows "credential rs = Some (CToken t ms, closed_notes (told rs (Suc k)))"
proof -
  have e: "ends_round rs k = Some (CToken t ms)" using assms(2-4) by (simp add: ends_round_def)
  have "List.find (\<lambda>k. ends_round rs k \<noteq> None) [0..<length rs] = Some k"
    unfolding find_Some_iff using assms(1,5) e by (intro exI [of _ k]) simp
  with e show ?thesis using credential_from [of 0 rs] by (simp add: credential_def told_def)
qed

lemma poolEnv_session: "map_of (poolEnv key dir base) ''PI_POOL_SESSION_KEY'' = map_option session_key key"
  by (auto simp: poolEnv_def Let_def update_conv' delete_conv' split: option.split)

end
