(* ===== verification/QueueWatch.thy ===== *)
theory QueueWatch
  imports Prelude
begin

text \<open>
  How the chat server follows a conversation's place in the turn queue (\<open>apps/chat/server/queue.ts\<close>).

  An entry is an object that a read keeps across its \<open>await\<close>, so entries live in a store and the map of followed
  conversations holds their addresses. A read of pi-host's ticket starts when a timer fires and returns at any later time, with
  other calls in between. The theorem shows that a followed conversation always has a timer or a read of its entry under way; two runs show what
  a follow in the middle of a read leads to.
\<close>

section \<open>Places and entries\<close>

datatype TurnPlace = PlaceWorking string | PlaceQueued nat nat | PlaceMarked | PlaceNone

definition READ_EVERY_MS :: int where "READ_EVERY_MS = 3000"

definition FOLLOW_MS :: int where "FOLLOW_MS = 60 * 60000"

definition NONE_READS :: nat where "NONE_READS = 3"

definition waitingPlace :: "TurnPlace option \<Rightarrow> TurnPlace option" where
  "waitingPlace p = (case p of Some (PlaceQueued a b) \<Rightarrow> p | Some PlaceMarked \<Rightarrow> p | _ \<Rightarrow> None)"

text \<open>\<open>fo_id\<close> is the conversation the entry was made for; the code has it as the map's key. Listeners are named by numbers.\<close>

record Followed =
  fo_id :: string
  fo_place :: "TurnPlace option"
  fo_listeners :: "nat list"
  fo_timer :: "nat option"
  fo_until :: int
  fo_nones :: nat

text \<open>
  The watch: the map of followed conversations, the store, the timers set and not fired or cleared with the conversation each will read, the reads
  in flight, what was emitted and what each listener heard.
\<close>

record queue_watch =
  qw_followed :: "(string \<times> nat) list"
  qw_store :: "Followed list"
  qw_timers :: "(nat \<times> string) list"
  qw_nextTimer :: nat
  qw_reads :: "(nat \<times> string) list"
  qw_emitted :: "(string \<times> TurnPlace option) list"
  qw_heard :: "(nat \<times> TurnPlace option) list"
  qw_logged :: "string list"

definition empty_watch :: queue_watch where
  "empty_watch = \<lparr>qw_followed = [], qw_store = [], qw_timers = [], qw_nextTimer = 0, qw_reads = [], qw_emitted = [], qw_heard = [], qw_logged = []\<rparr>"

section \<open>Operations\<close>

definition place_of :: "queue_watch \<Rightarrow> string \<Rightarrow> TurnPlace option" where
  "place_of q i = Option.bind (map_of (qw_followed q) i) (\<lambda>a. fo_place (qw_store q ! a))"

definition put_entry :: "nat \<Rightarrow> (Followed \<Rightarrow> Followed) \<Rightarrow> queue_watch \<Rightarrow> queue_watch" where
  "put_entry a f q = q\<lparr>qw_store := (qw_store q)[a := f (qw_store q ! a)]\<rparr>"

definition arm_read :: "nat \<Rightarrow> string \<Rightarrow> queue_watch \<Rightarrow> queue_watch" where
  "arm_read a i q = put_entry a (\<lambda>e. e\<lparr>fo_timer := Some (qw_nextTimer q)\<rparr>)
     (q\<lparr>qw_timers := qw_timers q @ [(qw_nextTimer q, i)], qw_nextTimer := qw_nextTimer q + 1\<rparr>)"

definition clear_timer :: "nat option \<Rightarrow> queue_watch \<Rightarrow> queue_watch" where
  "clear_timer t q = q\<lparr>qw_timers := filter (\<lambda>(u, _). Some u \<noteq> t) (qw_timers q)\<rparr>"

definition set_place :: "string \<Rightarrow> nat \<Rightarrow> TurnPlace option \<Rightarrow> queue_watch \<Rightarrow> queue_watch" where
  "set_place i a p q =
     (if p = fo_place (qw_store q ! a) then q
      else put_entry a (\<lambda>e. e\<lparr>fo_place := p\<rparr>)
        (q\<lparr>qw_emitted := qw_emitted q @ [(i, p)], qw_heard := qw_heard q @ map (\<lambda>l. (l, p)) (fo_listeners (qw_store q ! a))\<rparr>))"

definition end_follow :: "string \<Rightarrow> nat \<Rightarrow> queue_watch \<Rightarrow> queue_watch" where
  "end_follow i a q =
     (let q1 = set_place i a None (clear_timer (fo_timer (qw_store q ! a)) q) in q1\<lparr>qw_followed := AList.delete i (qw_followed q1)\<rparr>)"

text \<open>The entry a \<open>follow\<close> works on: the one there, or a new one.\<close>

definition entry_for :: "string \<Rightarrow> queue_watch \<Rightarrow> nat \<times> queue_watch" where
  "entry_for i q =
     (case map_of (qw_followed q) i of
        Some a \<Rightarrow> (a, q)
      | None \<Rightarrow> (length (qw_store q),
          q\<lparr>qw_store := qw_store q @ [\<lparr>fo_id = i, fo_place = None, fo_listeners = [], fo_timer = None, fo_until = 0, fo_nones = 0\<rparr>],
            qw_followed := AList.update i (length (qw_store q)) (qw_followed q)\<rparr>))"

definition follow :: "int \<Rightarrow> string \<Rightarrow> TurnPlace option \<Rightarrow> nat option \<Rightarrow> queue_watch \<Rightarrow> queue_watch" where
  "follow now i first listener q =
     (case entry_for i q of (a, q0) \<Rightarrow>
        let q1 = put_entry a (\<lambda>e. e\<lparr>fo_until := now + FOLLOW_MS,
                fo_listeners := (case listener of Some l \<Rightarrow> if l \<in> set (fo_listeners e) then fo_listeners e else fo_listeners e @ [l] | None \<Rightarrow> fo_listeners e)\<rparr>) q0;
            q2 = set_place i a (waitingPlace first) q1
        in if (case first of Some (PlaceWorking _) \<Rightarrow> True | _ \<Rightarrow> False) then end_follow i a q2
           else if fo_timer (qw_store q2 ! a) = None then arm_read a i q2 else q2)"

text \<open>\<open>read\<close> up to its \<open>await\<close>, and after it with the ticket's place, or the error, and whether the conversation works.\<close>

definition read_start :: "nat \<Rightarrow> string \<Rightarrow> queue_watch \<Rightarrow> queue_watch" where
  "read_start t i q =
     (let q0 = clear_timer (Some t) q in
      case map_of (qw_followed q0) i of
        None \<Rightarrow> q0
      | Some a \<Rightarrow> put_entry a (\<lambda>e. e\<lparr>fo_timer := None\<rparr>) (q0\<lparr>qw_reads := (a, i) # qw_reads q0\<rparr>))"

definition again :: "nat \<Rightarrow> string \<Rightarrow> queue_watch \<Rightarrow> queue_watch" where
  "again a i q = (if map_of (qw_followed q) i = Some a then arm_read a i q else q)"

definition read_done :: "nat \<Rightarrow> string \<Rightarrow> string + TurnPlace option \<Rightarrow> bool \<Rightarrow> int \<Rightarrow> queue_watch \<Rightarrow> queue_watch" where
  "read_done a i ticket working now q =
     (let q0 = q\<lparr>qw_reads := remove1 (a, i) (qw_reads q)\<rparr> in
      case ticket of
        Inl err \<Rightarrow> again a i (q0\<lparr>qw_logged := qw_logged q0 @ [''ticket of '' @ i @ '' failed: '' @ err]\<rparr>)
      | Inr tp \<Rightarrow>
          (let place = (case tp of Some p \<Rightarrow> p | None \<Rightarrow> PlaceNone);
               q1 = put_entry a (\<lambda>e. e\<lparr>fo_nones := (if place = PlaceNone \<and> \<not> working then fo_nones e + 1 else 0)\<rparr>) q0;
               e = qw_store q1 ! a
           in if (case place of PlaceWorking _ \<Rightarrow> True | _ \<Rightarrow> False) \<or> fo_nones e \<ge> NONE_READS \<or> now > fo_until e then end_follow i a q1
              else again a i (set_place i a (waitingPlace (Some place)) q1)))"

definition stop_watch :: "queue_watch \<Rightarrow> queue_watch" where
  "stop_watch q = q\<lparr>qw_timers := filter (\<lambda>(u, _). \<forall>(_, a) \<in> set (qw_followed q). fo_timer (qw_store q ! a) \<noteq> Some u) (qw_timers q), qw_followed := []\<rparr>"

inductive watch_step :: "queue_watch \<Rightarrow> queue_watch \<Rightarrow> bool" where
  follows: "watch_step q (follow now i first listener q)"
| timer_fires: "(t, i) \<in> set (qw_timers q) \<Longrightarrow> watch_step q (read_start t i q)"
| read_returns: "(a, i) \<in> set (qw_reads q) \<Longrightarrow> watch_step q (read_done a i ticket working now q)"
| stops_watch: "watch_step q (stop_watch q)"

section \<open>What every state of the watch keeps\<close>

definition place_ok :: "TurnPlace option \<Rightarrow> bool" where
  "place_ok p \<longleftrightarrow> waitingPlace p = p"

definition entry_ok :: "queue_watch \<Rightarrow> Followed \<Rightarrow> bool" where
  "entry_ok q e \<longleftrightarrow> place_ok (fo_place e)
     \<and> (\<forall>t. fo_timer e = Some t \<longrightarrow> t < qw_nextTimer q \<and> (\<forall>i. (t, i) \<in> set (qw_timers q) \<longrightarrow> i = fo_id e))"

definition store_ok :: "queue_watch \<Rightarrow> bool" where
  "store_ok q \<longleftrightarrow> list_all (entry_ok q) (qw_store q)
     \<and> distinct (map fst (qw_followed q)) \<and> distinct (map fst (qw_timers q)) \<and> (\<forall>(t, i) \<in> set (qw_timers q). t < qw_nextTimer q)
     \<and> (\<forall>(a, i) \<in> set (qw_reads q). a < length (qw_store q) \<and> fo_id (qw_store q ! a) = i)"

text \<open>What a followed conversation has: an entry of its own, whose timer, if it names one, is set, and something under way.\<close>

definition follow_ok :: "queue_watch \<Rightarrow> string \<times> nat \<Rightarrow> bool" where
  "follow_ok q = (\<lambda>(i, a). a < length (qw_store q) \<and> fo_id (qw_store q ! a) = i
     \<and> (\<forall>t. fo_timer (qw_store q ! a) = Some t \<longrightarrow> (t, i) \<in> set (qw_timers q)))"

definition under_way :: "queue_watch \<Rightarrow> string \<times> nat \<Rightarrow> bool" where
  "under_way q = (\<lambda>(i, a). i \<in> snd ` set (qw_timers q) \<or> (a, i) \<in> set (qw_reads q))"

definition watch_ok :: "queue_watch \<Rightarrow> bool" where
  "watch_ok q \<longleftrightarrow> store_ok q \<and> (\<forall>f \<in> set (qw_followed q). follow_ok q f)"

definition driven :: "queue_watch \<Rightarrow> bool" where
  "driven q \<longleftrightarrow> (\<forall>f \<in> set (qw_followed q). under_way q f)"

text \<open>The same of every followed conversation but one.\<close>

definition driven_but :: "string \<Rightarrow> queue_watch \<Rightarrow> bool" where
  "driven_but i q \<longleftrightarrow> (\<forall>f \<in> set (qw_followed q). fst f \<noteq> i \<longrightarrow> under_way q f)"

text \<open>Steps that change only what an entry shows or counts.\<close>

definition same_shape :: "queue_watch \<Rightarrow> queue_watch \<Rightarrow> bool" where
  "same_shape q r \<longleftrightarrow> qw_followed r = qw_followed q \<and> qw_timers r = qw_timers q \<and> qw_nextTimer r = qw_nextTimer q \<and> qw_reads r = qw_reads q
     \<and> length (qw_store r) = length (qw_store q)
     \<and> (\<forall>a < length (qw_store q). fo_id (qw_store r ! a) = fo_id (qw_store q ! a) \<and> fo_timer (qw_store r ! a) = fo_timer (qw_store q ! a)
         \<and> (place_ok (fo_place (qw_store q ! a)) \<longrightarrow> place_ok (fo_place (qw_store r ! a))))"

lemma same_shape_trans: "same_shape q r \<Longrightarrow> same_shape r s \<Longrightarrow> same_shape q s"
  by (simp add: same_shape_def)

lemma same_shape_refl [simp]: "same_shape q q"
  by (simp add: same_shape_def)

lemma entries_ok: "list_all (entry_ok q) (qw_store q) \<longleftrightarrow> (\<forall>a < length (qw_store q). entry_ok q (qw_store q ! a))"
  by (simp add: list_all_length)

lemma watch_entry: "watch_ok q \<Longrightarrow> a < length (qw_store q) \<Longrightarrow> entry_ok q (qw_store q ! a)"
  by (simp add: watch_ok_def store_ok_def entries_ok)

lemma same_shape_ok:
  assumes "same_shape q r" and w: "watch_ok q"
  shows "watch_ok r"
proof -
  have s: "qw_followed r = qw_followed q" "qw_timers r = qw_timers q" "qw_nextTimer r = qw_nextTimer q" "qw_reads r = qw_reads q"
    "length (qw_store r) = length (qw_store q)"
    "\<And>a. a < length (qw_store q) \<Longrightarrow> fo_id (qw_store r ! a) = fo_id (qw_store q ! a) \<and> fo_timer (qw_store r ! a) = fo_timer (qw_store q ! a)
         \<and> (place_ok (fo_place (qw_store q ! a)) \<longrightarrow> place_ok (fo_place (qw_store r ! a)))"
    using assms(1) by (simp_all add: same_shape_def)
  have "entry_ok r (qw_store r ! a)" if "a < length (qw_store q)" for a
    using watch_entry [OF w that] s(6) [OF that] unfolding entry_ok_def s(2,3) by auto
  moreover have "follow_ok r f" if "f \<in> set (qw_followed q)" for f
  proof -
    have "follow_ok q f" using w that by (simp add: watch_ok_def)
    then show ?thesis using s(6) [of "snd f"] unfolding follow_ok_def by (auto simp: s(2,5))
  qed
  moreover have "\<forall>(a, i) \<in> set (qw_reads r). a < length (qw_store r) \<and> fo_id (qw_store r ! a) = i"
    using w s(6) unfolding watch_ok_def store_ok_def s(4,5) by auto
  ultimately show ?thesis using w unfolding watch_ok_def store_ok_def entries_ok s(1-5) by simp
qed

lemma same_shape_driven: "same_shape q r \<Longrightarrow> driven r = driven q"
  by (simp add: same_shape_def driven_def under_way_def)

lemma nth_updated: "j < length xs \<Longrightarrow> xs[a := v] ! j = (if a = j then v else xs ! j)"
  by (cases "a = j") simp_all

lemma put_shape:
  assumes "\<And>e. fo_id (f e) = fo_id e" "\<And>e. fo_timer (f e) = fo_timer e" "\<And>e. place_ok (fo_place e) \<Longrightarrow> place_ok (fo_place (f e))"
  shows "same_shape q (put_entry a f q)"
  using assms by (simp add: same_shape_def put_entry_def nth_updated)

lemma set_place_shape: "place_ok p \<Longrightarrow> same_shape q (set_place i a p q)"
  by (simp add: same_shape_def set_place_def put_entry_def nth_updated)

lemma place_ok_waiting [simp]: "place_ok (waitingPlace p)" "place_ok None"
  by (simp_all add: place_ok_def waitingPlace_def split: option.split TurnPlace.split)

text \<open>A cleared timer takes nothing from another conversation than the one it was set for.\<close>

lemma clear_entry_timer:
  assumes w: "watch_ok q" and a: "a < length (qw_store q)" and r: "qw_followed r = AList.delete (fo_id (qw_store q ! a)) (qw_followed q)"
    and t: "qw_timers r = filter (\<lambda>(u, _). Some u \<noteq> fo_timer (qw_store q ! a)) (qw_timers q)"
    and "qw_nextTimer r = qw_nextTimer q" "qw_reads r = qw_reads q" "qw_store r = qw_store q"
  shows "watch_ok r \<and> (driven_but (fo_id (qw_store q ! a)) q \<longrightarrow> driven r)"
proof -
  let ?e = "qw_store q ! a"
  have sub: "set (qw_timers r) \<subseteq> set (qw_timers q)" unfolding t by auto
  have keep: "(u, i) \<in> set (qw_timers r)" if "(u, i) \<in> set (qw_timers q)" "i \<noteq> fo_id ?e" for u i
  proof -
    have "entry_ok q ?e" by (rule watch_entry [OF w a])
    with that have "Some u \<noteq> fo_timer ?e" unfolding entry_ok_def by metis
    with that(1) show ?thesis unfolding t by simp
  qed
  have f: "(i, b) \<in> set (qw_followed q) \<and> i \<noteq> fo_id ?e" if "(i, b) \<in> set (qw_followed r)" for i b
    using that unfolding r by (auto simp: AList.delete_eq)
  have "entry_ok r (qw_store q ! b)" if "b < length (qw_store q)" for b
    using watch_entry [OF w that] sub unfolding entry_ok_def assms(5) by blast
  moreover have "follow_ok r (i, b)" if "(i, b) \<in> set (qw_followed r)" for i b
  proof -
    have "follow_ok q (i, b)" using w f [OF that] by (simp add: watch_ok_def)
    with f [OF that] keep show ?thesis by (simp add: follow_ok_def assms(7))
  qed
  moreover have "distinct (map fst (qw_timers r))" "distinct (map fst (qw_followed r))"
    using w unfolding t r watch_ok_def store_ok_def by (auto simp: distinct_map_filter AList.delete_eq)
  ultimately have "watch_ok r"
    using w sub unfolding watch_ok_def store_ok_def list_all_length assms(5-7) by auto
  moreover have "driven r" if "driven_but (fo_id ?e) q"
    unfolding driven_def
  proof
    fix x assume x: "x \<in> set (qw_followed r)"
    obtain i b where xx: "x = (i, b)" by fastforce
    with x f have "under_way q (i, b)" "i \<noteq> fo_id ?e" using that by (auto simp: driven_but_def)
    then show "under_way r x" unfolding xx using keep by (force simp: under_way_def assms(6))
  qed
  ultimately show ?thesis by blast
qed

lemma end_follow_ok:
  assumes w: "watch_ok q" and a: "a < length (qw_store q)" "fo_id (qw_store q ! a) = i"
  shows "watch_ok (end_follow i a q) \<and> (driven_but i q \<longrightarrow> driven (end_follow i a q))"
proof -
  let ?q0 = "clear_timer (fo_timer (qw_store q ! a)) q"
  let ?r = "?q0\<lparr>qw_followed := AList.delete i (qw_followed q)\<rparr>"
  have "watch_ok ?r \<and> (driven_but (fo_id (qw_store q ! a)) q \<longrightarrow> driven ?r)"
    by (rule clear_entry_timer [OF w a(1)]) (simp_all add: clear_timer_def a(2))
  moreover have "same_shape ?r (end_follow i a q)"
    by (simp add: end_follow_def Let_def set_place_def same_shape_def put_entry_def clear_timer_def nth_updated)
  ultimately show ?thesis using same_shape_ok same_shape_driven a(2) by blast
qed

lemma arm_read_ok:
  assumes w: "watch_ok q" and a: "a < length (qw_store q)" "fo_id (qw_store q ! a) = i"
  shows "watch_ok (arm_read a i q)" and "driven_but i q \<Longrightarrow> driven (arm_read a i q)"
proof -
  let ?n = "qw_nextTimer q"
  have t: "qw_timers (arm_read a i q) = qw_timers q @ [(?n, i)]" "qw_nextTimer (arm_read a i q) = ?n + 1" "qw_reads (arm_read a i q) = qw_reads q"
    "qw_followed (arm_read a i q) = qw_followed q" "length (qw_store (arm_read a i q)) = length (qw_store q)"
    by (simp_all add: arm_read_def put_entry_def)
  have st: "qw_store (arm_read a i q) ! b = (if b = a then (qw_store q ! a)\<lparr>fo_timer := Some ?n\<rparr> else qw_store q ! b)" if "b < length (qw_store q)" for b
    using that by (simp add: arm_read_def put_entry_def nth_updated)
  have new: "(?n, j) \<notin> set (qw_timers q)" for j
    using w by (auto simp: watch_ok_def store_ok_def)
  have "entry_ok (arm_read a i q) (qw_store (arm_read a i q) ! b)" if b: "b < length (qw_store q)" for b
  proof -
    have "entry_ok q (qw_store q ! b)" by (rule watch_entry [OF w b])
    then show ?thesis unfolding st [OF b] entry_ok_def t using new a by (cases "b = a") force+
  qed
  moreover have "follow_ok (arm_read a i q) (j, b)" if "(j, b) \<in> set (qw_followed q)" for j b
  proof -
    have f: "follow_ok q (j, b)" using w that by (simp add: watch_ok_def)
    then have "b < length (qw_store q)" by (simp add: follow_ok_def)
    from st [OF this] f a show ?thesis by (auto simp: follow_ok_def t)
  qed
  moreover have "distinct (map fst (qw_timers (arm_read a i q)))"
    using w new unfolding t by (auto simp: watch_ok_def store_ok_def)
  moreover have "\<forall>(u, j) \<in> set (qw_timers (arm_read a i q)). u < ?n + 1"
    using w unfolding t by (auto simp: watch_ok_def store_ok_def)
  moreover have "\<forall>(b, j) \<in> set (qw_reads q). b < length (qw_store q) \<and> fo_id (qw_store (arm_read a i q) ! b) = j"
  proof (clarify, intro conjI)
    fix b j assume "(b, j) \<in> set (qw_reads q)"
    then have b: "b < length (qw_store q)" "fo_id (qw_store q ! b) = j" using w by (auto simp: watch_ok_def store_ok_def)
    then show "b < length (qw_store q)" by simp
    show "fo_id (qw_store (arm_read a i q) ! b) = j" using st [OF b(1)] b(2) by auto
  qed
  ultimately show "watch_ok (arm_read a i q)"
    using w unfolding watch_ok_def store_ok_def list_all_length t by auto
  show "driven_but i q \<Longrightarrow> driven (arm_read a i q)"
    unfolding driven_def driven_but_def under_way_def t by fastforce
qed

lemma entry_for_ok:
  assumes w: "watch_ok q" and d: "driven q" and e: "entry_for i q = (a, r)"
  shows "watch_ok r \<and> driven_but i r \<and> a < length (qw_store r) \<and> fo_id (qw_store r ! a) = i \<and> map_of (qw_followed r) i = Some a"
proof (cases "map_of (qw_followed q) i")
  case (Some b)
  then have "(i, b) \<in> set (qw_followed q)" by (rule map_of_SomeD)
  then have "follow_ok q (i, b)" using w by (simp add: watch_ok_def)
  with Some w d e show ?thesis by (auto simp: entry_for_def follow_ok_def driven_def driven_but_def)
next
  case None
  let ?n = "length (qw_store q)"
  let ?e = "\<lparr>fo_id = i, fo_place = None, fo_listeners = [], fo_timer = None, fo_until = 0, fo_nones = 0\<rparr>"
  have r: "a = ?n" "r = q\<lparr>qw_store := qw_store q @ [?e], qw_followed := qw_followed q @ [(i, ?n)]\<rparr>"
    using e None by (auto simp: entry_for_def map_of_eq_None_iff alist_update_fresh)
  have "i \<notin> fst ` set (qw_followed q)" using None by (simp add: map_of_eq_None_iff)
  moreover have "entry_ok r (qw_store r ! b)" if "b < Suc ?n" for b
    using that watch_entry [OF w, of b] by (cases "b = ?n") (auto simp: r entry_ok_def nth_append)
  moreover have "follow_ok r f" if "f \<in> set (qw_followed q)" for f
    using w that unfolding watch_ok_def follow_ok_def by (auto simp: r nth_append)
  moreover have "\<forall>(b, j) \<in> set (qw_reads q). b < Suc ?n \<and> fo_id (qw_store r ! b) = j"
    using w unfolding watch_ok_def store_ok_def by (auto simp: r nth_append)
  ultimately have "watch_ok r"
    using w unfolding watch_ok_def store_ok_def list_all_length by (auto simp: r follow_ok_def nth_append)
  moreover have "driven_but i r" using d by (auto simp: driven_def driven_but_def under_way_def r)
  moreover have "map_of (qw_followed r) i = Some ?n" using None by (simp add: r map_add_def)
  ultimately show ?thesis by (simp add: r)
qed

lemma follow_keeps:
  assumes w: "watch_ok q" and d: "driven q"
  shows "watch_ok (follow now i first l q) \<and> driven (follow now i first l q)"
proof -
  obtain a r where e: "entry_for i q = (a, r)" by fastforce
  from entry_for_ok [OF w d e] have r: "watch_ok r" "driven_but i r" "a < length (qw_store r)" "fo_id (qw_store r ! a) = i"
    "map_of (qw_followed r) i = Some a" by auto
  define q2 where "q2 = set_place i a (waitingPlace first) (put_entry a (\<lambda>e. e\<lparr>fo_until := now + FOLLOW_MS,
      fo_listeners := (case l of Some l \<Rightarrow> if l \<in> set (fo_listeners e) then fo_listeners e else fo_listeners e @ [l] | None \<Rightarrow> fo_listeners e)\<rparr>) r)"
  have s: "same_shape r q2"
    unfolding q2_def by (rule same_shape_trans [OF put_shape set_place_shape]) simp_all
  then have q2: "watch_ok q2" "driven_but i q2" "a < length (qw_store q2)" "fo_id (qw_store q2 ! a) = i" "map_of (qw_followed q2) i = Some a"
    using same_shape_ok [OF s r(1)] r by (simp_all add: same_shape_def driven_but_def under_way_def)
  have "driven q2" if "fo_timer (qw_store q2 ! a) \<noteq> None"
  proof -
    from q2(5) have "(i, a) \<in> set (qw_followed q2)" by (rule map_of_SomeD)
    moreover have "distinct (map fst (qw_followed q2))" using q2(1) by (simp add: watch_ok_def store_ok_def)
    ultimately have only: "b = a" if "(i, b) \<in> set (qw_followed q2)" for b using that by (metis eq_key_imp_eq_value)
    have "follow_ok q2 (i, a)" using q2(1) \<open>(i, a) \<in> set (qw_followed q2)\<close> by (simp add: watch_ok_def)
    with that have "under_way q2 (i, a)" by (force simp: follow_ok_def under_way_def)
    with q2(2) only show ?thesis unfolding driven_def driven_but_def by (metis prod.collapse)
  qed
  moreover have "follow now i first l q = (if (case first of Some (PlaceWorking _) \<Rightarrow> True | _ \<Rightarrow> False) then end_follow i a q2
      else if fo_timer (qw_store q2 ! a) = None then arm_read a i q2 else q2)"
    by (simp add: follow_def e Let_def q2_def)
  ultimately show ?thesis
    using end_follow_ok [OF q2(1,3,4)] arm_read_ok [OF q2(1,3,4)] q2(1,2) by simp
qed

lemma read_start_keeps:
  assumes w: "watch_ok q" and d: "driven q" and t: "(t, i) \<in> set (qw_timers q)"
  shows "watch_ok (read_start t i q) \<and> driven (read_start t i q)"
proof -
  let ?r = "read_start t i q"
  have dt: "distinct (map fst (qw_timers q))" using w by (simp add: watch_ok_def store_ok_def)
  have tm: "set (qw_timers ?r) = set (qw_timers q) - {(t, i)}"
  proof -
    have "qw_timers ?r = filter (\<lambda>(u, _). Some u \<noteq> Some t) (qw_timers q)"
      by (simp add: read_start_def clear_timer_def Let_def put_entry_def split: option.split)
    moreover have "j = i" if "(t, j) \<in> set (qw_timers q)" for j
      by (rule eq_key_imp_eq_value [OF dt that t])
    then have "set (filter (\<lambda>(u, _). Some u \<noteq> Some t) (qw_timers q)) = set (qw_timers q) - {(t, i)}"
      by auto
    ultimately show ?thesis by simp
  qed
  have f: "qw_followed ?r = qw_followed q" "qw_nextTimer ?r = qw_nextTimer q" "length (qw_store ?r) = length (qw_store q)"
    by (simp_all add: read_start_def clear_timer_def Let_def put_entry_def split: option.split)
  have dt': "distinct (map fst (qw_timers ?r))"
    using dt by (simp add: read_start_def clear_timer_def Let_def put_entry_def distinct_map_filter split: option.split)
  have st: "qw_store ?r ! b = (if map_of (qw_followed q) i = Some b then (qw_store q ! b)\<lparr>fo_timer := None\<rparr> else qw_store q ! b)"
    if "b < length (qw_store q)" for b
    using that by (simp add: read_start_def clear_timer_def Let_def put_entry_def nth_updated split: option.split)
  have rd: "qw_reads ?r = (case map_of (qw_followed q) i of Some a \<Rightarrow> [(a, i)] | None \<Rightarrow> []) @ qw_reads q"
    by (simp add: read_start_def clear_timer_def Let_def put_entry_def split: option.split)
  have fo: "follow_ok q (j, b)" if "(j, b) \<in> set (qw_followed q)" for j b using w that by (simp add: watch_ok_def)
  have df: "distinct (map fst (qw_followed q))" using w by (simp add: watch_ok_def store_ok_def)
  have "entry_ok ?r (qw_store ?r ! b)" if b: "b < length (qw_store q)" for b
    using watch_entry [OF w b] unfolding st [OF b] entry_ok_def tm f by auto
  moreover have "follow_ok ?r (j, b)" if j: "(j, b) \<in> set (qw_followed q)" for j b
  proof -
    from fo [OF j] have b: "b < length (qw_store q)" "fo_id (qw_store q ! b) = j" by (simp_all add: follow_ok_def)
    have "map_of (qw_followed q) i = Some b" if "j = i" using j that df by (simp add: map_of_eq_Some_iff)
    with fo [OF j] b st [OF b(1)] show ?thesis by (auto simp: follow_ok_def tm f)
  qed
  moreover have "b < length (qw_store q) \<and> fo_id (qw_store ?r ! b) = j" if x: "(b, j) \<in> set (qw_reads ?r)" for b j
  proof -
    have "b < length (qw_store q) \<and> fo_id (qw_store q ! b) = j"
    proof (cases "(b, j) \<in> set (qw_reads q)")
      case True
      then show ?thesis using w by (auto simp: watch_ok_def store_ok_def)
    next
      case False
      with x rd have "map_of (qw_followed q) i = Some b" "j = i" by (auto split: option.splits)
      then show ?thesis using fo [OF map_of_SomeD] by (auto simp: follow_ok_def)
    qed
    then show ?thesis using st [of b] by auto
  qed
  ultimately have "watch_ok ?r"
    using w dt' unfolding watch_ok_def store_ok_def list_all_length f tm by auto
  moreover have "driven ?r"
    unfolding driven_def f
  proof
    fix x assume x: "x \<in> set (qw_followed q)"
    obtain j b where xx: "x = (j, b)" by fastforce
    have "under_way q (j, b)" using d x xx by (simp add: driven_def)
    moreover have "map_of (qw_followed q) i = Some b" if "j = i" using x xx that df by (simp add: map_of_eq_Some_iff)
    ultimately show "under_way ?r x" unfolding xx under_way_def rd tm by force
  qed
  ultimately show ?thesis by blast
qed

lemma again_ok:
  assumes w: "watch_ok q" and a: "a < length (qw_store q)" "fo_id (qw_store q ! a) = i"
    and d: "\<forall>f \<in> set (qw_followed q). f \<noteq> (i, a) \<longrightarrow> under_way q f"
  shows "watch_ok (again a i q) \<and> driven (again a i q)"
proof (cases "map_of (qw_followed q) i = Some a")
  case True
  have "driven_but i q" using d by (auto simp: driven_but_def)
  with True show ?thesis using arm_read_ok [OF w a] by (simp add: again_def)
next
  case False
  have "distinct (map fst (qw_followed q))" using w by (simp add: watch_ok_def store_ok_def)
  with False have "(i, a) \<notin> set (qw_followed q)" by (auto simp: map_of_eq_Some_iff)
  with False w d show ?thesis by (auto simp: again_def driven_def)
qed

lemma read_done_keeps:
  assumes w: "watch_ok q" and d: "driven q" and r: "(a, i) \<in> set (qw_reads q)"
  shows "watch_ok (read_done a i ticket working now q) \<and> driven (read_done a i ticket working now q)"
proof -
  define q0 where "q0 = q\<lparr>qw_reads := remove1 (a, i) (qw_reads q)\<rparr>"
  have a: "a < length (qw_store q0)" "fo_id (qw_store q0 ! a) = i"
    using w r by (auto simp: watch_ok_def store_ok_def q0_def)
  have "set (qw_reads q0) \<subseteq> set (qw_reads q)" by (simp add: q0_def set_remove1_subset)
  then have w0: "watch_ok q0"
    using w unfolding watch_ok_def store_ok_def list_all_length entry_ok_def follow_ok_def by (auto simp: q0_def)
  have d0: "under_way q0 f" if "f \<in> set (qw_followed q0)" "f \<noteq> (i, a)" for f
    using d that in_set_remove1 [of "(snd f, fst f)" "(a, i)" "qw_reads q"]
    by (cases f) (auto simp: driven_def under_way_def q0_def)
  have step: "watch_ok s \<and> a < length (qw_store s) \<and> fo_id (qw_store s ! a) = i \<and> driven_but i s \<and> (\<forall>f \<in> set (qw_followed s). f \<noteq> (i, a) \<longrightarrow> under_way s f)"
    if s: "same_shape q0 s" for s
  proof -
    have "under_way s f" if "f \<in> set (qw_followed s)" "f \<noteq> (i, a)" for f
      using d0 [of f] that s by (simp add: same_shape_def under_way_def)
    then have "driven_but i s" "\<forall>f \<in> set (qw_followed s). f \<noteq> (i, a) \<longrightarrow> under_way s f" by (auto simp: driven_but_def)
    with same_shape_ok [OF s w0] s a show ?thesis by (simp add: same_shape_def)
  qed
  show ?thesis
  proof (cases ticket)
    case (Inl err)
    have "same_shape q0 (q0\<lparr>qw_logged := qw_logged q0 @ [''ticket of '' @ i @ '' failed: '' @ err]\<rparr>)" by (simp add: same_shape_def)
    from step [OF this] show ?thesis
      using again_ok [of "q0\<lparr>qw_logged := qw_logged q0 @ [''ticket of '' @ i @ '' failed: '' @ err]\<rparr>" a i] Inl
      unfolding read_done_def Let_def q0_def [symmetric] by simp
  next
    case (Inr tp)
    define place where "place = (case tp of Some p \<Rightarrow> p | None \<Rightarrow> PlaceNone)"
    define q1 where "q1 = put_entry a (\<lambda>e. e\<lparr>fo_nones := (if place = PlaceNone \<and> \<not> working then fo_nones e + 1 else 0)\<rparr>) q0"
    have s1: "same_shape q0 q1" unfolding q1_def by (rule put_shape) simp_all
    have s2: "same_shape q0 (set_place i a (waitingPlace (Some place)) q1)"
      by (rule same_shape_trans [OF s1 set_place_shape]) simp
    have "read_done a i ticket working now q = (if (case place of PlaceWorking _ \<Rightarrow> True | _ \<Rightarrow> False) \<or> fo_nones (qw_store q1 ! a) \<ge> NONE_READS
        \<or> now > fo_until (qw_store q1 ! a) then end_follow i a q1 else again a i (set_place i a (waitingPlace (Some place)) q1))"
      unfolding read_done_def Let_def q0_def [symmetric] Inr sum.case place_def [symmetric] q1_def [symmetric] by (rule refl)
    then show ?thesis
      using end_follow_ok [of q1 a i] again_ok [of "set_place i a (waitingPlace (Some place)) q1" a i] step [OF s1] step [OF s2] by auto
  qed
qed

lemma stop_watch_keeps: "watch_ok q \<Longrightarrow> watch_ok (stop_watch q) \<and> driven (stop_watch q)"
  unfolding watch_ok_def store_ok_def list_all_length entry_ok_def
  by (auto simp: stop_watch_def driven_def distinct_map_filter)

lemma watch_keeps: "watch_ok q \<and> driven q \<Longrightarrow> watch_step q r \<Longrightarrow> watch_ok r \<and> driven r"
  by (erule watch_step.cases) (use follow_keeps read_start_keeps read_done_keeps stop_watch_keeps in blast)+

interpretation watch: step_invariant "\<lambda>q. q = empty_watch" watch_step "\<lambda>q. watch_ok q \<and> driven q"
proof
  show "q = empty_watch \<Longrightarrow> watch_ok q \<and> driven q" for q
    by (simp add: empty_watch_def watch_ok_def store_ok_def driven_def)
qed (use watch_keeps in blast)

text \<open>
  C38. The turn queue's watch, over any interleaving of follows, timers, ticket reads that return late and a stop: every conversation it follows has a timer
  set or a read of its entry under way, so it is read again until its run works or ends; and the place it shows for a conversation is only ever a
  waiting one, queued or marked.
\<close>
theorem queue_watch_progress:
  assumes "watch_step\<^sup>*\<^sup>* empty_watch q" and "map_of (qw_followed q) i = Some a"
  shows "(i \<in> snd ` set (qw_timers q) \<or> (a, i) \<in> set (qw_reads q)) \<and> waitingPlace (place_of q i) = place_of q i"
proof -
  have k: "watch_ok q" "driven q" using watch.inv_reach [OF refl assms(1)] by auto
  have f: "(i, a) \<in> set (qw_followed q)" using assms(2) by (rule map_of_SomeD)
  then have "under_way q (i, a)" "follow_ok q (i, a)" using k by (auto simp: driven_def watch_ok_def)
  moreover from this(2) have "place_ok (fo_place (qw_store q ! a))"
    using watch_entry [OF k(1), of a] by (simp add: follow_ok_def entry_ok_def)
  ultimately show ?thesis using assms(2) by (simp add: under_way_def place_of_def place_ok_def)
qed

lemma read_done_gives_up:
  "now > fo_until (qw_store q ! a) \<Longrightarrow> a < length (qw_store q) \<Longrightarrow> map_of (qw_followed (read_done a i (Inr tp) working now q)) i = None"
  by (simp add: read_done_def Let_def put_entry_def end_follow_def set_place_def clear_timer_def delete_conv')

section \<open>A follow in the middle of a read\<close>

definition ex_waits :: queue_watch where
  "ex_waits = follow 0 ''c'' (Some (PlaceQueued 12 160)) None empty_watch"

definition ex_reading :: queue_watch where
  "ex_reading = read_start 0 ''c'' ex_waits"

definition ex_twice :: queue_watch where
  "ex_twice = read_done 0 ''c'' (Inr (Some (PlaceQueued 11 160))) False 3100 (follow 3050 ''c'' (Some (PlaceQueued 11 160)) None ex_reading)"

definition ex_stale :: queue_watch where
  "ex_stale = read_done 0 ''c'' (Inr (Some (PlaceQueued 11 160))) False 3100 (follow 3050 ''c'' (Some (PlaceWorking ''turn'')) None ex_reading)"

lemmas queue_ops = follow_def entry_for_def put_entry_def set_place_def arm_read_def end_follow_def clear_timer_def read_start_def read_done_def again_def
  waitingPlace_def Let_def FOLLOW_MS_def NONE_READS_def

definition ex_entry :: "TurnPlace option \<Rightarrow> nat option \<Rightarrow> int \<Rightarrow> Followed" where
  "ex_entry p t u = \<lparr>fo_id = ''c'', fo_place = p, fo_listeners = [], fo_timer = t, fo_until = u, fo_nones = 0\<rparr>"

lemma ex_waits_is: "ex_waits = \<lparr>qw_followed = [(''c'', 0)], qw_store = [ex_entry (Some (PlaceQueued 12 160)) (Some 0) 3600000], qw_timers = [(0, ''c'')],
    qw_nextTimer = 1, qw_reads = [], qw_emitted = [(''c'', Some (PlaceQueued 12 160))], qw_heard = [], qw_logged = []\<rparr>"
  by (simp add: ex_waits_def empty_watch_def queue_ops ex_entry_def)

lemma ex_reading_is: "ex_reading = \<lparr>qw_followed = [(''c'', 0)], qw_store = [ex_entry (Some (PlaceQueued 12 160)) None 3600000], qw_timers = [],
    qw_nextTimer = 1, qw_reads = [(0, ''c'')], qw_emitted = [(''c'', Some (PlaceQueued 12 160))], qw_heard = [], qw_logged = []\<rparr>"
  by (simp add: ex_reading_def ex_waits_is queue_ops ex_entry_def)

lemma ex_followed_again: "follow 3050 ''c'' (Some (PlaceQueued 11 160)) None ex_reading = \<lparr>qw_followed = [(''c'', 0)],
    qw_store = [ex_entry (Some (PlaceQueued 11 160)) (Some 1) 3603050], qw_timers = [(1, ''c'')], qw_nextTimer = 2, qw_reads = [(0, ''c'')],
    qw_emitted = [(''c'', Some (PlaceQueued 12 160)), (''c'', Some (PlaceQueued 11 160))], qw_heard = [], qw_logged = []\<rparr>"
  by (simp add: ex_reading_is queue_ops ex_entry_def)

lemma ex_ended: "follow 3050 ''c'' (Some (PlaceWorking ''turn'')) None ex_reading = \<lparr>qw_followed = [],
    qw_store = [ex_entry None None 3603050], qw_timers = [], qw_nextTimer = 1, qw_reads = [(0, ''c'')],
    qw_emitted = [(''c'', Some (PlaceQueued 12 160)), (''c'', None)], qw_heard = [], qw_logged = []\<rparr>"
  by (simp add: ex_reading_is queue_ops ex_entry_def)

lemma ex_reading_reached: "watch_step\<^sup>*\<^sup>* empty_watch ex_reading"
proof -
  have "watch_step empty_watch ex_waits" unfolding ex_waits_def by (rule follows)
  moreover have "(0, ''c'') \<in> set (qw_timers ex_waits)" by (simp add: ex_waits_is)
  then have "watch_step ex_waits ex_reading" unfolding ex_reading_def by (rule timer_fires)
  ultimately show ?thesis by simp
qed

lemma ex_end_reached:
  "(0, ''c'') \<in> set (qw_reads (follow u ''c'' first None ex_reading)) \<Longrightarrow>
   watch_step\<^sup>*\<^sup>* empty_watch (read_done 0 ''c'' tp wk now (follow u ''c'' first None ex_reading))"
  using ex_reading_reached follows read_returns by (meson rtranclp.rtrancl_into_rtrancl)

lemma read_done_queued:
  assumes "now \<le> fo_until (qw_store q ! a)" "a < length (qw_store q)"
  shows "read_done a i (Inr (Some (PlaceQueued x y))) working now q =
    again a i (set_place i a (Some (PlaceQueued x y)) (put_entry a (\<lambda>e. e\<lparr>fo_nones := 0\<rparr>) (q\<lparr>qw_reads := remove1 (a, i) (qw_reads q)\<rparr>)))"
  using assms by (simp add: read_done_def Let_def put_entry_def waitingPlace_def NONE_READS_def)

text \<open>
  A second send of the same conversation while a read waits for its ticket: the follow sets a timer because the read took the entry's, and the read
  then sets another over it, so from then on the conversation is read by two loops.
\<close>
lemma follow_during_read_doubles:
  "watch_step\<^sup>*\<^sup>* empty_watch ex_twice \<and> map snd (qw_timers ex_twice) = [''c'', ''c'']"
proof
  show "watch_step\<^sup>*\<^sup>* empty_watch ex_twice"
    unfolding ex_twice_def by (rule ex_end_reached) (simp add: ex_followed_again)
  show "map snd (qw_timers ex_twice) = [''c'', ''c'']"
    unfolding ex_twice_def ex_followed_again by (subst read_done_queued) (simp_all add: put_entry_def set_place_def again_def arm_read_def ex_entry_def)
qed

text \<open>
  A follow that finds the run working ends the entry while a read waits: the read then shows its stale place on the ended entry, and nothing takes it back.
\<close>
lemma read_after_end_shows_stale_place:
  "watch_step\<^sup>*\<^sup>* empty_watch ex_stale \<and> last (qw_emitted ex_stale) = (''c'', Some (PlaceQueued 11 160)) \<and> qw_followed ex_stale = [] \<and> qw_timers ex_stale = [] \<and> qw_reads ex_stale = []"
proof
  show "watch_step\<^sup>*\<^sup>* empty_watch ex_stale"
    unfolding ex_stale_def by (rule ex_end_reached) (simp add: ex_ended)
  have e: "ex_stale = \<lparr>qw_followed = [], qw_store = [ex_entry (Some (PlaceQueued 11 160)) None 3603050], qw_timers = [], qw_nextTimer = 1, qw_reads = [],
      qw_emitted = [(''c'', Some (PlaceQueued 12 160)), (''c'', None), (''c'', Some (PlaceQueued 11 160))], qw_heard = [], qw_logged = []\<rparr>"
    unfolding ex_stale_def ex_ended by (subst read_done_queued) (simp_all add: put_entry_def set_place_def again_def ex_entry_def)
  show "last (qw_emitted ex_stale) = (''c'', Some (PlaceQueued 11 160)) \<and> qw_followed ex_stale = [] \<and> qw_timers ex_stale = [] \<and> qw_reads ex_stale = []"
    unfolding e by simp
qed

theorem queue_watch_progress_witness:
  "''c'' \<in> snd ` set (qw_timers ex_reading) \<or> (0, ''c'') \<in> set (qw_reads ex_reading)"
proof -
  have "map_of (qw_followed ex_reading) ''c'' = Some 0" by (simp add: ex_reading_is)
  from queue_watch_progress [OF ex_reading_reached this] show ?thesis by simp
qed

end
