(* ===== verification/MessageKeys.thy ===== *)
theory MessageKeys
  imports Prelude
begin

text \<open>
  How a page names a message of a thread and asks for older ones (\<open>shared/message-key.ts\<close>): a message's key, its
  index in a loaded list, and the text of a cursor. The theorems show that a key finds its message again, also after an older page was
  loaded in front, and that a cursor's text reads back as the cursor.
\<close>

section \<open>Definitions\<close>

text \<open>A message is its timestamp; the code reads nothing else of it.\<close>

record MessageKey =
  mk_at :: int
  mk_n :: nat

text \<open>\<open>messageKey\<close>: the loop counts down from the index.\<close>

fun earlier_same :: "int list \<Rightarrow> int \<Rightarrow> nat \<Rightarrow> nat" where
  "earlier_same ms tm 0 = 0"
| "earlier_same ms tm (Suc k) = (if ms ! k = tm then Suc (earlier_same ms tm k) else 0)"

definition messageKey :: "int list \<Rightarrow> nat \<Rightarrow> MessageKey" where
  "messageKey ms i = \<lparr>mk_at = ms ! i, mk_n = earlier_same ms (ms ! i) i\<rparr>"

text \<open>\<open>keyIndex\<close>: from the end of the list; \<open>None\<close> is -1.\<close>

fun key_scan :: "int list \<Rightarrow> MessageKey \<Rightarrow> nat \<Rightarrow> nat option" where
  "key_scan ms k 0 = None"
| "key_scan ms k (Suc i) = (if ms ! i = mk_at k \<and> mk_n (messageKey ms i) = mk_n k then Some i else key_scan ms k i)"

definition keyIndex :: "int list \<Rightarrow> MessageKey \<Rightarrow> nat option" where
  "keyIndex ms k = key_scan ms k (length ms)"

datatype OlderCursor = FileCursor nat string | MessageCursor MessageKey

definition formatCursor :: "OlderCursor \<Rightarrow> string" where
  "formatCursor c = (case c of
     FileCursor e i \<Rightarrow> ''f'' @ digits_of_nat e @ ''.'' @ i
   | MessageCursor k \<Rightarrow> ''m'' @ show_int (mk_at k) @ ''.'' @ digits_of_nat (mk_n k))"

definition MAX_SAFE :: nat where "MAX_SAFE = 9007199254740991"

definition cursor_id_char :: "char \<Rightarrow> bool" where
  "cursor_id_char c \<longleftrightarrow> (let n = (of_char c :: nat) in
     48 \<le> n \<and> n \<le> 57 \<or> 65 \<le> n \<and> n \<le> 90 \<or> n = 95 \<or> 97 \<le> n \<and> n \<le> 122 \<or> n = 45)"

text \<open>The two groups of both patterns: digits up to the dot, and the rest after it. A digit is no dot, so the split is the only one.\<close>

definition dotted :: "char \<Rightarrow> string \<Rightarrow> (string \<times> string) option" where
  "dotted lead s = (case s of
     c # cs \<Rightarrow> (let d = takeWhile js_digit cs in
       case dropWhile js_digit cs of
         e # rest \<Rightarrow> if c = lead \<and> d \<noteq> [] \<and> e = CHR ''.'' then Some (d, rest) else None
       | [] \<Rightarrow> None)
   | [] \<Rightarrow> None)"

definition file_match :: "string \<Rightarrow> (string \<times> string) option" where
  "file_match s = (case dotted (CHR ''f'') s of
     Some (d, i) \<Rightarrow> if 1 \<le> length i \<and> length i \<le> 128 \<and> list_all cursor_id_char i then Some (d, i) else None
   | None \<Rightarrow> None)"

definition message_match :: "string \<Rightarrow> (string \<times> string) option" where
  "message_match s = (case dotted (CHR ''m'') s of
     Some (d, n) \<Rightarrow> if n \<noteq> [] \<and> list_all js_digit n then Some (d, n) else None
   | None \<Rightarrow> None)"

definition parseCursor :: "string \<Rightarrow> OlderCursor option" where
  "parseCursor s =
     (case file_match s of
        Some (d, i) \<Rightarrow> if nat_of_digits d \<le> MAX_SAFE then Some (FileCursor (nat_of_digits d) i) else None
      | None \<Rightarrow>
          (case message_match s of
             None \<Rightarrow> None
           | Some (d, n) \<Rightarrow> if nat_of_digits d \<le> MAX_SAFE \<and> nat_of_digits n \<le> MAX_SAFE
               then Some (MessageCursor \<lparr>mk_at = int (nat_of_digits d), mk_n = nat_of_digits n\<rparr>) else None))"

section \<open>A key finds its message\<close>

lemma earlier_same_le: "earlier_same ms tm i \<le> i"
  by (induction i) auto

text \<open>In a list in time order the count is the number of earlier messages that share the timestamp.\<close>

lemma earlier_same_card:
  assumes "sorted ms" "i \<le> length ms" "\<forall>j < i. ms ! j \<le> tm"
  shows "earlier_same ms tm i = card {j. j < i \<and> ms ! j = tm}"
  using assms(2,3)
proof (induction i)
  case (Suc i)
  show ?case
  proof (cases "ms ! i = tm")
    case True
    have "{j. j < Suc i \<and> ms ! j = tm} = insert i {j. j < i \<and> ms ! j = tm}" using True by auto
    with Suc True show ?thesis by simp
  next
    case False
    with Suc.prems have "ms ! i < tm" by (simp add: less_le)
    moreover have "ms ! j \<le> ms ! i" if "j < i" for j using assms(1) Suc.prems(1) that by (simp add: sorted_nth_mono)
    ultimately have "{j. j < Suc i \<and> ms ! j = tm} = {}" by (auto simp: less_Suc_eq) (metis leD)
    with False show ?thesis by (simp add: card_eq_0_iff)
  qed
qed simp

lemma key_scan_last:
  assumes "i < n" "ms ! i = mk_at k" "mk_n (messageKey ms i) = mk_n k"
    and "\<forall>j. i < j \<and> j < n \<longrightarrow> \<not> (ms ! j = mk_at k \<and> mk_n (messageKey ms j) = mk_n k)"
  shows "key_scan ms k n = Some i"
  using assms by (induction n) (auto simp: less_Suc_eq)

lemma count_grows:
  assumes s: "sorted ms" and "i < j" "j < length ms" "ms ! j = ms ! i"
  shows "mk_n (messageKey ms i) < mk_n (messageKey ms j)"
proof -
  have le: "\<forall>k < i. ms ! k \<le> ms ! i" "\<forall>k < j. ms ! k \<le> ms ! i"
    using s assms(2-4) by (auto simp: sorted_nth_mono) (metis less_imp_le_nat sorted_nth_mono)
  have "earlier_same ms (ms ! i) i = card {k. k < i \<and> ms ! k = ms ! i}"
    using assms by (intro earlier_same_card le(1)) auto
  also have "\<dots> < card {k. k < j \<and> ms ! k = ms ! i}"
    by (rule psubset_card_mono) (use assms(2) in auto)
  also have "\<dots> = earlier_same ms (ms ! i) j"
    using assms by (intro earlier_same_card [symmetric] le(2)) auto
  finally show ?thesis using assms(4) by (simp add: messageKey_def)
qed

lemma keyIndex_messageKey:
  assumes "sorted ms" "i < length ms"
  shows "keyIndex ms (messageKey ms i) = Some i"
  unfolding keyIndex_def
proof (rule key_scan_last [OF assms(2)])
  show "\<forall>j. i < j \<and> j < length ms \<longrightarrow> \<not> (ms ! j = mk_at (messageKey ms i) \<and> mk_n (messageKey ms j) = mk_n (messageKey ms i))"
  proof (intro allI impI notI, elim conjE)
    fix j assume "i < j" "j < length ms" "ms ! j = mk_at (messageKey ms i)" "mk_n (messageKey ms j) = mk_n (messageKey ms i)"
    with count_grows [OF assms(1), of i j] show False by (simp add: messageKey_def)
  qed
qed (simp_all add: messageKey_def)

lemma earlier_same_paged:
  assumes "older = [] \<or> last older \<noteq> tm"
  shows "i \<le> length ms \<Longrightarrow> earlier_same (older @ ms) tm (length older + i) = earlier_same ms tm i"
proof (induction i)
  case 0
  show ?case
  proof (cases "length older")
    case (Suc n)
    then have "(older @ ms) ! n = last older" by (metis diff_Suc_1 last_conv_nth lessI list.size(3) nat.distinct(1) nth_append)
    then show ?thesis using Suc assms by (auto simp: length_greater_0_conv)
  qed simp
qed (simp add: nth_append)

text \<open>
  A message's name: in a thread in time order, the key of a message finds that message, and a page of older messages loaded in front
  changes no key as long as it splits no group of messages with one timestamp, so the key still finds the message at its new index.
\<close>
theorem message_key_survives_paging:
  assumes "sorted (older @ ms)" and "i < length ms" and "older \<noteq> [] \<Longrightarrow> last older < ms ! 0"
  shows "messageKey (older @ ms) (length older + i) = messageKey ms i
    \<and> keyIndex ms (messageKey ms i) = Some i
    \<and> keyIndex (older @ ms) (messageKey ms i) = Some (length older + i)"
proof -
  have ms: "sorted ms" using assms(1) by (simp add: sorted_append)
  then have "ms ! 0 \<le> ms ! i" using assms(2) by (simp add: sorted_nth_mono)
  then have "older = [] \<or> last older \<noteq> ms ! i" using assms(3) by force
  then have k: "messageKey (older @ ms) (length older + i) = messageKey ms i"
    using earlier_same_paged [of older "ms ! i" i ms] assms(2) by (simp add: messageKey_def)
  with keyIndex_messageKey [OF assms(1), of "length older + i"] keyIndex_messageKey [OF ms assms(2)] assms(2)
  show ?thesis by simp
qed

text \<open>Out of time order two messages can share a key: the count stops at the first other timestamp.\<close>

lemma message_key_unsorted: "messageKey [5, 6, 5] 0 = messageKey [5, 6, 5] 2 \<and> keyIndex [5, 6, 5] (messageKey [5, 6, 5] 0) = Some 2"
  by (simp add: messageKey_def keyIndex_def numeral_2_eq_2)

section \<open>A cursor's text reads back\<close>

definition cursor_ok :: "OlderCursor \<Rightarrow> bool" where
  "cursor_ok c = (case c of
     FileCursor e i \<Rightarrow> e \<le> MAX_SAFE \<and> 1 \<le> length i \<and> length i \<le> 128 \<and> list_all cursor_id_char i
   | MessageCursor k \<Rightarrow> 0 \<le> mk_at k \<and> nat (mk_at k) \<le> MAX_SAFE \<and> mk_n k \<le> MAX_SAFE)"

lemma dotted_digits: "dotted c (c # digits_of_nat n @ CHR ''.'' # rest) = Some (digits_of_nat n, rest)"
proof -
  have d: "\<forall>x \<in> set (digits_of_nat n). js_digit x" by (rule digits_of_nat_digits)
  have "\<not> js_digit (CHR ''.'')" by (simp add: js_digit_def)
  with d have "takeWhile js_digit (digits_of_nat n @ CHR ''.'' # rest) = digits_of_nat n" "dropWhile js_digit (digits_of_nat n @ CHR ''.'' # rest) = CHR ''.'' # rest"
    by (simp_all add: takeWhile_append2 dropWhile_append2)
  then show ?thesis by (simp add: dotted_def)
qed

lemma dotted_other: "c \<noteq> d \<Longrightarrow> dotted c (d # s) = None"
  by (simp add: dotted_def Let_def split: list.split)

text \<open>
  A cursor's text: every cursor with safe numbers and an id of at most 128 word characters or dashes reads back from its text as it was.
\<close>
theorem cursor_roundtrip:
  assumes "cursor_ok c"
  shows "parseCursor (formatCursor c) = Some c"
proof (cases c)
  case (FileCursor e i)
  then have "file_match (formatCursor c) = Some (digits_of_nat e, i)"
    using assms dotted_digits [of "CHR ''f''" e i] by (simp add: formatCursor_def file_match_def cursor_ok_def)
  with FileCursor assms show ?thesis by (simp add: parseCursor_def cursor_ok_def)
next
  case (MessageCursor k)
  with assms have at: "show_int (mk_at k) = digits_of_nat (nat (mk_at k))" "0 \<le> mk_at k" by (simp_all add: cursor_ok_def show_int_def)
  have m: "message_match (formatCursor c) = Some (digits_of_nat (nat (mk_at k)), digits_of_nat (mk_n k))"
    using MessageCursor at dotted_digits [of "CHR ''m''" "nat (mk_at k)" "digits_of_nat (mk_n k)"] digits_of_nat_digits [of "mk_n k"]
    by (simp add: formatCursor_def message_match_def list_all_iff)
  have "file_match (formatCursor c) = None"
    using MessageCursor by (simp add: formatCursor_def file_match_def dotted_other)
  with m MessageCursor assms at(2) show ?thesis by (simp add: parseCursor_def cursor_ok_def)
qed

theorem message_key_survives_paging_witness:
  "keyIndex ([3, 4] @ [5, 5, 7]) (messageKey [5, 5, 7] 1) = Some 3"
  using message_key_survives_paging [of "[3, 4]" "[5, 5, 7]" 1] by simp

theorem cursor_roundtrip_witness:
  "parseCursor (formatCursor (FileCursor 4096 ''a1-b'')) = Some (FileCursor 4096 ''a1-b'')"
  by (rule cursor_roundtrip) (simp add: cursor_ok_def MAX_SAFE_def cursor_id_char_def)

end
