(* ===== verification/HeldSends.thy ===== *)
theory HeldSends
  imports Json
begin

text \<open>
  The owner's sends that have not landed yet, kept in the browser's \<open>localStorage\<close> (\<open>held-sends.ts\<close>): the stored value, read with every
  entry that is not one left out, and the operations on it.

  The stored text is the value \<open>JSON.parse\<close> gives of it; \<open>JSON.stringify\<close> of a list reads back as the list. The theorem
  shows that the operations on the stored text do what the same operations do on a list of sends.
\<close>

section \<open>Definitions\<close>

datatype when_busy = WhenSteer | WhenFollowUp

record HeldSend =
  hs_conversation :: string
  hs_requestId :: string
  hs_text :: string
  hs_images :: "json list"
  hs_mentions :: "string list option"
  hs_threadRoot :: "string option"
  hs_whenBusy :: "when_busy option"
  hs_at :: rat
  hs_error :: "string option"

definition isRef :: "json \<Rightarrow> bool" where
  "isRef j \<longleftrightarrow> as_string (field j ''url'') \<noteq> None \<and> as_string (field j ''mimeType'') \<noteq> None"

definition all_strings :: "json option \<Rightarrow> string list option" where
  "all_strings v = (case v of
     Some (JArr xs) \<Rightarrow> if list_all (\<lambda>x. as_string (Some x) \<noteq> None) xs then Some (List.map_filter (\<lambda>x. as_string (Some x)) xs) else None
   | _ \<Rightarrow> None)"

definition busy_of :: "json option \<Rightarrow> when_busy option" where
  "busy_of v = (case as_string v of Some s \<Rightarrow> if s = ''steer'' then Some WhenSteer else if s = ''followUp'' then Some WhenFollowUp else None | None \<Rightarrow> None)"

definition parse_send :: "json \<Rightarrow> HeldSend option" where
  "parse_send v =
     (case (as_string (field v ''conversation''), as_string (field v ''requestId''), as_string (field v ''text''), as_number (field v ''at''), field v ''images'') of
        (Some c, Some r, Some tx, Some n, Some (JArr images)) \<Rightarrow>
          if list_all isRef images
          then Some \<lparr>hs_conversation = c, hs_requestId = r, hs_text = tx, hs_images = images, hs_mentions = all_strings (field v ''mentions''),
                 hs_threadRoot = as_string (field v ''threadRoot''), hs_whenBusy = busy_of (field v ''whenBusy''), hs_at = n,
                 hs_error = as_string (field v ''error'')\<rparr>
          else None
      | _ \<Rightarrow> None)"

text \<open>\<open>JSON.stringify\<close> leaves out a field that is undefined.\<close>

definition opt_field :: "string \<Rightarrow> json option \<Rightarrow> (string \<times> json) list" where
  "opt_field k v = (case v of Some j \<Rightarrow> [(k, j)] | None \<Rightarrow> [])"

definition busy_json :: "when_busy \<Rightarrow> json" where
  "busy_json b = JStr (case b of WhenSteer \<Rightarrow> ''steer'' | WhenFollowUp \<Rightarrow> ''followUp'')"

definition send_json :: "HeldSend \<Rightarrow> json" where
  "send_json s = JObj ([(''conversation'', JStr (hs_conversation s)), (''requestId'', JStr (hs_requestId s)), (''text'', JStr (hs_text s)),
       (''images'', JArr (hs_images s)), (''at'', JNum (hs_at s))]
     @ opt_field ''mentions'' (map_option (\<lambda>ms. JArr (map JStr ms)) (hs_mentions s)) @ opt_field ''threadRoot'' (map_option JStr (hs_threadRoot s))
     @ opt_field ''whenBusy'' (map_option busy_json (hs_whenBusy s)) @ opt_field ''error'' (map_option JStr (hs_error s)))"

text \<open>No \<open>localStorage\<close>, no item under the key, an item that does not parse, or the value of the item.\<close>

datatype storage = NoStorage | NoItem | Unreadable | Item json

definition readAll :: "storage \<Rightarrow> HeldSend list" where
  "readAll st = (case st of Item (JArr xs) \<Rightarrow> List.map_filter parse_send xs | _ \<Rightarrow> [])"

definition writeAll :: "HeldSend list \<Rightarrow> storage \<Rightarrow> storage" where
  "writeAll xs st = (if st = NoStorage then NoStorage else if xs \<noteq> [] then Item (JArr (map send_json xs)) else NoItem)"

definition held_of :: "string \<Rightarrow> string option \<Rightarrow> storage \<Rightarrow> HeldSend list" where
  "held_of c rt st = filter (\<lambda>s. hs_conversation s = c \<and> hs_threadRoot s = rt) (readAll st)"

definition held_has :: "string \<Rightarrow> storage \<Rightarrow> bool" where
  "held_has r st \<longleftrightarrow> list_ex (\<lambda>s. hs_requestId s = r) (readAll st)"

definition held_keep :: "HeldSend \<Rightarrow> storage \<Rightarrow> storage" where
  "held_keep s st = writeAll (filter (\<lambda>o1. hs_requestId o1 \<noteq> hs_requestId s) (readAll st) @ [s]) st"

definition held_fail :: "string \<Rightarrow> string \<Rightarrow> storage \<Rightarrow> storage" where
  "held_fail r e st = (if list_ex (\<lambda>s. hs_requestId s = r) (readAll st)
     then writeAll (map (\<lambda>s. if hs_requestId s = r then s\<lparr>hs_error := Some e\<rparr> else s) (readAll st)) st else st)"

definition held_drop :: "string \<Rightarrow> storage \<Rightarrow> storage" where
  "held_drop r st = (if list_ex (\<lambda>s. hs_requestId s = r) (readAll st) then writeAll (filter (\<lambda>s. hs_requestId s \<noteq> r) (readAll st)) st else st)"

section \<open>What is written reads back\<close>

definition send_ok :: "HeldSend \<Rightarrow> bool" where
  "send_ok s \<longleftrightarrow> list_all isRef (hs_images s)"

lemma as_simps [simp]: "as_string (Some (JStr s)) = Some s" "as_number (Some (JNum q)) = Some q" "as_string None = None"
  by (simp_all add: as_string_def as_number_def)

lemma all_strings_map: "all_strings (Some (JArr (map JStr xs))) = Some xs"
  by (simp add: all_strings_def list_all_iff List.map_filter_def comp_def)

lemma busy_of_json: "busy_of (map_option busy_json b) = b"
  by (cases b) (auto simp: busy_of_def busy_json_def split: when_busy.split)

lemma send_json_fields:
  "field (send_json s) ''conversation'' = Some (JStr (hs_conversation s))" "field (send_json s) ''requestId'' = Some (JStr (hs_requestId s))"
  "field (send_json s) ''text'' = Some (JStr (hs_text s))" "field (send_json s) ''images'' = Some (JArr (hs_images s))" "field (send_json s) ''at'' = Some (JNum (hs_at s))"
  "field (send_json s) ''mentions'' = map_option (\<lambda>ms. JArr (map JStr ms)) (hs_mentions s)" "field (send_json s) ''threadRoot'' = map_option JStr (hs_threadRoot s)"
  "field (send_json s) ''whenBusy'' = map_option busy_json (hs_whenBusy s)" "field (send_json s) ''error'' = map_option JStr (hs_error s)"
  by (simp_all add: send_json_def opt_field_def split: option.split)

lemma parse_send_json: "send_ok s \<Longrightarrow> parse_send (send_json s) = Some s"
proof -
  assume ok: "send_ok s"
  have "as_string (map_option JStr x) = x" for x by (cases x) simp_all
  moreover have "all_strings (map_option (\<lambda>ms. JArr (map JStr ms)) y) = y" for y
    by (cases y) (simp_all add: all_strings_map, simp add: all_strings_def)
  ultimately show ?thesis
    using ok unfolding parse_send_def send_json_fields by (simp add: busy_of_json send_ok_def)
qed

lemma parse_send_ok: "parse_send j = Some s \<Longrightarrow> send_ok s"
  by (auto simp: parse_send_def send_ok_def split: option.splits json.splits if_splits)

lemma readAll_ok: "list_all send_ok (readAll st)"
  using parse_send_ok by (auto simp: readAll_def list_all_iff List.map_filter_def split: storage.split json.split)

lemma map_filter_json: "list_all send_ok xs \<Longrightarrow> List.map_filter parse_send (map send_json xs) = xs"
  by (induction xs) (simp_all add: List.map_filter_simps parse_send_json)

lemma readAll_writeAll: "st \<noteq> NoStorage \<Longrightarrow> list_all send_ok xs \<Longrightarrow> readAll (writeAll xs st) = xs"
  by (auto simp: readAll_def writeAll_def map_filter_json)

lemma readAll_NoStorage [simp]: "readAll NoStorage = []" "writeAll xs NoStorage = NoStorage"
  by (simp_all add: readAll_def writeAll_def)

text \<open>
  The kept sends behave as a list of sends with one entry per request, whatever an older page or a hand edit left under the key: keeping a send puts it
  last and replaces the one of the same request, failing one sets its error, dropping one removes it, a send that is not there changes nothing, and the
  requests stay distinct. What is kept with images that have their refs is read back exactly as it was.
\<close>
theorem held_sends_refine:
  assumes "st \<noteq> NoStorage" and "send_ok s"
  shows "readAll (held_keep s st) = filter (\<lambda>k. hs_requestId k \<noteq> hs_requestId s) (readAll st) @ [s]
    \<and> readAll (held_drop r st) = filter (\<lambda>k. hs_requestId k \<noteq> r) (readAll st)
    \<and> readAll (held_fail r e st) = map (\<lambda>k. if hs_requestId k = r then k\<lparr>hs_error := Some e\<rparr> else k) (readAll st)
    \<and> (distinct (map hs_requestId (readAll st)) \<longrightarrow> distinct (map hs_requestId (readAll (held_keep s st))))
    \<and> held_has (hs_requestId s) (held_keep s st) \<and> \<not> held_has r (held_drop r st)"
proof -
  have ok: "list_all send_ok (readAll st)" by (rule readAll_ok)
  have k: "readAll (held_keep s st) = filter (\<lambda>k. hs_requestId k \<noteq> hs_requestId s) (readAll st) @ [s]"
    unfolding held_keep_def by (rule readAll_writeAll [OF assms(1)]) (use ok assms(2) in \<open>auto simp: list_all_iff\<close>)
  have d: "readAll (held_drop r st) = filter (\<lambda>k. hs_requestId k \<noteq> r) (readAll st)"
    using readAll_writeAll [OF assms(1), of "filter (\<lambda>k. hs_requestId k \<noteq> r) (readAll st)"] ok
    by (auto simp: held_drop_def list_all_iff list_ex_iff filter_id_conv)
  have f: "readAll (held_fail r e st) = map (\<lambda>k. if hs_requestId k = r then k\<lparr>hs_error := Some e\<rparr> else k) (readAll st)"
  proof (cases "list_ex (\<lambda>s. hs_requestId s = r) (readAll st)")
    case True
    have "list_all send_ok (map (\<lambda>k. if hs_requestId k = r then k\<lparr>hs_error := Some e\<rparr> else k) (readAll st))"
      using ok by (auto simp: list_all_iff send_ok_def)
    with True show ?thesis by (simp add: held_fail_def readAll_writeAll [OF assms(1)])
  next
    case False
    then have "map (\<lambda>k. if hs_requestId k = r then k\<lparr>hs_error := Some e\<rparr> else k) (readAll st) = readAll st"
      by (intro map_idI) (auto simp: list_ex_iff)
    with False show ?thesis by (simp add: held_fail_def)
  qed
  show ?thesis
    using k d f by (auto simp: held_has_def list_ex_iff distinct_map_filter)
qed

definition ex_send :: HeldSend where
  "ex_send = \<lparr>hs_conversation = ''c'', hs_requestId = ''r1'', hs_text = ''hi'', hs_images = [], hs_mentions = None, hs_threadRoot = None,
     hs_whenBusy = Some WhenSteer, hs_at = 5, hs_error = None\<rparr>"

theorem held_sends_refine_witness:
  "readAll (held_keep ex_send (Item (JArr [JNull, JNum 3]))) = [ex_send] \<and> held_has ''r1'' (held_keep ex_send (Item (JArr [JNull, JNum 3])))"
proof -
  have "readAll (Item (JArr [JNull, JNum 3])) = []" by (simp add: readAll_def List.map_filter_simps parse_send_def as_string_def)
  then show ?thesis
    using held_sends_refine [of "Item (JArr [JNull, JNum 3])" ex_send] by (simp add: send_ok_def ex_send_def)
qed

end
