(* ===== verification/Shell.thy ===== *)
theory Shell
  imports Prelude
begin

text \<open>
  How the command guards read shell text (\<open>packages/sieun-rules/src/shell.ts\<close>): here-documents, the split into commands and words, the program a
  command runs, the script of a \<open>-c\<close> option and variables. The source walks an index through the text; the model walks what is left of
  it. The theorem shows that text quoted the way a shell quotes it is read back word by word.
\<close>

section \<open>Character classes and patterns\<close>

definition ident_start :: "char \<Rightarrow> bool" where
  "ident_start c \<longleftrightarrow> (let n = (of_char c :: nat) in 65 \<le> n \<and> n \<le> 90 \<or> n = 95 \<or> 97 \<le> n \<and> n \<le> 122)"

definition ident_char :: "char \<Rightarrow> bool" where
  "ident_char c \<longleftrightarrow> ident_start c \<or> js_digit c"

text \<open>\<open>[A-Za-z_][A-Za-z0-9_]*\<close> at the start of a text: the name, empty where there is none, and the rest.\<close>

definition ident :: "string \<Rightarrow> string \<times> string" where
  "ident s = (if s \<noteq> [] \<and> ident_start (hd s) then (takeWhile ident_char s, dropWhile ident_char s) else ([], s))"

definition assignment :: "string \<Rightarrow> bool" where
  "assignment w = (case ident w of (n, r) \<Rightarrow> n \<noteq> [] \<and> prefix ''='' r)"

section \<open>Python calls\<close>

text \<open>The index past a Python string's body, where its closing delimiter starts or the text ends.\<close>

function skip_string :: "string \<Rightarrow> string \<Rightarrow> nat \<Rightarrow> nat" where
  "skip_string code d i =
     (if i < length code \<and> \<not> prefix d (drop i code) then skip_string code d (i + (if code ! i = CHR 92 then 2 else 1)) else i)"
  by pat_completeness auto
termination
  by (relation "measure (\<lambda>(code, d, i). length code - i)") auto

declare skip_string.simps [simp del]

lemma skip_string_ge: "i \<le> skip_string code d i"
proof (induction code d i rule: skip_string.induct)
  case (1 code d i)
  show ?case
  proof (cases "i < length code \<and> \<not> prefix d (drop i code)")
    case True
    have "i \<le> i + (if code ! i = CHR 92 then 2 else 1)" by simp
    also have "\<dots> \<le> skip_string code d (i + (if code ! i = CHR 92 then 2 else 1))" using True by (rule 1)
    also have "\<dots> = skip_string code d i" using True by (subst (2) skip_string.simps) simp
    finally show ?thesis .
  next
    case False
    then have "skip_string code d i = i" by (subst skip_string.simps) (rule if_not_P)
    then show ?thesis by simp
  qed
qed

definition string_delim :: "string \<Rightarrow> nat \<Rightarrow> string" where
  "string_delim code i = (let q = code ! i in if take 3 (drop i code) = [q, q, q] then [q, q, q] else [q])"

lemma string_delim_length: "0 < length (string_delim code i)"
  by (simp add: string_delim_def Let_def)

function balanced_loop :: "string \<Rightarrow> nat \<Rightarrow> nat \<Rightarrow> nat \<Rightarrow> int \<Rightarrow> string" where
  "balanced_loop code open limit i depth =
     (if i \<ge> limit then take (limit - (open + 1)) (drop (open + 1) code)
      else (let c = code ! i in
        if c = CHR 39 \<or> c = CHR 34 then
          (let d = string_delim code i in balanced_loop code open limit (skip_string code d (i + length d) + length d) depth)
        else if c = CHR ''('' then balanced_loop code open limit (i + 1) (depth + 1)
        else if c = CHR '')'' then
          (if depth - 1 = 0 then take (i - (open + 1)) (drop (open + 1) code) else balanced_loop code open limit (i + 1) (depth - 1))
        else balanced_loop code open limit (i + 1) depth))"
  by pat_completeness auto
termination
proof (relation "measure (\<lambda>(code, open, limit, i, depth). limit - i)")
  fix code :: string and opn limit i :: nat and depth :: int and c :: char and d :: string
  assume "\<not> limit \<le> i" "d = string_delim code i"
  moreover have "i + length d \<le> skip_string code d (i + length d)" by (rule skip_string_ge)
  moreover have "0 < length d" using calculation(2) string_delim_length by simp
  ultimately have "limit - (skip_string code d (i + length d) + length d) < limit - i" by linarith
  then show "((code, opn, limit, skip_string code d (i + length d) + length d, depth), code, opn, limit, i, depth)
      \<in> measure (\<lambda>(code, open, limit, i, depth). limit - i)"
    by simp
qed auto

text \<open>\<open>balancedSlice\<close>; \<open>None\<close> is an index below 0.\<close>

definition balancedSlice :: "string \<Rightarrow> nat option \<Rightarrow> string" where
  "balancedSlice code open = (case open of None \<Rightarrow> '''' | Some p \<Rightarrow> balanced_loop code p (min (length code) (p + 4000)) p 0)"

section \<open>Here-documents\<close>

text \<open>The tag where \<open>/<<-?\s*(['"]?)([A-Za-z_][A-Za-z0-9_]*)\1/\<close> matches at the start; no other way to match it is left when this one fails.\<close>

definition heredoc_here :: "string \<Rightarrow> string option" where
  "heredoc_here s =
     (if prefix ''<<'' s then
        (let r1 = drop 2 s;
             r2 = dropWhile js_ws (if prefix ''-'' r1 then tl r1 else r1);
             q = (if r2 \<noteq> [] \<and> (hd r2 = CHR 39 \<or> hd r2 = CHR 34) then [hd r2] else [])
         in case ident (drop (length q) r2) of (n, r) \<Rightarrow> if n \<noteq> [] \<and> prefix q r then Some n else None)
      else None)"

fun heredoc_tag :: "string \<Rightarrow> string option" where
  "heredoc_tag [] = None"
| "heredoc_tag (c # cs) = (case heredoc_here (c # cs) of Some n \<Rightarrow> Some n | None \<Rightarrow> heredoc_tag cs)"

fun strip_lines :: "string list \<Rightarrow> string option \<Rightarrow> string list" where
  "strip_lines [] _ = []"
| "strip_lines (l # ls) (Some endTag) = strip_lines ls (if js_trim l = endTag \<or> js_trim l = CHR 9 # endTag then None else Some endTag)"
| "strip_lines (l # ls) None = l # strip_lines ls (heredoc_tag l)"

definition stripHeredocs :: "string \<Rightarrow> string" where
  "stripHeredocs s = js_join [CHR 10] (strip_lines (js_split (CHR 10) s) None)"

section \<open>Commands and words\<close>

definition SHELLS :: "string list" where
  "SHELLS = [''sh'', ''bash'', ''zsh'', ''dash'', ''ksh'', ''mksh'', ''ash'']"

definition KEYWORDS :: "string list" where
  "KEYWORDS = [''if'', ''then'', ''else'', ''elif'', ''do'', ''while'', ''until'', ''!'', ''{'']"

definition WRAPPERS :: "string list" where
  "WRAPPERS = [''command'', ''exec'', ''time'', ''nice'', ''nohup'', ''setsid'', ''stdbuf'', ''ionice'', ''builtin'', ''caffeinate'']"

text \<open>
  \<open>grabBalanced\<close> past its opening parenthesis: the body so far in reverse, the depth and the open quote. Both grabs give the body and what is left.
\<close>

fun grab_balanced :: "string \<Rightarrow> nat \<Rightarrow> char option \<Rightarrow> string \<Rightarrow> string \<times> string" where
  "grab_balanced [] d q acc = (rev acc, [])"
| "grab_balanced (c # cs) d (Some q) acc =
     (if c = CHR 92 \<and> q = CHR 34 then (case cs of [] \<Rightarrow> (rev (c # acc), []) | x # xs \<Rightarrow> grab_balanced xs d (Some q) (x # c # acc))
      else grab_balanced cs d (if c = q then None else Some q) (c # acc))"
| "grab_balanced (c # cs) d None acc =
     (if c = CHR 39 \<or> c = CHR 34 then grab_balanced cs d (Some c) (c # acc)
      else if c = CHR ''('' then grab_balanced cs (Suc d) None (c # acc)
      else if c = CHR '')'' then (if d = 1 then (rev acc, cs) else grab_balanced cs (d - 1) None (c # acc))
      else grab_balanced cs d None (c # acc))"

fun grab_backtick :: "string \<Rightarrow> string \<Rightarrow> string \<times> string" where
  "grab_backtick [] acc = (rev acc, [])"
| "grab_backtick (c # cs) acc =
     (if c = CHR 92 then (case cs of [] \<Rightarrow> (rev (c # acc), []) | x # xs \<Rightarrow> grab_backtick xs (x # c # acc))
      else if c = CHR 96 then (rev acc, cs) else grab_backtick cs (c # acc))"

lemma grab_balanced_length: "length (snd (grab_balanced s d q acc)) \<le> length s"
proof (induction s d q acc rule: grab_balanced.induct)
  case (2 c cs d q acc)
  then show ?case by (cases cs) (simp_all add: le_SucI)
next
  case (3 c cs d acc)
  show ?case using 3 by (simp add: le_SucI)
qed simp

lemma grab_backtick_length: "length (snd (grab_backtick s acc)) \<le> length s"
proof (induction s acc rule: grab_backtick.induct)
  case (2 c cs acc)
  then show ?case by (cases cs) (simp_all add: le_SucI)
qed simp

text \<open>The inside of double quotes: what is left after the closing quote, the word so far and the bodies collected.\<close>

function in_double :: "string \<Rightarrow> string \<Rightarrow> string list \<Rightarrow> string \<times> string \<times> string list" where
  "in_double [] cur nested = ([], cur, nested)"
| "in_double (c # cs) cur nested =
     (if c = CHR 34 then (cs, cur, nested)
      else if c = CHR 92 then in_double (drop 1 cs) (cur @ take 1 cs) nested
      else if c = CHR ''$'' \<and> prefix ''('' cs then
        (case grab_balanced (drop 1 cs) 1 None [] of (inner, r) \<Rightarrow> in_double r cur (nested @ [inner]))
      else if c = CHR 96 then (case grab_backtick cs [] of (inner, r) \<Rightarrow> in_double r cur (nested @ [inner]))
      else in_double cs (cur @ [c]) nested)"
  by pat_completeness auto
termination
proof (relation "measure (length \<circ> fst)")
  fix c :: char and cs cur inner r :: string and nested :: "string list"
  assume "(inner, r) = grab_balanced (drop 1 cs) 1 None []"
  then have "r = snd (grab_balanced (drop 1 cs) 1 None [])" by (metis snd_conv)
  with grab_balanced_length [of "drop 1 cs" 1 None "[]"] have "length r \<le> length (drop 1 cs)" by (simp only:)
  then show "((r, cur, nested @ [inner]), c # cs, cur, nested) \<in> measure (length \<circ> fst)" by simp
next
  fix c :: char and cs cur inner r :: string and nested :: "string list"
  assume "(inner, r) = grab_backtick cs []"
  then have "r = snd (grab_backtick cs [])" by (metis snd_conv)
  with grab_backtick_length [of cs "[]"] have "length r \<le> length cs" by (simp only:)
  then show "((r, cur, nested @ [inner]), c # cs, cur, nested) \<in> measure (length \<circ> fst)" by simp
qed auto

lemma in_double_length: "length (fst (in_double s cur nested)) \<le> length s"
proof (induction s cur nested rule: in_double.induct)
  case (2 c cs cur nested)
  obtain i1 r1 where b: "grab_balanced (drop 1 cs) 1 None [] = (i1, r1)" by fastforce
  obtain i2 r2 where k: "grab_backtick cs [] = (i2, r2)" by fastforce
  have "length r1 \<le> length cs" using grab_balanced_length [of "drop 1 cs" 1 None "[]"] b by simp
  moreover have "length r2 \<le> length cs" using grab_backtick_length [of cs "[]"] k by simp
  ultimately show ?case
    using 2(1) 2(2) [OF _ _ _ b [symmetric]] 2(3) [OF _ _ _ _ k [symmetric]] 2(4)
    unfolding in_double.simps(2) b k prod.case by auto
qed simp

text \<open>The state of the walk: the commands, the bodies for a separate pass, the words of the command, the word, and whether there is one.\<close>

record lexer =
  lx_commands :: "string list list"
  lx_nested :: "string list"
  lx_argv :: "string list"
  lx_cur :: string
  lx_has :: bool

definition end_word :: "lexer \<Rightarrow> lexer" where
  "end_word l = (if lx_has l then l\<lparr>lx_argv := lx_argv l @ [lx_cur l], lx_cur := '''', lx_has := False\<rparr> else l)"

definition end_command :: "lexer \<Rightarrow> lexer" where
  "end_command l = (let l1 = end_word l in if lx_argv l1 = [] then l1 else l1\<lparr>lx_commands := lx_commands l1 @ [lx_argv l1], lx_argv := []\<rparr>)"

definition add_text :: "string \<Rightarrow> lexer \<Rightarrow> lexer" where
  "add_text s l = l\<lparr>lx_cur := lx_cur l @ s, lx_has := True\<rparr>"

definition add_nested :: "string \<Rightarrow> lexer \<Rightarrow> lexer" where
  "add_nested s l = l\<lparr>lx_nested := lx_nested l @ [s]\<rparr>"

definition redirect_char :: "char \<Rightarrow> bool" where
  "redirect_char c \<longleftrightarrow> js_ws c \<or> c = CHR ''>'' \<or> c = CHR ''&'' \<or> js_digit c \<or> c = CHR ''-''"

text \<open>One round of the walk: what is left and the state after the character \<open>c\<close>.\<close>

definition lex_char :: "char \<Rightarrow> string \<Rightarrow> lexer \<Rightarrow> string \<times> lexer" where
  "lex_char c cs l =
     (if c = CHR 92 then (drop 1 cs, add_text (take 1 cs) l)
      else if c = CHR 39 then (drop 1 (dropWhile (\<lambda>x. x \<noteq> CHR 39) cs), add_text (takeWhile (\<lambda>x. x \<noteq> CHR 39) cs) l)
      else if c = CHR 34 then
        (case in_double cs (lx_cur l) (lx_nested l) of (r, cur, nested) \<Rightarrow> (r, l\<lparr>lx_cur := cur, lx_nested := nested, lx_has := True\<rparr>))
      else if c = CHR 96 then (case grab_backtick cs [] of (inner, r) \<Rightarrow> (r, add_nested inner l))
      else if c = CHR ''$'' \<and> prefix ''('' cs then (case grab_balanced (drop 1 cs) 1 None [] of (inner, r) \<Rightarrow> (r, add_nested inner l))
      else if c = CHR ''('' then (case grab_balanced cs 1 None [] of (inner, r) \<Rightarrow> (r, add_nested inner l))
      else if c = CHR 10 \<or> c = CHR '';'' then (cs, end_command l)
      else if c = CHR ''&'' then (if prefix ''&'' cs then drop 1 cs else cs, end_command l)
      else if c = CHR ''|'' then (if prefix ''|'' cs then drop 1 cs else cs, end_command l)
      else if c = CHR ''>'' \<or> c = CHR ''<'' then (dropWhile redirect_char cs, end_word l)
      else if js_ws c then (cs, end_word l)
      else (cs, add_text [c] l))"

lemma lex_char_length: "length (fst (lex_char c cs l)) \<le> length cs"
proof -
  obtain r1 cur nested where d: "in_double cs (lx_cur l) (lx_nested l) = (r1, cur, nested)" by (metis prod_cases3)
  obtain i2 r2 where k: "grab_backtick cs [] = (i2, r2)" by fastforce
  obtain i3 r3 where b: "grab_balanced (drop 1 cs) 1 None [] = (i3, r3)" by fastforce
  obtain i4 r4 where p: "grab_balanced cs 1 None [] = (i4, r4)" by fastforce
  have "length r1 \<le> length cs" using in_double_length [of cs "lx_cur l" "lx_nested l"] d by simp
  moreover have "length r2 \<le> length cs" using grab_backtick_length [of cs "[]"] k by simp
  moreover have "length r3 \<le> length cs" using grab_balanced_length [of "drop 1 cs" 1 None "[]"] b by simp
  moreover have "length r4 \<le> length cs" using grab_balanced_length [of cs 1 None "[]"] p by simp
  moreover have "length (drop 1 (dropWhile (\<lambda>x. x \<noteq> CHR 39) cs)) \<le> length cs"
    using length_dropWhile_le [of "\<lambda>x. x \<noteq> CHR 39" cs] by simp
  ultimately show ?thesis
    unfolding lex_char_def d k b p prod.case by (simp add: length_dropWhile_le)
qed

function lex_loop :: "string \<Rightarrow> lexer \<Rightarrow> lexer" where
  "lex_loop [] l = l"
| "lex_loop (c # cs) l = lex_loop (fst (lex_char c cs l)) (snd (lex_char c cs l))"
  by pat_completeness auto
termination
  by (relation "measure (length \<circ> fst)") (simp_all add: lex_char_length le_imp_less_Suc)

definition lex_start :: lexer where
  "lex_start = \<lparr>lx_commands = [], lx_nested = [], lx_argv = [], lx_cur = '''', lx_has = False\<rparr>"

definition lex :: "string \<Rightarrow> string list list \<times> string list" where
  "lex s = (let l = end_command (lex_loop s lex_start) in (lx_commands l, lx_nested l))"

section \<open>The program a command runs\<close>

fun drop_sudo :: "string list \<Rightarrow> string list" where
  "drop_sudo [] = []"
| "drop_sudo (a # as) =
     (if prefix ''-'' a then (if a = ''-u'' \<or> a = ''--user'' then (case as of [] \<Rightarrow> [] | _ # bs \<Rightarrow> drop_sudo bs) else drop_sudo as) else a # as)"

lemma drop_sudo_length: "length (drop_sudo as) \<le> length as"
proof (induction as rule: drop_sudo.induct)
  case (2 a as)
  then show ?case by (cases as) (simp_all add: le_SucI)
qed simp

function effective :: "string list \<Rightarrow> string list" where
  "effective [] = []"
| "effective (w # ws) =
     (if assignment w then effective ws
      else if w = ''sudo'' \<or> w = ''doas'' then effective (drop_sudo ws)
      else if w = ''env'' then effective (dropWhile (\<lambda>a. prefix ''-'' a \<or> assignment a) ws)
      else if w \<in> set WRAPPERS \<or> w \<in> set KEYWORDS then effective ws
      else w # ws)"
  by pat_completeness auto
termination
  by (relation "measure length") (auto simp: drop_sudo_length length_dropWhile_le le_imp_less_Suc)

text \<open>\<open>/^-[a-z]*c$/\<close>.\<close>

definition c_option :: "string \<Rightarrow> bool" where
  "c_option w \<longleftrightarrow> prefix ''-'' w \<and> w \<noteq> ''-'' \<and> last w = CHR ''c'' \<and> list_all (\<lambda>c. 97 \<le> (of_char c :: nat) \<and> (of_char c :: nat) \<le> 122) (tl w)"

definition shellScript :: "string list \<Rightarrow> string option" where
  "shellScript eff =
     (case find_index c_option (drop 1 eff) of
        Some k \<Rightarrow> if k + 2 < length eff \<and> eff ! (k + 2) \<noteq> [] then Some (eff ! (k + 2)) else None
      | None \<Rightarrow> None)"

text \<open>
  \<open>sub\<close>: \<open>$name\<close> and \<open>${name}\<close>, each brace optional on its own. \<open>vars\<close> is the Map that the code changes as it goes.
\<close>

definition var_here :: "string \<Rightarrow> (string \<times> string \<times> string) option" where
  "var_here s =
     (let r0 = drop 1 s; b = prefix ''{'' r0; r1 = (if b then drop 1 r0 else r0) in
      case ident r1 of (n, r2) \<Rightarrow>
        if prefix ''$'' s \<and> n \<noteq> [] then
          (let r3 = (if prefix ''}'' r2 then drop 1 r2 else r2) in Some (n, take (length s - length r3) s, r3))
        else None)"

lemma ident_length: "ident s = (n, r) \<Longrightarrow> length n + length r = length s"
proof -
  have "length (takeWhile ident_char s) + length (dropWhile ident_char s) = length s"
    by (metis length_append takeWhile_dropWhile_id)
  then show "ident s = (n, r) \<Longrightarrow> length n + length r = length s" by (auto simp: ident_def split: if_splits)
qed

lemma var_here_length:
  assumes "var_here s = Some (n, whole, r)"
  shows "length r < length s"
proof -
  define r1 where "r1 = (if prefix ''{'' (drop 1 s) then drop 1 (drop 1 s) else drop 1 s)"
  obtain m r2 where i: "ident r1 = (m, r2)" by fastforce
  have "length r1 \<le> length s" by (simp add: r1_def)
  moreover have "length m + length r2 = length r1" by (rule ident_length [OF i])
  moreover have "m \<noteq> []" "length r \<le> length r2"
    using assms i unfolding var_here_def Let_def r1_def [symmetric] by (auto split: if_splits)
  ultimately show ?thesis by (cases m) auto
qed

function sub_vars :: "(string \<times> string) list \<Rightarrow> string \<Rightarrow> string" where
  "sub_vars vars [] = []"
| "sub_vars vars (c # cs) =
     (case var_here (c # cs) of
        Some (n, whole, r) \<Rightarrow> (case map_of vars n of Some v \<Rightarrow> v | None \<Rightarrow> whole) @ sub_vars vars r
      | None \<Rightarrow> c # sub_vars vars cs)"
  by pat_completeness auto
termination
  by (relation "measure (\<lambda>(vars, s). length s)") (auto dest: var_here_length)

definition set_var :: "string \<Rightarrow> (string \<times> string) list \<Rightarrow> (string \<times> string) list" where
  "set_var w vars = (case ident w of (n, r) \<Rightarrow> AList.update n (sub_vars vars (drop 1 r)) vars)"

definition declare_words :: "string list \<Rightarrow> string list" where
  "declare_words raw = (case raw of w # ws \<Rightarrow> if w \<in> {''export'', ''declare'', ''local'', ''readonly''} then ws else raw | [] \<Rightarrow> [])"

fun expandVars :: "string list list \<Rightarrow> (string \<times> string) list \<Rightarrow> string list list \<times> (string \<times> string) list" where
  "expandVars [] vars = ([], vars)"
| "expandVars (raw # rest) vars =
     (let words = declare_words raw in
      if words \<noteq> [] \<and> list_all assignment words then expandVars rest (fold set_var words vars)
      else (case expandVars rest vars of (out, vars') \<Rightarrow> (map (sub_vars vars) raw # out, vars')))"

section \<open>Quoted text is read back\<close>

text \<open>A word in single quotes, each of its own single quotes written as a quote that closes, an escaped one and one that opens.\<close>

definition quote_char :: "char \<Rightarrow> string" where
  "quote_char c = (if c = CHR 39 then [CHR 39, CHR 92, CHR 39, CHR 39] else [c])"

definition shell_quote :: "string \<Rightarrow> string" where
  "shell_quote w = [CHR 39] @ concat (map quote_char w) @ [CHR 39]"

definition shell_command :: "string list \<Rightarrow> string" where
  "shell_command argv = js_join '' '' (map shell_quote argv)"

definition shell_text :: "string list list \<Rightarrow> string" where
  "shell_text cmds = js_join ''; '' (map shell_command cmds)"

lemma add_text_append [simp]: "add_text v (add_text u l) = add_text (u @ v) l"
  by (simp add: add_text_def)

lemma lex_loop_single: "CHR 39 \<notin> set u \<Longrightarrow> lex_loop (CHR 39 # u @ CHR 39 # s) l = lex_loop s (add_text u l)"
proof -
  assume "CHR 39 \<notin> set u"
  then have "takeWhile (\<lambda>x. x \<noteq> CHR 39) (u @ CHR 39 # s) = u" "dropWhile (\<lambda>x. x \<noteq> CHR 39) (u @ CHR 39 # s) = CHR 39 # s"
    by (induction u) auto
  then show ?thesis by (simp add: lex_char_def)
qed

lemma lex_loop_escaped: "lex_loop (CHR 92 # c # s) l = lex_loop s (add_text [c] l)"
  by (simp add: lex_char_def)

lemma quote_plain: "CHR 39 \<notin> set u \<Longrightarrow> concat (map quote_char u) = u"
  by (induction u) (auto simp: quote_char_def)

lemma lex_loop_quote: "lex_loop (shell_quote w @ s) l = lex_loop s (add_text w l)"
proof (induction w arbitrary: l rule: length_induct)
  case (1 w)
  show ?case
  proof (cases "CHR 39 \<in> set w")
    case False
    then show ?thesis using lex_loop_single [of w s l] by (simp add: shell_quote_def quote_plain)
  next
    case True
    then obtain u v where w: "w = u @ CHR 39 # v" "CHR 39 \<notin> set u" by (metis split_list_first)
    have "shell_quote w @ s = CHR 39 # u @ CHR 39 # CHR 92 # CHR 39 # (shell_quote v @ s)"
      using w by (simp add: shell_quote_def quote_plain quote_char_def)
    then have "lex_loop (shell_quote w @ s) l = lex_loop (shell_quote v @ s) (add_text (u @ [CHR 39]) l)"
      using lex_loop_single [OF w(2)] lex_loop_escaped by simp
    also have "\<dots> = lex_loop s (add_text v (add_text (u @ [CHR 39]) l))" using 1 w by simp
    finally show ?thesis using w by simp
  qed
qed

lemma lex_loop_command:
  assumes "argv \<noteq> []" and "lx_cur l = ''''" and "\<not> lx_has l"
  shows "lex_loop (shell_command argv @ s) l = lex_loop s (l\<lparr>lx_argv := lx_argv l @ butlast argv, lx_cur := last argv, lx_has := True\<rparr>)"
  using assms
proof (induction argv arbitrary: l)
  case (Cons w ws)
  show ?case
  proof (cases ws)
    case Nil
    then show ?thesis using Cons.prems by (simp add: shell_command_def lex_loop_quote add_text_def)
  next
    case (Cons v vs)
    let ?l = "l\<lparr>lx_argv := lx_argv l @ [w]\<rparr>"
    have "shell_command (w # ws) @ s = shell_quote w @ CHR '' '' # (shell_command ws @ s)"
      using Cons by (simp add: shell_command_def)
    then have "lex_loop (shell_command (w # ws) @ s) l = lex_loop (CHR '' '' # (shell_command ws @ s)) (add_text w l)"
      by (simp only: lex_loop_quote)
    also have "\<dots> = lex_loop (shell_command ws @ s) ?l"
      using Cons.prems by (cases l) (simp add: lex_char_def js_ws_def end_word_def add_text_def)
    also have "\<dots> = lex_loop s (?l\<lparr>lx_argv := lx_argv ?l @ butlast ws, lx_cur := last ws, lx_has := True\<rparr>)"
      using Cons.prems Cons by (intro Cons.IH) simp_all
    finally show ?thesis using Cons by simp
  qed
qed simp

lemma end_command_full:
  "argv \<noteq> [] \<Longrightarrow> lx_argv l = [] \<Longrightarrow> lx_cur l = '''' \<Longrightarrow> \<not> lx_has l \<Longrightarrow>
   end_command (l\<lparr>lx_argv := lx_argv l @ butlast argv, lx_cur := last argv, lx_has := True\<rparr>) = l\<lparr>lx_commands := lx_commands l @ [argv]\<rparr>"
  by (cases l) (simp add: end_command_def end_word_def)

lemma lex_loop_text:
  assumes "cmds \<noteq> []" and "\<forall>argv \<in> set cmds. argv \<noteq> []" and "lx_argv l = []" "lx_cur l = ''''" "\<not> lx_has l"
  shows "end_command (lex_loop (shell_text cmds) l) = l\<lparr>lx_commands := lx_commands l @ cmds\<rparr>"
  using assms
proof (induction cmds arbitrary: l)
  case (Cons argv cmds)
  let ?l = "l\<lparr>lx_commands := lx_commands l @ [argv]\<rparr>"
  have full: "end_command (l\<lparr>lx_argv := lx_argv l @ butlast argv, lx_cur := last argv, lx_has := True\<rparr>) = ?l"
    using Cons.prems by (intro end_command_full) auto
  show ?case
  proof (cases cmds)
    case Nil
    then show ?thesis using Cons.prems lex_loop_command [of argv l "[]"] full by (simp add: shell_text_def)
  next
    case (Cons a as)
    have "shell_text (argv # cmds) = shell_command argv @ CHR '';'' # CHR '' '' # shell_text cmds"
      using Cons by (simp add: shell_text_def)
    moreover have "argv \<noteq> []" using Cons.prems(2) by simp
    ultimately have "lex_loop (shell_text (argv # cmds)) l =
        lex_loop (CHR '';'' # CHR '' '' # shell_text cmds) (l\<lparr>lx_argv := lx_argv l @ butlast argv, lx_cur := last argv, lx_has := True\<rparr>)"
      using lex_loop_command [OF _ Cons.prems(4,5)] by simp
    also have "\<dots> = lex_loop (shell_text cmds) ?l"
      using Cons.prems(3-5) full by (simp add: lex_char_def js_ws_def end_word_def)
    finally show ?thesis using Cons.prems Cons Cons.IH [of ?l] by simp
  qed
qed simp

text \<open>
  The guards' reader of shell text: whatever words a script consists of, quotes, blanks, newlines and operators included, when each is written in single
  quotes as a shell needs it, the reader gives back exactly those commands with exactly those words and finds no body to read on its own.
\<close>
theorem lex_quoted:
  assumes "\<forall>argv \<in> set cmds. argv \<noteq> []"
  shows "lex (shell_text cmds) = (cmds, [])"
proof (cases "cmds = []")
  case True
  then show ?thesis by (simp add: lex_def shell_text_def lex_start_def end_command_def end_word_def)
next
  case False
  with lex_loop_text [OF False assms, of lex_start] show ?thesis by (simp add: lex_def lex_start_def)
qed

theorem lex_quoted_witness:
  "lex (shell_text [[''echo'', ''a'' @ [CHR 39] @ ''b; c''], [''ls'']]) = ([[''echo'', ''a'' @ [CHR 39] @ ''b; c''], [''ls'']], [])"
  by (rule lex_quoted) simp

text \<open>What the reader takes for words of its own: a substitution inside double quotes and a subshell are collected for a pass of their own.\<close>

lemma lex_substitution: "lex ''echo $(ls); (pwd)'' = ([[''echo'']], [''ls'', ''pwd''])"
  by code_simp

lemma effective_idem: "effective (effective argv) = effective argv"
  by (induction argv rule: effective.induct) auto

end
