(* ===== verification/Guards.thy ===== *)
theory Guards
  imports Shell
begin

text \<open>
  What the command guards of \<open>packages/sieun-rules\<close> share: the verdict, the name of the program a command runs, the command of an \<open>ssh\<close>,
  and the shape of their recursion. A guard reads a text, refuses some of its commands, and reads in turn the texts that the commands hand
  on (a substitution, a subshell, the script of a shell, the command of an \<open>ssh\<close>), down to a fixed depth. \<open>command_guard\<close> is that contract; under
  it the refused commands are exactly those of the texts that are handed on within the depth.
\<close>

section \<open>Verdicts and programs\<close>

record Verdict =
  vd_rule :: string
  vd_command :: string
  vd_reason :: string

text \<open>\<open>basename\<close> of \<open>node:path\<close> on a POSIX path.\<close>

definition js_basename :: "string \<Rightarrow> string" where
  "js_basename s = rev (takeWhile (\<lambda>c. c \<noteq> CHR ''/'') (dropWhile (\<lambda>c. c = CHR ''/'') (rev s)))"

text \<open>\<open>basename(eff[0] ?? "")\<close>.\<close>

definition program :: "string list \<Rightarrow> string" where
  "program eff = (case eff of [] \<Rightarrow> '''' | w # _ \<Rightarrow> js_basename w)"

definition words :: "string list \<Rightarrow> string" where
  "words ws = js_join '' '' ws"

definition dashed :: "string \<Rightarrow> bool" where
  "dashed w = prefix ''-'' w"

definition SSH_VALUE :: "string list" where
  "SSH_VALUE = map (\<lambda>c. [CHR ''-'', c]) ''bcDEeFIiJLlmOoPpQRSWwB''"

text \<open>The loop over leading options, those in \<open>valued\<close> taking the next word too.\<close>

fun skip_options :: "(string \<Rightarrow> bool) \<Rightarrow> string list \<Rightarrow> string list" where
  "skip_options valued [] = []"
| "skip_options valued (a # as) =
     (if dashed a then (if valued a then (case as of [] \<Rightarrow> [] | _ # bs \<Rightarrow> skip_options valued bs) else skip_options valued as) else a # as)"

definition ssh_remote :: "string list \<Rightarrow> string" where
  "ssh_remote args = words (drop 1 (skip_options (\<lambda>a. a \<in> set SSH_VALUE) args))"

text \<open>\<open>/\b(?:w1|w2)\b/\<close> for words of letters; \<open>inside\<close> says whether the character before is one of a word.\<close>

fun word_search :: "string list \<Rightarrow> bool \<Rightarrow> string \<Rightarrow> bool" where
  "word_search pats inside [] = False"
| "word_search pats inside (c # cs) =
     (\<not> inside \<and> list_ex (\<lambda>p. prefix p (c # cs) \<and> (case drop (length p) (c # cs) of [] \<Rightarrow> True | d # _ \<Rightarrow> \<not> ident_char d)) pats
      \<or> word_search pats (ident_char c) cs)"

section \<open>A walk over commands with a state\<close>

text \<open>The loop \<open>for (const raw of commands)\<close>, where each command may add verdicts and change the variables of the loop.\<close>

fun over_commands :: "('c \<Rightarrow> 'r \<Rightarrow> 'v list \<times> 'c) \<Rightarrow> 'c \<Rightarrow> 'r list \<Rightarrow> 'v list \<times> 'c" where
  "over_commands f c [] = ([], c)"
| "over_commands f c (r # rs) = (case f c r of (vs, c1) \<Rightarrow> case over_commands f c1 rs of (ws, c2) \<Rightarrow> (vs @ ws, c2))"

lemma over_commands_state: "snd (over_commands f c rs) = fold (\<lambda>r c. snd (f c r)) rs c"
  by (induction rs arbitrary: c) (simp_all add: split_def)

lemma over_commands_mem:
  "v \<in> set (fst (over_commands f c rs)) \<longleftrightarrow>
     (\<exists>pre r post. rs = pre @ r # post \<and> v \<in> set (fst (f (fold (\<lambda>r c. snd (f c r)) pre c) r)))"
proof (induction rs arbitrary: c)
  case (Cons a rs)
  have "v \<in> set (fst (over_commands f c (a # rs))) \<longleftrightarrow>
      v \<in> set (fst (f c a)) \<or> (\<exists>pre r post. rs = pre @ r # post \<and> v \<in> set (fst (f (fold (\<lambda>r c. snd (f c r)) pre (snd (f c a))) r)))"
    by (simp add: split_def Cons.IH)
  also have "\<dots> \<longleftrightarrow> (\<exists>pre r post. a # rs = pre @ r # post \<and> v \<in> set (fst (f (fold (\<lambda>r c. snd (f c r)) pre c) r)))" (is "?l \<longleftrightarrow> ?r")
  proof
    assume ?l
    then show ?r
    proof
      assume "v \<in> set (fst (f c a))"
      then have "a # rs = [] @ a # rs \<and> v \<in> set (fst (f (fold (\<lambda>r c. snd (f c r)) [] c) a))" by simp
      then show ?r by blast
    next
      assume "\<exists>pre r post. rs = pre @ r # post \<and> v \<in> set (fst (f (fold (\<lambda>r c. snd (f c r)) pre (snd (f c a))) r))"
      then obtain pre r post where "rs = pre @ r # post" "v \<in> set (fst (f (fold (\<lambda>r c. snd (f c r)) pre (snd (f c a))) r))" by blast
      then have "a # rs = (a # pre) @ r # post \<and> v \<in> set (fst (f (fold (\<lambda>r c. snd (f c r)) (a # pre) c) r))" by simp
      then show ?r by blast
    qed
  next
    assume ?r
    then obtain pre r post where p: "a # rs = pre @ r # post" "v \<in> set (fst (f (fold (\<lambda>r c. snd (f c r)) pre c) r))" by blast
    then show ?l by (cases pre) auto
  qed
  finally show ?case .
qed simp

section \<open>The contract of a guard\<close>

text \<open>
  \<open>judge n s\<close> are the verdicts on a text and its surroundings \<open>s\<close> with \<open>n\<close> levels left, \<open>opens s s'\<close> says that a command or a body of \<open>s\<close> hands
  \<open>s'\<close> on, and \<open>refused s cmd\<close> that a command of \<open>s\<close> itself is refused, \<open>cmd\<close> being its words.
\<close>

locale command_guard =
  fixes judge :: "nat \<Rightarrow> 's \<Rightarrow> Verdict list" and opens :: "'s \<Rightarrow> 's \<Rightarrow> bool" and refused :: "'s \<Rightarrow> string \<Rightarrow> bool"
  assumes no_level: "judge 0 s = []"
    and hit: "refused s cmd \<Longrightarrow> \<exists>v \<in> set (judge (Suc n) s). vd_command v = cmd"
    and deeper: "opens s s' \<Longrightarrow> set (judge n s') \<subseteq> set (judge (Suc n) s)"
    and only: "v \<in> set (judge (Suc n) s) \<Longrightarrow> refused s (vd_command v) \<or> (\<exists>s'. opens s s' \<and> v \<in> set (judge n s'))"
begin

lemma refused_found:
  assumes "(opens ^^ k) s s'" and "k < n" and "refused s' cmd"
  shows "\<exists>v \<in> set (judge n s). vd_command v = cmd"
  using assms
proof (induction k arbitrary: s n)
  case 0
  then show ?case using hit by (cases n) auto
next
  case (Suc k)
  from Suc.prems(1) obtain t where t: "opens s t" "(opens ^^ k) t s'" by (rule relpowp_Suc_E2)
  from Suc.prems(2) obtain m where m: "n = Suc m" "k < m" by (cases n) auto
  from Suc.IH [OF t(2) m(2) Suc.prems(3)] deeper [OF t(1), of m] m(1) show ?case by blast
qed

lemma verdict_refused:
  assumes "v \<in> set (judge n s)"
  shows "\<exists>k < n. \<exists>s'. (opens ^^ k) s s' \<and> refused s' (vd_command v)"
  using assms
proof (induction n arbitrary: s)
  case 0
  then show ?case by (simp add: no_level)
next
  case (Suc n)
  from only [OF Suc.prems] show ?case
  proof
    assume "refused s (vd_command v)"
    then show ?case by (intro exI [of _ 0]) auto
  next
    assume "\<exists>s'. opens s s' \<and> v \<in> set (judge n s')"
    then obtain t where t: "opens s t" "v \<in> set (judge n t)" by blast
    from Suc.IH [OF t(2)] obtain k s' where k: "k < n" "(opens ^^ k) t s'" "refused s' (vd_command v)" by blast
    from relpowp_Suc_I2 [OF t(1) k(2)] k show ?case by (intro exI [of _ "Suc k"]) auto
  qed
qed

lemma refused_commands:
  "vd_command ` set (judge n s) = {cmd. \<exists>k < n. \<exists>s'. (opens ^^ k) s s' \<and> refused s' cmd}"
  using refused_found verdict_refused by (force simp: image_iff)

lemma judge_empty: "judge n s = [] \<longleftrightarrow> (\<forall>k < n. \<forall>s' cmd. (opens ^^ k) s s' \<longrightarrow> \<not> refused s' cmd)"
proof -
  have "judge n s = [] \<longleftrightarrow> vd_command ` set (judge n s) = {}" by simp
  then show ?thesis unfolding refused_commands by blast
qed

end

end
