(* ===== verification/KillGuard.thy ===== *)
theory KillGuard
  imports Guards
begin

text \<open>
  The kill guard (\<open>packages/sieun-rules/src/kill.ts\<close>): which commands kill by pattern. The source's depth 0 to 6 is seven levels here. The theorems
  say exactly which commands are refused, and that a kill of literal pids passes.
\<close>

section \<open>Names and targets\<close>

definition KILL_PREFIX :: string where
  "KILL_PREFIX = ''global-rules kill guard:''"

definition KILL_TAIL :: string where
  "KILL_TAIL =
     ''Stop only a process you started: call `h.kill()` on its bash() handle, or `kill <pid>` (or `kill -- -<pgid>` for a group you '' @
     ''started) with the pid you kept from `$!`, `h.pid` or a pid file; use pgrep or ps only to look. On 10-29 at 04:24 KST '' @
     ''`pkill -f 'svelte-check' -U $(id -u)` on the owner's Mac killed every process with 501 in its argv, a Prime worker's 43 sessions '' @
     ''included. This is a hard limit, because a stray kill is destructive to shared state (c98).''"

definition KILLERS :: "string list" where
  "KILLERS = [''kill'', ''pkill'', ''killall'']"

definition SOURCES :: "string list" where
  "SOURCES = [''pgrep'', ''pidof'', ''ps'']"

definition HINT :: "string \<Rightarrow> bool" where
  "HINT s = word_search [''pkill'', ''killall'', ''kill''] False s"

text \<open>\<open>programs\<close>: depth 0 to 4 is five levels.\<close>

primrec programs :: "nat \<Rightarrow> string \<Rightarrow> string list" where
  "programs 0 s = []"
| "programs (Suc n) s =
     (case lex s of (commands, nested) \<Rightarrow>
        js_uniq (map (\<lambda>argv. program (effective argv)) commands @ concat (map (programs n) nested)))"

text \<open>\<open>/^-(?:[A-Za-z]+\d*|\d+)$/\<close>.\<close>

definition letter :: "char \<Rightarrow> bool" where
  "letter c \<longleftrightarrow> ident_start c \<and> c \<noteq> CHR ''_''"

definition sig_option :: "string \<Rightarrow> bool" where
  "sig_option w \<longleftrightarrow> dashed w \<and> tl w \<noteq> [] \<and> list_all js_digit (dropWhile letter (tl w))"

definition targets :: "string list \<Rightarrow> string list" where
  "targets args =
     (let rest = (case args of
          a # _ \<Rightarrow> if a = ''-s'' \<or> a = ''-n'' then drop 2 args else if sig_option a then drop 1 args else args
        | [] \<Rightarrow> [])
      in case rest of b # bs \<Rightarrow> if b = ''--'' then bs else rest | [] \<Rightarrow> [])"

text \<open>The variable a pid word names: \<open>/^-?\$\{?(\w+)\}?$/\<close>.\<close>

definition pid_var :: "string \<Rightarrow> string option" where
  "pid_var p =
     (let r1 = (if prefix ''-'' p then tl p else p);
          r2 = tl r1;
          r3 = (if prefix ''{'' r2 then tl r2 else r2);
          n = takeWhile ident_char r3
      in if prefix ''$'' r1 \<and> n \<noteq> [] \<and> (dropWhile ident_char r3 = [] \<or> dropWhile ident_char r3 = ''}'') then Some n else None)"

section \<open>The verdicts on one command\<close>

text \<open>The names a command feeds: \<open>for x in\<close> with nothing literal after it, \<open>x=\<close> before a substitution, and \<open>read x\<close>.\<close>

definition feeds :: "string list \<Rightarrow> string list" where
  "feeds raw =
     (let eff = effective raw in
      (if length raw = 3 \<and> raw ! 0 = ''for'' \<and> raw ! 2 = ''in'' then [raw ! 1] else []) @
      map (fst \<circ> ident) (filter (\<lambda>w. fst (ident w) \<noteq> [] \<and> snd (ident w) = ''='') raw) @
      (if program eff = ''read'' then filter (\<lambda>a. \<not> dashed a) (drop 1 eff) else []))"

definition kill_verdict :: "string list \<Rightarrow> string \<Rightarrow> Verdict" where
  "kill_verdict eff what =
     \<lparr>vd_rule = ''kill'', vd_command = words eff,
      vd_reason = KILL_PREFIX @ '' `'' @ take 300 (words eff) @ ''` '' @ what @ ''. '' @ KILL_TAIL\<rparr>"

text \<open>One round of the loop: \<open>sub\<close> judges a text one level down, \<open>fed\<close> are the names fed by the commands before.\<close>

definition judge_kill_command :: "(string \<Rightarrow> Verdict list) \<Rightarrow> string list \<Rightarrow> string list \<Rightarrow> string list \<Rightarrow> Verdict list \<times> string list" where
  "judge_kill_command sub sources fed0 raw =
     (let eff = effective raw; name = program eff; args = drop 1 eff; fed = fed0 @ feeds raw in
      (if name = ''pkill'' \<or> name = ''killall'' then
         [kill_verdict eff (''kills every process whose '' @ (if name = ''killall'' then ''name'' else ''name or command line'') @
            '' matches, in every session on the box'')]
       else if name = ''kill'' then
         (let pids = targets args in
          if ''-1'' \<in> set pids then [kill_verdict eff ''signals every process you may signal (pid -1)'']
          else if sources \<noteq> [] \<and> (pids = [] \<or> list_ex (\<lambda>p. case pid_var p of Some n \<Rightarrow> n \<in> set fed | None \<Rightarrow> False) pids)
          then [kill_verdict eff (''kills the pids '' @ js_join '' or '' sources @ '' found by pattern'')] else [])
       else if name = ''xargs'' then
         (case List.find (\<lambda>a. js_basename a \<in> set KILLERS) args of
            Some killer \<Rightarrow> if js_basename killer \<noteq> ''kill'' \<or> sources \<noteq> []
              then [kill_verdict eff (''kills the pids '' @ (if sources = [] then ''a pattern'' else js_join '' or '' sources) @ '' found'')] else []
          | None \<Rightarrow> [])
       else if name = ''timeout'' \<or> name = ''watch'' then
         (let rest = filter (\<lambda>a. \<not> dashed a) args in
          if length rest > 1 then sub (words (if name = ''timeout'' then drop 1 rest else rest)) else [])
       else if name = ''ssh'' then (let remote = ssh_remote args in if remote = [] then [] else sub remote)
       else if name \<in> set SHELLS then (case shellScript eff of Some script \<Rightarrow> sub script | None \<Rightarrow> [])
       else [], fed))"

primrec judge_kill :: "nat \<Rightarrow> string \<Rightarrow> Verdict list" where
  "judge_kill 0 s = []"
| "judge_kill (Suc n) s =
     (let clean = stripHeredocs s in
      case lex clean of (commands, nested) \<Rightarrow>
        (let sources = filter (\<lambda>name. name \<in> set SOURCES) (programs 5 clean) in
         fst (over_commands (judge_kill_command (judge_kill n) sources) [] commands) @ concat (map (judge_kill n) nested)))"

definition judgeKill :: "string \<Rightarrow> Verdict list" where
  "judgeKill s = (if HINT s then judge_kill 7 s else [])"

section \<open>What is refused\<close>

definition pid_sources :: "string \<Rightarrow> string list" where
  "pid_sources s = filter (\<lambda>name. name \<in> set SOURCES) (programs 5 (stripHeredocs s))"

text \<open>A kill by pattern, where \<open>pids\<close> says that the text lists processes by pattern and \<open>fed\<close> holds the names of variables that may carry their pids.\<close>

definition kills_by_pattern :: "bool \<Rightarrow> string set \<Rightarrow> string list \<Rightarrow> bool" where
  "kills_by_pattern pids fed eff \<longleftrightarrow>
     program eff \<in> {''pkill'', ''killall''} \<or>
     program eff = ''kill'' \<and>
       (''-1'' \<in> set (targets (tl eff)) \<or>
        pids \<and> (targets (tl eff) = [] \<or> (\<exists>p \<in> set (targets (tl eff)). \<exists>n \<in> fed. pid_var p = Some n))) \<or>
     program eff = ''xargs'' \<and>
       (\<exists>a as. filter (\<lambda>w. js_basename w \<in> set KILLERS) (tl eff) = a # as \<and> (js_basename a \<noteq> ''kill'' \<or> pids))"

definition kill_refused :: "string \<Rightarrow> string \<Rightarrow> bool" where
  "kill_refused s cmd \<longleftrightarrow>
     (\<exists>pre raw post. fst (lex (stripHeredocs s)) = pre @ raw # post \<and> cmd = words (effective raw) \<and>
        kills_by_pattern (pid_sources s \<noteq> []) (set (concat (map feeds (pre @ [raw])))) (effective raw))"

text \<open>The text a command runs, as far as the guard follows it.\<close>

definition hands_on :: "string list \<Rightarrow> string option" where
  "hands_on eff =
     (let rest = filter (\<lambda>a. \<not> dashed a) (tl eff) in
      if program eff = ''timeout'' \<and> length rest > 1 then Some (words (tl rest))
      else if program eff = ''watch'' \<and> length rest > 1 then Some (words rest)
      else if program eff = ''ssh'' \<and> ssh_remote (tl eff) \<noteq> [] then Some (ssh_remote (tl eff))
      else if program eff \<in> set SHELLS then shellScript eff else None)"

definition kill_opens :: "string \<Rightarrow> string \<Rightarrow> bool" where
  "kill_opens s s' \<longleftrightarrow>
     s' \<in> set (snd (lex (stripHeredocs s))) \<or> (\<exists>raw \<in> set (fst (lex (stripHeredocs s))). hands_on (effective raw) = Some s')"

lemma find_filter: "List.find P xs = (case filter P xs of [] \<Rightarrow> None | a # _ \<Rightarrow> Some a)"
  by (induction xs) simp_all

lemma kill_state: "fold (\<lambda>r c. snd (judge_kill_command sub sources c r)) pre fed = fed @ concat (map feeds pre)"
  by (induction pre arbitrary: fed) (simp_all add: judge_kill_command_def Let_def)

lemma command_refused:
  assumes "kills_by_pattern (sources \<noteq> []) (set (fed @ feeds raw)) (effective raw)"
  shows "\<exists>v. fst (judge_kill_command sub sources fed raw) = [v] \<and> vd_command v = words (effective raw)"
proof -
  define eff where "eff = effective raw"
  define fd where "fd = fed @ feeds raw"
  have kp: "kills_by_pattern (sources \<noteq> []) (set fd) eff" using assms by (simp add: eff_def fd_def)
  consider (p) "program eff \<in> {''pkill'', ''killall''}" | (k) "program eff = ''kill''" | (x) "program eff = ''xargs''"
    using kp unfolding kills_by_pattern_def by blast
  then show ?thesis
  proof cases
    case p
    then show ?thesis by (simp add: judge_kill_command_def Let_def eff_def kill_verdict_def)
  next
    case k
    show ?thesis
    proof (cases "''-1'' \<in> set (targets (tl eff))")
      case True
      then show ?thesis using k by (simp add: judge_kill_command_def Let_def eff_def drop_Suc kill_verdict_def)
    next
      case False
      with k kp have s: "sources \<noteq> []" and t: "targets (tl eff) = [] \<or> (\<exists>p \<in> set (targets (tl eff)). \<exists>n \<in> set fd. pid_var p = Some n)"
        by (simp_all add: kills_by_pattern_def)
      have "targets (tl eff) = [] \<or> list_ex (\<lambda>p. case pid_var p of Some n \<Rightarrow> n \<in> set fd | None \<Rightarrow> False) (targets (tl eff))"
        using t by (force simp: list_ex_iff)
      then show ?thesis using k s False unfolding judge_kill_command_def Let_def fd_def eff_def by (simp add: drop_Suc kill_verdict_def)
    qed
  next
    case x
    with kp obtain a as where "filter (\<lambda>w. js_basename w \<in> set KILLERS) (tl eff) = a # as" "js_basename a \<noteq> ''kill'' \<or> sources \<noteq> []"
      by (auto simp: kills_by_pattern_def)
    then show ?thesis using x unfolding judge_kill_command_def Let_def eff_def by (simp add: drop_Suc find_filter kill_verdict_def)
  qed
qed

lemma command_verdict:
  assumes "v \<in> set (fst (judge_kill_command sub sources fed raw))"
  shows "vd_command v = words (effective raw) \<and> kills_by_pattern (sources \<noteq> []) (set (fed @ feeds raw)) (effective raw) \<or>
    (\<exists>s'. hands_on (effective raw) = Some s' \<and> v \<in> set (sub s'))"
proof -
  define eff where "eff = effective raw"
  define fd where "fd = fed @ feeds raw"
  note body = assms [unfolded judge_kill_command_def Let_def fst_conv, folded eff_def, folded fd_def]
  consider (p) "program eff = ''pkill'' \<or> program eff = ''killall''" | (k) "program eff = ''kill''" | (x) "program eff = ''xargs''"
    | (t) "program eff = ''timeout'' \<or> program eff = ''watch''" | (s) "program eff = ''ssh''"
    | (h) "program eff \<noteq> ''pkill''" "program eff \<noteq> ''killall''" "program eff \<noteq> ''kill''" "program eff \<noteq> ''xargs''"
      "program eff \<noteq> ''timeout''" "program eff \<noteq> ''watch''" "program eff \<noteq> ''ssh''"
    by blast
  then have "vd_command v = words eff \<and> kills_by_pattern (sources \<noteq> []) (set fd) eff \<or> (\<exists>s'. hands_on eff = Some s' \<and> v \<in> set (sub s'))"
  proof cases
    case p
    then show ?thesis using body by (auto simp: kill_verdict_def kills_by_pattern_def)
  next
    case k
    then show ?thesis using body
      by (auto simp: kill_verdict_def kills_by_pattern_def drop_Suc list_ex_iff split: if_splits option.splits)
  next
    case x
    then show ?thesis using body
      by (auto simp: kill_verdict_def kills_by_pattern_def drop_Suc find_filter split: if_splits list.splits)
  next
    case t
    then show ?thesis using body by (auto simp: hands_on_def Let_def drop_Suc split: if_splits)
  next
    case s
    then show ?thesis using body by (auto simp: hands_on_def Let_def drop_Suc split: if_splits)
  next
    case h
    have "v \<in> set (if program eff \<in> set SHELLS then (case shellScript eff of Some script \<Rightarrow> sub script | None \<Rightarrow> []) else [])"
      using body by (simp only: h simp_thms if_False)
    moreover have "hands_on eff = (if program eff \<in> set SHELLS then shellScript eff else None)" by (simp only: hands_on_def Let_def h simp_thms if_False)
    ultimately have "\<exists>s'. hands_on eff = Some s' \<and> v \<in> set (sub s')"
      by (cases "program eff \<in> set SHELLS"; cases "shellScript eff") simp_all
    then show ?thesis ..
  qed
  then show ?thesis by (simp add: eff_def fd_def)
qed

lemma command_hands_on:
  assumes "hands_on (effective raw) = Some s'"
  shows "fst (judge_kill_command sub sources fed raw) = sub s'"
proof -
  define eff where "eff = effective raw"
  note h = assms [folded eff_def, unfolded hands_on_def Let_def]
  have "program eff \<notin> {''pkill'', ''killall'', ''kill'', ''xargs''}" using h by (auto simp: SHELLS_def)
  then show ?thesis
    using h unfolding judge_kill_command_def Let_def fst_conv eff_def [symmetric]
    by (auto simp: drop_Suc SHELLS_def split: if_splits)
qed

lemma judge_kill_mem:
  "v \<in> set (judge_kill (Suc n) s) \<longleftrightarrow>
     (\<exists>pre raw post. fst (lex (stripHeredocs s)) = pre @ raw # post \<and>
        v \<in> set (fst (judge_kill_command (judge_kill n) (pid_sources s) (concat (map feeds pre)) raw))) \<or>
     (\<exists>s' \<in> set (snd (lex (stripHeredocs s))). v \<in> set (judge_kill n s'))"
  by (simp add: Let_def split_def over_commands_mem kill_state pid_sources_def)

interpretation kg: command_guard judge_kill kill_opens kill_refused
proof
  fix s cmd n
  assume "kill_refused s cmd"
  then obtain pre raw post where r: "fst (lex (stripHeredocs s)) = pre @ raw # post" "cmd = words (effective raw)"
    and k: "kills_by_pattern (pid_sources s \<noteq> []) (set (concat (map feeds pre) @ feeds raw)) (effective raw)"
    unfolding kill_refused_def by auto
  from command_refused [OF k, of "judge_kill n"] r show "\<exists>v \<in> set (judge_kill (Suc n) s). vd_command v = cmd"
    unfolding Bex_def judge_kill_mem by fastforce
next
  fix s s' n
  assume o: "kill_opens s s'"
  show "set (judge_kill n s') \<subseteq> set (judge_kill (Suc n) s)"
  proof
    fix v
    assume v: "v \<in> set (judge_kill n s')"
    from o consider "s' \<in> set (snd (lex (stripHeredocs s)))"
      | raw where "raw \<in> set (fst (lex (stripHeredocs s)))" "hands_on (effective raw) = Some s'"
      unfolding kill_opens_def by blast
    then show "v \<in> set (judge_kill (Suc n) s)"
    proof cases
      case 1
      with v show ?thesis unfolding judge_kill_mem by blast
    next
      case (2 raw)
      then obtain pre post where "fst (lex (stripHeredocs s)) = pre @ raw # post" by (metis split_list)
      with v command_hands_on [OF 2(2)] show ?thesis unfolding judge_kill_mem by metis
    qed
  qed
next
  fix v n s
  assume "v \<in> set (judge_kill (Suc n) s)"
  then consider pre raw post where "fst (lex (stripHeredocs s)) = pre @ raw # post"
      "v \<in> set (fst (judge_kill_command (judge_kill n) (pid_sources s) (concat (map feeds pre)) raw))"
    | s' where "s' \<in> set (snd (lex (stripHeredocs s)))" "v \<in> set (judge_kill n s')"
    unfolding judge_kill_mem by blast
  then show "kill_refused s (vd_command v) \<or> (\<exists>s'. kill_opens s s' \<and> v \<in> set (judge_kill n s'))"
  proof cases
    case (1 pre raw post)
    from command_verdict [OF 1(2)] show ?thesis
    proof
      assume "vd_command v = words (effective raw) \<and>
        kills_by_pattern (pid_sources s \<noteq> []) (set (concat (map feeds pre) @ feeds raw)) (effective raw)"
      then have "kill_refused s (vd_command v)" using 1(1) unfolding kill_refused_def
        by (intro exI [of _ pre] exI [of _ raw] exI [of _ post]) simp
      then show ?thesis ..
    next
      assume "\<exists>s'. hands_on (effective raw) = Some s' \<and> v \<in> set (judge_kill n s')"
      moreover have "raw \<in> set (fst (lex (stripHeredocs s)))" using 1(1) by simp
      ultimately show ?thesis unfolding kill_opens_def by blast
    qed
  next
    case (2 s')
    then show ?thesis unfolding kill_opens_def by blast
  qed
qed simp

text \<open>
  The kill guard: the commands it refuses are exactly those that kill by pattern in the text or in a text handed on at most six times from it (by a
  substitution, a subshell, the script of a shell, \<open>timeout\<close>, \<open>watch\<close> or \<open>ssh\<close>): every \<open>pkill\<close> and \<open>killall\<close>, a \<open>kill\<close> of pid -1, and a \<open>kill\<close> or
  an \<open>xargs kill\<close> whose pids \<open>pgrep\<close>, \<open>pidof\<close> or \<open>ps\<close> found; a text that never says \<open>kill\<close>, \<open>pkill\<close> or \<open>killall\<close> as a word passes unread.
\<close>
theorem judgeKill_exact:
  "vd_command ` set (judgeKill s) =
     (if HINT s then {cmd. \<exists>k \<le> 6. \<exists>s'. (kill_opens ^^ k) s s' \<and> kill_refused s' cmd} else {})"
  using kg.refused_commands [of 7 s] by (simp add: judgeKill_def less_Suc_eq_le eval_nat_numeral)

text \<open>Commands of the source's own comment, and a kill of a pid the caller kept.\<close>

lemma judgeKill_examples:
  "map vd_command (judgeKill ''pgrep node | xargs kill -9'') = [''xargs kill -9'']"
  "map vd_command (judgeKill ''ssh -p 22 mac (pkill -f x)'') = [''pkill -f x'']"
  "map vd_command (judgeKill ''p=$(pgrep node); kill $p'') = [''kill $p'']"
  "judgeKill ''kill -9 4242'' = []"
  by code_simp+

text \<open>
  What a shell runs and the guard does not see. \<open>watch\<close> with its command in one word is skipped by the test that suits \<open>timeout\<close>, and the value of an
  option of \<open>timeout\<close> is taken for its duration. A quoted \<open><<EOF\<close> and a here-string count as a here-document, so the lines after them are dropped.
\<close>

lemma watch_quoted_passes: "judgeKill (''watch '' @ shell_quote ''pkill -f x'') = []"
  by code_simp

lemma timeout_signal_passes: "judgeKill ''timeout -s KILL 5 pkill -f x'' = []"
  by code_simp

lemma quoted_heredoc_passes: "judgeKill (''echo '' @ shell_quote ''<<EOF'' @ [CHR 10] @ ''pkill -f x'') = []"
  by code_simp

lemma here_string_passes: "judgeKill (''cat <<<EOF'' @ [CHR 10] @ ''pkill -f x'') = []"
  by code_simp

end
