(* ===== verification/CapsGuard.thy ===== *)
theory CapsGuard
  imports Guards
begin

text \<open>
  The cap guard (\<open>packages/sieun-rules/src/caps.ts\<close>): which commands set a memory, CPU, IO or priority cap. \<open>judgeArgv\<close> and \<open>judge\<close> call each other one
  level down, so the model has one recursion over a task, a script or the words of one program. The theorems say exactly which commands are refused and
  that the options of a \<open>docker run\<close> are read the way docker reads them.
\<close>

section \<open>The tables\<close>

definition CAP_PREFIX :: string where
  "CAP_PREFIX = ''global-rules cap guard:''"

definition CAP_TAIL :: string where
  "CAP_TAIL =
     ''Owner rule c107 keeps every memory, CPU, IO, task and priority cap off a box unless he asked for that one, and on 10-24 a hand-typed '' @
     ''`docker run --cpus 8` made the box parity duty read resource_limits_set 2. Drop the setting and size the run by its worker count instead, '' @
     ''such as `-e JOBS=N` for a container or a test runner's workers option. `heavy <size> -- <cmd>` stays allowed, since the owner asked for it '' @
     ''on 10-19. A cap the owner asks for goes into deploy/linux with his words, as setup-cpu.sh and heavy do.''"

definition DOCKER_CAPS :: "string list" where
  "DOCKER_CAPS =
     [''--cpus'', ''--cpu-quota'', ''--cpu-period'', ''--cpu-shares'', ''-c'', ''--cpu-rt-runtime'', ''--cpu-rt-period'', ''--cpuset-cpus'', ''--cpuset-mems'',
      ''-m'', ''--memory'', ''--memory-swap'', ''--memory-reservation'', ''--kernel-memory'', ''--pids-limit'', ''--blkio-weight'', ''--blkio-weight-device'',
      ''--device-read-bps'', ''--device-write-bps'', ''--device-read-iops'', ''--device-write-iops'']"

definition DOCKER_BOOL :: "string list" where
  "DOCKER_BOOL =
     [''-d'', ''--detach'', ''-i'', ''--interactive'', ''-t'', ''--tty'', ''--rm'', ''--privileged'', ''--init'', ''--read-only'', ''-P'', ''--publish-all'',
      ''--oom-kill-disable'', ''--no-healthcheck'', ''--help'', ''-q'', ''--quiet'', ''--sig-proxy'', ''--use-api-socket'', ''--disable-content-trust'']"

definition DOCKER_GLOBAL_VALUE :: "string list" where
  "DOCKER_GLOBAL_VALUE = [''-H'', ''--host'', ''--context'', ''-c'', ''--config'', ''-l'', ''--log-level'', ''--tlscacert'', ''--tlscert'', ''--tlskey'']"

text \<open>The regular expression of the systemd properties that set a cap: names, and the four patterns with a part left open.\<close>

definition UNIT_CAP :: "string \<Rightarrow> bool" where
  "UNIT_CAP p \<longleftrightarrow>
     p \<in> set [''CPUQuota'', ''CPUQuotaPeriodSec'', ''CPUWeight'', ''StartupCPUWeight'', ''CPUShares'', ''StartupCPUShares'', ''AllowedCPUs'',
       ''StartupAllowedCPUs'', ''AllowedMemoryNodes'', ''CPUAffinity'', ''MemoryMax'', ''MemoryHigh'', ''MemoryLow'', ''MemoryMin'', ''MemorySwapMax'',
       ''MemoryZSwapMax'', ''MemoryLimit'', ''TasksMax'', ''Nice'', ''CPUSchedulingPolicy'', ''CPUSchedulingPriority'', ''IOSchedulingClass'',
       ''IOSchedulingPriority''] \<or>
     prefix ''StartupMemory'' p \<and> drop 13 p \<noteq> [] \<and> list_all ident_char (drop 13 p) \<or>
     prefix ''IO'' p \<and> list_all ident_char (drop 2 p) \<and> (suffix ''Max'' (drop 2 p) \<or> suffix ''Weight'' (drop 2 p)) \<or>
     prefix ''BlockIO'' p \<and> drop 7 p \<noteq> [] \<and> list_all ident_char (drop 7 p)"

definition UNSET :: "string \<Rightarrow> bool" where
  "UNSET v \<longleftrightarrow> v = ''infinity'' \<or> v = ''''"

definition RUN_VALUE :: "string list" where
  "RUN_VALUE =
     [''-p'', ''--property'', ''-u'', ''--unit'', ''--description'', ''--slice'', ''-E'', ''--setenv'', ''--uid'', ''--gid'', ''-M'', ''--machine'', ''-H'', ''--host'',
      ''--working-directory'', ''--on-active'', ''--on-boot'', ''--on-startup'', ''--on-unit-active'', ''--on-unit-inactive'', ''--on-calendar'',
      ''--timer-property'', ''--path-property'', ''--socket-property'', ''--service-type'', ''--nice'', ''-C'', ''--capsule'']"

definition PASS :: "string list" where
  "PASS = [''command'', ''exec'', ''time'', ''nohup'', ''setsid'', ''builtin'', ''caffeinate'', ''then'', ''else'', ''elif'', ''do'', ''while'', ''until'', ''!'', ''{'']"

section \<open>Readers of options\<close>

definition before_eq :: "string \<Rightarrow> string" where
  "before_eq w = takeWhile (\<lambda>c. c \<noteq> CHR ''='') w"

definition cap_prop :: "string \<Rightarrow> bool" where
  "cap_prop p \<longleftrightarrow> CHR ''='' \<in> set p \<and> before_eq p \<noteq> [] \<and> UNIT_CAP (before_eq p) \<and> \<not> UNSET (drop (length (before_eq p) + 1) p)"

definition capProps :: "string list \<Rightarrow> string list" where
  "capProps props = filter cap_prop props"

text \<open>The loop of \<open>after\<close>: from the positional word that has \<open>skip\<close> others before it.\<close>

fun after_skip :: "string list \<Rightarrow> nat \<Rightarrow> string list" where
  "after_skip [] skip = []"
| "after_skip (w # ws) skip = (if dashed w then after_skip ws skip else if skip = 0 then w # ws else after_skip ws (skip - 1))"

definition after :: "string list \<Rightarrow> nat \<Rightarrow> string list" where
  "after ws skip = (case find_index (\<lambda>w. w = ''--'') ws of Some d \<Rightarrow> drop (d + 1) ws | None \<Rightarrow> after_skip ws skip)"

text \<open>A cluster of short flags: the caps in it, and whether its last flag takes the next word.\<close>

fun cluster :: "string \<Rightarrow> string list \<times> bool" where
  "cluster [] = ([], False)"
| "cluster (c # cs) =
     (let flag = [CHR ''-'', c]; here = (if flag \<in> set DOCKER_CAPS then [flag] else []) in
      if flag \<in> set DOCKER_BOOL then (case cluster cs of (found, next) \<Rightarrow> (here @ found, next)) else (here, cs = []))"

fun dockerCaps :: "string list \<Rightarrow> string list" where
  "dockerCaps [] = []"
| "dockerCaps (w # ws) =
     (if w = ''--'' \<or> \<not> dashed w \<or> w = ''-'' then []
      else if prefix ''--'' w then
        (let name = before_eq w in
         (if name \<in> set DOCKER_CAPS then [name] else []) @
         (if CHR ''='' \<notin> set w \<and> name \<notin> set DOCKER_BOOL then (case ws of [] \<Rightarrow> [] | _ # vs \<Rightarrow> dockerCaps vs) else dockerCaps ws))
      else (case cluster (tl w) of (found, next) \<Rightarrow> found @ (if next then (case ws of [] \<Rightarrow> [] | _ # vs \<Rightarrow> dockerCaps vs) else dockerCaps ws)))"

definition docker :: "string list \<Rightarrow> string option" where
  "docker args =
     (let r0 = skip_options (\<lambda>a. a \<in> set DOCKER_GLOBAL_VALUE) args;
          r1 = (case r0 of s # rs \<Rightarrow> if s = ''container'' then rs else r0 | [] \<Rightarrow> [])
      in case r1 of
           [] \<Rightarrow> None
         | sub # rest \<Rightarrow>
             if sub \<noteq> ''run'' \<and> sub \<noteq> ''create'' \<and> sub \<noteq> ''update'' then None
             else (let found = dockerCaps rest in
                   if found = [] then None else Some (''a container limit ('' @ js_join '', '' (js_uniq found) @ '')'')))"

text \<open>\<open>systemdRun\<close>: the properties, whether \<open>--nice\<close> was given, and the command.\<close>

fun run_options :: "string list \<Rightarrow> string list \<times> bool \<times> string list" where
  "run_options [] = ([], False, [])"
| "run_options (w # ws) =
     (if w = ''--'' then ([], False, ws)
      else if \<not> dashed w then ([], False, w # ws)
      else if w = ''-p'' \<or> w = ''--property'' then
        (case ws of [] \<Rightarrow> ([''''], False, []) | v # vs \<Rightarrow> (case run_options vs of (ps, nice, cmd) \<Rightarrow> (v # ps, nice, cmd)))
      else if prefix ''--property='' w then (case run_options ws of (ps, nice, cmd) \<Rightarrow> (drop 11 w # ps, nice, cmd))
      else if prefix ''-p'' w \<and> length w > 2 \<and> w ! 2 \<noteq> CHR 10 \<and> w ! 2 \<noteq> CHR 13 then (case run_options ws of (ps, nice, cmd) \<Rightarrow> (drop 2 w # ps, nice, cmd))
      else (case run_options (if w \<in> set RUN_VALUE then drop 1 ws else ws) of (ps, nice, cmd) \<Rightarrow>
        (ps, w = ''--nice'' \<or> prefix ''--nice='' w \<or> nice, cmd)))"

definition systemdRun :: "string list \<Rightarrow> string list \<times> string list" where
  "systemdRun args = (case run_options args of (props, nice, cmd) \<Rightarrow> (capProps props @ (if nice then [''--nice''] else []), cmd))"

fun positionals :: "string list \<Rightarrow> string list \<Rightarrow> string list" where
  "positionals valued [] = []"
| "positionals valued (a # as) =
     (if a \<in> set valued then (case as of [] \<Rightarrow> [] | _ # bs \<Rightarrow> positionals valued bs)
      else if dashed a then positionals valued as else a # positionals valued as)"

section \<open>One program\<close>

text \<open>The words in front of the program: assignments, pass-through words, \<open>sudo\<close> and \<open>env\<close>.\<close>

fun drop_env :: "string list \<Rightarrow> string list" where
  "drop_env [] = []"
| "drop_env (a # as) =
     (if dashed a \<or> assignment a then (if a = ''-u'' then (case as of [] \<Rightarrow> [] | _ # bs \<Rightarrow> drop_env bs) else drop_env as) else a # as)"

lemma drop_env_length: "length (drop_env as) \<le> length as"
proof (induction as rule: drop_env.induct)
  case (2 a as)
  then show ?case by (cases as) (simp_all add: le_SucI)
qed simp

function cap_program :: "string list \<Rightarrow> string list" where
  "cap_program [] = []"
| "cap_program (w # ws) =
     (if assignment w \<or> w \<in> set PASS then cap_program ws
      else if w = ''sudo'' \<or> w = ''doas'' then cap_program (drop_sudo ws)
      else if w = ''env'' then cap_program (drop_env ws)
      else w # ws)"
  by pat_completeness auto
termination
  by (relation "measure length") (auto simp: drop_sudo_length drop_env_length le_imp_less_Suc)

datatype cap_task = Script string | Argv "string list"

definition help_only :: "string list \<Rightarrow> bool" where
  "help_only args = list_all (\<lambda>a. a = ''--help'' \<or> a = ''--version'') args"

definition cap_verdict :: "string list \<Rightarrow> string \<Rightarrow> Verdict" where
  "cap_verdict eff what =
     \<lparr>vd_rule = ''cap'', vd_command = words eff,
      vd_reason = CAP_PREFIX @ '' `'' @ take 300 (words eff) @ ''` sets '' @ what @ ''. '' @ CAP_TAIL\<rparr>"

definition timeout_value :: "string \<Rightarrow> bool" where
  "timeout_value a \<longleftrightarrow> a = ''-s'' \<or> a = ''-k'' \<or> a = ''--signal'' \<or> a = ''--kill-after''"

definition stdbuf_value :: "string \<Rightarrow> bool" where
  "stdbuf_value a \<longleftrightarrow> a = ''-i'' \<or> a = ''-o'' \<or> a = ''-e''"

definition judgeArgv :: "(cap_task \<Rightarrow> Verdict list) \<Rightarrow> string list \<Rightarrow> Verdict list" where
  "judgeArgv sub argv =
     (let eff = cap_program argv; name = program eff; args = drop 1 eff in
      if eff = [] then []
      else if name = ''nice'' then (if args \<noteq> [] \<and> \<not> help_only args then [cap_verdict eff ''a CPU priority (nice)''] else [])
      else if name = ''renice'' then (if args \<noteq> [] \<and> \<not> help_only args then [cap_verdict eff ''a CPU priority (renice)''] else [])
      else if name = ''cpulimit'' then (if args \<noteq> [] then [cap_verdict eff ''a CPU limit (cpulimit)''] else [])
      else if name = ''ionice'' then
        (if list_ex (\<lambda>a. prefix ''-c'' a \<or> prefix ''--class'' a \<or> prefix ''-n'' a \<or> prefix ''--classdata'' a) args \<or>
            positionals [''-p'', ''--pid'', ''-P'', ''--pgid'', ''-u'', ''--uid''] args \<noteq> []
         then [cap_verdict eff ''an IO priority (ionice)''] else [])
      else if name = ''taskset'' then (if length (positionals [] args) \<ge> 2 then [cap_verdict eff ''a CPU pin (taskset)''] else [])
      else if name = ''heavy'' then sub (Argv (after args 1))
      else if name = ''choom'' then sub (Argv (after args (case args of a # _ \<Rightarrow> if a = ''-n'' then 1 else 0 | [] \<Rightarrow> 0)))
      else if name = ''timeout'' then sub (Argv (drop 1 (skip_options timeout_value args)))
      else if name = ''stdbuf'' then sub (Argv (skip_options stdbuf_value args))
      else if name = ''docker'' \<or> name = ''podman'' then (case docker args of Some what \<Rightarrow> [cap_verdict eff what] | None \<Rightarrow> [])
      else if name = ''systemd-run'' then
        (case systemdRun args of (caps, cmd) \<Rightarrow>
           (if caps \<noteq> [] then [cap_verdict eff (''a unit limit ('' @ js_join '', '' caps @ '')'')] else []) @ sub (Argv cmd))
      else if name = ''systemctl'' then
        (let caps = (case find_index (\<lambda>a. a = ''set-property'') args of None \<Rightarrow> [] | Some k \<Rightarrow> capProps (drop (k + 1) args)) in
         if caps \<noteq> [] then [cap_verdict eff (''a unit limit ('' @ js_join '', '' caps @ '')'')] else [])
      else if name = ''ssh'' then (let remote = ssh_remote args in if remote = [] then [] else sub (Script remote))
      else if name \<in> set SHELLS then (case shellScript eff of Some script \<Rightarrow> sub (Script script) | None \<Rightarrow> [])
      else [])"

text \<open>Depth 0 to 6 is seven levels; the words of a script's commands are judged at the script's own level.\<close>

primrec judge_caps :: "nat \<Rightarrow> cap_task \<Rightarrow> Verdict list" where
  "judge_caps 0 t = []"
| "judge_caps (Suc n) t =
     (case t of
        Argv argv \<Rightarrow> judgeArgv (judge_caps n) argv
      | Script s \<Rightarrow>
          (case lex (stripHeredocs s) of (commands, nested) \<Rightarrow>
             concat (map (judgeArgv (judge_caps n)) commands) @ concat (map (\<lambda>inner. judge_caps n (Script inner)) nested)))"

definition judgeCaps :: "string \<Rightarrow> Verdict list" where
  "judgeCaps s = judge_caps 7 (Script s)"

section \<open>What is refused\<close>

text \<open>The programs that set a cap, and the words with which they do.\<close>

definition sets_cap :: "string list \<Rightarrow> bool" where
  "sets_cap eff \<longleftrightarrow> eff \<noteq> [] \<and> (let name = program eff; args = tl eff in
     (name = ''nice'' \<or> name = ''renice'') \<and> args \<noteq> [] \<and> \<not> help_only args \<or>
     name = ''cpulimit'' \<and> args \<noteq> [] \<or>
     name = ''ionice'' \<and>
       ((\<exists>a \<in> set args. prefix ''-c'' a \<or> prefix ''--class'' a \<or> prefix ''-n'' a) \<or>
        positionals [''-p'', ''--pid'', ''-P'', ''--pgid'', ''-u'', ''--uid''] args \<noteq> []) \<or>
     name = ''taskset'' \<and> length (positionals [] args) \<ge> 2 \<or>
     (name = ''docker'' \<or> name = ''podman'') \<and> docker args \<noteq> None \<or>
     name = ''systemd-run'' \<and> fst (systemdRun args) \<noteq> [] \<or>
     name = ''systemctl'' \<and> (\<exists>as bs. args = as @ ''set-property'' # bs \<and> ''set-property'' \<notin> set as \<and> (\<exists>p \<in> set bs. cap_prop p)))"

text \<open>What a program starts in turn, as far as the guard follows it.\<close>

definition starts :: "string list \<Rightarrow> cap_task option" where
  "starts eff =
     (let name = program eff; args = tl eff in
      if eff = [] then None
      else if name = ''heavy'' then Some (Argv (after args 1))
      else if name = ''choom'' then Some (Argv (after args (case args of a # _ \<Rightarrow> if a = ''-n'' then 1 else 0 | [] \<Rightarrow> 0)))
      else if name = ''timeout'' then Some (Argv (drop 1 (skip_options timeout_value args)))
      else if name = ''stdbuf'' then Some (Argv (skip_options stdbuf_value args))
      else if name = ''systemd-run'' then Some (Argv (snd (systemdRun args)))
      else if name = ''ssh'' then (if ssh_remote args = [] then None else Some (Script (ssh_remote args)))
      else if name \<in> set SHELLS then map_option Script (shellScript eff)
      else None)"

lemma cap_names:
  obtains (empty) "eff = []"
    | (own) "eff \<noteq> []" "program eff = ''nice'' \<or> program eff = ''renice'' \<or> program eff = ''cpulimit'' \<or> program eff = ''ionice'' \<or>
        program eff = ''taskset'' \<or> program eff = ''docker'' \<or> program eff = ''podman'' \<or> program eff = ''systemctl''"
    | (onward) "eff \<noteq> []" "program eff = ''heavy'' \<or> program eff = ''choom'' \<or> program eff = ''timeout'' \<or> program eff = ''stdbuf'' \<or>
        program eff = ''systemd-run'' \<or> program eff = ''ssh''"
    | (other) "eff \<noteq> []"
        "program eff \<noteq> ''nice''" "program eff \<noteq> ''renice''" "program eff \<noteq> ''cpulimit''" "program eff \<noteq> ''ionice''"
        "program eff \<noteq> ''taskset''" "program eff \<noteq> ''docker''" "program eff \<noteq> ''podman''" "program eff \<noteq> ''systemctl''" "program eff \<noteq> ''heavy''"
        "program eff \<noteq> ''choom''" "program eff \<noteq> ''timeout''" "program eff \<noteq> ''stdbuf''" "program eff \<noteq> ''systemd-run''" "program eff \<noteq> ''ssh''"
  by blast

lemma judgeArgv_other:
  assumes "cap_program argv = eff" "eff \<noteq> []" "program eff \<noteq> ''nice''" "program eff \<noteq> ''renice''" "program eff \<noteq> ''cpulimit''" "program eff \<noteq> ''ionice''"
    "program eff \<noteq> ''taskset''" "program eff \<noteq> ''docker''" "program eff \<noteq> ''podman''" "program eff \<noteq> ''systemctl''" "program eff \<noteq> ''heavy''"
    "program eff \<noteq> ''choom''" "program eff \<noteq> ''timeout''" "program eff \<noteq> ''stdbuf''" "program eff \<noteq> ''systemd-run''" "program eff \<noteq> ''ssh''"
  shows "judgeArgv sub argv = (if program eff \<in> set SHELLS then (case shellScript eff of Some script \<Rightarrow> sub (Script script) | None \<Rightarrow> []) else [])"
    and "starts eff = (if program eff \<in> set SHELLS then map_option Script (shellScript eff) else None)"
    and "\<not> sets_cap eff"
  by (simp_all only: judgeArgv_def starts_def sets_cap_def Let_def assms simp_thms if_False)

lemma judgeArgv_split:
  "judgeArgv sub argv = judgeArgv (\<lambda>_. []) argv @ (case starts (cap_program argv) of None \<Rightarrow> [] | Some t \<Rightarrow> sub t)"
proof -
  define eff where "eff = cap_program argv"
  note defs = judgeArgv_def starts_def Let_def eff_def [symmetric]
  show ?thesis
  proof (cases eff rule: cap_names)
    case empty
    then show ?thesis by (simp add: defs)
  next
    case own
    then show ?thesis by (elim disjE) (simp_all add: defs SHELLS_def split: option.split)
  next
    case onward
    then show ?thesis by (elim disjE) (simp_all add: defs split_def drop_Suc)
  next
    case other
    note o = judgeArgv_other [OF eff_def [symmetric] other]
    show ?thesis unfolding eff_def [symmetric] o(1,2) by (cases "program eff \<in> set SHELLS"; cases "shellScript eff"; simp)
  qed
qed

lemma set_property_first:
  "(\<exists>as bs. args = as @ x # bs \<and> x \<notin> set as \<and> (\<exists>p \<in> set bs. P p)) \<longleftrightarrow>
   (case find_index (\<lambda>a. a = x) args of None \<Rightarrow> False | Some k \<Rightarrow> \<exists>p \<in> set (drop (k + 1) args). P p)"
proof (cases "find_index (\<lambda>a. a = x) args")
  case None
  then have "x \<notin> set args" by (auto simp: find_index_None)
  with None show ?thesis by auto
next
  case (Some k)
  from find_index_Some [OF Some] have k: "k < length args" "args ! k = x" "\<forall>j < k. args ! j \<noteq> x" by auto
  have "as = take k args \<and> bs = drop (k + 1) args" if "args = as @ x # bs" "x \<notin> set as" for as bs
  proof -
    have "\<not> k < length as" using that k(2) by (auto simp: nth_append dest: nth_mem)
    moreover have "\<not> length as < k" using that k(3) by (auto simp: nth_append)
    ultimately have "k = length as" by simp
    with that show ?thesis by simp
  qed
  moreover have "args = take k args @ x # drop (k + 1) args" using k(1,2) id_take_nth_drop [of k args] by simp
  moreover have "x \<notin> set (take k args)" using k(3) by (auto simp: in_set_conv_nth)
  ultimately show ?thesis unfolding Some by (simp only: option.case) metis
qed

lemma own_verdicts:
  "judgeArgv (\<lambda>_. []) argv = [] \<longleftrightarrow> \<not> sets_cap (cap_program argv)" (is ?empty)
  "v \<in> set (judgeArgv (\<lambda>_. []) argv) \<Longrightarrow> vd_command v = words (cap_program argv)"
proof -
  define eff where "eff = cap_program argv"
  note defs = judgeArgv_def Let_def eff_def [symmetric]
  have "(judgeArgv (\<lambda>_. []) argv = [] \<longleftrightarrow> \<not> sets_cap eff) \<and> (\<forall>v \<in> set (judgeArgv (\<lambda>_. []) argv). vd_command v = words eff)"
  proof (cases eff rule: cap_names)
    case empty
    then show ?thesis by (simp add: defs sets_cap_def)
  next
    case own
    have p: "prefix ''--classdata'' a \<Longrightarrow> prefix ''--class'' a" for a by (auto elim!: prefixE)
    from own show ?thesis
      by (elim disjE)
        (auto simp: defs sets_cap_def set_property_first capProps_def filter_empty_conv list_ex_iff cap_verdict_def drop_Suc dest: p split: option.splits)
  next
    case onward
    then show ?thesis by (elim disjE) (simp_all add: defs sets_cap_def cap_verdict_def drop_Suc split_def)
  next
    case other
    note o = judgeArgv_other [OF eff_def [symmetric] other]
    show ?thesis unfolding o(1) using o(3) by (simp split: option.split)
  qed
  then show ?empty and "v \<in> set (judgeArgv (\<lambda>_. []) argv) \<Longrightarrow> vd_command v = words (cap_program argv)"
    by (simp_all add: eff_def)
qed

definition cap_opens :: "cap_task \<Rightarrow> cap_task \<Rightarrow> bool" where
  "cap_opens t t' \<longleftrightarrow>
     (case t of
        Argv argv \<Rightarrow> starts (cap_program argv) = Some t'
      | Script s \<Rightarrow> (\<exists>argv \<in> set (fst (lex (stripHeredocs s))). starts (cap_program argv) = Some t') \<or>
          (\<exists>inner \<in> set (snd (lex (stripHeredocs s))). t' = Script inner))"

definition cap_refused :: "cap_task \<Rightarrow> string \<Rightarrow> bool" where
  "cap_refused t cmd \<longleftrightarrow>
     (\<exists>argv \<in> (case t of Argv argv \<Rightarrow> {argv} | Script s \<Rightarrow> set (fst (lex (stripHeredocs s)))).
        sets_cap (cap_program argv) \<and> cmd = words (cap_program argv))"

lemma judgeArgv_mem:
  "v \<in> set (judgeArgv sub argv) \<longleftrightarrow>
     v \<in> set (judgeArgv (\<lambda>_. []) argv) \<or> (\<exists>t. starts (cap_program argv) = Some t \<and> v \<in> set (sub t))"
  by (subst judgeArgv_split) (auto split: option.splits)

lemma own_command: "(\<exists>v \<in> set (judgeArgv (\<lambda>_. []) argv). vd_command v = cmd) \<longleftrightarrow> sets_cap (cap_program argv) \<and> cmd = words (cap_program argv)"
  using own_verdicts(1) [of argv] own_verdicts(2) [of _ argv] by (cases "judgeArgv (\<lambda>_. []) argv") auto

lemma judge_caps_mem:
  "v \<in> set (judge_caps (Suc n) t) \<longleftrightarrow>
     (\<exists>argv \<in> (case t of Argv argv \<Rightarrow> {argv} | Script s \<Rightarrow> set (fst (lex (stripHeredocs s)))). v \<in> set (judgeArgv (\<lambda>_. []) argv)) \<or>
     (\<exists>t'. cap_opens t t' \<and> v \<in> set (judge_caps n t'))"
proof (cases t)
  case (Argv argv)
  then show ?thesis by (simp add: cap_opens_def judgeArgv_mem [of v "judge_caps n"])
next
  case (Script s)
  then show ?thesis by (auto simp: cap_opens_def split_def judgeArgv_mem [of v "judge_caps n"])
qed

interpretation cg: command_guard judge_caps cap_opens cap_refused
proof
  fix t cmd n
  assume "cap_refused t cmd"
  then show "\<exists>v \<in> set (judge_caps (Suc n) t). vd_command v = cmd"
    unfolding cap_refused_def own_command [symmetric] Bex_def judge_caps_mem by blast
next
  fix t t' n
  assume "cap_opens t t'"
  then show "set (judge_caps n t') \<subseteq> set (judge_caps (Suc n) t)" unfolding judge_caps_mem subset_iff by blast
next
  fix v n t
  assume "v \<in> set (judge_caps (Suc n) t)"
  then show "cap_refused t (vd_command v) \<or> (\<exists>t'. cap_opens t t' \<and> v \<in> set (judge_caps n t'))"
    unfolding judge_caps_mem cap_refused_def own_command [symmetric] by blast
qed simp

text \<open>
  The cap guard: the commands it refuses are exactly those that set a memory, CPU, IO or priority cap, in the text or in what its commands start, at most
  six steps down: through substitutions and subshells, the script of a shell, \<open>ssh\<close>, \<open>heavy\<close>, \<open>choom\<close>, \<open>timeout\<close>, \<open>stdbuf\<close> and \<open>systemd-run\<close>.
\<close>
theorem judgeCaps_exact:
  "vd_command ` set (judgeCaps s) = {cmd. \<exists>k \<le> 6. \<exists>t. (cap_opens ^^ k) (Script s) t \<and> cap_refused t cmd}"
  using cg.refused_commands [of 7 "Script s"] by (simp add: judgeCaps_def less_Suc_eq_le eval_nat_numeral)

section \<open>How the options of docker are read\<close>

text \<open>An option as docker takes it: a switch, a flag with its value in the next word or after \<open>=\<close>, and the short forms with the value in the same word.\<close>

datatype docker_option = Switch string | Valued string string | Assigned string string | Short char string

fun option_words :: "docker_option \<Rightarrow> string list" where
  "option_words (Switch f) = [f]"
| "option_words (Valued f v) = [f, v]"
| "option_words (Assigned f v) = [f @ ''='' @ v]"
| "option_words (Short c v) = [[CHR ''-'', c] @ v]"

fun option_flag :: "docker_option \<Rightarrow> string" where
  "option_flag (Switch f) = f"
| "option_flag (Valued f v) = f"
| "option_flag (Assigned f v) = f"
| "option_flag (Short c v) = [CHR ''-'', c]"

definition long_flag :: "string \<Rightarrow> bool" where
  "long_flag f \<longleftrightarrow> prefix ''--'' f \<and> f \<noteq> ''--'' \<and> CHR ''='' \<notin> set f"

definition short_flag :: "string \<Rightarrow> bool" where
  "short_flag f \<longleftrightarrow> (\<exists>c. f = [CHR ''-'', c] \<and> c \<noteq> CHR ''-'')"

fun wf_option :: "docker_option \<Rightarrow> bool" where
  "wf_option (Switch f) \<longleftrightarrow> f \<in> set DOCKER_BOOL"
| "wf_option (Valued f v) \<longleftrightarrow> (long_flag f \<or> short_flag f) \<and> f \<notin> set DOCKER_BOOL"
| "wf_option (Assigned f v) \<longleftrightarrow> long_flag f"
| "wf_option (Short c v) \<longleftrightarrow> c \<noteq> CHR ''-'' \<and> [CHR ''-'', c] \<notin> set DOCKER_BOOL \<and> v \<noteq> []"

lemma before_eq_long: "long_flag f \<Longrightarrow> before_eq f = f \<and> before_eq (f @ ''='' @ v) = f"
  by (auto simp: long_flag_def before_eq_def takeWhile_eq_all_conv takeWhile_append)

lemma dockerCaps_option:
  assumes "wf_option opt"
  shows "dockerCaps (option_words opt @ ws) = filter (\<lambda>f. f \<in> set DOCKER_CAPS) [option_flag opt] @ dockerCaps ws"
proof (cases opt)
  case (Switch f)
  with assms have "f \<in> set DOCKER_BOOL" by simp
  then have "dockerCaps (f # ws) = filter (\<lambda>f. f \<in> set DOCKER_CAPS) [f] @ dockerCaps ws"
    unfolding DOCKER_BOOL_def by (simp only: list.set insert_iff empty_iff, elim disjE)
      (simp_all add: dashed_def before_eq_def DOCKER_CAPS_def DOCKER_BOOL_def)
  then show ?thesis using Switch by simp
next
  case (Valued f v)
  with assms consider (long) "long_flag f" "f \<notin> set DOCKER_BOOL" | (short) c where "f = [CHR ''-'', c]" "c \<noteq> CHR ''-''" "f \<notin> set DOCKER_BOOL"
    by (auto simp: short_flag_def)
  then show ?thesis
  proof cases
    case long
    then show ?thesis using Valued before_eq_long [OF long(1)]
      by (auto simp: long_flag_def dashed_def prefix_def)
  next
    case (short c)
    then show ?thesis using Valued by (simp add: dashed_def)
  qed
next
  case (Assigned f v)
  with assms have l: "long_flag f" by simp
  then show ?thesis using Assigned before_eq_long [OF l, of v] by (auto simp: long_flag_def dashed_def prefix_def)
next
  case (Short c v)
  with assms have "CHR ''-'' \<noteq> c" by auto
  with assms Short show ?thesis by (simp add: dashed_def)
qed

text \<open>
  The cap guard reads the options of \<open>docker run\<close>, \<open>create\<close> and \<open>update\<close> as docker does: whatever switches, flags with a value and assigned flags
  stand before the image, the caps found are exactly the flags among them that set a limit, in order; a value that looks like such a flag does not count,
  and neither does any word from the image on.
\<close>
theorem dockerCaps_exact:
  assumes "\<forall>opt \<in> set opts. wf_option opt" and "\<not> dashed img"
  shows "dockerCaps (concat (map option_words opts) @ img # rest) = filter (\<lambda>f. f \<in> set DOCKER_CAPS) (map option_flag opts)"
  using assms
proof (induction opts)
  case (Cons opt opts)
  then show ?case using dockerCaps_option [of opt] by simp
qed simp

theorem dockerCaps_exact_witness:
  "dockerCaps [''--rm'', ''--name'', ''--cpus'', ''--memory=4g'', ''-m'', ''2g'', ''ubuntu'', ''--cpus'', ''8''] = [''--memory'', ''-m'']"
  using dockerCaps_exact [of "[Switch ''--rm'', Valued ''--name'' ''--cpus'', Assigned ''--memory'' ''4g'', Valued ''-m'' ''2g'']" "''ubuntu''" "[''--cpus'', ''8'']"]
  by (simp add: DOCKER_BOOL_def DOCKER_CAPS_def long_flag_def short_flag_def dashed_def)

lemma judgeCaps_examples:
  "map vd_command (judgeCaps ''sudo timeout -k 5 60 docker run -it --cpus 8 ubuntu'') = [''docker run -it --cpus 8 ubuntu'']"
  "judgeCaps ''heavy 4 -- make -j4'' = []"
  by code_simp+

end
