(* ===== verification/Pm2Guard.thy ===== *)
theory Pm2Guard
  imports Guards
begin

text \<open>
  The pm2 guard (\<open>packages/sieun-rules/src/pm2.ts\<close>): which commands run pm2 with a relative home. A script's variables and the lists of its \<open>for\<close> loops
  are handed on to the scripts and bodies it starts, and not to an \<open>ssh\<close>.
\<close>

section \<open>Homes\<close>

text \<open>\<open>join(checkout, ".cache", "pm2-dev")\<close> for a checkout path without a trailing slash; \<open>exists\<close> is \<open>existsSync\<close>.\<close>

definition defaultPm2Home :: "string option \<Rightarrow> string \<Rightarrow> (string \<Rightarrow> bool) \<Rightarrow> string option" where
  "defaultPm2Home pm2_home checkout exists =
     (if pm2_home \<noteq> None \<and> pm2_home \<noteq> Some '''' then None
      else (let home = checkout @ ''/.cache/pm2-dev'' in if exists home then Some home else None))"

definition PM2_PREFIX :: string where
  "PM2_PREFIX = ''global-rules pm2 guard:''"

definition PM2_TAIL :: string where
  "PM2_TAIL =
     ''A relative PM2_HOME is a folder under the command's cwd, and pm2 starts an empty God Daemon in a home where none runs: on 10-26 '' @
     ''`PM2_HOME=.cache/pm2-dev pm2 ...` run in apps/virev-demo left one there with no app for two days. Give PM2_HOME the absolute home of the '' @
     ''daemon you mean, such as /Users/sieunpark/Documents/Github/auto-sns-agent/.cache/pm2-dev on the Mac or '' @
     ''/home/sieun/Documents/Github/auto-sns-agent/.cache/pm2-dev on us-metal02.''"

definition word_at :: "string list \<Rightarrow> nat \<Rightarrow> string option" where
  "word_at ws k = (if k < length ws then Some (ws ! k) else None)"

definition runsPm2 :: "string list \<Rightarrow> bool" where
  "runsPm2 eff =
     (let name = program eff; rest = filter (\<lambda>w. \<not> dashed w) (drop 1 eff) in
      if name = ''pm2'' then True
      else if name = ''npx'' then program rest = ''pm2''
      else if name = ''pnpm'' \<or> name = ''yarn'' then
        (if word_at rest 0 = Some ''exec'' \<or> word_at rest 0 = Some ''dlx'' then word_at rest 1 else word_at rest 0) = Some ''pm2''
      else False)"

definition homeOf :: "string list \<Rightarrow> string list \<Rightarrow> string option" where
  "homeOf argv eff =
     (let st = filter (prefix ''PM2_HOME='') (take (length argv - length eff) argv) in if st = [] then None else Some (drop 9 (last st)))"

definition relative :: "string \<Rightarrow> bool" where
  "relative home \<longleftrightarrow> home \<noteq> '''' \<and> hd home \<notin> {CHR ''/'', CHR ''~'', CHR ''$''}"

text \<open>\<open>/^\$\{?(\w+)\}?$/\<close>.\<close>

definition loop_var :: "string \<Rightarrow> string option" where
  "loop_var h =
     (let r = (if prefix ''{'' (tl h) then tl (tl h) else tl h); n = takeWhile ident_char r; e = dropWhile ident_char r in
      if prefix ''$'' h \<and> n \<noteq> [] \<and> (e = [] \<or> e = ''}'') then Some n else None)"

section \<open>The walk\<close>

type_synonym vars = "(string \<times> string) list"
type_synonym loops = "(string \<times> string list) list"

definition homes :: "vars \<Rightarrow> loops \<Rightarrow> string list \<Rightarrow> string list \<Rightarrow> string list" where
  "homes vars loops argv eff =
     (let home = (case homeOf argv eff of Some h \<Rightarrow> Some h | None \<Rightarrow> map_of vars ''PM2_HOME'') in
      case home of
        None \<Rightarrow> []
      | Some h \<Rightarrow> (case Option.bind (loop_var h) (map_of loops) of Some hs \<Rightarrow> hs | None \<Rightarrow> [h]))"

definition pm2_verdict :: "string list \<Rightarrow> string list \<Rightarrow> string \<Rightarrow> Verdict" where
  "pm2_verdict argv eff bad =
     \<lparr>vd_rule = ''pm2'', vd_command = words eff,
      vd_reason = PM2_PREFIX @ '' `'' @ take 300 (words argv) @ ''` runs pm2 with the relative PM2_HOME '' @ bad @ ''. '' @ PM2_TAIL\<rparr>"

definition loops_after :: "string list \<Rightarrow> loops \<Rightarrow> loops" where
  "loops_after raw loops =
     (if word_at raw 0 = Some ''for'' \<and> word_at raw 2 = Some ''in'' then AList.update (raw ! 1) (drop 3 raw) loops else loops)"

definition judge_pm2_command :: "(string \<times> vars \<times> loops \<Rightarrow> Verdict list) \<Rightarrow> vars \<times> loops \<Rightarrow> string list \<Rightarrow> Verdict list \<times> vars \<times> loops" where
  "judge_pm2_command sub = (\<lambda>(vars0, loops0) raw.
     (let loops = loops_after raw loops0 in
      case expandVars [raw] vars0 of
        ([], vars) \<Rightarrow> ([], vars, loops)
      | (argv # _, vars) \<Rightarrow>
          (let eff = effective argv; name = program eff in
           (if runsPm2 eff then
              (case List.find relative (homes vars loops argv eff) of Some bad \<Rightarrow> [pm2_verdict argv eff bad] | None \<Rightarrow> [])
            else if name = ''ssh'' then (let remote = ssh_remote (drop 1 eff) in if remote = [] then [] else sub (remote, [], []))
            else if name \<in> set SHELLS then (case shellScript eff of Some script \<Rightarrow> sub (script, vars, loops) | None \<Rightarrow> [])
            else [], vars, loops))))"

primrec judge_pm2 :: "nat \<Rightarrow> string \<times> vars \<times> loops \<Rightarrow> Verdict list" where
  "judge_pm2 0 st = []"
| "judge_pm2 (Suc n) st =
     (case st of (s, ctx) \<Rightarrow> case lex (stripHeredocs s) of (commands, nested) \<Rightarrow>
        case over_commands (judge_pm2_command (judge_pm2 n)) ctx commands of (vs, ctx') \<Rightarrow>
          vs @ concat (map (\<lambda>inner. judge_pm2 n (inner, ctx')) nested))"

definition judgePm2 :: "string \<Rightarrow> Verdict list" where
  "judgePm2 s = (if js_includes ''pm2'' s then judge_pm2 7 (s, [], []) else [])"

section \<open>What is refused\<close>

text \<open>The variables and loops after a command, and a command's words with the variables set before it.\<close>

definition pm2_after :: "string list list \<Rightarrow> vars \<times> loops \<Rightarrow> vars \<times> loops" where
  "pm2_after cmds ctx = fold (\<lambda>raw (vars, loops). (snd (expandVars [raw] vars), loops_after raw loops)) cmds ctx"

definition pm2_argv :: "vars \<times> loops \<Rightarrow> string list \<Rightarrow> string list option" where
  "pm2_argv ctx raw = (case fst (expandVars [raw] (fst ctx)) of [] \<Rightarrow> None | argv # _ \<Rightarrow> Some argv)"

definition pm2_refused :: "string \<times> vars \<times> loops \<Rightarrow> string \<Rightarrow> bool" where
  "pm2_refused st cmd \<longleftrightarrow>
     (\<exists>pre raw post argv. fst (lex (stripHeredocs (fst st))) = pre @ raw # post \<and>
        (let ctx = pm2_after pre (snd st) in
         pm2_argv ctx raw = Some argv \<and> runsPm2 (effective argv) \<and> cmd = words (effective argv) \<and>
         (\<exists>h \<in> set (homes (fst ctx) (loops_after raw (snd ctx)) argv (effective argv)). relative h)))"

definition pm2_hands_on :: "vars \<times> loops \<Rightarrow> string list \<Rightarrow> (string \<times> vars \<times> loops) option" where
  "pm2_hands_on ctx raw =
     (case pm2_argv ctx raw of
        None \<Rightarrow> None
      | Some argv \<Rightarrow>
          (let eff = effective argv in
           if runsPm2 eff then None
           else if program eff = ''ssh'' then (if ssh_remote (tl eff) = [] then None else Some (ssh_remote (tl eff), [], []))
           else if program eff \<in> set SHELLS then map_option (\<lambda>script. (script, fst ctx, loops_after raw (snd ctx))) (shellScript eff)
           else None))"

definition pm2_opens :: "string \<times> vars \<times> loops \<Rightarrow> string \<times> vars \<times> loops \<Rightarrow> bool" where
  "pm2_opens st st' \<longleftrightarrow>
     (\<exists>pre raw post. fst (lex (stripHeredocs (fst st))) = pre @ raw # post \<and> pm2_hands_on (pm2_after pre (snd st)) raw = Some st') \<or>
     (\<exists>inner \<in> set (snd (lex (stripHeredocs (fst st)))). st' = (inner, pm2_after (fst (lex (stripHeredocs (fst st)))) (snd st)))"

lemma expand_one: "expandVars [raw] vars = (case pm2_argv (vars, loops) raw of Some argv \<Rightarrow> ([argv], vars) | None \<Rightarrow> ([], snd (expandVars [raw] vars)))"
  by (simp add: pm2_argv_def Let_def split: prod.split)

lemma pm2_state: "snd (judge_pm2_command sub ctx raw) = (snd (expandVars [raw] (fst ctx)), loops_after raw (snd ctx))"
  by (simp add: judge_pm2_command_def Let_def split_def split: list.split)

lemma pm2_states: "fold (\<lambda>r c. snd (judge_pm2_command sub c r)) cmds ctx = pm2_after cmds ctx"
  unfolding pm2_after_def pm2_state by (simp add: split_def)

lemma find_relative: "List.find P xs = None \<longleftrightarrow> \<not> (\<exists>x \<in> set xs. P x)"
  by (induction xs) auto

lemma pm2_command_mem:
  "v \<in> set (fst (judge_pm2_command sub ctx raw)) \<longleftrightarrow>
     (\<exists>argv bad. pm2_argv ctx raw = Some argv \<and> runsPm2 (effective argv) \<and> v = pm2_verdict argv (effective argv) bad \<and>
        List.find relative (homes (fst ctx) (loops_after raw (snd ctx)) argv (effective argv)) = Some bad) \<or>
     (\<exists>st'. pm2_hands_on ctx raw = Some st' \<and> v \<in> set (sub st'))"
proof -
  obtain vars loops where ctx: "ctx = (vars, loops)" by fastforce
  show ?thesis
  proof (cases "pm2_argv (vars, loops) raw")
    case None
    then have "\<exists>vs. expandVars [raw] vars = ([], vs)" using expand_one [of raw vars loops] by (metis option.case(1))
    then obtain vs where e: "expandVars [raw] vars = ([], vs)" ..
    have "fst (judge_pm2_command sub (vars, loops) raw) = []" unfolding judge_pm2_command_def Let_def prod.case e by simp
    then show ?thesis using None by (simp add: ctx pm2_hands_on_def)
  next
    case (Some argv)
    then have e: "expandVars [raw] vars = ([argv], vars)" using expand_one [of raw vars loops] by (simp only: option.case)
    define eff where "eff = effective argv"
    define lp where "lp = loops_after raw loops"
    have *: "fst (judge_pm2_command sub (vars, loops) raw) =
        (if runsPm2 eff then (case List.find relative (homes vars lp argv eff) of Some bad \<Rightarrow> [pm2_verdict argv eff bad] | None \<Rightarrow> [])
         else if program eff = ''ssh'' then (if ssh_remote (tl eff) = [] then [] else sub (ssh_remote (tl eff), [], []))
         else if program eff \<in> set SHELLS then (case shellScript eff of Some script \<Rightarrow> sub (script, vars, lp) | None \<Rightarrow> []) else [])"
      unfolding judge_pm2_command_def Let_def prod.case e eff_def lp_def by (simp add: drop_Suc)
    have h: "pm2_hands_on (vars, loops) raw =
        (if runsPm2 eff then None else if program eff = ''ssh'' then (if ssh_remote (tl eff) = [] then None else Some (ssh_remote (tl eff), [], []))
         else if program eff \<in> set SHELLS then map_option (\<lambda>script. (script, vars, lp)) (shellScript eff) else None)"
      by (simp add: pm2_hands_on_def Some eff_def lp_def Let_def)
    show ?thesis unfolding ctx * h Some fst_conv snd_conv lp_def [symmetric] eff_def [symmetric]
      by (cases "runsPm2 eff"; cases "program eff = ''ssh''"; cases "program eff \<in> set SHELLS"; cases "shellScript eff")
        (auto simp: eff_def split: option.split)
  qed
qed

lemma judge_pm2_mem:
  "v \<in> set (judge_pm2 (Suc n) st) \<longleftrightarrow>
     (\<exists>pre raw post. fst (lex (stripHeredocs (fst st))) = pre @ raw # post \<and>
        v \<in> set (fst (judge_pm2_command (judge_pm2 n) (pm2_after pre (snd st)) raw))) \<or>
     (\<exists>inner \<in> set (snd (lex (stripHeredocs (fst st)))).
        v \<in> set (judge_pm2 n (inner, pm2_after (fst (lex (stripHeredocs (fst st)))) (snd st))))"
  by (simp add: split_def over_commands_mem over_commands_state pm2_states)

interpretation pg: command_guard judge_pm2 pm2_opens pm2_refused
proof
  fix st cmd n
  assume "pm2_refused st cmd"
  then obtain pre raw post argv where r: "fst (lex (stripHeredocs (fst st))) = pre @ raw # post"
    and a: "pm2_argv (pm2_after pre (snd st)) raw = Some argv" "runsPm2 (effective argv)" "cmd = words (effective argv)"
    and h: "\<exists>h \<in> set (homes (fst (pm2_after pre (snd st))) (loops_after raw (snd (pm2_after pre (snd st)))) argv (effective argv)). relative h"
    unfolding pm2_refused_def Let_def by blast
  from h find_relative obtain bad where
    "List.find relative (homes (fst (pm2_after pre (snd st))) (loops_after raw (snd (pm2_after pre (snd st)))) argv (effective argv)) = Some bad"
    by (metis option.exhaust)
  with a have "pm2_verdict argv (effective argv) bad \<in> set (fst (judge_pm2_command (judge_pm2 n) (pm2_after pre (snd st)) raw))"
    unfolding pm2_command_mem by blast
  with r have "pm2_verdict argv (effective argv) bad \<in> set (judge_pm2 (Suc n) st)" unfolding judge_pm2_mem by blast
  then show "\<exists>v \<in> set (judge_pm2 (Suc n) st). vd_command v = cmd" using a(3) by (force simp: pm2_verdict_def)
next
  fix st st' n
  assume "pm2_opens st st'"
  then show "set (judge_pm2 n st') \<subseteq> set (judge_pm2 (Suc n) st)"
    unfolding pm2_opens_def subset_iff judge_pm2_mem pm2_command_mem by blast
next
  fix v n st
  assume "v \<in> set (judge_pm2 (Suc n) st)"
  then consider pre raw post where "fst (lex (stripHeredocs (fst st))) = pre @ raw # post"
      "v \<in> set (fst (judge_pm2_command (judge_pm2 n) (pm2_after pre (snd st)) raw))"
    | inner where "inner \<in> set (snd (lex (stripHeredocs (fst st))))"
      "v \<in> set (judge_pm2 n (inner, pm2_after (fst (lex (stripHeredocs (fst st)))) (snd st)))"
    unfolding judge_pm2_mem by blast
  then show "pm2_refused st (vd_command v) \<or> (\<exists>st'. pm2_opens st st' \<and> v \<in> set (judge_pm2 n st'))"
  proof cases
    case (1 pre raw post)
    let ?c = "pm2_after pre (snd st)"
    from 1(2) consider argv bad where "pm2_argv ?c raw = Some argv" "runsPm2 (effective argv)" "v = pm2_verdict argv (effective argv) bad"
        "List.find relative (homes (fst ?c) (loops_after raw (snd ?c)) argv (effective argv)) = Some bad"
      | st' where "pm2_hands_on ?c raw = Some st'" "v \<in> set (judge_pm2 n st')"
      unfolding pm2_command_mem by blast
    then show ?thesis
    proof cases
      case (1 argv bad)
      have "\<exists>h \<in> set (homes (fst ?c) (loops_after raw (snd ?c)) argv (effective argv)). relative h"
        using 1(4) find_relative [of relative] by (metis option.distinct(1))
      moreover have "vd_command v = words (effective argv)" using 1(3) by (simp add: pm2_verdict_def)
      ultimately have "pm2_refused st (vd_command v)"
        using 1(1,2) \<open>fst (lex (stripHeredocs (fst st))) = pre @ raw # post\<close> unfolding pm2_refused_def Let_def by blast
      then show ?thesis ..
    next
      case (2 st')
      then show ?thesis using 1(1) unfolding pm2_opens_def by blast
    qed
  next
    case (2 inner)
    then show ?thesis unfolding pm2_opens_def by blast
  qed
qed simp

text \<open>
  The commands the pm2 guard refuses are exactly those that run pm2 with a relative home, set in front of the command, by an earlier command of the script or by a
  loop over homes, in the text or in one handed on at most six times from it.
\<close>
lemma judgePm2_exact:
  "vd_command ` set (judgePm2 s) =
     (if js_includes ''pm2'' s then {cmd. \<exists>k \<le> 6. \<exists>st. (pm2_opens ^^ k) (s, [], []) st \<and> pm2_refused st cmd} else {})"
  using pg.refused_commands [of 7 "(s, [], [])"] by (simp add: judgePm2_def less_Suc_eq_le eval_nat_numeral)

lemma judgePm2_examples:
  "map vd_command (judgePm2 ''export PM2_HOME=.cache/pm2-dev; npx pm2 list'') = [''npx pm2 list'']"
  "map vd_command (judgePm2 ''for h in /a .b; do PM2_HOME=$h pm2 ls; done'') = [''pm2 ls'']"
  "judgePm2 ''PM2_HOME=/srv/pm2 pm2 list'' = []"
  by code_simp+

end
