(* ===== verification/WalkGuard.thy ===== *)
theory WalkGuard
  imports Guards
begin

text \<open>
  The walk guard (\<open>packages/sieun-rules/src/walk.ts\<close>): which \<open>find\<close>, \<open>rg\<close> and \<open>grep -r\<close> commands would walk all of home or the wiki content root. The home
  folder, the folder's configured content root and \<open>realpathSync\<close> are what the machine answers: a record of the model, with \<open>None\<close> where the call throws.
  The home folder's path has no dollar sign, which \<open>String.replace\<close> would read as a pattern, and the working directory is absolute.
\<close>

section \<open>Paths\<close>

text \<open>\<open>resolve\<close> of \<open>node:path\<close> for an absolute working directory: the parts of a path with \<open>.\<close>, \<open>..\<close> and empty ones folded away.\<close>

fun fold_parts :: "string list \<Rightarrow> string list \<Rightarrow> string list" where
  "fold_parts acc [] = rev acc"
| "fold_parts acc (p # ps) =
     (if p = '''' \<or> p = ''.'' then fold_parts acc ps else if p = ''..'' then fold_parts (drop 1 acc) ps else fold_parts (p # acc) ps)"

definition abs_path :: "string list \<Rightarrow> string" where
  "abs_path ps = CHR ''/'' # js_join ''/'' ps"

definition js_resolve :: "string \<Rightarrow> string \<Rightarrow> string" where
  "js_resolve cwd p =
     abs_path (fold_parts [] (if prefix ''/'' p then js_split (CHR ''/'') p else js_split (CHR ''/'') cwd @ js_split (CHR ''/'') p))"

record machine =
  mc_home :: string
  mc_config :: "string option"
  mc_realpath :: "string \<Rightarrow> string option"
  mc_cwd :: string

definition real :: "machine \<Rightarrow> string \<Rightarrow> string" where
  "real m p = (case mc_realpath m p of Some r \<Rightarrow> r | None \<Rightarrow> js_resolve (mc_cwd m) p)"

text \<open>\<open>/^~(?=\/|$)/\<close> replaced by the home folder.\<close>

definition at_end :: "string \<Rightarrow> bool" where
  "at_end s \<longleftrightarrow> s = [] \<or> hd s = CHR ''/''"

definition tilde :: "string \<Rightarrow> string \<Rightarrow> string" where
  "tilde home p = (if prefix ''~'' p \<and> at_end (tl p) then home @ tl p else p)"

definition contentRoot :: "machine \<Rightarrow> string \<Rightarrow> string" where
  "contentRoot m home =
     (case mc_config m of
        Some rt \<Rightarrow> if rt \<noteq> '''' then real m (tilde home rt) else real m (js_resolve home ''.pi/wiki/content'')
      | None \<Rightarrow> real m (js_resolve home ''.pi/wiki/content''))"

definition holds :: "string \<Rightarrow> string \<Rightarrow> bool" where
  "holds outer inner \<longleftrightarrow> inner = outer \<or> prefix (if suffix ''/'' outer then outer else outer @ ''/'') inner"

definition walkRoot :: "machine \<Rightarrow> string \<Rightarrow> string option" where
  "walkRoot m path =
     (let home = real m (mc_home m); content = contentRoot m home; here = real m path in
      if here = content then Some (''wiki content root '' @ content)
      else if holds here home then Some (''home '' @ home)
      else if holds here content then Some (''folder '' @ here @ '', which holds the wiki content root '' @ content)
      else None)"

text \<open>\<open>/\$\{?HOME\}?(?=\/|$)/\<close> at the start: what is left after it.\<close>

definition home_here :: "string \<Rightarrow> string option" where
  "home_here s =
     (let r0 = drop 1 s; r1 = (if prefix ''{'' r0 then drop 1 r0 else r0); r2 = drop 4 r1; r3 = (if prefix ''}'' r2 then drop 1 r2 else r2) in
      if prefix ''$'' s \<and> prefix ''HOME'' r1 \<and> at_end r3 then Some r3 else None)"

lemma home_here_length: "home_here s = Some r \<Longrightarrow> length r < length s"
  by (cases s) (auto simp: home_here_def Let_def split: if_splits)

function sub_home :: "string \<Rightarrow> string \<Rightarrow> string" where
  "sub_home home [] = []"
| "sub_home home (c # cs) = (case home_here (c # cs) of Some r \<Rightarrow> home @ sub_home home r | None \<Rightarrow> c # sub_home home cs)"
  by pat_completeness auto
termination
  by (relation "measure (\<lambda>(home, s). length s)") (auto dest: home_here_length)

definition magic_part :: "string \<Rightarrow> bool" where
  "magic_part p \<longleftrightarrow> CHR ''*'' \<in> set p \<or> CHR ''?'' \<in> set p \<or> CHR ''['' \<in> set p"

definition wordPath :: "machine \<Rightarrow> string \<Rightarrow> string \<Rightarrow> string option" where
  "wordPath m word cwd =
     (let expanded = sub_home (mc_home m) (tilde (mc_home m) word); parts = js_split (CHR ''/'') expanded in
      if CHR ''$'' \<in> set expanded then None
      else (case find_index magic_part parts of
          None \<Rightarrow> Some (js_resolve cwd expanded)
        | Some k \<Rightarrow>
            if parts ! k \<noteq> ''*'' \<and> parts ! k \<noteq> ''**'' then None
            else (let front = js_join ''/'' (take k parts) in
                  Some (js_resolve cwd (if front \<noteq> '''' then front else if prefix ''/'' expanded then ''/'' else ''.'')))))"

section \<open>Options\<close>

definition RG_VALUE :: "string list" where
  "RG_VALUE =
     [''-A'', ''-B'', ''-C'', ''-e'', ''-f'', ''-g'', ''-m'', ''-M'', ''-r'', ''-t'', ''-T'', ''-j'', ''-d'', ''-E'',
      ''--after-context'', ''--before-context'', ''--context'', ''--regexp'', ''--file'', ''--glob'', ''--iglob'', ''--max-count'', ''--max-columns'',
      ''--replace'', ''--type'', ''--type-not'', ''--threads'', ''--max-depth'', ''--maxdepth'', ''--encoding'', ''--type-add'', ''--type-clear'',
      ''--ignore-file'', ''--sort'', ''--sortr'', ''--color'', ''--colors'', ''--context-separator'', ''--field-context-separator'',
      ''--field-match-separator'', ''--path-separator'', ''--max-filesize'', ''--dfa-size-limit'', ''--regex-size-limit'', ''--engine'', ''--pre'',
      ''--pre-glob'', ''--hostname-bin'', ''--hyperlink-format'', ''--generate'']"

definition GREP_VALUE :: "string list" where
  "GREP_VALUE =
     [''-e'', ''-f'', ''-m'', ''-A'', ''-B'', ''-C'', ''-d'', ''-D'',
      ''--regexp'', ''--file'', ''--max-count'', ''--after-context'', ''--before-context'', ''--context'', ''--include'', ''--exclude'',
      ''--exclude-from'', ''--exclude-dir'', ''--label'', ''--color'', ''--colour'', ''--binary-files'', ''--devices'', ''--directories'',
      ''--group-separator'']"

text \<open>
  The flags are set in order. A cluster of short flags gives the settings it makes itself and, where its last flag has its value in the next word, that flag.
\<close>

fun short_cluster :: "string list \<Rightarrow> string \<Rightarrow> (string \<times> string) list \<times> string option" where
  "short_cluster values [] = ([], None)"
| "short_cluster values (c # cs) =
     (let flag = [CHR ''-'', c] in
      if flag \<in> set values then (if cs = [] then ([], Some flag) else ([(flag, cs)], None))
      else (case short_cluster values cs of (sets, pending) \<Rightarrow> ((flag, '''') # sets, pending)))"

fun parse_args :: "string list \<Rightarrow> string list \<Rightarrow> string list \<times> (string \<times> string) list" where
  "parse_args values [] = ([], [])"
| "parse_args values (a # as) =
     (if a = ''--'' then (as, [])
      else if prefix ''--'' a then
        (if CHR ''='' \<in> set a then
           (case parse_args values as of (pos, sets) \<Rightarrow> (pos, (takeWhile (\<lambda>c. c \<noteq> CHR ''='') a, tl (dropWhile (\<lambda>c. c \<noteq> CHR ''='') a)) # sets))
         else if a \<in> set values then
           (case as of [] \<Rightarrow> ([], [(a, '''')]) | v # bs \<Rightarrow> (case parse_args values bs of (pos, sets) \<Rightarrow> (pos, (a, v) # sets)))
         else (case parse_args values as of (pos, sets) \<Rightarrow> (pos, (a, '''') # sets)))
      else if dashed a \<and> length a > 1 then
        (case short_cluster values (tl a) of
           (own, None) \<Rightarrow> (case parse_args values as of (pos, sets) \<Rightarrow> (pos, own @ sets))
         | (own, Some flag) \<Rightarrow>
             (case as of [] \<Rightarrow> ([], own @ [(flag, '''')]) | v # bs \<Rightarrow> (case parse_args values bs of (pos, sets) \<Rightarrow> (pos, own @ (flag, v) # sets))))
      else (case parse_args values as of (pos, sets) \<Rightarrow> (a # pos, sets)))"

text \<open>\<open>flags.get\<close> gives the last value set.\<close>

definition flag_get :: "(string \<times> string) list \<Rightarrow> string \<Rightarrow> string option" where
  "flag_get sets f = map_of (rev sets) f"

definition flag_has :: "(string \<times> string) list \<Rightarrow> string \<Rightarrow> bool" where
  "flag_has sets f \<longleftrightarrow> flag_get sets f \<noteq> None"

definition SHALLOW :: nat where
  "SHALLOW = 3"

definition shallow :: "string option \<Rightarrow> bool" where
  "shallow value = (case value of Some v \<Rightarrow> v \<noteq> '''' \<and> list_all js_digit v \<and> nat_of_digits v \<le> SHALLOW | None \<Rightarrow> False)"

text \<open>The leading options of \<open>find\<close>, \<open>/^-(?:[HLP]|O\d*|D)$/\<close>, and the words before its expression.\<close>

definition find_option :: "string \<Rightarrow> bool" where
  "find_option a \<longleftrightarrow> a \<in> {''-H'', ''-L'', ''-P'', ''-D''} \<or> prefix ''-O'' a \<and> list_all js_digit (drop 2 a)"

fun find_args :: "string list \<Rightarrow> string list" where
  "find_args [] = []"
| "find_args (a # as) =
     (if find_option a then (if a = ''-D'' then (case as of [] \<Rightarrow> [] | _ # bs \<Rightarrow> find_args bs) else find_args as) else a # as)"

definition find_path :: "string \<Rightarrow> bool" where
  "find_path a \<longleftrightarrow> a = '''' \<or> hd a \<notin> {CHR ''-'', CHR ''('', CHR ''!'', CHR '',''}"

definition or_else :: "'a option \<Rightarrow> 'a option \<Rightarrow> 'a option" where
  "or_else x y = (case x of Some _ \<Rightarrow> x | None \<Rightarrow> y)"

definition patterned :: "(string \<times> string) list \<Rightarrow> bool" where
  "patterned flags \<longleftrightarrow> flag_has flags ''-e'' \<or> flag_has flags ''--regexp'' \<or> flag_has flags ''-f'' \<or> flag_has flags ''--file''"

definition roots :: "string \<Rightarrow> string list \<Rightarrow> bool \<Rightarrow> string list" where
  "roots name args piped =
     (if name = ''find'' then
        (let paths = takeWhile find_path (find_args args) in
         case find_index (\<lambda>a. a = ''-maxdepth'') args of
           Some d \<Rightarrow> if shallow (if d + 1 < length args then Some (args ! (d + 1)) else None) then [] else if paths = [] then [''.''] else paths
         | None \<Rightarrow> if paths = [] then [''.''] else paths)
      else if name = ''rg'' then
        (case parse_args RG_VALUE args of (positional, flags) \<Rightarrow>
           if shallow (or_else (flag_get flags ''--max-depth'') (or_else (flag_get flags ''--maxdepth'') (flag_get flags ''-d''))) then []
           else (let listing = flag_has flags ''--files'' \<or> flag_has flags ''--type-list'';
                     paths = (if listing \<or> patterned flags then positional else drop 1 positional)
                 in if paths \<noteq> [] then paths else if piped \<and> \<not> listing then [] else [''.'']))
      else if name = ''grep'' \<or> name = ''egrep'' \<or> name = ''fgrep'' then
        (case parse_args GREP_VALUE args of (positional, flags) \<Rightarrow>
           if \<not> (flag_has flags ''-r'' \<or> flag_has flags ''-R'' \<or> flag_has flags ''--recursive'' \<or> flag_has flags ''--dereference-recursive'' \<or>
                 flag_get flags ''-d'' = Some ''recurse'' \<or> flag_get flags ''--directories'' = Some ''recurse'') then []
           else (let paths = (if patterned flags then positional else drop 1 positional) in if paths \<noteq> [] then paths else [''.'']))
      else [])"

section \<open>The walk\<close>

definition WALK_PREFIX :: string where
  "WALK_PREFIX = ''global-rules wiki walk guard:''"

definition WALK_TAIL :: string where
  "WALK_TAIL =
     ''Owner rule 6: never walk all of home or the wiki content root, which holds about 100 GB of sessions/ and agents/; on 11-04 two wiki '' @
     ''jobs' recursive globs of it held a pool slot and a CPU for 56 and 24 min. Walk only the folder you need. For wiki pages, ask the wiki '' @
     ''API: `httpx.get(wiki.base_url() + '/wiki/api/agent/find', params={'glob': 'apps/**'}).json()['results']` lists the pages of one '' @
     ''curated folder, and `/wiki/api/agent/grep` with `params={'pattern': 'mermaid', 'glob': 'apps/**', 'context': 0}` returns one row per '' @
     ''matching line with its `path`; run each for apps/**, domains/**, projects/** and experiments/**. On disk on us-metal02, walk one '' @
     ''curated folder at a time, such as `glob.glob(os.path.expanduser('~/.pi/wiki/content/apps/**/*.html'), recursive=True)` or `rg -l '' @
     ''mermaid ~/.pi/wiki/content/apps ~/.pi/wiki/content/domains ~/.pi/wiki/content/projects ~/.pi/wiki/content/experiments`. For home, '' @
     ''name the folder you mean, such as `rg -l x ~/src/sieun-pi` or `find ~/.config -name auth.json`, or list it with `find ~ -maxdepth 3`.''"

definition WALK_HINT :: "string \<Rightarrow> bool" where
  "WALK_HINT s = word_search [''find'', ''rg'', ''grep'', ''egrep'', ''fgrep''] False s"

fun strip_or :: "string \<Rightarrow> string" where
  "strip_or (c # d # cs) = (if c = CHR ''|'' \<and> d = CHR ''|'' then strip_or cs else c # strip_or (d # cs))"
| "strip_or cs = cs"

definition walk_verdict :: "string list \<Rightarrow> string \<Rightarrow> Verdict" where
  "walk_verdict eff what =
     \<lparr>vd_rule = ''walk'', vd_command = words eff,
      vd_reason = WALK_PREFIX @ '' `'' @ take 300 (words eff) @ ''` walks the whole '' @ what @ ''. '' @ WALK_TAIL\<rparr>"

text \<open>The loop over a command's roots: what the first of them that is too large holds.\<close>

fun first_walk :: "machine \<Rightarrow> string \<Rightarrow> string list \<Rightarrow> string option" where
  "first_walk m cwd [] = None"
| "first_walk m cwd (w # ws) =
     (case Option.bind (wordPath m w cwd) (walkRoot m) of Some what \<Rightarrow> Some what | None \<Rightarrow> first_walk m cwd ws)"

definition judge_walk_command :: "machine \<Rightarrow> string \<Rightarrow> (string \<Rightarrow> Verdict list) \<Rightarrow> bool \<Rightarrow> string list \<Rightarrow> Verdict list" where
  "judge_walk_command m cwd sub piped raw =
     (let eff = effective raw; name = program eff; args = drop 1 eff in
      if name = ''timeout'' then
        (let rest = filter (\<lambda>a. \<not> dashed a) args in if length rest > 1 then sub (words (drop 1 rest)) else [])
      else if name \<in> set SHELLS then (case shellScript eff of Some script \<Rightarrow> sub script | None \<Rightarrow> [])
      else (case first_walk m cwd (roots name args piped) of Some what \<Rightarrow> [walk_verdict eff what] | None \<Rightarrow> []))"

primrec judge_walk :: "machine \<Rightarrow> string \<Rightarrow> nat \<Rightarrow> string \<Rightarrow> Verdict list" where
  "judge_walk m cwd 0 s = []"
| "judge_walk m cwd (Suc n) s =
     (let clean = stripHeredocs s in
      case lex clean of (commands, nested) \<Rightarrow>
        (let piped = (CHR ''|'' \<in> set (strip_or clean)) in
         concat (map (judge_walk_command m cwd (judge_walk m cwd n) piped) (fst (expandVars commands []))) @
         concat (map (judge_walk m cwd n) nested)))"

definition judgeWalk :: "machine \<Rightarrow> string \<Rightarrow> string \<Rightarrow> Verdict list" where
  "judgeWalk m s cwd = (if WALK_HINT s then judge_walk m cwd 7 s else [])"

section \<open>What is refused\<close>

definition walk_commands :: "string \<Rightarrow> string list list" where
  "walk_commands s = map effective (fst (expandVars (fst (lex (stripHeredocs s))) []))"

text \<open>A folder that must not be walked whole: one that is or holds home or the content root.\<close>

definition too_large :: "machine \<Rightarrow> string \<Rightarrow> bool" where
  "too_large m path \<longleftrightarrow> holds (real m path) (real m (mc_home m)) \<or> holds (real m path) (contentRoot m (real m (mc_home m)))"

definition walk_refused :: "machine \<Rightarrow> string \<Rightarrow> string \<Rightarrow> string \<Rightarrow> bool" where
  "walk_refused m cwd s cmd \<longleftrightarrow>
     (\<exists>eff \<in> set (walk_commands s). program eff \<noteq> ''timeout'' \<and> program eff \<notin> set SHELLS \<and> cmd = words eff \<and>
        (\<exists>w \<in> set (roots (program eff) (tl eff) (CHR ''|'' \<in> set (strip_or (stripHeredocs s)))).
           \<exists>path. wordPath m w cwd = Some path \<and> too_large m path))"

definition walk_hands_on :: "string list \<Rightarrow> string option" where
  "walk_hands_on eff =
     (let rest = filter (\<lambda>a. \<not> dashed a) (tl eff) in
      if program eff = ''timeout'' then (if length rest > 1 then Some (words (tl rest)) else None)
      else if program eff \<in> set SHELLS then shellScript eff else None)"

definition walk_opens :: "string \<Rightarrow> string \<Rightarrow> bool" where
  "walk_opens s s' \<longleftrightarrow> s' \<in> set (snd (lex (stripHeredocs s))) \<or> (\<exists>eff \<in> set (walk_commands s). walk_hands_on eff = Some s')"

lemma walkRoot_None: "walkRoot m path = None \<longleftrightarrow> \<not> too_large m path"
  by (simp add: walkRoot_def too_large_def Let_def holds_def)

lemma first_walk_None: "first_walk m cwd ws = None \<longleftrightarrow> \<not> (\<exists>w \<in> set ws. \<exists>path. wordPath m w cwd = Some path \<and> too_large m path)"
proof (induction ws)
  case (Cons w ws)
  show ?case
  proof (cases "wordPath m w cwd")
    case (Some path)
    then show ?thesis using Cons.IH walkRoot_None [of m path] by (cases "walkRoot m path") auto
  qed (use Cons.IH in simp)
qed simp

lemma walk_command_mem:
  "v \<in> set (judge_walk_command m cwd sub piped raw) \<longleftrightarrow>
     (\<exists>what. program (effective raw) \<noteq> ''timeout'' \<and> program (effective raw) \<notin> set SHELLS \<and> v = walk_verdict (effective raw) what \<and>
        first_walk m cwd (roots (program (effective raw)) (tl (effective raw)) piped) = Some what) \<or>
     (\<exists>s'. walk_hands_on (effective raw) = Some s' \<and> v \<in> set (sub s'))"
proof -
  define eff where "eff = effective raw"
  define name where "name = program eff"
  show ?thesis
    unfolding judge_walk_command_def walk_hands_on_def Let_def eff_def [symmetric] name_def [symmetric]
    by (cases "name = ''timeout''"; cases "name \<in> set SHELLS"; cases "shellScript eff"; cases "first_walk m cwd (roots name (tl eff) piped)")
      (simp_all add: drop_Suc)
qed

lemma judge_walk_mem:
  "v \<in> set (judge_walk m cwd (Suc n) s) \<longleftrightarrow>
     (\<exists>eff what. eff \<in> set (walk_commands s) \<and> program eff \<noteq> ''timeout'' \<and> program eff \<notin> set SHELLS \<and> v = walk_verdict eff what \<and>
        first_walk m cwd (roots (program eff) (tl eff) (CHR ''|'' \<in> set (strip_or (stripHeredocs s)))) = Some what) \<or>
     (\<exists>s'. walk_opens s s' \<and> v \<in> set (judge_walk m cwd n s'))"
  by (auto simp: Let_def split_def walk_command_mem walk_opens_def walk_commands_def)

interpretation wg: command_guard "judge_walk m cwd" walk_opens "walk_refused m cwd" for m cwd
proof
  fix s cmd n
  assume "walk_refused m cwd s cmd"
  then obtain eff where e: "eff \<in> set (walk_commands s)" "program eff \<noteq> ''timeout''" "program eff \<notin> set SHELLS" "cmd = words eff"
    and w: "first_walk m cwd (roots (program eff) (tl eff) (CHR ''|'' \<in> set (strip_or (stripHeredocs s)))) \<noteq> None"
    unfolding walk_refused_def first_walk_None by blast
  then obtain what where
    "first_walk m cwd (roots (program eff) (tl eff) (CHR ''|'' \<in> set (strip_or (stripHeredocs s)))) = Some what" by blast
  with e have "walk_verdict eff what \<in> set (judge_walk m cwd (Suc n) s)" unfolding judge_walk_mem by blast
  then show "\<exists>v \<in> set (judge_walk m cwd (Suc n) s). vd_command v = cmd" using e(4) by (intro bexI) (simp_all add: walk_verdict_def)
next
  fix s s' n
  assume "walk_opens s s'"
  then show "set (judge_walk m cwd n s') \<subseteq> set (judge_walk m cwd (Suc n) s)" unfolding subset_iff judge_walk_mem by blast
next
  fix v n s
  assume "v \<in> set (judge_walk m cwd (Suc n) s)"
  then consider eff what where "eff \<in> set (walk_commands s)" "program eff \<noteq> ''timeout''" "program eff \<notin> set SHELLS" "v = walk_verdict eff what"
      "first_walk m cwd (roots (program eff) (tl eff) (CHR ''|'' \<in> set (strip_or (stripHeredocs s)))) \<noteq> None"
    | "\<exists>s'. walk_opens s s' \<and> v \<in> set (judge_walk m cwd n s')"
    unfolding judge_walk_mem by (metis option.distinct(1))
  then show "walk_refused m cwd s (vd_command v) \<or> (\<exists>s'. walk_opens s s' \<and> v \<in> set (judge_walk m cwd n s'))"
  proof cases
    case (1 eff what)
    then have "vd_command v = words eff" by (simp add: walk_verdict_def)
    then show ?thesis using 1(1-3,5) unfolding walk_refused_def first_walk_None by blast
  qed blast
qed simp

text \<open>
  The walk guard: the commands it refuses are exactly the \<open>find\<close>, \<open>rg\<close> and recursive \<open>grep\<close> commands, in the text or in one handed on at most six
  times from it, one of whose roots is home, the wiki content root or a folder that holds one of them; a walk with a depth of at most 3 has no roots.
\<close>
theorem judgeWalk_exact:
  "vd_command ` set (judgeWalk m s cwd) =
     (if WALK_HINT s then {cmd. \<exists>k \<le> 6. \<exists>s'. (walk_opens ^^ k) s s' \<and> walk_refused m cwd s' cmd} else {})"
  using wg.refused_commands [of m cwd 7 s] by (simp add: judgeWalk_def less_Suc_eq_le eval_nat_numeral)

section \<open>Holding a folder is being a prefix of its parts\<close>

definition path_part :: "string \<Rightarrow> bool" where
  "path_part p \<longleftrightarrow> p \<noteq> [] \<and> CHR ''/'' \<notin> set p"

definition slashed :: "string list \<Rightarrow> string" where
  "slashed ps = concat (map (\<lambda>p. CHR ''/'' # p) ps)"

lemma abs_path_slashed: "ps \<noteq> [] \<Longrightarrow> abs_path ps = slashed ps"
proof (induction ps rule: induct_list012)
  case (3 p q ps)
  then show ?case by (simp add: abs_path_def slashed_def)
qed (simp_all add: abs_path_def slashed_def)

lemma part_prefix:
  assumes "CHR ''/'' \<notin> set p" and "CHR ''/'' \<notin> set q" and "prefix (p @ CHR ''/'' # u) (q @ v)" and "v = [] \<or> hd v = CHR ''/''"
  shows "p = q \<and> prefix (CHR ''/'' # u) v"
proof -
  from assms(3) obtain z where z: "q @ v = p @ CHR ''/'' # u @ z" by (auto elim: prefixE)
  then have "CHR ''/'' \<in> set v" using assms(2) by (metis Un_iff in_set_conv_decomp set_append)
  then obtain w where v: "v = CHR ''/'' # w" using assms(4) by (cases v) auto
  have "takeWhile (\<lambda>c. c \<noteq> CHR ''/'') (q @ v) = q" unfolding v using assms(2) by (auto simp: takeWhile_tail)
  moreover have "takeWhile (\<lambda>c. c \<noteq> CHR ''/'') (q @ v) = p" unfolding z using assms(1) by (auto simp: takeWhile_tail)
  ultimately have "p = q" by simp
  with z show ?thesis by (auto simp: prefix_def)
qed

lemma slashed_start: "slashed qs = [] \<or> hd (slashed qs) = CHR ''/''"
  by (cases qs) (simp_all add: slashed_def)

lemma slashed_prefix:
  assumes "list_all path_part ps" and "list_all path_part qs" and "ps \<noteq> []"
  shows "prefix (slashed ps @ ''/'') (slashed qs) \<longleftrightarrow> strict_prefix ps qs"
  using assms
proof (induction ps arbitrary: qs)
  case (Cons p ps)
  show ?case
  proof (cases qs)
    case Nil
    then show ?thesis by (simp add: slashed_def)
  next
    case q: (Cons q qs')
    note part = part_prefix [where p = p and q = q and v = "slashed qs'"]
    have pq: "CHR ''/'' \<notin> set p" "CHR ''/'' \<notin> set q" using Cons.prems q by (auto simp: path_part_def)
    show ?thesis
    proof (cases ps)
      case Nil
      have "prefix (p @ ''/'') (q @ slashed qs') \<longleftrightarrow> p = q \<and> qs' \<noteq> []"
        using part [of "[]"] pq slashed_start [of qs'] by (cases qs') (auto simp: slashed_def)
      then show ?thesis using q Nil by (auto simp: slashed_def strict_prefix_def)
    next
      case p': (Cons p' ps')
      have "slashed ps @ ''/'' = CHR ''/'' # tl (slashed ps @ ''/'')" using p' by (simp add: slashed_def)
      then have "prefix (p @ slashed ps @ ''/'') (q @ slashed qs') \<longleftrightarrow> p = q \<and> prefix (slashed ps @ ''/'') (slashed qs')"
        using part [of "tl (slashed ps @ ''/'')"] pq slashed_start [of qs'] by auto
      also have "\<dots> \<longleftrightarrow> p = q \<and> strict_prefix ps qs'" using Cons.IH [of qs'] Cons.prems q p' by simp
      finally show ?thesis using q by (auto simp: slashed_def strict_prefix_def)
    qed
  qed
qed simp

lemma slashed_inj: "list_all path_part ps \<Longrightarrow> list_all path_part qs \<Longrightarrow> slashed qs = slashed ps \<longleftrightarrow> qs = ps"
proof -
  assume p: "list_all path_part ps" and q: "list_all path_part qs"
  have "js_split (CHR ''/'') (abs_path xs) = [] # xs" if "xs \<noteq> []" "list_all path_part xs" for xs
    using that js_split_join [of xs "CHR ''/''"] by (simp add: abs_path_def list_all_iff path_part_def)
  moreover have "slashed xs = [] \<longleftrightarrow> xs = []" for xs by (simp add: slashed_def)
  ultimately show ?thesis using p q abs_path_slashed by (metis list.inject)
qed

lemma slashed_last: "list_all path_part ps \<Longrightarrow> \<not> suffix ''/'' (slashed ps)"
proof (induction ps rule: rev_induct)
  case (snoc p ps)
  then have "path_part p" by simp
  then show ?case by (cases p rule: rev_cases) (auto simp: slashed_def path_part_def suffix_def)
qed (simp add: slashed_def)

text \<open>
  One folder holds another, in the walk guard's test on path texts, exactly when its parts are a prefix of the other's: \<open>/home/al\<close> does not hold
  \<open>/home/alice\<close>, and the root holds everything.
\<close>
theorem holds_parts:
  assumes "list_all path_part ps" and "list_all path_part qs"
  shows "holds (abs_path ps) (abs_path qs) \<longleftrightarrow> prefix ps qs"
proof (cases "ps = []")
  case True
  then show ?thesis by (simp add: holds_def abs_path_def)
next
  case p: False
  show ?thesis
  proof (cases "qs = []")
    case True
    obtain p1 ps1 where "ps = p1 # ps1" "p1 \<noteq> []" using p assms(1) by (cases ps) (auto simp: path_part_def)
    moreover have "js_join ''/'' (p1 # ps1) \<noteq> []" using calculation(2) by (cases ps1) simp_all
    ultimately show ?thesis using True by (auto simp: holds_def abs_path_def prefix_Cons)
  next
    case q: False
    then show ?thesis using slashed_last [OF assms(1)] p slashed_prefix [OF assms p] slashed_inj [OF assms]
      by (auto simp: holds_def abs_path_slashed strict_prefix_def)
  qed
qed

theorem holds_parts_witness:
  "holds (abs_path [''home'', ''al'']) (abs_path [''home'', ''al'', ''src'']) \<and> \<not> holds (abs_path [''home'', ''al'']) (abs_path [''home'', ''alice''])"
  using holds_parts [of "[''home'', ''al'']" "[''home'', ''al'', ''src'']"] holds_parts [of "[''home'', ''al'']" "[''home'', ''alice'']"]
  by (simp add: path_part_def)

text \<open>On a machine whose home is \<open>/h/al\<close> and where every path is its own real path.\<close>

definition plain_machine :: machine where
  "plain_machine = \<lparr>mc_home = ''/h/al'', mc_config = None, mc_realpath = (\<lambda>_. None), mc_cwd = ''/h/al/src''\<rparr>"

lemma judgeWalk_examples:
  "map vd_command (judgeWalk plain_machine ''grep -rn x ~'' ''/h/al/src'') = [''grep -rn x ~'']"
  "map vd_command (judgeWalk plain_machine ''cd /; R=$HOME; find $R/* -name x'' ''/h/al/src'') = [''find $HOME/* -name x'']"
  "judgeWalk plain_machine ''find ~ -maxdepth 3; rg x'' ''/h/al/src'' = []"
  by code_simp+

text \<open>
  Behind \<open>timeout\<close> every word with a dash is dropped, not only the options of \<open>timeout\<close> itself: a recursive grep of home passes because its \<open>-r\<close> is gone, and
  a shallow find of home is refused because its \<open>-maxdepth\<close> is.
\<close>

lemma timeout_drops_options:
  "judgeWalk plain_machine ''timeout 60 grep -r x ~'' ''/h/al/src'' = []"
  "map vd_command (judgeWalk plain_machine ''timeout 60 find ~ -maxdepth 3'' ''/h/al/src'') = [''find ~ 3'']"
  by code_simp+

end
