(* ===== verification/ArtifactLinks.thy ===== *)
theory ArtifactLinks
  imports Prelude
begin

text \<open>
  Artifact link targets (\<open>shared/artifact-link.ts\<close>): what the owner or an agent typed, its stored form, and what that form names. The engine's \<open>URL\<close>
  class and \<open>decodeURIComponent\<close> are arguments: a record with the parts of a parsed URL, \<open>None\<close> where the call throws. The theorems say that a stored
  form always names something, that storing it again changes nothing but a wiki path, and for which wiki paths it does.
\<close>

section \<open>Data\<close>

datatype ArtifactTarget =
    JobTarget string
  | ThreadTarget string "nat option"
  | WikiTarget string
  | FileTarget string
  | UrlTarget string

record url =
  url_protocol :: string
  url_port :: string
  url_pathname :: string
  url_hash :: string

record engine =
  en_url :: "string \<Rightarrow> url option"
  en_decode :: "string \<Rightarrow> string option"

section \<open>Patterns\<close>

definition alnum :: "char \<Rightarrow> bool" where
  "alnum c \<longleftrightarrow> (let n = (of_char c :: nat) in 48 \<le> n \<and> n \<le> 57 \<or> 65 \<le> n \<and> n \<le> 90 \<or> 97 \<le> n \<and> n \<le> 122)"

definition id_char :: "char \<Rightarrow> bool" where
  "id_char c \<longleftrightarrow> alnum c \<or> c = CHR ''_'' \<or> c = CHR ''-''"

definition SAFE_INTEGER :: nat where
  "SAFE_INTEGER = 9007199254740991"

text \<open>\<open>THREAD\<close>: \<open>/^([a-zA-Z0-9_-]{1,128})(?:@(\d{1,16}))?$/\<close>.\<close>

definition thread_match :: "string \<Rightarrow> (string \<times> string option) option" where
  "thread_match s =
     (let i = takeWhile id_char s; r = dropWhile id_char s in
      if i = [] \<or> length i > 128 then None
      else if r = [] then Some (i, None)
      else if hd r = CHR ''@'' \<and> tl r \<noteq> [] \<and> length (tl r) \<le> 16 \<and> list_all js_digit (tl r) then Some (i, Some (tl r)) else None)"

definition thread_target :: "string \<Rightarrow> ArtifactTarget option" where
  "thread_target s =
     (case thread_match s of
        None \<Rightarrow> None
      | Some (i, None) \<Rightarrow> Some (ThreadTarget i None)
      | Some (i, Some ds) \<Rightarrow> if nat_of_digits ds \<le> SAFE_INTEGER then Some (ThreadTarget i (Some (nat_of_digits ds))) else None)"

text \<open>\<open>JOB\<close>: \<open>/^(?=.{1,128}$)[^\s/](?:[^/\n\r\t]*[^\s/])?$/\<close>.\<close>

definition JOB :: "string \<Rightarrow> bool" where
  "JOB s \<longleftrightarrow> s \<noteq> [] \<and> length s \<le> 128 \<and> \<not> js_ws (hd s) \<and> \<not> js_ws (last s) \<and>
     list_all (\<lambda>c. c \<noteq> CHR ''/'' \<and> c \<noteq> CHR 10 \<and> c \<noteq> CHR 13 \<and> c \<noteq> CHR 9) s"

definition hex_digit :: "char \<Rightarrow> bool" where
  "hex_digit c \<longleftrightarrow> js_digit c \<or> (let n = (of_char c :: nat) in 65 \<le> n \<and> n \<le> 70 \<or> 97 \<le> n \<and> n \<le> 102)"

definition isSessionId :: "string \<Rightarrow> bool" where
  "isSessionId s \<longleftrightarrow> map length (js_split (CHR ''-'') s) = [8, 4, 4, 4, 12] \<and> list_all (list_all hex_digit) (js_split (CHR ''-'') s)"

definition CHAT_PORT :: string where "CHAT_PORT = ''5182''"
definition WIKI_PORT :: string where "WIKI_PORT = ''5176''"
definition WIKI_FRONT_PORT :: string where "WIKI_FRONT_PORT = ''5184''"
definition MAX_TARGET :: nat where "MAX_TARGET = 2048"

text \<open>\<open>HOST_PORT\<close> removed from the front: \<open>/^(?:[\w-]+\.)*[\w-]+:\d+(?=\/)/\<close>.\<close>

definition host_char :: "char \<Rightarrow> bool" where
  "host_char c \<longleftrightarrow> id_char c \<or> c = CHR ''.''"

definition drop_host_port :: "string \<Rightarrow> string" where
  "drop_host_port s =
     (let h = takeWhile host_char s; r = dropWhile host_char s; r2 = dropWhile js_digit (tl r) in
      if list_all (\<lambda>l. l \<noteq> []) (js_split (CHR ''.'') h) \<and> prefix '':'' r \<and> takeWhile js_digit (tl r) \<noteq> [] \<and> prefix ''/'' r2 then r2 else s)"

definition drop_slashes :: "string \<Rightarrow> string" where
  "drop_slashes s = dropWhile (\<lambda>c. c = CHR ''/'') s"

section \<open>Wiki pages and URLs\<close>

definition wikiPath :: "string \<Rightarrow> string option" where
  "wikiPath p =
     (let clean = drop_slashes p in
      if clean = [] \<or> CHR 0x00 \<in> set clean \<or> list_ex js_ws clean \<or> list_ex (\<lambda>part. part = ''..'' \<or> part = ''.'') (js_split (CHR ''/'') clean)
      then None else Some clean)"

definition decode :: "engine \<Rightarrow> string \<Rightarrow> string" where
  "decode en s = (case en_decode en s of Some d \<Rightarrow> d | None \<Rightarrow> '''')"

definition http_scheme :: "string \<Rightarrow> bool" where
  "http_scheme s =
     (let t = dropWhile (\<lambda>c. (of_char c :: nat) \<le> 32) (filter (\<lambda>c. c \<noteq> CHR 9 \<and> c \<noteq> CHR 10 \<and> c \<noteq> CHR 13) s);
          sch = js_lower (take 6 t)
      in prefix ''http:'' sch \<or> prefix ''https:'' sch)"

definition webUrl :: "engine \<Rightarrow> string \<Rightarrow> url option" where
  "webUrl en s =
     (if http_scheme s then
        (case en_url en s of Some u \<Rightarrow> if url_protocol u = ''https:'' \<or> url_protocol u = ''http:'' then Some u else None | None \<Rightarrow> None)
      else None)"

text \<open>What is left after \<open>/^(?:wiki\/(?!api\/)(?:page\/|raw\/)?|page\/|raw\/)/\<close>.\<close>

definition wiki_route :: "string \<Rightarrow> string option" where
  "wiki_route p =
     (let page = (\<lambda>q. if prefix ''page/'' q then Some (drop 5 q) else if prefix ''raw/'' q then Some (drop 4 q) else None) in
      if prefix ''wiki/'' p \<and> \<not> prefix ''api/'' (drop 5 p) then Some (case page (drop 5 p) of Some q \<Rightarrow> q | None \<Rightarrow> drop 5 p)
      else page p)"

definition before_query :: "string \<Rightarrow> string" where
  "before_query s = takeWhile (\<lambda>c. c \<noteq> CHR ''?'' \<and> c \<noteq> CHR ''#'') s"

definition wikiLinkPath :: "engine \<Rightarrow> string \<Rightarrow> string option" where
  "wikiLinkPath en s =
     (let u = webUrl en s;
          path = drop_slashes (decode en (case u of Some x \<Rightarrow> url_pathname x | None \<Rightarrow> drop_host_port (before_query s)))
      in case wiki_route path of
           None \<Rightarrow> if u \<noteq> None then None else wikiPath path
         | Some rest \<Rightarrow> wikiPath rest)"

section \<open>Targets\<close>

definition parseArtifactTarget :: "engine \<Rightarrow> string \<Rightarrow> ArtifactTarget option" where
  "parseArtifactTarget en t =
     (if t = [] \<or> length t > MAX_TARGET \<or> t \<noteq> js_trim t then None
      else if prefix ''job:'' t then (if JOB (drop 4 t) then Some (JobTarget (drop 4 t)) else None)
      else if prefix ''thread:'' t then thread_target (drop 7 t)
      else if prefix ''wiki:'' t then map_option WikiTarget (wikiLinkPath en (drop 5 t))
      else if prefix ''file:'' t then (if prefix ''/'' (drop 5 t) \<and> CHR 0x00 \<notin> set (drop 5 t) then Some (FileTarget (drop 5 t)) else None)
      else if webUrl en t \<noteq> None then Some (UrlTarget t) else None)"

definition url_target :: "engine \<Rightarrow> string \<Rightarrow> url \<Rightarrow> string option" where
  "url_target en text u =
     (case thread_target (decode en (drop 1 (url_hash u))) of
        Some (ThreadTarget i at) \<Rightarrow>
          if isSessionId i \<or> url_port u = CHAT_PORT
          then Some (''thread:'' @ i @ (case at of Some n \<Rightarrow> ''@'' @ digits_of_nat n | None \<Rightarrow> '''')) else None
      | _ \<Rightarrow> None)"

definition url_wiki :: "engine \<Rightarrow> string \<Rightarrow> url \<Rightarrow> string option" where
  "url_wiki en text u =
     (if url_port u = WIKI_PORT \<or> url_port u = WIKI_FRONT_PORT \<and> prefix ''/wiki/'' (url_pathname u) then wikiLinkPath en text else None)"

text \<open>The last part of \<open>normalizeArtifactTarget\<close>: a job with escapes decoded, and the parsed form.\<close>

definition typed_target :: "engine \<Rightarrow> string \<Rightarrow> string option" where
  "typed_target en text =
     (let decoded = ''job:'' @ decode en (drop 4 text) in
      if prefix ''job:'' text \<and> CHR ''%'' \<in> set text \<and> parseArtifactTarget en decoded \<noteq> None then Some decoded
      else (case parseArtifactTarget en text of Some (WikiTarget p) \<Rightarrow> Some (''wiki:'' @ p) | Some _ \<Rightarrow> Some text | None \<Rightarrow> None))"

definition normalizeArtifactTarget :: "engine \<Rightarrow> string \<Rightarrow> string option" where
  "normalizeArtifactTarget en input =
     (let text = js_trim input in
      if prefix ''/'' text then (if parseArtifactTarget en (''file:'' @ text) \<noteq> None then Some (''file:'' @ text) else None)
      else (case webUrl en text of
          None \<Rightarrow> typed_target en text
        | Some u \<Rightarrow>
            (case url_target en text u of
               Some t \<Rightarrow> Some t
             | None \<Rightarrow> (case url_wiki en text u of Some p \<Rightarrow> Some (''wiki:'' @ p) | None \<Rightarrow> typed_target en text))))"

section \<open>A stored target is stable\<close>

lemma scheme_free:
  "\<not> http_scheme (''file:'' @ s)" "\<not> http_scheme (''job:'' @ s)" "\<not> http_scheme (''thread:'' @ s)" "\<not> http_scheme (''wiki:'' @ s)"
  by (simp_all add: http_scheme_def Let_def js_lower_def lower_char_def)

lemma webUrl_free: "\<not> http_scheme s \<Longrightarrow> webUrl en s = None"
  by (simp add: webUrl_def)

lemma parse_trimmed: "parseArtifactTarget en t \<noteq> None \<Longrightarrow> js_trim t = t"
  by (auto simp: parseArtifactTarget_def split: if_splits)

lemma normalize_same:
  assumes "\<not> prefix ''/'' t" and "webUrl en t = None" and "parseArtifactTarget en t = Some a" and "\<not> (prefix ''job:'' t \<and> CHR ''%'' \<in> set t)"
    and "\<And>p. a \<noteq> WikiTarget p"
  shows "normalizeArtifactTarget en t = Some t"
proof -
  have "js_trim t = t" using assms(3) parse_trimmed [of en t] by simp
  moreover have "typed_target en t = Some t" using assms(3-5) by (cases a) (auto simp: typed_target_def Let_def)
  ultimately show ?thesis using assms(1,2) by (simp add: normalizeArtifactTarget_def)
qed

lemma digits_length: "n < 10 ^ k \<Longrightarrow> 0 < k \<Longrightarrow> length (digits_of_nat n) \<le> k"
proof (induction k arbitrary: n)
  case (Suc k)
  show ?case
  proof (cases "n < 10")
    case True
    then show ?thesis by (subst digits_of_nat.simps) simp
  next
    case False
    have "n div 10 < 10 ^ k" using Suc.prems(1) by (simp add: less_mult_imp_div_less mult.commute)
    moreover have "0 < k" using False Suc.prems(1) by (cases k) auto
    ultimately have "length (digits_of_nat (n div 10)) \<le> k" by (rule Suc.IH)
    then show ?thesis using False by (subst digits_of_nat.simps) simp
  qed
qed simp

lemma thread_id: "thread_target s = Some (ThreadTarget i a) \<Longrightarrow> i \<noteq> [] \<and> length i \<le> 128 \<and> list_all id_char i \<and> (\<forall>n. a = Some n \<longrightarrow> n \<le> SAFE_INTEGER)"
  by (auto simp: thread_target_def thread_match_def Let_def list_all_iff split: option.splits prod.splits if_splits dest: set_takeWhileD)

lemma thread_shown:
  assumes "i \<noteq> []" and "length i \<le> 128" and "list_all id_char i" and "\<forall>n. a = Some n \<longrightarrow> n \<le> SAFE_INTEGER"
  shows "thread_target (i @ (case a of Some n \<Rightarrow> ''@'' @ digits_of_nat n | None \<Rightarrow> '''')) = Some (ThreadTarget i a)"
proof (cases a)
  case None
  have t: "takeWhile id_char i = i" "dropWhile id_char i = []" using assms(3) by (simp_all add: list_all_iff takeWhile_eq_all_conv)
  have "thread_match i = Some (i, None)" unfolding thread_match_def t using assms(1,2) by simp
  then show ?thesis using None by (simp add: thread_target_def)
next
  case (Some n)
  have "\<not> id_char (CHR ''@'')" by (simp add: id_char_def alnum_def)
  then have t: "takeWhile id_char (i @ CHR ''@'' # digits_of_nat n) = i" "dropWhile id_char (i @ CHR ''@'' # digits_of_nat n) = CHR ''@'' # digits_of_nat n"
    using assms(3) by (simp_all add: list_all_iff takeWhile_tail dropWhile_append)
  have "n < 10 ^ 16" using assms(4) Some by (simp add: SAFE_INTEGER_def)
  then have "length (digits_of_nat n) \<le> 16" by (intro digits_length) simp_all
  moreover have "list_all js_digit (digits_of_nat n)" using digits_of_nat_digits by (simp add: list_all_iff)
  ultimately have "thread_match (i @ CHR ''@'' # digits_of_nat n) = Some (i, Some (digits_of_nat n))"
    unfolding thread_match_def t using assms(1,2) by simp
  then show ?thesis using Some assms(4) by (simp add: thread_target_def)
qed

lemma id_char_ws: "id_char c \<Longrightarrow> \<not> js_ws c"
  by (auto simp: id_char_def alnum_def js_ws_def Let_def)

lemma digit_ws: "js_digit c \<Longrightarrow> \<not> js_ws c"
  by (auto simp: js_digit_def js_ws_def)

lemma thread_text:
  assumes "thread_target s = Some (ThreadTarget i a)"
  defines "t \<equiv> ''thread:'' @ i @ (case a of Some n \<Rightarrow> ''@'' @ digits_of_nat n | None \<Rightarrow> '''')"
  shows "parseArtifactTarget en t = Some (ThreadTarget i a)"
proof -
  note i = thread_id [OF assms(1)]
  have shown: "thread_target (drop 7 t) = Some (ThreadTarget i a)" using i thread_shown [of i a] by (simp add: t_def)
  have "length (case a of Some n \<Rightarrow> ''@'' @ digits_of_nat n | None \<Rightarrow> '''') \<le> 17"
    using i digits_length [of _ 16] by (auto simp: SAFE_INTEGER_def split: option.splits)
  then have "length t \<le> MAX_TARGET" using i by (simp add: t_def MAX_TARGET_def)
  moreover have "js_trim t = t"
  proof (rule js_trim_id)
    have "\<not> js_ws (last i)" using i id_char_ws by (auto simp: list_all_iff)
    moreover have "\<not> js_ws (last (digits_of_nat n))" for n
      using digits_of_nat_digits [of n] digit_ws by (meson digits_of_nat_nonempty last_in_set)
    ultimately show "trimmed t" using i by (auto simp: t_def trimmed_def js_ws_def split: option.splits)
  qed
  ultimately show ?thesis using shown by (simp add: parseArtifactTarget_def t_def)
qed

text \<open>
  Storing an artifact link is stable: the stored form of whatever was typed names a target, and storing it again gives the same text, unless it is a wiki
  page or a job name with a percent sign, which are read once more each time.
\<close>
theorem normalize_stable:
  assumes "normalizeArtifactTarget en x = Some t" and "\<not> prefix ''wiki:'' t" and "\<not> (prefix ''job:'' t \<and> CHR ''%'' \<in> set t)"
  shows "normalizeArtifactTarget en t = Some t \<and> parseArtifactTarget en t \<noteq> None"
proof -
  define tx where "tx = js_trim x"
  have again: "normalizeArtifactTarget en tx = Some t" using assms(1) by (simp add: normalizeArtifactTarget_def tx_def)
  have typed: "normalizeArtifactTarget en t = Some t \<and> parseArtifactTarget en t \<noteq> None" if ty: "typed_target en tx = Some t"
  proof (cases "t = tx")
    case True
    then have "parseArtifactTarget en t \<noteq> None" using ty assms(2) by (auto simp: typed_target_def Let_def split: if_splits option.splits)
    then show ?thesis using again True by simp
  next
    case False
    then have t: "t = ''job:'' @ decode en (drop 4 tx)" "parseArtifactTarget en t \<noteq> None"
      using ty assms(2) by (auto simp: typed_target_def Let_def split: if_splits option.splits ArtifactTarget.splits)
    then obtain a where a: "parseArtifactTarget en t = Some a" by blast
    have "normalizeArtifactTarget en t = Some t"
    proof (rule normalize_same [OF _ _ a assms(3)])
      show "\<not> prefix ''/'' t" by (simp add: t(1))
      show "webUrl en t = None" unfolding t(1) by (intro webUrl_free scheme_free)
      show "a \<noteq> WikiTarget p" for p using a t(1) by (auto simp: parseArtifactTarget_def split: if_splits)
    qed
    then show ?thesis using a by simp
  qed
  show ?thesis
  proof (cases "prefix ''/'' tx")
    case True
    with again have t: "t = ''file:'' @ tx" "parseArtifactTarget en t \<noteq> None"
      by (auto simp: normalizeArtifactTarget_def tx_def Let_def split: if_splits)
    then obtain a where a: "parseArtifactTarget en t = Some a" by blast
    have "normalizeArtifactTarget en t = Some t"
    proof (rule normalize_same [OF _ _ a assms(3)])
      show "\<not> prefix ''/'' t" by (simp add: t(1))
      show "webUrl en t = None" unfolding t(1) by (intro webUrl_free scheme_free)
      show "a \<noteq> WikiTarget p" for p using a t(1) by (auto simp: parseArtifactTarget_def split: if_splits)
    qed
    then show ?thesis using a by simp
  next
    case False
    show ?thesis
    proof (cases "webUrl en tx")
      case None
      then show ?thesis using again False typed by (simp add: normalizeArtifactTarget_def tx_def)
    next
      case (Some u)
      show ?thesis
      proof (cases "url_target en tx u")
        case None
        then show ?thesis using again False typed Some assms(2)
          by (cases "url_wiki en tx u") (auto simp: normalizeArtifactTarget_def tx_def)
      next
        case th: (Some t')
        then have "t' = t" using again False Some by (simp add: normalizeArtifactTarget_def tx_def)
        with th obtain i a where ia: "thread_target (decode en (drop 1 (url_hash u))) = Some (ThreadTarget i a)"
          and t: "t = ''thread:'' @ i @ (case a of Some n \<Rightarrow> ''@'' @ digits_of_nat n | None \<Rightarrow> '''')"
          by (auto simp: url_target_def split: option.splits ArtifactTarget.splits if_splits)
        from thread_text [OF ia] t have p: "parseArtifactTarget en t = Some (ThreadTarget i a)" by simp
        have "normalizeArtifactTarget en t = Some t"
        proof (rule normalize_same [OF _ _ p assms(3)])
          show "\<not> prefix ''/'' t" by (simp add: t)
          show "webUrl en t = None" unfolding t by (intro webUrl_free scheme_free)
        qed simp
        then show ?thesis using p by simp
      qed
    qed
  qed
qed

text \<open>An engine that reads one pasted page of the chat and one of the wiki, and whose texts hold no escapes.\<close>

definition plain_engine :: engine where
  "plain_engine = \<lparr>en_url = (\<lambda>s.
      if s = ''http://h:5182/#abc'' then Some \<lparr>url_protocol = ''http:'', url_port = ''5182'', url_pathname = ''/'', url_hash = ''#abc''\<rparr>
      else None), en_decode = Some\<rparr>"

lemmas link_eval = normalizeArtifactTarget_def typed_target_def url_target_def url_wiki_def parseArtifactTarget_def webUrl_def http_scheme_def wikiLinkPath_def
  wiki_route_def wikiPath_def drop_slashes_def drop_host_port_def before_query_def decode_def thread_target_def thread_match_def plain_engine_def js_trim_def
  js_ws_def js_lower_def lower_char_def id_char_def alnum_def host_char_def CHAT_PORT_def MAX_TARGET_def

lemma plain_stored: "normalizeArtifactTarget plain_engine '' http://h:5182/#abc '' = Some ''thread:abc''"
  by (simp add: link_eval)

theorem normalize_stable_witness:
  "normalizeArtifactTarget plain_engine ''thread:abc'' = Some ''thread:abc'' \<and> parseArtifactTarget plain_engine ''thread:abc'' \<noteq> None"
  by (rule normalize_stable [OF plain_stored]) simp_all

text \<open>A wiki path loses one route each time it is read, so a page under a folder named \<open>page\<close> is stored as another page.\<close>

lemma wiki_path_read_twice:
  "normalizeArtifactTarget plain_engine ''wiki:page/page/a'' = Some ''wiki:page/a''"
  "parseArtifactTarget plain_engine ''wiki:page/a'' = Some (WikiTarget ''a'')"
  by (simp_all add: link_eval)

end
