(* ===== verification/BoardOps.thy ===== *)
theory BoardOps
  imports ArtifactLinks DutyFixes
begin

text \<open>
  The reducer of a chat's board (\<open>shared/chat-board.ts\<close>): the plan as a tree, goals and their targets, ids, and the seven operations of the owner and the agent.
  An operation gives the next board or an error with its kind; the sentences that describe a change, and the flags that only add sentences, are not
  modelled. Arguments: the engine's \<open>Date.parse\<close> and \<open>URL\<close>, and the two tests over English prose that change what is stored, which steps merge to a shared
  branch and which todos ask for a vendor's support.
\<close>

section \<open>Statuses and goals\<close>

definition open_status :: "PlanStatus \<Rightarrow> bool" where
  "open_status s \<longleftrightarrow> s = Todo \<or> s = Doing \<or> s = Blocked"

definition openTops :: "PlanItem list \<Rightarrow> PlanItem list" where
  "openTops plan = filter (\<lambda>p. open_status (pf_status (item p))) plan"

definition GOAL_PUSH_LINK :: string where
  "GOAL_PUSH_LINK = CHECK_IN_DUTY_ID @ ''/goal_gaps''"

definition numberedGoal :: "PlanItem \<Rightarrow> bool" where
  "numberedGoal p \<longleftrightarrow> pf_target (item p) \<noteq> None \<and> open_status (pf_status (item p)) \<and> pf_duty (item p) \<noteq> Some GOAL_PUSH_LINK \<and>
     (pf_duty (item p) = None \<or> children p \<noteq> [])"

text \<open>The items of a plan in the order of \<open>walk\<close>.\<close>

fun plan_items :: "PlanItem list \<Rightarrow> PlanItem list" where
  "plan_items [] = []"
| "plan_items (PlanItem f cs # ps) = PlanItem f cs # plan_items cs @ plan_items ps"

fun goals_below :: "PlanItem list \<Rightarrow> bool" where
  "goals_below [] = False"
| "goals_below (PlanItem f cs # ps) = (numberedGoal (PlanItem f cs) \<or> goals_below cs \<or> goals_below ps)"

definition goalBelow :: "PlanItem \<Rightarrow> bool" where
  "goalBelow p = goals_below (children p)"

fun goals_visit :: "bool \<Rightarrow> PlanItem list \<Rightarrow> PlanItem list" where
  "goals_visit tp [] = []"
| "goals_visit tp (PlanItem f cs # ps) =
     (if numberedGoal (PlanItem f cs) \<or> tp \<and> open_status (pf_status f) \<and> \<not> goals_below cs then [PlanItem f cs] else []) @
     goals_visit False cs @ goals_visit tp ps"

definition openGoals :: "PlanItem list \<Rightarrow> PlanItem list" where
  "openGoals plan = goals_visit True plan"

fun goals_by :: "PlanItem option \<Rightarrow> PlanItem list \<Rightarrow> (string \<times> PlanItem) list" where
  "goals_by goal [] = []"
| "goals_by goal (PlanItem f cs # ps) =
     (let own = (if numberedGoal (PlanItem f cs) then PlanItem f cs else (case goal of Some g \<Rightarrow> g | None \<Rightarrow> PlanItem f cs)) in
      (pf_id f, own) # goals_by (Some own) cs @ goals_by goal ps)"

definition goalsByItem :: "PlanItem list \<Rightarrow> (string \<times> PlanItem) list" where
  "goalsByItem plan = fold (\<lambda>(k, v). AList.update k v) (goals_by None plan) []"

fun goal_steps :: "PlanItem list \<Rightarrow> PlanItem list" where
  "goal_steps [] = []"
| "goal_steps (PlanItem f cs # ps) = (if numberedGoal (PlanItem f cs) then [] else PlanItem f cs # goal_steps cs) @ goal_steps ps"

definition walkGoal :: "PlanItem \<Rightarrow> PlanItem list" where
  "walkGoal g = g # goal_steps (children g)"

section \<open>Ids\<close>

datatype BoardErrorKind = Invalid | Forbidden | Unknown

type_synonym 'a board_res = "(BoardErrorKind \<times> string) + 'a"

definition emptyBoard :: "string \<Rightarrow> ChatBoard" where
  "emptyBoard now = \<lparr>cb_top = \<lparr>bt_rev = 0, bt_updatedAt = now, bt_lastIds = None\<rparr>, cb_plan = [], cb_todos = []\<rparr>"

text \<open>The number of an id \<open>/^([pt])(\d+)$/\<close> of the kind \<open>k\<close>.\<close>

definition id_number :: "char \<Rightarrow> string \<Rightarrow> nat option" where
  "id_number k i = (case i of c # ds \<Rightarrow> if c = k \<and> ds \<noteq> [] \<and> list_all js_digit ds then Some (nat_of_digits ds) else None | [] \<Rightarrow> None)"

definition board_ids :: "ChatBoard \<Rightarrow> string list" where
  "board_ids b = map item_id (plan_items (cb_plan b)) @ map td_id (cb_todos b)"

definition top_of :: "char \<Rightarrow> nat \<Rightarrow> string list \<Rightarrow> nat" where
  "top_of k start ids = fold (\<lambda>i n. case id_number k i of Some m \<Rightarrow> max n m | None \<Rightarrow> n) ids start"

definition idsTop :: "ChatBoard \<Rightarrow> nat \<times> nat" where
  "idsTop b =
     (case (case bt_lastIds (cb_top b) of Some l \<Rightarrow> l | None \<Rightarrow> (0, 0)) of (p, t) \<Rightarrow>
        (top_of (CHR ''p'') p (board_ids b), top_of (CHR ''t'') t (board_ids b)))"

definition p_id :: "nat \<Rightarrow> string" where
  "p_id n = CHR ''p'' # digits_of_nat n"

definition t_id :: "nat \<Rightarrow> string" where
  "t_id n = CHR ''t'' # digits_of_nat n"

section \<open>The tree\<close>

definition count :: "PlanItem list \<Rightarrow> nat" where
  "count ps = length (plan_items ps)"

definition openCount :: "PlanItem list \<Rightarrow> nat" where
  "openCount ps = length (filter (\<lambda>p. open_status (pf_status (item p))) (plan_items ps))"

fun find_item :: "PlanItem list \<Rightarrow> string \<Rightarrow> PlanItem list \<Rightarrow> (PlanItem \<times> PlanItem list) option" where
  "find_item [] i over = None"
| "find_item (PlanItem f cs # ps) i over =
     (if pf_id f = i then Some (PlanItem f cs, over)
      else (case find_item cs i (over @ [PlanItem f cs]) of Some r \<Rightarrow> Some r | None \<Rightarrow> find_item ps i over))"

fun map_item :: "PlanItem list \<Rightarrow> string \<Rightarrow> (PlanItem \<Rightarrow> PlanItem option) \<Rightarrow> PlanItem list" where
  "map_item [] i change = []"
| "map_item (PlanItem f cs # ps) i change =
     (if pf_id f = i then (case change (PlanItem f cs) of Some q \<Rightarrow> [q] | None \<Rightarrow> [])
      else [PlanItem f (map_item cs i change)]) @ map_item ps i change"

definition truthy_text :: "string option \<Rightarrow> bool" where
  "truthy_text x \<longleftrightarrow> x \<noteq> None \<and> x \<noteq> Some ''''"

text \<open>\<open>reclose\<close>: the plan with reopened items closed again once no step under them is open, and the ids it closed.\<close>

fun reclose :: "PlanItem list \<Rightarrow> PlanItem list \<times> string list" where
  "reclose [] = ([], [])"
| "reclose (PlanItem f cs # ps) =
     (case reclose cs of (kids, ids1) \<Rightarrow> case reclose ps of (rest, ids2) \<Rightarrow>
        if \<not> pf_reopened f \<or> truthy_text (pf_waitFor f) \<or> kids = [] \<or> list_ex (\<lambda>c. open_status (pf_status (item c))) kids
        then (PlanItem f kids # rest, ids1 @ ids2)
        else (PlanItem (f\<lparr>pf_reopened := False, pf_status := Done\<rparr>) kids # rest, ids1 @ [pf_id f] @ ids2))"

section \<open>Targets\<close>

record board_env =
  be_engine :: engine
  be_time :: "string \<Rightarrow> int option"
  be_merges :: "string \<Rightarrow> bool"
  be_vendor :: "string \<Rightarrow> string option"

definition inferredDirection :: "GoalTarget \<Rightarrow> direction option" where
  "inferredDirection g =
     (if gt_target g = 0 then Some Down
      else (case gt_current g of None \<Rightarrow> None | Some c \<Rightarrow> if c = gt_target g then None else if c > gt_target g then Some Down else Some Up))"

definition target_down :: "GoalTarget \<Rightarrow> bool" where
  "target_down g \<longleftrightarrow> (case gt_direction g of Some d \<Rightarrow> Some d | None \<Rightarrow> inferredDirection g) = Some Down"

definition time_gt :: "int option \<Rightarrow> int option \<Rightarrow> bool" where
  "time_gt a b = (case (a, b) of (Some x, Some y) \<Rightarrow> x > y | _ \<Rightarrow> False)"

definition time_ge :: "int option \<Rightarrow> int option \<Rightarrow> bool" where
  "time_ge a b = (case (a, b) of (Some x, Some y) \<Rightarrow> x \<ge> y | _ \<Rightarrow> False)"

text \<open>\<open>Date.parse\<close> of a time that is set.\<close>

definition set_time :: "board_env \<Rightarrow> string option \<Rightarrow> int option" where
  "set_time env t = (if truthy_text t then Option.bind t (be_time env) else None)"

definition newerReading :: "board_env \<Rightarrow> GoalTarget \<Rightarrow> GoalTarget option \<Rightarrow> string \<Rightarrow> GoalTarget" where
  "newerReading env next kept now =
     (case kept of
        None \<Rightarrow> next
      | Some k \<Rightarrow>
          if \<not> truthy_text (gt_measuredAt k) \<or> gt_current k = None \<or> gt_metric k \<noteq> gt_metric next then next
          else if time_gt (set_time env (gt_measuredAt k)) (be_time env now) then next
          else if truthy_text (gt_measuredAt next) \<and> time_ge (set_time env (gt_measuredAt next)) (set_time env (gt_measuredAt k)) then next
          else next\<lparr>gt_current := gt_current k, gt_measuredAt := gt_measuredAt k,
                 gt_source := (if gt_source k \<noteq> None then gt_source k else gt_source next)\<rparr>)"

definition storedTarget :: "board_env \<Rightarrow> GoalTarget \<Rightarrow> GoalTarget option \<Rightarrow> string \<Rightarrow> GoalTarget" where
  "storedTarget env next kept now =
     (let target = newerReading env next kept now;
          direction = (case gt_direction next of
              Some d \<Rightarrow> Some d
            | None \<Rightarrow> (case Option.bind kept gt_direction of Some d \<Rightarrow> Some d | None \<Rightarrow> inferredDirection target))
      in case direction of Some d \<Rightarrow> target\<lparr>gt_direction := Some d\<rparr> | None \<Rightarrow> target)"

definition targetMet :: "GoalTarget \<Rightarrow> bool" where
  "targetMet g = (case gt_current g of None \<Rightarrow> False | Some c \<Rightarrow> if target_down g then c \<le> gt_target g else c \<ge> gt_target g)"

definition measuredBy :: "board_env \<Rightarrow> GoalTarget option \<Rightarrow> string \<Rightarrow> unit board_res" where
  "measuredBy env g now =
     (if time_gt (set_time env (Option.bind g gt_measuredAt)) (map_option (\<lambda>n. n + 5 * 60000) (be_time env now))
      then Inl (Invalid, ''target.measuredAt is in the future; give the time the measurement was taken.'') else Inr ())"

definition TARGET_STALE_INTERVALS :: int where
  "TARGET_STALE_INTERVALS = 2"

definition targetStaleMs :: "GoalTarget \<Rightarrow> int \<Rightarrow> int" where
  "targetStaleMs g everyMs = (if gt_daily g then 24 * 60 * 60000 else TARGET_STALE_INTERVALS * everyMs)"

definition targetRatio :: "GoalTarget \<Rightarrow> rat" where
  "targetRatio g =
     (let c = (case gt_current g of Some c \<Rightarrow> c | None \<Rightarrow> 0) in
      if target_down g then (if c \<le> gt_target g then 1 else gt_target g / c) else if gt_target g = 0 then 1 else c / gt_target g)"

section \<open>Jobs, notes and gates\<close>

definition parsed_job :: "board_env \<Rightarrow> string \<Rightarrow> ArtifactTarget option" where
  "parsed_job env s = Option.bind (normalizeArtifactTarget (be_engine env) s) (parseArtifactTarget (be_engine env))"

definition planJob :: "board_env \<Rightarrow> string option \<Rightarrow> string option" where
  "planJob env job =
     (case map_option js_trim job of
        None \<Rightarrow> None
      | Some s \<Rightarrow> if s = [] then None else (case parsed_job env s of Some (ThreadTarget i _) \<Rightarrow> Some i | Some (JobTarget n) \<Rightarrow> Some n | _ \<Rightarrow> Some s))"

definition jobSession :: "board_env \<Rightarrow> string option \<Rightarrow> string option" where
  "jobSession env job =
     (case map_option js_trim job of
        None \<Rightarrow> None
      | Some s \<Rightarrow>
          if s = [] then None
          else (case parsed_job env s of Some (ThreadTarget i _) \<Rightarrow> Some i | _ \<Rightarrow> if isSessionId s then Some s else None))"

text \<open>\<open>/\bdone when\b/i\<close>: the text from the first match on; \<open>inside\<close> says whether the character before is one of a word.\<close>

definition word_char :: "char \<Rightarrow> bool" where
  "word_char c \<longleftrightarrow> alnum c \<or> c = CHR ''_''"

fun done_when :: "bool \<Rightarrow> string \<Rightarrow> string option" where
  "done_when inside [] = None"
| "done_when inside (c # cs) =
     (if \<not> inside \<and> js_lower (take 9 (c # cs)) = ''done when'' \<and> (case drop 9 (c # cs) of [] \<Rightarrow> True | d # _ \<Rightarrow> \<not> word_char d)
      then Some (c # cs) else done_when (word_char c) cs)"

text \<open>The sentence: up to the first full stop before a blank or the end.\<close>

fun sentence :: "string \<Rightarrow> string" where
  "sentence [] = []"
| "sentence (c # cs) = (if c = CHR ''.'' \<and> (case cs of [] \<Rightarrow> True | d # _ \<Rightarrow> js_ws d) then [c] else c # sentence cs)"

definition keepDoneLine :: "string option \<Rightarrow> string \<Rightarrow> string" where
  "keepDoneLine old note =
     (case done_when False (case old of Some t \<Rightarrow> t | None \<Rightarrow> []) of
        Some l \<Rightarrow> if done_when False note = None then take 9 l @ sentence (drop 9 l) @ '' '' @ note else note
      | None \<Rightarrow> note)"

definition linkable :: "duty_keys option \<Rightarrow> string option \<Rightarrow> string option \<Rightarrow> unit board_res" where
  "linkable duties link kept =
     (case duties of
        Some ds \<Rightarrow>
          if truthy_text link \<and> link \<noteq> kept
          then (case dutyLinkProblem (case link of Some l \<Rightarrow> l | None \<Rightarrow> []) ds of Some problem \<Rightarrow> Inl (Invalid, problem) | None \<Rightarrow> Inr ())
          else Inr ()
      | None \<Rightarrow> Inr ())"

definition set_text :: "string option \<Rightarrow> string option" where
  "set_text x = (if truthy_text x then x else None)"

definition gate_requirements :: "Requirement list option \<Rightarrow> Requirement list option" where
  "gate_requirements r = (if r = Some [] then None else r)"

fun markMerges :: "board_env \<Rightarrow> PlanItem list \<Rightarrow> PlanItem list" where
  "markMerges env [] = []"
| "markMerges env (PlanItem f cs # ps) =
     PlanItem (if \<not> pf_go f \<and> be_merges env (pf_text f) then f\<lparr>pf_go := True\<rparr> else f) (markMerges env cs) # markMerges env ps"

section \<open>Operations\<close>

record plan_input =
  in_id :: "string option"
  in_text :: string
  in_status :: "PlanStatus option"
  in_job :: "string option"
  in_sessionId :: "string option"
  in_note :: "string option"
  in_waitUntil :: "string option"
  in_waitFor :: "string option"
  in_target :: "GoalTarget option"
  in_duty :: "string option"
  in_go :: bool
  in_build :: bool
  in_requirements :: "Requirement list option"

datatype PlanItemInput = PlanItemInput plan_input "PlanItemInput list"

text \<open>A change of an item: \<open>None\<close> is a field left out, \<open>Some None\<close> one given as null.\<close>

record plan_change =
  pu_id :: string
  pu_parent :: "string option option"
  pu_text :: "string option"
  pu_status :: "PlanStatus option"
  pu_job :: "string option option"
  pu_sessionId :: "string option option"
  pu_note :: "string option option"
  pu_waitUntil :: "string option option"
  pu_waitFor :: "string option option"
  pu_go :: bool
  pu_build :: "bool option"
  pu_requirements :: "Requirement list option option"
  pu_target :: "GoalTarget option option"
  pu_duty :: "string option option"

record todo_change =
  tu_id :: string
  tu_text :: "string option"
  tu_done :: "bool option"
  tu_reply :: "string option option"
  tu_links :: "ArtifactLink list option"
  tu_choices :: "string list option option"

datatype BoardOp =
    PlanSet "PlanItemInput list"
  | PlanAdd "string option" plan_input
  | PlanUpdate plan_change
  | PlanRemove string
  | TodoAdd string "string list option" "string option" "ArtifactLink list option"
  | TodoUpdate todo_change
  | TodoRemove string

datatype BoardActor = Agent | Owner

fun owner_op :: "BoardOp \<Rightarrow> bool" where
  "owner_op (TodoAdd _ _ _ _) = True"
| "owner_op (TodoUpdate _) = True"
| "owner_op (TodoRemove _) = True"
| "owner_op _ = False"

definition unknown_item :: "string \<Rightarrow> string \<Rightarrow> 'a board_res" where
  "unknown_item what missing = Inl (Unknown, ''No '' @ what @ '' '' @ missing @ '' on the board. Read it again with no ops.'')"

text \<open>\<open>done\<close>: the next board. Only the agent changes the plan.\<close>

definition done_plan :: "board_env \<Rightarrow> ChatBoard \<Rightarrow> string \<Rightarrow> PlanItem list \<Rightarrow> ChatBoard" where
  "done_plan env b now plan =
     b\<lparr>cb_plan := markMerges env (fst (reclose plan)), cb_top := (cb_top b)\<lparr>bt_rev := cb_rev b + 1, bt_updatedAt := now\<rparr>\<rparr>"

definition done_todos :: "ChatBoard \<Rightarrow> string \<Rightarrow> OwnerTodo list \<Rightarrow> ChatBoard" where
  "done_todos b now todos = b\<lparr>cb_todos := todos, cb_top := (cb_top b)\<lparr>bt_rev := cb_rev b + 1, bt_updatedAt := now\<rparr>\<rparr>"

subsection \<open>plan_set\<close>

text \<open>
  The loop of \<open>fresh\<close>: the next number whose id is not claimed. It ends because each round passes one of the finitely many claimed ids.
\<close>

lemma p_id_inj: "p_id m = p_id n \<longleftrightarrow> m = n"
  by (simp add: p_id_def digits_of_nat_inj)

function fresh_number :: "string list \<Rightarrow> nat \<Rightarrow> nat" where
  "fresh_number claimed n = (if p_id (Suc n) \<in> set claimed then fresh_number claimed (Suc n) else Suc n)"
  by pat_completeness auto
termination
proof (relation "measure (\<lambda>(claimed, n). card {m. n < m \<and> p_id m \<in> set claimed})")
  fix claimed :: "string list" and n :: nat
  assume c: "p_id (Suc n) \<in> set claimed"
  have "finite (p_id -` set claimed)" by (intro finite_vimageI) (auto simp: inj_on_def p_id_inj)
  then have "finite {m. n < m \<and> p_id m \<in> set claimed}" by (rule rev_finite_subset) auto
  then have "card {m. Suc n < m \<and> p_id m \<in> set claimed} < card {m. n < m \<and> p_id m \<in> set claimed}"
    using c by (intro psubset_card_mono) auto
  then show "((claimed, Suc n), claimed, n) \<in> measure (\<lambda>(claimed, n). card {m. n < m \<and> p_id m \<in> set claimed})" by simp
qed simp

declare fresh_number.simps [simp del]

fun input_ids :: "PlanItemInput list \<Rightarrow> string list" where
  "input_ids [] = []"
| "input_ids (PlanItemInput i cs # ps) = (case set_text (in_id i) of Some s \<Rightarrow> [s] | None \<Rightarrow> []) @ input_ids cs @ input_ids ps"

record id_state =
  is_claimed :: "string list"
  is_used :: "string list"
  is_last :: nat

definition take_id :: "plan_input \<Rightarrow> id_state \<Rightarrow> string \<times> id_state" where
  "take_id i st =
     (case set_text (in_id i) of
        Some s \<Rightarrow>
          if s \<notin> set (is_used st) then (s, st\<lparr>is_used := s # is_used st\<rparr>)
          else (let n = fresh_number (is_claimed st) (is_last st) in
                (p_id n, st\<lparr>is_claimed := p_id n # is_claimed st, is_used := p_id n # is_used st, is_last := n\<rparr>))
      | None \<Rightarrow>
          (let n = fresh_number (is_claimed st) (is_last st) in
           (p_id n, st\<lparr>is_claimed := p_id n # is_claimed st, is_used := p_id n # is_used st, is_last := n\<rparr>)))"

definition build_fields :: "board_env \<Rightarrow> duty_keys option \<Rightarrow> ChatBoard \<Rightarrow> string \<Rightarrow> plan_input \<Rightarrow> string \<Rightarrow> plan_fields board_res" where
  "build_fields env duties b now i itemId =
     (let kept = (if in_id i = Some itemId then map_option (item \<circ> fst) (find_item (cb_plan b) itemId []) else None);
          job = planJob env (in_job i);
          session = (case in_sessionId i of
              Some s \<Rightarrow> Some s
            | None \<Rightarrow> (case jobSession env (in_job i) of
                Some s \<Rightarrow> Some s
              | None \<Rightarrow> if truthy_text job \<and> job = Option.bind kept pf_job then Option.bind kept pf_sessionId else None));
          target = (case in_target i of Some g \<Rightarrow> Some (storedTarget env g (Option.bind kept pf_target) now) | None \<Rightarrow> Option.bind kept pf_target);
          duty = (case in_duty i of Some d \<Rightarrow> Some d | None \<Rightarrow> Option.bind kept pf_duty)
      in rbind (linkable duties (in_duty i) (Option.bind kept pf_duty)) (\<lambda>_.
         rbind (measuredBy env (in_target i) now) (\<lambda>_.
         Inr \<lparr>pf_id = itemId, pf_text = in_text i, pf_status = (case in_status i of Some s \<Rightarrow> s | None \<Rightarrow> Todo), pf_job = set_text job,
           pf_note = set_text (in_note i), pf_waitUntil = set_text (in_waitUntil i), pf_waitFor = set_text (in_waitFor i), pf_sessionId = set_text session,
           pf_go = (in_go i \<or> (case kept of Some k \<Rightarrow> pf_go k | None \<Rightarrow> False)),
           pf_build = (in_build i \<or> (case kept of Some k \<Rightarrow> pf_build k | None \<Rightarrow> False)),
           pf_requirements = gate_requirements (case in_requirements i of Some r \<Rightarrow> Some r | None \<Rightarrow> Option.bind kept pf_requirements),
           pf_target = target, pf_duty = set_text duty, pf_reopened = False\<rparr>)))"

fun build :: "board_env \<Rightarrow> duty_keys option \<Rightarrow> ChatBoard \<Rightarrow> string \<Rightarrow> PlanItemInput list \<Rightarrow> id_state \<Rightarrow> (PlanItem list \<times> id_state) board_res" where
  "build env duties b now [] st = Inr ([], st)"
| "build env duties b now (PlanItemInput i cs # ps) st =
     (case take_id i st of (itemId, st1) \<Rightarrow>
        rbind (build_fields env duties b now i itemId) (\<lambda>f.
        rbind (build env duties b now cs st1) (\<lambda>(kids, st2).
        rbind (build env duties b now ps st2) (\<lambda>(rest, st3). Inr (PlanItem f kids # rest, st3)))))"

definition plan_set :: "board_env \<Rightarrow> duty_keys option \<Rightarrow> ChatBoard \<Rightarrow> string \<Rightarrow> PlanItemInput list \<Rightarrow> ChatBoard board_res" where
  "plan_set env duties b now items =
     rbind (build env duties b now items \<lparr>is_claimed = input_ids items, is_used = [], is_last = fst (idsTop b)\<rparr>)
       (\<lambda>(plan, _). Inr (done_plan env b now plan))"

subsection \<open>plan_add, plan_update, plan_remove\<close>

definition reopen :: "PlanItem \<Rightarrow> PlanItem option" where
  "reopen p = Some (PlanItem ((item p)\<lparr>pf_status := Todo, pf_reopened := True\<rparr>) (children p))"

definition reopen_all :: "string list \<Rightarrow> PlanItem list \<Rightarrow> PlanItem list" where
  "reopen_all ids plan = fold (\<lambda>i ps. map_item ps i reopen) ids plan"

definition add_child :: "PlanItem \<Rightarrow> PlanItem \<Rightarrow> PlanItem option" where
  "add_child c p = Some (PlanItem (item p) (children p @ [c]))"

definition done_ids :: "PlanItem list \<Rightarrow> string list" where
  "done_ids ps = map item_id (filter (\<lambda>p. pf_status (item p) = Done) ps)"

definition new_item :: "board_env \<Rightarrow> ChatBoard \<Rightarrow> string \<Rightarrow> plan_input \<Rightarrow> PlanItem" where
  "new_item env b now i =
     PlanItem \<lparr>pf_id = p_id (Suc (fst (idsTop b))), pf_text = in_text i, pf_status = (case in_status i of Some s \<Rightarrow> s | None \<Rightarrow> Todo),
       pf_job = set_text (planJob env (in_job i)), pf_note = set_text (in_note i), pf_waitUntil = set_text (in_waitUntil i),
       pf_waitFor = set_text (in_waitFor i),
       pf_sessionId = set_text (case in_sessionId i of Some s \<Rightarrow> Some s | None \<Rightarrow> jobSession env (in_job i)),
       pf_go = in_go i, pf_build = in_build i, pf_requirements = gate_requirements (in_requirements i),
       pf_target = map_option (\<lambda>g. storedTarget env g None now) (in_target i), pf_duty = set_text (in_duty i), pf_reopened = False\<rparr> []"

definition insert_item :: "board_env \<Rightarrow> ChatBoard \<Rightarrow> string \<Rightarrow> string option \<Rightarrow> PlanItem \<Rightarrow> ChatBoard board_res" where
  "insert_item env b now parent c =
     (case parent of
        None \<Rightarrow> Inr (done_plan env b now (cb_plan b @ [c]))
      | Some par \<Rightarrow>
          (case find_item (cb_plan b) par [] of
             None \<Rightarrow> unknown_item ''plan item'' par
           | Some (p, over) \<Rightarrow> Inr (done_plan env b now (reopen_all (done_ids (over @ [p])) (map_item (cb_plan b) par (add_child c))))))"

definition plan_add :: "board_env \<Rightarrow> duty_keys option \<Rightarrow> ChatBoard \<Rightarrow> string \<Rightarrow> string option \<Rightarrow> plan_input \<Rightarrow> ChatBoard board_res" where
  "plan_add env duties b now parent i =
     rbind (measuredBy env (in_target i) now) (\<lambda>_.
     rbind (linkable duties (in_duty i) None) (\<lambda>_. insert_item env b now parent (new_item env b now i)))"

text \<open>A field given as text, as null or left out.\<close>

definition changed_text :: "string option option \<Rightarrow> string option \<Rightarrow> string option" where
  "changed_text new old = (case new of None \<Rightarrow> old | Some v \<Rightarrow> v)"

definition changed_job :: "board_env \<Rightarrow> plan_change \<Rightarrow> plan_fields \<Rightarrow> plan_fields" where
  "changed_job env u f =
     (let job = (case pu_job u of None \<Rightarrow> None | Some None \<Rightarrow> Some None | Some (Some j) \<Rightarrow> Some (planJob env (Some j)));
          session = (if job = Some None \<or> pu_sessionId u = Some None then None
            else (case pu_sessionId u of
                Some (Some s) \<Rightarrow> Some s
              | _ \<Rightarrow> (case jobSession env (Option.bind (pu_job u) (\<lambda>j. j)) of
                  Some s \<Rightarrow> Some s
                | None \<Rightarrow> if job = None \<or> job = Some (pf_job f) then pf_sessionId f else None)))
      in if job = Some None then f\<lparr>pf_job := None, pf_sessionId := None\<rparr>
         else if job \<noteq> None \<and> job \<noteq> Some (pf_job f) \<or> session \<noteq> pf_sessionId f
         then f\<lparr>pf_job := (case job of Some j \<Rightarrow> j | None \<Rightarrow> pf_job f), pf_sessionId := set_text session\<rparr>
         else f)"

definition changed_note :: "plan_change \<Rightarrow> plan_fields \<Rightarrow> plan_fields" where
  "changed_note u f =
     (case pu_note u of
        None \<Rightarrow> f
      | Some None \<Rightarrow> f\<lparr>pf_note := None\<rparr>
      | Some (Some n) \<Rightarrow> if Some n = pf_note f then f else f\<lparr>pf_note := Some (keepDoneLine (pf_note f) n)\<rparr>)"

definition changed_duty :: "duty_keys option \<Rightarrow> plan_change \<Rightarrow> plan_fields \<Rightarrow> plan_fields board_res" where
  "changed_duty duties u f =
     (case pu_duty u of
        Some None \<Rightarrow> Inr (f\<lparr>pf_duty := None\<rparr>)
      | Some (Some d) \<Rightarrow> if d \<noteq> [] \<and> Some d \<noteq> pf_duty f then rbind (linkable duties (Some d) None) (\<lambda>_. Inr (f\<lparr>pf_duty := Some d\<rparr>)) else Inr f
      | None \<Rightarrow> Inr f)"

definition changed_target :: "board_env \<Rightarrow> string \<Rightarrow> plan_change \<Rightarrow> plan_fields \<Rightarrow> plan_fields board_res" where
  "changed_target env now u f =
     (case pu_target u of
        Some None \<Rightarrow> Inr (f\<lparr>pf_target := None\<rparr>)
      | Some (Some g) \<Rightarrow>
          (let st = Some (storedTarget env g (pf_target f) now) in
           if st \<noteq> pf_target f then rbind (measuredBy env (Some g) now) (\<lambda>_. Inr (f\<lparr>pf_target := st\<rparr>)) else Inr f)
      | None \<Rightarrow> Inr f)"

text \<open>The fields of \<open>next\<close> in the order the code sets them.\<close>

definition changed_fields :: "board_env \<Rightarrow> duty_keys option \<Rightarrow> string \<Rightarrow> plan_change \<Rightarrow> plan_fields \<Rightarrow> plan_fields board_res" where
  "changed_fields env duties now u f0 =
     (let f1 = f0\<lparr>pf_text := (case pu_text u of Some t \<Rightarrow> t | None \<Rightarrow> pf_text f0),
            pf_reopened := (pf_reopened f0 \<and> pu_status u = None), pf_status := (case pu_status u of Some s \<Rightarrow> s | None \<Rightarrow> pf_status f0)\<rparr>;
          f2 = changed_note u (changed_job env u f1);
          f3 = f2\<lparr>pf_waitUntil := changed_text (pu_waitUntil u) (pf_waitUntil f2), pf_waitFor := changed_text (pu_waitFor u) (pf_waitFor f2),
            pf_go := (pf_go f2 \<or> pu_go u), pf_build := (case pu_build u of None \<Rightarrow> pf_build f2 | Some k \<Rightarrow> k),
            pf_requirements := (case pu_requirements u of None \<Rightarrow> pf_requirements f2 | Some r \<Rightarrow> r)\<rparr>
      in rbind (changed_duty duties u f3) (changed_target env now u))"

text \<open>Where the item goes: \<open>None\<close> is the top level.\<close>

definition destination :: "ChatBoard \<Rightarrow> PlanItem \<Rightarrow> string option \<Rightarrow> (PlanItem \<times> PlanItem list) option board_res" where
  "destination b p parent =
     (case parent of
        None \<Rightarrow> Inr None
      | Some par \<Rightarrow>
          (case find_item (cb_plan b) par [] of
             None \<Rightarrow> unknown_item ''plan item'' par
           | Some (q, up) \<Rightarrow>
               if item_id q = item_id p \<or> list_ex (\<lambda>a. item_id a = item_id p) up
               then Inl (Invalid, item_id p @ '' cannot move under itself or under one of its own steps.'') else Inr (Some (q, up))))"

definition moved_plan :: "PlanItem list \<Rightarrow> string \<Rightarrow> (PlanItem \<times> PlanItem list) option \<Rightarrow> PlanItem \<Rightarrow> PlanItem list" where
  "moved_plan ps i dest c =
     (let rest = map_item ps i (\<lambda>_. None) in
      case dest of
        None \<Rightarrow> rest @ [c]
      | Some (q, up) \<Rightarrow>
          reopen_all (if open_status (pf_status (item c)) then done_ids (up @ [q]) else []) (map_item rest (item_id q) (add_child c)))"

definition plan_update :: "board_env \<Rightarrow> duty_keys option \<Rightarrow> ChatBoard \<Rightarrow> string \<Rightarrow> plan_change \<Rightarrow> ChatBoard board_res" where
  "plan_update env duties b now u =
     (case find_item (cb_plan b) (pu_id u) [] of
        None \<Rightarrow> unknown_item ''plan item'' (pu_id u)
      | Some (p, over) \<Rightarrow>
          (let home = (if over = [] then None else Some (item_id (last over))) in
           case pu_parent u of
             Some parent \<Rightarrow>
               if parent \<noteq> home then
                 rbind (destination b p parent) (\<lambda>dest.
                 rbind (changed_fields env duties now u (item p)) (\<lambda>f.
                   Inr (done_plan env b now (moved_plan (cb_plan b) (pu_id u) dest (PlanItem f (children p))))))
               else rbind (changed_fields env duties now u (item p)) (\<lambda>f.
                 Inr (done_plan env b now (map_item (cb_plan b) (pu_id u) (\<lambda>_. Some (PlanItem f (children p))))))
           | None \<Rightarrow> rbind (changed_fields env duties now u (item p)) (\<lambda>f.
               Inr (done_plan env b now (map_item (cb_plan b) (pu_id u) (\<lambda>_. Some (PlanItem f (children p))))))))"

definition plan_remove :: "board_env \<Rightarrow> ChatBoard \<Rightarrow> string \<Rightarrow> string \<Rightarrow> ChatBoard board_res" where
  "plan_remove env b now i =
     (case find_item (cb_plan b) i [] of
        None \<Rightarrow> unknown_item ''plan item'' i
      | Some _ \<Rightarrow> Inr (done_plan env b now (map_item (cb_plan b) i (\<lambda>_. None))))"

subsection \<open>Todos\<close>

definition list_or_empty :: "'a list option \<Rightarrow> 'a list" where
  "list_or_empty xs = (case xs of Some l \<Rightarrow> l | None \<Rightarrow> [])"

definition VENDOR_SUPPORT_ERROR :: string where
  \<open>VENDOR_SUPPORT_ERROR =
     ''Refused: the owner never asks a vendor's support for help and never wants to be asked to approve it (c79, owner 10-15 '' @
     ''"NEVER EVER LEAVE SUPPORT", 10-19 "NONONO" on a GitHub Support todo). Solve it yourself through the vendor's portal, its API, the box's '' @
     ''remote console and SSH. If no self-serve path exists, write that limit in the step's note as a known gap and drop the support step; '' @
     ''put no ticket, chat, request or complaint to a vendor on For you.''\<close>

definition refuseVendorSupport :: "board_env \<Rightarrow> string \<Rightarrow> string list option \<Rightarrow> unit board_res" where
  \<open>refuseVendorSupport env t choices =
     (case List.map_filter (be_vendor env) (t # list_or_empty choices) of
        ask # _ \<Rightarrow> if ask \<noteq> [] then Inl (Forbidden, VENDOR_SUPPORT_ERROR @ '' It reads: "'' @ ask @ ''"'') else Inr ()
      | [] \<Rightarrow> Inr ())\<close>

definition todo_add :: "board_env \<Rightarrow> ChatBoard \<Rightarrow> BoardActor \<Rightarrow> string \<Rightarrow> string \<Rightarrow> string list option \<Rightarrow> string option \<Rightarrow> ArtifactLink list option \<Rightarrow> ChatBoard board_res" where
  "todo_add env b actor now t choices step links =
     (if actor = Agent \<and> step \<noteq> None \<and> find_item (cb_plan b) (case step of Some s \<Rightarrow> s | None \<Rightarrow> []) [] = None
      then unknown_item ''plan item'' (case step of Some s \<Rightarrow> s | None \<Rightarrow> [])
      else rbind (if actor = Agent then refuseVendorSupport env t choices else Inr ()) (\<lambda>_.
        Inr (done_todos b now (cb_todos b @
          [\<lparr>td_id = t_id (Suc (snd (idsTop b))), td_text = t, td_done = False, td_reply = None, td_choices = choices, td_fromAgent = (actor = Agent),
            td_at = now, td_step = set_text step, td_answeredByOwner = False, td_links = links\<rparr>]))))"

definition AGENT_REPLY_ERROR :: string where
  "AGENT_REPLY_ERROR = ''Only the owner answers a todo; the agent cannot write or clear an answer. Ask with a todo and let the owner answer it on the board.''"

definition new_choices :: "todo_change \<Rightarrow> OwnerTodo \<Rightarrow> bool" where
  "new_choices u t =
     (case tu_choices u of
        None \<Rightarrow> False
      | Some c \<Rightarrow> js_join [CHR 10] (list_or_empty c) \<noteq> js_join [CHR 10] (list_or_empty (td_choices t)))"

definition new_question :: "todo_change \<Rightarrow> OwnerTodo \<Rightarrow> bool" where
  "new_question u t \<longleftrightarrow> tu_text u \<noteq> None \<and> tu_text u \<noteq> Some (td_text t) \<or> new_choices u t"

definition changed_reply :: "todo_change \<Rightarrow> OwnerTodo \<Rightarrow> OwnerTodo" where
  "changed_reply u t =
     (case tu_reply u of
        None \<Rightarrow> t
      | Some None \<Rightarrow> t\<lparr>td_reply := None, td_answeredByOwner := False\<rparr>
      | Some (Some r) \<Rightarrow> if Some r = td_reply t then t else t\<lparr>td_reply := Some r, td_answeredByOwner := True\<rparr>)"

definition changed_todo :: "todo_change \<Rightarrow> OwnerTodo \<Rightarrow> OwnerTodo" where
  "changed_todo u t =
     changed_reply u (t\<lparr>td_text := (case tu_text u of Some x \<Rightarrow> x | None \<Rightarrow> td_text t),
       td_links := (case tu_links u of None \<Rightarrow> td_links t | Some l \<Rightarrow> if l = [] then None else Some l),
       td_choices := (if new_choices u t then (case tu_choices u of Some (Some c) \<Rightarrow> if c = [] then None else Some c | _ \<Rightarrow> None) else td_choices t),
       td_done := (case tu_done u of Some d \<Rightarrow> d | None \<Rightarrow> td_done t)\<rparr>)"

definition todo_update :: "board_env \<Rightarrow> ChatBoard \<Rightarrow> BoardActor \<Rightarrow> string \<Rightarrow> todo_change \<Rightarrow> ChatBoard board_res" where
  "todo_update env b actor now u =
     (case List.find (\<lambda>t. td_id t = tu_id u) (cb_todos b) of
        None \<Rightarrow> unknown_item ''todo'' (tu_id u)
      | Some t \<Rightarrow>
          if actor = Agent \<and> tu_reply u \<noteq> None then Inl (Forbidden, AGENT_REPLY_ERROR)
          else if actor = Agent \<and> td_answeredByOwner t \<and> new_question u t
          then Inl (Forbidden, ''The owner answered this todo; its question stays as asked. Add a new todo for a new question.'')
          else rbind (if actor = Agent \<and> new_question u t
                then refuseVendorSupport env (case tu_text u of Some x \<Rightarrow> x | None \<Rightarrow> td_text t) (case tu_choices u of Some c \<Rightarrow> c | None \<Rightarrow> td_choices t)
                else Inr ()) (\<lambda>_.
            Inr (done_todos b now (map (\<lambda>x. if td_id x = tu_id u then changed_todo u t else x) (cb_todos b)))))"

definition todo_remove :: "ChatBoard \<Rightarrow> string \<Rightarrow> string \<Rightarrow> ChatBoard board_res" where
  "todo_remove b now i =
     (case List.find (\<lambda>t. td_id t = i) (cb_todos b) of
        None \<Rightarrow> unknown_item ''todo'' i
      | Some _ \<Rightarrow> Inr (done_todos b now (filter (\<lambda>t. td_id t \<noteq> i) (cb_todos b))))"

text \<open>\<open>applyBoardOp\<close> with the ids \<open>nextIds\<close> of the same board gives, as every caller passes them.\<close>

definition applyBoardOp :: "board_env \<Rightarrow> ChatBoard \<Rightarrow> BoardOp \<Rightarrow> BoardActor \<Rightarrow> string \<Rightarrow> duty_keys option \<Rightarrow> ChatBoard board_res" where
  "applyBoardOp env b op actor now duties =
     (if actor = Owner \<and> \<not> owner_op op then Inl (Forbidden, ''The owner changes the todos; the agent keeps the plan.'')
      else (case op of
          PlanSet items \<Rightarrow> plan_set env duties b now items
        | PlanAdd parent i \<Rightarrow> plan_add env duties b now parent i
        | PlanUpdate u \<Rightarrow> plan_update env duties b now u
        | PlanRemove i \<Rightarrow> plan_remove env b now i
        | TodoAdd t choices step links \<Rightarrow> todo_add env b actor now t choices step links
        | TodoUpdate u \<Rightarrow> todo_update env b actor now u
        | TodoRemove i \<Rightarrow> todo_remove b now i))"

text \<open>The loop of the chat server's \<open>apply\<close>: a batch of operations, whose first error leaves the stored board as it was.\<close>

fun apply_ops :: "board_env \<Rightarrow> ChatBoard \<Rightarrow> BoardOp list \<Rightarrow> BoardActor \<Rightarrow> string \<Rightarrow> ChatBoard board_res" where
  "apply_ops env b [] actor now = Inr b"
| "apply_ops env b (op # ops) actor now = rbind (applyBoardOp env b op actor now None) (\<lambda>b'. apply_ops env b' ops actor now)"

text \<open>\<open>linkStepSessions\<close>; the map of links has a step's job and its session.\<close>

fun link_visit :: "(string \<Rightarrow> (string \<times> string) option) \<Rightarrow> PlanItem list \<Rightarrow> PlanItem list \<times> bool" where
  "link_visit links [] = ([], False)"
| "link_visit links (PlanItem f cs # ps) =
     (case link_visit links cs of (kids, c1) \<Rightarrow> case link_visit links ps of (rest, c2) \<Rightarrow>
        (case links (pf_id f) of
           Some (job, session) \<Rightarrow>
             if \<not> truthy_text (pf_sessionId f) \<and> pf_job f = Some job then (PlanItem (f\<lparr>pf_sessionId := Some session\<rparr>) kids # rest, True)
             else (PlanItem f kids # rest, c1 \<or> c2)
         | None \<Rightarrow> (PlanItem f kids # rest, c1 \<or> c2)))"

definition linkStepSessions :: "ChatBoard \<Rightarrow> (string \<Rightarrow> (string \<times> string) option) \<Rightarrow> string \<Rightarrow> ChatBoard option" where
  "linkStepSessions b links now =
     (case link_visit links (cb_plan b) of (plan, chg) \<Rightarrow>
        if chg then Some (b\<lparr>cb_plan := plan, cb_top := (cb_top b)\<lparr>bt_rev := cb_rev b + 1, bt_updatedAt := now\<rparr>\<rparr>) else None)"

text \<open>\<open>planCounts\<close>: the steps done and the steps not dropped.\<close>

definition planCounts :: "PlanItem list \<Rightarrow> nat \<times> nat" where
  "planCounts ps =
     (length (filter (\<lambda>p. pf_status (item p) = Done) (plan_items ps)), length (filter (\<lambda>p. pf_status (item p) \<noteq> Dropped) (plan_items ps)))"

end
