(* ===== verification/BoardParse.thy ===== *)
theory BoardParse
  imports BoardOps Json
begin

text \<open>
  Board operations as they arrive (\<open>parseBoardOp\<close> of \<open>shared/chat-board.ts\<close>): an untrusted JSON value becomes an operation or an error that says what is wrong. \<open>to_iso\<close> is
  \<open>toISOString\<close> of a time. The theorems give the type of what the parser lets through and show that the reducer, fed by it, keeps that type on the board.
\<close>

section \<open>Fields\<close>

definition invalid_op :: "string \<Rightarrow> 'a board_res" where
  "invalid_op msg = Inl (Invalid, msg)"

definition bstr :: "json option \<Rightarrow> string \<Rightarrow> string board_res" where
  "bstr v fld =
     (case v of
        Some (JStr s) \<Rightarrow> if js_trim s = [] then invalid_op (fld @ '' cannot be empty.'') else Inr s
      | _ \<Rightarrow> invalid_op (fld @ '' must be text.''))"

definition optStr :: "json option \<Rightarrow> string \<Rightarrow> string option board_res" where
  "optStr v fld = (if v = None then Inr None else rbind (bstr v fld) (\<lambda>s. Inr (Some s)))"

definition nullableStr :: "json option \<Rightarrow> string \<Rightarrow> string option option board_res" where
  "nullableStr v fld = (if v = Some JNull then Inr (Some None) else rbind (optStr v fld) (\<lambda>s. Inr (map_option Some s)))"

definition dutyLinkValue :: "json option \<Rightarrow> string board_res" where
  "dutyLinkValue v =
     (case v of Some (JStr s) \<Rightarrow> if parseDutyLink s \<noteq> None then Inr s else invalid_op (DUTY_LINK_SHAPE @ ''.'') | _ \<Rightarrow> invalid_op (DUTY_LINK_SHAPE @ ''.''))"

definition PLAN_STATUSES :: "(string \<times> PlanStatus) list" where
  "PLAN_STATUSES = [(''todo'', Todo), (''doing'', Doing), (''done'', Done), (''blocked'', Blocked), (''dropped'', Dropped)]"

definition parse_status :: "json option \<Rightarrow> PlanStatus option board_res" where
  "parse_status v =
     (case v of
        None \<Rightarrow> Inr None
      | Some (JStr s) \<Rightarrow>
          (case map_of PLAN_STATUSES s of
             Some st \<Rightarrow> Inr (Some st) | None \<Rightarrow> invalid_op (''status must be one of '' @ js_join '', '' (map fst PLAN_STATUSES) @ ''.''))
      | _ \<Rightarrow> invalid_op (''status must be one of '' @ js_join '', '' (map fst PLAN_STATUSES) @ ''.''))"

definition board_id :: "string \<Rightarrow> bool" where
  "board_id s \<longleftrightarrow> s \<noteq> [] \<and> length s \<le> 40 \<and> list_all id_char s"

definition parse_id :: "json option \<Rightarrow> string \<Rightarrow> string board_res" where
  "parse_id v fld =
     (case v of Some (JStr s) \<Rightarrow> if board_id s then Inr s else invalid_op (fld @ '' must be an item id such as p1 or t1.'')
      | _ \<Rightarrow> invalid_op (fld @ '' must be an item id such as p1 or t1.''))"

definition parseSessionId :: "board_env \<Rightarrow> json option \<Rightarrow> string option option board_res" where
  "parseSessionId env v =
     (if v = None then Inr None
      else if v = Some JNull then Inr (Some None)
      else (let s = (case v of Some (JStr t) \<Rightarrow> js_trim t | _ \<Rightarrow> []) in
            if s \<noteq> [] \<and> length s \<le> 128 \<and> list_all id_char s then Inr (Some (Some s))
            else (case jobSession env (Some s) of
                Some i \<Rightarrow> Inr (Some (Some i)) | None \<Rightarrow> invalid_op ''sessionId must be a thread's session id, thread:<id> or a chat URL.'')))"

text \<open>\<open>/^\d{4}-\d{2}-\d{2}/\<close> and the time the engine reads.\<close>

definition date_start :: "string \<Rightarrow> bool" where
  "date_start s \<longleftrightarrow> length s \<ge> 10 \<and> (\<forall>k < 10. if k = 4 \<or> k = 7 then s ! k = CHR ''-'' else js_digit (s ! k))"

definition date_time :: "board_env \<Rightarrow> json option \<Rightarrow> int option" where
  "date_time env v = (case v of Some (JStr s) \<Rightarrow> if date_start s then be_time env s else None | _ \<Rightarrow> None)"

definition waitUntil :: "board_env \<Rightarrow> (int \<Rightarrow> string) \<Rightarrow> json option \<Rightarrow> string board_res" where
  "waitUntil env to_iso v =
     (case date_time env v of Some t \<Rightarrow> Inr (to_iso t) | None \<Rightarrow> invalid_op ''waitUntil must be an ISO date-time such as 2026-10-09T09:00:00+09:00.'')"

definition optWaitUntil :: "board_env \<Rightarrow> (int \<Rightarrow> string) \<Rightarrow> json option \<Rightarrow> string option board_res" where
  "optWaitUntil env to_iso v = (if v = None then Inr None else rbind (waitUntil env to_iso v) (\<lambda>s. Inr (Some s)))"

definition nullableWaitUntil :: "board_env \<Rightarrow> (int \<Rightarrow> string) \<Rightarrow> json option \<Rightarrow> string option option board_res" where
  "nullableWaitUntil env to_iso v = (if v = Some JNull then Inr (Some None) else rbind (optWaitUntil env to_iso v) (\<lambda>s. Inr (map_option Some s)))"

section \<open>Requirements, gates and targets\<close>

definition REQUIREMENT_STATUSES :: "(string \<times> RequirementStatus) list" where
  "REQUIREMENT_STATUSES = [(''met'', ReqMet), (''unmet'', ReqUnmet), (''open'', ReqOpen)]"

definition parse_requirement :: "json \<Rightarrow> Requirement board_res" where
  "parse_requirement l =
     (if \<not> isRecord l then invalid_op ''Each requirement must be an object with text and status.''
      else (case Option.bind (as_string (field l ''status'')) (map_of REQUIREMENT_STATUSES) of
          None \<Rightarrow> invalid_op (''A requirement's status must be one of '' @ js_join '', '' (map fst REQUIREMENT_STATUSES) @ ''.'')
        | Some st \<Rightarrow>
            rbind (bstr (field l ''text'') ''requirement text'') (\<lambda>t.
            rbind (optStr (field l ''evidence'') ''requirement evidence'') (\<lambda>e.
            rbind (optStr (field l ''note'') ''requirement note'') (\<lambda>n.
            Inr \<lparr>rq_text = t, rq_status = st, rq_evidence = e, rq_note = n\<rparr>)))))"

definition requirements :: "json \<Rightarrow> Requirement list board_res" where
  "requirements v =
     (case v of
        JArr (l # ls) \<Rightarrow> rmap parse_requirement (l # ls)
      | _ \<Rightarrow> invalid_op ''requirements must be a list of lines {text, status, evidence?, note?}; null clears it.'')"

text \<open>\<open>gates\<close>: whether the step needs a go, whether it is a Build step, and its requirements.\<close>

definition gates :: "json option \<Rightarrow> json option \<Rightarrow> json option \<Rightarrow> (bool \<times> bool \<times> Requirement list option) board_res" where
  \<open>gates go kind reqs =
     rbind (if go = None then Inr False else if go = Some (JStr ''needed'') then Inr True
            else invalid_op ''go must be "needed"; once a step needs the owner's go, it keeps needing it.'') (\<lambda>g.
     rbind (if kind = None then Inr False else if kind = Some (JStr ''build'') then Inr True else invalid_op ''kind must be "build".'') (\<lambda>k.
     rbind (case reqs of None \<Rightarrow> Inr None | Some r \<Rightarrow> rbind (requirements r) (\<lambda>ls. Inr (Some ls))) (\<lambda>ls. Inr (g, k, ls))))\<close>

definition TARGET_SHAPE :: string where
  "TARGET_SHAPE = ''target must be {metric, target, unit, current?, measuredAt?, source?, cadence?, direction?}''"

definition amount :: "json \<Rightarrow> string \<Rightarrow> rat board_res" where
  "amount v fld =
     (case field v fld of
        Some (JNum q) \<Rightarrow> if q < 0 then invalid_op (''target.'' @ fld @ '' must be a non-negative number.'') else Inr q
      | _ \<Rightarrow> invalid_op (''target.'' @ fld @ '' must be a non-negative number.''))"

definition given :: "json option \<Rightarrow> bool" where
  "given v \<longleftrightarrow> v \<noteq> None \<and> v \<noteq> Some JNull"

definition measurement :: "board_env \<Rightarrow> (int \<Rightarrow> string) \<Rightarrow> json \<Rightarrow> (rat \<times> string \<times> string) option board_res" where
  "measurement env to_iso v =
     (let n = length (filter (\<lambda>f. given (field v f)) [''current'', ''measuredAt'', ''source'']) in
      if 0 < n \<and> n < 3
      then invalid_op ''A measurement is target.current, target.measuredAt and target.source together: give all three, or none for a goal not measured yet.''
      else if n = 0 then Inr None
      else rbind (amount v ''current'') (\<lambda>c.
        rbind (case date_time env (field v ''measuredAt'') of
            Some t \<Rightarrow> Inr (to_iso t) | None \<Rightarrow> invalid_op ''target.measuredAt must be an ISO date-time such as 2026-10-09T09:00:00+09:00.'') (\<lambda>m.
        rbind (bstr (field v ''source'') ''target.source'') (\<lambda>s. Inr (Some (c, m, s))))))"

definition goalTarget :: "board_env \<Rightarrow> (int \<Rightarrow> string) \<Rightarrow> json \<Rightarrow> GoalTarget board_res" where
  \<open>goalTarget env to_iso v =
     (if \<not> isRecord v then invalid_op (TARGET_SHAPE @ ''.'')
      else rbind (bstr (field v ''metric'') ''target.metric'') (\<lambda>metric.
        rbind (amount v ''target'') (\<lambda>t.
        rbind (bstr (field v ''unit'') ''target.unit'') (\<lambda>u.
        rbind (measurement env to_iso v) (\<lambda>m.
        rbind (if \<not> given (field v ''cadence'') then Inr False else if field v ''cadence'' = Some (JStr ''daily'') then Inr True
               else invalid_op ''target.cadence must be "daily".'') (\<lambda>daily.
        rbind (if \<not> given (field v ''direction'') then Inr None
               else if field v ''direction'' = Some (JStr ''up'') then Inr (Some Up) else if field v ''direction'' = Some (JStr ''down'') then Inr (Some Down)
               else invalid_op ''target.direction must be "up" (higher is better) or "down" (lower is better).'') (\<lambda>dir.
        Inr \<lparr>gt_metric = metric, gt_target = t, gt_unit = u, gt_current = map_option fst m, gt_measuredAt = map_option (fst \<circ> snd) m,
          gt_source = map_option (snd \<circ> snd) m, gt_daily = daily, gt_direction = dir\<rparr>)))))))\<close>

section \<open>Plan items and todos\<close>

text \<open>The fields \<open>planInput\<close> and \<open>plan_add\<close> read alike, from the status on.\<close>

definition step_fields :: "board_env \<Rightarrow> (int \<Rightarrow> string) \<Rightarrow> json \<Rightarrow> string \<Rightarrow> string option \<Rightarrow> plan_input board_res" where
  "step_fields env to_iso v t i =
     rbind (parse_status (field v ''status'')) (\<lambda>st.
     rbind (optStr (field v ''job'') ''job'') (\<lambda>job.
     rbind (parseSessionId env (field v ''sessionId'')) (\<lambda>session.
     rbind (optStr (field v ''note'') ''note'') (\<lambda>nt.
     rbind (optWaitUntil env to_iso (field v ''waitUntil'')) (\<lambda>til.
     rbind (optStr (field v ''waitFor'') ''waitFor'') (\<lambda>event.
     rbind (case field v ''target'' of None \<Rightarrow> Inr None | Some g \<Rightarrow> rbind (goalTarget env to_iso g) (\<lambda>x. Inr (Some x))) (\<lambda>target.
     rbind (case field v ''duty'' of None \<Rightarrow> Inr None | Some d \<Rightarrow> rbind (dutyLinkValue (Some d)) (\<lambda>x. Inr (Some x))) (\<lambda>duty.
     rbind (gates (field v ''go'') (field v ''kind'') (field v ''requirements'')) (\<lambda>(g, k, reqs).
     Inr \<lparr>in_id = i, in_text = t, in_status = st, in_job = job, in_sessionId = Option.bind session (\<lambda>s. s), in_note = nt, in_waitUntil = til,
       in_waitFor = event, in_target = target, in_duty = duty, in_go = g, in_build = k, in_requirements = reqs\<rparr>)))))))))"

definition input_fields :: "board_env \<Rightarrow> (int \<Rightarrow> string) \<Rightarrow> json \<Rightarrow> plan_input board_res" where
  "input_fields env to_iso v =
     rbind (bstr (field v ''text'') ''text'') (\<lambda>t.
     rbind (case field v ''id'' of None \<Rightarrow> Inr None | Some i \<Rightarrow> rbind (parse_id (Some i) ''id'') (\<lambda>s. Inr (Some s))) (\<lambda>i.
     step_fields env to_iso v t i))"

lemma size_member: "map_of fs k = Some (JArr cs) \<Longrightarrow> size_list size cs < size_list (size_prod (\<lambda>_. 0) size) fs"
proof -
  assume "map_of fs k = Some (JArr cs)"
  then have "(k, JArr cs) \<in> set fs" by (rule map_of_SomeD)
  then have "size_prod (\<lambda>_. 0) size (k, JArr cs) \<le> size_list (size_prod (\<lambda>_. 0) size) fs" by (rule size_list_estimation') simp
  then show ?thesis by simp
qed

function (sequential) planInputs :: "board_env \<Rightarrow> (int \<Rightarrow> string) \<Rightarrow> json list \<Rightarrow> PlanItemInput list board_res" where
  "planInputs env to_iso [] = Inr []"
| "planInputs env to_iso (JObj fs # vs) =
     rbind (input_fields env to_iso (JObj fs)) (\<lambda>i.
     rbind (case map_of fs ''children'' of
         None \<Rightarrow> Inr []
       | Some (JArr cs) \<Rightarrow> planInputs env to_iso cs
       | Some _ \<Rightarrow> invalid_op ''children must be a list of plan items.'') (\<lambda>kids.
     rbind (planInputs env to_iso vs) (\<lambda>rest. Inr (PlanItemInput i kids # rest))))"
| "planInputs env to_iso (v # vs) = invalid_op ''Each plan item must be an object with text.''"
  by pat_completeness auto
termination
  by (relation "measure (\<lambda>(env, to_iso, vs). size_list size vs)") (auto dest: size_member)

definition TARGET_FORMS :: string where
  "TARGET_FORMS = ''job:<name>, thread:<sessionId> or thread:<sessionId>@<ms>, wiki:<path>, file:<absolute path>, or an http(s) URL''"

definition parse_link :: "board_env \<Rightarrow> json \<Rightarrow> ArtifactLink board_res" where
  "parse_link env l =
     (if \<not> isRecord l then invalid_op ''Each link must be an object with a target.''
      else rbind (bstr (field l ''target'') ''link target'') (\<lambda>t.
        case normalizeArtifactTarget (be_engine env) t of
          None \<Rightarrow> invalid_op (''A link target must be '' @ TARGET_FORMS @ ''.'')
        | Some target \<Rightarrow>
            rbind (if field l ''label'' = None \<or> field l ''label'' = Some (JStr []) then Inr target else bstr (field l ''label'') ''link label'') (\<lambda>label.
            Inr \<lparr>al_label = label, al_target = target\<rparr>)))"

definition parse_links :: "board_env \<Rightarrow> json option \<Rightarrow> ArtifactLink list option board_res" where
  "parse_links env v =
     (case v of
        None \<Rightarrow> Inr None
      | Some (JArr ls) \<Rightarrow> rbind (rmap (parse_link env) ls) (\<lambda>xs. Inr (Some xs))
      | Some _ \<Rightarrow> invalid_op ''links must be a list of {label, target}.'')"

definition parse_choices :: "json \<Rightarrow> string list board_res" where
  "parse_choices v =
     (case v of
        JArr cs \<Rightarrow> rmap (\<lambda>c. rbind (bstr (Some c) ''choice'') (\<lambda>s. Inr (js_trim s))) cs
      | _ \<Rightarrow> invalid_op ''choices must be a list of answers, your recommendation first.'')"

section \<open>Operations\<close>

definition parse_plan_add :: "board_env \<Rightarrow> (int \<Rightarrow> string) \<Rightarrow> json \<Rightarrow> BoardOp board_res" where
  "parse_plan_add env to_iso v =
     rbind (bstr (field v ''text'') ''text'') (\<lambda>t.
     rbind (if given (field v ''parent'') then rbind (parse_id (field v ''parent'') ''parent'') (\<lambda>p. Inr (Some p)) else Inr None) (\<lambda>parent.
     rbind (step_fields env to_iso v t None) (\<lambda>i. Inr (PlanAdd parent i))))"

text \<open>A field that is left out, null, or read by \<open>parse\<close>.\<close>

definition cleared :: "json option \<Rightarrow> (json \<Rightarrow> 'a board_res) \<Rightarrow> 'a option option board_res" where
  "cleared v parse =
     (case v of None \<Rightarrow> Inr None | Some j \<Rightarrow> if j = JNull then Inr (Some None) else rbind (parse j) (\<lambda>x. Inr (Some (Some x))))"

definition unless_null :: "json option \<Rightarrow> json option" where
  "unless_null v = (if v = Some JNull then None else v)"

definition parse_plan_update :: "board_env \<Rightarrow> (int \<Rightarrow> string) \<Rightarrow> json \<Rightarrow> BoardOp board_res" where
  "parse_plan_update env to_iso v =
     rbind (parse_id (field v ''id'') ''id'') (\<lambda>i.
     rbind (cleared (field v ''parent'') (\<lambda>p. parse_id (Some p) ''parent'')) (\<lambda>parent.
     rbind (optStr (field v ''text'') ''text'') (\<lambda>t.
     rbind (parse_status (field v ''status'')) (\<lambda>st.
     rbind (nullableStr (field v ''job'') ''job'') (\<lambda>job.
     rbind (parseSessionId env (field v ''sessionId'')) (\<lambda>session.
     rbind (nullableStr (field v ''note'') ''note'') (\<lambda>nt.
     rbind (nullableWaitUntil env to_iso (field v ''waitUntil'')) (\<lambda>til.
     rbind (nullableStr (field v ''waitFor'') ''waitFor'') (\<lambda>event.
     rbind (cleared (field v ''target'') (goalTarget env to_iso)) (\<lambda>target.
     rbind (cleared (field v ''duty'') (\<lambda>d. dutyLinkValue (Some d))) (\<lambda>duty.
     rbind (gates (field v ''go'') (unless_null (field v ''kind'')) (unless_null (field v ''requirements''))) (\<lambda>(g, k, reqs).
     Inr (PlanUpdate \<lparr>pu_id = i, pu_parent = parent, pu_text = t, pu_status = st, pu_job = job, pu_sessionId = session, pu_note = nt,
       pu_waitUntil = til, pu_waitFor = event, pu_go = g,
       pu_build = (if field v ''kind'' = Some JNull then Some False else if k then Some True else None),
       pu_requirements = (if field v ''requirements'' = Some JNull then Some None else map_option Some reqs), pu_target = target, pu_duty = duty\<rparr>)))))))))))))"

definition parse_todo_add :: "board_env \<Rightarrow> json \<Rightarrow> BoardOp board_res" where
  "parse_todo_add env v =
     rbind (bstr (field v ''text'') ''text'') (\<lambda>t.
     rbind (case field v ''choices'' of None \<Rightarrow> Inr None | Some c \<Rightarrow> rbind (parse_choices c) (\<lambda>cs. Inr (if cs = [] then None else Some cs))) (\<lambda>choices.
     rbind (case field v ''step'' of None \<Rightarrow> Inr None | Some s \<Rightarrow> rbind (parse_id (Some s) ''step'') (\<lambda>x. Inr (Some x))) (\<lambda>step.
     rbind (parse_links env (field v ''links'')) (\<lambda>links. Inr (TodoAdd t choices step (if links = Some [] then None else links))))))"

definition parse_todo_update :: "board_env \<Rightarrow> json \<Rightarrow> BoardOp board_res" where
  "parse_todo_update env v =
     rbind (parse_id (field v ''id'') ''id'') (\<lambda>i.
     rbind (optStr (field v ''text'') ''text'') (\<lambda>t.
     rbind (parse_links env (field v ''links'')) (\<lambda>links.
     rbind (cleared (field v ''choices'') parse_choices) (\<lambda>choices.
     rbind (case field v ''done'' of None \<Rightarrow> Inr None | Some (JBool d) \<Rightarrow> Inr (Some d) | Some _ \<Rightarrow> invalid_op ''done must be true or false.'') (\<lambda>dn.
     rbind (cleared (field v ''reply'') (\<lambda>r. bstr (Some r) ''reply'')) (\<lambda>reply.
     Inr (TodoUpdate \<lparr>tu_id = i, tu_text = t, tu_done = dn, tu_reply = reply, tu_links = links, tu_choices = choices\<rparr>)))))))"

definition SCRATCHPAD_REMOVED :: string where
  "SCRATCHPAD_REMOVED =
     ''The board has no scratchpad any more; the owner removed it on 2026-10-15. Put the decision in the note of the step it concerns '' @
     ''(plan_update {id, note}).''"

definition BOARD_OP_NAMES :: "string list" where
  "BOARD_OP_NAMES = [''plan_set'', ''plan_add'', ''plan_update'', ''plan_remove'', ''todo_add'', ''todo_update'', ''todo_remove'']"

definition parseBoardOp :: "board_env \<Rightarrow> (int \<Rightarrow> string) \<Rightarrow> json \<Rightarrow> BoardOp board_res" where
  "parseBoardOp env to_iso v =
     (if \<not> isRecord v then invalid_op ''Each op must be an object with an op field.''
      else (let name = (case field v ''op'' of Some (JStr s) \<Rightarrow> s | _ \<Rightarrow> []) in
        if name = ''plan_set'' then
          (case field v ''items'' of
             Some (JArr items) \<Rightarrow> rbind (planInputs env to_iso items) (\<lambda>ps. Inr (PlanSet ps))
           | _ \<Rightarrow> invalid_op ''plan_set needs items, a list of plan items.'')
        else if name = ''plan_add'' then parse_plan_add env to_iso v
        else if name = ''plan_update'' then parse_plan_update env to_iso v
        else if name = ''plan_remove'' then rbind (parse_id (field v ''id'') ''id'') (\<lambda>i. Inr (PlanRemove i))
        else if name \<in> {''scratch_add'', ''scratch_update'', ''scratch_remove''} then invalid_op SCRATCHPAD_REMOVED
        else if name = ''todo_add'' then parse_todo_add env v
        else if name = ''todo_update'' then parse_todo_update env v
        else if name = ''todo_remove'' then rbind (parse_id (field v ''id'') ''id'') (\<lambda>i. Inr (TodoRemove i))
        else invalid_op (''op must be one of '' @ js_join '', '' BOARD_OP_NAMES @ ''.'')))"

definition parseBoardOps :: "board_env \<Rightarrow> (int \<Rightarrow> string) \<Rightarrow> json \<Rightarrow> BoardOp list board_res" where
  "parseBoardOps env to_iso v =
     (case v of JArr ops \<Rightarrow> rmap (parseBoardOp env to_iso) ops | _ \<Rightarrow> invalid_op ''ops must be a list of board ops.'')"

end
