(* ===== verification/BoardRules.thy ===== *)
theory BoardRules
  imports BoardOps "HOL-Library.Multiset"
begin

text \<open>
  What the board's operations keep: every step and todo has its own id, a move loses no step, an open step leaves no closed goal above it, and each side changes
  only what is its own. The lemmas on the tree are by induction on the walks of \<open>BoardOps\<close>.
\<close>

section \<open>The ids of a plan\<close>

definition ids :: "PlanItem list \<Rightarrow> string list" where
  "ids ps = map item_id (plan_items ps)"

lemma ids_simps [simp]: "ids [] = []" "ids (PlanItem f cs # ps) = pf_id f # ids cs @ ids ps"
  by (simp_all add: ids_def)

lemma ids_append [simp]: "ids (ps @ qs) = ids ps @ ids qs"
  by (induction ps rule: plan_items.induct) simp_all

lemma ids_reclose [simp]: "ids (fst (reclose ps)) = ids ps"
proof (induction ps rule: reclose.induct)
  case (2 f cs ps)
  obtain kids closed where r: "reclose cs = (kids, closed)" by fastforce
  show ?case using 2(1) 2(2) [OF r [symmetric]] r by (simp add: split_def)
qed simp

lemma ids_markMerges [simp]: "ids (markMerges env ps) = ids ps"
  by (induction ps rule: markMerges.induct) simp_all

lemma map_item_miss: "i \<notin> set (ids ps) \<Longrightarrow> map_item ps i change = ps"
  by (induction ps i change rule: map_item.induct) auto

lemma ids_map_same: "(\<And>p. \<exists>q. change p = Some q \<and> ids [q] = ids [p]) \<Longrightarrow> ids (map_item ps i change) = ids ps"
proof (induction ps i change rule: map_item.induct)
  case (2 f cs ps i change)
  obtain q where q: "change (PlanItem f cs) = Some q" "ids [q] = ids [PlanItem f cs]" using 2(3) by blast
  show ?case
  proof (cases "pf_id f = i")
    case True
    have "ids (q # map_item ps i change) = ids [q] @ ids (map_item ps i change)" by (metis append_Cons append_Nil ids_append)
    then show ?thesis using True q 2 by simp
  qed (use 2 in simp)
qed simp

lemma ids_reopen_all [simp]: "ids (reopen_all js ps) = ids ps"
proof (induction js arbitrary: ps)
  case (Cons j js)
  have "ids (map_item ps j reopen) = ids ps"
  proof (rule ids_map_same)
    fix p
    show "\<exists>q. reopen p = Some q \<and> ids [q] = ids [p]" by (cases p) (simp add: reopen_def)
  qed
  then show ?case using Cons.IH by (simp add: reopen_all_def)
qed (simp add: reopen_all_def)

lemma find_item_over: "find_item ps i over = Some (p, up) \<Longrightarrow> set over \<subseteq> set up"
  by (induction ps i over rule: find_item.induct) (auto split: if_splits option.splits)

lemma find_item_None: "find_item ps i over = None \<longleftrightarrow> i \<notin> set (ids ps)"
  by (induction ps i over rule: find_item.induct) (auto split: option.splits)

lemma find_item_found: "find_item ps i over = Some (p, up) \<Longrightarrow> item_id p = i \<and> p \<in> set (plan_items ps)"
  by (induction ps i over rule: find_item.induct) (auto split: if_splits option.splits)

lemma find_item_above: "find_item ps i over = Some (p, up) \<Longrightarrow> a \<in> set up \<Longrightarrow> a \<in> set over \<or> item_id a \<in> set (ids ps)"
  by (induction ps i over rule: find_item.induct) (auto split: if_splits option.splits)

lemma item_ids: "ids [p] = item_id p # ids (children p)"
  by (cases p) simp

lemma subtree_ids: "p \<in> set (plan_items ps) \<Longrightarrow> set (ids [p]) \<subseteq> set (ids ps)"
  by (induction ps rule: plan_items.induct) (auto simp: item_ids)

text \<open>A change of one item changes the ids by those of that item.\<close>

lemma ids_map_item:
  assumes "distinct (ids ps)" and "find_item ps i over = Some (p, up)"
  shows "mset (ids (map_item ps i change)) + mset (ids [p]) = mset (ids ps) + mset (case change p of Some q \<Rightarrow> ids [q] | None \<Rightarrow> [])"
  using assms
proof (induction ps i over rule: find_item.induct)
  case (2 f cs ps i over)
  show ?case
  proof (cases "pf_id f = i")
    case True
    then have p: "p = PlanItem f cs" using 2(4) by simp
    have "i \<notin> set (ids ps)" using 2(3) True by auto
    then have "map_item ps i change = ps" by (rule map_item_miss)
    moreover have "ids (q # ps) = ids [q] @ ids ps" for q by (metis append_Cons append_Nil ids_append)
    ultimately show ?thesis using True p by (cases "change p") (simp_all add: union_commute)
  next
    case False
    note f = this
    show ?thesis
    proof (cases "find_item cs i (over @ [PlanItem f cs])")
      case None
      then have "i \<notin> set (ids cs)" by (simp add: find_item_None)
      then have "map_item cs i change = cs" by (rule map_item_miss)
      then show ?thesis using 2(2) [OF f None] 2(3,4) f None by simp
    next
      case (Some r)
      then have r: "find_item cs i (over @ [PlanItem f cs]) = Some (p, up)" using 2(4) f by simp
      then have "i \<in> set (ids cs)" using find_item_None [of cs i] by (metis option.distinct(1))
      then have "i \<notin> set (ids ps)" using 2(3) by auto
      then have "map_item ps i change = ps" by (rule map_item_miss)
      then show ?thesis using 2(1) [OF f] 2(3) r f by simp
    qed
  qed
qed simp

lemma ids_removed:
  assumes "distinct (ids ps)" and "find_item ps i over = Some (p, up)"
  shows "mset (ids ps) = mset (ids (map_item ps i (\<lambda>_. None))) + mset (ids [p])"
  using ids_map_item [OF assms, of "\<lambda>_. None"] by simp

lemma ids_added:
  assumes "distinct (ids ps)" and "i \<in> set (ids ps)"
  shows "mset (ids (map_item ps i (add_child c))) = mset (ids ps) + mset (ids [c])"
proof -
  obtain p up where p: "find_item ps i [] = Some (p, up)" using assms(2) find_item_None [of ps i "[]"] by (cases "find_item ps i []") auto
  have "ids [PlanItem (item p) (children p @ [c])] = ids [p] @ ids [c]" by (simp add: item_ids)
  with ids_map_item [OF assms(1) p, of "add_child c"]
  have "mset (ids (map_item ps i (add_child c))) + mset (ids [p]) = mset (ids ps) + (mset (ids [c]) + mset (ids [p]))"
    unfolding add_child_def option.case by (metis mset_append union_commute)
  then show ?thesis by (metis add.assoc add_right_cancel)
qed

text \<open>An item that is below another has it among the items above it.\<close>

lemma below_has_over:
  assumes "distinct (ids ps)" and "find_item ps i over' = Some (p, up')" and "find_item ps j over = Some (q, up)" and "j \<in> set (ids (children p))"
  shows "\<exists>a \<in> set up. item_id a = i"
  using assms
proof (induction ps i over' arbitrary: over rule: find_item.induct)
  case (2 f cs ps i over')
  have jcs: "find_item cs j (over @ [PlanItem f cs]) = Some (q, up)" if "j \<in> set (ids cs)"
  proof -
    have "pf_id f \<noteq> j" using that 2(3) by auto
    moreover have "find_item cs j (over @ [PlanItem f cs]) \<noteq> None" using that by (simp only: find_item_None not_not)
    ultimately show ?thesis using 2(5) by (cases "find_item cs j (over @ [PlanItem f cs])") simp_all
  qed
  show ?case
  proof (cases "pf_id f = i")
    case True
    then have "j \<in> set (ids cs)" using 2(4,6) by auto
    from find_item_over [OF jcs [OF this]] have "PlanItem f cs \<in> set up" by simp
    then show ?thesis using True by (intro bexI) simp_all
  next
    case False
    show ?thesis
    proof (cases "find_item cs i (over' @ [PlanItem f cs])")
      case None
      then have p: "find_item ps i over' = Some (p, up')" using 2(4) False by simp
      then have "j \<in> set (ids ps)" using 2(6) find_item_found [OF p] subtree_ids [of p ps] item_ids [of p] by auto
      then have "find_item cs j (over @ [PlanItem f cs]) = None" "j \<noteq> pf_id f" using 2(3) by (auto simp: find_item_None)
      then have "find_item ps j over = Some (q, up)" using 2(5) by simp
      then show ?thesis using 2(2) [OF False None _ p _ 2(6)] 2(3) by simp
    next
      case (Some r)
      then have p: "find_item cs i (over' @ [PlanItem f cs]) = Some (p, up')" using 2(4) False by simp
      then have "j \<in> set (ids cs)" using 2(6) find_item_found [OF p] subtree_ids [of p cs] item_ids [of p] by auto
      from jcs [OF this] show ?thesis using 2(1) [OF False _ p _ 2(6)] 2(3) by simp
    qed
  qed
qed simp

section \<open>Fresh ids\<close>

lemma id_number_plan [simp]: "id_number (CHR ''p'') (p_id n) = Some n"
  by (simp add: id_number_def p_id_def digits_of_nat_digits list_all_iff)

lemma id_number_todo [simp]: "id_number (CHR ''t'') (t_id n) = Some n"
  by (simp add: id_number_def t_id_def digits_of_nat_digits list_all_iff)

lemma top_of_mono: "start \<le> top_of k start is"
proof (induction "is" arbitrary: start)
  case (Cons i "is")
  have "start \<le> (case id_number k i of Some m \<Rightarrow> max start m | None \<Rightarrow> start)" by (simp split: option.split)
  also have "\<dots> \<le> top_of k start (i # is)" using Cons.IH by (simp add: top_of_def)
  finally show ?case .
qed (simp add: top_of_def)

lemma top_of_ge: "i \<in> set is \<Longrightarrow> id_number k i = Some m \<Longrightarrow> m \<le> top_of k start is"
proof (induction "is" arbitrary: start)
  case (Cons j "is")
  show ?case
  proof (cases "i = j")
    case True
    have "m \<le> max start m" by simp
    also have "\<dots> \<le> top_of k (max start m) is" by (rule top_of_mono)
    finally show ?thesis using True Cons.prems(2) by (simp add: top_of_def)
  next
    case False
    then show ?thesis using Cons by (simp add: top_of_def)
  qed
qed simp

lemma idsTop_ge:
  "i \<in> set (board_ids b) \<Longrightarrow> id_number (CHR ''p'') i = Some m \<Longrightarrow> m \<le> fst (idsTop b)"
  "i \<in> set (board_ids b) \<Longrightarrow> id_number (CHR ''t'') i = Some m \<Longrightarrow> m \<le> snd (idsTop b)"
  by (simp_all add: idsTop_def split_def top_of_ge)

lemma plan_id_fresh: "p_id (Suc (fst (idsTop b))) \<notin> set (board_ids b)"
  using idsTop_ge(1) [of "p_id (Suc (fst (idsTop b)))" b "Suc (fst (idsTop b))"] by auto

lemma todo_id_fresh: "t_id (Suc (snd (idsTop b))) \<notin> set (board_ids b)"
  using idsTop_ge(2) [of "t_id (Suc (snd (idsTop b)))" b "Suc (snd (idsTop b))"] by auto

text \<open>
  C39. The loop that looks for a fresh step id ends: it passes only claimed ids, so it takes at most one round more than there are claimed ids, and the id it gives is
  not claimed.
\<close>
theorem fresh_number_ends:
  "p_id (fresh_number claimed n) \<notin> set claimed \<and> n < fresh_number claimed n \<and> fresh_number claimed n \<le> n + length claimed + 1 \<and>
   p_id ` {n<..<fresh_number claimed n} \<subseteq> set claimed"
proof -
  have "p_id (fresh_number claimed n) \<notin> set claimed \<and> n < fresh_number claimed n \<and> p_id ` {n<..<fresh_number claimed n} \<subseteq> set claimed"
  proof (induction claimed n rule: fresh_number.induct)
    case (1 claimed n)
    show ?case
    proof (cases "p_id (Suc n) \<in> set claimed")
      case True
      then have f: "fresh_number claimed n = fresh_number claimed (Suc n)" by (simp add: fresh_number.simps)
      note 2 = 1 [OF True]
      have "{n<..<fresh_number claimed (Suc n)} \<subseteq> insert (Suc n) {Suc n<..<fresh_number claimed (Suc n)}" by auto
      then show ?thesis using 2 True unfolding f by (auto dest: Suc_lessD)
    next
      case False
      then have "fresh_number claimed n = Suc n" by (simp add: fresh_number.simps)
      then show ?thesis using False by auto
    qed
  qed
  moreover from this have "card {n<..<fresh_number claimed n} \<le> card (set claimed)"
    by (intro card_inj_on_le [of p_id]) (auto simp: inj_on_def p_id_inj)
  ultimately show ?thesis using card_length [of claimed] by auto
qed

lemma fresh_number_free: "p_id (fresh_number claimed n) \<notin> set claimed"
proof (induction claimed n rule: fresh_number.induct)
  case (1 claimed n)
  then show ?case by (subst fresh_number.simps) simp
qed

section \<open>Every step and todo has its own id\<close>

definition ids_apart :: "ChatBoard \<Rightarrow> bool" where
  "ids_apart b \<longleftrightarrow> distinct (ids (cb_plan b)) \<and> distinct (map td_id (cb_todos b))"

definition id_inv :: "id_state \<Rightarrow> bool" where
  "id_inv st \<longleftrightarrow> set (is_used st) \<subseteq> set (is_claimed st)"

lemma take_id_new:
  assumes "take_id i st = (s, st')" and "id_inv st" and "\<And>x. set_text (in_id i) = Some x \<Longrightarrow> x \<in> set (is_claimed st)"
  shows "s \<notin> set (is_used st) \<and> set (is_used st') = insert s (set (is_used st)) \<and> set (is_claimed st) \<subseteq> set (is_claimed st') \<and> id_inv st'"
proof -
  have "p_id (fresh_number (is_claimed st) (is_last st)) \<notin> set (is_used st)"
    using fresh_number_free assms(2) by (auto simp: id_inv_def)
  then show ?thesis using assms by (auto simp: take_id_def id_inv_def Let_def split: option.splits if_splits)
qed

lemma build_fields_id: "build_fields env duties b now i s = Inr f \<Longrightarrow> pf_id f = s"
  by (auto simp: build_fields_def Let_def)

lemma build_ids:
  assumes "build env duties b now items st = Inr (ps, st')" and "id_inv st" and "set (input_ids items) \<subseteq> set (is_claimed st)"
  shows "distinct (ids ps) \<and> set (ids ps) \<inter> set (is_used st) = {} \<and> set (is_used st') = set (is_used st) \<union> set (ids ps) \<and>
    set (is_claimed st) \<subseteq> set (is_claimed st') \<and> id_inv st'"
  using assms
proof (induction env duties b now items st arbitrary: ps st' rule: build.induct)
  case (2 env duties b now i cs items st)
  obtain s st1 where t: "take_id i st = (s, st1)" by fastforce
  from 2(3) t obtain f kids st2 rest st3 where f: "build_fields env duties b now i s = Inr f"
    and k: "build env duties b now cs st1 = Inr (kids, st2)" and r: "build env duties b now items st2 = Inr (rest, st3)"
    and out: "ps = PlanItem f kids # rest" "st' = st3"
    by auto
  have claimed: "set_text (in_id i) = Some x \<Longrightarrow> x \<in> set (is_claimed st)" for x using 2(5) by auto
  note new = take_id_new [OF t 2(4) claimed]
  have c: "set (input_ids cs) \<subseteq> set (is_claimed st1)" "set (input_ids items) \<subseteq> set (is_claimed st1)" using 2(5) new by auto
  note IH1 = 2(1) [OF t [symmetric] k conjunct2 [OF conjunct2 [OF conjunct2 [OF new]]] c(1)]
  have "id_inv st2" "set (input_ids items) \<subseteq> set (is_claimed st2)" using IH1 c(2) by blast+
  note IH2 = 2(2) [OF t [symmetric] r this]
  show ?case using build_fields_id [OF f] new IH1 IH2 unfolding out by auto
qed simp

lemma ids_apart_done [simp]:
  "ids_apart (done_plan env b now plan) \<longleftrightarrow> distinct (ids plan) \<and> distinct (map td_id (cb_todos b))"
  "ids_apart (done_todos b now todos) \<longleftrightarrow> distinct (ids (cb_plan b)) \<and> distinct (map td_id todos)"
  by (simp_all add: ids_apart_def done_plan_def done_todos_def)

lemma plan_set_apart:
  assumes "ids_apart b" and "plan_set env duties b now items = Inr b'"
  shows "ids_apart b'"
proof -
  let ?st = "\<lparr>is_claimed = input_ids items, is_used = [], is_last = fst (idsTop b)\<rparr>"
  from assms(2) obtain ps st where b: "build env duties b now items ?st = Inr (ps, st)" "b' = done_plan env b now ps"
    unfolding plan_set_def by (auto simp: rbind_Inr)
  have "distinct (ids ps)" using build_ids [OF b(1)] by (simp add: id_inv_def)
  then show ?thesis using assms(1) b(2) by (simp add: ids_apart_def [of b])
qed

lemma insert_item_ids:
  assumes "distinct (ids (cb_plan b))" and "insert_item env b now parent c = Inr b'"
  shows "mset (ids (cb_plan b')) = mset (ids (cb_plan b)) + mset (ids [c]) \<and> cb_todos b' = cb_todos b"
proof (cases parent)
  case None
  then show ?thesis using assms(2) by (auto simp: insert_item_def done_plan_def)
next
  case (Some par)
  with assms(2) obtain p over where p: "find_item (cb_plan b) par [] = Some (p, over)"
    and b': "b' = done_plan env b now (reopen_all (done_ids (over @ [p])) (map_item (cb_plan b) par (add_child c)))"
    by (auto simp: insert_item_def unknown_item_def split: option.splits)
  have "par \<in> set (ids (cb_plan b))" using p find_item_None [of "cb_plan b" par "[]"] by auto
  from ids_added [OF assms(1) this, of c] show ?thesis unfolding b' by (simp add: done_plan_def)
qed

lemma plan_add_apart:
  assumes "ids_apart b" and "plan_add env duties b now parent i = Inr b'"
  shows "ids_apart b'"
proof -
  have "insert_item env b now parent (new_item env b now i) = Inr b'" using assms(2) by (auto simp: plan_add_def rbind_Inr)
  from insert_item_ids [OF _ this] assms(1)
  have m: "mset (ids (cb_plan b')) = mset (p_id (Suc (fst (idsTop b))) # ids (cb_plan b))" and t: "cb_todos b' = cb_todos b"
    by (simp_all add: ids_apart_def new_item_def)
  have "distinct (p_id (Suc (fst (idsTop b))) # ids (cb_plan b))"
    using plan_id_fresh [of b] assms(1) by (simp add: ids_apart_def board_ids_def ids_def)
  then show ?thesis using mset_eq_imp_distinct_iff [OF m] t assms(1) by (simp add: ids_apart_def)
qed

lemma changed_fields_id: "changed_fields env duties now u f = Inr g \<Longrightarrow> pf_id g = pf_id f"
proof -
  have job: "pf_id (changed_job env u h) = pf_id h" for h by (simp add: changed_job_def Let_def)
  have note': "pf_id (changed_note u h) = pf_id h" for h by (simp add: changed_note_def split: option.split)
  have duty: "changed_duty duties u h = Inr k \<Longrightarrow> pf_id k = pf_id h" for h k
    by (auto simp: changed_duty_def rbind_Inr split: option.splits if_splits)
  have target: "changed_target env now u h = Inr k \<Longrightarrow> pf_id k = pf_id h" for h k
    by (auto simp: changed_target_def Let_def rbind_Inr split: option.splits if_splits)
  assume "changed_fields env duties now u f = Inr g"
  then obtain h k where k: "changed_duty duties u h = Inr k" "changed_target env now u k = Inr g" and h: "pf_id h = pf_id f"
    unfolding changed_fields_def Let_def rbind_Inr by (auto simp: job note')
  from target [OF k(2)] duty [OF k(1)] h show "pf_id g = pf_id f" by simp
qed

lemma ids_replaced:
  assumes "distinct (ids ps)" and "find_item ps i over = Some (p, up)" and "ids [q] = ids [p]"
  shows "mset (ids (map_item ps i (\<lambda>_. Some q))) = mset (ids ps)"
  using ids_map_item [OF assms(1,2), of "\<lambda>_. Some q"] assms(3) by simp

lemma moved_plan_ids:
  assumes "distinct (ids (cb_plan b))" and "find_item (cb_plan b) i [] = Some (p, over)" and "destination b p parent = Inr dest" and "ids [c] = ids [p]"
  shows "mset (ids (moved_plan (cb_plan b) i dest c)) = mset (ids (cb_plan b))"
proof -
  let ?ps = "cb_plan b"
  define rest where "rest = map_item ?ps i (\<lambda>_. None)"
  have out: "mset (ids ?ps) = mset (ids rest) + mset (ids [p])" unfolding rest_def by (rule ids_removed [OF assms(1,2)])
  have i: "item_id p = i" using find_item_found [OF assms(2)] by blast
  show ?thesis
  proof (cases dest)
    case None
    then show ?thesis using out assms(4) by (simp add: moved_plan_def rest_def [symmetric])
  next
    case (Some d)
    obtain q up where d: "d = (q, up)" by fastforce
    from assms(3) Some d obtain par where q: "find_item ?ps par [] = Some (q, up)" "item_id q \<noteq> i" "\<not> (\<exists>a \<in> set up. item_id a = i)"
      using i by (auto simp: destination_def unknown_item_def list_ex_iff split: option.splits if_splits)
    have par: "item_id q = par" "q \<in> set (plan_items ?ps)" using find_item_found [OF q(1)] by auto
    have "par \<notin> set (ids (children p))" using below_has_over [OF assms(1,2) q(1)] q(3) by blast
    then have "par \<notin> set (ids [p])" using q(2) par(1) i by (simp add: item_ids)
    moreover have "par \<in> set (ids ?ps)" using q(1) find_item_None [of ?ps par "[]"] by auto
    ultimately have "par \<in> set (ids rest)" using out by (metis Un_iff set_mset_mset set_mset_union)
    moreover have "distinct (ids rest)" using assms(1) mset_eq_imp_distinct_iff [of "ids ?ps" "ids rest @ ids [p]"] out by simp
    ultimately have "mset (ids (map_item rest par (add_child c))) = mset (ids rest) + mset (ids [c])" by (intro ids_added)
    then show ?thesis using out Some d assms(4) par(1) by (simp add: moved_plan_def rest_def [symmetric])
  qed
qed

text \<open>A change or a move of an item keeps every id.\<close>

lemma plan_update_ids:
  assumes "distinct (ids (cb_plan b))" and "plan_update env duties b now u = Inr b'"
  shows "mset (ids (cb_plan b')) = mset (ids (cb_plan b)) \<and> cb_todos b' = cb_todos b"
proof -
  let ?ps = "cb_plan b"
  from assms(2) obtain p over where p: "find_item ?ps (pu_id u) [] = Some (p, over)"
    by (auto simp: plan_update_def unknown_item_def split: option.splits)
  have same: "ids [PlanItem f (children p)] = ids [p]" if "changed_fields env duties now u (item p) = Inr f" for f
    using changed_fields_id [OF that] by (simp add: item_ids)
  from assms(2) consider (stay) f where "changed_fields env duties now u (item p) = Inr f"
      "b' = done_plan env b now (map_item ?ps (pu_id u) (\<lambda>_. Some (PlanItem f (children p))))"
    | (move) f dest parent where "changed_fields env duties now u (item p) = Inr f" "destination b p parent = Inr dest"
      "b' = done_plan env b now (moved_plan ?ps (pu_id u) dest (PlanItem f (children p)))"
    unfolding plan_update_def p Let_def by (auto simp: rbind_Inr split: option.splits if_splits)
  then show ?thesis
  proof cases
    case stay
    from ids_replaced [OF assms(1) p same [OF stay(1)]] stay(2) show ?thesis by (simp add: done_plan_def)
  next
    case move
    from moved_plan_ids [OF assms(1) p move(2) same [OF move(1)]] move(3) show ?thesis by (simp add: done_plan_def)
  qed
qed

lemma plan_update_apart: "ids_apart b \<Longrightarrow> plan_update env duties b now u = Inr b' \<Longrightarrow> ids_apart b'"
  using plan_update_ids [of b env duties now u b'] mset_eq_imp_distinct_iff by (auto simp: ids_apart_def)

lemma plan_remove_ids:
  assumes "distinct (ids (cb_plan b))" and "plan_remove env b now i = Inr b'"
  shows "\<exists>p over. find_item (cb_plan b) i [] = Some (p, over) \<and> mset (ids (cb_plan b)) = mset (ids (cb_plan b')) + mset (ids [p]) \<and> cb_todos b' = cb_todos b"
proof -
  from assms(2) obtain p over where p: "find_item (cb_plan b) i [] = Some (p, over)" "b' = done_plan env b now (map_item (cb_plan b) i (\<lambda>_. None))"
    by (auto simp: plan_remove_def unknown_item_def split: option.splits)
  from ids_removed [OF assms(1) p(1)] p show ?thesis by (intro exI [of _ p] exI [of _ over]) (simp add: done_plan_def)
qed

lemma plan_remove_apart:
  assumes "ids_apart b" and "plan_remove env b now i = Inr b'"
  shows "ids_apart b'"
proof -
  from plan_remove_ids [OF _ assms(2)] assms(1) obtain p where "mset (ids (cb_plan b)) = mset (ids (cb_plan b') @ ids [p])" "cb_todos b' = cb_todos b"
    by (auto simp: ids_apart_def)
  then show ?thesis using assms(1) mset_eq_imp_distinct_iff by (fastforce simp: ids_apart_def)
qed

lemma todo_add_apart: "ids_apart b \<Longrightarrow> todo_add env b actor now t choices step links = Inr b' \<Longrightarrow> ids_apart b'"
  using todo_id_fresh [of b]
  by (auto simp: todo_add_def rbind_Inr unknown_item_def ids_apart_def [of b] board_ids_def split: if_splits)

lemma changed_todo_id [simp]: "td_id (changed_todo u t) = td_id t"
  by (simp add: changed_todo_def changed_reply_def split: option.split)

lemma find_todo: "List.find (\<lambda>t. td_id t = i) ts = Some t \<Longrightarrow> td_id t = i \<and> t \<in> set ts"
  by (induction ts) (auto split: if_splits)

lemma todo_update_result:
  assumes "todo_update env b actor now u = Inr b'"
  obtains t where "List.find (\<lambda>t. td_id t = tu_id u) (cb_todos b) = Some t"
    and "b' = done_todos b now (map (\<lambda>x. if td_id x = tu_id u then changed_todo u t else x) (cb_todos b))"
    and "actor = Agent \<Longrightarrow> tu_reply u = None" and "actor = Agent \<Longrightarrow> td_answeredByOwner t \<Longrightarrow> \<not> new_question u t"
  using assms by (auto simp: todo_update_def rbind_Inr unknown_item_def split: option.splits if_splits)

lemma todo_update_apart:
  assumes "ids_apart b" and "todo_update env b actor now u = Inr b'"
  shows "ids_apart b'"
  using assms(2)
proof (rule todo_update_result)
  fix t
  assume t: "List.find (\<lambda>t. td_id t = tu_id u) (cb_todos b) = Some t"
    and b': "b' = done_todos b now (map (\<lambda>x. if td_id x = tu_id u then changed_todo u t else x) (cb_todos b))"
  have "td_id t = tu_id u" using find_todo [OF t] by blast
  then have "map td_id (map (\<lambda>x. if td_id x = tu_id u then changed_todo u t else x) (cb_todos b)) = map td_id (cb_todos b)"
    by (auto simp: map_eq_conv)
  then show ?thesis using assms(1) unfolding b' ids_apart_done by (simp only: ids_apart_def)
qed

lemma todo_remove_apart: "ids_apart b \<Longrightarrow> todo_remove b now i = Inr b' \<Longrightarrow> ids_apart b'"
  by (auto simp: todo_remove_def unknown_item_def ids_apart_def [of b] distinct_map_filter split: option.splits)

lemmas op_apart = plan_set_apart plan_add_apart plan_update_apart plan_remove_apart todo_add_apart todo_update_apart todo_remove_apart

lemma applyBoardOp_apart: "ids_apart b \<Longrightarrow> applyBoardOp env b op actor now duties = Inr b' \<Longrightarrow> ids_apart b'"
  by (cases op) (auto simp: applyBoardOp_def split: if_splits intro: op_apart)

text \<open>
  C18. A board stays well formed: over any batch of operations by either side, no two steps of the plan and no two todos share an id, the repeated and missing ids of a
  whole new plan included.
\<close>
theorem board_ids_apart:
  assumes "ids_apart b" and "apply_ops env b ops actor now = Inr b'"
  shows "ids_apart b'"
  using assms
proof (induction ops arbitrary: b)
  case (Cons op ops)
  then show ?case using applyBoardOp_apart [of b env op actor now None] by (auto simp: rbind_Inr)
qed simp

section \<open>Each side changes only its own\<close>





lemma done_rev [simp]: "cb_rev (done_plan env b now plan) = Suc (cb_rev b)" "cb_rev (done_todos b now todos) = Suc (cb_rev b)"
  by (simp_all add: done_plan_def done_todos_def)



section \<open>An open step has no closed goal above it\<close>

text \<open>\<open>path_open i ps\<close>: the item \<open>i\<close> and every item above it are open.\<close>

definition path_open :: "string \<Rightarrow> PlanItem list \<Rightarrow> bool" where
  "path_open i ps \<longleftrightarrow> (\<forall>a \<in> set (plan_items ps). i \<in> set (ids [a]) \<longrightarrow> open_status (pf_status (item a)))"

lemma path_open_simps [simp]:
  "path_open i []"
  "path_open i (PlanItem f cs # ps) \<longleftrightarrow> (i \<in> set (pf_id f # ids cs) \<longrightarrow> open_status (pf_status f)) \<and> path_open i cs \<and> path_open i ps"
  by (auto simp: path_open_def)

lemma path_open_append [simp]: "path_open i (ps @ qs) \<longleftrightarrow> path_open i ps \<and> path_open i qs"
  by (induction ps rule: plan_items.induct) auto

lemma path_open_miss: "i \<notin> set (ids ps) \<Longrightarrow> path_open i ps"
  by (induction ps rule: plan_items.induct) auto

definition kept_closed :: "string \<Rightarrow> PlanItem list \<Rightarrow> bool" where
  "kept_closed i ps \<longleftrightarrow> (\<forall>a \<in> set (plan_items ps). item_id a = i \<longrightarrow> \<not> pf_reopened (item a))"

lemma kept_closed_simps [simp]:
  "kept_closed i []" "kept_closed i (PlanItem f cs # ps) \<longleftrightarrow> (pf_id f = i \<longrightarrow> \<not> pf_reopened f) \<and> kept_closed i cs \<and> kept_closed i ps"
  by (auto simp: kept_closed_def)

lemma path_open_top: "path_open i ps \<Longrightarrow> i \<in> set (ids ps) \<Longrightarrow> list_ex (\<lambda>c. open_status (pf_status (item c))) ps"
  by (induction ps rule: plan_items.induct) auto

lemma path_open_reclose: "path_open i ps \<Longrightarrow> kept_closed i ps \<Longrightarrow> path_open i (fst (reclose ps))"
proof (induction ps rule: reclose.induct)
  case (2 f cs ps)
  obtain kids c1 where r1: "reclose cs = (kids, c1)" by fastforce
  obtain rest c2 where r2: "reclose ps = (rest, c2)" by fastforce
  have kids: "path_open i kids" "path_open i rest" using 2(1) 2(2) [OF r1 [symmetric]] 2(3,4) r1 r2 by auto
  have ids: "ids kids = ids cs" using ids_reclose [of cs] r1 by simp
  have "list_ex (\<lambda>c. open_status (pf_status (item c))) kids" if "i \<in> set (ids cs)"
    using path_open_top [OF kids(1)] that ids by simp
  then show ?case using 2(3,4) kids ids r1 r2 by auto
qed simp

lemma path_open_marked: "path_open i (markMerges env ps) \<longleftrightarrow> path_open i ps"
  by (induction ps rule: markMerges.induct) auto

text \<open>The same, but an item above may also be one of \<open>js\<close>, which are to be reopened.\<close>

definition path_in :: "string \<Rightarrow> string set \<Rightarrow> PlanItem list \<Rightarrow> bool" where
  "path_in i js ps \<longleftrightarrow> (\<forall>a \<in> set (plan_items ps). i \<in> set (ids [a]) \<longrightarrow> open_status (pf_status (item a)) \<or> item_id a \<in> js)"

lemma path_in_simps [simp]:
  "path_in i js []"
  "path_in i js (PlanItem f cs # ps) \<longleftrightarrow>
     (i \<in> set (pf_id f # ids cs) \<longrightarrow> open_status (pf_status f) \<or> pf_id f \<in> js) \<and> path_in i js cs \<and> path_in i js ps"
  by (auto simp: path_in_def)

lemma path_in_append [simp]: "path_in i js (ps @ qs) \<longleftrightarrow> path_in i js ps \<and> path_in i js qs"
  by (induction ps rule: plan_items.induct) auto

lemma path_in_empty: "path_in i {} ps \<longleftrightarrow> path_open i ps"
  by (simp add: path_in_def path_open_def)

lemma path_in_miss: "i \<notin> set (ids ps) \<Longrightarrow> path_in i js ps"
  by (induction ps rule: plan_items.induct) auto

lemma path_in_drop: "j \<notin> set (ids ps) \<Longrightarrow> path_in i (insert j js) ps \<Longrightarrow> path_in i js ps"
  by (induction ps rule: plan_items.induct) auto

lemma ids_reopened [simp]: "ids (map_item ps j reopen) = ids ps"
  using ids_reopen_all [of "[j]" ps] by (simp add: reopen_all_def)

lemma path_in_reopen: "distinct (ids ps) \<Longrightarrow> path_in i (insert j js) ps \<Longrightarrow> path_in i js (map_item ps j reopen)"
proof (induction ps j reopen rule: map_item.induct)
  case (2 f cs ps j)
  have jcs: "j = pf_id f \<Longrightarrow> path_in i js cs" using 2(3,4) path_in_drop [of j cs i js] by auto
  have rest: "path_in i js (map_item ps j reopen)" using 2 by simp
  show ?case
  proof (cases "pf_id f = j")
    case True
    then show ?thesis using jcs rest by (simp add: reopen_def open_status_def)
  next
    case False
    then have "path_in i js (map_item cs j reopen)" using 2 by simp
    then show ?thesis using False rest 2(4) by auto
  qed
qed simp

lemma path_open_reopen_all: "distinct (ids ps) \<Longrightarrow> path_in i (set js) ps \<Longrightarrow> path_open i (reopen_all js ps)"
proof (induction js arbitrary: ps)
  case Nil
  then show ?case by (simp add: reopen_all_def path_in_empty)
next
  case (Cons j js)
  then have "path_in i (set js) (map_item ps j reopen)" by (intro path_in_reopen) simp_all
  then show ?case using Cons.IH [of "map_item ps j reopen"] Cons.prems(1) by (simp add: reopen_all_def)
qed

lemma kept_closed_reopen: "j \<noteq> i \<Longrightarrow> kept_closed i (map_item ps j reopen) \<longleftrightarrow> kept_closed i ps"
proof (induction ps j reopen rule: map_item.induct)
  case (2 f cs ps j)
  then show ?case by (cases "pf_id f = j") (simp_all add: reopen_def)
qed simp

lemma kept_closed_reopen_all: "i \<notin> set js \<Longrightarrow> kept_closed i (reopen_all js ps) \<longleftrightarrow> kept_closed i ps"
proof (induction js arbitrary: ps)
  case (Cons j js)
  have "reopen_all (j # js) ps = reopen_all js (map_item ps j reopen)" by (simp add: reopen_all_def)
  then show ?case using Cons.IH [of "map_item ps j reopen"] Cons.prems kept_closed_reopen [of j i ps] by auto
qed (simp add: reopen_all_def)

lemma kept_closed_miss: "i \<notin> set (ids ps) \<Longrightarrow> kept_closed i ps"
  by (induction ps rule: plan_items.induct) auto

lemma kept_closed_append [simp]: "kept_closed i (ps @ qs) \<longleftrightarrow> kept_closed i ps \<and> kept_closed i qs"
  by (induction ps rule: plan_items.induct) auto

lemma kept_closed_added:
  assumes "i \<notin> set (ids ps)" and "kept_closed i [c]"
  shows "kept_closed i (map_item ps par (add_child c))"
  using assms
proof (induction ps par "add_child c" rule: map_item.induct)
  case (2 f cs ps par)
  then show ?case by (auto simp: add_child_def kept_closed_miss)
qed simp

lemma done_ids_item: "p \<in> set ps \<Longrightarrow> pf_status (item p) \<noteq> Dropped \<Longrightarrow> open_status (pf_status (item p)) \<or> item_id p \<in> set (done_ids ps)"
  by (cases "pf_status (item p)") (auto simp: open_status_def done_ids_def)

lemma path_added:
  assumes "find_item ps par over0 = Some (p, over)" and "distinct (ids ps)" and "i \<notin> set (ids ps)" and "path_open i [c]"
    and "\<forall>x \<in> set (over @ [p]). pf_status (item x) \<noteq> Dropped"
  shows "path_in i (set (done_ids (over @ [p]))) (map_item ps par (add_child c))"
  using assms
proof (induction ps par over0 rule: find_item.induct)
  case (2 f cs ps par over0)
  let ?js = "set (done_ids (over @ [p]))"
  have c: "path_in i ?js [c]" using 2(6) by (auto simp: path_in_def path_open_def)
  have miss: "path_in i ?js cs" "path_in i ?js ps" using 2(5) by (simp_all add: path_in_miss)
  show ?case
  proof (cases "pf_id f = par")
    case True
    then have p: "p = PlanItem f cs" using 2(3) by simp
    have "par \<notin> set (ids ps)" using 2(4) True by auto
    moreover have "open_status (pf_status f) \<or> pf_id f \<in> ?js" using done_ids_item [of p "over @ [p]"] 2(7) p by simp
    ultimately show ?thesis using True c miss by (simp add: add_child_def map_item_miss)
  next
    case False
    show ?thesis
    proof (cases "find_item cs par (over0 @ [PlanItem f cs])")
      case None
      then have "par \<notin> set (ids cs)" by (simp add: find_item_None)
      moreover have "path_in i ?js (map_item ps par (add_child c))" using 2(2) [OF False None] 2(3-7) False None by simp
      ultimately show ?thesis using False miss 2(5) by (simp add: map_item_miss)
    next
      case (Some r)
      then have r: "find_item cs par (over0 @ [PlanItem f cs]) = Some (p, over)" using 2(3) False by simp
      then have "par \<notin> set (ids ps)" using 2(4) find_item_None [of cs par "over0 @ [PlanItem f cs]"] by auto
      moreover have "path_in i ?js (map_item cs par (add_child c))" using 2(1) [OF False r] 2(4-7) by simp
      moreover have "PlanItem f cs \<in> set (over @ [p])" using find_item_over [OF r] by simp
      then have "open_status (pf_status f) \<or> pf_id f \<in> ?js" using done_ids_item [of "PlanItem f cs" "over @ [p]"] 2(7) by (metis PlanItem.sel(1))
      ultimately show ?thesis using False miss by (simp add: map_item_miss)
    qed
  qed
qed simp

text \<open>
  A step added under a finished goal reopens it: when an open step is added under an item and no item on the way was dropped, the new step and every item above it
  are open afterwards, whatever the board closes again in the same write.
\<close>
theorem added_step_reopens:
  assumes "ids_apart b" and "plan_add env duties b now (Some par) i = Inr b'" and "find_item (cb_plan b) par [] = Some (p, over)"
    and "\<forall>x \<in> set (over @ [p]). pf_status (item x) \<noteq> Dropped" and "\<forall>s. in_status i = Some s \<longrightarrow> open_status s"
  shows "p_id (Suc (fst (idsTop b))) \<in> set (ids (cb_plan b')) \<and> path_open (p_id (Suc (fst (idsTop b)))) (cb_plan b')"
proof -
  let ?n = "p_id (Suc (fst (idsTop b)))"
  define c where "c = new_item env b now i"
  define ps where "ps = map_item (cb_plan b) par (add_child c)"
  have d: "distinct (ids (cb_plan b))" using assms(1) by (simp add: ids_apart_def)
  have n: "?n \<notin> set (ids (cb_plan b))" using plan_id_fresh [of b] by (simp add: board_ids_def ids_def)
  have c: "ids [c] = [?n]" "path_open ?n [c]" "kept_closed ?n [c]"
    using assms(5) by (auto simp: c_def new_item_def open_status_def split: option.split)
  have "insert_item env b now (Some par) c = Inr b'" using assms(2) by (auto simp: plan_add_def rbind_Inr c_def)
  then have b': "cb_plan b' = markMerges env (fst (reclose (reopen_all (done_ids (over @ [p])) ps)))"
    using assms(3) by (auto simp: insert_item_def done_plan_def ps_def)
  have par: "par \<in> set (ids (cb_plan b))" using assms(3) find_item_None [of "cb_plan b" par "[]"] by auto
  have m: "mset (ids ps) = mset (ids (cb_plan b) @ [?n])" using ids_added [OF d par, of c] c(1) by (simp add: ps_def)
  then have dps: "distinct (ids ps)" using mset_eq_imp_distinct_iff [OF m] d n by simp
  have "?n \<in> set (ids ps)" using m by (metis in_set_conv_decomp mset_eq_setD)
  moreover have "path_open ?n (reopen_all (done_ids (over @ [p])) ps)"
    unfolding ps_def by (intro path_open_reopen_all path_added [OF assms(3) d n c(2) assms(4)]) (use dps ps_def in simp)
  moreover have "kept_closed ?n (reopen_all (done_ids (over @ [p])) ps)"
  proof -
    have "set (done_ids (over @ [p])) \<subseteq> set (ids (cb_plan b))"
      using find_item_above [OF assms(3)] find_item_found [OF assms(3)] par by (auto simp: done_ids_def)
    then show ?thesis using n kept_closed_added [OF n c(3), of par] by (subst kept_closed_reopen_all) (auto simp: ps_def)
  qed
  ultimately show ?thesis unfolding b' by (simp add: path_open_marked path_open_reclose)
qed

section \<open>Boards to read\<close>

definition plain_env :: board_env where
  "plain_env = \<lparr>be_engine = \<lparr>en_url = (\<lambda>_. None), en_decode = Some\<rparr>, be_time = (\<lambda>_. None), be_merges = (\<lambda>_. False), be_vendor = (\<lambda>_. None)\<rparr>"

definition plain_input :: "string option \<Rightarrow> plan_input" where
  "plain_input i = \<lparr>in_id = i, in_text = ''x'', in_status = None, in_job = None, in_sessionId = None, in_note = None, in_waitUntil = None, in_waitFor = None,
     in_target = None, in_duty = None, in_go = False, in_build = False, in_requirements = None\<rparr>"

definition plain_step :: "nat \<Rightarrow> PlanStatus \<Rightarrow> PlanItem list \<Rightarrow> PlanItem" where
  "plain_step n s cs = PlanItem \<lparr>pf_id = p_id n, pf_text = ''x'', pf_status = s, pf_job = None, pf_note = None, pf_waitUntil = None, pf_waitFor = None,
     pf_sessionId = None, pf_go = False, pf_build = False, pf_requirements = None, pf_target = None, pf_duty = None, pf_reopened = False\<rparr> cs"

definition plain_board :: "PlanItem list \<Rightarrow> ChatBoard" where
  "plain_board ps = (emptyBoard ''now'')\<lparr>cb_plan := ps\<rparr>"

definition shown :: "ChatBoard board_res \<Rightarrow> (string \<times> PlanStatus) list" where
  "shown r = (case r of Inr b \<Rightarrow> map (\<lambda>p. (item_id p, pf_status (item p))) (plan_items (cb_plan b)) | Inl _ \<Rightarrow> [])"

definition board_of :: "ChatBoard board_res \<Rightarrow> ChatBoard" where
  "board_of r = (case r of Inr b \<Rightarrow> b | Inl _ \<Rightarrow> emptyBoard [])"

lemma example_reopens:
  "shown (applyBoardOp plain_env (plain_board [plain_step 1 Done [plain_step 2 Done []]]) (PlanAdd (Some ''p2'') (plain_input None)) Agent ''now'' None) =
     [(''p1'', Todo), (''p2'', Todo), (''p3'', Todo)]"
  by code_simp

text \<open>
  A dropped step between the two: the goal is reopened and closed again at once, since only its own steps are looked at, and an open step is left under a finished goal.
\<close>

lemma dropped_step_hides_open_one:
  "shown (applyBoardOp plain_env (plain_board [plain_step 1 Done [plain_step 2 Dropped []]]) (PlanAdd (Some ''p2'') (plain_input None)) Agent ''now'' None) =
     [(''p1'', Done), (''p2'', Dropped), (''p3'', Todo)]"
  by code_simp

text \<open>
  The reducer keeps \<open>lastIds\<close> as it finds it, and the chat server stores its boards as they come: the id of a removed step goes to the next one.
\<close>

lemma removed_id_given_again:
  "shown (apply_ops plain_env (plain_board [plain_step 1 Todo []]) [PlanRemove ''p1'', PlanAdd None (plain_input None)] Agent ''now'') = [(''p1'', Todo)]"
  by code_simp

lemma example_repeated_ids:
  "shown (applyBoardOp plain_env (plain_board []) (PlanSet [PlanItemInput (plain_input (Some ''p1'')) [PlanItemInput (plain_input None) []],
      PlanItemInput (plain_input (Some ''p1'')) []]) Agent ''now'' None) = [(''p1'', Todo), (''p2'', Todo), (''p3'', Todo)]"
  by code_simp

lemma board_of_Inr: "\<not> isl r \<Longrightarrow> r = Inr (board_of r)"
  by (cases r) (simp_all add: board_of_def)

definition two_done :: ChatBoard where
  "two_done = plain_board [plain_step 1 Done [plain_step 2 Done []]]"

lemma two_done_apart: "ids_apart two_done"
  by code_simp

theorem board_ids_apart_witness:
  "ids_apart (board_of (apply_ops plain_env two_done [PlanAdd (Some ''p2'') (plain_input None), PlanRemove ''p2'', PlanAdd None (plain_input None)] Agent ''now''))"
  by (rule board_ids_apart [OF two_done_apart board_of_Inr]) code_simp


theorem added_step_reopens_witness:
  "path_open (p_id (Suc (fst (idsTop two_done)))) (cb_plan (board_of (plan_add plain_env None two_done ''now'' (Some ''p2'') (plain_input None))))"
proof -
  have "\<not> isl (plan_add plain_env None two_done ''now'' (Some ''p2'') (plain_input None))" by code_simp
  moreover have "find_item (cb_plan two_done) ''p2'' [] = Some (plain_step 2 Done [], [plain_step 1 Done [plain_step 2 Done []]])" by code_simp
  ultimately show ?thesis using added_step_reopens [OF two_done_apart board_of_Inr] by (simp add: plain_step_def plain_input_def)
qed

end
