(* ===== verification/BoardTypes.thy ===== *)
theory BoardTypes
  imports BoardParse BoardRules
begin

text \<open>
  The type of a board. \<open>parseBoardOp\<close> is where an untrusted value becomes an operation and \<open>the reducer trusts its input after this\<close>: what the parser lets
  through is well typed, and the reducer keeps a board well typed on well-typed operations. So a request of any shape leaves the stored board well typed.
\<close>

section \<open>Well-typed values\<close>

definition nonblank :: "string \<Rightarrow> bool" where
  "nonblank s \<longleftrightarrow> js_trim s \<noteq> []"

definition target_ok :: "GoalTarget \<Rightarrow> bool" where
  "target_ok g \<longleftrightarrow> nonblank (gt_metric g) \<and> nonblank (gt_unit g) \<and> 0 \<le> gt_target g \<and> pred_option (\<lambda>c. 0 \<le> c) (gt_current g) \<and>
     pred_option nonblank (gt_source g) \<and>
     (gt_measuredAt g = None \<longleftrightarrow> gt_current g = None) \<and> (gt_source g = None \<longleftrightarrow> gt_current g = None)"

definition requirement_ok :: "Requirement \<Rightarrow> bool" where
  "requirement_ok r \<longleftrightarrow> nonblank (rq_text r) \<and> pred_option nonblank (rq_evidence r) \<and> pred_option nonblank (rq_note r)"

definition requirements_ok :: "Requirement list \<Rightarrow> bool" where
  "requirements_ok rs \<longleftrightarrow> rs \<noteq> [] \<and> list_all requirement_ok rs"

definition duty_ok :: "string \<Rightarrow> bool" where
  "duty_ok d \<longleftrightarrow> parseDutyLink d \<noteq> None"

definition fields_ok :: "plan_fields \<Rightarrow> bool" where
  "fields_ok f \<longleftrightarrow> nonblank (pf_text f) \<and> pred_option nonblank (pf_waitFor f) \<and> pred_option target_ok (pf_target f) \<and>
     pred_option requirements_ok (pf_requirements f) \<and> pred_option duty_ok (pf_duty f)"

fun plan_all :: "(plan_fields \<Rightarrow> bool) \<Rightarrow> PlanItem list \<Rightarrow> bool" where
  "plan_all P [] = True"
| "plan_all P (PlanItem f cs # ps) = (P f \<and> plan_all P cs \<and> plan_all P ps)"

definition choices_ok :: "string list \<Rightarrow> bool" where
  "choices_ok cs \<longleftrightarrow> cs \<noteq> [] \<and> list_all nonblank cs"

definition todo_ok :: "OwnerTodo \<Rightarrow> bool" where
  "todo_ok t \<longleftrightarrow> nonblank (td_text t) \<and> pred_option choices_ok (td_choices t) \<and> pred_option nonblank (td_reply t)"

definition board_ok :: "ChatBoard \<Rightarrow> bool" where
  "board_ok b \<longleftrightarrow> plan_all fields_ok (cb_plan b) \<and> list_all todo_ok (cb_todos b)"

definition input_ok :: "plan_input \<Rightarrow> bool" where
  "input_ok i \<longleftrightarrow> nonblank (in_text i) \<and> pred_option nonblank (in_waitFor i) \<and> pred_option target_ok (in_target i) \<and>
     pred_option requirements_ok (in_requirements i) \<and> pred_option duty_ok (in_duty i)"

fun inputs_ok :: "PlanItemInput list \<Rightarrow> bool" where
  "inputs_ok [] = True"
| "inputs_ok (PlanItemInput i cs # ps) = (input_ok i \<and> inputs_ok cs \<and> inputs_ok ps)"

definition change_ok :: "plan_change \<Rightarrow> bool" where
  "change_ok u \<longleftrightarrow> pred_option nonblank (pu_text u) \<and> pred_option (pred_option nonblank) (pu_waitFor u) \<and> pred_option (pred_option target_ok) (pu_target u) \<and>
     pred_option (pred_option requirements_ok) (pu_requirements u) \<and> pred_option (pred_option duty_ok) (pu_duty u)"

definition todo_change_ok :: "todo_change \<Rightarrow> bool" where
  "todo_change_ok u \<longleftrightarrow> pred_option nonblank (tu_text u) \<and> pred_option (pred_option nonblank) (tu_reply u) \<and>
     pred_option (pred_option (list_all nonblank)) (tu_choices u)"

fun op_ok :: "BoardOp \<Rightarrow> bool" where
  "op_ok (PlanSet ps) = inputs_ok ps"
| "op_ok (PlanAdd parent i) = input_ok i"
| "op_ok (PlanUpdate u) = change_ok u"
| "op_ok (PlanRemove i) = True"
| "op_ok (TodoAdd t cs step ls) = (nonblank t \<and> pred_option choices_ok cs)"
| "op_ok (TodoUpdate u) = todo_change_ok u"
| "op_ok (TodoRemove i) = True"

lemmas type_defs = target_ok_def requirement_ok_def requirements_ok_def fields_ok_def input_ok_def change_ok_def

section \<open>The parser gives well-typed operations\<close>

lemma bstr_ok: "bstr v fld = Inr s \<Longrightarrow> nonblank s"
  by (auto simp: bstr_def nonblank_def invalid_op_def split: option.splits json.splits if_splits)

lemma optStr_ok: "optStr v fld = Inr s \<Longrightarrow> pred_option nonblank s"
  by (auto simp: optStr_def dest: bstr_ok split: if_splits)

lemma nullableStr_ok: "nullableStr v fld = Inr s \<Longrightarrow> pred_option (pred_option nonblank) s"
  by (auto simp: nullableStr_def option.pred_map comp_def dest!: optStr_ok split: if_splits)

lemma dutyLinkValue_ok: "dutyLinkValue v = Inr s \<Longrightarrow> duty_ok s"
  by (auto simp: dutyLinkValue_def duty_ok_def invalid_op_def split: option.splits json.splits if_splits)

lemma parse_requirement_ok: "parse_requirement l = Inr r \<Longrightarrow> requirement_ok r"
  by (auto simp: parse_requirement_def requirement_ok_def invalid_op_def dest!: bstr_ok optStr_ok split: if_splits option.splits)

lemma rmap_ok: "rmap f xs = Inr ys \<Longrightarrow> (\<And>x y. f x = Inr y \<Longrightarrow> P y) \<Longrightarrow> list_all P ys"
  by (induction xs arbitrary: ys) auto

lemma parsed_requirements_ok: "requirements v = Inr rs \<Longrightarrow> requirements_ok rs"
proof -
  assume v: "requirements v = Inr rs"
  then obtain l ls where r: "rmap parse_requirement (l # ls) = Inr rs" by (auto simp: requirements_def invalid_op_def split: json.splits list.splits)
  then have "rs \<noteq> []" by auto
  moreover have "list_all requirement_ok rs" by (rule rmap_ok[OF r parse_requirement_ok])
  ultimately show "requirements_ok rs" by (simp add: requirements_ok_def)
qed

lemma gates_ok: "gates go kind reqs = Inr (g, k, ls) \<Longrightarrow> pred_option requirements_ok ls"
  by (auto simp: gates_def dest: parsed_requirements_ok split: option.splits)

lemma amount_ok: "amount v fld = Inr q \<Longrightarrow> 0 \<le> q"
  by (auto simp: amount_def invalid_op_def split: option.splits json.splits if_splits)

lemma goalTarget_ok: "goalTarget env to_iso v = Inr g \<Longrightarrow> target_ok g"
  by (auto simp: goalTarget_def target_ok_def measurement_def Let_def invalid_op_def dest: bstr_ok amount_ok split: if_splits)

lemma step_fields_ok: "step_fields env to_iso v t i = Inr r \<Longrightarrow> nonblank t \<Longrightarrow> input_ok r"
  by (auto simp: step_fields_def input_ok_def dest: optStr_ok gates_ok goalTarget_ok dutyLinkValue_ok split: option.splits)

lemma input_fields_ok: "input_fields env to_iso v = Inr r \<Longrightarrow> input_ok r"
  by (auto simp: input_fields_def dest: bstr_ok step_fields_ok)

lemma planInputs_ok: "planInputs env to_iso vs = Inr ps \<Longrightarrow> inputs_ok ps"
proof (induction env to_iso vs arbitrary: ps rule: planInputs.induct)
  case (2 env to_iso fs vs)
  then show ?case by (auto simp: invalid_op_def dest: input_fields_ok split: option.splits json.splits)
qed (auto simp: invalid_op_def)

lemma cleared_ok: "cleared v parse = Inr r \<Longrightarrow> (\<And>j x. parse j = Inr x \<Longrightarrow> P x) \<Longrightarrow> pred_option (pred_option P) r"
  by (auto simp: cleared_def split: option.splits if_splits)

lemma parse_plan_update_ok: "parse_plan_update env to_iso v = Inr op \<Longrightarrow> op_ok op"
  by (auto simp: parse_plan_update_def change_ok_def option.pred_map comp_def dest!: optStr_ok nullableStr_ok gates_ok
      dest: cleared_ok[where P = target_ok, OF _ goalTarget_ok] cleared_ok[where P = duty_ok, OF _ dutyLinkValue_ok])

lemma parse_choices_ok: "parse_choices v = Inr cs \<Longrightarrow> list_all nonblank cs"
  by (auto simp: parse_choices_def invalid_op_def nonblank_def dest!: bstr_ok elim!: rmap_ok split: json.splits)

lemma parse_todo_update_ok: "parse_todo_update env v = Inr op \<Longrightarrow> op_ok op"
  by (auto simp: parse_todo_update_def todo_change_ok_def dest: optStr_ok cleared_ok[where P = "list_all nonblank", OF _ parse_choices_ok]
      cleared_ok[where P = nonblank, OF _ bstr_ok])

lemma parse_todo_add_ok: "parse_todo_add env v = Inr op \<Longrightarrow> op_ok op"
  by (auto simp: parse_todo_add_def choices_ok_def dest: bstr_ok parse_choices_ok split: option.splits if_splits)

lemma parseBoardOp_ok: "parseBoardOp env to_iso v = Inr op \<Longrightarrow> op_ok op"
  by (auto simp: parseBoardOp_def parse_plan_add_def Let_def invalid_op_def dest: bstr_ok step_fields_ok planInputs_ok parse_plan_update_ok
      parse_todo_add_ok parse_todo_update_ok split: if_splits option.splits json.splits)

lemma parseBoardOps_ok: "parseBoardOps env to_iso v = Inr ops \<Longrightarrow> list_all op_ok ops"
  by (auto simp: parseBoardOps_def invalid_op_def dest!: rmap_ok[OF _ parseBoardOp_ok] split: json.splits)

section \<open>The reducer keeps a board well typed\<close>

lemma plan_all_append [simp]: "plan_all P (ps @ qs) \<longleftrightarrow> plan_all P ps \<and> plan_all P qs"
  by (induction P ps rule: plan_all.induct) auto

lemma plan_all_one: "plan_all P [p] \<longleftrightarrow> P (item p) \<and> plan_all P (children p)"
  by (cases p) simp

lemma find_item_all: "find_item ps i over = Some (p, up) \<Longrightarrow> plan_all P ps \<Longrightarrow> P (item p) \<and> plan_all P (children p)"
  by (induction ps i over arbitrary: p up rule: find_item.induct) (auto split: if_splits option.splits)

lemma map_item_all:
  assumes "plan_all P ps" and "\<And>p q. P (item p) \<Longrightarrow> plan_all P (children p) \<Longrightarrow> change p = Some q \<Longrightarrow> plan_all P [q]"
  shows "plan_all P (map_item ps i change)"
  using assms
proof (induction ps i change rule: map_item.induct)
  case (2 f cs ps i change)
  then have "change (PlanItem f cs) = Some q \<Longrightarrow> plan_all P [q]" for q by (metis PlanItem.sel plan_all.simps(2))
  then show ?case using 2 by (auto split: option.splits)
qed simp

lemma fields_status_ok [simp]:
  "fields_ok (f\<lparr>pf_reopened := r, pf_status := s\<rparr>) = fields_ok f" "fields_ok (f\<lparr>pf_status := s, pf_reopened := r\<rparr>) = fields_ok f"
  "fields_ok (f\<lparr>pf_go := g\<rparr>) = fields_ok f"
  by (simp_all add: fields_ok_def)

lemma reclose_ok: "plan_all fields_ok ps \<Longrightarrow> plan_all fields_ok (fst (reclose ps))"
  by (induction ps rule: reclose.induct) (auto split: prod.splits)

lemma markMerges_ok: "plan_all fields_ok ps \<Longrightarrow> plan_all fields_ok (markMerges env ps)"
  by (induction env ps rule: markMerges.induct) auto

lemma reopen_all_ok: "plan_all fields_ok ps \<Longrightarrow> plan_all fields_ok (reopen_all xs ps)"
proof (induction xs arbitrary: ps)
  case (Cons i js)
  have "plan_all fields_ok (map_item ps i reopen)" by (rule map_item_all) (use Cons.prems in \<open>auto simp: reopen_def\<close>)
  then show ?case using Cons.IH by (simp add: reopen_all_def)
qed (simp add: reopen_all_def)

lemma add_child_ok: "plan_all fields_ok ps \<Longrightarrow> plan_all fields_ok [c] \<Longrightarrow> plan_all fields_ok (map_item ps i (add_child c))"
  by (rule map_item_all) (auto simp: add_child_def)

lemma done_plan_ok: "plan_all fields_ok ps \<Longrightarrow> board_ok b \<Longrightarrow> board_ok (done_plan env b now ps)"
  by (simp add: board_ok_def done_plan_def reclose_ok markMerges_ok)

lemma done_todos_ok: "list_all todo_ok ts \<Longrightarrow> board_ok b \<Longrightarrow> board_ok (done_todos b now ts)"
  by (simp add: board_ok_def done_todos_def)

lemma set_text_ok: "pred_option P t \<Longrightarrow> pred_option P (set_text t)"
  by (simp add: set_text_def)

lemma gate_requirements_ok: "pred_option requirements_ok r \<Longrightarrow> pred_option requirements_ok (gate_requirements r)"
  by (simp add: gate_requirements_def)

lemma newerReading_ok:
  assumes "target_ok g" and "pred_option target_ok kept"
  shows "target_ok (newerReading env g kept now)"
  using assms by (cases kept) (auto simp: newerReading_def target_ok_def)

lemma storedTarget_ok: "target_ok g \<Longrightarrow> pred_option target_ok kept \<Longrightarrow> target_ok (storedTarget env g kept now)"
  using newerReading_ok[of g kept env now] by (auto simp: storedTarget_def Let_def target_ok_def split: option.splits)

lemma kept_ok: "plan_all fields_ok ps \<Longrightarrow> pred_option fields_ok (if c then map_option (item \<circ> fst) (find_item ps i over) else None)"
  by (cases "find_item ps i over") (auto dest: find_item_all)

lemma fields_ok_parts:
  assumes "pred_option fields_ok k"
  shows "pred_option target_ok (Option.bind k pf_target)" "pred_option requirements_ok (Option.bind k pf_requirements)" "pred_option duty_ok (Option.bind k pf_duty)"
  using assms by (cases k; simp add: fields_ok_def)+

lemma build_fields_ok:
  assumes "build_fields env duties b now i itemId = Inr f" and "plan_all fields_ok (cb_plan b)" and "input_ok i"
  shows "fields_ok f"
  using assms(1,3) fields_ok_parts[OF kept_ok[OF assms(2), of "in_id i = Some itemId" itemId "[]"]]
  unfolding build_fields_def Let_def
  by (auto simp: fields_ok_def input_ok_def intro!: set_text_ok gate_requirements_ok storedTarget_ok split: option.split)

lemma build_ok: "build env duties b now ps st = Inr (qs, st') \<Longrightarrow> plan_all fields_ok (cb_plan b) \<Longrightarrow> inputs_ok ps \<Longrightarrow> plan_all fields_ok qs"
proof (induction env duties b now ps st arbitrary: qs st' rule: build.induct)
  case (2 env duties b now i cs ps st)
  then show ?case by (auto dest: build_fields_ok split: prod.splits)
qed simp

lemma plan_set_ok: "plan_set env duties b now ps = Inr b' \<Longrightarrow> board_ok b \<Longrightarrow> inputs_ok ps \<Longrightarrow> board_ok b'"
  by (auto simp: plan_set_def board_ok_def intro!: done_plan_ok[unfolded board_ok_def] dest: build_ok)

lemma new_item_ok: "input_ok i \<Longrightarrow> plan_all fields_ok [new_item env b now i]"
  by (auto simp: new_item_def fields_ok_def input_ok_def option.pred_map option.pred_set comp_def
      intro!: set_text_ok[unfolded option.pred_set] gate_requirements_ok[unfolded option.pred_set] storedTarget_ok)

lemma insert_item_ok: "insert_item env b now parent c = Inr b' \<Longrightarrow> board_ok b \<Longrightarrow> plan_all fields_ok [c] \<Longrightarrow> board_ok b'"
  by (auto simp: insert_item_def unknown_item_def board_ok_def intro!: done_plan_ok[unfolded board_ok_def] reopen_all_ok add_child_ok split: option.splits)

lemma plan_add_ok: "plan_add env duties b now parent i = Inr b' \<Longrightarrow> board_ok b \<Longrightarrow> input_ok i \<Longrightarrow> board_ok b'"
  by (auto simp: plan_add_def dest: insert_item_ok[OF _ _ new_item_ok])

lemma changed_job_ok [simp]: "fields_ok (changed_job env u f) = fields_ok f"
  by (simp add: changed_job_def Let_def fields_ok_def)

lemma changed_note_ok [simp]: "fields_ok (changed_note u f) = fields_ok f"
  by (simp add: changed_note_def fields_ok_def split: option.split)

lemma changed_duty_ok: "changed_duty duties u f = Inr f' \<Longrightarrow> fields_ok f \<Longrightarrow> change_ok u \<Longrightarrow> fields_ok f'"
  by (auto simp: changed_duty_def fields_ok_def change_ok_def split: option.splits if_splits)

lemma changed_target_ok: "changed_target env now u f = Inr f' \<Longrightarrow> fields_ok f \<Longrightarrow> change_ok u \<Longrightarrow> fields_ok f'"
  by (auto simp: changed_target_def fields_ok_def change_ok_def Let_def intro!: storedTarget_ok split: option.splits if_splits)

lemma changed_text_ok: "pred_option (pred_option P) new \<Longrightarrow> pred_option P old \<Longrightarrow> pred_option P (changed_text new old)"
  by (cases new) (simp_all add: changed_text_def)

lemma changed_middle_ok:
  assumes "fields_ok f" and "change_ok u"
  shows "fields_ok (f\<lparr>pf_waitUntil := w, pf_waitFor := changed_text (pu_waitFor u) (pf_waitFor f), pf_go := g, pf_build := k,
    pf_requirements := (case pu_requirements u of None \<Rightarrow> pf_requirements f | Some r \<Rightarrow> r)\<rparr>)"
  using assms by (auto simp: fields_ok_def change_ok_def intro!: changed_text_ok split: option.split)

lemma changed_fields_ok:
  assumes "changed_fields env duties now u f = Inr f'" and "fields_ok f" and "change_ok u"
  shows "fields_ok f'"
proof -
  let ?f1 = "f\<lparr>pf_text := (case pu_text u of Some t \<Rightarrow> t | None \<Rightarrow> pf_text f), pf_reopened := (pf_reopened f \<and> pu_status u = None),
    pf_status := (case pu_status u of Some s \<Rightarrow> s | None \<Rightarrow> pf_status f)\<rparr>"
  have "fields_ok ?f1" using assms(2,3) by (auto simp: fields_ok_def change_ok_def split: option.split)
  then have f2: "fields_ok (changed_note u (changed_job env u ?f1))" by simp
  obtain f4 where "changed_duty duties u
      ((changed_note u (changed_job env u ?f1))\<lparr>pf_waitUntil := changed_text (pu_waitUntil u) (pf_waitUntil (changed_note u (changed_job env u ?f1))),
        pf_waitFor := changed_text (pu_waitFor u) (pf_waitFor (changed_note u (changed_job env u ?f1))),
        pf_go := (pf_go (changed_note u (changed_job env u ?f1)) \<or> pu_go u),
        pf_build := (case pu_build u of None \<Rightarrow> pf_build (changed_note u (changed_job env u ?f1)) | Some k \<Rightarrow> k),
        pf_requirements := (case pu_requirements u of None \<Rightarrow> pf_requirements (changed_note u (changed_job env u ?f1)) | Some r \<Rightarrow> r)\<rparr>) = Inr f4"
      and "changed_target env now u f4 = Inr f'"
    using assms(1) unfolding changed_fields_def Let_def by (elim rbind_InrE)
  then show ?thesis using changed_middle_ok[OF f2 assms(3)] changed_duty_ok changed_target_ok assms(3) by blast
qed

lemma removed_ok: "plan_all fields_ok ps \<Longrightarrow> plan_all fields_ok (map_item ps i (\<lambda>_. None))"
  by (rule map_item_all) auto

lemma replaced_ok: "plan_all fields_ok ps \<Longrightarrow> plan_all fields_ok [q] \<Longrightarrow> plan_all fields_ok (map_item ps i (\<lambda>_. Some q))"
  by (rule map_item_all) auto

lemma moved_plan_ok: "plan_all fields_ok ps \<Longrightarrow> plan_all fields_ok [c] \<Longrightarrow> plan_all fields_ok (moved_plan ps i dest c)"
  by (auto simp: moved_plan_def Let_def intro!: reopen_all_ok add_child_ok removed_ok split: option.split)

lemma plan_update_ok:
  assumes "plan_update env duties b now u = Inr b'" and b: "board_ok b" and u: "change_ok u"
  shows "board_ok b'"
proof -
  have ps: "plan_all fields_ok (cb_plan b)" using b by (simp add: board_ok_def)
  obtain p over where p: "find_item (cb_plan b) (pu_id u) [] = Some (p, over)"
    using assms(1) by (auto simp: plan_update_def unknown_item_def split: option.splits)
  from assms(1) obtain f plan where f: "changed_fields env duties now u (item p) = Inr f"
      and plan: "b' = done_plan env b now plan"
      and made: "plan = map_item (cb_plan b) (pu_id u) (\<lambda>_. Some (PlanItem f (children p))) \<or>
        (\<exists>dest. plan = moved_plan (cb_plan b) (pu_id u) dest (PlanItem f (children p)))"
    by (auto simp: plan_update_def p Let_def split: option.splits if_splits)
  have "plan_all fields_ok [PlanItem f (children p)]"
    using changed_fields_ok[OF f _ u] find_item_all[OF p ps] by simp
  then have "plan_all fields_ok plan" using made ps replaced_ok moved_plan_ok by blast
  then show ?thesis unfolding plan by (rule done_plan_ok[OF _ b])
qed

lemma plan_remove_ok: "plan_remove env b now i = Inr b' \<Longrightarrow> board_ok b \<Longrightarrow> board_ok b'"
  by (auto simp: plan_remove_def unknown_item_def board_ok_def intro!: done_plan_ok[unfolded board_ok_def] removed_ok split: option.splits)

lemma todo_add_ok: "todo_add env b actor now t cs step ls = Inr b' \<Longrightarrow> board_ok b \<Longrightarrow> nonblank t \<Longrightarrow> pred_option choices_ok cs \<Longrightarrow> board_ok b'"
  by (auto simp: todo_add_def unknown_item_def todo_ok_def board_ok_def intro!: done_todos_ok[unfolded board_ok_def] split: if_splits)

lemma changed_reply_ok: "todo_ok t \<Longrightarrow> todo_change_ok u \<Longrightarrow> todo_ok (changed_reply u t)"
  by (auto simp: changed_reply_def todo_ok_def todo_change_ok_def split: option.splits)

lemma changed_todo_ok:
  assumes "todo_ok t" and "todo_change_ok u"
  shows "todo_ok (changed_todo u t)"
  unfolding changed_todo_def
  by (rule changed_reply_ok) (use assms in \<open>auto simp: todo_ok_def todo_change_ok_def choices_ok_def split: option.splits\<close>)

lemma todo_update_ok: "todo_update env b actor now u = Inr b' \<Longrightarrow> board_ok b \<Longrightarrow> todo_change_ok u \<Longrightarrow> board_ok b'"
  by (auto simp: todo_update_def unknown_item_def board_ok_def list_all_iff find_Some_iff intro!: done_todos_ok[unfolded board_ok_def list_all_iff]
      changed_todo_ok split: option.splits if_splits)

lemma todo_remove_ok: "todo_remove b now i = Inr b' \<Longrightarrow> board_ok b \<Longrightarrow> board_ok b'"
  by (auto simp: todo_remove_def unknown_item_def board_ok_def list_all_iff intro!: done_todos_ok[unfolded board_ok_def list_all_iff] split: option.splits)

lemma applyBoardOp_ok: "applyBoardOp env b op actor now duties = Inr b' \<Longrightarrow> board_ok b \<Longrightarrow> op_ok op \<Longrightarrow> board_ok b'"
  unfolding applyBoardOp_def
  by (cases op) (auto dest: plan_set_ok plan_add_ok plan_update_ok plan_remove_ok todo_add_ok todo_update_ok todo_remove_ok split: if_splits)

lemma apply_ops_ok: "apply_ops env b ops actor now = Inr b' \<Longrightarrow> board_ok b \<Longrightarrow> list_all op_ok ops \<Longrightarrow> board_ok b'"
  by (induction env b ops actor now rule: apply_ops.induct) (auto dest: applyBoardOp_ok)

text \<open>
  C19. Whatever a request or a tool call sends, if the parser takes it and the reducer applies it, the board stays well typed: no item or todo has a blank
  text, every target is a metric with a non-negative number and a measurement that is whole or absent, every duty link names a duty and a metric,
  requirement and choice lists are not empty.
\<close>

theorem parsed_ops_keep_types:
  assumes "parseBoardOps env to_iso v = Inr ops" and "board_ok b" and "apply_ops env b ops actor now = Inr b'"
  shows "board_ok b'"
  using apply_ops_ok[OF assms(3,2) parseBoardOps_ok[OF assms(1)]] .

definition body_env :: board_env where
  "body_env = plain_env\<lparr>be_time := (\<lambda>_. Some 0)\<rparr>"

definition ex_body :: json where
  "ex_body = JArr [JObj [(''op'', JStr ''plan_add''), (''text'', JStr ''serve''),
     (''target'', JObj [(''metric'', JStr ''up''), (''target'', JNum 99), (''unit'', JStr ''%''), (''current'', JNum 0),
       (''measuredAt'', JStr ''2026-10-09''), (''source'', JStr ''log'')])]]"

theorem parsed_ops_keep_types_witness:
  "board_ok (board_of (apply_ops body_env (emptyBoard ''now'') (projr (parseBoardOps body_env (\<lambda>_. ''2026-10-09T00:00:00.000Z'') ex_body)) Agent ''now''))"
proof -
  have p: "\<not> isl (parseBoardOps body_env (\<lambda>_. ''2026-10-09T00:00:00.000Z'') ex_body)" by code_simp
  have b: "board_ok (emptyBoard ''now'')" by code_simp
  have a: "\<not> isl (apply_ops body_env (emptyBoard ''now'') (projr (parseBoardOps body_env (\<lambda>_. ''2026-10-09T00:00:00.000Z'') ex_body)) Agent ''now'')"
    by code_simp
  show ?thesis by (rule parsed_ops_keep_types [OF _ b board_of_Inr [OF a]]) (use p in \<open>cases "parseBoardOps body_env (\<lambda>_. ''2026-10-09T00:00:00.000Z'') ex_body"\<close>, auto)
qed

end
