(* ===== verification/GoalThreads.thy ===== *)
theory GoalThreads
  imports Goals
begin

text \<open>
  The goal of a conversation in a durable thread (\<open>packages/pi-host/src/durable/goal.ts\<close>): its document keeps the goal, the newest entry counted and the newest entry
  decided on. Each request and each settle counts the entries since, changes the goal, writes the document and sends its messages after the write. \<open>serial\<close> runs
  the updates of a conversation one after another, so an update is one step; between the write and the send the process may die.
\<close>

section \<open>Updates\<close>

record GoalRecord =
  gr_goal :: "goal option"
  gr_accounted :: nat
  gr_decided :: nat

definition empty_record :: GoalRecord where
  "empty_record = \<lparr>gr_goal = None, gr_accounted = 0, gr_decided = 0\<rparr>"

text \<open>A message to send, with its request id: the goal's id and, for a continuation, its number.\<close>

datatype goal_send = BudgetSend (gs_goal: string) (gs_text: string) | ContinuationSend (gs_goal: string) (gs_number: rat) (gs_text: string)

definition request_id :: "(rat \<Rightarrow> string) \<Rightarrow> goal_send \<Rightarrow> string" where
  "request_id nt s =
     (case s of BudgetSend i _ \<Rightarrow> ''goal-budget-limit:'' @ i | ContinuationSend i n _ \<Rightarrow> ''goal-continuation:'' @ i @ '':'' @ nt n)"

text \<open>An entry of the conversation, and the assistant message it holds, if it holds one.\<close>

type_synonym goal_entry = "nat \<times> assistant option"

record goal_host =
  gh_number :: "rat \<Rightarrow> string"
  gh_other :: "json \<Rightarrow> string"

text \<open>The scan: the goal, the newest entry seen, the budget text when an entry spent the budget, and the newest assistant entry.\<close>

record scanned =
  sc_goal :: "goal option"
  sc_accounted :: nat
  sc_budget :: "string option"
  sc_newest :: "(nat \<times> assistant) option"

definition scan_entry :: "goal_host \<Rightarrow> rat \<Rightarrow> goal_entry \<Rightarrow> scanned \<Rightarrow> scanned" where
  "scan_entry h now e s =
     (case e of
        (i, None) \<Rightarrow> s\<lparr>sc_accounted := max (sc_accounted s) i\<rparr>
      | (i, Some m) \<Rightarrow>
          (case account (gh_number h) now m (sc_goal s) of (g, crossed) \<Rightarrow>
             \<lparr>sc_goal = g, sc_accounted = max (sc_accounted s) i,
               sc_budget = (if crossed then map_option (\<lambda>x. gm_content (goal_message (gh_number h) (gh_other h) BudgetLimitContext x)) g else sc_budget s),
               sc_newest = Some (i, m)\<rparr>))"

definition scan :: "goal_host \<Rightarrow> rat \<Rightarrow> goal_entry list \<Rightarrow> scanned \<Rightarrow> scanned" where
  "scan h now es s = fold (scan_entry h now) es s"

record conversation =
  cv_entries :: "goal_entry list"
  cv_doc :: GoalRecord
  cv_loaded :: bool
  cv_pending :: "goal_send list"
  cv_sent :: "goal_send list"

definition uncounted :: "nat \<Rightarrow> goal_entry list \<Rightarrow> goal_entry list" where
  "uncounted n es = filter (\<lambda>(i, _). n < i) es"

text \<open>The goal an update starts from, and what its count of the entries gives.\<close>

definition counted :: "goal_host \<Rightarrow> rat \<Rightarrow> conversation \<Rightarrow> scanned" where
  "counted h now c =
     scan h now (uncounted (gr_accounted (cv_doc c)) (cv_entries c))
       \<lparr>sc_goal = (if cv_loaded c then gr_goal (cv_doc c) else restart_clock now (gr_goal (cv_doc c))), sc_accounted = gr_accounted (cv_doc c),
         sc_budget = None, sc_newest = None\<rparr>"

text \<open>What a change gives: the goal, the entry decided on, and the continuation to send.\<close>

record changed_goal =
  cg_goal :: "goal option"
  cg_decided :: nat
  cg_continuation :: "string option"

definition sends_of :: "scanned \<Rightarrow> changed_goal \<Rightarrow> goal_send list" where
  "sends_of s r =
     (case cg_goal r of
        None \<Rightarrow> []
      | Some g \<Rightarrow>
          (case sc_budget s of Some t \<Rightarrow> [BudgetSend (go_id g) t] | None \<Rightarrow> []) @
          (case cg_continuation r of Some t \<Rightarrow> [ContinuationSend (go_id g) (go_continuations g) t] | None \<Rightarrow> []))"

text \<open>An error of the change is thrown before the write; only the mark that the goal was read stays.\<close>

definition goal_update :: "goal_host \<Rightarrow> rat \<Rightarrow> (scanned \<Rightarrow> string + changed_goal) \<Rightarrow> conversation \<Rightarrow> conversation \<times> (string + changed_goal)" where
  "goal_update h now change c =
     (let s = counted h now c; c1 = c\<lparr>cv_loaded := True\<rparr> in
      case change s of
        Inl e \<Rightarrow> (c1, Inl e)
      | Inr r \<Rightarrow>
          (c1\<lparr>cv_doc := \<lparr>gr_goal = cg_goal r, gr_accounted = sc_accounted s, gr_decided = cg_decided r\<rparr>, cv_pending := cv_pending c @ sends_of s r\<rparr>, Inr r))"

datatype goal_call = GetGoal | CreateGoal json | CompleteGoal | OtherRequest string

text \<open>The change of a request, and what it answers.\<close>

definition request_change :: "rat \<Rightarrow> string \<Rightarrow> goal_call \<Rightarrow> nat \<Rightarrow> scanned \<Rightarrow> string + changed_goal" where
  \<open>request_change now uuid rq decided s =
     (case rq of
        GetGoal \<Rightarrow> Inr \<lparr>cg_goal = sc_goal s, cg_decided = decided, cg_continuation = None\<rparr>
      | CreateGoal p \<Rightarrow> rbind (goal_create now uuid p (sc_goal s)) (\<lambda>g. Inr \<lparr>cg_goal = Some g, cg_decided = decided, cg_continuation = None\<rparr>)
      | CompleteGoal \<Rightarrow> rbind (goal_complete now (sc_goal s)) (\<lambda>g. Inr \<lparr>cg_goal = Some g, cg_decided = decided, cg_continuation = None\<rparr>)
      | OtherRequest t \<Rightarrow> Inl (''unknown goal request type "'' @ t @ ''"''))\<close>

definition goal_request :: "goal_host \<Rightarrow> rat \<Rightarrow> string \<Rightarrow> goal_call \<Rightarrow> conversation \<Rightarrow> conversation \<times> (string + goal_view)" where
  "goal_request h now uuid rq c =
     (case goal_update h now (request_change now uuid rq (gr_decided (cv_doc c))) c of
        (c', Inl e) \<Rightarrow> (c', Inl e)
      | (c', Inr r) \<Rightarrow> (c', Inr (view (gh_number h) now (rq = CompleteGoal) (cg_goal r))))"

text \<open>
  What a settle does to the goal: \<open>running\<close> and \<open>work_out\<close> are the host's answers. The result has the goal, the entry decided on and whether a continuation goes out.
\<close>

definition settle_goal :: "rat \<Rightarrow> bool \<Rightarrow> bool \<Rightarrow> nat \<Rightarrow> (nat \<times> assistant) option \<Rightarrow> goal option \<Rightarrow> goal option \<times> nat \<times> bool" where
  "settle_goal now running work_out decided newest g =
     (case newest of
        None \<Rightarrow> (g, decided, False)
      | Some (i, m) \<Rightarrow>
          if \<not> goal_active g \<or> i \<le> decided \<or> running then (g, decided, False)
          else if snd (terminal now m g) \<or> work_out then (fst (terminal now m g), i, False)
          else (map_option (continued now) g, i, True))"

definition settle_change :: "goal_host \<Rightarrow> rat \<Rightarrow> bool \<Rightarrow> bool \<Rightarrow> nat \<Rightarrow> scanned \<Rightarrow> string + changed_goal" where
  "settle_change h now running work_out decided s =
     (case settle_goal now running work_out decided (sc_newest s) (sc_goal s) of (g, i, goes_on) \<Rightarrow>
        Inr \<lparr>cg_goal = g, cg_decided = i,
          cg_continuation = (if goes_on then map_option (\<lambda>x. gm_content (goal_message (gh_number h) (gh_other h) ContinuationContext x)) g else None)\<rparr>)"

definition goal_settled :: "goal_host \<Rightarrow> rat \<Rightarrow> bool \<Rightarrow> bool \<Rightarrow> conversation \<Rightarrow> conversation" where
  "goal_settled h now running work_out c =
     (if gr_goal (cv_doc c) = None then c else fst (goal_update h now (settle_change h now running work_out (gr_decided (cv_doc c))) c))"

section \<open>Runs\<close>

text \<open>
  Ids of goals are fresh (\<open>randomUUID\<close>): \<open>seen\<close> has those given so far. An entry is appended with an id above all others. A pending message is admitted or lost; a
  restart loses all.
\<close>

definition goals_seen :: "conversation \<Rightarrow> string set" where
  "goals_seen c = set_option (map_option go_id (gr_goal (cv_doc c))) \<union> gs_goal ` set (cv_pending c @ cv_sent c)"

inductive goal_step :: "goal_host \<Rightarrow> conversation \<Rightarrow> conversation \<Rightarrow> bool" for h :: goal_host where
  append_entry: "\<forall>(j, _) \<in> set (cv_entries c). j < i \<Longrightarrow> gr_accounted (cv_doc c) < i \<Longrightarrow> goal_step h c (c\<lparr>cv_entries := cv_entries c @ [(i, m)]\<rparr>)"
| request: "uuid \<notin> goals_seen c \<Longrightarrow> goal_step h c (fst (goal_request h now uuid rq c))"
| settle: "goal_step h c (goal_settled h now running work_out c)"
| admit: "cv_pending c = s # ss \<Longrightarrow> goal_step h c (c\<lparr>cv_pending := ss, cv_sent := cv_sent c @ [s]\<rparr>)"
| lose: "cv_pending c = s # ss \<Longrightarrow> goal_step h c (c\<lparr>cv_pending := ss\<rparr>)"
| restart: "goal_step h c (c\<lparr>cv_loaded := False, cv_pending := []\<rparr>)"

definition new_conversation :: "conversation \<Rightarrow> bool" where
  "new_conversation c \<longleftrightarrow> cv_doc c = empty_record \<and> cv_pending c = [] \<and> cv_sent c = [] \<and> sorted_wrt (\<lambda>(i, _) (j, _). i < j) (cv_entries c) \<and>
     (\<forall>(i, _) \<in> set (cv_entries c). 0 < i)"

section \<open>Late counting is eager counting\<close>

text \<open>A goal without its clock: every field a request, a settle or a message reads, its times apart.\<close>

definition core :: "goal \<Rightarrow> goal" where
  "core g = g\<lparr>go_time := 0, go_updated := 0, go_active_since := None\<rparr>"

lemma core_fields [simp]:
  "go_id (core g) = go_id g" "go_objective (core g) = go_objective g" "go_status (core g) = go_status g" "go_budget (core g) = go_budget g"
  "go_tokens (core g) = go_tokens g" "go_continuations (core g) = go_continuations g" "go_created (core g) = go_created g" "go_reason (core g) = go_reason g"
  by (simp_all add: core_def)

lemma core_eq:
  "core g = core k \<longleftrightarrow> go_id g = go_id k \<and> go_objective g = go_objective k \<and> go_status g = go_status k \<and> go_budget g = go_budget k \<and>
     go_tokens g = go_tokens k \<and> go_continuations g = go_continuations k \<and> go_created g = go_created k \<and> go_reason g = go_reason k"
  by (cases g; cases k) (auto simp: core_def)

definition cores :: "goal option \<Rightarrow> goal option" where
  "cores = map_option core"

lemma cores_simps [simp]: "cores None = None" "cores (Some g) = Some (core g)" "cores (cores e) = cores e"
  by (simp_all add: cores_def core_def) (cases e; simp add: core_def)

lemma set_status_more [simp]:
  "go_created (set_status now st r g) = go_created g" "go_reason (set_status now st r g) = (if r = [] then None else Some r)"
  "go_created (goal_save now g) = go_created g" "go_reason (goal_save now g) = go_reason g"
  by (simp_all add: set_status_def goal_save_def)





lemma restart_core [simp]: "cores (restart_clock now g) = cores g"
  by (cases g) (auto simp: restart_clock_def cores_def core_eq)


lemma goal_complete_core:
  assumes "cores g = cores k"
  shows "rel_sum (=) (\<lambda>x y. core x = core y) (goal_complete now g) (goal_complete t k)"
  using assms by (cases g; cases k) (auto simp: cores_def core_eq goal_complete_def)


lemma account_None [simp]: "account nt now m None = (None, False)"
  by (simp add: account_def)

lemma scan_simps [simp]: "scan h now [] s = s" "scan h now (e # es) s = scan h now es (scan_entry h now e s)"
    "scan h now (es @ fs) s = scan h now fs (scan h now es s)"
  by (simp_all add: scan_def)



lemma scan_None: "sc_goal s = None \<Longrightarrow> sc_goal (scan h now es s) = None"
proof (induction es arbitrary: s)
  case (Cons e es)
  have "sc_goal (scan_entry h now e s) = None" using Cons.prems by (auto simp: scan_entry_def split: prod.split option.split)
  then show ?case unfolding scan_simps by (rule Cons.IH)
qed simp













lemma fst_goal_request: "fst (goal_request h now uuid rq c) = fst (goal_update h now (request_change now uuid rq (gr_decided (cv_doc c))) c)"
  by (simp add: goal_request_def split: prod.split sum.split)




section \<open>What is sent\<close>

text \<open>Facts of a scan: who the goal is stays; a goal that is not active stays as it is; only a goal whose budget was spent in the scan has a budget text.\<close>

lemma account_keeps:
  assumes "account nt now m (Some g) = (k, crossed)"
  shows "\<exists>x. k = Some x \<and> go_id x = go_id g \<and> go_continuations x = go_continuations g \<and> (crossed \<longrightarrow> go_status g = GoalActive \<and> go_status x = GoalBudgetLimited) \<and>
    (go_status g \<noteq> GoalActive \<longrightarrow> x = g) \<and> (\<not> crossed \<longrightarrow> go_status x = go_status g)"
  using assms by (auto simp: account_def Let_def split: if_splits option.splits)

definition scan_link :: "scanned \<Rightarrow> scanned \<Rightarrow> bool" where
  "scan_link s u \<longleftrightarrow>
     (case (sc_goal s, sc_goal u) of
        (None, None) \<Rightarrow> sc_budget u = sc_budget s
      | (Some g, Some x) \<Rightarrow>
          go_id x = go_id g \<and> go_continuations x = go_continuations g \<and>
          (if sc_budget u = sc_budget s then go_status x = go_status g \<or> go_status x = GoalBudgetLimited
           else go_status g = GoalActive \<and> go_status x = GoalBudgetLimited)
      | _ \<Rightarrow> False)"

lemma scan_entry_link: "scan_link s (scan_entry h now e s)"
proof (cases e)
  case (Pair i m)
  show ?thesis
  proof (cases "m = None \<or> sc_goal s = None")
    case True
    then show ?thesis unfolding Pair by (cases m; cases "sc_goal s") (auto simp: scan_link_def scan_entry_def)
  next
    case False
    then obtain a g where m: "m = Some a" "sc_goal s = Some g" by auto
    obtain k crossed where k: "account (gh_number h) now a (Some g) = (k, crossed)" by fastforce
    from account_keeps[OF k] show ?thesis unfolding Pair by (auto simp: scan_link_def scan_entry_def m k)
  qed
qed

lemma scan_link_trans: "scan_link s u \<Longrightarrow> scan_link u v \<Longrightarrow> scan_link s v"
  by (auto simp: scan_link_def split: option.splits if_splits)

lemma scan_linked: "scan_link s (scan h now es s)"
proof (induction es arbitrary: s)
  case Nil
  show ?case by (auto simp: scan_link_def split: option.split)
next
  case (Cons e es)
  show ?case unfolding scan_simps by (rule scan_link_trans[OF scan_entry_link Cons.IH])
qed

lemma scan_newest: "sc_newest (scan h now es s) = Some (i, m) \<Longrightarrow> sc_newest s = Some (i, m) \<or> (i, Some m) \<in> set es"
proof (induction es arbitrary: s)
  case (Cons e es)
  then have "sc_newest (scan_entry h now e s) = Some (i, m) \<or> (i, Some m) \<in> set es" by simp
  then show ?case by (auto simp: scan_entry_def split: prod.splits option.splits)
qed simp

text \<open>The same of the count of an update, against the document.\<close>

lemma counted_None: "gr_goal (cv_doc c) = None \<Longrightarrow> sc_goal (counted h now c) = None"
  by (simp add: counted_def restart_clock_def goal_active_def scan_None)

lemma counted_goal:
  assumes "gr_goal (cv_doc c) = Some g"
  shows "\<exists>x. sc_goal (counted h now c) = Some x \<and> go_id x = go_id g \<and> go_continuations x = go_continuations g \<and>
    (go_status x = go_status g \<or> go_status x = GoalBudgetLimited) \<and>
    (sc_budget (counted h now c) \<noteq> None \<longrightarrow> go_status g = GoalActive \<and> go_status x = GoalBudgetLimited)"
proof -
  let ?s0 = "\<lparr>sc_goal = (if cv_loaded c then gr_goal (cv_doc c) else restart_clock now (gr_goal (cv_doc c))), sc_accounted = gr_accounted (cv_doc c),
    sc_budget = None, sc_newest = None\<rparr>"
  obtain y where "sc_goal ?s0 = Some y" "go_id y = go_id g" "go_continuations y = go_continuations g" "go_status y = go_status g"
    using assms by (cases "cv_loaded c"; cases "go_status g = GoalActive") (auto simp: restart_clock_def goal_active_def)
  then show ?thesis using scan_linked[of ?s0 h now "uncounted (gr_accounted (cv_doc c)) (cv_entries c)"]
    by (auto simp: scan_link_def counted_def split: option.splits if_splits)
qed

lemma counted_budget_None: "gr_goal (cv_doc c) = None \<Longrightarrow> sc_budget (counted h now c) = None"
proof -
  let ?s0 = "\<lparr>sc_goal = (if cv_loaded c then gr_goal (cv_doc c) else restart_clock now (gr_goal (cv_doc c))), sc_accounted = gr_accounted (cv_doc c),
    sc_budget = None, sc_newest = None\<rparr>"
  assume n: "gr_goal (cv_doc c) = None"
  then have "sc_goal ?s0 = None" "sc_goal (counted h now c) = None" by (auto simp: restart_clock_def goal_active_def counted_None)
  then show ?thesis using scan_linked[of ?s0 h now "uncounted (gr_accounted (cv_doc c)) (cv_entries c)"]
    by (auto simp: scan_link_def counted_def)
qed

lemma counted_newest: "sc_newest (counted h now c) = Some (i, m) \<Longrightarrow> (i, Some m) \<in> set (cv_entries c)"
  by (auto simp: counted_def uncounted_def dest: scan_newest)

definition is_continuation :: "goal_send \<Rightarrow> bool" where
  "is_continuation s = (case s of ContinuationSend _ _ _ \<Rightarrow> True | BudgetSend _ _ \<Rightarrow> False)"

text \<open>What names a message: its goal and, for a continuation, its number.\<close>

definition send_key :: "goal_send \<Rightarrow> string \<times> rat option" where
  "send_key s = (case s of BudgetSend i _ \<Rightarrow> (i, None) | ContinuationSend i n _ \<Rightarrow> (i, Some n))"

definition messages :: "conversation \<Rightarrow> goal_send list" where
  "messages c = cv_sent c @ cv_pending c"

definition decided_entries :: "conversation \<Rightarrow> nat set" where
  "decided_entries c = {i. i \<le> gr_decided (cv_doc c) \<and> (\<exists>m. (i, Some m) \<in> set (cv_entries c))}"

definition goal_sends_ok :: "goal \<Rightarrow> goal_send list \<Rightarrow> bool" where
  "goal_sends_ok g ms \<longleftrightarrow>
     (\<forall>s \<in> set ms. gs_goal s = go_id g \<longrightarrow> (case s of ContinuationSend _ n _ \<Rightarrow> n \<le> go_continuations g | BudgetSend _ _ \<Rightarrow> go_status g \<noteq> GoalActive))"

definition send_inv :: "conversation \<Rightarrow> bool" where
  "send_inv c \<longleftrightarrow> distinct (map send_key (messages c)) \<and> pred_option (\<lambda>g. goal_sends_ok g (messages c)) (gr_goal (cv_doc c)) \<and>
     length (filter is_continuation (messages c)) \<le> card (decided_entries c)"

lemma finite_decided [simp]: "finite (decided_entries c)"
  by (rule finite_subset[of _ "{..gr_decided (cv_doc c)}"]) (auto simp: decided_entries_def)

lemma goal_sends_fewer: "goal_sends_ok g ms \<Longrightarrow> set ms' \<subseteq> set ms \<Longrightarrow> goal_sends_ok g ms'"
  by (auto simp: goal_sends_ok_def)

lemma send_inv_fewer:
  assumes "send_inv c" and "cv_doc c' = cv_doc c" and "cv_entries c' = cv_entries c @ es" and "subseq (messages c') (messages c)"
  shows "send_inv c'"
proof -
  obtain N where N: "messages c' = nths (messages c) N" using assms(4) by (auto simp: subseq_conv_nths)
  have "distinct (map send_key (messages c'))" using assms(1) unfolding N by (simp add: send_inv_def nths_map distinct_nthsI flip: nths_map)
  moreover have "set (messages c') \<subseteq> set (messages c)" unfolding N by (rule set_nths_subset)
  moreover have "length (filter is_continuation (messages c')) \<le> length (filter is_continuation (messages c))"
    by (rule list_emb_length[OF subseq_filter[OF assms(4)]])
  moreover have "decided_entries c \<subseteq> decided_entries c'" using assms(2,3) by (auto simp: decided_entries_def)
  then have "card (decided_entries c) \<le> card (decided_entries c')" by (rule card_mono[OF finite_decided])
  ultimately show ?thesis using assms(1,2) by (auto simp: send_inv_def elim!: option.pred_mono_strong goal_sends_fewer)
qed

text \<open>The three things a change may do: leave no goal, keep the goal with at most one continuation more, or make a new one.\<close>

definition change_kept :: "scanned \<Rightarrow> nat \<Rightarrow> changed_goal \<Rightarrow> goal \<Rightarrow> goal \<Rightarrow> bool" where
  "change_kept s decided r y x \<longleftrightarrow> go_id x = go_id y \<and> (go_status y \<noteq> GoalActive \<longrightarrow> go_status x \<noteq> GoalActive) \<and>
     (case cg_continuation r of
        None \<Rightarrow> go_continuations x = go_continuations y \<and> decided \<le> cg_decided r
      | Some _ \<Rightarrow> go_continuations x = go_continuations y + 1 \<and> decided < cg_decided r \<and> (\<exists>m. sc_newest s = Some (cg_decided r, m)))"

lemma settle_kept:
  assumes "settle_change h now running work_out decided s = Inr r" and "sc_goal s = Some y"
  shows "\<exists>x. cg_goal r = Some x \<and> change_kept s decided r y x"
  using assms(1) unfolding settle_change_def settle_goal_def assms(2)
  by (auto simp: assms(2) settle_change_def settle_goal_def change_kept_def terminal_def continued_def goal_active_def split: prod.splits option.splits if_splits)

lemma settle_none:
  assumes "settle_change h now running work_out decided s = Inr r" and "sc_goal s = None"
  shows "cg_goal r = None \<and> cg_decided r = decided"
  using assms by (auto simp: settle_change_def settle_goal_def goal_active_def split: prod.splits option.splits if_splits)

definition written :: "conversation \<Rightarrow> scanned \<Rightarrow> changed_goal \<Rightarrow> conversation" where
  "written c s r = c\<lparr>cv_loaded := True, cv_doc := \<lparr>gr_goal = cg_goal r, gr_accounted = sc_accounted s, gr_decided = cg_decided r\<rparr>,
     cv_pending := cv_pending c @ sends_of s r\<rparr>"

lemma fst_goal_update: "fst (goal_update h now change c) = (case change (counted h now c) of Inl _ \<Rightarrow> c\<lparr>cv_loaded := True\<rparr> | Inr r \<Rightarrow> written c (counted h now c) r)"
  by (simp add: goal_update_def Let_def written_def split: sum.split)

lemma messages_written: "messages (written c s r) = messages c @ sends_of s r"
  by (simp add: messages_def written_def)

lemma goal_sends_later:
  assumes "goal_sends_ok g ms" and "go_id x = go_id g" and "go_continuations g \<le> go_continuations x" and "go_status g \<noteq> GoalActive \<Longrightarrow> go_status x \<noteq> GoalActive"
  shows "goal_sends_ok x ms"
  unfolding goal_sends_ok_def
proof (intro ballI impI)
  fix s assume "s \<in> set ms" "gs_goal s = go_id x"
  then have "case s of ContinuationSend _ n _ \<Rightarrow> n \<le> go_continuations g | BudgetSend _ _ \<Rightarrow> go_status g \<noteq> GoalActive"
    using assms(1,2) by (simp add: goal_sends_ok_def)
  then show "case s of ContinuationSend _ n _ \<Rightarrow> n \<le> go_continuations x | BudgetSend _ _ \<Rightarrow> go_status x \<noteq> GoalActive"
    using assms(3,4) by (cases s) auto
qed

lemma written_kept:
  assumes inv: "send_inv c" and g: "gr_goal (cv_doc c) = Some g" and y: "sc_goal (counted h now c) = Some y" and x: "cg_goal r = Some x"
    and kept: "change_kept (counted h now c) (gr_decided (cv_doc c)) r y x"
  shows "send_inv (written c (counted h now c) r)"
proof -
  let ?s = "counted h now c" and ?c = "written c (counted h now c) r"
  have gy: "go_id y = go_id g" "go_continuations y = go_continuations g" "go_status y = go_status g \<or> go_status y = GoalBudgetLimited"
    and bud: "sc_budget ?s \<noteq> None \<Longrightarrow> go_status g = GoalActive \<and> go_status y = GoalBudgetLimited"
    using counted_goal[OF g, of h now] y by auto
  have xid: "go_id x = go_id g" and inactive: "go_status y \<noteq> GoalActive \<Longrightarrow> go_status x \<noteq> GoalActive" using kept gy by (auto simp: change_kept_def)
  have old: "goal_sends_ok g (messages c)" and dist: "distinct (map send_key (messages c))" and len: "length (filter is_continuation (messages c)) \<le> card (decided_entries c)"
    using inv g by (auto simp: send_inv_def)
  have budfree: "(go_id g, None) \<notin> send_key ` set (messages c)" if "sc_budget ?s \<noteq> None"
    using old bud[OF that] by (fastforce simp: goal_sends_ok_def send_key_def split: goal_send.splits)
  have contfree: "(go_id g, Some (go_continuations g + 1)) \<notin> send_key ` set (messages c)"
    using old by (fastforce simp: goal_sends_ok_def send_key_def split: goal_send.splits)
  have "distinct (map send_key (messages ?c))"
    using dist kept budfree contfree gy xid
    by (auto simp: messages_written sends_of_def x change_kept_def send_key_def split: option.splits)
  moreover have "goal_sends_ok x (messages ?c)"
  proof -
    have "go_continuations g \<le> go_continuations x" using kept gy by (auto simp: change_kept_def split: option.splits)
    moreover have "go_status g \<noteq> GoalActive \<Longrightarrow> go_status x \<noteq> GoalActive" using gy(3) inactive by auto
    ultimately have "goal_sends_ok x (messages c)" using goal_sends_later[OF old xid] by blast
    moreover have "goal_sends_ok x (sends_of ?s r)" using bud inactive
      by (cases "sc_budget ?s"; cases "cg_continuation r") (auto simp: goal_sends_ok_def sends_of_def x)
    ultimately show ?thesis by (auto simp: messages_written goal_sends_ok_def)
  qed
  moreover have "length (filter is_continuation (messages ?c)) \<le> card (decided_entries ?c)"
  proof (cases "cg_continuation r")
    case None
    then have "decided_entries c \<subseteq> decided_entries ?c" using kept by (auto simp: decided_entries_def written_def change_kept_def)
    from card_mono[OF finite_decided this] show ?thesis using len None
      by (auto simp: messages_written sends_of_def x is_continuation_def split: option.splits)
  next
    case (Some t)
    then obtain m where "sc_newest ?s = Some (cg_decided r, m)" "gr_decided (cv_doc c) < cg_decided r" using kept by (auto simp: change_kept_def)
    then have ins: "insert (cg_decided r) (decided_entries c) \<subseteq> decided_entries ?c" and new: "cg_decided r \<notin> decided_entries c"
      using counted_newest[of h now c] by (auto simp: decided_entries_def written_def)
    have "Suc (card (decided_entries c)) \<le> card (decided_entries ?c)" using card_mono[OF finite_decided ins] new by simp
    then show ?thesis using len Some by (auto simp: messages_written sends_of_def x is_continuation_def split: option.splits)
  qed
  ultimately show ?thesis by (simp add: send_inv_def written_def x)
qed

lemma written_none:
  assumes "send_inv c" and "cg_goal r = None" and "cg_decided r = gr_decided (cv_doc c)"
  shows "send_inv (written c s r)"
  using assms by (simp add: send_inv_def messages_def sends_of_def decided_entries_def written_def)

lemma written_new:
  assumes "send_inv c" and "cg_goal r = Some x" and "go_id x \<notin> gs_goal ` set (messages c)" and "cg_decided r = gr_decided (cv_doc c)"
    and "sends_of s r = []"
  shows "send_inv (written c s r)"
proof -
  have "goal_sends_ok x (messages c)" unfolding goal_sends_ok_def using assms(3) by (metis imageI)
  then show ?thesis using assms(1,2,4,5) by (simp add: send_inv_def messages_def decided_entries_def written_def)
qed

lemma loaded_inv: "send_inv c \<Longrightarrow> send_inv (c\<lparr>cv_loaded := True\<rparr>)"
  by (simp add: send_inv_def messages_def decided_entries_def)

lemma settled_inv:
  assumes "send_inv c"
  shows "send_inv (goal_settled h now running work_out c)"
proof (cases "gr_goal (cv_doc c)")
  case (Some g)
  let ?ch = "settle_change h now running work_out (gr_decided (cv_doc c))"
  obtain r where r: "?ch (counted h now c) = Inr r"
    by (cases "settle_goal now running work_out (gr_decided (cv_doc c)) (sc_newest (counted h now c)) (sc_goal (counted h now c))") (simp add: settle_change_def)
  obtain y where y: "sc_goal (counted h now c) = Some y" using counted_goal[OF Some] by blast
  obtain x where "cg_goal r = Some x" "change_kept (counted h now c) (gr_decided (cv_doc c)) r y x" using settle_kept[OF r y] by blast
  then have "send_inv (written c (counted h now c) r)" by (rule written_kept[OF assms Some y])
  then show ?thesis by (simp add: goal_settled_def Some fst_goal_update r)
qed (simp add: goal_settled_def assms)

lemma requested_inv:
  assumes inv: "send_inv c" and fresh: "uuid \<notin> goals_seen c"
  shows "send_inv (fst (goal_request h now uuid rq c))"
proof (cases "request_change now uuid rq (gr_decided (cv_doc c)) (counted h now c)")
  case (Inl e)
  then show ?thesis by (simp add: fst_goal_request fst_goal_update loaded_inv inv)
next
  case (Inr r)
  let ?s = "counted h now c"
  have d: "cg_decided r = gr_decided (cv_doc c)" "cg_continuation r = None"
    using Inr by (auto simp: request_change_def split: goal_call.splits)
  have "send_inv (written c ?s r)"
  proof (cases "\<exists>p. rq = CreateGoal p")
    case True
    then obtain p x where x: "goal_create now uuid p (sc_goal ?s) = Inr x" "cg_goal r = Some x" using Inr by (auto simp: request_change_def)
    have "sc_budget ?s = None"
    proof (rule ccontr)
      assume b: "sc_budget ?s \<noteq> None"
      then obtain g where "gr_goal (cv_doc c) = Some g" using counted_budget_None[of c h now] by (cases "gr_goal (cv_doc c)") auto
      from counted_goal[OF this, of h now] b obtain y where "sc_goal ?s = Some y" "go_status y = GoalBudgetLimited" by auto
      then show False using x(1) by (auto simp: goal_create_def PENDING_def Let_def split: option.splits if_splits)
    qed
    then have "sends_of ?s r = []" by (simp add: sends_of_def d x)
    moreover have "go_id x \<notin> gs_goal ` set (messages c)" using goal_create_ok[OF x(1)] fresh by (auto simp: goals_seen_def messages_def)
    ultimately show ?thesis using written_new[OF inv x(2) _ d(1)] by blast
  next
    case False
    show ?thesis
    proof (cases "gr_goal (cv_doc c)")
      case None
      then have "sc_goal ?s = None" by (rule counted_None)
      then have "cg_goal r = None" using Inr False by (auto simp: request_change_def goal_complete_def split: goal_call.splits)
      then show ?thesis by (rule written_none[OF inv _ d(1)])
    next
      case (Some g)
      then obtain y where y: "sc_goal ?s = Some y" using counted_goal by blast
      obtain x where "cg_goal r = Some x" "change_kept ?s (gr_decided (cv_doc c)) r y x"
        using Inr False y by (auto simp: request_change_def goal_complete_def change_kept_def split: goal_call.splits)
      then show ?thesis by (rule written_kept[OF inv Some y])
    qed
  qed
  then show ?thesis by (simp add: fst_goal_request fst_goal_update Inr)
qed

lemma goal_step_inv:
  assumes "send_inv c" and "goal_step h c c'"
  shows "send_inv c'"
  using assms(2)
proof cases
  case (append_entry i m)
  show ?thesis by (rule send_inv_fewer[OF assms(1), where es = "[(i, m)]"]) (simp_all add: append_entry messages_def)
next
  case (request uuid now rq)
  then show ?thesis using requested_inv[OF assms(1)] by simp
next
  case (settle now running work_out)
  then show ?thesis using settled_inv[OF assms(1)] by simp
next
  case (admit s ss)
  show ?thesis by (rule send_inv_fewer[OF assms(1), where es = "[]"]) (simp_all add: admit messages_def)
next
  case (lose s ss)
  show ?thesis by (rule send_inv_fewer[OF assms(1), where es = "[]"]) (auto simp: lose messages_def intro: list_emb_append_mono)
next
  case restart
  show ?thesis by (rule send_inv_fewer[OF assms(1), where es = "[]"]) (auto simp: restart messages_def intro: prefix_imp_subseq)
qed

interpretation gt: step_invariant new_conversation "goal_step h" send_inv for h
proof unfold_locales
  show "send_inv c" if "new_conversation c" for c
    using that by (simp add: new_conversation_def send_inv_def messages_def empty_record_def)
  show "send_inv c'" if "send_inv c" "goal_step h c c'" for c c' by (rule goal_step_inv[OF that])
qed

text \<open>
  C20. No goal message is sent twice and no run is continued twice: whatever requests, settles, appended entries, lost messages and restarts happen, in any order, no
  two messages ever sent or waiting have the same goal and number (so the host's request ids never repeat), a goal's budget-limit text goes out at most once, and
  there are at most as many continuations as assistant entries a settle has decided on.
\<close>

theorem goal_sends_once:
  assumes "new_conversation c" and "(goal_step h)\<^sup>*\<^sup>* c c'"
  shows "distinct (map send_key (cv_sent c' @ cv_pending c')) \<and>
    length (filter is_continuation (cv_sent c' @ cv_pending c')) \<le> card {i. i \<le> gr_decided (cv_doc c') \<and> (\<exists>m. (i, Some m) \<in> set (cv_entries c'))}"
  using gt.inv_reach [OF assms] by (simp add: send_inv_def messages_def decided_entries_def)

section \<open>Runs on values\<close>

definition ex_host :: goal_host where
  "ex_host = \<lparr>gh_number = plain_number, gh_other = (\<lambda>_. [])\<rparr>"

text \<open>A conversation whose goal is active, and whose newest assistant entry no update has read.\<close>

definition ex_conversation :: conversation where
  "ex_conversation = \<lparr>cv_entries = [(1, None), (2, Some ex_message)], cv_doc = \<lparr>gr_goal = Some (ex_goal\<lparr>go_budget := None\<rparr>), gr_accounted = 1, gr_decided = 0\<rparr>,
     cv_loaded = True, cv_pending = [], cv_sent = []\<rparr>"

lemma ex_counted_goal:
  "counted ex_host now ex_conversation =
     \<lparr>sc_goal = Some (ex_goal\<lparr>go_budget := None, go_tokens := 12, go_updated := now\<rparr>), sc_accounted = 2, sc_budget = None, sc_newest = Some (2, ex_message)\<rparr>"
  by (simp add: counted_def ex_conversation_def uncounted_def scan_entry_def goal_values ex_host_def)

lemma ex_fields [simp]:
  "cv_doc ex_conversation = \<lparr>gr_goal = Some (ex_goal\<lparr>go_budget := None\<rparr>), gr_accounted = 1, gr_decided = 0\<rparr>" "cv_pending ex_conversation = []"
  "cv_sent ex_conversation = []" "cv_entries ex_conversation = [(1, None), (2, Some ex_message)]"
  "go_status ex_goal = GoalActive" "go_id ex_goal = ''g1''" "stopped ex_message = False" "go_continuations ex_goal = 0"
  by (simp_all add: ex_conversation_def ex_goal_def new_goal_def ex_message_def stopped_def)

lemmas settle_values = goal_settled_def fst_goal_update settle_change_def settle_goal_def goal_active_def terminal_def written_def sends_of_def ex_counted_goal
  continued_def goal_save_def

text \<open>A settle continues the goal.\<close>

lemma settle_continues:
  "map send_key (cv_pending (goal_settled ex_host now False False ex_conversation)) = [(''g1'', Some 1)]"
  by (simp add: settle_values send_key_def)

text \<open>
  A request that comes between the run's last message and its settle reads that message first, so the settle finds no newer one and sends no continuation: the
  goal stays active with no run under way.
\<close>

lemma request_swallows_continuation:
  "cv_pending (goal_settled ex_host now' False False (fst (goal_request ex_host now ''u'' GetGoal ex_conversation))) = [] \<and>
   goal_active (gr_goal (cv_doc (goal_settled ex_host now' False False (fst (goal_request ex_host now ''u'' GetGoal ex_conversation)))))"
proof -
  have r: "fst (goal_request ex_host now ''u'' GetGoal ex_conversation) =
      \<lparr>cv_entries = [(1, None), (2, Some ex_message)], cv_doc = \<lparr>gr_goal = Some (ex_goal\<lparr>go_budget := None, go_tokens := 12, go_updated := now\<rparr>), gr_accounted = 2, gr_decided = 0\<rparr>,
        cv_loaded = True, cv_pending = [], cv_sent = []\<rparr>" (is "_ = ?c")
    by (simp add: fst_goal_request fst_goal_update request_change_def ex_counted_goal written_def sends_of_def)
  have n: "counted ex_host now' ?c =
      \<lparr>sc_goal = Some (ex_goal\<lparr>go_budget := None, go_tokens := 12, go_updated := now\<rparr>), sc_accounted = 2, sc_budget = None, sc_newest = None\<rparr>"
    by (simp add: counted_def uncounted_def)
  show ?thesis unfolding r using n
    by (simp add: goal_settled_def fst_goal_update settle_change_def settle_goal_def written_def sends_of_def goal_active_def)
qed

text \<open>A continuation lost between the write and the send is not sent again: the settle that comes after finds its run decided.\<close>

lemma lost_continuation:
  "goal_step ex_host (goal_settled ex_host now False False ex_conversation) ((goal_settled ex_host now False False ex_conversation)\<lparr>cv_loaded := False, cv_pending := []\<rparr>) \<and>
   cv_pending (goal_settled ex_host now' False False ((goal_settled ex_host now False False ex_conversation)\<lparr>cv_loaded := False, cv_pending := []\<rparr>)) = []"
proof (rule conjI)
  show "goal_step ex_host (goal_settled ex_host now False False ex_conversation) ((goal_settled ex_host now False False ex_conversation)\<lparr>cv_loaded := False, cv_pending := []\<rparr>)"
    by (rule goal_step.restart)
  obtain g where c: "(goal_settled ex_host now False False ex_conversation)\<lparr>cv_loaded := False, cv_pending := []\<rparr> =
      \<lparr>cv_entries = [(1, None), (2, Some ex_message)], cv_doc = \<lparr>gr_goal = Some g, gr_accounted = 2, gr_decided = 2\<rparr>, cv_loaded = False, cv_pending = [], cv_sent = []\<rparr>"
    by (simp add: settle_values, simp add: ex_conversation_def)
  show "cv_pending (goal_settled ex_host now' False False ((goal_settled ex_host now False False ex_conversation)\<lparr>cv_loaded := False, cv_pending := []\<rparr>)) = []"
    unfolding c by (simp add: goal_settled_def fst_goal_update counted_def uncounted_def settle_change_def settle_goal_def written_def sends_of_def restart_clock_def split: option.split)
qed


definition ex_empty :: conversation where
  "ex_empty = \<lparr>cv_entries = [], cv_doc = empty_record, cv_loaded = False, cv_pending = [], cv_sent = []\<rparr>"

definition ex_run :: conversation where
  "ex_run = goal_settled ex_host 5 False False
     ((fst (goal_request ex_host 0 ''g1'' (CreateGoal (JObj [(''objective'', JStr ''ship'')])) ex_empty))\<lparr>cv_entries := [(1, Some ex_message)]\<rparr>)"

lemma ex_created:
  "fst (goal_request ex_host 0 ''g1'' (CreateGoal (JObj [(''objective'', JStr ''ship'')])) ex_empty) =
     \<lparr>cv_entries = [], cv_doc = \<lparr>gr_goal = Some (new_goal 0 ''g1'' ''ship'' None), gr_accounted = 0, gr_decided = 0\<rparr>, cv_loaded = True, cv_pending = [], cv_sent = []\<rparr>"
proof -
  have "js_trim ''ship'' = ''ship''" by code_simp
  then have "goal_create 0 ''g1'' (JObj [(''objective'', JStr ''ship'')]) None = Inr (new_goal 0 ''g1'' ''ship'' None)"
    by (simp add: goal_create_def create_checked_def as_string_def as_number_def MAX_OBJECTIVE_CHARS_def)
  then show ?thesis
    by (simp add: fst_goal_request fst_goal_update counted_def uncounted_def restart_clock_def goal_active_def ex_empty_def empty_record_def request_change_def written_def
        sends_of_def)
qed

lemma ex_run_continues: "map send_key (cv_pending ex_run) = [(''g1'', Some 1)]"
  unfolding ex_run_def ex_created
  by (simp add: goal_settled_def fst_goal_update counted_def uncounted_def scan_entry_def goal_values settle_change_def settle_goal_def
      terminal_def written_def sends_of_def continued_def send_key_def)

theorem goal_sends_once_witness:
  "distinct (map send_key (cv_sent ex_run @ cv_pending ex_run)) \<and> cv_pending ex_run \<noteq> []"
proof -
  have n: "new_conversation ex_empty" by (simp add: new_conversation_def ex_empty_def)
  let ?c1 = "fst (goal_request ex_host 0 ''g1'' (CreateGoal (JObj [(''objective'', JStr ''ship'')])) ex_empty)"
  have "goal_step ex_host ex_empty ?c1" by (rule goal_step.request) (simp add: goals_seen_def ex_empty_def empty_record_def)
  moreover have "goal_step ex_host ?c1 (?c1\<lparr>cv_entries := cv_entries ?c1 @ [(1, Some ex_message)]\<rparr>)" by (rule goal_step.append_entry) (simp_all add: ex_created)
  moreover have "goal_step ex_host (?c1\<lparr>cv_entries := cv_entries ?c1 @ [(1, Some ex_message)]\<rparr>) ex_run"
    unfolding ex_run_def ex_created by (simp, rule goal_step.settle)
  ultimately have "(goal_step ex_host)\<^sup>*\<^sup>* ex_empty ex_run" by (meson converse_rtranclp_into_rtranclp rtranclp.rtrancl_refl)
  from goal_sends_once [OF n this] ex_run_continues show ?thesis by auto
qed

end
