(* ===== verification/Harness.thy ===== *)
theory Harness
  imports Json
begin

text \<open>
  The continual harness (\<open>packages/pi-harness/src/core\<close>): \<open>store.ts\<close>, the state file and its merged view, and \<open>refine.ts\<close>, a refine's edits, their application to
  a store and their rollback. A store of one kind is an association list of ids; the names of \<open>Object.prototype\<close>, which the code would find in every object,
  are not ids here, and the order of a store is the order of insertion. A record leaves out \<open>harnessStatePath\<close>, which is the empty text here. Arguments: \<open>str\<close>, the text of a value (\<open>String\<close>), and \<open>now\<close>, the time as text.
\<close>

section \<open>The state file\<close>

datatype Kind = PromptKind | MemoryKind | SkillKind | SubagentKind

definition KINDS :: "(string \<times> Kind) list" where
  "KINDS = [(''prompt'', PromptKind), (''memory'', MemoryKind), (''skill'', SkillKind), (''subagent'', SubagentKind)]"

datatype Scope = LocalScope | GlobalScope

definition scope_text :: "Scope \<Rightarrow> string" where
  "scope_text s = (case s of LocalScope \<Rightarrow> ''local'' | GlobalScope \<Rightarrow> ''global'')"

type_synonym fields = "(string \<times> json) list"

text \<open>\<open>he_rest\<close>: the fields of the file's entry that have no name in the type.\<close>

record HarnessEntry =
  he_id :: string
  he_kind :: Kind
  he_title :: string
  he_content :: string
  he_path :: string
  he_scope :: Scope
  he_reference :: fields
  he_arguments :: fields
  he_metadata :: fields
  he_source :: string
  he_created :: string
  he_updated :: string
  he_version :: rat
  he_rest :: fields

record RefinementEvent =
  re_id :: string
  re_trigger :: string
  re_changes :: "string list"
  re_rest :: fields

type_synonym store = "(string \<times> HarnessEntry) list"

record HarnessState =
  hs_schema :: rat
  hs_entries :: "Kind \<Rightarrow> store"
  hs_refinements :: "RefinementEvent list"

definition emptyState :: HarnessState where
  "emptyState = \<lparr>hs_schema = 1, hs_entries = (\<lambda>_. []), hs_refinements = []\<rparr>"

definition json_record :: "json option \<Rightarrow> fields option" where
  "json_record v = (case v of Some (JObj fs) \<Rightarrow> Some fs | _ \<Rightarrow> None)"

definition or_empty :: "fields option \<Rightarrow> fields" where
  "or_empty v = (case v of Some fs \<Rightarrow> fs | None \<Rightarrow> [])"

text \<open>\<open>Number.parseInt(s, 10)\<close>: blanks, a sign, then digits; \<open>None\<close> is NaN.\<close>

definition parse_int :: "string \<Rightarrow> rat option" where
  "parse_int s =
     (let t = dropWhile js_ws s; neg = (prefix ''-'' t); u = (if prefix ''-'' t \<or> prefix ''+'' t then tl t else t); ds = takeWhile js_digit u in
      if ds = [] then None else Some (if neg then - of_nat (nat_of_digits ds) else of_nat (nat_of_digits ds)))"

definition json_version :: "json option \<Rightarrow> rat" where
  "json_version v =
     (let raw = (case v of Some (JStr s) \<Rightarrow> parse_int s | _ \<Rightarrow> as_number v) in
      case raw of Some q \<Rightarrow> if q = of_int \<lfloor>q\<rfloor> then q else 1 | None \<Rightarrow> 1)"

definition ENTRY_FIELDS :: "string list" where
  "ENTRY_FIELDS = [''id'', ''kind'', ''title'', ''content'', ''path'', ''scope'', ''reference'', ''arguments'', ''metadata'', ''source'', ''created_at'',
     ''updated_at'', ''version'', ''topic'']"

definition text_or :: "json option \<Rightarrow> string \<Rightarrow> string" where
  "text_or v d = (case as_string v of Some s \<Rightarrow> s | None \<Rightarrow> d)"

definition parse_scope :: "json option \<Rightarrow> Scope \<Rightarrow> Scope" where
  "parse_scope v d = (if v = Some (JStr ''local'') then LocalScope else if v = Some (JStr ''global'') then GlobalScope else d)"

text \<open>One entry of the file, \<open>None\<close> when it is skipped.\<close>

definition parse_entry :: "Scope \<Rightarrow> Kind \<Rightarrow> string \<Rightarrow> json \<Rightarrow> HarnessEntry option" where
  "parse_entry scope kind i v =
     (case v of
        JObj e \<Rightarrow>
          (case (as_string (field v ''title''), as_string (field v ''content'')) of
             (Some t, Some c) \<Rightarrow>
               Some \<lparr>he_id = i, he_kind = kind, he_title = t, he_content = c,
                 he_path = text_or (field v ''path'') (text_or (field v ''topic'') ''general''), he_scope = parse_scope (field v ''scope'') scope,
                 he_reference = or_empty (json_record (field v ''reference'')), he_arguments = or_empty (json_record (field v ''arguments'')),
                 he_metadata = or_empty (json_record (field v ''metadata'')), he_source = text_or (field v ''source'') ''agent'',
                 he_created = text_or (field v ''created_at'') [], he_updated = text_or (field v ''updated_at'') [], he_version = json_version (field v ''version''),
                 he_rest = filter (\<lambda>(k, _). k \<notin> set ENTRY_FIELDS) e\<rparr>
           | _ \<Rightarrow> None)
      | _ \<Rightarrow> None)"

definition parse_store :: "Scope \<Rightarrow> Kind \<Rightarrow> json option \<Rightarrow> store" where
  "parse_store scope kind v = List.map_filter (\<lambda>(i, e). map_option (Pair i) (parse_entry scope kind i e)) (or_empty (json_record v))"

definition parse_event :: "(json \<Rightarrow> string) \<Rightarrow> json \<Rightarrow> RefinementEvent option" where
  "parse_event str v =
     (case v of
        JObj r \<Rightarrow>
          (case (as_string (field v ''id''), as_string (field v ''trigger''),
               (case field v ''changes'' of Some (JStr s) \<Rightarrow> Some [s] | Some (JArr cs) \<Rightarrow> Some (map str cs) | _ \<Rightarrow> None)) of
             (Some i, Some t, Some cs) \<Rightarrow>
               Some \<lparr>re_id = i, re_trigger = t, re_changes = cs, re_rest = filter (\<lambda>(k, _). k \<notin> {''id'', ''trigger'', ''changes''}) r\<rparr>
           | _ \<Rightarrow> None)
      | _ \<Rightarrow> None)"

definition kind_text :: "Kind \<Rightarrow> string" where
  "kind_text k = (case k of PromptKind \<Rightarrow> ''prompt'' | MemoryKind \<Rightarrow> ''memory'' | SkillKind \<Rightarrow> ''skill'' | SubagentKind \<Rightarrow> ''subagent'')"

definition parseState :: "(json \<Rightarrow> string) \<Rightarrow> json \<Rightarrow> Scope \<Rightarrow> HarnessState" where
  "parseState str raw scope =
     (if \<not> isRecord raw then emptyState
      else (let entries = JObj (or_empty (json_record (field raw ''entries''))) in
        \<lparr>hs_schema = (case as_number (field raw ''schema'') of Some n \<Rightarrow> n | None \<Rightarrow> 1),
          hs_entries = (\<lambda>k. parse_store scope k (field entries (kind_text k))),
          hs_refinements = (case field raw ''refinements'' of Some (JArr rs) \<Rightarrow> List.map_filter (parse_event str) rs | _ \<Rightarrow> [])\<rparr>))"

text \<open>\<open>readState\<close>: the file's parsed text, \<open>None\<close> when it is missing or not JSON.\<close>

definition readState :: "(json \<Rightarrow> string) \<Rightarrow> json option \<Rightarrow> Scope \<Rightarrow> HarnessState" where
  "readState str file scope = (case file of None \<Rightarrow> emptyState | Some raw \<Rightarrow> parseState str raw scope)"

text \<open>\<open>mergeStates\<close>: global entries, then local ones under \<open>local:<id>\<close> where the id is taken.\<close>

definition merge_one :: "string \<times> HarnessEntry \<Rightarrow> store \<Rightarrow> store" where
  "merge_one p m = (case p of (i, e) \<Rightarrow> AList.update (if map_of m i \<noteq> None then scope_text (he_scope e) @ '':'' @ i else i) e m)"

definition mergeStates :: "HarnessState \<Rightarrow> HarnessState option \<Rightarrow> HarnessState" where
  "mergeStates g l =
     \<lparr>hs_schema = max (hs_schema g) (case l of Some s \<Rightarrow> hs_schema s | None \<Rightarrow> 1),
       hs_entries = (\<lambda>k. fold merge_one (case l of Some s \<Rightarrow> hs_entries s k | None \<Rightarrow> []) (hs_entries g k)),
       hs_refinements = hs_refinements g @ (case l of Some s \<Rightarrow> hs_refinements s | None \<Rightarrow> [])\<rparr>"

section \<open>Edits\<close>

text \<open>
  An edit of a proposal. The action and the kind are whatever the model wrote; the other fields are kept when they have their type.
\<close>

record RefineEdit =
  ed_action :: "json option"
  ed_kind :: "json option"
  ed_id :: "string option"
  ed_title :: "string option"
  ed_content :: "string option"
  ed_path :: "string option"
  ed_reference :: "fields option"
  ed_arguments :: "fields option"
  ed_metadata :: "fields option"
  ed_reason :: "string option"

record RefineProposal =
  rp_summary :: string
  rp_rationale :: string
  rp_outcome :: string
  rp_edits :: "RefineEdit list"

record AppliedEdit =
  ae_edit :: RefineEdit
  ae_id :: string
  ae_applied :: bool
  ae_error :: "string option"
  ae_before :: "HarnessEntry option"
  ae_after :: "HarnessEntry option"

record RefineResult =
  rr_id :: string
  rr_summary :: string
  rr_rationale :: string
  rr_outcome :: string
  rr_edits :: "AppliedEdit list"
  rr_rollbackOf :: "string option"
  rr_scope :: "Scope option"

datatype EditAction = CreateEdit | UpdateEdit | DeleteEdit

definition edit_action :: "json option \<Rightarrow> EditAction option" where
  "edit_action v =
     (if v = Some (JStr ''create'') then Some CreateEdit else if v = Some (JStr ''update'') then Some UpdateEdit
      else if v = Some (JStr ''delete'') then Some DeleteEdit else None)"

definition action_text :: "EditAction \<Rightarrow> string" where
  "action_text a = (case a of CreateEdit \<Rightarrow> ''create'' | UpdateEdit \<Rightarrow> ''update'' | DeleteEdit \<Rightarrow> ''delete'')"

definition edit_kind :: "json option \<Rightarrow> Kind option" where
  "edit_kind v = Option.bind (as_string v) (map_of KINDS)"

text \<open>\<open>normalizeProposal\<close>; an array among the edits is an object with none of the fields.\<close>

definition normal_edit :: "json \<Rightarrow> RefineEdit option" where
  "normal_edit raw =
     (case raw of
        JObj _ \<Rightarrow> Some \<lparr>ed_action = field raw ''action'', ed_kind = field raw ''kind'', ed_id = as_string (field raw ''id''), ed_title = as_string (field raw ''title''),
          ed_content = as_string (field raw ''content''), ed_path = as_string (field raw ''path''), ed_reference = json_record (field raw ''reference''),
          ed_arguments = json_record (field raw ''arguments''), ed_metadata = json_record (field raw ''metadata''), ed_reason = as_string (field raw ''reason'')\<rparr>
      | JArr _ \<Rightarrow> Some \<lparr>ed_action = None, ed_kind = None, ed_id = None, ed_title = None, ed_content = None, ed_path = None, ed_reference = None,
          ed_arguments = None, ed_metadata = None, ed_reason = None\<rparr>
      | _ \<Rightarrow> None)"

definition normalizeProposal :: "json \<Rightarrow> RefineProposal" where
  "normalizeProposal v =
     \<lparr>rp_summary = text_or (field v ''summary'') ''Refined continual harness state'', rp_rationale = text_or (field v ''rationale'') [],
       rp_outcome = text_or (field v ''expectedOutcome'') [],
       rp_edits = List.map_filter normal_edit (case field v ''edits'' of Some (JArr es) \<Rightarrow> es | _ \<Rightarrow> [])\<rparr>"

definition filled :: "string option \<Rightarrow> bool" where
  "filled s \<longleftrightarrow> s \<noteq> None \<and> s \<noteq> Some []"

text \<open>The reference of a skill: why it cannot be called, or \<open>None\<close>.\<close>

definition named :: "fields \<Rightarrow> string \<Rightarrow> bool" where
  "named r k = filled (as_string (map_of r k))"

definition invalid_skill :: "EditAction \<Rightarrow> fields option \<Rightarrow> fields option \<Rightarrow> string option" where
  "invalid_skill a args ref =
     (if args = None then Some (action_text a @ '' skill requires arguments'')
      else (case ref of
          None \<Rightarrow> Some (action_text a @ '' skill requires python reference'')
        | Some r \<Rightarrow>
            if map_of r ''type'' \<noteq> Some (JStr ''python'') then Some (action_text a @ '' skill reference.type must be python'')
            else if \<not> (named r ''import'' \<or> named r ''python_import'') then Some (action_text a @ '' skill requires python import'')
            else if \<not> (named r ''callable'' \<or> named r ''call_pattern'') then Some (action_text a @ '' skill requires callable or call_pattern'')
            else None))"

definition invalidEdit :: "(json option \<Rightarrow> string) \<Rightarrow> RefineEdit \<Rightarrow> string \<Rightarrow> string option" where
  "invalidEdit str e i =
     (case edit_action (ed_action e) of
        None \<Rightarrow> Some (''unsupported action '' @ str (ed_action e))
      | Some a \<Rightarrow>
          (case edit_kind (ed_kind e) of
             None \<Rightarrow> Some (''unsupported kind '' @ str (ed_kind e))
           | Some k \<Rightarrow>
               if k = PromptKind \<and> (ed_id e = Some ''base_system_prompt'' \<or> i = ''base_system_prompt'') then Some ''base system prompt is not editable''
               else if a \<noteq> CreateEdit \<and> \<not> filled (ed_id e) then Some (action_text a @ '' requires id'')
               else if a \<noteq> DeleteEdit \<and> (\<not> filled (ed_title e) \<or> \<not> filled (ed_content e)) then Some (action_text a @ '' requires title and content'')
               else if ed_id e = Some [] then Some (action_text a @ '' requires id to be a non-empty string when provided'')
               else if ed_path e = Some [] then Some (action_text a @ '' requires path to be a non-empty string when provided'')
               else if a \<noteq> DeleteEdit \<and> k = SkillKind then invalid_skill a (ed_arguments e) (ed_reference e)
               else None))"

definition strip_scope :: "string \<Rightarrow> string" where
  "strip_scope i = (if prefix ''local:'' i then drop 6 i else if prefix ''global:'' i then drop 7 i else i)"

text \<open>\<open>slug\<close>: runs of other characters become one underscore, none at either end.\<close>

definition slug_char :: "char \<Rightarrow> bool" where
  "slug_char c \<longleftrightarrow> js_digit c \<or> 97 \<le> (of_char c :: nat) \<and> (of_char c :: nat) \<le> 122"

fun slug_words :: "bool \<Rightarrow> string \<Rightarrow> string" where
  "slug_words gap [] = []"
| "slug_words gap (c # cs) =
     (if slug_char c then c # slug_words False cs else (if gap then [] else [CHR ''_'']) @ slug_words True cs)"

definition strip_underscores :: "string \<Rightarrow> string" where
  "strip_underscores s = rev (dropWhile (\<lambda>c. c = CHR ''_'') (rev (dropWhile (\<lambda>c. c = CHR ''_'') s)))"

definition slug_text :: "string \<Rightarrow> string" where
  "slug_text raw = take 80 (strip_underscores (slug_words False (js_lower (js_trim raw))))"

text \<open>\<open>edit.id ?? (create ? slug(title ?? kind, kind) : undefined) ?? ""\<close>; \<open>None\<close> where the code calls \<open>trim\<close> on a kind that is no text and throws. A kind that is no text and is the
  last resort for an id is the empty text here; such an edit is refused for its kind.\<close>

definition edit_id :: "RefineEdit \<Rightarrow> string option" where
  "edit_id e =
     (case ed_id e of
        Some i \<Rightarrow> Some i
      | None \<Rightarrow>
          if edit_action (ed_action e) \<noteq> Some CreateEdit then Some []
          else (case (ed_title e, as_string (ed_kind e)) of
              (Some t, kind) \<Rightarrow> if slug_text t \<noteq> [] then Some (slug_text t) else Some (case kind of Some k \<Rightarrow> k | None \<Rightarrow> [])
            | (None, Some k) \<Rightarrow> Some (if slug_text k \<noteq> [] then slug_text k else k)
            | (None, None) \<Rightarrow> None))"

section \<open>Applying a proposal\<close>

text \<open>\<open>ap_touched\<close>: the entries this proposal changed already, which the check against the planner's view leaves out.\<close>

record applying =
  ap_entries :: "Kind \<Rightarrow> store"
  ap_touched :: "(Kind \<times> string) list"
  ap_results :: "AppliedEdit list"

definition refused :: "RefineEdit \<Rightarrow> string \<Rightarrow> HarnessEntry option \<Rightarrow> string \<Rightarrow> AppliedEdit" where
  "refused e i before err = \<lparr>ae_edit = e, ae_id = i, ae_applied = False, ae_error = Some err, ae_before = before, ae_after = None\<rparr>"

definition add_result :: "AppliedEdit \<Rightarrow> applying \<Rightarrow> applying" where
  "add_result r s = s\<lparr>ap_results := ap_results s @ [r]\<rparr>"

definition or_kept :: "'a option \<Rightarrow> 'a option \<Rightarrow> 'a \<Rightarrow> 'a" where
  "or_kept a b d = (case a of Some x \<Rightarrow> x | None \<Rightarrow> (case b of Some x \<Rightarrow> x | None \<Rightarrow> d))"

definition edited_entry :: "string \<Rightarrow> Scope \<Rightarrow> RefineEdit \<Rightarrow> Kind \<Rightarrow> string \<Rightarrow> HarnessEntry option \<Rightarrow> HarnessEntry" where
  "edited_entry now scope e k i before =
     \<lparr>he_id = i, he_kind = k, he_title = or_kept (ed_title e) (map_option he_title before) i, he_content = or_kept (ed_content e) (map_option he_content before) [],
       he_path = or_kept (ed_path e) (map_option he_path before) ''general'', he_scope = (case before of Some b \<Rightarrow> he_scope b | None \<Rightarrow> scope),
       he_reference = or_kept (ed_reference e) (map_option he_reference before) [], he_arguments = or_kept (ed_arguments e) (map_option he_arguments before) [],
       he_metadata = or_kept (ed_metadata e) (map_option he_metadata before) [], he_source = ''refine'',
       he_created = (case before of Some b \<Rightarrow> he_created b | None \<Rightarrow> now), he_updated = now,
       he_version = (case before of Some b \<Rightarrow> he_version b + 1 | None \<Rightarrow> 1), he_rest = []\<rparr>"

text \<open>An edit with a valid action and kind: the rest of the loop's body.\<close>

definition apply_valid :: "string \<Rightarrow> Scope \<Rightarrow> (Kind \<Rightarrow> store) option \<Rightarrow> EditAction \<Rightarrow> Kind \<Rightarrow> string \<Rightarrow> RefineEdit \<Rightarrow> applying \<Rightarrow> applying" where
  "apply_valid now scope baseline a k i e s =
     (let before = map_of (ap_entries s k) i in
      if (case baseline of Some b \<Rightarrow> (k, i) \<notin> set (ap_touched s) \<and> before \<noteq> map_of (b k) i | None \<Rightarrow> False)
      then add_result (refused e i before ''entry changed during refinement planning'') s
      else (case a of
          DeleteEdit \<Rightarrow>
            if before = None then add_result (refused e i None ''entry not found'') s
            else add_result \<lparr>ae_edit = e, ae_id = i, ae_applied = True, ae_error = None, ae_before = before, ae_after = None\<rparr>
              (s\<lparr>ap_entries := (ap_entries s)(k := AList.delete i (ap_entries s k)), ap_touched := (k, i) # ap_touched s\<rparr>)
        | _ \<Rightarrow>
            if a = CreateEdit \<and> before \<noteq> None then add_result (refused e i before ''entry already exists'') s
            else if a = UpdateEdit \<and> before = None then add_result (refused e i None ''entry not found'') s
            else (let entry = edited_entry now scope e k i before in
              add_result \<lparr>ae_edit = e, ae_id = i, ae_applied = True, ae_error = None, ae_before = before, ae_after = Some entry\<rparr>
                (s\<lparr>ap_entries := (ap_entries s)(k := AList.update i entry (ap_entries s k)), ap_touched := (k, i) # ap_touched s\<rparr>))))"

text \<open>One edit; \<open>None\<close> when the id throws.\<close>

definition apply_edit :: "(json option \<Rightarrow> string) \<Rightarrow> string \<Rightarrow> Scope \<Rightarrow> (Kind \<Rightarrow> store) option \<Rightarrow> RefineEdit \<Rightarrow> applying \<Rightarrow> applying option" where
  "apply_edit str now scope baseline raw s =
     (let e = raw\<lparr>ed_id := map_option strip_scope (ed_id raw)\<rparr> in
      case edit_id e of
        None \<Rightarrow> None
      | Some i \<Rightarrow>
          Some (case invalidEdit str e i of
              Some problem \<Rightarrow> add_result (refused e i None problem) s
            | None \<Rightarrow>
                (case (edit_action (ed_action e), edit_kind (ed_kind e)) of
                   (Some a, Some k) \<Rightarrow> apply_valid now scope baseline a k i e s
                 | _ \<Rightarrow> s)))"

fun apply_edits :: "(json option \<Rightarrow> string) \<Rightarrow> string \<Rightarrow> Scope \<Rightarrow> (Kind \<Rightarrow> store) option \<Rightarrow> RefineEdit list \<Rightarrow> applying \<Rightarrow> applying option" where
  "apply_edits str now scope baseline [] s = Some s"
| "apply_edits str now scope baseline (e # es) s = Option.bind (apply_edit str now scope baseline e s) (apply_edits str now scope baseline es)"

definition change_text :: "(json option \<Rightarrow> string) \<Rightarrow> AppliedEdit \<Rightarrow> string" where
  "change_text str r = str (ed_action (ae_edit r)) @ '' '' @ str (ed_kind (ae_edit r)) @ '':'' @ ae_id r"

definition applyProposal :: "(json option \<Rightarrow> string) \<Rightarrow> string \<Rightarrow> HarnessState \<Rightarrow> RefineProposal \<Rightarrow> string \<Rightarrow> Scope \<Rightarrow> string option \<Rightarrow> (Kind \<Rightarrow> store) option \<Rightarrow>
    (HarnessState \<times> RefineResult) option" where
  "applyProposal str now st p rid scope rollbackOf baseline =
     map_option (\<lambda>s.
       (st\<lparr>hs_entries := ap_entries s,
           hs_refinements := hs_refinements st @ [\<lparr>re_id = rid, re_trigger = rp_summary p,
             re_changes = map (change_text str) (filter ae_applied (ap_results s)),
             re_rest = [(''evidence'', JStr (rp_rationale p)), (''outcome'', JStr (rp_outcome p)), (''created_at'', JStr now)]\<rparr>]\<rparr>,
        \<lparr>rr_id = rid, rr_summary = rp_summary p, rr_rationale = rp_rationale p, rr_outcome = rp_outcome p, rr_edits = ap_results s, rr_rollbackOf = rollbackOf,
          rr_scope = Some scope\<rparr>))
     (apply_edits str now scope baseline (rp_edits p) \<lparr>ap_entries = hs_entries st, ap_touched = [], ap_results = []\<rparr>)"

section \<open>Rollback\<close>

definition rollback_edit :: "string \<Rightarrow> AppliedEdit \<Rightarrow> RefineEdit option" where
  "rollback_edit rid r =
     (if \<not> ae_applied r then None
      else (case ae_before r of
          Some b \<Rightarrow>
            Some \<lparr>ed_action = Some (JStr (if ae_after r \<noteq> None then ''update'' else ''create'')), ed_kind = ed_kind (ae_edit r), ed_id = Some (ae_id r),
              ed_title = Some (he_title b), ed_content = Some (he_content b), ed_path = Some (he_path b), ed_reference = Some (he_reference b),
              ed_arguments = Some (he_arguments b), ed_metadata = Some (he_metadata b), ed_reason = Some (''Rollback '' @ rid)\<rparr>
        | None \<Rightarrow>
            if ae_after r = None then None
            else Some \<lparr>ed_action = Some (JStr ''delete''), ed_kind = ed_kind (ae_edit r), ed_id = Some (ae_id r), ed_title = None, ed_content = None, ed_path = None,
              ed_reference = None, ed_arguments = None, ed_metadata = None, ed_reason = Some (''Rollback '' @ rid)\<rparr>))"

definition rollbackProposal :: "RefineResult \<Rightarrow> RefineProposal" where
  "rollbackProposal r =
     \<lparr>rp_summary = ''Rollback refinement '' @ rr_id r,
       rp_rationale = ''Restores continual harness state snapshots from refinement '' @ rr_id r @ ''.'',
       rp_outcome = ''Faulty refinement edits are reverted.'', rp_edits = List.map_filter (rollback_edit (rr_id r)) (rev (rr_edits r))\<rparr>"

text \<open>\<open>recordScope\<close>: the scope a record wrote to, when its entries have one scope.\<close>

definition edit_scope :: "AppliedEdit \<Rightarrow> Scope option" where
  "edit_scope r = (case ae_after r of Some e \<Rightarrow> Some (he_scope e) | None \<Rightarrow> map_option he_scope (ae_before r))"

definition recordScope :: "RefineResult \<Rightarrow> Scope option" where
  "recordScope r =
     (if rr_scope r \<noteq> None then rr_scope r
      else (case remdups (List.map_filter edit_scope (rr_edits r)) of [s] \<Rightarrow> Some s | _ \<Rightarrow> None))"

definition mergeHistory :: "RefineResult list \<Rightarrow> RefineResult list \<Rightarrow> (string \<times> RefineResult) list" where
  "mergeHistory global session =
     (let m = fold (\<lambda>r. AList.update (rr_id r) (r\<lparr>rr_scope := Some (case recordScope r of Some s \<Rightarrow> s | None \<Rightarrow> GlobalScope)\<rparr>)) global [] in
      fold (\<lambda>r m. AList.update (rr_id r)
        (if rr_scope r \<noteq> None then r else (case Option.bind (map_of m (rr_id r)) rr_scope of Some s \<Rightarrow> r\<lparr>rr_scope := Some s\<rparr> | None \<Rightarrow> r)) m) session m)"

end
