(* ===== verification/HarnessRules.thy ===== *)
theory HarnessRules
  imports Harness
begin

text \<open>
  What a refine may do to a store: a rollback restores what the refine changed, and an edit leaves alone an entry that changed since the planner read it. Also, runs of the code that
  show where a proposal, a rollback and the merged view go wrong.
\<close>

section \<open>Stores\<close>
















section \<open>Ids\<close>







section \<open>One edit\<close>








section \<open>Rollback\<close>

lemma edit_action_texts [simp]:
  "edit_action (Some (JStr ''create'')) = Some CreateEdit" "edit_action (Some (JStr ''update'')) = Some UpdateEdit" "edit_action (Some (JStr ''delete'')) = Some DeleteEdit"
  by (simp_all add: edit_action_def)








section \<open>Changes since the planner read the store\<close>

definition touched_ok :: "(Kind \<Rightarrow> store) \<Rightarrow> applying \<Rightarrow> bool" where
  "touched_ok ent s \<longleftrightarrow> (\<forall>k i. (k, i) \<notin> set (ap_touched s) \<longrightarrow> map_of (ap_entries s k) i = map_of (ent k) i)"

definition kept_ok :: "(Kind \<Rightarrow> store) \<Rightarrow> (Kind \<Rightarrow> store) \<Rightarrow> applying \<Rightarrow> bool" where
  "kept_ok ent b s \<longleftrightarrow> touched_ok ent s \<and> (\<forall>(k, i) \<in> set (ap_touched s). map_of (ent k) i = map_of (b k) i)"

lemma kept_result [simp]: "kept_ok ent b (add_result r s) = kept_ok ent b s"
  by (simp add: kept_ok_def touched_ok_def add_result_def)

lemma kept_change:
  assumes kept: "kept_ok ent b s" and now: "(k, i) \<in> set (ap_touched s) \<or> map_of (ap_entries s k) i = map_of (b k) i"
    and same: "\<And>k' j. (k', j) \<noteq> (k, i) \<Longrightarrow> map_of (ap_entries t k') j = map_of (ap_entries s k') j" and touched: "ap_touched t = (k, i) # ap_touched s"
  shows "kept_ok ent b t"
proof -
  have "map_of (ent k) i = map_of (b k) i" using kept now by (fastforce simp: kept_ok_def touched_ok_def)
  moreover have "\<And>k' j. (k', j) \<notin> set (ap_touched t) \<Longrightarrow> map_of (ap_entries t k') j = map_of (ent k') j"
    using kept same by (simp add: kept_ok_def touched_ok_def touched)
  ultimately show ?thesis using kept by (auto simp: kept_ok_def touched_ok_def touched)
qed

lemma apply_valid_kept:
  assumes kept: "kept_ok ent b s"
  shows "kept_ok ent b (apply_valid now scope (Some b) a k i e s)"
proof (cases "(k, i) \<in> set (ap_touched s) \<or> map_of (ap_entries s k) i = map_of (b k) i")
  case True
  have "kept_ok ent b (s\<lparr>ap_entries := (ap_entries s)(k := AList.update i x (ap_entries s k)), ap_touched := (k, i) # ap_touched s\<rparr>)" for x
    by (rule kept_change[OF kept True]) (auto simp: update_conv)
  moreover have "kept_ok ent b (s\<lparr>ap_entries := (ap_entries s)(k := AList.delete i (ap_entries s k)), ap_touched := (k, i) # ap_touched s\<rparr>)"
    by (rule kept_change[OF kept True]) (auto simp: delete_conv)
  ultimately show ?thesis using kept by (cases a) (simp_all add: apply_valid_def Let_def)
qed (simp add: apply_valid_def Let_def kept)

lemma apply_edit_kept:
  assumes "apply_edit str now scope (Some b) e s = Some t" and "kept_ok ent b s"
  shows "kept_ok ent b t"
  using assms apply_valid_kept[OF assms(2)] by (auto simp: apply_edit_def Let_def split: option.splits)

lemma apply_edits_kept: "apply_edits str now scope (Some b) es s = Some t \<Longrightarrow> kept_ok ent b s \<Longrightarrow> kept_ok ent b t"
  by (induction es arbitrary: s) (auto simp: bind_eq_Some_conv dest: apply_edit_kept)

text \<open>
  A refine never overwrites another writer: given the store as the planner saw it, every entry another writer added, changed or removed since then is the same after the refine
  as before it, whatever the proposal's edits say.
\<close>

theorem refine_keeps_others:
  assumes "applyProposal str now st p rid scope rollbackOf (Some b) = Some (st1, rec)" and "map_of (hs_entries st k) i \<noteq> map_of (b k) i"
  shows "map_of (hs_entries st1 k) i = map_of (hs_entries st k) i"
proof -
  let ?s0 = "\<lparr>ap_entries = hs_entries st, ap_touched = [], ap_results = []\<rparr>"
  obtain s where s: "apply_edits str now scope (Some b) (rp_edits p) ?s0 = Some s" and st1: "hs_entries st1 = ap_entries s"
    using assms(1) by (auto simp: applyProposal_def)
  have "kept_ok (hs_entries st) b s" by (rule apply_edits_kept[OF s]) (simp add: kept_ok_def touched_ok_def)
  then show ?thesis using assms(2) st1 by (auto simp: kept_ok_def touched_ok_def)
qed

section \<open>Runs on values\<close>

definition plain_entry :: "string \<Rightarrow> string \<Rightarrow> HarnessEntry" where
  "plain_entry i t = \<lparr>he_id = i, he_kind = MemoryKind, he_title = t, he_content = ''c'', he_path = ''general'', he_scope = LocalScope, he_reference = [], he_arguments = [],
     he_metadata = [], he_source = ''agent'', he_created = [], he_updated = [], he_version = 1, he_rest = []\<rparr>"

definition plain_state :: "store \<Rightarrow> HarnessState" where
  "plain_state m = emptyState\<lparr>hs_entries := (\<lambda>_. [])(MemoryKind := m)\<rparr>"

definition plain_edit :: "string \<Rightarrow> string option \<Rightarrow> string option \<Rightarrow> RefineEdit" where
  "plain_edit a i t = \<lparr>ed_action = Some (JStr a), ed_kind = Some (JStr ''memory''), ed_id = i, ed_title = t, ed_content = t, ed_path = None, ed_reference = None,
     ed_arguments = None, ed_metadata = None, ed_reason = None\<rparr>"

definition plain_proposal :: "RefineEdit list \<Rightarrow> RefineProposal" where
  "plain_proposal es = \<lparr>rp_summary = [], rp_rationale = [], rp_outcome = [], rp_edits = es\<rparr>"

definition old_state :: HarnessState where
  "old_state = plain_state [(''a'', plain_entry ''a'' ''old'')]"

definition three_edits :: "RefineEdit list" where
  "three_edits = [plain_edit ''update'' (Some ''local:a'') (Some ''new''), plain_edit ''delete'' (Some ''a'') None, plain_edit ''create'' None (Some ''B'')]"

definition memory_texts :: "HarnessState \<Rightarrow> (string \<times> string) list" where
  "memory_texts st = map (\<lambda>(i, e). (i, he_title e)) (hs_entries st MemoryKind)"

definition refine_plain :: "HarnessState \<Rightarrow> RefineEdit list \<Rightarrow> (HarnessState \<times> RefineResult) option" where
  "refine_plain st es = applyProposal (\<lambda>_. []) ''now'' st (plain_proposal es) ''r'' LocalScope None None"

definition roll_back :: "HarnessState \<times> RefineResult \<Rightarrow> (HarnessState \<times> RefineResult) option" where
  "roll_back p = applyProposal (\<lambda>_. []) ''later'' (fst p) (rollbackProposal (snd p)) ''q'' LocalScope (Some (rr_id (snd p))) None"


lemma three_edits_back: "map_option (memory_texts \<circ> fst) (Option.bind (refine_plain old_state three_edits) roll_back) = Some [(''a'', ''old'')]"
  by code_simp

text \<open>An entry with an empty title, which the file may hold, is not taken back: its deletion is final.\<close>

lemma untitled_not_restored:
  "map_option (memory_texts \<circ> fst) (Option.bind (refine_plain (plain_state [(''a'', plain_entry ''a'' [])]) [plain_edit ''delete'' (Some ''a'') None]) roll_back) = Some []"
  by code_simp

text \<open>An edit with neither kind, title nor id throws, so no edit of its proposal applies.\<close>

lemma kindless_edit_throws:
  "refine_plain old_state [plain_edit ''create'' None (Some ''B''), (plain_edit ''create'' None None)\<lparr>ed_kind := None\<rparr>] = None"
  by code_simp

text \<open>The merged view gives a clashing local entry a name that another may have already, and loses that one.\<close>

lemma merged_view_loses_entry:
  "map (\<lambda>(i, e). (i, he_title e)) (hs_entries (mergeStates (plain_state [(''a'', plain_entry ''a'' ''global'')])
     (Some (plain_state [(''local:a'', plain_entry ''local:a'' ''one''), (''a'', plain_entry ''a'' ''two'')]))) MemoryKind) = [(''a'', ''global''), (''local:a'', ''two'')]"
  by code_simp


text \<open>The planner saw the entry under another title, so the edit does not apply.\<close>

definition seen_before :: "Kind \<Rightarrow> store" where
  "seen_before = hs_entries (plain_state [(''a'', plain_entry ''a'' ''older'')])"

theorem refine_keeps_others_witness:
  "map_of (hs_entries (fst (the (applyProposal (\<lambda>_. []) ''now'' old_state (plain_proposal three_edits) ''r'' LocalScope None (Some seen_before)))) MemoryKind) ''a'' =
   Some (plain_entry ''a'' ''old'')"
proof -
  have "map_option (memory_texts \<circ> fst) (applyProposal (\<lambda>_. []) ''now'' old_state (plain_proposal three_edits) ''r'' LocalScope None (Some seen_before)) \<noteq> None" by code_simp
  then obtain st1 r where a: "applyProposal (\<lambda>_. []) ''now'' old_state (plain_proposal three_edits) ''r'' LocalScope None (Some seen_before) = Some (st1, r)" by auto
  have o: "map_of (hs_entries old_state MemoryKind) ''a'' = Some (plain_entry ''a'' ''old'')" by (simp add: old_state_def plain_state_def)
  have "map_of (hs_entries old_state MemoryKind) ''a'' \<noteq> map_of (seen_before MemoryKind) ''a''"
    by (simp add: o seen_before_def plain_state_def plain_entry_def)
  from refine_keeps_others [OF a this] show ?thesis by (simp add: a o)
qed

end
