(* ===== verification/ChatTurns.thy ===== *)
theory ChatTurns
  imports MessageKeys Json
begin

text \<open>
  The turns of a thread's page (\<open>shared/turns.ts\<close>): each prompt opens a turn, messages that arrive after a run settled open exchanges inside it, and everything
  else joins the run at work. The code changes the last turn, or the last exchange in it, in place; here \<open>with_run\<close> changes that one. Of a message the fields
  the code reads are kept.
\<close>

section \<open>Messages\<close>

datatype StopReason = Stop | StopLength | StopToolUse | StopError | StopAborted

record ToolCallPart =
  tc_id :: string
  tc_name :: string
  tc_arguments :: json

datatype AssistantPart = TextPart string | ThinkingPart string | ToolPart ToolCallPart

datatype UserPart = UserText string | UserImage string string

datatype content = PlainContent string | PartsContent "UserPart list"

record UserMessage =
  um_content :: content
  um_at :: int

record AssistantMessage =
  am_content :: "AssistantPart list"
  am_stop :: StopReason
  am_at :: int

record ToolResultMessage =
  rm_call :: string
  rm_content :: "UserPart list"
  rm_error :: bool
  rm_at :: int
  rm_duration :: "int option"

record CustomMessage =
  cm_type :: string
  cm_content :: content
  cm_at :: int

text \<open>The messages the code only shows: a bash run, and the summaries of a branch or a compaction.\<close>

datatype PlainMessage = BashExecutionMessage string string | BranchSummaryMessage string | CompactionSummaryMessage string

datatype ThreadMessage =
    UserM UserMessage
  | AssistantM AssistantMessage
  | ResultM ToolResultMessage
  | CustomM CustomMessage
  | PlainM PlainMessage int

datatype SystemMessage = SystemCustom CustomMessage | SystemPlain PlainMessage int

fun message_at :: "ThreadMessage \<Rightarrow> int" where
  "message_at (UserM m) = um_at m"
| "message_at (AssistantM m) = am_at m"
| "message_at (ResultM m) = rm_at m"
| "message_at (CustomM m) = cm_at m"
| "message_at (PlainM _ at') = at'"

definition part_texts :: "('p \<Rightarrow> string option) \<Rightarrow> 'p list \<Rightarrow> string" where
  "part_texts f ps = js_join [CHR 10, CHR 10] (List.map_filter f ps)"

definition user_text :: "UserPart \<Rightarrow> string option" where
  "user_text p = (case p of UserText t \<Rightarrow> Some t | UserImage _ _ \<Rightarrow> None)"

definition assistant_text :: "AssistantPart \<Rightarrow> string option" where
  "assistant_text p = (case p of TextPart t \<Rightarrow> Some t | _ \<Rightarrow> None)"

definition contentText :: "content \<Rightarrow> string" where
  "contentText c = (case c of PlainContent t \<Rightarrow> t | PartsContent ps \<Rightarrow> part_texts user_text ps)"

definition messageText :: "AssistantMessage \<Rightarrow> string" where
  "messageText m = part_texts assistant_text (am_content m)"

definition PROMPT_TYPES :: "string list" where
  "PROMPT_TYPES = [''agent_message'', ''heartbeat_prompt'', ''async_bash_completion'', ''goal_context'', ''rlm_child_terminal_notice'', ''rlm_child_failure'',
     ''prime-agent.update_restart'']"

definition isPromptCustom :: "CustomMessage \<Rightarrow> bool" where
  "isPromptCustom m \<longleftrightarrow> cm_type m \<in> set PROMPT_TYPES"

definition opensTurn :: "CustomMessage \<Rightarrow> bool" where
  "opensTurn m \<longleftrightarrow> cm_type m = ''heartbeat_prompt''"

section \<open>Turns\<close>

record ToolRun =
  tr_call :: string
  tr_running :: bool
  tr_started :: int

text \<open>A turn's fields are its key, prompt, trigger, work, reply with its live flag, failure, start, end and live flag; an index is a message's place in the list.\<close>

datatype turn =
  Turn (tn_key: string) (tn_prompt: "(UserMessage \<times> nat) option") (tn_trigger: "(CustomMessage \<times> nat) option") (tn_work: "work_item list")
    (tn_reply: "(AssistantMessage \<times> nat \<times> bool) option") (tn_failure: "(AssistantMessage \<times> nat) option") (tn_started: int) (tn_ended: int) (tn_live: bool)
and work_item =
    ThinkingItem string nat nat
  | ToolItem ToolCallPart "ToolResultMessage option" "ToolRun option" nat nat
  | NoteItem string nat
  | SystemItem SystemMessage nat
  | TriggerItem CustomMessage nat
  | ExchangeItem turn nat

definition with_work :: "(work_item list \<Rightarrow> work_item list) \<Rightarrow> turn \<Rightarrow> turn" where
  "with_work f t = Turn (tn_key t) (tn_prompt t) (tn_trigger t) (f (tn_work t)) (tn_reply t) (tn_failure t) (tn_started t) (tn_ended t) (tn_live t)"

definition with_reply :: "(AssistantMessage \<times> nat \<times> bool) option \<Rightarrow> turn \<Rightarrow> turn" where
  "with_reply r t = Turn (tn_key t) (tn_prompt t) (tn_trigger t) (tn_work t) r (tn_failure t) (tn_started t) (tn_ended t) (tn_live t)"

definition with_failure :: "(AssistantMessage \<times> nat) option \<Rightarrow> turn \<Rightarrow> turn" where
  "with_failure r t = Turn (tn_key t) (tn_prompt t) (tn_trigger t) (tn_work t) (tn_reply t) r (tn_started t) (tn_ended t) (tn_live t)"

definition ended_by :: "int \<Rightarrow> turn \<Rightarrow> turn" where
  "ended_by at' t = Turn (tn_key t) (tn_prompt t) (tn_trigger t) (tn_work t) (tn_reply t) (tn_failure t) (tn_started t) (max (tn_ended t) at') (tn_live t)"

definition with_live :: "bool \<Rightarrow> turn \<Rightarrow> turn" where
  "with_live b t = Turn (tn_key t) (tn_prompt t) (tn_trigger t) (tn_work t) (tn_reply t) (tn_failure t) (tn_started t) (tn_ended t) b"

fun exchange_of :: "work_item \<Rightarrow> turn option" where
  "exchange_of (ExchangeItem t _) = Some t"
| "exchange_of _ = None"

definition is_exchange :: "work_item \<Rightarrow> bool" where
  "is_exchange w \<longleftrightarrow> exchange_of w \<noteq> None"

definition lastExchange :: "turn \<Rightarrow> turn option" where
  "lastExchange t = Option.bind (find is_exchange (rev (tn_work t))) exchange_of"

definition currentRun :: "turn \<Rightarrow> turn" where
  "currentRun t = (case lastExchange t of Some x \<Rightarrow> x | None \<Rightarrow> t)"

definition exchangesOf :: "turn \<Rightarrow> turn list" where
  "exchangesOf t = List.map_filter exchange_of (tn_work t)"

definition ownRun :: "turn \<Rightarrow> turn" where
  "ownRun t = (if list_ex is_exchange (tn_work t) then with_live False (with_work (filter (\<lambda>w. \<not> is_exchange w)) t) else t)"

text \<open>A change of the run at work: of the last exchange, or of the turn itself.\<close>

fun in_last_exchange :: "(turn \<Rightarrow> turn) \<Rightarrow> work_item list \<Rightarrow> work_item list" where
  "in_last_exchange f [] = []"
| "in_last_exchange f (w # ws) =
     (if list_ex is_exchange ws then w # in_last_exchange f ws else (case w of ExchangeItem t i \<Rightarrow> ExchangeItem (f t) i # ws | _ \<Rightarrow> w # ws))"

definition with_run :: "(turn \<Rightarrow> turn) \<Rightarrow> turn \<Rightarrow> turn" where
  "with_run f t = (if list_ex is_exchange (tn_work t) then with_work (in_last_exchange f) t else f t)"

definition failed_stop :: "AssistantMessage \<Rightarrow> bool" where
  "failed_stop m \<longleftrightarrow> am_stop m = StopError \<or> am_stop m = StopAborted"

text \<open>The work of a message's parts, with their places; \<open>note\<close> says that its texts are notes.\<close>

definition part_work :: "(string \<Rightarrow> ToolResultMessage option) \<Rightarrow> bool \<Rightarrow> nat \<Rightarrow> nat \<times> AssistantPart \<Rightarrow> work_item option" where
  "part_work results note i q =
     (case q of
        (j, ThinkingPart t) \<Rightarrow> if js_trim t \<noteq> [] then Some (ThinkingItem t i j) else None
      | (j, ToolPart c) \<Rightarrow> Some (ToolItem c (results (tc_id c)) None i j)
      | (j, TextPart t) \<Rightarrow> if note \<and> js_trim t \<noteq> [] then Some (NoteItem (js_trim t) i) else None)"

definition text_is_note :: "AssistantMessage \<Rightarrow> bool \<Rightarrow> bool" where
  "text_is_note m live \<longleftrightarrow> am_stop m = StopToolUse \<and> \<not> failed_stop m \<and> \<not> live"

definition reply_text :: "turn \<Rightarrow> string" where
  "reply_text t = (case tn_reply t of Some (m, _, False) \<Rightarrow> js_trim (messageText m) | _ \<Rightarrow> [])"

definition note_of_reply :: "turn \<Rightarrow> turn" where
  "note_of_reply t =
     (case tn_reply t of
        Some (m, i, False) \<Rightarrow> with_reply None (if reply_text t \<noteq> [] then with_work (\<lambda>w. w @ [NoteItem (reply_text t) i]) t else t)
      | _ \<Rightarrow> t)"

definition addAssistant :: "(string \<Rightarrow> ToolResultMessage option) \<Rightarrow> AssistantMessage \<Rightarrow> nat \<Rightarrow> bool \<Rightarrow> turn \<Rightarrow> turn" where
  "addAssistant results m i live t =
     (if failed_stop m \<and> \<not> live \<and> js_trim (messageText m) = [] \<and> reply_text t \<noteq> [] then ended_by (am_at m) (with_failure (Some (m, i)) t)
      else (let t1 = note_of_reply t;
                t2 = with_work (\<lambda>w. w @ List.map_filter (part_work results (text_is_note m live) i) (List.enumerate 0 (am_content m))) t1;
                t3 = (if \<not> text_is_note m live \<and> (js_trim (messageText m) \<noteq> [] \<or> failed_stop m \<or> live) then with_reply (Some (m, i, live)) t2 else t2)
            in ended_by (am_at m) t3))"

definition openTurn :: "string \<Rightarrow> int \<Rightarrow> turn" where
  "openTurn k at' = Turn k None None [] None None at' at' False"

definition toolResults :: "ThreadMessage list \<Rightarrow> string \<Rightarrow> ToolResultMessage option" where
  "toolResults ms = fold (\<lambda>m r. case m of ResultM x \<Rightarrow> r(rm_call x \<mapsto> x) | _ \<Rightarrow> r) ms Map.empty"

definition turnKey :: "int list \<Rightarrow> nat \<Rightarrow> string" where
  "turnKey ats i = ''turn-'' @ show_int (mk_at (messageKey ats i)) @ ''.'' @ digits_of_nat (mk_n (messageKey ats i))"

text \<open>The loop of \<open>buildTurns\<close>: the turns, of which the last is \<open>current\<close>, and \<open>settled\<close>.\<close>

definition on_last :: "(turn \<Rightarrow> turn) \<Rightarrow> turn list \<Rightarrow> turn list" where
  "on_last f ts = (if ts = [] then [] else butlast ts @ [f (last ts)])"

definition opened :: "string \<Rightarrow> ThreadMessage \<Rightarrow> nat \<Rightarrow> turn" where
  "opened k m i =
     (case m of
        UserM u \<Rightarrow> Turn k (Some (u, i)) None [] None None (um_at u) (um_at u) False
      | CustomM c \<Rightarrow> Turn k None (Some (c, i)) [] None None (cm_at c) (cm_at c) False
      | _ \<Rightarrow> openTurn k (message_at m))"

definition is_trigger :: "ThreadMessage \<Rightarrow> bool" where
  "is_trigger m = (case m of CustomM c \<Rightarrow> isPromptCustom c | _ \<Rightarrow> False)"

definition is_user :: "ThreadMessage \<Rightarrow> bool" where
  "is_user m = (case m of UserM _ \<Rightarrow> True | _ \<Rightarrow> False)"

definition opens_turn :: "ThreadMessage \<Rightarrow> bool" where
  "opens_turn m = (case m of CustomM c \<Rightarrow> opensTurn c | _ \<Rightarrow> False)"

text \<open>What a message that opens nothing does to the run at work.\<close>

definition join_run :: "(string \<Rightarrow> ToolResultMessage option) \<Rightarrow> ThreadMessage \<Rightarrow> nat \<Rightarrow> turn \<Rightarrow> turn" where
  "join_run results m i =
     (case m of
        AssistantM a \<Rightarrow> addAssistant results a i False
      | ResultM r \<Rightarrow> ended_by (rm_at r)
      | CustomM c \<Rightarrow> with_work (\<lambda>w. w @ [if isPromptCustom c then TriggerItem c i else SystemItem (SystemCustom c) i])
      | PlainM p at' \<Rightarrow> with_work (\<lambda>w. w @ [SystemItem (SystemPlain p at') i])
      | UserM _ \<Rightarrow> id)"

definition turn_step :: "(string \<Rightarrow> ToolResultMessage option) \<Rightarrow> int list \<Rightarrow> nat \<times> ThreadMessage \<Rightarrow> turn list \<times> bool \<Rightarrow> turn list \<times> bool" where
  "turn_step results ats q s =
     (case (q, s) of ((i, m), (ts, settled)) \<Rightarrow>
        if is_user m \<or> is_trigger m \<and> settled \<and> (ts = [] \<or> opens_turn m) then (ts @ [opened (turnKey ats i) m i], False)
        else if is_trigger m \<and> settled then (on_last (with_work (\<lambda>w. w @ [ExchangeItem (opened (turnKey ats i) m i) i])) ts, False)
        else (on_last (with_run (join_run results m i)) (if ts = [] then [openTurn (turnKey ats i) (message_at m)] else ts),
              (case m of AssistantM a \<Rightarrow> am_stop a \<noteq> StopToolUse | _ \<Rightarrow> settled)))"

definition build_turns :: "(string \<Rightarrow> ToolResultMessage option) \<Rightarrow> ThreadMessage list \<Rightarrow> turn list \<times> bool" where
  "build_turns results ms = fold (turn_step results (map message_at ms)) (List.enumerate 0 ms) ([], True)"

definition buildTurns :: "ThreadMessage list \<Rightarrow> turn list" where
  "buildTurns ms = fst (build_turns (toolResults ms) ms)"

section \<open>The live tail\<close>

text \<open>\<open>withRuns\<close> goes into exchanges.\<close>

function withRuns :: "ToolRun list \<Rightarrow> turn \<Rightarrow> turn" where
  "withRuns tools (Turn k p tg w r f a b l) =
     Turn k p tg (map (\<lambda>x. case x of
         ToolItem c res _ i j \<Rightarrow> ToolItem c res (find (\<lambda>z. tr_call z = tc_id c) tools) i j
       | ExchangeItem t i \<Rightarrow> ExchangeItem (withRuns tools t) i
       | _ \<Rightarrow> x) w) r f a b l"
  by pat_completeness auto
termination
  by (relation "measure (\<lambda>(_, t). size t)") (auto intro!: less_SucI elim: size_list_estimation)

definition liveTurn :: "turn option \<Rightarrow> AssistantMessage option \<Rightarrow> ToolRun list \<Rightarrow> nat \<Rightarrow> bool \<Rightarrow> int \<Rightarrow> turn option" where
  "liveTurn lst streaming tools count running now =
     (if streaming = None \<and> \<not> list_ex tr_running tools \<and> \<not> running then None
      else (let base = (case lst of Some t \<Rightarrow> t | None \<Rightarrow> openTurn ''turn-live'' (case streaming of Some m \<Rightarrow> am_at m | None \<Rightarrow> now));
                t = with_live True (withRuns tools base);
                t1 = (if lastExchange t = None then t else with_work (in_last_exchange (with_live True)) t)
            in Some (case streaming of None \<Rightarrow> t1 | Some m \<Rightarrow> with_run (addAssistant Map.empty m count True) t1)))"

definition toolDurationMs :: "ToolResultMessage option \<Rightarrow> ToolRun option \<Rightarrow> int \<Rightarrow> int option" where
  "toolDurationMs result run now =
     (case Option.bind result rm_duration of Some d \<Rightarrow> Some d | None \<Rightarrow> map_option (\<lambda>r. max 0 (now - tr_started r)) run)"

definition workCounts :: "work_item list \<Rightarrow> nat \<times> nat" where
  "workCounts ws =
     (length (filter (\<lambda>w. case w of ToolItem _ _ _ _ _ \<Rightarrow> True | _ \<Rightarrow> False) ws),
      length (filter (\<lambda>w. case w of ToolItem _ _ _ _ _ \<Rightarrow> False | ThinkingItem _ _ _ \<Rightarrow> False | ExchangeItem _ _ \<Rightarrow> False | _ \<Rightarrow> True) ws))"

section \<open>What a trigger says\<close>

text \<open>\<open>/^\[([^\]\n]+)\]\s*/\<close>: the header line's inside and the text after it.\<close>

definition header_match :: "string \<Rightarrow> (string \<times> string) option" where
  "header_match s =
     (case s of
        [] \<Rightarrow> None
      | c # cs \<Rightarrow>
          (let inside = (\<lambda>x. x \<noteq> CHR '']'' \<and> x \<noteq> CHR 10); h = takeWhile inside cs in
           case dropWhile inside cs of
             e # rest \<Rightarrow> if c = CHR ''['' \<and> h \<noteq> [] \<and> e = CHR '']'' then Some (h, dropWhile js_ws rest) else None
           | [] \<Rightarrow> None))"

definition triggerBody :: "string \<Rightarrow> string" where
  "triggerBody s = js_trim (case header_match (js_trim s) of Some (_, rest) \<Rightarrow> rest | None \<Rightarrow> js_trim s)"

text \<open>
  \<open>gap\<close> blanks, then a line to the end (\<open>\s+(.+)$\<close>, \<open>\s*(.+)$\<close>): the blanks are taken greedily, and one is given back when nothing else is left. A word is
  \<open>\S+\<close>.
\<close>

definition line_end :: "char \<Rightarrow> bool" where
  "line_end c \<longleftrightarrow> c = CHR 10 \<or> c = CHR 13"

definition rest_line :: "nat \<Rightarrow> string \<Rightarrow> string option" where
  "rest_line gap r =
     (let ws = takeWhile js_ws r; rest = dropWhile js_ws r in
      if length ws < gap then None
      else if rest \<noteq> [] then (if list_ex line_end rest then None else Some rest)
      else if gap < length ws \<and> \<not> line_end (last ws) then Some [last ws] else None)"

definition first_word :: "string \<Rightarrow> string option" where
  "first_word s = (case takeWhile (\<lambda>c. \<not> js_ws c) s of [] \<Rightarrow> None | w \<Rightarrow> Some w)"

definition after_prefix :: "string \<Rightarrow> string \<Rightarrow> string option" where
  "after_prefix p s = (if prefix p s then Some (drop (length p) s) else None)"

text \<open>The word after the first place of the text that a word follows.\<close>

fun word_after :: "string \<Rightarrow> string \<Rightarrow> string option" where
  "word_after p [] = None"
| "word_after p (c # cs) =
     (case Option.bind (after_prefix p (c # cs)) first_word of Some w \<Rightarrow> Some w | None \<Rightarrow> word_after p cs)"

text \<open>\<open>/^Command:\s*"?([\s\S]*?)"?\s*$/\<close>.\<close>

definition command_of :: "string \<Rightarrow> string option" where
  "command_of s =
     map_option (\<lambda>r.
       let u = dropWhile js_ws r; v = (case u of c # cs \<Rightarrow> if c = CHR 34 then cs else u | [] \<Rightarrow> []);
           w = rev (dropWhile js_ws (rev v))
       in if w \<noteq> [] \<and> last w = CHR 34 then butlast w else w)
     (after_prefix ''Command:'' s)"

text \<open>\<open>/<\/?[a-z_]+>/g\<close>, removed.\<close>

definition tag_char :: "char \<Rightarrow> bool" where
  "tag_char c \<longleftrightarrow> c = CHR ''_'' \<or> 97 \<le> (of_char c :: nat) \<and> (of_char c :: nat) \<le> 122"

definition after_tag :: "string \<Rightarrow> string option" where
  "after_tag s =
     (case s of
        [] \<Rightarrow> None
      | c # cs \<Rightarrow>
          (let u = (case cs of d # ds \<Rightarrow> if d = CHR ''/'' then ds else cs | [] \<Rightarrow> []) in
           case dropWhile tag_char u of
             e # rest \<Rightarrow> if c = CHR ''<'' \<and> takeWhile tag_char u \<noteq> [] \<and> e = CHR ''>'' then Some rest else None
           | [] \<Rightarrow> None))"

lemma after_tag_shorter: "after_tag s = Some r \<Longrightarrow> length r < length s"
proof -
  have "length (dropWhile tag_char u) \<le> length u" for u by (rule length_dropWhile_le)
  then show "after_tag s = Some r \<Longrightarrow> ?thesis"
    by (auto simp: after_tag_def Let_def split: list.splits if_splits) (metis Suc_le_length_iff Suc_leD le_imp_less_Suc length_Cons less_SucI list.size(4))+
qed

function strip_tags :: "string \<Rightarrow> string" where
  "strip_tags s = (case after_tag s of Some r \<Rightarrow> strip_tags r | None \<Rightarrow> (case s of [] \<Rightarrow> [] | c # cs \<Rightarrow> c # strip_tags cs))"
  by pat_completeness auto
termination
  by (relation "measure length") (auto dest: after_tag_shorter)

record TriggerSummary =
  ts_label :: string
  ts_detail :: string
  ts_body :: string

definition or_blank :: "string option \<Rightarrow> string" where
  "or_blank v = (case v of Some s \<Rightarrow> s | None \<Rightarrow> [])"

definition triggerSummary :: "CustomMessage \<Rightarrow> TriggerSummary" where
  "triggerSummary m =
     (let t = js_trim (contentText (cm_content m)); header = (case header_match t of Some (h, _) \<Rightarrow> h | None \<Rightarrow> []); body = triggerBody t; ty = cm_type m in
      if ty = ''agent_message'' then
        (let from' = or_blank (Option.bind (after_prefix ''agent-message from'' (js_lower header)) (\<lambda>_. rest_line 1 (drop 18 header))) in
         \<lparr>ts_label = ''Message'', ts_detail = (if from' = [] then [] else ''from '' @ from'), ts_body = body\<rparr>)
      else if ty = ''async_bash_completion'' then
        \<lparr>ts_label = ''Background command finished'', ts_detail = (case word_after ''exit:'' header of Some x \<Rightarrow> ''exit '' @ x | None \<Rightarrow> []),
          ts_body = (case command_of body of Some c \<Rightarrow> c | None \<Rightarrow> body)\<rparr>
      else if ty = ''heartbeat_prompt'' then \<lparr>ts_label = ''Heartbeat'', ts_detail = header, ts_body = body\<rparr>
      else if ty = ''goal_context'' then
        \<lparr>ts_label = ''Goal'', ts_detail = or_blank (Option.bind (after_prefix ''goal:'' header) (rest_line 0)), ts_body = body\<rparr>
      else if ty = ''rlm_child_terminal_notice'' \<or> ty = ''rlm_child_failure'' then
        (let child = (case word_after ''child:'' header of Some c \<Rightarrow> c | None \<Rightarrow> or_blank (Option.bind (after_prefix ''RLM child '' t) first_word));
             state = or_blank (Option.bind (after_prefix ''child-exited:'' header) (first_word \<circ> dropWhile js_ws)) in
         \<lparr>ts_label = (if ty = ''rlm_child_failure'' then ''Subagent failed'' else ''Subagent exited''),
           ts_detail = js_join '', '' (filter (\<lambda>x. x \<noteq> []) [child, state]), ts_body = body\<rparr>)
      else if ty = ''prime-agent.update_restart'' then \<lparr>ts_label = ''Prime Agent restarted'', ts_detail = [], ts_body = js_trim (strip_tags t)\<rparr>
      else \<lparr>ts_label = map (\<lambda>c. if c = CHR ''_'' then CHR '' '' else c) ty, ts_detail = header, ts_body = body\<rparr>)"

lemma summary_examples:
  "triggerSummary \<lparr>cm_type = ''agent_message'', cm_content = PlainContent ''[agent-message from  Ann] hi '', cm_at = 0\<rparr> =
     \<lparr>ts_label = ''Message'', ts_detail = ''from Ann'', ts_body = ''hi''\<rparr>"
  by code_simp

end
