(* ===== verification/TurnRules.thy ===== *)
theory TurnRules
  imports ChatTurns Prelude
begin

text \<open>
  What the turns of a page keep of a thread: seen as a flat list of runs, a page is built by appending a run or changing the last one; every message shows in one of
  them, a run that is over never changes, and a reply stays when later messages arrive.
\<close>

lemmas turn_changes = with_work_def with_reply_def with_failure_def ended_by_def with_live_def

lemma turn_change_simps [simp]:
  "tn_work (with_work f t) = f (tn_work t)" "tn_reply (with_work f t) = tn_reply t" "tn_live (with_work f t) = tn_live t" "tn_failure (with_work f t) = tn_failure t"
  "tn_prompt (with_work f t) = tn_prompt t" "tn_trigger (with_work f t) = tn_trigger t"
  "tn_work (with_reply r t) = tn_work t" "tn_reply (with_reply r t) = r" "tn_live (with_reply r t) = tn_live t"
  "tn_prompt (with_reply r t) = tn_prompt t" "tn_trigger (with_reply r t) = tn_trigger t"
  "tn_work (with_failure e t) = tn_work t" "tn_reply (with_failure e t) = tn_reply t" "tn_live (with_failure e t) = tn_live t"
  "tn_prompt (with_failure e t) = tn_prompt t" "tn_trigger (with_failure e t) = tn_trigger t"
  "tn_work (ended_by n t) = tn_work t" "tn_reply (ended_by n t) = tn_reply t" "tn_live (ended_by n t) = tn_live t"
  "tn_prompt (ended_by n t) = tn_prompt t" "tn_trigger (ended_by n t) = tn_trigger t"
  by (simp_all add: turn_changes)

lemma on_last_simps [simp]: "on_last f [] = []" "on_last f (ts @ [t]) = ts @ [f t]" "on_last f [t] = [f t]"
  by (simp_all add: on_last_def)

lemma on_last_nonempty [simp]: "on_last f ts = [] \<longleftrightarrow> ts = []"
  by (simp add: on_last_def)

lemma on_last_append: "us \<noteq> [] \<Longrightarrow> on_last f (ts @ us) = ts @ on_last f us"
  by (simp add: on_last_def butlast_append)

section \<open>The runs of a page\<close>

definition all_runs :: "turn list \<Rightarrow> turn list" where
  "all_runs ts = concat (map (\<lambda>t. ownRun t # exchangesOf t) ts)"

lemma all_runs_simps [simp]: "all_runs [] = []" "all_runs (ts @ us) = all_runs ts @ all_runs us" "all_runs [t] = ownRun t # exchangesOf t"
  by (simp_all add: all_runs_def)

lemma all_runs_empty [simp]: "all_runs ts = [] \<longleftrightarrow> ts = []"
  by (cases ts) (simp_all add: all_runs_def)

text \<open>A message opens a run when it is a prompt, or a trigger that arrives after the run settled.\<close>

definition opens_run :: "ThreadMessage \<Rightarrow> bool \<Rightarrow> bool" where
  "opens_run m settled \<longleftrightarrow> is_user m \<or> is_trigger m \<and> settled"

definition settled_by :: "ThreadMessage \<Rightarrow> bool \<Rightarrow> bool" where
  "settled_by m settled = (case m of AssistantM a \<Rightarrow> am_stop a \<noteq> StopToolUse | _ \<Rightarrow> settled)"

definition run_step :: "(string \<Rightarrow> ToolResultMessage option) \<Rightarrow> int list \<Rightarrow> nat \<times> ThreadMessage \<Rightarrow> turn list \<times> bool \<Rightarrow> turn list \<times> bool" where
  "run_step results ats q s =
     (case (q, s) of ((i, m), (rs, settled)) \<Rightarrow>
        if opens_run m settled then (rs @ [opened (turnKey ats i) m i], False)
        else (on_last (join_run results m i) (if rs = [] then [openTurn (turnKey ats i) (message_at m)] else rs), settled_by m settled))"

definition flat_runs :: "(string \<Rightarrow> ToolResultMessage option) \<Rightarrow> int list \<Rightarrow> (nat \<times> ThreadMessage) list \<Rightarrow> turn list \<times> bool" where
  "flat_runs results ats qs = fold (run_step results ats) qs ([], True)"

lemma is_exchange_simps [simp]:
  "is_exchange (ExchangeItem t i)" "\<not> is_exchange (ThinkingItem a i j)" "\<not> is_exchange (ToolItem c r u i j)" "\<not> is_exchange (NoteItem a i)"
  "\<not> is_exchange (SystemItem y i)" "\<not> is_exchange (TriggerItem z i)"
  by (simp_all add: is_exchange_def)

lemma exchange_free: "\<not> list_ex is_exchange ws \<Longrightarrow> List.map_filter exchange_of ws = []"
  by (induction ws) (auto simp: List.map_filter_def is_exchange_def)

lemma exchanges_none: "\<not> list_ex is_exchange (tn_work t) \<Longrightarrow> exchangesOf t = [] \<and> ownRun t = t"
  by (simp add: exchangesOf_def exchange_free ownRun_def)

lemma filter_in_last: "filter (\<lambda>w. \<not> is_exchange w) (in_last_exchange f ws) = filter (\<lambda>w. \<not> is_exchange w) ws"
  by (induction ws) (auto split: work_item.split)

lemma exchange_in_last [simp]: "list_ex is_exchange (in_last_exchange f ws) = list_ex is_exchange ws"
  by (induction ws) (auto split: work_item.split)

lemma exchanges_some: "list_ex is_exchange ws \<Longrightarrow> List.map_filter exchange_of ws \<noteq> []"
  by (induction ws) (auto simp: List.map_filter_def is_exchange_def)

lemma exchanges_in_last:
  "list_ex is_exchange ws \<Longrightarrow> List.map_filter exchange_of (in_last_exchange f ws) = on_last f (List.map_filter exchange_of ws)"
proof (induction ws)
  case (Cons w ws)
  show ?case
  proof (cases "list_ex is_exchange ws")
    case True
    then show ?thesis using Cons.IH exchanges_some[OF True]
      by (cases "exchange_of w") (simp_all add: List.map_filter_simps on_last_def)
  next
    case False
    with Cons.prems obtain t i where "w = ExchangeItem t i" by (cases w) auto
    then show ?thesis using False exchange_free[OF False] by (simp add: List.map_filter_simps)
  qed
qed simp

lemma ownRun_exchange:
  assumes "\<not> tn_live t"
  shows "ownRun (with_work (\<lambda>w. w @ [ExchangeItem x i]) t) = ownRun t"
  using assms by (cases t) (auto simp: ownRun_def turn_changes list_ex_iff filter_id_conv)

lemma exchangesOf_exchange: "exchangesOf (with_work (\<lambda>w. w @ [ExchangeItem x i]) t) = exchangesOf t @ [x]"
  by (simp add: exchangesOf_def List.map_filter_def)

text \<open>A change that adds no exchange and leaves the live flag.\<close>

definition joins :: "(turn \<Rightarrow> turn) \<Rightarrow> bool" where
  "joins f \<longleftrightarrow> (\<forall>t. tn_live (f t) = tn_live t \<and> (\<exists>ws. tn_work (f t) = tn_work t @ ws \<and> \<not> list_ex is_exchange ws))"

lemma runs_with_run:
  assumes "joins f" and "\<not> tn_live t"
  shows "ownRun (with_run f t) # exchangesOf (with_run f t) = on_last f (ownRun t # exchangesOf t)"
proof (cases "list_ex is_exchange (tn_work t)")
  case True
  have "exchangesOf (with_run f t) = on_last f (exchangesOf t)"
    using exchanges_in_last[OF True, of f] True by (simp add: with_run_def exchangesOf_def)
  moreover have "ownRun (with_run f t) = ownRun t"
    using True by (cases t) (simp add: with_run_def ownRun_def turn_changes filter_in_last)
  moreover have "exchangesOf t \<noteq> []" using exchanges_some[OF True] by (simp add: exchangesOf_def)
  ultimately show ?thesis by (simp add: on_last_def)
next
  case False
  then have "\<not> list_ex is_exchange (tn_work (f t))" using assms(1) unfolding joins_def by (metis list_ex_append)
  then show ?thesis using False by (simp add: with_run_def exchanges_none)
qed

lemma live_with_run: "joins f \<Longrightarrow> tn_live (with_run f t) = tn_live t"
  by (simp add: with_run_def joins_def)

lemma part_work_no_exchange: "\<not> list_ex is_exchange (List.map_filter (part_work results note i) qs)"
  by (induction qs) (auto simp: List.map_filter_simps part_work_def split: AssistantPart.splits prod.splits if_splits)

lemma joins_simps [simp]: "joins (with_failure e)" "joins (ended_by n)" "joins (with_reply r)" "joins id"
    "joins (with_work (\<lambda>w. w @ ws)) \<longleftrightarrow> \<not> list_ex is_exchange ws"
  by (auto simp: joins_def)

lemma joins_then: "joins f \<Longrightarrow> joins g \<Longrightarrow> joins (\<lambda>t. g (f t))"
  unfolding joins_def by (metis append_assoc list_ex_append)

lemma joins_if: "joins f \<Longrightarrow> joins g \<Longrightarrow> joins (\<lambda>t. if c t then f t else g t)"
  by (simp add: joins_def)

lemma joins_note: "joins note_of_reply"
  by (auto simp: joins_def note_of_reply_def split: option.split bool.split)

lemma joins_add: "joins (addAssistant results m i live)"
proof -
  let ?add = "with_work (\<lambda>w. w @ List.map_filter (part_work results (text_is_note m live) i) (List.enumerate 0 (am_content m)))"
  have w: "joins (\<lambda>t. ?add (note_of_reply t))"
    by (rule joins_then[OF joins_note]) (simp add: part_work_no_exchange)
  have f: "joins (\<lambda>t. ended_by (am_at m) (with_failure (Some (m, i)) t))" by (rule joins_then) simp_all
  have "joins (\<lambda>t. ended_by (am_at m) (if c then with_reply (Some (m, i, live)) (?add (note_of_reply t)) else ?add (note_of_reply t)))" for c
    using joins_then[OF joins_then[OF w joins_simps(3)] joins_simps(2)] joins_then[OF w joins_simps(2)] by (cases c) simp_all
  from joins_if[OF f this] show ?thesis unfolding addAssistant_def Let_def .
qed

lemma joins_join: "joins (join_run results m i)"
  by (cases m) (auto simp: join_run_def joins_add)

definition none_live :: "turn list \<Rightarrow> bool" where
  "none_live ts \<longleftrightarrow> (\<forall>t \<in> set ts. \<not> tn_live t)"

lemma none_live_on_last: "none_live ts \<Longrightarrow> (\<And>t. tn_live (f t) = tn_live t) \<Longrightarrow> none_live (on_last f ts)"
  by (cases ts rule: rev_cases) (auto simp: none_live_def)

lemma opened_simps [simp]: "tn_work (opened k m i) = []" "\<not> tn_live (opened k m i)" "tn_work (openTurn k a) = []" "\<not> tn_live (openTurn k a)"
  by (auto simp: opened_def openTurn_def split: ThreadMessage.split)

lemma all_runs_opened [simp]: "all_runs [opened k m i] = [opened k m i]" "all_runs [openTurn k a] = [openTurn k a]"
  by (simp_all add: exchanges_none)

lemma turn_step_runs:
  assumes "none_live ts" and "turn_step results ats q (ts, settled) = (ts', b')"
  shows "none_live ts' \<and> run_step results ats q (all_runs ts, settled) = (all_runs ts', b')"
proof -
  obtain i m where q: "q = (i, m)" by (cases q)
  let ?new = "opened (turnKey ats i) m i"
  consider (turn) "is_user m \<or> is_trigger m \<and> settled \<and> (ts = [] \<or> opens_turn m)"
    | (exchange) "\<not> is_user m" "is_trigger m" "settled" "ts \<noteq> []" "\<not> opens_turn m" | (join) "\<not> opens_run m settled"
    by (auto simp: opens_run_def)
  then show ?thesis
  proof cases
    case turn
    then have "ts' = ts @ [?new]" "b' = False" "opens_run m settled" using assms(2) by (auto simp: turn_step_def q opens_run_def)
    then show ?thesis using assms(1) by (simp add: run_step_def q none_live_def del: all_runs_simps(3))
  next
    case exchange
    have ts': "ts' = on_last (with_work (\<lambda>w. w @ [ExchangeItem ?new i])) ts" "b' = False" "opens_run m settled"
      using exchange assms(2) by (auto simp: turn_step_def q opens_run_def)
    obtain us t where ts: "ts = us @ [t]" using exchange(4) by (cases ts rule: rev_cases) auto
    have "\<not> tn_live t" using assms(1) ts by (simp add: none_live_def)
    then have "all_runs ts' = all_runs ts @ [?new]" by (simp add: ts' ts ownRun_exchange exchangesOf_exchange)
    then show ?thesis using assms(1) ts' by (simp add: run_step_def q none_live_on_last)
  next
    case join
    let ?ts = "if ts = [] then [openTurn (turnKey ats i) (message_at m)] else ts"
    have ts': "ts' = on_last (with_run (join_run results m i)) ?ts" "b' = settled_by m settled"
      using join assms(2) by (auto simp: turn_step_def q opens_run_def settled_by_def)
    have live: "none_live ?ts" using assms(1) by (simp add: none_live_def)
    obtain us t where ts: "?ts = us @ [t]" by (cases ?ts rule: rev_cases) (auto split: if_splits)
    have "\<not> tn_live t" using live by (simp add: none_live_def ts)
    then have r: "all_runs ts' = on_last (join_run results m i) (all_runs ?ts)"
      using runs_with_run[OF joins_join, of t results m i] unfolding ts' ts by (simp add: on_last_append)
    have "all_runs ?ts = (if all_runs ts = [] then [openTurn (turnKey ats i) (message_at m)] else all_runs ts)" by (simp del: all_runs_simps(3))
    then show ?thesis using r join live ts' by (simp add: run_step_def q none_live_on_last live_with_run joins_join del: all_runs_simps(3))
  qed
qed

lemma build_runs_from:
  assumes "none_live ts" and "fold (turn_step results ats) qs (ts, settled) = (ts', b')"
  shows "fold (run_step results ats) qs (all_runs ts, settled) = (all_runs ts', b')"
  using assms
proof (induction qs arbitrary: ts settled)
  case (Cons q qs)
  obtain us b where s: "turn_step results ats q (ts, settled) = (us, b)" by fastforce
  have "fold (turn_step results ats) qs (us, b) = (ts', b')" using Cons.prems(2) s by simp
  with Cons.IH[of us b] turn_step_runs[OF Cons.prems(1) s] show ?case by simp
qed simp

theorem buildTurns_runs: "all_runs (buildTurns ms) = fst (flat_runs (toolResults ms) (map message_at ms) (List.enumerate 0 ms))"
  using build_runs_from[of "[]" "toolResults ms" "map message_at ms" "List.enumerate 0 ms" True]
  by (cases "build_turns (toolResults ms) ms") (auto simp: buildTurns_def build_turns_def flat_runs_def none_live_def)

section \<open>Every message shows\<close>

datatype shown_part =
    ShownPrompt nat UserMessage
  | ShownTrigger nat CustomMessage
  | ShownSystem nat SystemMessage
  | ShownText nat string
  | ShownThinking nat nat string
  | ShownTool nat nat ToolCallPart "ToolResultMessage option"

fun item_shows :: "work_item \<Rightarrow> shown_part set" where
  "item_shows (ThinkingItem t i j) = {ShownThinking i j t}"
| "item_shows (ToolItem c res _ i j) = {ShownTool i j c res}"
| "item_shows (NoteItem t i) = {ShownText i t}"
| "item_shows (SystemItem m i) = {ShownSystem i m}"
| "item_shows (TriggerItem m i) = {ShownTrigger i m}"
| "item_shows (ExchangeItem _ _) = {}"

definition text_shows :: "nat \<Rightarrow> string \<Rightarrow> shown_part set" where
  "text_shows i t = (if js_trim t = [] then {} else {ShownText i (js_trim t)})"

definition run_shows :: "turn \<Rightarrow> shown_part set" where
  "run_shows t =
     (case tn_prompt t of Some (m, i) \<Rightarrow> {ShownPrompt i m} | None \<Rightarrow> {}) \<union> (case tn_trigger t of Some (m, i) \<Rightarrow> {ShownTrigger i m} | None \<Rightarrow> {}) \<union>
     (\<Union>w \<in> set (tn_work t). item_shows w) \<union> (case tn_reply t of Some (m, i, _) \<Rightarrow> text_shows i (messageText m) | None \<Rightarrow> {})"

definition page_shows :: "turn list \<Rightarrow> shown_part set" where
  "page_shows ts = (\<Union>t \<in> set (all_runs ts). run_shows t)"




definition silent_failure :: "ThreadMessage \<Rightarrow> bool" where
  "silent_failure m = (case m of AssistantM a \<Rightarrow> failed_stop a \<and> js_trim (messageText a) = [] | _ \<Rightarrow> False)"





lemma run_shows_same [simp]: "run_shows (ended_by n t) = run_shows t" "run_shows (with_failure e t) = run_shows t"
  by (simp_all add: run_shows_def)














section \<open>A run that is over stays as it is\<close>

text \<open>A run without the results of its calls, which may still come.\<close>

definition forget_item :: "work_item \<Rightarrow> work_item" where
  "forget_item w = (case w of ToolItem c _ u i j \<Rightarrow> ToolItem c None u i j | _ \<Rightarrow> w)"

definition forget :: "turn \<Rightarrow> turn" where
  "forget t = with_work (map forget_item) t"

lemma forget_simps [simp]: "tn_reply (forget t) = tn_reply t" "tn_work (forget t) = map forget_item (tn_work t)"
  by (simp_all add: forget_def)

lemma forget_change:
  "forget (with_work (\<lambda>w. w @ ws) t) = with_work (\<lambda>w. w @ map forget_item ws) (forget t)" "forget (with_reply r t) = with_reply r (forget t)"
  "forget (with_failure e t) = with_failure e (forget t)" "forget (ended_by n t) = ended_by n (forget t)"
  by (simp_all add: forget_def turn_changes)

lemma forget_parts: "map forget_item (List.map_filter (part_work results note i) qs) = List.map_filter (part_work Map.empty note i) qs"
proof (induction qs)
  case (Cons q qs)
  have "map_option forget_item (part_work results note i q) = part_work Map.empty note i q"
    by (cases q; cases "snd q") (auto simp: part_work_def forget_item_def)
  from this [symmetric] Cons show ?case by (cases "part_work results note i q") (simp_all add: List.map_filter_simps)
qed (simp add: List.map_filter_simps)

lemma forget_note: "forget (note_of_reply t) = note_of_reply (forget t)"
  by (auto simp: note_of_reply_def reply_text_def forget_change forget_item_def split: option.split prod.split bool.split)

lemma forget_add: "forget (addAssistant results m i live t) = addAssistant Map.empty m i live (forget t)"
  by (simp add: addAssistant_def Let_def forget_change forget_note forget_parts reply_text_def)

lemma forget_join: "forget (join_run results m i t) = join_run Map.empty m i (forget t)"
  by (cases m) (auto simp: join_run_def forget_add forget_change forget_item_def)

lemma forget_opened [simp]: "forget (opened k m i) = opened k m i" "forget (openTurn k a) = openTurn k a"
  by (auto simp: forget_def turn_changes opened_def openTurn_def split: ThreadMessage.split)

lemma map_on_last: "(\<And>t. g (f t) = h (g t)) \<Longrightarrow> map g (on_last f ts) = on_last h (map g ts)"
  by (cases ts rule: rev_cases) auto

lemma forget_step:
  assumes "run_step results ats q (rs, b) = (rs', b')"
  shows "run_step Map.empty ats q (map forget rs, b) = (map forget rs', b')"
proof -
  obtain i m where q: "q = (i, m)" by (cases q)
  have j: "map forget (on_last (join_run results m i) us) = on_last (join_run Map.empty m i) (map forget us)" for us
    by (rule map_on_last) (rule forget_join)
  show ?thesis using assms j[of rs] j[of "[openTurn (turnKey ats i) (message_at m)]"] by (auto simp: run_step_def q split: if_splits)
qed

lemma forget_runs: "fold (run_step results ats) qs (rs, b) = (rs', b') \<Longrightarrow> fold (run_step Map.empty ats) qs (map forget rs, b) = (map forget rs', b')"
proof (induction qs arbitrary: rs b)
  case (Cons q qs)
  obtain us c where s: "run_step results ats q (rs, b) = (us, c)" by fastforce
  from Cons.IH[of us c] Cons.prems s forget_step[OF s] show ?case by simp
qed simp

lemma run_step_before:
  assumes "run_step results ats q (rs, b) = (rs', b')"
  shows "prefix (butlast rs) (butlast rs') \<and> length rs \<le> length rs'"
  using assms by (cases rs rule: rev_cases) (auto simp: run_step_def butlast_append split: prod.splits if_splits)

lemma runs_before: "fold (run_step results ats) qs (rs, b) = (rs', b') \<Longrightarrow> prefix (butlast rs) (butlast rs')"
proof (induction qs arbitrary: rs b)
  case (Cons q qs)
  obtain us c where s: "run_step results ats q (rs, b) = (us, c)" by fastforce
  from Cons.IH[of us c] Cons.prems s run_step_before[OF s] show ?case by (auto intro: prefix_order.trans)
qed simp

text \<open>Keys depend on the messages before alone.\<close>

lemma earlier_same_append: "i \<le> length xs \<Longrightarrow> earlier_same (xs @ ys) n i = earlier_same xs n i"
  by (induction i) (auto simp: nth_append)

lemma turnKey_append: "i < length xs \<Longrightarrow> turnKey (xs @ ys) i = turnKey xs i"
  by (simp add: turnKey_def messageKey_def nth_append earlier_same_append)

lemma run_step_keys: "fst q < length xs \<Longrightarrow> run_step results (xs @ ys) q s = run_step results xs q s"
  by (cases q) (simp add: run_step_def turnKey_append split: prod.split)

lemma runs_keys:
  "\<forall>q \<in> set qs. fst q < length xs \<Longrightarrow> fold (run_step results (xs @ ys)) qs s = fold (run_step results xs) qs s"
  by (induction qs arbitrary: s) (simp_all add: run_step_keys)

lemma enumerate_below: "q \<in> set (List.enumerate n xs) \<Longrightarrow> fst q < n + length xs"
  by (auto simp: in_set_enumerate_eq)

lemma page_forget:
  obtains b where "fold (run_step Map.empty (map message_at ms)) (List.enumerate 0 ms) ([], True) = (map forget (all_runs (buildTurns ms)), b)"
proof -
  obtain rs b where r: "fold (run_step (toolResults ms) (map message_at ms)) (List.enumerate 0 ms) ([], True) = (rs, b)" by fastforce
  then have "all_runs (buildTurns ms) = rs" using buildTurns_runs[of ms] by (simp add: flat_runs_def)
  then show thesis using forget_runs[OF r] that by simp
qed

text \<open>
  A run that is over never changes: whatever messages follow, all runs but the last of a page, turns and exchanges alike, are the first runs of the longer page,
  with the same keys, prompts, work and replies; only the results of their calls may still be filled in.
\<close>

theorem runs_over_stay:
  "prefix (map forget (butlast (all_runs (buildTurns ms)))) (map forget (all_runs (buildTurns (ms @ ns))))"
proof -
  obtain b where p: "fold (run_step Map.empty (map message_at ms)) (List.enumerate 0 ms) ([], True) = (map forget (all_runs (buildTurns ms)), b)"
    by (rule page_forget)
  obtain c where q: "fold (run_step Map.empty (map message_at (ms @ ns))) (List.enumerate 0 (ms @ ns)) ([], True) = (map forget (all_runs (buildTurns (ms @ ns))), c)"
    by (rule page_forget)
  have "fold (run_step Map.empty (map message_at (ms @ ns))) (List.enumerate 0 ms) ([], True) = (map forget (all_runs (buildTurns ms)), b)"
    using p runs_keys[of "List.enumerate 0 ms" "map message_at ms" Map.empty "map message_at ns" "([], True)"] enumerate_below[of _ 0 ms] by auto
  then have "fold (run_step Map.empty (map message_at (ms @ ns))) (List.enumerate (length ms) ns) (map forget (all_runs (buildTurns ms)), b) =
      (map forget (all_runs (buildTurns (ms @ ns))), c)" using q by (simp add: enumerate_append_eq)
  from runs_before[OF this] show ?thesis by (auto simp: map_butlast intro: prefix_order.trans[OF _ prefixeq_butlast])
qed

section \<open>A reply stays\<close>

text \<open>Messages that leave a settled run's reply: failures with no text, and whatever is no assistant message and opens nothing.\<close>

definition quiet :: "ThreadMessage \<Rightarrow> bool" where
  "quiet m \<longleftrightarrow> \<not> opens_run m True \<and> (silent_failure m \<or> (case m of AssistantM _ \<Rightarrow> False | _ \<Rightarrow> True))"

definition last_reply :: "AssistantMessage \<Rightarrow> nat \<Rightarrow> turn list \<Rightarrow> bool" where
  "last_reply a i rs \<longleftrightarrow> rs \<noteq> [] \<and> tn_reply (last rs) = Some (a, i, False)"

definition kept_reply :: "AssistantMessage \<Rightarrow> nat \<Rightarrow> turn list \<Rightarrow> bool" where
  "kept_reply a i rs \<longleftrightarrow> (\<exists>t \<in> set (butlast rs). tn_reply t = Some (a, i, False))"

lemma answer_step:
  assumes "am_stop a \<noteq> StopToolUse" and "js_trim (messageText a) \<noteq> []" and "run_step results ats (i, AssistantM a) (rs, b) = (rs', b')"
  shows "last_reply a i rs' \<and> b'"
proof -
  have "tn_reply (addAssistant results a i False t) = Some (a, i, False)" for t
    using assms(1,2) by (simp add: addAssistant_def Let_def text_is_note_def)
  then show ?thesis using assms
    by (cases rs rule: rev_cases) (auto simp: run_step_def opens_run_def is_user_def is_trigger_def join_run_def last_reply_def settled_by_def)
qed

lemma quiet_step:
  assumes "quiet m" and "last_reply a i rs" and "js_trim (messageText a) \<noteq> []" and "run_step results ats (k, m) (rs, True) = (rs', b')"
  shows "last_reply a i rs' \<and> b'"
proof -
  obtain us t where rs: "rs = us @ [t]" "tn_reply t = Some (a, i, False)" using assms(2) by (cases rs rule: rev_cases) (auto simp: last_reply_def)
  have n: "\<not> opens_run m True" using assms(1) by (simp add: quiet_def)
  have "tn_reply (join_run results m k t) = Some (a, i, False) \<and> settled_by m True"
    using assms(1,3) rs(2) n
    by (cases m) (auto simp: quiet_def join_run_def silent_failure_def addAssistant_def reply_text_def settled_by_def failed_stop_def opens_run_def is_user_def)
  then show ?thesis using assms(4) n by (auto simp: run_step_def rs last_reply_def)
qed

lemma quiet_steps:
  assumes "\<forall>q \<in> set qs. quiet (snd q)" and "last_reply a i rs" and "js_trim (messageText a) \<noteq> []" and "fold (run_step results ats) qs (rs, True) = (rs', b')"
  shows "last_reply a i rs' \<and> b'"
  using assms
proof (induction qs arbitrary: rs)
  case (Cons q qs)
  obtain us c where s: "run_step results ats q (rs, True) = (us, c)" by fastforce
  obtain k m where q: "q = (k, m)" by (cases q)
  have u: "last_reply a i us \<and> c" using quiet_step[OF _ Cons.prems(2,3) s[unfolded q]] Cons.prems(1) by (simp add: q)
  with Cons.prems s show ?case by (intro Cons.IH[of us]) auto
qed simp

lemma opener_keeps:
  assumes "last_reply a i rs" and "opens_run m True" and "run_step results ats (k, m) (rs, True) = (rs', b')"
  shows "kept_reply a i rs'"
  using assms by (cases rs rule: rev_cases) (auto simp: run_step_def last_reply_def kept_reply_def butlast_append)

lemma kept_on: "kept_reply a i rs \<Longrightarrow> fold (run_step results ats) qs (rs, b) = (rs', b') \<Longrightarrow> kept_reply a i rs'"
  using runs_before[of results ats qs rs b rs' b'] by (auto simp: kept_reply_def dest: set_mono_prefix)

text \<open>
  A later message never hides an answer: once a run has answered with text, the answer is the reply of a run of the page for good, when nothing but failed calls, tool
  results and notices follows until the next prompt or agent message, or until the end.
\<close>

theorem answer_stays:
  assumes "ms = before @ AssistantM a # calm @ rest" and "am_stop a \<noteq> StopToolUse" and "js_trim (messageText a) \<noteq> []" and "\<forall>m \<in> set calm. quiet m"
    and "rest = [] \<or> opens_run (hd rest) True"
  shows "\<exists>t \<in> set (all_runs (buildTurns ms)). tn_reply t = Some (a, length before, False)"
proof -
  let ?f = "run_step (toolResults ms) (map message_at ms)"
  let ?i = "length before" and ?c = "List.enumerate (Suc (length before)) calm" and ?r = "List.enumerate (Suc (length before) + length calm) rest"
  have en: "List.enumerate 0 ms = List.enumerate 0 before @ (?i, AssistantM a) # ?c @ ?r"
    by (simp add: assms(1) enumerate_append_eq)
  obtain rs0 b0 where s0: "fold ?f (List.enumerate 0 before) ([], True) = (rs0, b0)" by fastforce
  obtain rs1 b1 where s1: "?f (?i, AssistantM a) (rs0, b0) = (rs1, b1)" by fastforce
  obtain rs2 b2 where s2: "fold ?f ?c (rs1, True) = (rs2, b2)" by fastforce
  obtain rs3 b3 where s3: "fold ?f ?r (rs2, True) = (rs3, b3)" by fastforce
  have l1: "last_reply a ?i rs1 \<and> b1" by (rule answer_step[OF assms(2,3) s1])
  have l2: "last_reply a ?i rs2 \<and> b2"
    by (rule quiet_steps[OF _ conjunct1[OF l1] assms(3) s2]) (use assms(4) in \<open>auto simp: in_set_enumerate_eq\<close>)
  have "all_runs (buildTurns ms) = rs3" using s0 s1 s2 s3 l1 l2 by (simp add: buildTurns_runs flat_runs_def en)
  moreover have "last_reply a ?i rs3 \<or> kept_reply a ?i rs3"
  proof (cases rest)
    case Nil
    then show ?thesis using s3 l2 by simp
  next
    case (Cons m ms')
    obtain us c where u: "?f (Suc (length before) + length calm, m) (rs2, True) = (us, c)" by fastforce
    have "kept_reply a ?i us" by (rule opener_keeps[OF conjunct1[OF l2] _ u]) (use assms(5) Cons in simp)
    then show ?thesis using s3 Cons u by (auto intro: kept_on)
  qed
  ultimately show ?thesis by (auto simp: last_reply_def kept_reply_def dest: in_set_butlastD intro: last_in_set)
qed

section \<open>Runs on values\<close>

definition turn_says :: "StopReason \<Rightarrow> AssistantPart list \<Rightarrow> int \<Rightarrow> ThreadMessage" where
  "turn_says r ps n = AssistantM \<lparr>am_content = ps, am_stop = r, am_at = n\<rparr>"

definition ex_turn_call :: ToolCallPart where
  "ex_turn_call = \<lparr>tc_id = ''c1'', tc_name = ''bash'', tc_arguments = JNull\<rparr>"

definition ex_answer :: AssistantMessage where
  "ex_answer = \<lparr>am_content = [TextPart ''done''], am_stop = Stop, am_at = 4\<rparr>"

definition ex_before :: "ThreadMessage list" where
  "ex_before = [UserM \<lparr>um_content = PlainContent ''go'', um_at = 1\<rparr>, turn_says StopToolUse [TextPart ''let me'', ToolPart ex_turn_call] 2,
     ResultM \<lparr>rm_call = ''c1'', rm_content = [], rm_error = False, rm_at = 3, rm_duration = None\<rparr>]"

definition ex_calm :: "ThreadMessage list" where
  "ex_calm = [turn_says StopError [ThinkingPart ''hm'', ToolPart ex_turn_call] 5]"

definition ex_rest :: "ThreadMessage list" where
  "ex_rest = [CustomM \<lparr>cm_type = ''agent_message'', cm_content = PlainContent ''hi'', cm_at = 6\<rparr>, turn_says Stop [TextPart ''hello''] 7]"

definition ex_thread :: "ThreadMessage list" where
  "ex_thread = ex_before @ AssistantM ex_answer # ex_calm @ ex_rest"

lemma ex_runs: "map (\<lambda>t. (tn_key t, map_option (\<lambda>(_, i, _). i) (tn_reply t))) (all_runs (buildTurns ex_thread)) = [(''turn-1.0'', Some 3), (''turn-6.0'', Some 6)]"
  by code_simp

text \<open>A failed call with no text after the answer leaves its failure, but its thoughts and tool calls show nowhere.\<close>

lemma failed_work_dropped: "ShownThinking 4 0 ''hm'' \<notin> page_shows (buildTurns ex_thread)"
  by code_simp


theorem answer_stays_witness:
  "\<exists>t \<in> set (all_runs (buildTurns ex_thread)). tn_reply t = Some (ex_answer, 3, False)"
proof -
  have "js_trim (messageText ex_answer) \<noteq> []" "\<forall>m \<in> set ex_calm. quiet m" "opens_run (hd ex_rest) True" by code_simp+
  moreover have "am_stop ex_answer \<noteq> StopToolUse" "length ex_before = 3" by (simp_all add: ex_answer_def ex_before_def)
  ultimately show ?thesis using answer_stays [of ex_thread ex_before ex_answer ex_calm ex_rest] by (simp add: ex_thread_def)
qed

end
