(* ===== verification/DurableFeed.thy ===== *)
theory DurableFeed
  imports Json
begin

text \<open>
  What an agent says to people, from its thread to the chat server (\<open>packages/pi-host/src/durable/feed.ts\<close>, and the outbox tables of \<open>index-db.ts\<close> in the same
  folder): a speaking call waits until its result is indexed, a sent one becomes a row of the outbox, and a \<open>durable_feed\<close> stream writes the rows after its cursor.
  Each method runs in one synchronous step. The index's other tables, which search and usage read, are left out.
\<close>

section \<open>What an entry says\<close>

definition ROOT_CONVERSATION_ID :: nat where
  "ROOT_CONVERSATION_ID = 1"

definition TELL_OWNER_TOOL :: string where
  "TELL_OWNER_TOOL = ''tell_owner''"

definition TELL_OWNER_HELD :: string where
  "TELL_OWNER_HELD = ''Kept as a note, not sent''"

definition SPEAKING :: "string list" where
  "SPEAKING = [TELL_OWNER_TOOL, ''send_message'']"

record SpokenCall =
  sp_id :: string
  sp_tool :: string
  sp_text :: string
  sp_to :: "string option"
  sp_why :: "string option"

text \<open>An entry of a thread: \<open>er_message\<close> is the first message of its model.\<close>

record EntryRecord =
  er_conversation :: nat
  er_id :: nat
  er_message :: "json option"

definition text_of :: "json option \<Rightarrow> string" where
  "text_of v =
     (case v of
        Some (JStr s) \<Rightarrow> s
      | Some (JArr cs) \<Rightarrow>
          js_join [CHR 10] (List.map_filter (\<lambda>c. if field c ''type'' = Some (JStr ''text'') then as_string (field c ''text'') else None) cs)
      | _ \<Rightarrow> [])"

definition trimmed_text :: "json option \<Rightarrow> string option" where
  "trimmed_text v = (case as_string v of Some s \<Rightarrow> if js_trim s \<noteq> [] then Some (js_trim s) else None | None \<Rightarrow> None)"

definition arg_field :: "json option \<Rightarrow> string \<Rightarrow> json option" where
  "arg_field v k = Option.bind v (\<lambda>j. field j k)"

definition spoken_block :: "json \<Rightarrow> SpokenCall option" where
  "spoken_block b =
     (case (as_string (field b ''id''), as_string (field b ''name'')) of
        (Some i, Some tool) \<Rightarrow>
          if field b ''type'' \<noteq> Some (JStr ''toolCall'') \<or> i = [] \<or> tool \<notin> set SPEAKING then None
          else map_option (\<lambda>t. \<lparr>sp_id = i, sp_tool = tool, sp_text = t, sp_to = trimmed_text (arg_field (field b ''arguments'') ''to''),
            sp_why = trimmed_text (arg_field (field b ''arguments'') ''why'')\<rparr>) (trimmed_text (arg_field (field b ''arguments'') ''text''))
      | _ \<Rightarrow> None)"

text \<open>\<open>speechOf\<close>: the calls of an assistant entry, or the outcome of a speaking call.\<close>

definition speechOf :: "EntryRecord \<Rightarrow> SpokenCall list \<times> (string \<times> bool) option" where
  "speechOf e =
     (case er_message e of
        None \<Rightarrow> ([], None)
      | Some m \<Rightarrow>
          if er_conversation e \<noteq> ROOT_CONVERSATION_ID then ([], None)
          else (case (field m ''role'', field m ''content'') of
              (Some (JStr r), content) \<Rightarrow>
                (case (r = ''assistant'', content) of
                   (True, Some (JArr bs)) \<Rightarrow> (List.map_filter spoken_block bs, None)
                 | _ \<Rightarrow>
                     (case (as_string (field m ''toolCallId''), as_string (field m ''toolName'')) of
                        (Some i, Some tool) \<Rightarrow>
                          if r \<noteq> ''toolResult'' \<or> i = [] \<or> tool \<notin> set SPEAKING then ([], None)
                          else ([], Some (i, field m ''isError'' \<noteq> Some (JBool True) \<and> \<not> (tool = TELL_OWNER_TOOL \<and> prefix TELL_OWNER_HELD (text_of content))))
                      | _ \<Rightarrow> ([], None)))
            | _ \<Rightarrow> ([], None)))"

section \<open>The outbox\<close>

text \<open>What the index gets of an entry, for the outbox.\<close>

record IndexedEntry =
  ie_conversation :: nat
  ie_id :: nat
  ie_at :: int
  ie_calls :: "SpokenCall list"
  ie_result :: "(string \<times> bool) option"

definition indexed :: "int \<Rightarrow> EntryRecord \<Rightarrow> IndexedEntry" where
  "indexed at' e = \<lparr>ie_conversation = er_conversation e, ie_id = er_id e, ie_at = at', ie_calls = fst (speechOf e), ie_result = snd (speechOf e)\<rparr>"

record FeedRow =
  fr_seq :: nat
  fr_thread :: string
  fr_conversation :: nat
  fr_entry :: nat
  fr_call :: string
  fr_tool :: string
  fr_request :: string
  fr_text :: string
  fr_to :: "string option"
  fr_why :: "string option"
  fr_at :: int

text \<open>A row of \<open>outbox_calls\<close>: the conversation and entry of a call.\<close>

type_synonym stored_call = "nat \<times> nat \<times> SpokenCall"

text \<open>The mark of each thread that has a row; the calls that wait; the rows in order of \<open>seq\<close>, whose last value is \<open>ti_seq\<close>; and \<open>outboxSince\<close>.\<close>

record ThreadIndex =
  ti_marks :: "string \<Rightarrow> nat option"
  ti_calls :: "string \<Rightarrow> string \<Rightarrow> stored_call option"
  ti_outbox :: "FeedRow list"
  ti_seq :: nat
  ti_since :: int

definition request_of :: "string \<Rightarrow> string \<Rightarrow> string" where
  "request_of thread call = ''m:'' @ thread @ '':'' @ call"

definition keep_calls :: "string \<Rightarrow> IndexedEntry \<Rightarrow> ThreadIndex \<Rightarrow> ThreadIndex" where
  "keep_calls th e ix =
     ix\<lparr>ti_calls := (ti_calls ix)(th := fold (\<lambda>c m. m(sp_id c \<mapsto> (ie_conversation e, ie_id e, c))) (ie_calls e) (ti_calls ix th))\<rparr>"

definition feed_row :: "nat \<Rightarrow> string \<Rightarrow> string \<Rightarrow> stored_call \<Rightarrow> int \<Rightarrow> FeedRow" where
  "feed_row n th i call at' =
     (case call of (conv, entry, c) \<Rightarrow>
        \<lparr>fr_seq = n, fr_thread = th, fr_conversation = conv, fr_entry = entry, fr_call = i, fr_tool = sp_tool c, fr_request = request_of th i, fr_text = sp_text c,
          fr_to = sp_to c, fr_why = sp_why c, fr_at = at'\<rparr>)"

text \<open>\<open>speech\<close>: the index after an entry, and the row it added. A row whose request is there already is ignored.\<close>

definition speech :: "string \<Rightarrow> IndexedEntry \<Rightarrow> ThreadIndex \<Rightarrow> ThreadIndex \<times> FeedRow option" where
  "speech th e ix0 =
     (let ix = keep_calls th e ix0 in
      case ie_result e of
        None \<Rightarrow> (ix, None)
      | Some (i, sent) \<Rightarrow>
          (case ti_calls ix th i of
             None \<Rightarrow> (ix, None)
           | Some call \<Rightarrow>
               (let ix1 = ix\<lparr>ti_calls := (ti_calls ix)(th := (ti_calls ix th)(i := None))\<rparr>; row = feed_row (Suc (ti_seq ix)) th i call (ie_at e) in
                if \<not> sent \<or> ie_at e < ti_since ix \<or> fr_request row \<in> fr_request ` set (ti_outbox ix) then (ix1, None)
                else (ix1\<lparr>ti_outbox := ti_outbox ix @ [row], ti_seq := Suc (ti_seq ix)\<rparr>, Some row))))"

definition indexedEntry :: "ThreadIndex \<Rightarrow> string \<Rightarrow> nat" where
  "indexedEntry ix th = (case ti_marks ix th of Some n \<Rightarrow> n | None \<Rightarrow> 0)"

definition speech_all :: "string \<Rightarrow> IndexedEntry list \<Rightarrow> ThreadIndex \<Rightarrow> ThreadIndex \<times> FeedRow list" where
  "speech_all th es ix =
     fold (\<lambda>e (i, rows). case speech th e i of (i', r) \<Rightarrow> (i', rows @ (case r of Some x \<Rightarrow> [x] | None \<Rightarrow> []))) es (ix, [])"

text \<open>\<open>addEntries\<close>, with the entries of the usage rows; the rows it answers are the ones the listeners hear.\<close>

definition addEntries :: "string \<Rightarrow> IndexedEntry list \<Rightarrow> nat list \<Rightarrow> ThreadIndex \<Rightarrow> ThreadIndex \<times> FeedRow list" where
  "addEntries th entries usage ix =
     (let mark = indexedEntry ix th; fresh = filter (\<lambda>e. mark < ie_id e) entries; fresh_usage = filter (\<lambda>n. mark < n) usage in
      if fresh = [] \<and> fresh_usage = [] then (ix, [])
      else (case speech_all th (sort_key ie_id fresh) ix of (ix', rows) \<Rightarrow>
        (ix'\<lparr>ti_marks := (ti_marks ix')(th := map_option (\<lambda>_. Max (insert mark (set (map ie_id fresh @ fresh_usage)))) (ti_marks ix' th))\<rparr>, rows)))"

definition resetEntries :: "string \<Rightarrow> ThreadIndex \<Rightarrow> ThreadIndex" where
  "resetEntries th ix = ix\<lparr>ti_marks := (ti_marks ix)(th := map_option (\<lambda>_. 0) (ti_marks ix th))\<rparr>"

definition readOutbox :: "ThreadIndex \<Rightarrow> nat \<Rightarrow> nat \<Rightarrow> FeedRow list \<times> bool" where
  "readOutbox ix after limit = (let rows = filter (\<lambda>r. after < fr_seq r) (ti_outbox ix) in (take limit rows, limit < length rows))"

section \<open>Streams\<close>

definition PAGE :: nat where
  "PAGE = 500"

text \<open>\<open>write\<close>: the last row written and the rows the sink got.\<close>

definition write_row :: "FeedRow \<Rightarrow> nat \<times> FeedRow list \<Rightarrow> nat \<times> FeedRow list" where
  "write_row row s = (case s of (lst, out) \<Rightarrow> if fr_seq row \<le> lst then s else (fr_seq row, out @ [row]))"

lemma write_rows_last: "lst \<le> fst (fold write_row rows (lst, out)) \<and> (\<forall>r \<in> set rows. fr_seq r \<le> fst (fold write_row rows (lst, out)))"
proof (induction rows arbitrary: lst out)
  case (Cons r rows)
  obtain l o2 where w: "write_row r (lst, out) = (l, o2)" by fastforce
  then have "lst \<le> l" "fr_seq r \<le> l" by (auto simp: write_row_def split: if_splits)
  with Cons.IH[of l o2] show ?case by (auto simp: w)
qed simp

lemma filter_fewer:
  assumes "\<And>x. Q x \<Longrightarrow> P x" and "x \<in> set xs" and "P x" and "\<not> Q x"
  shows "length (filter Q xs) < length (filter P xs)"
proof -
  have "filter Q xs = filter Q (filter P xs)" using assms(1) by (induction xs) auto
  moreover have "length (filter Q (filter P xs)) < length (filter P xs)" by (rule length_filter_less) (use assms(2-4) in auto)
  ultimately show ?thesis by simp
qed

text \<open>The pages of the backlog.\<close>

function write_pages :: "ThreadIndex \<Rightarrow> nat \<times> FeedRow list \<Rightarrow> nat \<times> FeedRow list" where
  "write_pages ix s =
     (case readOutbox ix (fst s) PAGE of (rows, further) \<Rightarrow>
        let s' = fold write_row rows s in if further then write_pages ix s' else s')"
  by pat_completeness auto
termination
proof (relation "measure (\<lambda>(ix, s). length (filter (\<lambda>r. fst s < fr_seq r) (ti_outbox ix)))", goal_cases)
  case (2 ix s rows further s')
  obtain lst out where s: "s = (lst, out)" by (cases s)
  let ?rest = "filter (\<lambda>r. lst < fr_seq r) (ti_outbox ix)"
  have rows: "rows = take PAGE ?rest" "PAGE < length ?rest" using 2 s by (auto simp: readOutbox_def Let_def)
  then obtain r where r: "r \<in> set rows" by (cases ?rest) (auto simp: PAGE_def)
  note w = write_rows_last[of lst rows out]
  have le: "lst \<le> fst s'" "fr_seq r \<le> fst s'" using w r 2(2) s by auto
  have "r \<in> set (ti_outbox ix)" "lst < fr_seq r" using r rows(1) by (auto dest: in_set_takeD)
  then have "length (filter (\<lambda>x. fst s' < fr_seq x) (ti_outbox ix)) < length ?rest"
    by (rule filter_fewer[rotated]) (use le in auto)
  then show ?case by (simp add: s)
qed simp

declare write_pages.simps [simp del]

record stream =
  st_client :: string
  st_feed :: string
  st_after :: nat
  st_last :: nat
  st_out :: "FeedRow list"
  st_open :: bool

definition hear :: "FeedRow list \<Rightarrow> stream \<Rightarrow> stream" where
  "hear rows st =
     (if st_open st then (case fold write_row rows (st_last st, st_out st) of (l, out) \<Rightarrow> st\<lparr>st_last := l, st_out := out\<rparr>) else st)"

definition open_feed :: "ThreadIndex \<Rightarrow> string \<Rightarrow> string \<Rightarrow> nat \<Rightarrow> stream" where
  "open_feed ix client feed after =
     (case write_pages ix (after, []) of (l, out) \<Rightarrow>
        \<lparr>st_client = client, st_feed = feed, st_after = after, st_last = l, st_out = out, st_open = True\<rparr>)"

definition stop_feed :: "string \<Rightarrow> string \<Rightarrow> stream list \<Rightarrow> stream list" where
  "stop_feed client feed = map (\<lambda>st. if st_client st = client \<and> st_feed st = feed then st\<lparr>st_open := False\<rparr> else st)"

definition disconnect :: "string \<Rightarrow> stream list \<Rightarrow> stream list" where
  "disconnect client = map (\<lambda>st. if st_client st = client then st\<lparr>st_open := False\<rparr> else st)"

end
