(* ===== verification/FeedRules.thy ===== *)
theory FeedRules
  imports DurableFeed
begin

text \<open>
  The feed over any run of commits, crashes, reopened threads, resets and streams: a stream gets every row after its cursor once and in order, and the rows of a
  thread are the calls that went out, each once.
\<close>

section \<open>The index's rows\<close>

definition opt_list :: "'a option \<Rightarrow> 'a list" where
  "opt_list v = (case v of Some x \<Rightarrow> [x] | None \<Rightarrow> [])"

lemma speech_all_acc:
  "fold (\<lambda>e (i, rows). case speech th e i of (i', r) \<Rightarrow> (i', rows @ (case r of Some x \<Rightarrow> [x] | None \<Rightarrow> []))) es (ix, acc) =
     (case speech_all th es ix of (i, rows) \<Rightarrow> (i, acc @ rows))"
proof (induction es arbitrary: ix acc)
  case Nil
  then show ?case by (simp add: speech_all_def)
next
  case (Cons e es)
  obtain i r where s: "speech th e ix = (i, r)" by fastforce
  show ?case unfolding speech_all_def by (simp add: s Cons) (simp add: speech_all_def split: prod.split)
qed

lemma speech_all_simps [simp]:
  "speech_all th [] ix = (ix, [])"
  "speech_all th (e # es) ix = (case speech th e ix of (i, r) \<Rightarrow> (case speech_all th es i of (i', rows) \<Rightarrow> (i', opt_list r @ rows)))"
proof -
  show "speech_all th [] ix = (ix, [])" by (simp add: speech_all_def)
  obtain i r where s: "speech th e ix = (i, r)" by fastforce
  show "speech_all th (e # es) ix = (case speech th e ix of (i, r) \<Rightarrow> (case speech_all th es i of (i', rows) \<Rightarrow> (i', opt_list r @ rows)))"
    using speech_all_acc[of th es i "opt_list r"] by (simp add: speech_all_def s opt_list_def)
qed

lemma speech_all_append: "speech_all th (es @ fs) ix = (case speech_all th es ix of (i, rows) \<Rightarrow> (case speech_all th fs i of (i', rows') \<Rightarrow> (i', rows @ rows')))"
  by (induction es arbitrary: ix) (auto split: prod.split)

text \<open>Rows come in order of \<open>seq\<close>, and no two have one request.\<close>

definition outbox_ok :: "ThreadIndex \<Rightarrow> bool" where
  "outbox_ok ix \<longleftrightarrow> sorted_wrt (<) (map fr_seq (ti_outbox ix)) \<and> (\<forall>r \<in> set (ti_outbox ix). fr_seq r \<le> ti_seq ix) \<and> distinct (map fr_request (ti_outbox ix)) \<and>
     (\<forall>r \<in> set (ti_outbox ix). fr_request r = request_of (fr_thread r) (fr_call r))"

definition rows_added :: "ThreadIndex \<Rightarrow> FeedRow list \<Rightarrow> ThreadIndex \<Rightarrow> bool" where
  "rows_added ix rows ix' \<longleftrightarrow> ti_outbox ix' = ti_outbox ix @ rows \<and> ti_seq ix \<le> ti_seq ix' \<and> ti_since ix' = ti_since ix \<and>
     (\<forall>r \<in> set rows. ti_seq ix < fr_seq r \<and> fr_seq r \<le> ti_seq ix') \<and> sorted_wrt (<) (map fr_seq rows)"

lemma rows_added_trans: "rows_added ix rows i \<Longrightarrow> rows_added i rows' ix' \<Longrightarrow> rows_added ix (rows @ rows') ix'"
  by (fastforce simp: rows_added_def sorted_wrt_append)

lemma keep_calls_simps [simp]:
  "ti_outbox (keep_calls th e ix) = ti_outbox ix" "ti_seq (keep_calls th e ix) = ti_seq ix" "ti_since (keep_calls th e ix) = ti_since ix" "ti_marks (keep_calls th e ix) = ti_marks ix"
  by (simp_all add: keep_calls_def)

lemma feed_row_simps [simp]:
  "fr_seq (feed_row n th i c a) = n" "fr_request (feed_row n th i c a) = request_of th i" "fr_thread (feed_row n th i c a) = th" "fr_call (feed_row n th i c a) = i"
  by (simp_all add: feed_row_def split: prod.split)

lemma speech_rows:
  assumes "speech th e ix = (ix', r)"
  shows "rows_added ix (opt_list r) ix' \<and> ti_marks ix' = ti_marks ix \<and> (outbox_ok ix \<longrightarrow> outbox_ok ix')"
  using assms
  by (auto simp: speech_def Let_def rows_added_def opt_list_def outbox_ok_def sorted_wrt_append less_Suc_eq_le le_SucI split: option.splits if_splits prod.splits)

lemma speech_all_rows:
  assumes "speech_all th es ix = (ix', rows)"
  shows "rows_added ix rows ix' \<and> ti_marks ix' = ti_marks ix \<and> (outbox_ok ix \<longrightarrow> outbox_ok ix')"
  using assms
proof (induction es arbitrary: ix rows)
  case Nil
  then show ?case by (simp add: rows_added_def)
next
  case (Cons e es)
  obtain i r where s: "speech th e ix = (i, r)" by fastforce
  obtain rows' where a: "speech_all th es i = (ix', rows')" "rows = opt_list r @ rows'" using Cons.prems s by (auto split: prod.splits)
  show ?case using speech_rows[OF s] Cons.IH[OF a(1)] by (auto simp: a(2) intro: rows_added_trans)
qed

lemma index_cong:
  assumes "ti_outbox i = ti_outbox ix'" and "ti_seq i = ti_seq ix'" and "ti_since i = ti_since ix'"
  shows "rows_added ix rows i = rows_added ix rows ix'" "outbox_ok i = outbox_ok ix'"
  using assms by (simp_all add: rows_added_def outbox_ok_def)

lemma addEntries_rows:
  assumes "addEntries th es us ix = (ix', rows)" and "outbox_ok ix"
  shows "rows_added ix rows ix' \<and> outbox_ok ix'"
proof (cases "filter (\<lambda>e. indexedEntry ix th < ie_id e) es = [] \<and> filter (\<lambda>n. indexedEntry ix th < n) us = []")
  case True
  then show ?thesis using assms unfolding addEntries_def Let_def by (simp add: rows_added_def)
next
  case False
  then obtain i where i: "speech_all th (sort_key ie_id (filter (\<lambda>e. indexedEntry ix th < ie_id e) es)) ix = (i, rows)"
      and c: "ti_outbox i = ti_outbox ix'" "ti_seq i = ti_seq ix'" "ti_since i = ti_since ix'"
    using assms(1) unfolding addEntries_def Let_def by (auto split: prod.splits if_splits)
  from speech_all_rows[OF i] assms(2) show ?thesis unfolding index_cong[OF c] by blast
qed

section \<open>Streams\<close>

definition rows_after :: "nat \<Rightarrow> FeedRow list \<Rightarrow> FeedRow list" where
  "rows_after n = filter (\<lambda>r. n < fr_seq r)"

text \<open>A stream that is open has written the rows after its cursor; one that ended wrote the first of them.\<close>

definition stream_ok :: "ThreadIndex \<Rightarrow> stream \<Rightarrow> bool" where
  "stream_ok ix st \<longleftrightarrow>
     (if st_open st then
        st_out st = rows_after (st_after st) (ti_outbox ix) \<and> (\<forall>r \<in> set (ti_outbox ix). fr_seq r \<le> st_last st) \<and> st_after st \<le> st_last st \<and>
        st_last st \<le> max (st_after st) (ti_seq ix)
      else prefix (st_out st) (rows_after (st_after st) (ti_outbox ix)))"


lemma write_sorted:
  assumes "sorted_wrt (<) (map fr_seq rows)"
  shows "fold write_row rows (m, out) = (if rows_after m rows = [] then m else fr_seq (last (rows_after m rows)), out @ rows_after m rows)"
  using assms
proof (induction rows arbitrary: m out)
  case (Cons r rows)
  show ?case
  proof (cases "fr_seq r \<le> m")
    case True
    then show ?thesis using Cons by (simp add: write_row_def rows_after_def)
  next
    case False
    have "rows_after (fr_seq r) rows = rows" using Cons.prems by (auto simp: rows_after_def filter_id_conv)
    moreover have "rows_after m rows = rows" using Cons.prems False by (auto simp: rows_after_def filter_id_conv)
    ultimately show ?thesis using Cons False by (simp add: write_row_def) (simp add: rows_after_def)
  qed
qed (simp add: rows_after_def)

lemma rows_after_simps [simp]: "rows_after n [] = []" "rows_after n (xs @ ys) = rows_after n xs @ rows_after n ys"
  by (simp_all add: rows_after_def)

lemma rows_after_more: "m \<le> n \<Longrightarrow> rows_after n (rows_after m xs) = rows_after n xs"
  by (auto simp: rows_after_def intro: filter_cong)

lemma rows_after_split:
  assumes "sorted_wrt (<) (map fr_seq (ps @ qs))" and "ps \<noteq> []"
  shows "rows_after (fr_seq (last ps)) (ps @ qs) = qs"
proof -
  obtain us p where ps: "ps = us @ [p]" using assms(2) by (cases ps rule: rev_cases) auto
  have "rows_after (fr_seq p) us = []" "rows_after (fr_seq p) qs = qs"
    using assms(1) by (auto simp: ps rows_after_def filter_empty_conv filter_id_conv sorted_wrt_append)
  then show ?thesis by (simp add: ps rows_after_def)
qed

lemma write_page:
  assumes "sorted_wrt (<) (map fr_seq xs)"
  shows "fold write_row xs (fold write_row (take k (rows_after m xs)) (m, out)) = fold write_row xs (m, out)"
proof -
  define ps qs where "ps = take k (rows_after m xs)" and "qs = drop k (rows_after m xs)"
  have pq: "rows_after m xs = ps @ qs" by (simp add: ps_def qs_def)
  have s: "sorted_wrt (<) (map fr_seq (ps @ qs))"
    using assms sorted_wrt_filter[of "\<lambda>x y. fr_seq x < fr_seq y" xs "\<lambda>r. m < fr_seq r"] unfolding pq[symmetric] rows_after_def by (simp add: sorted_wrt_map)
  have sp: "sorted_wrt (<) (map fr_seq ps)" using s by (simp add: sorted_wrt_append)
  have mp: "rows_after m ps = ps" 
    unfolding ps_def rows_after_def by (auto simp: filter_id_conv dest: in_set_takeD)
  show ?thesis
  proof (cases "ps = []")
    case True
    then show ?thesis by (simp add: ps_def[symmetric])
  next
    case False
    have "m \<le> fr_seq (last ps)" using last_in_set[OF False] mp by (auto simp: rows_after_def filter_id_conv)
    then have "rows_after (fr_seq (last ps)) xs = qs" using rows_after_more[of m "fr_seq (last ps)" xs] rows_after_split[OF s False] pq by simp
    moreover have "take k (rows_after m xs) = ps" by (simp add: ps_def)
    ultimately show ?thesis using False mp pq by (simp only: write_sorted[OF sp] write_sorted[OF assms]) simp
  qed
qed

lemma write_pages_all: "sorted_wrt (<) (map fr_seq (ti_outbox ix)) \<Longrightarrow> write_pages ix s = fold write_row (ti_outbox ix) s"
proof (induction ix s rule: write_pages.induct)
  case (1 ix s)
  obtain m out where s: "s = (m, out)" by (cases s)
  let ?rest = "rows_after m (ti_outbox ix)" and ?s = "fold write_row (take PAGE (rows_after m (ti_outbox ix))) (m, out)"
  have r: "readOutbox ix m PAGE = (take PAGE ?rest, PAGE < length ?rest)" by (simp add: readOutbox_def Let_def rows_after_def)
  show ?case
  proof (cases "PAGE < length ?rest")
    case True
    have "write_pages ix ?s = fold write_row (ti_outbox ix) ?s"
      using 1(1)[of "take PAGE ?rest" True ?s] r True s 1(2) by simp
    then show ?thesis using write_page[OF 1(2), of PAGE m out] True by (subst write_pages.simps) (simp add: s r)
  next
    case False
    have sr: "sorted_wrt (<) (map fr_seq ?rest)"
      using 1(2) sorted_wrt_filter[of "\<lambda>x y. fr_seq x < fr_seq y" "ti_outbox ix" "\<lambda>r. m < fr_seq r"] by (simp add: sorted_wrt_map rows_after_def)
    have "take PAGE ?rest = ?rest" using False by simp
    then show ?thesis using False by (subst write_pages.simps) (simp add: s r write_sorted[OF sr] write_sorted[OF 1(2)] rows_after_more)
  qed
qed

lemma open_feed_ok:
  assumes "outbox_ok ix"
  shows "stream_ok ix (open_feed ix client feed after)"
proof -
  have so: "sorted_wrt (<) (map fr_seq (ti_outbox ix))" using assms by (simp add: outbox_ok_def)
  obtain l out where w: "fold write_row (ti_outbox ix) (after, []) = (l, out)" by fastforce
  have "out = rows_after after (ti_outbox ix)" "l = (if out = [] then after else fr_seq (last out))" using w by (auto simp: write_sorted[OF so])
  moreover have "after \<le> l \<and> (\<forall>r \<in> set (ti_outbox ix). fr_seq r \<le> l)" using write_rows_last[of after "ti_outbox ix" "[]"] w by simp
  moreover have "out \<noteq> [] \<Longrightarrow> fr_seq (last out) \<le> ti_seq ix"
    using calculation(1) last_in_set[of out] assms by (auto simp: outbox_ok_def rows_after_def)
  ultimately show ?thesis by (auto simp: open_feed_def write_pages_all[OF so] w stream_ok_def)
qed

lemma hear_ok:
  assumes "rows_added ix rows ix'" and "stream_ok ix st"
  shows "stream_ok ix' (hear rows st)"
proof (cases "st_open st")
  case False
  then show ?thesis using assms by (auto simp: stream_ok_def hear_def rows_added_def intro: prefix_order.trans)
next
  case True
  have sr: "sorted_wrt (<) (map fr_seq rows)" and new: "\<forall>r \<in> set rows. ti_seq ix < fr_seq r \<and> fr_seq r \<le> ti_seq ix'" and le: "ti_seq ix \<le> ti_seq ix'"
    and ob: "ti_outbox ix' = ti_outbox ix @ rows" using assms(1) by (auto simp: rows_added_def)
  have st: "st_after st \<le> st_last st" "st_last st \<le> max (st_after st) (ti_seq ix)" "st_out st = rows_after (st_after st) (ti_outbox ix)"
    "\<forall>r \<in> set (ti_outbox ix). fr_seq r \<le> st_last st" using assms(2) True by (auto simp: stream_ok_def)
  have same: "rows_after (st_last st) rows = rows_after (st_after st) rows"
    unfolding rows_after_def by (rule filter_cong[OF refl]) (use new st in auto)
  obtain l out where w: "fold write_row rows (st_last st, st_out st) = (l, out)" by fastforce
  have wl: "st_last st \<le> l \<and> (\<forall>r \<in> set rows. fr_seq r \<le> l)" using write_rows_last[of "st_last st" rows "st_out st"] w by simp
  have out: "out = st_out st @ rows_after (st_after st) rows" "l = st_last st \<or> l \<in> fr_seq ` set rows"
    using w same last_in_set[of "rows_after (st_last st) rows"] by (auto simp: write_sorted[OF sr] rows_after_def split: if_splits)
  have "l \<le> max (st_after st) (ti_seq ix')" using out(2) new le st(2) by auto
  then have "hear rows st = st\<lparr>st_last := l, st_out := out\<rparr>" "l \<le> max (st_after st) (ti_seq ix')" using True w by (simp_all add: hear_def)
  then show ?thesis using True wl out(1) st le by (auto simp: stream_ok_def ob)
qed

section \<open>Calls and rows of a thread\<close>

definition call_ids :: "IndexedEntry \<Rightarrow> string set" where
  "call_ids e = sp_id ` set (ie_calls e)"

definition result_ids :: "IndexedEntry \<Rightarrow> string set" where
  "result_ids e = set_option (map_option fst (ie_result e))"

definition calls_in :: "IndexedEntry list \<Rightarrow> string set" where
  "calls_in es = (\<Union>e \<in> set es. call_ids e)"

definition results_in :: "IndexedEntry list \<Rightarrow> string set" where
  "results_in es = (\<Union>e \<in> set es. result_ids e)"

lemma calls_in_simps [simp]: "calls_in [] = {}" "calls_in (e # es) = call_ids e \<union> calls_in es" "calls_in (es @ fs) = calls_in es \<union> calls_in fs"
  by (auto simp: calls_in_def)

lemma results_in_simps [simp]: "results_in [] = {}" "results_in (e # es) = result_ids e \<union> results_in es" "results_in (es @ fs) = results_in es \<union> results_in fs"
  by (auto simp: results_in_def)

text \<open>What pi-durable writes: a call once, and its result once and after it.\<close>

fun speech_log_ok :: "IndexedEntry list \<Rightarrow> bool" where
  "speech_log_ok [] = True"
| "speech_log_ok (e # es) \<longleftrightarrow> call_ids e \<inter> calls_in es = {} \<and> result_ids e \<inter> (calls_in (e # es) \<union> results_in es) = {} \<and> speech_log_ok es"

lemma log_ok_append: "speech_log_ok (xs @ ys) \<longleftrightarrow> speech_log_ok xs \<and> speech_log_ok ys \<and> calls_in xs \<inter> calls_in ys = {} \<and> results_in xs \<inter> (calls_in ys \<union> results_in ys) = {}"
  by (induction xs) auto

text \<open>The calls that went out: sent, in time, and with a message.\<close>

definition spoken :: "int \<Rightarrow> IndexedEntry list \<Rightarrow> string set" where
  "spoken since es = {i. i \<in> calls_in es \<and> (\<exists>e \<in> set es. ie_result e = Some (i, True) \<and> since \<le> ie_at e)}"

definition waits :: "ThreadIndex \<Rightarrow> string \<Rightarrow> string set" where
  "waits ix th = dom (ti_calls ix th)"

definition rows_of :: "ThreadIndex \<Rightarrow> string \<Rightarrow> string set" where
  "rows_of ix th = fr_call ` {r \<in> set (ti_outbox ix). fr_thread r = th}"

definition plain_thread :: "string \<Rightarrow> bool" where
  "plain_thread th \<longleftrightarrow> CHR '':'' \<notin> set th"

definition threads_plain :: "ThreadIndex \<Rightarrow> bool" where
  "threads_plain ix \<longleftrightarrow> (\<forall>r \<in> set (ti_outbox ix). plain_thread (fr_thread r))"

lemma colon_split: "CHR '':'' \<notin> set a \<Longrightarrow> CHR '':'' \<notin> set b \<Longrightarrow> a @ CHR '':'' # c = b @ CHR '':'' # d \<longleftrightarrow> a = b \<and> c = d"
  by (induction a arbitrary: b) (case_tac b; auto)+

lemma request_inj: "plain_thread a \<Longrightarrow> plain_thread b \<Longrightarrow> request_of a c = request_of b d \<longleftrightarrow> a = b \<and> c = d"
  by (simp add: request_of_def plain_thread_def colon_split)

lemma dom_keep: "dom (fold (\<lambda>c m. m(f c \<mapsto> g c)) cs m) = dom m \<union> f ` set cs"
  by (induction cs arbitrary: m) auto

lemma waits_keep: "waits (keep_calls th e ix) t = (if t = th then waits ix th \<union> call_ids e else waits ix t)"
  by (simp add: waits_def keep_calls_def dom_keep call_ids_def)

definition row_for :: "int \<Rightarrow> string set \<Rightarrow> IndexedEntry \<Rightarrow> string set" where
  "row_for since w e = (case ie_result e of Some (i, True) \<Rightarrow> if i \<in> w \<union> call_ids e \<and> since \<le> ie_at e then {i} else {} | _ \<Rightarrow> {})"

lemma rows_of_add: "ti_outbox ix' = ti_outbox ix @ [row] \<Longrightarrow> rows_of ix' t = rows_of ix t \<union> (if fr_thread row = t then {fr_call row} else {})"
  by (auto simp: rows_of_def)

lemma speech_thread:
  assumes "speech th e ix = (ix', r)" and "outbox_ok ix" and "threads_plain ix" and "plain_thread th"
  shows "waits ix' t = (if t = th then waits ix th \<union> call_ids e - result_ids e else waits ix t)"
    and "rows_of ix' t = (if t = th then rows_of ix th \<union> row_for (ti_since ix) (waits ix th) e else rows_of ix t)"
    and "threads_plain ix'"
proof -
  let ?k = "keep_calls th e ix"
  have ob: "rows_of ?k t = rows_of ix t" "threads_plain ?k = threads_plain ix" by (simp_all add: rows_of_def threads_plain_def)
  have "waits ix' t = (if t = th then waits ix th \<union> call_ids e - result_ids e else waits ix t) \<and>
    rows_of ix' t = (if t = th then rows_of ix th \<union> row_for (ti_since ix) (waits ix th) e else rows_of ix t) \<and> threads_plain ix'"
  proof (cases "ie_result e")
    case None
    then have "ix' = ?k" using assms(1) by (simp add: speech_def Let_def)
    then show ?thesis using None ob assms(3) by (simp add: waits_keep result_ids_def row_for_def)
  next
    case (Some p)
    obtain i sent where p: "p = (i, sent)" by (cases p)
    have ri: "result_ids e = {i}" using Some p by (simp add: result_ids_def)
    have "i \<in> waits ?k th \<longleftrightarrow> ti_calls ?k th i \<noteq> None" by (auto simp: waits_def dom_def)
    then have w: "i \<in> waits ix th \<union> call_ids e \<longleftrightarrow> ti_calls ?k th i \<noteq> None" by (simp add: waits_keep)
    show ?thesis
    proof (cases "ti_calls ?k th i")
      case None
      then have "ix' = ?k" using assms(1) Some p by (simp add: speech_def Let_def)
      moreover have "i \<notin> waits ix th \<union> call_ids e" using w None by simp
      ultimately show ?thesis using Some p ob assms(3) ri by (auto simp: waits_keep row_for_def split: bool.split)
    next
      case (Some call)
      let ?row = "feed_row (Suc (ti_seq ?k)) th i call (ie_at e)"
      let ?new = "sent \<and> ti_since ix \<le> ie_at e \<and> request_of th i \<notin> fr_request ` set (ti_outbox ix)"
      have s: "ix' = (if ?new then ?k\<lparr>ti_calls := (ti_calls ?k)(th := (ti_calls ?k th)(i := None)), ti_outbox := ti_outbox ix @ [?row], ti_seq := Suc (ti_seq ix)\<rparr>
          else ?k\<lparr>ti_calls := (ti_calls ?k)(th := (ti_calls ?k th)(i := None))\<rparr>)"
        using assms(1) \<open>ie_result e = Some p\<close> p Some by (auto simp: speech_def Let_def)
      have waits: "waits ix' t = (if t = th then waits ix th \<union> call_ids e - result_ids e else waits ix t)"
      proof -
        have "waits ix' t = waits ?k t - (if t = th then {i} else {})" unfolding s waits_def by (auto split: if_splits)
        then show ?thesis using ri by (auto simp: waits_keep)
      qed
      have old: "i \<in> rows_of ix th" if "request_of th i \<in> fr_request ` set (ti_outbox ix)"
        using that assms(2-4) by (auto simp: outbox_ok_def threads_plain_def rows_of_def request_inj)
      have rf: "row_for (ti_since ix) (waits ix th) e = (if sent \<and> ti_since ix \<le> ie_at e then {i} else {})"
        using \<open>ie_result e = Some p\<close> p w Some by (auto simp: row_for_def split: bool.split)
      have "rows_of ix' t = (if t = th then rows_of ix th \<union> row_for (ti_since ix) (waits ix th) e else rows_of ix t)"
      proof (cases ?new)
        case True
        then have "ti_outbox ix' = ti_outbox ix @ [?row]" by (simp add: s)
        then show ?thesis using True by (simp add: rows_of_add rf)
      next
        case False
        then have "ti_outbox ix' = ti_outbox ix" unfolding s by (simp only: if_False) simp
        then have "rows_of ix' t = rows_of ix t" by (simp add: rows_of_def)
        then show ?thesis using False old unfolding rf by auto
      qed
      moreover have "threads_plain ix'" using assms(3,4) by (auto simp: s threads_plain_def)
      ultimately show ?thesis using waits by blast
    qed
  qed
  then show "waits ix' t = (if t = th then waits ix th \<union> call_ids e - result_ids e else waits ix t)"
    "rows_of ix' t = (if t = th then rows_of ix th \<union> row_for (ti_since ix) (waits ix th) e else rows_of ix t)" "threads_plain ix'" by auto
qed


section \<open>The calls that wait and the rows, over a log\<close>

text \<open>What an entry does to the calls that wait in its thread and the calls with a row.\<close>

definition absorb :: "int \<Rightarrow> IndexedEntry \<Rightarrow> string set \<times> string set \<Rightarrow> string set \<times> string set" where
  "absorb since e wr = (fst wr \<union> call_ids e - result_ids e, snd wr \<union> row_for since (fst wr) e)"

definition open_calls :: "IndexedEntry list \<Rightarrow> string set" where
  "open_calls es = calls_in es - results_in es"

lemma result_in: "ie_result e = Some (i, b) \<Longrightarrow> e \<in> set es \<Longrightarrow> i \<in> results_in es"
  by (force simp: results_in_def result_ids_def)

lemma spoken_results: "i \<in> spoken since es \<Longrightarrow> i \<in> results_in es"
  by (auto simp: spoken_def intro: result_in)

lemma absorb_next:
  assumes "speech_log_ok (es @ [e])"
  shows "absorb since e (open_calls es, spoken since es) = (open_calls (es @ [e]), spoken since (es @ [e]))"
proof -
  have ok: "call_ids e \<inter> calls_in es = {}" "results_in es \<inter> (call_ids e \<union> result_ids e) = {}" "result_ids e \<inter> call_ids e = {}"
    using assms by (auto simp: log_ok_append)
  have "row_for since (open_calls es) e = {i. i \<in> calls_in es \<and> ie_result e = Some (i, True) \<and> since \<le> ie_at e}"
    using ok by (auto simp: row_for_def open_calls_def result_ids_def split: option.splits prod.splits bool.splits)
  moreover have "spoken since (es @ [e]) = spoken since es \<union> {i. i \<in> calls_in es \<and> ie_result e = Some (i, True) \<and> since \<le> ie_at e}"
    using ok result_in by (fastforce simp: spoken_def result_ids_def)
  moreover have "open_calls es \<union> call_ids e - result_ids e = open_calls (es @ [e])" using ok by (auto simp: open_calls_def)
  ultimately show ?thesis by (simp add: absorb_def)
qed

lemma absorb_more: "speech_log_ok (es @ fs) \<Longrightarrow> fold (absorb since) fs (open_calls es, spoken since es) = (open_calls (es @ fs), spoken since (es @ fs))"
proof (induction fs arbitrary: es)
  case (Cons f fs)
  have "speech_log_ok ((es @ [f]) @ fs)" using Cons.prems by simp
  then have "speech_log_ok (es @ [f])" by (simp only: log_ok_append[of "es @ [f]" fs])
  then show ?case using Cons.IH[of "es @ [f]"] Cons.prems by (simp add: absorb_next)
qed simp

text \<open>Entries that are read again change nothing.\<close>

lemma absorb_again:
  assumes "speech_log_ok (as @ bs @ cs)"
  shows "fold (absorb since) bs (open_calls (as @ bs @ cs), spoken since (as @ bs @ cs)) =
    (open_calls (as @ bs @ cs) \<union> (calls_in bs - results_in bs), spoken since (as @ bs @ cs))"
  using assms
proof (induction bs arbitrary: cs rule: rev_induct)
  case (snoc b bs)
  let ?p = "as @ (bs @ [b]) @ cs"
  have ok: "result_ids b \<inter> call_ids b = {}" "results_in bs \<inter> call_ids b = {}" using snoc.prems by (auto simp: log_ok_append)
  have "row_for since (open_calls ?p \<union> (calls_in bs - results_in bs)) b \<subseteq> spoken since ?p"
    by (auto simp: row_for_def spoken_def open_calls_def split: option.splits bool.splits if_splits)
  moreover have "open_calls ?p \<union> (calls_in bs - results_in bs) \<union> call_ids b - result_ids b = open_calls ?p \<union> (calls_in (bs @ [b]) - results_in (bs @ [b]))"
    using ok by (auto simp: open_calls_def)
  ultimately have "absorb since b (open_calls ?p \<union> (calls_in bs - results_in bs), spoken since ?p) =
      (open_calls ?p \<union> (calls_in (bs @ [b]) - results_in (bs @ [b])), spoken since ?p)"
    unfolding absorb_def by auto
  then show ?case using snoc.IH[of "b # cs"] snoc.prems by simp
qed simp

lemma absorb_reread:
  assumes "speech_log_ok (as @ bs @ cs)"
  shows "fold (absorb since) (bs @ cs) (open_calls (as @ bs), spoken since (as @ bs)) = (open_calls (as @ bs @ cs), spoken since (as @ bs @ cs))"
proof -
  have ok: "speech_log_ok (as @ bs @ [])" "results_in as \<inter> calls_in bs = {}" using assms by (auto simp: log_ok_append)
  have "open_calls (as @ bs) \<union> (calls_in bs - results_in bs) = open_calls (as @ bs)" using ok(2) by (auto simp: open_calls_def)
  then have "fold (absorb since) bs (open_calls (as @ bs), spoken since (as @ bs)) = (open_calls (as @ bs), spoken since (as @ bs))"
    using absorb_again[OF ok(1)] by simp
  then show ?thesis using absorb_more[of "as @ bs" cs since] assms by simp
qed

lemma speech_all_thread:
  assumes "speech_all th es ix = (ix', rows)" and "outbox_ok ix" and "threads_plain ix" and "plain_thread th"
  shows "(waits ix' t, rows_of ix' t) = (if t = th then fold (absorb (ti_since ix)) es (waits ix th, rows_of ix th) else (waits ix t, rows_of ix t)) \<and> threads_plain ix'"
  using assms(1-3)
proof (induction es arbitrary: ix rows)
  case (Cons e es)
  obtain i r where s: "speech th e ix = (i, r)" by fastforce
  obtain rows' where a: "speech_all th es i = (ix', rows')" using Cons.prems(1) s by (auto split: prod.splits)
  note st = speech_thread[OF s Cons.prems(2,3) assms(4)] and sr = speech_rows[OF s]
  have "ti_since i = ti_since ix" "outbox_ok i" using sr Cons.prems(2) by (auto simp: rows_added_def)
  then show ?case using Cons.IH[OF a _ st(3)] st(1,2) by (auto simp: absorb_def)
qed simp

end
