(* ===== verification/FeedRuns.thy ===== *)
theory FeedRuns
  imports FeedRules Prelude
begin

text \<open>
  pi-host's durable threads and their feed as one machine: threads that open, commit, close and lose their process, the marks that start over, and the streams.
  The \<open>fails\<close> runs have index writes that \<open>onCommit\<close> logs and drops.
\<close>

section \<open>The machine\<close>

text \<open>\<open>fs_log\<close> and \<open>fs_usage\<close>: what a thread's file holds, its described entries in order and the entries of its usage rows.\<close>

record feed_state =
  fs_log :: "string \<Rightarrow> IndexedEntry list"
  fs_usage :: "string \<Rightarrow> nat list"
  fs_index :: ThreadIndex
  fs_open :: "string set"
  fs_streams :: "stream list"

definition index_write :: "string \<Rightarrow> IndexedEntry list \<Rightarrow> nat list \<Rightarrow> feed_state \<Rightarrow> feed_state" where
  "index_write th es us s = (case addEntries th es us (fs_index s) of (ix, rows) \<Rightarrow> s\<lparr>fs_index := ix, fs_streams := map (hear rows) (fs_streams s)\<rparr>)"

definition committed :: "string \<Rightarrow> IndexedEntry list \<Rightarrow> nat list \<Rightarrow> feed_state \<Rightarrow> feed_state" where
  "committed th es us s = s\<lparr>fs_log := (fs_log s)(th := fs_log s th @ es), fs_usage := (fs_usage s)(th := fs_usage s th @ us)\<rparr>"

text \<open>\<open>onCommit\<close> and \<open>backfill\<close> of \<open>threads.ts\<close>, as far as they write the outbox.\<close>

definition onCommit :: "string \<Rightarrow> IndexedEntry list \<Rightarrow> nat list \<Rightarrow> feed_state \<Rightarrow> feed_state" where
  "onCommit th es us s = (if es = [] \<and> us = [] then s else index_write th es us s)"

definition backfill :: "string \<Rightarrow> feed_state \<Rightarrow> feed_state" where
  "backfill th s =
     (let mark = indexedEntry (fs_index s) th in
      index_write th (filter (\<lambda>e. mark < ie_id e) (fs_log s th)) (filter (\<lambda>n. mark < n) (fs_usage s th)) s)"

definition host_stop :: "feed_state \<Rightarrow> feed_state" where
  "host_stop s = s\<lparr>fs_open := {}, fs_streams := map (\<lambda>st. st\<lparr>st_open := False\<rparr>) (fs_streams s)\<rparr>"

definition top_id :: "feed_state \<Rightarrow> string \<Rightarrow> nat" where
  "top_id s th = Max (insert 0 (set (map ie_id (fs_log s th) @ fs_usage s th)))"

text \<open>What a commit of pi-durable may hold: new entries above the old ones, a call once, its result once and after it.\<close>

definition commit_ok :: "feed_state \<Rightarrow> string \<Rightarrow> IndexedEntry list \<Rightarrow> nat list \<Rightarrow> bool" where
  "commit_ok s th es us \<longleftrightarrow> th \<in> fs_open s \<and> sorted_wrt (<) (map ie_id es) \<and> (\<forall>n \<in> set (map ie_id es @ us). top_id s th < n) \<and> speech_log_ok (fs_log s th @ es)"

inductive feed_step :: "bool \<Rightarrow> feed_state \<Rightarrow> feed_state \<Rightarrow> bool" for fails where
  new_thread: "plain_thread th \<Longrightarrow> ti_marks (fs_index s) th = None \<Longrightarrow>
    feed_step fails s (s\<lparr>fs_index := fs_index s\<lparr>ti_marks := (ti_marks (fs_index s))(th \<mapsto> 0)\<rparr>\<rparr>)"
| commit: "commit_ok s th es us \<Longrightarrow> feed_step fails s (onCommit th es us (committed th es us s))"
| commit_failed: "fails \<Longrightarrow> commit_ok s th es us \<Longrightarrow> feed_step fails s (committed th es us s)"
| commit_crash: "commit_ok s th es us \<Longrightarrow> feed_step fails s (host_stop (committed th es us s))"
| open_thread: "ti_marks (fs_index s) th \<noteq> None \<Longrightarrow> feed_step fails s ((backfill th s)\<lparr>fs_open := insert th (fs_open s)\<rparr>)"
| close_thread: "feed_step fails s (s\<lparr>fs_open := fs_open s - {th}\<rparr>)"
| restart: "feed_step fails s (host_stop s)"
| rebuild: "feed_step fails s ((host_stop s)\<lparr>fs_index := fs_index s\<lparr>ti_marks := map_option (\<lambda>_. 0) \<circ> ti_marks (fs_index s)\<rparr>\<rparr>)"
| reset: "feed_step fails s (s\<lparr>fs_index := resetEntries th (fs_index s)\<rparr>)"
| open_stream: "\<forall>st \<in> set (fs_streams s). st_feed st \<noteq> feed \<Longrightarrow>
    feed_step fails s (s\<lparr>fs_streams := open_feed (fs_index s) client feed after # fs_streams s\<rparr>)"
| stop_stream: "feed_step fails s (s\<lparr>fs_streams := stop_feed client feed (fs_streams s)\<rparr>)"
| drop_client: "feed_step fails s (s\<lparr>fs_streams := disconnect client (fs_streams s)\<rparr>)"

definition feed_start :: "feed_state \<Rightarrow> bool" where
  "feed_start s \<longleftrightarrow> fs_log s = (\<lambda>_. []) \<and> fs_usage s = (\<lambda>_. []) \<and> fs_open s = {} \<and> fs_streams s = [] \<and>
     ti_marks (fs_index s) = Map.empty \<and> ti_calls (fs_index s) = (\<lambda>_. Map.empty) \<and> ti_outbox (fs_index s) = []"

section \<open>What every run keeps\<close>

definition log_inv :: "feed_state \<Rightarrow> bool" where
  "log_inv s \<longleftrightarrow> (\<forall>th. sorted_wrt (<) (map ie_id (fs_log s th)) \<and> speech_log_ok (fs_log s th) \<and> indexedEntry (fs_index s) th \<le> top_id s th \<and>
     (ti_marks (fs_index s) th = None \<longrightarrow> th \<notin> fs_open s) \<and> (ti_marks (fs_index s) th \<noteq> None \<longrightarrow> plain_thread th))"

definition index_inv :: "feed_state \<Rightarrow> bool" where
  "index_inv s \<longleftrightarrow> outbox_ok (fs_index s) \<and> threads_plain (fs_index s) \<and> (\<forall>st \<in> set (fs_streams s). stream_ok (fs_index s) st)"

text \<open>No row is of a call that did not go out.\<close>

definition sound_inv :: "feed_state \<Rightarrow> bool" where
  "sound_inv s \<longleftrightarrow> (\<forall>th. waits (fs_index s) th \<subseteq> calls_in (fs_log s th) \<and> rows_of (fs_index s) th \<subseteq> spoken (ti_since (fs_index s)) (fs_log s th))"

text \<open>The index has read a first part of the thread's entries, and all of them while the thread is open.\<close>

definition read_inv :: "feed_state \<Rightarrow> bool" where
  "read_inv s \<longleftrightarrow> (\<forall>th. \<exists>ps cs. fs_log s th = ps @ cs \<and> waits (fs_index s) th = open_calls ps \<and>
     rows_of (fs_index s) th = spoken (ti_since (fs_index s)) ps \<and> (\<forall>e \<in> set cs. indexedEntry (fs_index s) th < ie_id e) \<and> (th \<in> fs_open s \<longrightarrow> cs = []))"

definition feed_inv :: "bool \<Rightarrow> feed_state \<Rightarrow> bool" where
  "feed_inv fails s \<longleftrightarrow> log_inv s \<and> index_inv s \<and> sound_inv s \<and> (fails \<or> read_inv s)"

lemma sort_key_sorted: "sorted (map f xs) \<Longrightarrow> sort_key f xs = xs"
  by (induction xs) (auto intro: insort_is_Cons)

lemma addEntries_thread:
  assumes "addEntries th es us ix = (ix', rows)" and "outbox_ok ix" and "threads_plain ix" and "plain_thread th" and m: "ti_marks ix th = Some m"
    and "sorted_wrt (<) (map ie_id es)"
  shows "(waits ix' t, rows_of ix' t) =
      (if t = th then fold (absorb (ti_since ix)) (filter (\<lambda>e. m < ie_id e) es) (waits ix th, rows_of ix th) else (waits ix t, rows_of ix t))"
    and "threads_plain ix'"
    and "ti_marks ix' = (ti_marks ix)(th \<mapsto> Max (insert m (set (map ie_id (filter (\<lambda>e. m < ie_id e) es) @ filter (\<lambda>n. m < n) us))))"
proof -
  let ?f = "filter (\<lambda>e. m < ie_id e) es" and ?u = "filter (\<lambda>n. m < n) us"
  have i: "indexedEntry ix th = m" using m by (simp add: indexedEntry_def)
  have "sorted (map ie_id ?f)" using assms(6) by (auto simp: sorted_map intro: sorted_wrt_filter sorted_wrt_mono_rel[rotated] simp: sorted_wrt_map)
  then have sf: "sort_key ie_id ?f = ?f" by (rule sort_key_sorted)
  obtain i0 r0 where s: "speech_all th ?f ix = (i0, r0)" by fastforce
  have al: "?f = [] \<and> ?u = [] \<or> ix' = i0\<lparr>ti_marks := (ti_marks i0)(th := map_option (\<lambda>_. Max (insert m (set (map ie_id ?f @ ?u)))) (ti_marks i0 th))\<rparr>"
    using assms(1) by (auto simp: addEntries_def Let_def i sf s split: if_splits)
  note t = speech_all_thread[OF s assms(2,3,4), of t] and r = speech_all_rows[OF s]
  show "(waits ix' t, rows_of ix' t) = (if t = th then fold (absorb (ti_since ix)) ?f (waits ix th, rows_of ix th) else (waits ix t, rows_of ix t))"
    "threads_plain ix'" "ti_marks ix' = (ti_marks ix)(th \<mapsto> Max (insert m (set (map ie_id ?f @ ?u))))"
  proof -
    consider "?f = []" "?u = []" | "ix' = i0\<lparr>ti_marks := (ti_marks i0)(th := map_option (\<lambda>_. Max (insert m (set (map ie_id ?f @ ?u)))) (ti_marks i0 th))\<rparr>"
      using al by blast
    then have "(waits ix' t, rows_of ix' t) = (if t = th then fold (absorb (ti_since ix)) ?f (waits ix th, rows_of ix th) else (waits ix t, rows_of ix t)) \<and>
      threads_plain ix' \<and> ti_marks ix' = (ti_marks ix)(th \<mapsto> Max (insert m (set (map ie_id ?f @ ?u))))"
    proof cases
      case 1
      then have "ix' = ix" using assms(1) by (simp add: addEntries_def Let_def i)
      then show ?thesis using 1 assms(3) m by (simp add: fun_upd_idem)
    next
      case 2
      have "waits ix' t = waits i0 t" "rows_of ix' t = rows_of i0 t" "threads_plain ix' = threads_plain i0" by (simp_all add: 2 waits_def rows_of_def threads_plain_def)
      then show ?thesis using t r m by (simp add: 2)
    qed
    then show "(waits ix' t, rows_of ix' t) = (if t = th then fold (absorb (ti_since ix)) ?f (waits ix th, rows_of ix th) else (waits ix t, rows_of ix t))"
      "threads_plain ix'" "ti_marks ix' = (ti_marks ix)(th \<mapsto> Max (insert m (set (map ie_id ?f @ ?u))))" by auto
  qed
qed


lemma absorb_sound:
  assumes "set fs \<subseteq> set es" and "w \<subseteq> calls_in es" and "r \<subseteq> spoken since es"
  shows "fst (fold (absorb since) fs (w, r)) \<subseteq> calls_in es \<and> snd (fold (absorb since) fs (w, r)) \<subseteq> spoken since es"
  using assms
proof (induction fs arbitrary: w r)
  case (Cons f fs)
  have f: "f \<in> set es" "call_ids f \<subseteq> calls_in es" using Cons.prems(1) by (auto simp: calls_in_def)
  have "row_for since w f \<subseteq> spoken since es"
    using f Cons.prems(2) by (auto simp: row_for_def spoken_def split: option.splits bool.splits if_splits)
  then have "w \<union> call_ids f - result_ids f \<subseteq> calls_in es" "r \<union> row_for since w f \<subseteq> spoken since es" using f Cons.prems by auto
  then show ?case using Cons.IH Cons.prems(1) by (simp add: absorb_def)
qed simp

lemma top_id_ge: "e \<in> set (fs_log s th) \<Longrightarrow> ie_id e \<le> top_id s th" "n \<in> set (fs_usage s th) \<Longrightarrow> n \<le> top_id s th"
  by (auto simp: top_id_def intro!: Max_ge)

text \<open>A write of entries that the thread's file holds.\<close>

lemma index_write_keeps:
  assumes "log_inv s" and "index_inv s" and "sound_inv s" and m: "ti_marks (fs_index s) th = Some m"
    and fs: "set fs \<subseteq> set (fs_log s th)" "sorted_wrt (<) (map ie_id fs)" "set us \<subseteq> set (fs_usage s th)"
  defines "s' \<equiv> index_write th fs us s"
  shows "log_inv s' \<and> index_inv s' \<and> sound_inv s'"
    and "fs_log s' = fs_log s \<and> fs_open s' = fs_open s \<and> ti_since (fs_index s') = ti_since (fs_index s)"
    and "(waits (fs_index s') t, rows_of (fs_index s') t) =
      (if t = th then fold (absorb (ti_since (fs_index s))) (filter (\<lambda>e. m < ie_id e) fs) (waits (fs_index s) th, rows_of (fs_index s) th)
       else (waits (fs_index s) t, rows_of (fs_index s) t))"
    and "indexedEntry (fs_index s') t = (if t = th then Max (insert m (set (map ie_id (filter (\<lambda>e. m < ie_id e) fs) @ filter (\<lambda>n. m < n) us))) else indexedEntry (fs_index s) t)"
proof -
  obtain ix' rows where a: "addEntries th fs us (fs_index s) = (ix', rows)" by fastforce
  have s': "s' = s\<lparr>fs_index := ix', fs_streams := map (hear rows) (fs_streams s)\<rparr>" by (simp add: s'_def index_write_def a)
  have ii: "outbox_ok (fs_index s)" "threads_plain (fs_index s)" "plain_thread th" using assms(1,2) m by (auto simp: index_inv_def log_inv_def)
  note at = addEntries_thread[OF a ii m fs(2)] and ar = addEntries_rows[OF a ii(1)]
  show keep: "fs_log s' = fs_log s \<and> fs_open s' = fs_open s \<and> ti_since (fs_index s') = ti_since (fs_index s)" using ar by (simp add: s' rows_added_def)
  show wr: "(waits (fs_index s') t, rows_of (fs_index s') t) =
      (if t = th then fold (absorb (ti_since (fs_index s))) (filter (\<lambda>e. m < ie_id e) fs) (waits (fs_index s) th, rows_of (fs_index s) th)
       else (waits (fs_index s) t, rows_of (fs_index s) t))" for t using at(1)[of t] by (simp add: s')
  show mark: "indexedEntry (fs_index s') t =
      (if t = th then Max (insert m (set (map ie_id (filter (\<lambda>e. m < ie_id e) fs) @ filter (\<lambda>n. m < n) us))) else indexedEntry (fs_index s) t)" for t
    by (simp add: s' at(3) indexedEntry_def)
  have im: "indexedEntry (fs_index s) th = m" using m by (simp add: indexedEntry_def)
  then have "m \<le> top_id s th" using assms(1) by (auto simp: log_inv_def)
  moreover have "n \<le> top_id s th" if "n \<in> set (map ie_id (filter (\<lambda>e. m < ie_id e) fs) @ filter (\<lambda>n. m < n) us)" for n
    using that fs(1,3) by (auto intro: top_id_ge)
  ultimately have top: "indexedEntry (fs_index s') th \<le> top_id s th" by (simp add: mark)
  have "top_id s' t = top_id s t" for t by (simp add: s' top_id_def)
  then have "indexedEntry (fs_index s') t \<le> top_id s' t" for t
    using top mark[of t] assms(1) by (cases "t = th") (simp_all add: log_inv_def)
  then have "log_inv s'" using assms(1) m by (auto simp: log_inv_def s' at(3))
  moreover have "index_inv s'" using assms(2) ar at(2) hear_ok by (auto simp: index_inv_def s')
  moreover have "sound_inv s'"
    unfolding sound_inv_def
  proof
    fix t
    show "waits (fs_index s') t \<subseteq> calls_in (fs_log s' t) \<and> rows_of (fs_index s') t \<subseteq> spoken (ti_since (fs_index s')) (fs_log s' t)"
    proof (cases "t = th")
      case True
      have sub: "set (filter (\<lambda>e. m < ie_id e) fs) \<subseteq> set (fs_log s th)" using fs(1) by auto
      have "waits (fs_index s) th \<subseteq> calls_in (fs_log s th)" "rows_of (fs_index s) th \<subseteq> spoken (ti_since (fs_index s)) (fs_log s th)"
        using assms(3) by (simp_all add: sound_inv_def)
      from absorb_sound[OF sub this] wr[of th, simplified, symmetric] show ?thesis using keep True by simp
    next
      case False
      then show ?thesis using wr[of t] keep assms(3) by (simp add: sound_inv_def)
    qed
  qed
  ultimately show "log_inv s' \<and> index_inv s' \<and> sound_inv s'" by blast
qed


section \<open>Every step keeps them\<close>

lemma spoken_more: "spoken since es \<subseteq> spoken since (es @ fs)"
  by (auto simp: spoken_def)

lemma committed_keeps:
  assumes "log_inv s" and "index_inv s" and "sound_inv s" and c: "commit_ok s th es us"
  shows "log_inv (committed th es us s) \<and> index_inv (committed th es us s) \<and> sound_inv (committed th es us s)"
proof -
  let ?s = "committed th es us s"
  have ix: "fs_index ?s = fs_index s" "fs_open ?s = fs_open s" "fs_streams ?s = fs_streams s" by (simp_all add: committed_def)
  have lg: "fs_log ?s t = (if t = th then fs_log s th @ es else fs_log s t)" for t by (simp add: committed_def)
  have up: "top_id s t \<le> top_id ?s t" for t unfolding top_id_def committed_def by (rule Max_mono) auto
  have below: "ie_id x \<le> top_id s th" if "x \<in> set (fs_log s th)" for x using that by (rule top_id_ge)
  have above: "top_id s th < ie_id y" if "y \<in> set es" for y using that c by (auto simp: commit_ok_def)
  have "sorted_wrt (<) (map ie_id (fs_log ?s t)) \<and> speech_log_ok (fs_log ?s t)" for t
  proof -
    have "\<forall>x \<in> set (fs_log s th). \<forall>y \<in> set es. ie_id x < ie_id y" using below above by (meson le_less_trans)
    then show ?thesis using assms(1) c by (auto simp: lg log_inv_def commit_ok_def sorted_wrt_append)
  qed
  moreover have "indexedEntry (fs_index s) t \<le> top_id ?s t" for t using assms(1) up order_trans unfolding log_inv_def by blast
  ultimately have "log_inv ?s" using assms(1) by (simp add: log_inv_def ix)
  moreover have "index_inv ?s" using assms(2) by (simp add: index_inv_def ix)
  moreover have "calls_in (fs_log s t) \<subseteq> calls_in (fs_log ?s t)" "spoken since (fs_log s t) \<subseteq> spoken since (fs_log ?s t)" for since t
    using spoken_more by (auto simp: lg)
  then have "sound_inv ?s" using assms(3) unfolding sound_inv_def ix by (meson order_trans)
  ultimately show ?thesis by blast
qed

lemma open_mark: "log_inv s \<Longrightarrow> th \<in> fs_open s \<Longrightarrow> \<exists>m. ti_marks (fs_index s) th = Some m"
  by (auto simp: log_inv_def)

lemma commit_keeps:
  assumes inv: "feed_inv fails s" and c: "commit_ok s th es us"
  shows "feed_inv fails (onCommit th es us (committed th es us s))"
proof -
  let ?s = "committed th es us s" and ?t = "index_write th es us (committed th es us s)"
  have k: "log_inv ?s" "index_inv ?s" "sound_inv ?s" using committed_keeps[OF _ _ _ c] inv by (simp_all add: feed_inv_def)
  have ix: "fs_index ?s = fs_index s" "fs_open ?s = fs_open s" by (simp_all add: committed_def)
  have lg: "fs_log ?s t = (if t = th then fs_log s th @ es else fs_log s t)" for t by (simp add: committed_def)
  have op: "th \<in> fs_open s" using c by (simp add: commit_ok_def)
  then obtain m where m: "ti_marks (fs_index s) th = Some m" using inv open_mark by (auto simp: feed_inv_def)
  have fs: "set es \<subseteq> set (fs_log ?s th)" "sorted_wrt (<) (map ie_id es)" "set us \<subseteq> set (fs_usage ?s th)" using c by (auto simp: lg committed_def commit_ok_def)
  note w = index_write_keeps[OF k m[folded ix] fs]
  have "indexedEntry (fs_index s) th = m" using m by (simp add: indexedEntry_def)
  then have "m \<le> top_id s th" using inv by (auto simp: feed_inv_def log_inv_def)
  moreover have "top_id s th < ie_id e" if "e \<in> set es" for e using that c by (auto simp: commit_ok_def)
  ultimately have fresh: "filter (\<lambda>e. m < ie_id e) es = es" by (auto simp: filter_id_conv intro: le_less_trans)
  have "read_inv ?t" if r: "read_inv s"
    unfolding read_inv_def
  proof
    fix t
    obtain ps cs where p: "fs_log s t = ps @ cs" "waits (fs_index s) t = open_calls ps" "rows_of (fs_index s) t = spoken (ti_since (fs_index s)) ps"
        "\<forall>e \<in> set cs. indexedEntry (fs_index s) t < ie_id e" "t \<in> fs_open s \<longrightarrow> cs = []" using r unfolding read_inv_def by metis
    show "\<exists>ps cs. fs_log ?t t = ps @ cs \<and> waits (fs_index ?t) t = open_calls ps \<and> rows_of (fs_index ?t) t = spoken (ti_since (fs_index ?t)) ps \<and>
        (\<forall>e \<in> set cs. indexedEntry (fs_index ?t) t < ie_id e) \<and> (t \<in> fs_open ?t \<longrightarrow> cs = [])"
    proof (cases "t = th")
      case True
      have "cs = []" using p(5) op True by simp
      moreover have "speech_log_ok (fs_log ?s th)" using k(1) unfolding log_inv_def by blast
      ultimately have "speech_log_ok (ps @ es)" using p(1) True lg[of th] by simp
      note absorb_more[OF this, of "ti_since (fs_index s)"]
      then have "waits (fs_index ?t) th = open_calls (ps @ es)" "rows_of (fs_index ?t) th = spoken (ti_since (fs_index s)) (ps @ es)"
        using w(3)[of th] p(2,3) True by (simp_all add: ix fresh)
      then show ?thesis using w(2) p(1) True lg \<open>cs = []\<close> by (intro exI[of _ "ps @ es"] exI[of _ "[]"]) (simp add: ix)
    next
      case False
      then show ?thesis using w(2) w(3)[of t] w(4)[of t] p lg by (intro exI[of _ ps] exI[of _ cs]) (simp add: ix)
    qed
  qed
  then have t: "feed_inv fails ?t" using w(1) inv by (auto simp: feed_inv_def)
  show ?thesis
  proof (cases "es = [] \<and> us = []")
    case True
    then have "onCommit th es us ?s = s" by (simp add: onCommit_def committed_def)
    then show ?thesis using inv by simp
  next
    case False
    then have "onCommit th es us ?s = ?t" unfolding onCommit_def by (simp only: if_False)
    then show ?thesis using t by simp
  qed
qed

lemma filter_sorted: "sorted_wrt (<) (map f xs) \<Longrightarrow> filter (\<lambda>x. (m::nat) < f x) xs = dropWhile (\<lambda>x. f x \<le> m) xs"
proof (induction xs)
  case (Cons x xs)
  show ?case
  proof (cases "f x \<le> m")
    case True
    then show ?thesis using Cons by simp
  next
    case False
    then have "filter (\<lambda>x. m < f x) xs = xs" using Cons.prems by (auto simp: filter_id_conv)
    then show ?thesis using False by simp
  qed
qed simp

lemma backfill_keeps:
  assumes inv: "feed_inv fails s" and "ti_marks (fs_index s) th \<noteq> None"
  shows "feed_inv fails ((backfill th s)\<lparr>fs_open := insert th (fs_open s)\<rparr>)"
proof -
  obtain m where m: "ti_marks (fs_index s) th = Some m" using assms(2) by auto
  have im: "indexedEntry (fs_index s) th = m" using m by (simp add: indexedEntry_def)
  let ?fs = "filter (\<lambda>e. m < ie_id e) (fs_log s th)" and ?us = "filter (\<lambda>n. m < n) (fs_usage s th)"
  let ?t = "index_write th ?fs ?us s" and ?o = "(index_write th ?fs ?us s)\<lparr>fs_open := insert th (fs_open s)\<rparr>"
  have k: "log_inv s" "index_inv s" "sound_inv s" using inv by (simp_all add: feed_inv_def)
  have so: "sorted_wrt (<) (map ie_id (fs_log s th))" "speech_log_ok (fs_log s th)" using k(1) by (simp_all add: log_inv_def)
  have fs: "set ?fs \<subseteq> set (fs_log s th)" "sorted_wrt (<) (map ie_id ?fs)" "set ?us \<subseteq> set (fs_usage s th)"
    using so(1) by (auto simp: sorted_wrt_map intro: sorted_wrt_filter)
  note w = index_write_keeps[OF k m fs]
  have "ti_marks (fs_index ?t) th \<noteq> None"
  proof
    assume "ti_marks (fs_index ?t) th = None"
    moreover obtain ix rows where "addEntries th ?fs ?us (fs_index s) = (ix, rows)" by fastforce
    ultimately show False using addEntries_thread(3)[of th ?fs ?us "fs_index s" ix rows m] m fs(2) k by (simp add: index_write_def index_inv_def log_inv_def)
  qed
  then have l: "log_inv ?o" "index_inv ?o" "sound_inv ?o" using w(1,2) by (auto simp: log_inv_def index_inv_def sound_inv_def top_id_def)
  have "read_inv ?o" if r: "read_inv s"
    unfolding read_inv_def
  proof
    fix t
    obtain ps cs where p: "fs_log s t = ps @ cs" "waits (fs_index s) t = open_calls ps" "rows_of (fs_index s) t = spoken (ti_since (fs_index s)) ps"
        "\<forall>e \<in> set cs. indexedEntry (fs_index s) t < ie_id e" "t \<in> fs_open s \<longrightarrow> cs = []" using r unfolding read_inv_def by metis
    show "\<exists>ps cs. fs_log ?o t = ps @ cs \<and> waits (fs_index ?o) t = open_calls ps \<and> rows_of (fs_index ?o) t = spoken (ti_since (fs_index ?o)) ps \<and>
        (\<forall>e \<in> set cs. indexedEntry (fs_index ?o) t < ie_id e) \<and> (t \<in> fs_open ?o \<longrightarrow> cs = [])"
    proof (cases "t = th")
      case True
      define as bs where "as = takeWhile (\<lambda>e. ie_id e \<le> m) ps" and "bs = dropWhile (\<lambda>e. ie_id e \<le> m) ps"
      have ps: "ps = as @ bs" by (simp add: as_def bs_def)
      have "sorted_wrt (<) (map ie_id ps)" using so(1) p(1) True by (simp add: sorted_wrt_append)
      then have "filter (\<lambda>e. m < ie_id e) ps = bs" by (simp add: filter_sorted bs_def)
      moreover have "filter (\<lambda>e. m < ie_id e) cs = cs" using p(4) im True by (simp add: filter_id_conv)
      ultimately have f: "filter (\<lambda>e. m < ie_id e) ?fs = bs @ cs" using p(1) True by (simp only: filter_filter conj_absorb) simp
      have "speech_log_ok (as @ bs @ cs)" using so(2) p(1) True ps by simp
      note absorb_reread[OF this, of "ti_since (fs_index s)"]
      then have "waits (fs_index ?t) th = open_calls (ps @ cs)" "rows_of (fs_index ?t) th = spoken (ti_since (fs_index s)) (ps @ cs)"
        using w(3)[of th, unfolded f] p(2,3) True ps by simp_all
      then show ?thesis using w(2) p(1) True by (intro exI[of _ "ps @ cs"] exI[of _ "[]"]) simp
    next
      case False
      then show ?thesis using w(2) w(3)[of t] w(4)[of t] p by (intro exI[of _ ps] exI[of _ cs]) simp
    qed
  qed
  then have "feed_inv fails ?o" using l inv by (auto simp: feed_inv_def)
  then show ?thesis by (simp add: backfill_def im)
qed


lemma marks_keep:
  assumes "feed_inv fails s" and "\<And>t. (case M t of Some n \<Rightarrow> n | None \<Rightarrow> 0) \<le> indexedEntry (fs_index s) t"
    and "\<And>t. M t = None \<Longrightarrow> ti_marks (fs_index s) t = None" and "\<And>t. M t \<noteq> None \<Longrightarrow> plain_thread t"
  shows "feed_inv fails (s\<lparr>fs_index := fs_index s\<lparr>ti_marks := M\<rparr>\<rparr>)"
proof -
  let ?t = "s\<lparr>fs_index := fs_index s\<lparr>ti_marks := M\<rparr>\<rparr>"
  have le: "indexedEntry (fs_index ?t) th \<le> indexedEntry (fs_index s) th" for th using assms(2)[of th] by (simp add: indexedEntry_def)
  have sm: "waits (fs_index ?t) = waits (fs_index s)" "rows_of (fs_index ?t) = rows_of (fs_index s)" "ti_since (fs_index ?t) = ti_since (fs_index s)"
    by (simp_all add: waits_def rows_of_def fun_eq_iff)
  have "top_id ?t = top_id s" by (simp add: top_id_def fun_eq_iff)
  then have "indexedEntry (fs_index ?t) th \<le> top_id ?t th" for th using le[of th] assms(1) by (auto simp: feed_inv_def log_inv_def intro: order_trans)
  then have "log_inv ?t" using assms(1,3,4) by (auto simp: feed_inv_def log_inv_def)
  moreover have "index_inv ?t" using assms(1) by (simp add: feed_inv_def index_inv_def outbox_ok_def threads_plain_def stream_ok_def)
  moreover have "sound_inv ?t" using assms(1) unfolding feed_inv_def sound_inv_def sm by simp
  moreover have "read_inv ?t" if "read_inv s" using that le unfolding read_inv_def sm by simp (meson le_less_trans)
  ultimately show ?thesis using assms(1) by (auto simp: feed_inv_def)
qed

lemma streams_keep:
  assumes "feed_inv fails s" and "ths \<subseteq> fs_open s" and "\<forall>st \<in> set sts. stream_ok (fs_index s) st"
  shows "feed_inv fails (s\<lparr>fs_open := ths, fs_streams := sts\<rparr>)"
proof -
  let ?t = "s\<lparr>fs_open := ths, fs_streams := sts\<rparr>"
  have "log_inv ?t" using assms(1,2) by (auto simp: feed_inv_def log_inv_def top_id_def)
  moreover have "index_inv ?t" using assms(1,3) by (simp add: feed_inv_def index_inv_def)
  moreover have "sound_inv ?t" using assms(1) by (simp add: feed_inv_def sound_inv_def)
  moreover have "read_inv ?t" if "read_inv s" using that assms(2) unfolding read_inv_def by simp (meson subsetD)
  ultimately show ?thesis using assms(1) by (auto simp: feed_inv_def)
qed

lemma stream_closed: "stream_ok ix st \<Longrightarrow> stream_ok ix (st\<lparr>st_open := False\<rparr>)"
  by (auto simp: stream_ok_def split: if_splits)

lemma host_stop_keeps: "feed_inv fails s \<Longrightarrow> feed_inv fails (host_stop s)"
  unfolding host_stop_def by (rule streams_keep) (auto simp: feed_inv_def index_inv_def intro: stream_closed)

lemma crash_keeps:
  assumes inv: "feed_inv fails s" and c: "commit_ok s th es us"
  shows "feed_inv fails (host_stop (committed th es us s))"
proof -
  let ?s = "committed th es us s"
  have k: "log_inv ?s" "index_inv ?s" "sound_inv ?s" using committed_keeps[OF _ _ _ c] inv by (simp_all add: feed_inv_def)
  have "feed_inv True ?s" using k by (simp add: feed_inv_def)
  from host_stop_keeps[OF this] have h: "log_inv (host_stop ?s)" "index_inv (host_stop ?s)" "sound_inv (host_stop ?s)" by (simp_all add: feed_inv_def)
  have "read_inv (host_stop ?s)" if r: "read_inv s"
    unfolding read_inv_def
  proof
    fix t
    obtain ps cs where p: "fs_log s t = ps @ cs" "waits (fs_index s) t = open_calls ps" "rows_of (fs_index s) t = spoken (ti_since (fs_index s)) ps"
        "\<forall>e \<in> set cs. indexedEntry (fs_index s) t < ie_id e" using r unfolding read_inv_def by metis
    have top: "indexedEntry (fs_index s) th \<le> top_id s th" using inv by (auto simp: feed_inv_def log_inv_def)
    have "\<forall>e \<in> set es. top_id s th < ie_id e" using c by (auto simp: commit_ok_def)
    then have "\<forall>e \<in> set (if t = th then cs @ es else cs). indexedEntry (fs_index s) t < ie_id e" using p(4) top by auto
    then show "\<exists>ps cs. fs_log (host_stop ?s) t = ps @ cs \<and> waits (fs_index (host_stop ?s)) t = open_calls ps \<and>
        rows_of (fs_index (host_stop ?s)) t = spoken (ti_since (fs_index (host_stop ?s))) ps \<and>
        (\<forall>e \<in> set cs. indexedEntry (fs_index (host_stop ?s)) t < ie_id e) \<and> (t \<in> fs_open (host_stop ?s) \<longrightarrow> cs = [])"
      using p(1-3) by (intro exI[of _ ps] exI[of _ "if t = th then cs @ es else cs"]) (auto simp: host_stop_def committed_def)
  qed
  then show ?thesis using h inv by (auto simp: feed_inv_def)
qed

lemma start_inv: "feed_start s \<Longrightarrow> feed_inv fails s"
  by (auto simp: feed_start_def feed_inv_def log_inv_def index_inv_def sound_inv_def read_inv_def outbox_ok_def threads_plain_def indexedEntry_def waits_def rows_of_def
      open_calls_def spoken_def)

lemma marked_plain: "feed_inv fails s \<Longrightarrow> ti_marks (fs_index s) t = Some n \<Longrightarrow> plain_thread t"
  by (auto simp: feed_inv_def log_inv_def)

lemma step_inv:
  assumes "feed_inv fails s" and "feed_step fails s t"
  shows "feed_inv fails t"
  using assms(2)
proof (cases rule: feed_step.cases)
  case (new_thread th)
  then show ?thesis unfolding new_thread(1) by (intro marks_keep[OF assms(1)]) (use new_thread(2,3) marked_plain[OF assms(1)] in \<open>auto simp: indexedEntry_def split: option.splits if_splits\<close>)
next
  case (commit th es us)
  then show ?thesis using commit_keeps[OF assms(1)] by simp
next
  case (commit_failed th es us)
  then show ?thesis using committed_keeps assms(1) by (auto simp: feed_inv_def)
next
  case (commit_crash th es us)
  then show ?thesis using crash_keeps[OF assms(1)] by simp
next
  case (open_thread th)
  then show ?thesis using backfill_keeps[OF assms(1)] by simp
next
  case (close_thread th)
  have "feed_inv fails (s\<lparr>fs_open := fs_open s - {th}, fs_streams := fs_streams s\<rparr>)"
    by (rule streams_keep[OF assms(1)]) (use assms(1) in \<open>auto simp: feed_inv_def index_inv_def\<close>)
  then show ?thesis by (simp add: close_thread)
next
  case restart
  then show ?thesis using host_stop_keeps[OF assms(1)] by simp
next
  case rebuild
  have "(host_stop s)\<lparr>fs_index := fs_index s\<lparr>ti_marks := M\<rparr>\<rparr> = (host_stop s)\<lparr>fs_index := fs_index (host_stop s)\<lparr>ti_marks := M\<rparr>\<rparr>" for M by (simp add: host_stop_def)
  moreover note h = host_stop_keeps[OF assms(1)]
  moreover have "feed_inv fails ((host_stop s)\<lparr>fs_index := fs_index (host_stop s)\<lparr>ti_marks := map_option (\<lambda>_. 0) \<circ> ti_marks (fs_index (host_stop s))\<rparr>\<rparr>)"
    by (rule marks_keep[OF h]) (use marked_plain[OF h] in \<open>auto simp: indexedEntry_def split: option.splits\<close>)
  ultimately show ?thesis by (simp add: rebuild host_stop_def)
next
  case (reset th)
  have "feed_inv fails (s\<lparr>fs_index := fs_index s\<lparr>ti_marks := (ti_marks (fs_index s))(th := map_option (\<lambda>_. 0) (ti_marks (fs_index s) th))\<rparr>\<rparr>)"
    by (rule marks_keep[OF assms(1)]) (use marked_plain[OF assms(1)] in \<open>auto simp: indexedEntry_def split: option.splits if_splits\<close>)
  then show ?thesis by (simp add: reset resetEntries_def)
next
  case (open_stream feed client after)
  have "feed_inv fails (s\<lparr>fs_open := fs_open s, fs_streams := open_feed (fs_index s) client feed after # fs_streams s\<rparr>)"
    by (rule streams_keep[OF assms(1)]) (use assms(1) in \<open>auto simp: feed_inv_def index_inv_def intro: open_feed_ok\<close>)
  then show ?thesis by (simp add: open_stream)
next
  case (stop_stream client feed)
  have "feed_inv fails (s\<lparr>fs_open := fs_open s, fs_streams := stop_feed client feed (fs_streams s)\<rparr>)"
    by (rule streams_keep[OF assms(1)]) (use assms(1) in \<open>auto simp: feed_inv_def index_inv_def stop_feed_def intro: stream_closed\<close>)
  then show ?thesis by (simp add: stop_stream)
next
  case (drop_client client)
  have "feed_inv fails (s\<lparr>fs_open := fs_open s, fs_streams := disconnect client (fs_streams s)\<rparr>)"
    by (rule streams_keep[OF assms(1)]) (use assms(1) in \<open>auto simp: feed_inv_def index_inv_def disconnect_def intro: stream_closed\<close>)
  then show ?thesis by (simp add: drop_client)
qed

interpretation fd: step_invariant feed_start "feed_step fails" "feed_inv fails" for fails
  by unfold_locales (auto intro: start_inv step_inv)


section \<open>What people hear\<close>

text \<open>
  C10. The streams of pi-host's feed, over every run of commits, failed index writes, crashes, reopened threads, marks that start over and other streams: an open
  stream has written exactly the outbox rows after its cursor, one that ended wrote the first of them, and no row is written twice or out of order.
\<close>

theorem feed_streams_exact:
  assumes "feed_start s" and "(feed_step fails)\<^sup>*\<^sup>* s t" and "st \<in> set (fs_streams t)"
  shows "(if st_open st then st_out st = rows_after (st_after st) (ti_outbox (fs_index t)) else prefix (st_out st) (rows_after (st_after st) (ti_outbox (fs_index t)))) \<and>
    sorted_wrt (<) (map fr_seq (st_out st))"
proof -
  have inv: "index_inv t" using fd.inv_reach[OF assms(1,2)] by (simp add: feed_inv_def)
  then have ok: "stream_ok (fs_index t) st" and so: "sorted_wrt (<) (map fr_seq (ti_outbox (fs_index t)))" using assms(3) by (auto simp: index_inv_def outbox_ok_def)
  have "sorted_wrt (<) (map fr_seq (rows_after (st_after st) (ti_outbox (fs_index t))))" using so by (simp add: rows_after_def sorted_wrt_map sorted_wrt_filter)
  then show ?thesis using ok by (auto simp: stream_ok_def sorted_wrt_append elim!: prefixE split: if_splits)
qed


definition ex_feed_call :: IndexedEntry where
  "ex_feed_call = \<lparr>ie_conversation = 1, ie_id = 2, ie_at = 9, ie_calls = [\<lparr>sp_id = ''k'', sp_tool = ''send_message'', sp_text = ''hi'', sp_to = None, sp_why = None\<rparr>], ie_result = None\<rparr>"

definition ex_sent :: IndexedEntry where
  "ex_sent = \<lparr>ie_conversation = 1, ie_id = 3, ie_at = 9, ie_calls = [], ie_result = Some (''k'', True)\<rparr>"

definition ex_index :: ThreadIndex where
  "ex_index = \<lparr>ti_marks = Map.empty, ti_calls = (\<lambda>_. Map.empty), ti_outbox = [], ti_seq = 0, ti_since = 5\<rparr>"

definition ex_feed :: feed_state where
  "ex_feed = \<lparr>fs_log = (\<lambda>_. []), fs_usage = (\<lambda>_. []), fs_index = ex_index, fs_open = {}, fs_streams = []\<rparr>"

definition ex_open :: feed_state where
  "ex_open = ex_feed\<lparr>fs_index := ex_index\<lparr>ti_marks := [''t'' \<mapsto> 0]\<rparr>, fs_open := {''t''},
     fs_streams := [\<lparr>st_client = ''c'', st_feed = ''f'', st_after = 0, st_last = 0, st_out = [], st_open = True\<rparr>]\<rparr>"

lemmas ex_defs = ex_feed_call_def ex_sent_def ex_index_def ex_feed_def ex_open_def

lemma ex_start: "feed_start ex_feed"
  by (simp add: feed_start_def ex_defs)

lemma ex_opened: "(feed_step fails)\<^sup>*\<^sup>* ex_feed ex_open"
proof -
  let ?a = "ex_feed\<lparr>fs_index := ex_index\<lparr>ti_marks := [''t'' \<mapsto> 0]\<rparr>\<rparr>" and ?b = "ex_feed\<lparr>fs_index := ex_index\<lparr>ti_marks := [''t'' \<mapsto> 0]\<rparr>, fs_open := {''t''}\<rparr>"
  have "feed_step fails ex_feed ?a" using feed_step.new_thread[of "''t''" ex_feed fails] by (simp add: plain_thread_def ex_defs)
  moreover have "feed_step fails ?a ?b"
    using feed_step.open_thread[of ?a "''t''" fails] by (simp add: ex_defs backfill_def index_write_def addEntries_def indexedEntry_def)
  moreover have "open_feed (ex_index\<lparr>ti_marks := [''t'' \<mapsto> 0]\<rparr>) ''c'' ''f'' 0 = \<lparr>st_client = ''c'', st_feed = ''f'', st_after = 0, st_last = 0, st_out = [], st_open = True\<rparr>"
    by (simp add: open_feed_def write_pages_all ex_index_def)
  then have "feed_step fails ?b ex_open" using feed_step.open_stream[of ?b "''f''" fails "''c''" 0] by (simp add: ex_open_def ex_feed_def)
  ultimately show ?thesis by (meson converse_rtranclp_into_rtranclp rtranclp.rtrancl_refl)
qed

definition ex_row :: FeedRow where
  "ex_row = feed_row 1 ''t'' ''k'' (1, 2, \<lparr>sp_id = ''k'', sp_tool = ''send_message'', sp_text = ''hi'', sp_to = None, sp_why = None\<rparr>) 9"

lemma ex_write: "addEntries ''t'' [ex_feed_call, ex_sent] [] (fs_index ex_open) = (\<lparr>ti_marks = [''t'' \<mapsto> 3], ti_calls = (\<lambda>_. Map.empty), ti_outbox = [ex_row], ti_seq = 1, ti_since = 5\<rparr>, [ex_row])"
  by (simp add: ex_defs ex_row_def addEntries_def indexedEntry_def speech_def keep_calls_def Let_def opt_list_def feed_row_def fun_eq_iff)

definition ex_said :: feed_state where
  "ex_said = onCommit ''t'' [ex_feed_call, ex_sent] [] (committed ''t'' [ex_feed_call, ex_sent] [] ex_open)"

lemma ex_commit_ok: "commit_ok ex_open ''t'' [ex_feed_call, ex_sent] []"
  by (simp add: commit_ok_def ex_defs top_id_def call_ids_def result_ids_def)

lemma ex_said_run: "(feed_step fails)\<^sup>*\<^sup>* ex_feed ex_said"
  using ex_opened feed_step.commit[OF ex_commit_ok, folded ex_said_def] by (meson rtranclp.rtrancl_into_rtrancl)

lemma ex_said_is: "fs_index ex_said = \<lparr>ti_marks = [''t'' \<mapsto> 3], ti_calls = (\<lambda>_. Map.empty), ti_outbox = [ex_row], ti_seq = 1, ti_since = 5\<rparr>"
    "fs_open ex_said = {''t''}" "fs_log ex_said ''t'' = [ex_feed_call, ex_sent]"
    "fs_streams ex_said = [\<lparr>st_client = ''c'', st_feed = ''f'', st_after = 0, st_last = 1, st_out = [ex_row], st_open = True\<rparr>]"
proof -
  have ix: "fs_index (committed ''t'' [ex_feed_call, ex_sent] [] ex_open) = fs_index ex_open" by (simp add: committed_def)
  have w: "ex_said = (committed ''t'' [ex_feed_call, ex_sent] [] ex_open)\<lparr>fs_index := \<lparr>ti_marks = [''t'' \<mapsto> 3], ti_calls = (\<lambda>_. Map.empty), ti_outbox = [ex_row], ti_seq = 1, ti_since = 5\<rparr>,
      fs_streams := map (hear [ex_row]) (fs_streams ex_open)\<rparr>"
    by (simp add: ex_said_def onCommit_def index_write_def ix ex_write) (simp add: committed_def)
  show "fs_index ex_said = \<lparr>ti_marks = [''t'' \<mapsto> 3], ti_calls = (\<lambda>_. Map.empty), ti_outbox = [ex_row], ti_seq = 1, ti_since = 5\<rparr>" by (simp add: w)
  show "fs_open ex_said = {''t''}" "fs_log ex_said ''t'' = [ex_feed_call, ex_sent]" by (simp_all add: w committed_def ex_open_def ex_feed_def)
  show "fs_streams ex_said = [\<lparr>st_client = ''c'', st_feed = ''f'', st_after = 0, st_last = 1, st_out = [ex_row], st_open = True\<rparr>]"
    by (simp add: w ex_open_def hear_def write_row_def) (simp add: ex_row_def)
qed


lemma feed_streams_exact_witness:
  "rows_after 0 (ti_outbox (fs_index ex_said)) = [ex_row] \<and> map st_out (fs_streams ex_said) = [rows_after 0 (ti_outbox (fs_index ex_said))]"
  using feed_streams_exact[OF ex_start ex_said_run, of "\<lparr>st_client = ''c'', st_feed = ''f'', st_after = 0, st_last = 1, st_out = [ex_row], st_open = True\<rparr>"]
  by (simp add: ex_said_is)


text \<open>
  A failed index write loses what it held: the next commit raises the mark past its entries, so no later open of the thread reads them, and the message that went
  out for the thread has no row.
\<close>

definition ex_after :: IndexedEntry where
  "ex_after = \<lparr>ie_conversation = 1, ie_id = 4, ie_at = 9, ie_calls = [], ie_result = None\<rparr>"

lemma failed_write_loses:
  "\<exists>t. (feed_step True)\<^sup>*\<^sup>* ex_feed t \<and> ''t'' \<in> fs_open t \<and> ''k'' \<in> spoken 5 (fs_log t ''t'') \<and> rows_of (fs_index t) ''t'' = {} \<and> backfill ''t'' t = t"
proof -
  define lost where "lost = committed ''t'' [ex_feed_call, ex_sent] [] ex_open"
  define t where "t = onCommit ''t'' [ex_after] [] (committed ''t'' [ex_after] [] lost)"
  have lg: "fs_log lost ''t'' = [ex_feed_call, ex_sent]" "fs_usage lost ''t'' = []" "fs_open lost = {''t''}" "fs_index lost = fs_index ex_open"
    by (simp_all add: lost_def committed_def ex_open_def ex_feed_def)
  have "feed_step True ex_open lost" unfolding lost_def by (rule feed_step.commit_failed) (auto simp: ex_commit_ok)
  moreover have "commit_ok lost ''t'' [ex_after] []"
    by (simp add: commit_ok_def lg top_id_def ex_defs ex_after_def call_ids_def result_ids_def)
  then have "feed_step True lost t" unfolding t_def by (rule feed_step.commit)
  ultimately have run: "(feed_step True)\<^sup>*\<^sup>* ex_feed t" using ex_opened by (meson rtranclp.rtrancl_into_rtrancl)
  have a: "addEntries ''t'' [ex_after] [] (fs_index ex_open) = (ex_index\<lparr>ti_marks := [''t'' \<mapsto> 4]\<rparr>, [])"
    by (simp add: ex_open_def ex_feed_def ex_index_def ex_after_def addEntries_def indexedEntry_def speech_def keep_calls_def Let_def opt_list_def fun_eq_iff)
  have t: "fs_index t = ex_index\<lparr>ti_marks := [''t'' \<mapsto> 4]\<rparr>" "fs_log t ''t'' = [ex_feed_call, ex_sent, ex_after]" "fs_usage t ''t'' = []" "fs_open t = {''t''}"
    using a lg by (simp_all add: t_def onCommit_def index_write_def committed_def)
  have "map (hear []) sts = sts" for sts by (induction sts) (simp_all add: hear_def)
  then have "backfill ''t'' t = t" 
    by (simp add: backfill_def t index_write_def indexedEntry_def ex_defs ex_after_def addEntries_def)
  then show ?thesis using run t by (intro exI[of _ t]) (auto simp: spoken_def rows_of_def ex_defs call_ids_def)
qed

end
