(* ===== verification/RuleFiles.thy ===== *)
theory RuleFiles
  imports Prelude
begin

text \<open>
  Rule files (\<open>packages/pi-claude-rules/src/core/rules.ts\<close>): the front matter of a rule with its globs, and the regular expression of a glob with what it
  matches. \<open>RegExp\<close> is the standard library's: its pattern is the list of pieces the code writes, its reading a tree, its test a backtracking match.
\<close>

section \<open>Front matter\<close>

text \<open>A line terminator, which \<open>.\<close> of a regular expression does not match.\<close>

definition line_term :: "char \<Rightarrow> bool" where
  "line_term c \<longleftrightarrow> c = CHR 10 \<or> c = CHR 13"

text \<open>\<open>\r?\n\<close>: what follows it.\<close>

definition eol :: "string \<Rightarrow> string option" where
  "eol s = (if prefix [CHR 10] s then Some (drop 1 s) else if prefix [CHR 13, CHR 10] s then Some (drop 2 s) else None)"

definition drop_char :: "char \<Rightarrow> string \<Rightarrow> string" where
  "drop_char c s = (if prefix [c] s then tl s else s)"

definition fence_end :: "string \<Rightarrow> string option" where
  "fence_end s =
     (case eol s of
        Some r \<Rightarrow> if prefix ''---'' r then Some (drop_char (CHR 10) (drop_char (CHR 13) (drop 3 r))) else None
      | None \<Rightarrow> None)"

fun to_fence :: "string \<Rightarrow> (string \<times> string) option" where
  "to_fence [] = None"
| "to_fence (c # s) =
     (case fence_end (c # s) of
        Some r \<Rightarrow> Some ([], r)
      | None \<Rightarrow> map_option (\<lambda>(m, r). (c # m, r)) (to_fence s))"

text \<open>The front matter and the text after it.\<close>

definition front_matter :: "string \<Rightarrow> (string \<times> string) option" where
  "front_matter s = (if prefix ''---'' s then Option.bind (eol (drop 3 s)) to_fence else None)"

text \<open>\<open>split(/\r?\n/)\<close>.\<close>

fun split_lines :: "string \<Rightarrow> string list" where
  "split_lines [] = [[]]"
| "split_lines (c # s) =
     (if c = CHR 10 then [] # split_lines s
      else if c = CHR 13 \<and> prefix [CHR 10] s then [] # split_lines (tl s)
      else (case split_lines s of [] \<Rightarrow> [[c]] | w # ws \<Rightarrow> (c # w) # ws))"

definition paths_head :: "string \<Rightarrow> string option" where
  "paths_head l =
     (if prefix ''paths'' l then
        (case dropWhile js_ws (drop 5 l) of
           c # r \<Rightarrow> let v = dropWhile js_ws r in if c = CHR '':'' \<and> \<not> list_ex line_term v then Some v else None
         | [] \<Rightarrow> None)
      else None)"

fun split_globs :: "nat \<Rightarrow> string \<Rightarrow> string list" where
  "split_globs b [] = [[]]"
| "split_globs b (c # s) =
     (if c = CHR '','' \<and> b = 0 then [] # split_globs b s
      else (case split_globs (if c = CHR ''{'' then Suc b else if c = CHR ''}'' then b - 1 else b) s of
          [] \<Rightarrow> [[c]]
        | w # ws \<Rightarrow> (c # w) # ws))"

definition splitGlobs :: "string \<Rightarrow> string list" where
  "splitGlobs s = split_globs 0 s"

definition unbracket :: "string \<Rightarrow> string" where
  "unbracket s = (if 2 \<le> length s \<and> hd s = CHR ''['' \<and> last s = CHR '']'' then butlast (tl s) else s)"

definition item_line :: "string \<Rightarrow> bool" where
  "item_line l \<longleftrightarrow> (case dropWhile js_ws l of [] \<Rightarrow> True | c # _ \<Rightarrow> c = CHR ''-'')"

definition item_text :: "string \<Rightarrow> string" where
  "item_text l = dropWhile js_ws (drop_char (CHR ''-'') (dropWhile js_ws l))"

text \<open>Whether a \<open>paths:\<close> line was found, and the globs in order.\<close>

fun rule_globs :: "string list \<Rightarrow> bool \<times> string list" where
  "rule_globs [] = (False, [])"
| "rule_globs (l # ls) =
     (case paths_head l of
        None \<Rightarrow> rule_globs ls
      | Some v \<Rightarrow>
          (let inline = js_trim v;
               gs = (if inline \<noteq> [] then splitGlobs (unbracket inline) else map item_text (takeWhile item_line ls))
           in (True, gs @ snd (rule_globs ls))))"

definition unquote :: "string \<Rightarrow> string" where
  "unquote s =
     (if 2 \<le> length s \<and> hd s \<in> {CHR 39, CHR 34} \<and> last s = hd s \<and> \<not> list_ex line_term (butlast (tl s)) then butlast (tl s) else s)"

section \<open>Globs\<close>

text \<open>What \<open>globRegex\<close> writes: \<open>.*\<close>, \<open>(?:.*/)?\<close>, \<open>[^/]*\<close>, \<open>[^/]\<close>, \<open>(?:\<close>, \<open>)\<close>, \<open>|\<close>, or a character with its escape.\<close>

datatype piece = PAny | PFolders | PStar | POne | POpen | PClose | PBar | PChar char

fun glob_pieces :: "nat \<Rightarrow> string \<Rightarrow> piece list" where
  "glob_pieces b [] = []"
| "glob_pieces b (c # s) =
     (if c = CHR ''*'' \<and> prefix ''*'' s then
        (if prefix ''*/'' s then PFolders # glob_pieces b (drop 2 s) else PAny # glob_pieces b (drop 1 s))
      else if c = CHR ''*'' then PStar # glob_pieces b s
      else if c = CHR ''?'' then POne # glob_pieces b s
      else if c = CHR ''{'' then POpen # glob_pieces (Suc b) s
      else if c = CHR ''}'' \<and> 0 < b then PClose # glob_pieces (b - 1) s
      else if c = CHR '','' \<and> 0 < b then PBar # glob_pieces b s
      else PChar c # glob_pieces b s)"

text \<open>A regular expression; a group holds its alternatives.\<close>

datatype rx = RChar char | RAny | RFolders | RStar | ROne | RGroup "rx list list"

text \<open>The reading of a pattern: open groups with their alternatives so far, innermost first. One that is left open is a syntax error.\<close>

fun read_rx :: "(rx list list \<times> rx list) list \<Rightarrow> piece list \<Rightarrow> rx list option" where
  "read_rx fs [] = (case fs of [(as, cur)] \<Rightarrow> if as = [] then Some cur else None | _ \<Rightarrow> None)"
| "read_rx fs (p # ps) =
     (case fs of
        [] \<Rightarrow> None
      | (as, cur) # gs \<Rightarrow>
          (case p of
             PAny \<Rightarrow> read_rx ((as, cur @ [RAny]) # gs) ps
           | PFolders \<Rightarrow> read_rx ((as, cur @ [RFolders]) # gs) ps
           | PStar \<Rightarrow> read_rx ((as, cur @ [RStar]) # gs) ps
           | POne \<Rightarrow> read_rx ((as, cur @ [ROne]) # gs) ps
           | PChar c \<Rightarrow> read_rx ((as, cur @ [RChar c]) # gs) ps
           | POpen \<Rightarrow> read_rx (([], []) # (as, cur) # gs) ps
           | PBar \<Rightarrow> read_rx ((as @ [cur], []) # gs) ps
           | PClose \<Rightarrow>
               (case gs of
                  [] \<Rightarrow> None
                | (bs, cur2) # hs \<Rightarrow> read_rx ((bs, cur2 @ [RGroup (as @ [cur])]) # hs) ps)))"

text \<open>\<open>None\<close> is the expression that matches nothing.\<close>

definition globRegex :: "string \<Rightarrow> rx list option" where
  "globRegex g = read_rx [([], [])] (glob_pieces 0 g)"

fun rx_weight :: "rx \<Rightarrow> nat" where
  "rx_weight RFolders = 3"
| "rx_weight (RGroup as) = Suc (\<Sum>a\<leftarrow>as. \<Sum>x\<leftarrow>a. rx_weight x)"
| "rx_weight _ = 1"

lemma weight_pos [simp]: "0 < rx_weight x"
  by (cases x) auto

lemma group_weight: "a \<in> set as \<Longrightarrow> (\<Sum>x\<leftarrow>a. rx_weight x) < rx_weight (RGroup as)"
  by (simp add: less_Suc_eq_le member_le_sum_list)

text \<open>\<open>test\<close> of an anchored expression.\<close>

function rx_match :: "rx list \<Rightarrow> string \<Rightarrow> bool" where
  "rx_match [] s \<longleftrightarrow> s = []"
| "rx_match (RChar c # r) s \<longleftrightarrow> (case s of [] \<Rightarrow> False | d # t \<Rightarrow> d = c \<and> rx_match r t)"
| "rx_match (RAny # r) s \<longleftrightarrow> rx_match r s \<or> (case s of [] \<Rightarrow> False | d # t \<Rightarrow> \<not> line_term d \<and> rx_match (RAny # r) t)"
| "rx_match (RFolders # r) s \<longleftrightarrow> rx_match r s \<or> rx_match (RAny # RChar (CHR ''/'') # r) s"
| "rx_match (RStar # r) s \<longleftrightarrow> rx_match r s \<or> (case s of [] \<Rightarrow> False | d # t \<Rightarrow> d \<noteq> CHR ''/'' \<and> rx_match (RStar # r) t)"
| "rx_match (ROne # r) s \<longleftrightarrow> (case s of [] \<Rightarrow> False | d # t \<Rightarrow> d \<noteq> CHR ''/'' \<and> rx_match r t)"
| "rx_match (RGroup as # r) s \<longleftrightarrow> list_ex (\<lambda>a. rx_match (a @ r) s) as"
  by pat_completeness auto
termination
  by (relation "measures [\<lambda>(r, s). \<Sum>x\<leftarrow>r. rx_weight x, \<lambda>(r, s). length s]") (auto dest: group_weight)

definition rx_test :: "rx list option \<Rightarrow> string \<Rightarrow> bool" where
  "rx_test r s = (case r of Some x \<Rightarrow> rx_match x s | None \<Rightarrow> False)"

section \<open>Rules\<close>

record Rule =
  ru_file :: string
  ru_paths :: "rx list option list option"
  ru_globs :: "string list"
  ru_body :: string

definition parseRule :: "string \<Rightarrow> string \<Rightarrow> Rule" where
  "parseRule file t =
     (case front_matter t of
        None \<Rightarrow> \<lparr>ru_file = file, ru_paths = None, ru_globs = [], ru_body = js_trim t\<rparr>
      | Some (m, rest) \<Rightarrow>
          (case rule_globs (split_lines m) of (found, globs) \<Rightarrow>
             let clean = filter (\<lambda>g. g \<noteq> []) (map (\<lambda>g. unquote (js_trim g)) globs) in
             \<lparr>ru_file = file, ru_paths = (if found \<and> clean \<noteq> [] then Some (map globRegex clean) else None), ru_globs = clean, ru_body = js_trim rest\<rparr>))"

text \<open>Whether a rule is for a file at a path in its repo.\<close>

definition rule_for :: "string \<Rightarrow> Rule \<Rightarrow> bool" where
  "rule_for rel r = (case ru_paths r of None \<Rightarrow> True | Some ps \<Rightarrow> list_ex (\<lambda>p. rx_test p rel) ps)"

definition nl :: string where
  "nl = [CHR 10]"

definition render :: "Rule \<Rightarrow> string" where
  "render r =
     (let scope = (if ru_paths r \<noteq> None then '', loaded because this session touched a file matching '' @ js_join '', '' (ru_globs r) else [])
      in ''Contents of '' @ ru_file r @ '' (project rule from .claude/rules'' @ scope @ ''). Follow it:'' @ nl @ nl @ ru_body r)"

lemma rule_examples:
  "ru_globs (parseRule ''r.md'' (''---'' @ nl @ ''paths: [a/*.ts, b.{c,d}]'' @ nl @ ''---'' @ nl @ ''Body'')) = [''a/*.ts'', ''b.{c,d}'']"
  by code_simp

lemma glob_examples: "rx_test (globRegex ''a/**/*.{ts,md}'') ''a/b/c.md''" "\<not> rx_test (globRegex ''a/*.ts'') ''a/b/c.ts''" "globRegex ''a/{b,c'' = None"
  by code_simp+

end
