(* ===== verification/SessionRules.thy ===== *)
theory SessionRules
  imports RuleFiles Json
begin

text \<open>
  One session's rules (\<open>packages/pi-claude-rules/src/core/rules.ts\<close>): the files a tool call touches, the rules of the repo they are in, and which of them the context
  still holds. A resolved path is its list of folder names; the machine's files, home and running kernel are arguments.
\<close>

section \<open>Paths\<close>

type_synonym folder = "string list"

definition path_step :: "folder \<Rightarrow> string \<Rightarrow> folder" where
  "path_step at' seg = (if seg = [] \<or> seg = ''.'' then at' else if seg = ''..'' then butlast at' else at' @ [seg])"

text \<open>\<open>resolve\<close>.\<close>

definition resolve_path :: "folder \<Rightarrow> string \<Rightarrow> folder" where
  "resolve_path cwd p = foldl path_step (if prefix ''/'' p then [] else cwd) (js_split (CHR ''/'') p)"

definition word_unit :: "char \<Rightarrow> bool" where
  "word_unit c \<longleftrightarrow> (let n = (of_char c :: nat) in 48 \<le> n \<and> n \<le> 57 \<or> 65 \<le> n \<and> n \<le> 90 \<or> 97 \<le> n \<and> n \<le> 122 \<or> n = 95)"

definition path_unit :: "char \<Rightarrow> bool" where
  "path_unit c \<longleftrightarrow> word_unit c \<or> c \<in> set ''.@+-/''"

text \<open>The match of the path pattern at the head of a text, and what follows it.\<close>

definition path_here :: "string \<Rightarrow> (string \<times> string) option" where
  "path_here s =
     (let pre = (if prefix ''~'' s then ''~'' else if prefix ''$HOME'' s then ''$HOME'' else []); r = drop (length pre) s; run = takeWhile path_unit r in
      if CHR ''/'' \<in> set run then Some (pre @ run, dropWhile path_unit r) else None)"

lemma path_here_shorter: "path_here s = Some (m, r) \<Longrightarrow> length r < length s"
proof -
  assume a: "path_here s = Some (m, r)"
  define k where "k = length (if prefix ''~'' s then ''~'' else if prefix ''$HOME'' s then ''$HOME'' else [])"
  have k: "r = dropWhile path_unit (drop k s) \<and> CHR ''/'' \<in> set (takeWhile path_unit (drop k s))"
    using a unfolding path_here_def Let_def k_def[symmetric] by (simp split: if_split_asm)
  have "length (takeWhile path_unit (drop k s)) + length r = length (drop k s)" using k by (metis length_append takeWhile_dropWhile_id)
  then show ?thesis using k by (cases "takeWhile path_unit (drop k s)") auto
qed

text \<open>\<open>matchAll\<close>, without the matches right after a colon.\<close>

function found_paths :: "char option \<Rightarrow> string \<Rightarrow> string list" where
  "found_paths prev [] = []"
| "found_paths prev (c # s) =
     (case path_here (c # s) of
        Some (m, r) \<Rightarrow> (if prev = Some (CHR '':'') then [] else [m]) @ found_paths (Some (last m)) r
      | None \<Rightarrow> found_paths (Some c) s)"
  by pat_completeness auto
termination
  by (relation "measure (\<lambda>(_, s). length s)") (auto dest: path_here_shorter)

definition at_home :: "string \<Rightarrow> string \<Rightarrow> string" where
  "at_home home p = (if prefix ''~/'' p then home @ drop 1 p else if prefix ''$HOME/'' p then home @ drop 5 p else p)"

definition no_slash_end :: "string \<Rightarrow> string" where
  "no_slash_end p = rev (dropWhile (\<lambda>c. c = CHR ''/'') (rev p))"

definition namedPaths :: "string \<Rightarrow> string \<Rightarrow> folder \<Rightarrow> folder list" where
  "namedPaths home t cwd = js_uniq (map (resolve_path cwd) (filter (list_ex word_unit) (map (\<lambda>p. no_slash_end (at_home home p)) (found_paths None t))))"

text \<open>The machine: its home, the files there are, the parts of a cell with their folders, the folders with \<open>.claude/rules\<close>, the real path of a folder and its rule files;
  the last two may throw.\<close>

record rule_box =
  bx_home :: string
  bx_exists :: "folder \<Rightarrow> bool"
  bx_steps :: "string \<Rightarrow> (string \<times> folder) list"
  bx_rules :: "folder \<Rightarrow> bool"
  bx_real :: "folder \<Rightarrow> folder option"
  bx_files :: "folder \<Rightarrow> (string \<times> string) list option"

definition input_path :: "rule_box \<Rightarrow> folder \<Rightarrow> json option \<Rightarrow> folder list" where
  "input_path b cwd v =
     (case as_string v of
        Some p \<Rightarrow> if p = [] then [] else [resolve_path cwd (if prefix ''~/'' p then bx_home b @ drop 1 p else p)]
      | None \<Rightarrow> [])"

definition touchedPaths :: "rule_box \<Rightarrow> string \<Rightarrow> json \<Rightarrow> folder \<Rightarrow> folder list" where
  "touchedPaths b tool input cwd =
     (let paths = input_path b cwd (field input ''path'') @ input_path b cwd (field input ''file_path'');
          cells = (case as_string (field input ''code'') of
              Some code \<Rightarrow> if tool = ''ipython'' \<and> code \<noteq> [] then concat (map (\<lambda>(c, at'). namedPaths (bx_home b) c at') (bx_steps b code)) else []
            | None \<Rightarrow> []);
          commands = (case as_string (field input ''command'') of Some c \<Rightarrow> if c = [] then [] else namedPaths (bx_home b) c cwd | None \<Rightarrow> [])
      in paths @ filter (bx_exists b) (cells @ commands))"

section \<open>A session's rules\<close>

record start_up =
  su_cwd :: folder
  su_text :: "string option"
  su_files :: "string set"

record SessionRules =
  sr_roots :: "folder \<Rightarrow> folder option option"
  sr_rules :: "folder \<Rightarrow> Rule list option"
  sr_prefix :: "start_up option"
  sr_appended :: "string set option"

definition new_session :: SessionRules where
  "new_session = \<lparr>sr_roots = Map.empty, sr_rules = Map.empty, sr_prefix = None, sr_appended = None\<rparr>"

text \<open>The folders the climb passes, and the root it ends at.\<close>

function climb :: "rule_box \<Rightarrow> (folder \<Rightarrow> folder option option) \<Rightarrow> folder \<Rightarrow> folder list \<times> folder option" where
  "climb b roots at' =
     (case roots at' of
        Some known \<Rightarrow> ([], known)
      | None \<Rightarrow>
          if bx_rules b at' then ([at'], Some at')
          else if at' = [] then ([at'], None)
          else (case climb b roots (butlast at') of (seen, rt) \<Rightarrow> (at' # seen, rt)))"
  by pat_completeness auto
termination
  by (relation "measure (\<lambda>(_, _, at'). length at')") auto

declare climb.simps [simp del]

definition rootOf :: "rule_box \<Rightarrow> folder \<Rightarrow> SessionRules \<Rightarrow> folder option \<times> SessionRules" where
  "rootOf b dir s = (case climb b (sr_roots s) dir of (seen, rt) \<Rightarrow> (rt, s\<lparr>sr_roots := fold (\<lambda>d m. m(d \<mapsto> rt)) seen (sr_roots s)\<rparr>))"

text \<open>\<open>None\<close>: the read threw.\<close>

definition rulesOf :: "rule_box \<Rightarrow> folder \<Rightarrow> SessionRules \<Rightarrow> Rule list option \<times> SessionRules" where
  "rulesOf b rt s =
     (case bx_real b rt of
        None \<Rightarrow> (None, s)
      | Some rl \<Rightarrow>
          (case sr_rules s rl of
             Some rs \<Rightarrow> (Some rs, s)
           | None \<Rightarrow>
               (case bx_files b rl of
                  None \<Rightarrow> (None, s)
                | Some fs \<Rightarrow> let rs = map (\<lambda>(f, t). parseRule f t) fs in (Some rs, s\<lparr>sr_rules := (sr_rules s)(rl \<mapsto> rs)\<rparr>))))"

definition show_folder :: "folder \<Rightarrow> string" where
  "show_folder at' = (if at' = [] then ''/'' else concat (map (\<lambda>seg. CHR ''/'' # seg) at'))"

definition start_text :: "folder \<Rightarrow> Rule list \<Rightarrow> string option" where
  "start_text rl always =
     (if always = [] then None
      else Some (''Project rules from '' @ show_folder (rl @ [''.claude'', ''rules'']) @ '' that apply to all work in this repo:'' @ nl @ nl @ js_join (nl @ nl) (map render always)))"

definition fresh_start :: "rule_box \<Rightarrow> folder \<Rightarrow> SessionRules \<Rightarrow> start_up option \<times> SessionRules" where
  "fresh_start b cwd s =
     (case rootOf b cwd s of
        (None, s1) \<Rightarrow> let p = \<lparr>su_cwd = cwd, su_text = None, su_files = {}\<rparr> in (Some p, s1\<lparr>sr_prefix := Some p\<rparr>)
      | (Some rt, s1) \<Rightarrow>
          (case rulesOf b rt s1 of
             (None, s2) \<Rightarrow> (None, s2)
           | (Some rs, s2) \<Rightarrow>
               (let always = filter (\<lambda>r. ru_paths r = None) rs;
                    p = \<lparr>su_cwd = cwd, su_text = start_text (the (bx_real b rt)) always, su_files = set (map ru_file always)\<rparr>
                in (Some p, s2\<lparr>sr_prefix := Some p\<rparr>))))"

definition startup :: "rule_box \<Rightarrow> folder \<Rightarrow> SessionRules \<Rightarrow> start_up option \<times> SessionRules" where
  "startup b cwd s =
     (case sr_prefix s of
        Some p \<Rightarrow> if su_cwd p = cwd then (Some p, s) else fresh_start b cwd s
      | None \<Rightarrow> fresh_start b cwd s)"

text \<open>The session's entries, as far as they are read.\<close>

datatype branch_entry = CompactionEntry | RulesEntry "string list" | OtherEntry

fun appended_step :: "string set \<Rightarrow> branch_entry \<Rightarrow> string set" where
  "appended_step a CompactionEntry = {}"
| "appended_step a (RulesEntry fs) = a \<union> set fs"
| "appended_step a OtherEntry = a"

definition appendedSet :: "branch_entry list \<Rightarrow> SessionRules \<Rightarrow> string set \<times> SessionRules" where
  "appendedSet branch s =
     (case sr_appended s of
        Some a \<Rightarrow> (a, s)
      | None \<Rightarrow> let a = foldl appended_step {} branch in (a, s\<lparr>sr_appended := Some a\<rparr>))"

definition compacted :: "SessionRules \<Rightarrow> SessionRules" where
  "compacted s = s\<lparr>sr_appended := Some {}\<rparr>"

text \<open>The rules of a repo that a file at \<open>rel\<close> brings in, after the ones already out.\<close>

definition add_rules :: "string set \<Rightarrow> string \<Rightarrow> Rule list \<Rightarrow> Rule list \<Rightarrow> Rule list" where
  "add_rules have rel rs out = foldl (\<lambda>out r. if ru_file r \<in> have \<union> set (map ru_file out) \<or> \<not> rule_for rel r then out else out @ [r]) out rs"

definition touch_path :: "rule_box \<Rightarrow> string set \<Rightarrow> folder \<Rightarrow> Rule list \<Rightarrow> SessionRules \<Rightarrow> Rule list option \<times> SessionRules" where
  "touch_path b have p out s =
     (case rootOf b (butlast p) s of
        (None, s1) \<Rightarrow> (Some out, s1)
      | (Some rt, s1) \<Rightarrow>
          (let rel = js_join ''/'' (drop (length rt) p) in
           if rel = [] \<or> prefix ''..'' rel then (Some out, s1)
           else (case rulesOf b rt s1 of
               (None, s2) \<Rightarrow> (None, s2)
             | (Some rs, s2) \<Rightarrow> (Some (add_rules have rel rs out), s2))))"

fun touch_all :: "rule_box \<Rightarrow> string set \<Rightarrow> folder list \<Rightarrow> Rule list \<Rightarrow> SessionRules \<Rightarrow> Rule list option \<times> SessionRules" where
  "touch_all b have [] out s = (Some out, s)"
| "touch_all b have (p # ps) out s =
     (case touch_path b have p out s of
        (None, s1) \<Rightarrow> (None, s1)
      | (Some out1, s1) \<Rightarrow> touch_all b have ps out1 s1)"

definition newRules :: "rule_box \<Rightarrow> branch_entry list \<Rightarrow> folder \<Rightarrow> string \<Rightarrow> json \<Rightarrow> SessionRules \<Rightarrow> Rule list option \<times> SessionRules" where
  "newRules b branch cwd tool input s =
     (case startup b cwd s of
        (None, s1) \<Rightarrow> (None, s1)
      | (Some p, s1) \<Rightarrow>
          (case appendedSet branch s1 of (a, s2) \<Rightarrow>
             (case touch_all b (su_files p \<union> a) (touchedPaths b tool input cwd) [] s2 of
                (None, s3) \<Rightarrow> (None, s3)
              | (Some out, s3) \<Rightarrow> (Some out, s3\<lparr>sr_appended := Some (a \<union> set (map ru_file out))\<rparr>))))"

section \<open>The hooks\<close>

record rule_chat =
  rc_cwd :: folder
  rc_branch :: "branch_entry list"
  rc_session :: SessionRules

text \<open>The message put first on a model call.\<close>

definition on_context :: "rule_box \<Rightarrow> rule_chat \<Rightarrow> string option \<times> rule_chat" where
  "on_context b c =
     (case startup b (rc_cwd c) (rc_session c) of (p, s) \<Rightarrow> (Option.bind p su_text, c\<lparr>rc_session := s\<rparr>))"

text \<open>The text appended to a tool's result.\<close>

definition on_tool_result :: "rule_box \<Rightarrow> string \<Rightarrow> json \<Rightarrow> rule_chat \<Rightarrow> string option \<times> rule_chat" where
  "on_tool_result b tool input c =
     (case newRules b (rc_branch c) (rc_cwd c) tool input (rc_session c) of
        (None, s) \<Rightarrow> (None, c\<lparr>rc_session := s\<rparr>)
      | (Some rules, s) \<Rightarrow>
          if rules = [] then (None, c\<lparr>rc_session := s\<rparr>)
          else (Some (js_join (nl @ nl) (map render rules)), c\<lparr>rc_session := s, rc_branch := rc_branch c @ [RulesEntry (map ru_file rules)]\<rparr>))"

lemma path_examples:
  "namedPaths ''/h'' ''cat ~/a/b.ts x/../y.md https://z.io/q'' [''w''] = [[''h'', ''a'', ''b.ts''], [''w'', ''y.md'']]"
  by code_simp

end
