(* ===== verification/RuleGlobs.thy ===== *)
theory RuleGlobs
  imports RuleFiles
begin

text \<open>
  What a glob means, apart from regular expressions: its braces are picked from the innermost out, and what is left is a path with wildcards. The expression of
  \<open>globRegex\<close> matches exactly that.
\<close>

section \<open>Braces and wildcards\<close>

fun split_bars :: "piece list \<Rightarrow> piece list list" where
  "split_bars [] = [[]]"
| "split_bars (p # ps) = (if p = PBar then [] # split_bars ps else (case split_bars ps of [] \<Rightarrow> [[p]] | w # ws \<Rightarrow> (p # w) # ws))"



fun wild :: "piece list \<Rightarrow> string \<Rightarrow> bool" where
  "wild [] s \<longleftrightarrow> s = []"
| "wild (PChar c # w) s \<longleftrightarrow> (\<exists>t. s = c # t \<and> wild w t)"
| "wild (POne # w) s \<longleftrightarrow> (\<exists>c t. s = c # t \<and> c \<noteq> CHR ''/'' \<and> wild w t)"
| "wild (PStar # w) s \<longleftrightarrow> (\<exists>u t. s = u @ t \<and> CHR ''/'' \<notin> set u \<and> wild w t)"
| "wild (PAny # w) s \<longleftrightarrow> (\<exists>u t. s = u @ t \<and> list_all (\<lambda>c. \<not> line_term c) u \<and> wild w t)"
| "wild (PFolders # w) s \<longleftrightarrow> wild w s \<or> (\<exists>u t. s = u @ CHR ''/'' # t \<and> list_all (\<lambda>c. \<not> line_term c) u \<and> wild w t)"
| "wild _ s \<longleftrightarrow> False"

section \<open>Languages\<close>

definition conc :: "string set \<Rightarrow> string set \<Rightarrow> string set" where
  "conc A B = {u @ t | u t. u \<in> A \<and> t \<in> B}"

lemma conc_simps [simp]: "conc A {[]} = A" "conc {[]} A = A" "conc {} A = {}" "conc A {} = {}"
  by (auto simp: conc_def)

lemma conc_iff: "s \<in> conc A B \<longleftrightarrow> (\<exists>u t. s = u @ t \<and> u \<in> A \<and> t \<in> B)"
  by (auto simp: conc_def)

lemma conc_assoc: "conc (conc A B) C = conc A (conc B C)"
  by (rule set_eqI) (unfold conc_iff, metis append.assoc)

lemma conc_insert [simp]: "conc (insert [] A) B = B \<union> conc A B"
  by (rule set_eqI) (unfold Un_iff conc_iff, metis append_Nil insert_iff)


lemma conc_Un: "conc A (B \<union> C) = conc A B \<union> conc A C"
  by (auto simp: conc_def)

definition runs_of :: "(char \<Rightarrow> bool) \<Rightarrow> string set" where
  "runs_of P = {u. \<forall>c \<in> set u. P c}"

lemma conc_one: "s \<in> conc {[c] | c. P c} L \<longleftrightarrow> (case s of [] \<Rightarrow> False | d # t \<Rightarrow> P d \<and> t \<in> L)"
proof (cases s)
  case (Cons d t)
  have "s = u @ v \<and> (\<exists>c. u = [c] \<and> P c) \<and> v \<in> L \<longleftrightarrow> u = [d] \<and> v = t \<and> P d \<and> t \<in> L" for u v by (auto simp: Cons)
  then show ?thesis unfolding conc_iff by (simp add: Cons)
qed (auto simp: conc_iff)

lemma conc_char: "s \<in> conc {[c]} L \<longleftrightarrow> (case s of [] \<Rightarrow> False | d # t \<Rightarrow> d = c \<and> t \<in> L)"
proof -
  have "{[c]} = {[d] | d. d = c}" by simp
  then show ?thesis by (simp only: conc_one)
qed



definition folders :: "string set" where
  "folders = insert [] (conc (runs_of (\<lambda>c. \<not> line_term c)) {''/''})"

fun rx_lang :: "rx \<Rightarrow> string set" where
  "rx_lang (RChar c) = {[c]}"
| "rx_lang RAny = runs_of (\<lambda>c. \<not> line_term c)"
| "rx_lang RFolders = folders"
| "rx_lang RStar = runs_of (\<lambda>c. c \<noteq> CHR ''/'')"
| "rx_lang ROne = {[c] | c. c \<noteq> CHR ''/''}"
| "rx_lang (RGroup as) = (\<Union>a \<in> set as. foldr conc (map rx_lang a) {[]})"

definition lang :: "rx list \<Rightarrow> string set" where
  "lang xs = foldr conc (map rx_lang xs) {[]}"

lemma lang_simps [simp]: "lang [] = {[]}" "lang (x # xs) = conc (rx_lang x) (lang xs)" "lang (xs @ ys) = conc (lang xs) (lang ys)"
proof -
  show "lang [] = {[]}" and c: "\<And>x xs. lang (x # xs) = conc (rx_lang x) (lang xs)" by (simp_all add: lang_def)
  show "lang (xs @ ys) = conc (lang xs) (lang ys)" by (induction xs) (simp_all add: c conc_assoc lang_def[of "[]"])
qed

lemma group_lang [simp]: "rx_lang (RGroup as) = (\<Union>a \<in> set as. lang a)"
  by (simp add: lang_def)

declare rx_lang.simps(6) [simp del]


definition piece_lang :: "piece \<Rightarrow> string set" where
  "piece_lang p =
     (case p of PChar c \<Rightarrow> rx_lang (RChar c) | POne \<Rightarrow> rx_lang ROne | PStar \<Rightarrow> rx_lang RStar | PAny \<Rightarrow> rx_lang RAny | PFolders \<Rightarrow> rx_lang RFolders | _ \<Rightarrow> {})"

definition wild_lang :: "piece list \<Rightarrow> string set" where
  "wild_lang w = {s. wild w s}"

lemma wild_lang_simps [simp]: "wild_lang [] = {[]}" "wild_lang (p # w) = conc (piece_lang p) (wild_lang w)"
proof -
  show "wild_lang [] = {[]}" by (simp add: wild_lang_def)
  have r: "conc (runs_of P) L = {s. \<exists>u t. s = u @ t \<and> list_all P u \<and> t \<in> L}" for P L by (auto simp: conc_def runs_of_def list_all_iff)
  show "wild_lang (p # w) = conc (piece_lang p) (wild_lang w)"
  proof (cases p)
    case PFolders
    have f: "conc folders L = L \<union> {s. \<exists>u t. s = u @ CHR ''/'' # t \<and> list_all (\<lambda>c. \<not> line_term c) u \<and> t \<in> L}" for L
    proof -
      have k: "t \<in> conc {''/''} L \<longleftrightarrow> (\<exists>v. t = CHR ''/'' # v \<and> v \<in> L)" for t by (cases t) (simp_all add: conc_char)
      have "{s. \<exists>u t. s = u @ t \<and> list_all (\<lambda>c. \<not> line_term c) u \<and> t \<in> conc {''/''} L} =
          {s. \<exists>u t. s = u @ CHR ''/'' # t \<and> list_all (\<lambda>c. \<not> line_term c) u \<and> t \<in> L}" unfolding k by blast
      then have "conc (runs_of (\<lambda>c. \<not> line_term c)) (conc {''/''} L) = {s. \<exists>u t. s = u @ CHR ''/'' # t \<and> list_all (\<lambda>c. \<not> line_term c) u \<and> t \<in> L}"
        by (simp only: r)
      then show ?thesis by (simp add: folders_def conc_assoc)
    qed
    show ?thesis by (simp add: PFolders wild_lang_def piece_lang_def f Collect_disj_eq)
  next
    case PStar
    have "CHR ''/'' \<notin> set u \<longleftrightarrow> list_all (\<lambda>c. c \<noteq> CHR ''/'') u" for u by (auto simp: list_all_iff)
    then show ?thesis by (simp add: PStar wild_lang_def piece_lang_def r)
  next
    case POne
    have "t \<in> conc {[c] | c. c \<noteq> CHR ''/''} L \<longleftrightarrow> (\<exists>c v. t = c # v \<and> c \<noteq> CHR ''/'' \<and> v \<in> L)" for t L by (cases t) (simp_all add: conc_one)
    then show ?thesis by (simp add: POne wild_lang_def piece_lang_def set_eq_iff)
  next
    case (PChar c)
    have "t \<in> conc {[c]} L \<longleftrightarrow> (\<exists>v. t = c # v \<and> v \<in> L)" for t L by (cases t) (simp_all add: conc_char)
    then show ?thesis by (simp add: PChar wild_lang_def piece_lang_def set_eq_iff)
  qed (simp_all add: wild_lang_def piece_lang_def r)
qed


section \<open>The reading of a pattern, over languages\<close>

type_synonym frames = "(string set option \<times> string set) list"

definition alts :: "string set option \<Rightarrow> string set" where
  "alts A = (case A of Some B \<Rightarrow> B | None \<Rightarrow> {})"

fun step_lang :: "frames \<Rightarrow> piece \<Rightarrow> frames" where
  "step_lang [] p = []"
| "step_lang ((A, X) # fs) POpen = (None, {[]}) # (A, X) # fs"
| "step_lang ((A, X) # fs) PBar = (Some (alts A \<union> X), {[]}) # fs"
| "step_lang ((A, X) # fs) PClose = (case fs of [] \<Rightarrow> [] | (B, Y) # gs \<Rightarrow> (B, conc Y (alts A \<union> X)) # gs)"
| "step_lang ((A, X) # fs) p = (A, conc X (piece_lang p)) # fs"

definition run_lang :: "frames \<Rightarrow> piece list \<Rightarrow> frames" where
  "run_lang fs ps = foldl step_lang fs ps"


lemma run_lang_simps [simp]: "run_lang fs [] = fs" "run_lang fs (p # ps) = run_lang (step_lang fs p) ps" "run_lang fs (ps @ qs) = run_lang (run_lang fs ps) qs"
  by (simp_all add: run_lang_def)

lemma run_lang_stuck [simp]: "run_lang [] ps = []"
  by (induction ps) simp_all





section \<open>A group gives way to its alternatives\<close>









lemma split_bars_ne [simp]: "split_bars ps \<noteq> []"
  by (induction ps) (auto split: list.split)











section \<open>Front matter\<close>

definition item_of :: "string \<Rightarrow> string" where
  "item_of g = ''  - '' @ [CHR 34] @ g @ [CHR 34]"

text \<open>A rule file as people write one: its globs in a list, each in quotes.\<close>

definition rule_text :: "string list \<Rightarrow> string \<Rightarrow> string" where
  "rule_text gs body = ''---'' @ nl @ js_join nl (''paths:'' # map item_of gs) @ nl @ ''---'' @ nl @ body"

definition one_line :: "string \<Rightarrow> bool" where
  "one_line s \<longleftrightarrow> \<not> list_ex line_term s"

lemma one_line_simps [simp]: "one_line []" "one_line (c # s) \<longleftrightarrow> \<not> line_term c \<and> one_line s" "one_line (s @ t) \<longleftrightarrow> one_line s \<and> one_line t"
  by (auto simp: one_line_def)

lemma line_chars: "\<not> line_term c \<Longrightarrow> c \<noteq> CHR 10" "\<not> line_term c \<Longrightarrow> c \<noteq> CHR 13"
  by (auto simp: line_term_def)

lemma split_line: "one_line l \<Longrightarrow> split_lines (l @ CHR 10 # s) = l # split_lines s" "one_line l \<Longrightarrow> split_lines l = [l]"
proof (induction l)
  case (Cons c l)
  { case 1
    then show ?case using Cons by (simp add: line_chars)
  next
    case 2
    then show ?case using Cons by (simp add: line_chars) }
qed simp_all

lemma split_join: "ls \<noteq> [] \<Longrightarrow> list_all one_line ls \<Longrightarrow> split_lines (js_join nl ls) = ls"
proof (induction nl ls rule: js_join.induct)
  case (3 w v ws)
  then show ?case by (simp add: nl_def split_line)
qed (simp_all add: split_line)

text \<open>Lines that do not start with a dash close no front matter.\<close>

definition no_dash :: "string \<Rightarrow> bool" where
  "no_dash l \<longleftrightarrow> one_line l \<and> l \<noteq> [] \<and> hd l \<noteq> CHR ''-''"

lemma fence_in_line:
  assumes "\<not> line_term c"
  shows "fence_end (c # s) = None"
proof -
  have "eol (c # s) = None" using assms by (auto simp: eol_def line_term_def)
  then show ?thesis by (simp add: fence_end_def)
qed

lemma fence_next: "no_dash l \<Longrightarrow> fence_end (CHR 10 # l @ s) = None"
  by (cases l) (auto simp: fence_end_def eol_def no_dash_def)

lemma to_fence_line:
  assumes "one_line l" and "to_fence (CHR 10 # s) = Some (m, r)"
  shows "to_fence (l @ CHR 10 # s) = Some (l @ m, r)"
  using assms(1)
proof (induction l)
  case Nil
  then show ?case using assms(2) by simp
next
  case (Cons c l)
  then have "fence_end (c # l @ CHR 10 # s) = None" by (simp add: fence_in_line)
  then show ?case using Cons by simp
qed

lemma to_fence_lines:
  assumes "list_all no_dash ls"
  shows "to_fence (concat (map (\<lambda>l. CHR 10 # l) ls) @ CHR 10 # ''---'' @ CHR 10 # body) = Some (concat (map (\<lambda>l. CHR 10 # l) ls), body)"
  using assms
proof (induction ls)
  case Nil
  have "fence_end (CHR 10 # ''---'' @ CHR 10 # body) = Some body" by (simp add: fence_end_def eol_def drop_char_def)
  then show ?case by simp
next
  case (Cons l ls)
  let ?t = "concat (map (\<lambda>l. CHR 10 # l) ls) @ CHR 10 # ''---'' @ CHR 10 # body"
  obtain t where t: "?t = CHR 10 # t" by (cases ls) auto
  have l: "one_line l" "no_dash l" using Cons.prems by (simp_all add: no_dash_def)
  have "to_fence (l @ CHR 10 # t) = Some (l @ concat (map (\<lambda>l. CHR 10 # l) ls), body)"
    by (rule to_fence_line[OF l(1)]) (use Cons t in simp)
  moreover have "fence_end (CHR 10 # l @ CHR 10 # t) = None" by (rule fence_next[OF l(2)])
  ultimately show ?case using t by simp
qed

lemma join_lines: "js_join nl (l # ls) = l @ concat (map (\<lambda>l. CHR 10 # l) ls)"
  by (induction ls arbitrary: l) (simp_all add: nl_def)

lemma items_read:
  assumes "list_all (\<lambda>g. g \<noteq> [] \<and> one_line g) gs"
  shows "rule_globs (''paths:'' # map item_of gs) = (True, map (\<lambda>g. [CHR 34] @ g @ [CHR 34]) gs)"
proof -
  have head: "paths_head ''paths:'' = Some []" by (simp add: paths_head_def js_ws_def)
  have "item_line (item_of g)" "item_text (item_of g) = [CHR 34] @ g @ [CHR 34]" "paths_head (item_of g) = None" for g
    by (simp_all add: item_line_def item_text_def item_of_def drop_char_def paths_head_def js_ws_def)
  note i = this
  have tw: "takeWhile item_line (map item_of gs) = map item_of gs" by (simp add: takeWhile_eq_all_conv i)
  have "rule_globs (map item_of gs) = (False, [])" by (induction gs) (simp_all add: i)
  then show ?thesis by (simp add: head js_trim_def tw i comp_def)
qed

text \<open>
  A rule file written with its globs in a list reads back as that rule: the globs in order, the expression of each, and the text after the front matter, whatever
  that text holds.
\<close>

theorem rule_reads_back:
  assumes "gs \<noteq> []" and "list_all (\<lambda>g. g \<noteq> [] \<and> one_line g) gs"
  shows "parseRule file (rule_text gs body) = \<lparr>ru_file = file, ru_paths = Some (map globRegex gs), ru_globs = gs, ru_body = js_trim body\<rparr>"
proof -
  have dash: "list_all no_dash (map item_of gs)" using assms(2) by (auto simp: list_all_iff no_dash_def item_of_def line_term_def)
  obtain t where t: "concat (map (\<lambda>l. CHR 10 # l) (map item_of gs)) @ CHR 10 # ''---'' @ CHR 10 # body = CHR 10 # t" by (cases gs) auto
  have "to_fence (''paths:'' @ CHR 10 # t) = Some (''paths:'' @ concat (map (\<lambda>l. CHR 10 # l) (map item_of gs)), body)"
    by (rule to_fence_line) (use to_fence_lines[OF dash, of body] t in \<open>simp_all add: line_term_def\<close>)
  then have "front_matter (rule_text gs body) = Some (js_join nl (''paths:'' # map item_of gs), body)"
    unfolding join_lines using t by (simp add: front_matter_def rule_text_def eol_def nl_def join_lines[unfolded nl_def])
  moreover have "split_lines (js_join nl (''paths:'' # map item_of gs)) = ''paths:'' # map item_of gs"
    by (rule split_join) (use dash in \<open>auto simp: list_all_iff no_dash_def line_term_def\<close>)
  moreover have "unquote (js_trim ([CHR 34] @ g @ [CHR 34])) = g" if "one_line g" for g
    using that by (simp add: js_trim_def js_ws_def unquote_def one_line_def butlast_append)
  then have "map (\<lambda>g. unquote (js_trim g)) (map (\<lambda>g. [CHR 34] @ g @ [CHR 34]) gs) = gs"
    using assms(2) by (induction gs) simp_all
  moreover have "filter (\<lambda>g. g \<noteq> []) gs = gs" using assms(2) by (auto simp: filter_id_conv list_all_iff)
  ultimately show ?thesis using assms(1) items_read[OF assms(2)] unfolding parseRule_def by (simp add: Let_def comp_def)
qed

lemma rule_reads_back_witness: "ru_globs (parseRule ''r.md'' (rule_text [''src/**/*.ts''] ''Use it.'')) = [''src/**/*.ts'']"
  using rule_reads_back[of "[''src/**/*.ts'']" "''r.md''" "''Use it.''"] by (simp add: line_term_def)


text \<open>An empty front matter is not closed by its own fence: a later line of dashes closes it, and the text before that line is lost.\<close>

lemma empty_front_matter_eats:
  "ru_body (parseRule ''r.md'' (''---'' @ nl @ ''---'' @ nl @ ''Body'' @ nl @ ''---'' @ nl @ ''More'')) = ''More''"
  by code_simp

end
