(* ===== verification/SessionRuns.thy ===== *)
theory SessionRuns
  imports SessionRules RuleGlobs
begin

text \<open>
  A session over any run of tool calls, model calls, compactions and reloads on a machine whose files stay: each rule is in the context at most once, and a touched
  file's rules are in it. The \<open>moves\<close> runs also move to an earlier point of the session's tree.
\<close>

section \<open>The machine as it is\<close>

function nearest :: "rule_box \<Rightarrow> folder \<Rightarrow> folder option" where
  "nearest b d = (if bx_rules b d then Some d else if d = [] then None else nearest b (butlast d))"
  by pat_completeness auto
termination
  by (relation "measure (\<lambda>(_, d). length d)") auto

declare nearest.simps [simp del]

definition rules_at :: "rule_box \<Rightarrow> folder \<Rightarrow> Rule list option" where
  "rules_at b rt = Option.bind (bx_real b rt) (\<lambda>rl. map_option (map (\<lambda>(f, t). parseRule f t)) (bx_files b rl))"

definition start_files :: "rule_box \<Rightarrow> folder \<Rightarrow> string set" where
  "start_files b cwd =
     (case nearest b cwd of
        None \<Rightarrow> {}
      | Some rt \<Rightarrow> (case rules_at b rt of Some rs \<Rightarrow> {ru_file r | r. r \<in> set rs \<and> ru_paths r = None} | None \<Rightarrow> {}))"

text \<open>The rules in the context, from the entries after the last compaction.\<close>

definition held_files :: "branch_entry list \<Rightarrow> string list" where
  "held_files es = foldl (\<lambda>a e. case e of CompactionEntry \<Rightarrow> [] | RulesEntry fs \<Rightarrow> a @ fs | OtherEntry \<Rightarrow> a) [] es"

inductive rules_step :: "rule_box \<Rightarrow> bool \<Rightarrow> rule_chat \<Rightarrow> rule_chat \<Rightarrow> bool" for b moves where
  tool_call: "rules_step b moves c (snd (on_tool_result b tool input c))"
| model_call: "rules_step b moves c (snd (on_context b c))"
| other: "rules_step b moves c (c\<lparr>rc_branch := rc_branch c @ [OtherEntry]\<rparr>)"
| compact: "rules_step b moves c (c\<lparr>rc_branch := rc_branch c @ [CompactionEntry], rc_session := compacted (rc_session c)\<rparr>)"
| reload: "rules_step b moves c (c\<lparr>rc_session := new_session\<rparr>)"
| move: "moves \<Longrightarrow> rules_step b moves c (c\<lparr>rc_branch := take n (rc_branch c)\<rparr>)"

definition rules_start :: "rule_chat \<Rightarrow> bool" where
  "rules_start c \<longleftrightarrow> rc_branch c = [] \<and> rc_session c = new_session"

section \<open>What a session keeps\<close>

definition cache_ok :: "rule_box \<Rightarrow> SessionRules \<Rightarrow> bool" where
  "cache_ok b s \<longleftrightarrow> (\<forall>d r. sr_roots s d = Some r \<longrightarrow> r = nearest b d) \<and>
     (\<forall>rl rs. sr_rules s rl = Some rs \<longrightarrow> (\<exists>fs. bx_files b rl = Some fs \<and> rs = map (\<lambda>(f, t). parseRule f t) fs)) \<and>
     (\<forall>p. sr_prefix s = Some p \<longrightarrow> su_files p = start_files b (su_cwd p))"

definition rules_inv :: "rule_box \<Rightarrow> bool \<Rightarrow> rule_chat \<Rightarrow> bool" where
  "rules_inv b moves c \<longleftrightarrow> cache_ok b (rc_session c) \<and>
     (\<not> moves \<longrightarrow> distinct (held_files (rc_branch c)) \<and> set (held_files (rc_branch c)) \<inter> start_files b (rc_cwd c) = {} \<and>
       (\<forall>a. sr_appended (rc_session c) = Some a \<longrightarrow> a = set (held_files (rc_branch c))))"

lemma held_simps [simp]:
  "held_files [] = []" "held_files (es @ [CompactionEntry]) = []" "held_files (es @ [OtherEntry]) = held_files es" "held_files (es @ [RulesEntry fs]) = held_files es @ fs"
  by (simp_all add: held_files_def)

lemma appended_held: "foldl appended_step {} es = set (held_files es)"
proof (induction es rule: rev_induct)
  case (snoc e es)
  then show ?case by (cases e) simp_all
qed simp

lemma climb_nearest:
  assumes "\<forall>d r. roots d = Some r \<longrightarrow> r = nearest b d"
  shows "snd (climb b roots d) = nearest b d \<and> (\<forall>x \<in> set (fst (climb b roots d)). nearest b x = nearest b d)"
  using assms
proof (induction b roots d rule: climb.induct)
  case (1 b roots d)
  show ?case
  proof (cases "roots d")
    case None
    show ?thesis
    proof (cases "bx_rules b d \<or> d = []")
      case True
      then have "nearest b d = (if bx_rules b d then Some d else None)" by (subst nearest.simps) auto
      then show ?thesis using None True by (subst (1 2) climb.simps) auto
    next
      case False
      then have n: "nearest b d = nearest b (butlast d)" by (subst nearest.simps) simp
      show ?thesis using 1 None False n by (subst (1 2) climb.simps) (auto split: prod.splits)
    qed
  next
    case (Some r)
    then show ?thesis using 1(2) by (subst (1 2) climb.simps) simp
  qed
qed

lemma fold_upd: "fold (\<lambda>d m. m(d \<mapsto> v)) ds m x = (if x \<in> set ds then Some v else m x)"
  by (induction ds arbitrary: m) auto

lemma rootOf_nearest:
  assumes "cache_ok b s" and "rootOf b d s = (r, s')"
  shows "r = nearest b d" and "cache_ok b s'" and "sr_prefix s' = sr_prefix s \<and> sr_appended s' = sr_appended s"
proof -
  obtain seen r0 where c: "climb b (sr_roots s) d = (seen, r0)" by fastforce
  have "\<forall>d r. sr_roots s d = Some r \<longrightarrow> r = nearest b d" using assms(1) by (simp add: cache_ok_def)
  from climb_nearest[OF this, of d] c have n: "r0 = nearest b d" "\<forall>x \<in> set seen. nearest b x = nearest b d" by auto
  have s': "r = r0" "s' = s\<lparr>sr_roots := fold (\<lambda>d m. m(d \<mapsto> r0)) seen (sr_roots s)\<rparr>" using assms(2) c by (auto simp: rootOf_def)
  show "r = nearest b d" "cache_ok b s'" "sr_prefix s' = sr_prefix s \<and> sr_appended s' = sr_appended s"
    using assms(1) n by (auto simp: s' cache_ok_def fold_upd split: if_splits)
qed

lemma rulesOf_at:
  assumes "cache_ok b s" and "rulesOf b rt s = (rs, s')"
  shows "rs = rules_at b rt" and "cache_ok b s'" and "sr_prefix s' = sr_prefix s \<and> sr_appended s' = sr_appended s"
proof -
  have "rs = rules_at b rt \<and> cache_ok b s' \<and> sr_prefix s' = sr_prefix s \<and> sr_appended s' = sr_appended s"
  proof (cases "bx_real b rt")
    case None
    then show ?thesis using assms by (auto simp: rulesOf_def rules_at_def)
  next
    case (Some rl)
    show ?thesis
    proof (cases "sr_rules s rl")
      case None
      then show ?thesis using assms Some by (cases "bx_files b rl") (auto simp: rulesOf_def rules_at_def cache_ok_def Let_def split: if_splits)
    next
      case (Some rs0)
      then obtain fs where "bx_files b rl = Some fs" "rs0 = map (\<lambda>(f, t). parseRule f t) fs" using assms(1) unfolding cache_ok_def by blast
      then show ?thesis using assms Some \<open>bx_real b rt = Some rl\<close> by (auto simp: rulesOf_def rules_at_def)
    qed
  qed
  then show "rs = rules_at b rt" "cache_ok b s'" "sr_prefix s' = sr_prefix s \<and> sr_appended s' = sr_appended s" by auto
qed

lemma startup_files:
  assumes "cache_ok b s" and "startup b cwd s = (p, s')"
  shows "cache_ok b s' \<and> sr_appended s' = sr_appended s \<and> (\<forall>q. p = Some q \<longrightarrow> su_files q = start_files b cwd)"
proof -
  have fresh: "cache_ok b s' \<and> sr_appended s' = sr_appended s \<and> (\<forall>q. p = Some q \<longrightarrow> su_files q = start_files b cwd)" if f: "fresh_start b cwd s = (p, s')"
  proof -
    obtain r s1 where r: "rootOf b cwd s = (r, s1)" by fastforce
    note rn = rootOf_nearest[OF assms(1) r]
    show ?thesis
    proof (cases r)
      case None
      then show ?thesis using f r rn by (auto simp: fresh_start_def Let_def cache_ok_def start_files_def)
    next
      case (Some rt)
      obtain rs s2 where rs: "rulesOf b rt s1 = (rs, s2)" by fastforce
      note ra = rulesOf_at[OF rn(2) rs]
      have nr: "nearest b cwd = Some rt" using rn(1) Some by simp
      show ?thesis
      proof (cases rs)
        case None
        then show ?thesis using f r rs Some rn(3) ra by (auto simp: fresh_start_def)
      next
        case s: (Some l)
        have sf: "start_files b cwd = set (map ru_file (filter (\<lambda>r. ru_paths r = None) l))" 
        proof -
          have "rules_at b rt = Some l" using ra(1) s by simp
          then show ?thesis using nr by (auto simp: start_files_def)
        qed
        have "p = Some \<lparr>su_cwd = cwd, su_text = start_text (the (bx_real b rt)) (filter (\<lambda>r. ru_paths r = None) l), su_files = set (map ru_file (filter (\<lambda>r. ru_paths r = None) l))\<rparr>"
            "s' = s2\<lparr>sr_prefix := p\<rparr>" using f r rs Some s by (auto simp: fresh_start_def Let_def)
        then show ?thesis using ra rn(3) sf by (auto simp: cache_ok_def)
      qed
    qed
  qed
  show ?thesis
  proof (cases "sr_prefix s")
    case None
    then show ?thesis using fresh assms by (simp add: startup_def)
  next
    case (Some q)
    then show ?thesis using fresh assms by (auto simp: startup_def cache_ok_def split: if_splits)
  qed
qed


text \<open>The rules of the nearest repo that a file brings in.\<close>

definition wanted :: "rule_box \<Rightarrow> folder \<Rightarrow> Rule \<Rightarrow> bool" where
  "wanted b p r \<longleftrightarrow>
     (\<exists>rt rs. nearest b (butlast p) = Some rt \<and> rules_at b rt = Some rs \<and> r \<in> set rs \<and>
        js_join ''/'' (drop (length rt) p) \<noteq> [] \<and> \<not> prefix ''..'' (js_join ''/'' (drop (length rt) p)) \<and> rule_for (js_join ''/'' (drop (length rt) p)) r)"

definition added :: "string set \<Rightarrow> (Rule \<Rightarrow> bool) \<Rightarrow> Rule list \<Rightarrow> Rule list \<Rightarrow> bool" where
  "added have P out out' \<longleftrightarrow> (distinct (map ru_file out) \<longrightarrow> distinct (map ru_file out')) \<and> set out \<subseteq> set out' \<and>
     (\<forall>r \<in> set out'. r \<in> set out \<or> ru_file r \<notin> have \<and> P r) \<and> (\<forall>r. P r \<longrightarrow> ru_file r \<in> have \<union> ru_file ` set out')"

lemma added_trans: "added have P out out1 \<Longrightarrow> added have Q out1 out2 \<Longrightarrow> added have (\<lambda>r. P r \<or> Q r) out out2"
  unfolding added_def by blast

lemma add_rules_added: "added have (\<lambda>r. r \<in> set rs \<and> rule_for rel r) out (add_rules have rel rs out)"
proof (induction rs arbitrary: out)
  case Nil
  then show ?case by (simp add: added_def add_rules_def)
next
  case (Cons r rs)
  let ?out = "if ru_file r \<in> have \<union> set (map ru_file out) \<or> \<not> rule_for rel r then out else out @ [r]"
  have "added have (\<lambda>q. q = r \<and> rule_for rel q) out ?out" by (auto simp: added_def)
  from added_trans[OF this Cons.IH[of ?out]]
  have "added have (\<lambda>q. q = r \<and> rule_for rel q \<or> q \<in> set rs \<and> rule_for rel q) out (add_rules have rel rs ?out)" .
  moreover have "(\<lambda>q. q = r \<and> rule_for rel q \<or> q \<in> set rs \<and> rule_for rel q) = (\<lambda>q. q \<in> set (r # rs) \<and> rule_for rel q)" by auto
  ultimately show ?case by (simp add: add_rules_def)
qed

lemma touch_path_added:
  assumes "cache_ok b s" and "touch_path b have p out s = (res, s')"
  shows "cache_ok b s' \<and> sr_prefix s' = sr_prefix s \<and> sr_appended s' = sr_appended s \<and> (\<forall>out'. res = Some out' \<longrightarrow> added have (wanted b p) out out')"
proof -
  obtain r s1 where r: "rootOf b (butlast p) s = (r, s1)" by fastforce
  note rn = rootOf_nearest[OF assms(1) r]
  have none: "added have (wanted b p) out out" if "\<And>q. \<not> wanted b p q" using that by (simp add: added_def)
  show ?thesis
  proof (cases r)
    case None
    then show ?thesis using assms(2) r rn none by (auto simp: touch_path_def wanted_def)
  next
    case (Some rt)
    let ?rel = "js_join ''/'' (drop (length rt) p)"
    have nr: "nearest b (butlast p) = Some rt" using rn(1) Some by simp
    show ?thesis
    proof (cases "?rel = [] \<or> prefix ''..'' ?rel")
      case True
      then show ?thesis using assms(2) r rn(2,3) none nr Some by (auto simp: touch_path_def wanted_def)
    next
      case False
      obtain rs s2 where rs: "rulesOf b rt s1 = (rs, s2)" by fastforce
      note ra = rulesOf_at[OF rn(2) rs]
      show ?thesis
      proof (cases rs)
        case None
        then show ?thesis using assms(2) r rs Some False ra rn(3) by (auto simp: touch_path_def Let_def)
      next
        case l: (Some l)
        have "rules_at b rt = Some l" using ra(1) l by simp
        then have "wanted b p = (\<lambda>q. q \<in> set l \<and> rule_for ?rel q)" using nr False by (auto simp: wanted_def fun_eq_iff)
        moreover have "res = Some (add_rules have ?rel l out)" "s' = s2" using assms(2) r rs Some False l by (auto simp: touch_path_def Let_def)
        ultimately show ?thesis using add_rules_added[of "have" l ?rel out] ra(2,3) rn(3) by simp
      qed
    qed
  qed
qed

lemma touch_all_added:
  assumes "cache_ok b s" and "touch_all b have ps out s = (res, s')"
  shows "cache_ok b s' \<and> sr_prefix s' = sr_prefix s \<and> sr_appended s' = sr_appended s \<and>
    (\<forall>out'. res = Some out' \<longrightarrow> added have (\<lambda>r. \<exists>p \<in> set ps. wanted b p r) out out')"
  using assms
proof (induction ps arbitrary: out s)
  case Nil
  then show ?case by (auto simp: added_def)
next
  case (Cons p ps)
  obtain o1 s1 where t: "touch_path b have p out s = (o1, s1)" by fastforce
  note tp = touch_path_added[OF Cons.prems(1) t]
  show ?case
  proof (cases o1)
    case None
    then show ?thesis using Cons.prems(2) t tp by simp
  next
    case (Some out1)
    have "touch_all b have ps out1 s1 = (res, s')" using Cons.prems(2) t Some by simp
    with Cons.IH[OF _ this] tp have ih: "cache_ok b s' \<and> sr_prefix s' = sr_prefix s1 \<and> sr_appended s' = sr_appended s1 \<and>
        (\<forall>out'. res = Some out' \<longrightarrow> added have (\<lambda>r. \<exists>p \<in> set ps. wanted b p r) out1 out')" by simp
    have "(\<lambda>r. \<exists>q \<in> set (p # ps). wanted b q r) = (\<lambda>r. wanted b p r \<or> (\<exists>q \<in> set ps. wanted b q r))" by auto
    then show ?thesis using ih tp Some added_trans by auto
  qed
qed

text \<open>A tool call that reads its rules: what it adds, and what is in the context after it.\<close>

lemma newRules_added:
  assumes "cache_ok b s" and "newRules b branch cwd tool input s = (res, s')"
    and a: "case sr_appended s of Some a \<Rightarrow> a = held | None \<Rightarrow> foldl appended_step {} branch = held"
  shows "cache_ok b s' \<and> (case res of
      Some out \<Rightarrow> sr_appended s' = Some (held \<union> ru_file ` set out) \<and>
        added (start_files b cwd \<union> held) (\<lambda>r. \<exists>p \<in> set (touchedPaths b tool input cwd). wanted b p r) [] out
    | None \<Rightarrow> sr_appended s' = sr_appended s \<or> sr_appended s' = Some held)"
proof -
  obtain p s1 where st: "startup b cwd s = (p, s1)" by fastforce
  note su = startup_files[OF assms(1) st]
  show ?thesis
  proof (cases p)
    case None
    then show ?thesis using assms(2) st su by (simp add: newRules_def)
  next
    case (Some q)
    obtain a0 s2 where ap: "appendedSet branch s1 = (a0, s2)" by fastforce
    have "a0 = held \<and> cache_ok b s2 \<and> sr_appended s2 = Some held" using ap su a by (auto simp: appendedSet_def cache_ok_def split: option.splits)
    then have a2: "a0 = held" "cache_ok b s2" "sr_appended s2 = Some held" by auto
    obtain o1 s3 where t: "touch_all b (su_files q \<union> a0) (touchedPaths b tool input cwd) [] s2 = (o1, s3)" by fastforce
    note tt = touch_all_added[OF a2(2) t]
    have q: "su_files q = start_files b cwd" using su Some by simp
    show ?thesis
    proof (cases o1)
      case None
      then show ?thesis using assms(2) st Some ap t tt a2 by (simp add: newRules_def)
    next
      case o: (Some out)
      have "res = Some out" "s' = s3\<lparr>sr_appended := Some (a0 \<union> set (map ru_file out))\<rparr>" using assms(2) st Some ap t o by (auto simp: newRules_def)
      then show ?thesis using tt o a2 q by (auto simp: cache_ok_def)
    qed
  qed
qed


lemma tool_keeps:
  assumes "rules_inv b moves c"
  shows "rules_inv b moves (snd (on_tool_result b tool input c))"
proof -
  let ?s = "rc_session c"
  define held where "held = (case sr_appended ?s of Some a \<Rightarrow> a | None \<Rightarrow> foldl appended_step {} (rc_branch c))"
  obtain res s' where n: "newRules b (rc_branch c) (rc_cwd c) tool input ?s = (res, s')" by fastforce
  have ok: "cache_ok b ?s" using assms by (simp add: rules_inv_def)
  have h: "case sr_appended ?s of Some a \<Rightarrow> a = held | None \<Rightarrow> foldl appended_step {} (rc_branch c) = held" by (simp add: held_def split: option.split)
  note na = newRules_added[OF ok n h]
  have eq: "held = set (held_files (rc_branch c))" if "\<not> moves" using assms that by (auto simp: rules_inv_def held_def appended_held split: option.split)
  show ?thesis
  proof (cases res)
    case None
    then have "snd (on_tool_result b tool input c) = c\<lparr>rc_session := s'\<rparr>" using n by (simp add: on_tool_result_def)
    then show ?thesis using assms na None eq by (auto simp: rules_inv_def)
  next
    case (Some out)
    have ad: "added (start_files b (rc_cwd c) \<union> held) (\<lambda>r. \<exists>p \<in> set (touchedPaths b tool input (rc_cwd c)). wanted b p r) [] out"
        and ap: "sr_appended s' = Some (held \<union> ru_file ` set out)" and co: "cache_ok b s'" using na Some by auto
    have d: "distinct (map ru_file out)" "\<forall>r \<in> set out. ru_file r \<notin> start_files b (rc_cwd c) \<union> held" using ad by (auto simp: added_def)
    show ?thesis
    proof (cases "out = []")
      case True
      then have "snd (on_tool_result b tool input c) = c\<lparr>rc_session := s'\<rparr>" using n Some by (simp add: on_tool_result_def)
      then show ?thesis using assms co ap eq True by (auto simp: rules_inv_def)
    next
      case False
      then have "snd (on_tool_result b tool input c) = c\<lparr>rc_session := s', rc_branch := rc_branch c @ [RulesEntry (map ru_file out)]\<rparr>"
        using n Some by (simp add: on_tool_result_def)
      then show ?thesis using assms co ap eq d by (auto simp: rules_inv_def)
    qed
  qed
qed

lemma rules_step_inv:
  assumes "rules_inv b moves c" and "rules_step b moves c c'"
  shows "rules_inv b moves c'"
  using assms(2)
proof (cases rule: rules_step.cases)
  case (tool_call tool input)
  then show ?thesis using tool_keeps[OF assms(1)] by simp
next
  case model_call
  obtain p s where st: "startup b (rc_cwd c) (rc_session c) = (p, s)" by fastforce
  have "cache_ok b (rc_session c)" using assms(1) by (simp add: rules_inv_def)
  from startup_files[OF this st] show ?thesis using assms(1) model_call st by (auto simp: rules_inv_def on_context_def)
next
  case compact
  then show ?thesis using assms(1) by (auto simp: rules_inv_def cache_ok_def compacted_def)
next
  case reload
  then show ?thesis using assms(1) by (auto simp: rules_inv_def cache_ok_def new_session_def)
qed (use assms(1) in \<open>auto simp: rules_inv_def\<close>)

lemma rules_start_inv: "rules_start c \<Longrightarrow> rules_inv b moves c"
  by (simp add: rules_start_def rules_inv_def cache_ok_def new_session_def)

interpretation rf: step_invariant rules_start "rules_step b moves" "rules_inv b moves" for b moves
  by unfold_locales (auto intro: rules_start_inv rules_step_inv)

section \<open>What the model sees\<close>

text \<open>
  C33. A rule is in the context at most once: over any run of tool calls, model calls, compactions and reloads, no rule file is named twice by the entries since the last
  compaction, and none of them is a rule of the start-up message.
\<close>

theorem rules_in_context_once:
  assumes "rules_start c" and "(rules_step b False)\<^sup>*\<^sup>* c d"
  shows "distinct (held_files (rc_branch d)) \<and> set (held_files (rc_branch d)) \<inter> start_files b (rc_cwd d) = {}"
  using rf.inv_reach[OF assms] by (simp add: rules_inv_def)



section \<open>Runs on values\<close>

definition ex_box :: rule_box where
  "ex_box = \<lparr>bx_home = ''/h'', bx_exists = (\<lambda>_. True), bx_steps = (\<lambda>_. []), bx_rules = (\<lambda>d. d = [''r'']), bx_real = Some,
     bx_files = (\<lambda>d. if d = [''r''] then Some [(''a.md'', rule_text [''*.ts''] ''Do it.''), (''b.md'', ''Always.'')] else None)\<rparr>"

definition ex_input :: json where
  "ex_input = JObj [(''path'', JStr ''/r/x.ts'')]"

definition ex_chat :: rule_chat where
  "ex_chat = \<lparr>rc_cwd = [''h''], rc_branch = [], rc_session = new_session\<rparr>"

definition ex_scoped :: Rule where
  "ex_scoped = \<lparr>ru_file = ''a.md'', ru_paths = Some [globRegex ''*.ts''], ru_globs = [''*.ts''], ru_body = ''Do it.''\<rparr>"

definition ex_always :: Rule where
  "ex_always = \<lparr>ru_file = ''b.md'', ru_paths = None, ru_globs = [], ru_body = ''Always.''\<rparr>"

lemma ex_rules: "map (\<lambda>(f, t). parseRule f t) (the (bx_files ex_box [''r''])) = [ex_scoped, ex_always]"
proof -
  have "parseRule ''a.md'' (rule_text [''*.ts''] ''Do it.'') = ex_scoped"
    using rule_reads_back[of "[''*.ts'']" "''a.md''" "''Do it.''"] by (simp add: line_term_def ex_scoped_def js_trim_def js_ws_def)
  moreover have "parseRule ''b.md'' ''Always.'' = ex_always" by (simp add: parseRule_def front_matter_def ex_always_def js_trim_def js_ws_def)
  ultimately show ?thesis by (simp add: ex_box_def)
qed

lemma ex_touched: "touchedPaths ex_box ''read'' ex_input [''h''] = [[''r'', ''x.ts'']]"
  by code_simp

lemma ex_for: "rule_for ''x.ts'' ex_scoped" "rule_for ''x.ts'' ex_always"
  by (code_simp, code_simp)



definition ex_told :: rule_chat where
  "ex_told = snd (on_tool_result ex_box ''read'' ex_input ex_chat)"

lemma ex_told_run: "rules_start ex_chat" "(rules_step ex_box moves)\<^sup>*\<^sup>* ex_chat ex_told"
proof -
  show "rules_start ex_chat" by (simp add: rules_start_def ex_chat_def)
  have "rules_step ex_box moves ex_chat ex_told" unfolding ex_told_def by (rule rules_step.tool_call)
  then show "(rules_step ex_box moves)\<^sup>*\<^sup>* ex_chat ex_told" by (rule r_into_rtranclp)
qed

lemma ex_told_branch: "rc_branch ex_told = [RulesEntry [''a.md'', ''b.md'']]" "rc_cwd ex_told = [''h'']"
  by (code_simp, code_simp)

lemma ex_wanted: "wanted ex_box [''r'', ''x.ts''] ex_scoped"
proof -
  have n: "nearest ex_box [''r''] = Some [''r'']" by (subst nearest.simps) (simp add: ex_box_def)
  have "rules_at ex_box [''r''] = Some [ex_scoped, ex_always]" using ex_rules by (simp add: rules_at_def ex_box_def)
  then show ?thesis using n ex_for(1) by (simp add: wanted_def)
qed

lemma ex_start_files: "start_files ex_box [''h''] = {}"
proof -
  have "nearest ex_box [] = None" by (subst nearest.simps) (simp add: ex_box_def)
  then have "nearest ex_box [''h''] = None" by (subst nearest.simps) (simp add: ex_box_def)
  then show ?thesis by (simp add: start_files_def)
qed

lemma rules_in_context_once_witness: "distinct (held_files (rc_branch ex_told)) \<and> held_files (rc_branch ex_told) = [''a.md'', ''b.md'']"
  using rules_in_context_once[OF ex_told_run(1) ex_told_run(2)] by (simp add: ex_told_branch held_files_def)


text \<open>
  After a move to an earlier point of the session's tree the set in memory still names the rules of the branch that was left: a touch of a matching file adds nothing,
  and the rule is neither in the start-up message nor in the entries of the branch.
\<close>

lemma moved_branch_forgets:
  "\<exists>d. (rules_step ex_box True)\<^sup>*\<^sup>* ex_chat d \<and> [''r'', ''x.ts''] \<in> set (touchedPaths ex_box ''read'' ex_input (rc_cwd d)) \<and> wanted ex_box [''r'', ''x.ts''] ex_scoped \<and>
     fst (newRules ex_box (rc_branch d) (rc_cwd d) ''read'' ex_input (rc_session d)) = Some [] \<and>
     ru_file ex_scoped \<notin> start_files ex_box (rc_cwd d) \<union> set (held_files (rc_branch (snd (on_tool_result ex_box ''read'' ex_input d))))"
proof -
  let ?d = "ex_told\<lparr>rc_branch := take 0 (rc_branch ex_told)\<rparr>"
  have "rules_step ex_box True ex_told ?d" by (rule rules_step.move) simp
  then have run: "(rules_step ex_box True)\<^sup>*\<^sup>* ex_chat ?d" using ex_told_run(2) by (meson rtranclp.rtrancl_into_rtrancl)
  have n: "fst (newRules ex_box [] [''h''] ''read'' ex_input (rc_session ex_told)) = Some []" by code_simp
  then have "rc_branch (snd (on_tool_result ex_box ''read'' ex_input ?d)) = []"
    by (cases "newRules ex_box [] [''h''] ''read'' ex_input (rc_session ex_told)") (simp add: on_tool_result_def ex_told_branch)
  then show ?thesis using run n ex_wanted by (intro exI[of _ ?d]) (simp add: ex_told_branch ex_touched ex_start_files)
qed

end
