(* ===== verification/DutyRun.thy ===== *)
theory DutyRun
  imports DutyFixes DutyStreak BriefCap
begin

text \<open>
  One duty run of the chat server (\<open>apps/chat/server/duty-run.ts\<close>): the precheck and its state file, the record of a run, its fix steps, and the brief of the job that
  a run with something due starts. The precheck's command, the clock and the number texts are arguments; paths are texts.
\<close>

section \<open>The precheck\<close>

definition intervalMs :: "Duty \<Rightarrow> rat" where
  "intervalMs d = (case du_schedule d of Every m \<Rightarrow> of_int (m * 60000) | Daily _ \<Rightarrow> 24 * 60 * 60000)"

definition precheckHardStopMs :: "Duty \<Rightarrow> rat" where
  "precheckHardStopMs d = max (intervalMs d) (pc_timeoutMs (du_precheck d))"

definition runStamp :: "int \<Rightarrow> string" where
  "runStamp at' =
     (let ms = at' + 9 * 3600000 in
      case civil (ms div 86400000) of (y, m, d) \<Rightarrow>
        drop 2 (show_int y) @ pad2 m @ pad2 d @ ''-'' @ pad2 (nat ((ms div 3600000) mod 24)) @ pad2 (nat ((ms div 60000) mod 60)) @ pad2 (nat ((ms div 1000) mod 60)))"

datatype precheck_mode = RunMode | AfterMode

text \<open>How the command ended, what it left in the next state file (\<open>None\<close>: no file), and what its output file holds.\<close>

datatype script_end = ScriptOk | ScriptKilled | ScriptExit int | ScriptError string

datatype output_file = NoJson | NoMetrics | HasMetrics PrecheckOutput

record script_run =
  sc_end :: script_end
  sc_stderr :: string
  sc_next :: "string option"
  sc_output :: output_file

type_synonym script = "precheck_mode \<Rightarrow> string \<Rightarrow> DutyRunRecord list \<Rightarrow> script_run"

definition lines_end :: "nat \<Rightarrow> string list \<Rightarrow> string list" where
  "lines_end n ls = drop (length ls - n) ls"

definition script_failed :: "Duty \<Rightarrow> string \<Rightarrow> script_run \<Rightarrow> string option" where
  "script_failed d stderr_file r =
     (let words = (case sc_end r of
              ScriptOk \<Rightarrow> None
            | ScriptKilled \<Rightarrow> Some (''stopped at its hard stop after '' @ show_int (js_round (precheckHardStopMs d / 60000)) @ '' min'')
            | ScriptExit n \<Rightarrow> Some (''exit '' @ show_int n)
            | ScriptError e \<Rightarrow> Some e);
          tl' = take 300 (js_join '' '' (lines_end 3 (js_split (CHR 10) (js_trim (sc_stderr r)))))
      in map_option (\<lambda>w. w @ (if tl' \<noteq> [] then '': '' @ tl' else []) @ '' (all of stderr: '' @ stderr_file @ '')'') words)"

text \<open>The output, and the state file after it: it moves on only with a good run. A run whose next state file is gone fails at its rename.\<close>

definition precheck :: "script \<Rightarrow> Duty \<Rightarrow> string \<Rightarrow> DutyRunRecord list \<Rightarrow> precheck_mode \<Rightarrow> string option \<Rightarrow> PrecheckOutput res \<times> string option" where
  "precheck script d stderr_file last_runs mode state =
     (let r = script mode (case state of Some s \<Rightarrow> s | None \<Rightarrow> ''{}'') last_runs in
      case script_failed d stderr_file r of
        Some e \<Rightarrow> (Inl e, state)
      | None \<Rightarrow>
          (case sc_output r of
             NoJson \<Rightarrow> (Inl ''no valid JSON in OUTPUT_FILE'', state)
           | NoMetrics \<Rightarrow> (Inl ''OUTPUT_FILE has no metrics object'', state)
           | HasMetrics out \<Rightarrow>
               if mode = AfterMode then (Inr out, state)
               else (case sc_next r of Some n \<Rightarrow> (Inr out, Some n) | None \<Rightarrow> (Inl ''ENOENT: no such file or directory, rename'', state))))"

definition after_of :: "int \<Rightarrow> judged \<Rightarrow> (string \<times> rat) list option \<Rightarrow> string option \<Rightarrow> AfterMeasure" where
  "after_of at' j readings away =
     \<lparr>am_at = at', am_verdict = jd_verdict j, am_metrics = jd_metrics j, am_summary = jd_summary j, am_parts = jd_parts j, am_readings = readings,
       am_items = jd_items j, am_hostAway = away\<rparr>"

definition measureAfter :: "script \<Rightarrow> Duty \<Rightarrow> string \<Rightarrow> DutyRunRecord list \<Rightarrow> int \<Rightarrow> string option \<Rightarrow> AfterMeasure \<times> string option" where
  "measureAfter script d stderr_file rs at' state =
     (let last_runs = take 10 (filter (\<lambda>r. rn_verdict r \<noteq> Skipped) rs) in
      case precheck script d stderr_file last_runs AfterMode state of
        (Inr out, state') \<Rightarrow> (after_of at' (judge (du_metrics d) out (Some (at', last_runs))) (outputReadings (du_readings d) out) (hostAwayOf out), state')
      | (Inl e, state') \<Rightarrow>
          (\<lparr>am_at = at', am_verdict = Error, am_metrics = [], am_summary = ''the after-job measure failed: '' @ take 300 e, am_parts = None, am_readings = None,
             am_items = None, am_hostAway = None\<rparr>, state'))"

definition asAfter :: "DutyRunRecord \<Rightarrow> AfterMeasure option" where
  "asAfter r =
     (if rn_verdict r \<noteq> Met \<and> rn_verdict r \<noteq> Missed then None
      else Some \<lparr>am_at = rn_at r, am_verdict = rn_verdict r, am_metrics = rn_metrics r, am_summary = rn_summary r, am_parts = rn_parts r,
        am_readings = rn_readings r, am_items = rn_items r, am_hostAway = None\<rparr>)"

section \<open>Fix steps\<close>

text \<open>Whether an object has a value under a key: of the names every object has, only \<open>constructor\<close> can be a metric key.\<close>

definition has_value :: "(string \<times> 'a) list \<Rightarrow> string \<Rightarrow> bool" where
  "has_value o' k \<longleftrightarrow> map_of o' k \<noteq> None \<or> k = ''constructor''"

definition fix_key :: "string \<Rightarrow> PlanItem \<Rightarrow> string option" where
  "fix_key duty p =
     (if \<not> is_open p then None
      else (case pf_duty (item p) of
          Some d \<Rightarrow>
            (case js_split (CHR ''/'') d of
               i # k # _ \<Rightarrow> if d \<noteq> [] \<and> i = duty \<and> k \<noteq> [] then Some k else None
             | _ \<Rightarrow> None)
        | None \<Rightarrow> None))"

definition plain_link :: "(string \<Rightarrow> bool) \<Rightarrow> PlanItem \<Rightarrow> FixLink" where
  "plain_link liveJob p =
     \<lparr>fl_step = item_id p, fl_job = truthy (pf_job (item p)), fl_live = (case truthy (pf_job (item p)) of Some j \<Rightarrow> liveJob j | None \<Rightarrow> False), fl_hold = None,
       fl_target = None, fl_stalled = None\<rparr>"

definition fixesOn :: "ChatBoard option \<Rightarrow> string \<Rightarrow> string list \<Rightarrow> (string \<Rightarrow> bool) \<Rightarrow> (string \<times> FixLink) list" where
  "fixesOn b duty keys liveJob =
     fold (\<lambda>p out.
         case fix_key duty p of
           Some k \<Rightarrow> if k \<notin> set keys \<or> has_value out k then out else out @ [(k, plain_link liveJob p)]
         | None \<Rightarrow> out)
       (map fst (walk_plan [] (board_plan b))) []"

section \<open>A run and its brief\<close>

definition para :: string where
  "para = [CHR 10, CHR 10]"

definition join_texts :: "string list \<Rightarrow> string" where
  "join_texts ts = js_join para (filter (\<lambda>t. t \<noteq> []) ts)"

definition flaggedSection :: "FlaggedSlice list \<Rightarrow> string" where
  "flaggedSection flagged =
     (if flagged = [] then []
      else js_join [CHR 10] (''## Flagged'' # map (\<lambda>s. ''- '' @ fs_kind s @ (case truthy (fs_item s) of Some i \<Rightarrow> '' ('' @ i @ '')'' | None \<Rightarrow> []) @ '': '' @ fs_excerpt s) flagged))"

record run_input =
  ri_duty :: Duty
  ri_chat :: "string \<times> string"
  ri_dir :: string
  ri_trigger :: DutyTrigger
  ri_previous :: "DutyRunRecord list"
  ri_board :: "ChatBoard option"
  ri_liveJob :: "string \<Rightarrow> bool"
  ri_boardApi :: string
  ri_started :: int
  ri_ms :: nat
  ri_took :: rat

definition run_file :: "run_input \<Rightarrow> string \<Rightarrow> string" where
  "run_file i ending = ri_dir i @ ''/'' @ du_id (ri_duty i) @ ''-'' @ runStamp (ri_started i) @ ending"

definition overrun_of :: "run_input \<Rightarrow> PrecheckOverrun option" where
  "overrun_of i = (let t = pc_timeoutMs (du_precheck (ri_duty i)) in if ri_took i > t then Some \<lparr>ov_ms = ri_took i, ov_targetMs = t\<rparr> else None)"

definition base_record :: "run_input \<Rightarrow> DutyVerdict \<Rightarrow> results \<Rightarrow> string \<Rightarrow> DutyRunRecord" where
  "base_record i v ms sm =
     \<lparr>rn_duty = du_id (ri_duty i), rn_at = ri_started i, rn_slot = Some (ri_started i), rn_trigger = ri_trigger i, rn_ms = ri_ms i, rn_verdict = v, rn_metrics = ms,
       rn_summary = sm, rn_detail = None, rn_error = None, rn_parts = None, rn_readings = None, rn_items = None, rn_classes = None, rn_flagged = None, rn_job = None,
       rn_overrun = overrun_of i, rn_fixes = None, rn_after = None, rn_cut = None, rn_rerunOf = None, rn_hostAway = None, rn_keptAt = None\<rparr>"

definition first_record :: "run_input \<Rightarrow> PrecheckOutput res \<Rightarrow> DutyRunRecord" where
  "first_record i res =
     (case res of
        Inl e \<Rightarrow> (base_record i Error [] ''the precheck failed'')\<lparr>rn_error := Some (take 500 e)\<rparr>
      | Inr out \<Rightarrow>
          (let j = judge (du_metrics (ri_duty i)) out (Some (ri_started i, ri_previous i)) in
           (base_record i (jd_verdict j) (jd_metrics j) (jd_summary j))\<lparr>rn_detail := Some (run_file i ''.json''),
             rn_error := (if jd_verdict j = Error then Some (jd_summary j) else None), rn_parts := jd_parts j, rn_readings := outputReadings (du_readings (ri_duty i)) out,
             rn_items := jd_items j, rn_hostAway := hostAwayOf out\<rparr>))"

definition counted_keys :: "run_input \<Rightarrow> string list" where
  "counted_keys i = map dm_key (verdictMetrics (du_metrics (ri_duty i)))"

definition run_record :: "run_input \<Rightarrow> PrecheckOutput res \<Rightarrow> DutyRunRecord" where
  "run_record i res =
     (let r = first_record i res; missed = filter (\<lambda>k. k \<in> set (counted_keys i)) (missedKeys r) in
      if rn_verdict r = Missed then
        (let fixes = fixesOn (ri_board i) (du_id (ri_duty i)) missed (ri_liveJob i) in if fixes \<noteq> [] then r\<lparr>rn_fixes := Some fixes\<rparr> else r)
      else r)"

definition run_misses :: "run_input \<Rightarrow> DutyRunRecord \<Rightarrow> MetricStreak list" where
  "run_misses i r = (if rn_verdict r = Missed then filter (\<lambda>s. ms_key s \<in> set (counted_keys i)) (metricStreaks (r # ri_previous i)) else [])"

definition overrun_line :: "DutyRunRecord \<Rightarrow> string" where
  "overrun_line r = (case rn_overrun r of Some ov \<Rightarrow> ''This run went over: '' @ overrunWords ov @ ''. Make the precheck faster or set its timeoutMs to what it needs.'' | None \<Rightarrow> [])"

text \<open>The findings file of a measured run; \<open>isot\<close> is \<open>toISOString\<close>.\<close>

definition findings_file :: "(int \<Rightarrow> string) \<Rightarrow> run_input \<Rightarrow> DutyRunRecord \<Rightarrow> FlaggedSlice list \<Rightarrow> string" where
  "findings_file isot i r flagged =
     join_texts [''# '' @ du_name (ri_duty i) @ '' run of '' @ isot (ri_started i), ''Measured against the targets: '' @ rn_summary r @ ''.'', overrun_line r,
       ''The full precheck output is '' @ run_file i ''.json'' @ ''.'', flaggedSection flagged] @ [CHR 10]"

definition unit_of :: "DutyMetric \<Rightarrow> string" where
  "unit_of m = (case dm_unit m of Some u \<Rightarrow> u | None \<Rightarrow> [])"

definition headline_found :: "(rat \<Rightarrow> string) \<Rightarrow> Duty \<Rightarrow> DutyRunRecord \<Rightarrow> string option" where
  "headline_found num d r =
     Option.bind (headlineMetric (du_metrics d)) (\<lambda>h. map_option
       (\<lambda>v. dm_label h @ '' '' @ num (mr_value v) @ unit_of h @ '' against '' @ op_text (dm_op h) @ '' '' @ num (dm_target h) @ unit_of h) (map_of (rn_metrics r) (dm_key h)))"

definition run_findings :: "(rat \<Rightarrow> string) \<Rightarrow> run_input \<Rightarrow> DutyRunRecord \<Rightarrow> FlaggedSlice list \<Rightarrow> string" where
  "run_findings num i r flagged =
     (if rn_verdict r = Error then
        (let n = errorStreak (r # ri_previous i) in
         join_texts [''The precheck failed: '' @ (case rn_error r of Some e \<Rightarrow> e | None \<Rightarrow> rn_summary r) @ ''. '' @
           (if n \<ge> ERROR_RUNS_TARGET then ''It failed '' @ digits_of_nat n @ '' runs in a row, over the target of '' @ digits_of_nat ERROR_RUNS_TARGET @ '': fix the precheck first.''
            else ''Fix the precheck or check the duty by hand.''), overrun_line r])
      else join_texts [briefFindings (headline_found num (ri_duty i) r) flagged (map_option dm_key (headlineMetric (du_metrics (ri_duty i)))) (run_file i ''.findings.md''), overrun_line r])"

definition run_idle :: "DutyRunRecord \<Rightarrow> MetricStreak list \<Rightarrow> FlaggedSlice list \<Rightarrow> bool" where
  "run_idle r misses flagged \<longleftrightarrow> rn_verdict r = Met \<and> misses = [] \<and> rn_overrun r = None \<and> \<not> list_ex (\<lambda>s. fs_item s \<noteq> None \<or> fs_handOff s) flagged"


text \<open>\<open>- key: missed n runs in a row\<close> with its fix step.\<close>

definition missed_line :: "DutyRunRecord \<Rightarrow> MetricStreak \<Rightarrow> string" where
  "missed_line r s =
     ''- '' @ ms_key s @ '': missed '' @ digits_of_nat (ms_misses s) @ '' run'' @ (if ms_misses s = 1 then [] else ''s'') @ '' in a row'' @
     (case Option.bind (rn_fixes r) (\<lambda>fx. map_of fx (ms_key s)) of
        Some f \<Rightarrow> '', fix step '' @ fl_step f @ (case truthy (fl_job f) of Some j \<Rightarrow> '' (job '' @ j @ (if fl_live f then '', working'' else '', not working'') @ '')'' | None \<Rightarrow> [])
      | None \<Rightarrow> '', no fix step yet'') @ ''.''"

definition metric_words :: "(rat \<Rightarrow> string) \<Rightarrow> DutyMetric \<Rightarrow> string" where
  "metric_words num m = dm_key m @ '' '' @ op_text (dm_op m) @ '' '' @ num (dm_target m) @ unit_of m"

definition misses_part :: "Duty \<Rightarrow> DutyRunRecord \<Rightarrow> MetricStreak list \<Rightarrow> string list" where
  "misses_part d r misses =
     (if misses = [] then []
      else [''## Missed metrics: each one needs a fix step with a live job'' @ [CHR 10] @ js_join [CHR 10] (map (missed_line r) misses) @ para @
        ''A miss is never accepted as it stands. A fix step is a plan step with `duty` set to `'' @ du_id d @ ''/<metricKey>`.''])"

definition dutyJobBrief :: "(rat \<Rightarrow> string) \<Rightarrow> Duty \<Rightarrow> string \<times> string \<Rightarrow> int \<Rightarrow> string \<Rightarrow> string \<Rightarrow> MetricStreak list \<Rightarrow> DutyRunRecord \<Rightarrow> string \<Rightarrow> string" where
  \<open>dutyJobBrief num d chat at' said findings misses r boardApi =
     (let when = map (\<lambda>c. if c = CHR ''T'' then CHR '' '' else c) (iso_minute (at' + 9 * 3600000)) in
      js_join para
        ([''# The '' @ du_name d @ '' duty of the chat "'' @ snd chat @ ''"'',
          ''You are the duty job of the chat "'' @ snd chat @ ''" (thread '' @ fst chat @ ''), started '' @ when @
            '' KST. The chat server starts one duty job on each run of this duty that has something due, with the precheck below as context. Act as the chat's VP for this duty.'',
          ''## The duty'', ''Goal: '' @ du_goal d,
          ''Owner's words (verbatim):'' @ para @ js_join [CHR 10] (map (\<lambda>l. ''> '' @ l) (js_split (CHR 10) (du_ownerWords d)))]
         @ (if du_onMiss d \<noteq> [] then [''What to do about a miss: '' @ du_onMiss d @
              (case truthy (du_boardGoal d) of Some g \<Rightarrow> '' Fixes go under the plan item '' @ g @ ''.'' | None \<Rightarrow> [])] else [])
         @ (case headlineMetric (du_metrics d) of
              Some h \<Rightarrow> [''## Headline KPI'' @ [CHR 10] @ ''This run is judged on moving one number: '' @ dm_label h @ '' ('' @ metric_words num h @ '').'']
            | None \<Rightarrow> [])
         @ [''Targets: '' @ js_join ''; '' (map (\<lambda>m. metric_words num m @ '' ('' @ dm_label m @ '')'') (verdictMetrics (du_metrics d))) @ ''.'',
            ''## What the precheck found'',
            ''Measured against the targets: '' @ said @ ''. This is information, not a verdict: check the real state.'', findings]
         @ misses_part d r misses
         @ [''## How to work'',
            ''The precheck is `'' @ js_join '' '' (pc_command (du_precheck d)) @ ''` in '' @ pc_cwd (du_precheck d) @
              ''; read its script there and its per-run output in the findings file above.'',
            ''Search only named folders with rg, and never walk all of home with find, grep -r or a glob: home holds repo copies that take hours to scan (sieun-pi AGENTS.md rule 6).'',
            ''The chat's board is GET '' @ boardApi @ '' (JSON with the plan and the owner's todos). Change it with POST '' @ boardApi @
              '' and the body {"actor": "agent", "ops": [...]}, where the ops are the board's plan_add, plan_update, todo_add and the rest; read it first, then check the real state behind it.'',
            ''Fix what you find, script what can be scripted, and skip nitpicks. Use the subagent tool for each separate part of the work.'',
            ''## Report'',
            ''End with one plain report of at most 3 lines: the headline number and its gap, what you changed, and what is left. Send it with send_message '' @
              ''(with no such tool, make it your final answer), and the chat server posts it to the chat; when nothing needs the chat, send nothing.'']))\<close>

text \<open>The run's record, and the brief of its job when something is due.\<close>

definition measure_run :: "(rat \<Rightarrow> string) \<Rightarrow> run_input \<Rightarrow> PrecheckOutput res \<Rightarrow> DutyRunRecord \<times> string option" where
  "measure_run num i res =
     (let r = run_record i res; flagged = (case res of Inr out \<Rightarrow> flagged_of out | Inl _ \<Rightarrow> []); misses = run_misses i r in
      (r, if run_idle r misses flagged then None
          else Some (dutyJobBrief num (ri_duty i) (ri_chat i) (ri_started i)
            (if rn_verdict r = Error then ''no measure ('' @ rn_summary r @ '')'' else rn_summary r) (run_findings num i r flagged) misses r (ri_boardApi i))))"

end
