(* ===== verification/DutyRunRules.thy ===== *)
theory DutyRunRules
  imports DutyRun
begin

text \<open>
  What a duty run answers: a run with nothing due starts no job, a missed run's brief names every metric it missed with its streak, the fix steps it names are the ones
  the duty card names while a metric has one open step, and the state file moves on only with a good run.
\<close>

section \<open>Fix steps\<close>

lemma fixes_fold:
  "map_of (fold (\<lambda>p out. case fix_key duty p of
         Some k \<Rightarrow> if k \<notin> set keys \<or> has_value out k then out else out @ [(k, plain_link liveJob p)]
       | None \<Rightarrow> out) ps out) key =
   (case map_of out key of
      Some f \<Rightarrow> Some f
    | None \<Rightarrow> if key \<in> set keys \<and> key \<noteq> ''constructor'' then map_option (plain_link liveJob) (List.find (\<lambda>p. fix_key duty p = Some key) ps) else None)"
proof (induction ps arbitrary: out)
  case Nil
  then show ?case by (simp split: option.split)
next
  case (Cons p ps)
  let ?out = "case fix_key duty p of Some k \<Rightarrow> if k \<notin> set keys \<or> has_value out k then out else out @ [(k, plain_link liveJob p)] | None \<Rightarrow> out"
  have "map_of ?out key = (case map_of out key of Some f \<Rightarrow> Some f
      | None \<Rightarrow> if key \<in> set keys \<and> key \<noteq> ''constructor'' \<and> fix_key duty p = Some key then Some (plain_link liveJob p) else None)"
    by (auto simp: has_value_def map_of_append map_add_def split: option.splits)
  then show ?case by (auto simp: Cons.IH split: option.splits)
qed

lemma fixesOn_first:
  "map_of (fixesOn b duty keys liveJob) key =
     (if key \<in> set keys \<and> key \<noteq> ''constructor''
      then map_option (plain_link liveJob) (List.find (\<lambda>p. fix_key duty p = Some key) (map fst (walk_plan [] (board_plan b)))) else None)"
  by (simp add: fixesOn_def fixes_fold)

text \<open>Every duty link of a board is one that parses, as the board's operations keep it.\<close>

definition links_parse :: "ChatBoard option \<Rightarrow> bool" where
  "links_parse b \<longleftrightarrow> (\<forall>(p, _) \<in> set (walk_plan [] (board_plan b)). case pf_duty (item p) of Some d \<Rightarrow> d \<noteq> [] \<longrightarrow> parseDutyLink d \<noteq> None | None \<Rightarrow> True)"

lemma fix_key_link:
  assumes "case pf_duty (item p) of Some d \<Rightarrow> d \<noteq> [] \<longrightarrow> parseDutyLink d \<noteq> None | None \<Rightarrow> True"
  shows "fix_key duty p = Some key \<longleftrightarrow> is_open p \<and> item_link p = Some (duty, key)"
proof (cases "pf_duty (item p)")
  case (Some d)
  show ?thesis
  proof (cases "d = []")
    case False
    then obtain x y where "parseDutyLink d = Some (x, y)" using assms Some by (cases "parseDutyLink d") auto
    moreover from this have "js_split (CHR ''/'') d = [x, y]" "y \<noteq> []" by (auto simp: parseDutyLink_def KEY_def split: list.splits if_splits)
    ultimately show ?thesis using Some False by (auto simp: fix_key_def item_link_def)
  qed (use Some in \<open>simp add: fix_key_def item_link_def split: list.split\<close>)
qed (simp add: fix_key_def item_link_def)

lemma find_first_filter: "List.find P xs = (case filter P xs of x # _ \<Rightarrow> Some x | [] \<Rightarrow> None)"
  by (induction xs) auto

text \<open>
  A run names the fix step the duty card names: where a missed metric has exactly one open step on a board whose links parse, the run's record and the card's rule
  \<open>dutyFixes\<close> name that step and its job for the metric.
\<close>

lemma run_fix_is_card_fix:
  assumes "links_parse b" and "key \<in> set keys" and "key \<noteq> ''constructor''" and "filter is_open (map fst (linked b duty key)) = [p]"
  shows "map_of (fixesOn b duty keys liveJob) key = Some (plain_link liveJob p) \<and>
    map_option (\<lambda>f. (fl_step f, fl_job f)) (map_of (dutyFixes b duty keys live [] None held) key) = Some (fl_step (plain_link liveJob p), fl_job (plain_link liveJob p))"
proof -
  let ?ps = "map fst (walk_plan [] (board_plan b))"
  have "filter (\<lambda>q. fix_key duty q = Some key) ?ps = filter (\<lambda>q. is_open q \<and> item_link q = Some (duty, key)) ?ps"
    by (rule filter_cong[OF refl], rule fix_key_link) (use assms(1) in \<open>auto simp: links_parse_def\<close>)
  also have "\<dots> = filter is_open (filter (\<lambda>q. item_link q = Some (duty, key)) ?ps)" by (simp add: conj_commute)
  also have "filter (\<lambda>q. item_link q = Some (duty, key)) ?ps = map fst (linked b duty key)" by (simp add: linked_def filter_map comp_def case_prod_unfold)
  finally have "filter (\<lambda>q. fix_key duty q = Some key) ?ps = [p]" using assms(4) by simp
  then have "map_of (fixesOn b duty keys liveJob) key = Some (plain_link liveJob p)" using assms(2,3) by (simp add: fixesOn_first find_first_filter)
  moreover have "ranked_steps b duty [] None key = map fst (linked b duty key)"
  proof -
    have "\<not> list_ex (\<lambda>i. i \<in> set (List.map_filter f [])) up" for f :: "FlaggedSlice \<Rightarrow> string option" and up :: "string list"
      by (simp add: map_filter_simps list_ex_iff)
    then show ?thesis by (simp add: ranked_steps_def Let_def case_prod_unfold)
  qed
  then obtain pk where pk: "fix_pick live held (ranked_steps b duty [] None key) = Some pk" "pk_item pk = p"
    using assms(4) by (cases "asked_live live p"; cases "held p") (auto simp: fix_pick_def plain_pick_def Let_def)
  have "map_of (dutyFixes b duty keys live [] None held) key = Some (fix_link pk)"
    using pk(1) assms(2) unfolding dutyFixes_def
  proof (induction keys rule: rev_induct)
    case (snoc k ks)
    then show ?case by (cases "k = key") (auto simp: update_conv' split: option.split)
  qed simp
  ultimately show ?thesis using pk(2) by (simp add: fix_link_def plain_link_def)
qed

definition fix_board :: "ChatBoard option" where
  "fix_board = Some (ex_board 1 [PlanItem ((ex_fields ''p1'' Todo)\<lparr>pf_duty := Some ''d1/up''\<rparr>) []] [])"

lemma run_fix_is_card_fix_witness:
  "map_of (fixesOn fix_board ''d1'' [''up''] (\<lambda>_. False)) ''up'' = Some (plain_link (\<lambda>_. False) (PlanItem ((ex_fields ''p1'' Todo)\<lparr>pf_duty := Some ''d1/up''\<rparr>) []))"
proof -
  let ?p = "PlanItem ((ex_fields ''p1'' Todo)\<lparr>pf_duty := Some ''d1/up''\<rparr>) []"
  have "links_parse fix_board" "''up'' \<in> set [''up'']" "''up'' \<noteq> ''constructor''" "filter is_open (map fst (linked fix_board ''d1'' ''up'')) = [?p]"
    by code_simp+
  from run_fix_is_card_fix[OF this, of "\<lambda>_. False" "\<lambda>_. NotLive" "\<lambda>_. None"] show ?thesis by blast
qed

text \<open>
  With two open steps on one metric the two rules part: the run names the first in plan order, with no job, while the card names the step a live job is on, so the brief
  asks for a job that is there.
\<close>

definition two_fixes :: "ChatBoard option" where
  "two_fixes = Some (ex_board 1 [PlanItem ((ex_fields ''p1'' Todo)\<lparr>pf_duty := Some ''d1/up''\<rparr>) [],
     PlanItem ((ex_fields ''p2'' Doing)\<lparr>pf_duty := Some ''d1/up'', pf_job := Some ''j1''\<rparr>) []] [])"

lemma run_names_first_step:
  "map_option (\<lambda>f. (fl_step f, fl_live f)) (map_of (fixesOn two_fixes ''d1'' [''up''] (\<lambda>j. j = ''j1'')) ''up'') = Some (''p1'', False)"
  "map_option (\<lambda>f. (fl_step f, fl_live f)) (map_of (dutyFixes two_fixes ''d1'' [''up''] (\<lambda>p. if truthy (pf_job (item p)) = Some ''j1'' then Live else NotLive) [] None (\<lambda>_. None)) ''up'') =
     Some (''p2'', True)"
  by code_simp+


section \<open>The brief\<close>


lemma run_record_simps [simp]:
  "rn_verdict (run_record i res) = rn_verdict (first_record i res)" "rn_metrics (run_record i res) = rn_metrics (first_record i res)"
  "rn_after (run_record i res) = None" "rn_overrun (run_record i res) = overrun_of i"
  by (auto simp: run_record_def first_record_def base_record_def Let_def split: sum.split)









text \<open>The state file moves on only with a good run, and an after-job measure keeps it.\<close>

lemma precheck_state:
  assumes "precheck script d err rs mode state = (out, state')"
  shows "state' = state \<or> mode = RunMode \<and> (\<exists>o'. out = Inr o') \<and> state' = sc_next (script mode (case state of Some s \<Rightarrow> s | None \<Rightarrow> ''{}'') rs)"
  using assms by (auto simp: precheck_def Let_def split: option.splits output_file.splits if_splits) (cases mode; simp)+

lemma after_keeps_state: "snd (measureAfter script d err rs t state) = state"
proof -
  obtain out s where p: "precheck script d err (take 10 (filter (\<lambda>r. rn_verdict r \<noteq> Skipped) rs)) AfterMode state = (out, s)" by fastforce
  then have "s = state" using precheck_state[OF p] by auto
  then show ?thesis using p by (simp add: measureAfter_def Let_def split: sum.split)
qed

end
