(* ===== verification/OrchStore.thy ===== *)
theory OrchStore
  imports Json
begin

text \<open>
  The files of the orchestration store (\<open>skills/poteto-mode/scripts/orch/store.ts\<close>): its rows, the cleaning of a cell and of a line, and the reader and writer of each
  plain-text file: tab-separated tables, the gates, the standing orders, the inbox pointers and the frontier. A path is the name an error shows.
\<close>

section \<open>Rows\<close>

datatype verdict = LiveUiVerified | UnitTestVerified | TypeCheckOnly | VerifierBlocked | VerifierFailed

record Unit =
  un_id :: string
  un_track :: string
  un_state :: string
  un_branch :: string
  un_pr :: string
  un_sha :: string
  un_brief :: string

record LedgerEntry =
  le_pr :: string
  le_sha :: string
  le_verdict :: verdict
  le_evidence :: string
  le_verifier :: string
  le_ts :: string

record InboxPointer =
  ip_ts :: string
  ip_agent :: string
  ip_unit :: string
  ip_status :: string
  ip_report :: string

record gate_text =
  ga_id :: string
  ga_question :: string
  ga_options :: string
  ga_defaultAnswer :: string

datatype Gate = OpenGate gate_text | ResolvedGate gate_text string

datatype FrontierPrState = PrOpen | PrMerged | PrClosed

record FrontierPr =
  fp_pr :: int
  fp_branches :: string
  fp_sha :: string
  fp_state :: FrontierPrState

record Frontier =
  fr_generation :: int
  fr_prs :: "FrontierPr list"
  fr_lowestUnmerged :: "int option"

record StandingLine =
  sl_number :: nat
  sl_line :: string

section \<open>Errors, verdicts and cells\<close>

text \<open>\<open>NotFoundError\<close> with its output, \<open>SystemError\<close> for what the file system throws.\<close>

datatype orch_error = UserError string | NotFoundError string "(string \<times> json) option" | SystemError string

type_synonym 'a orch = "orch_error + 'a"

definition verdict_text :: "verdict \<Rightarrow> string" where
  "verdict_text v = (case v of LiveUiVerified \<Rightarrow> ''live-ui-verified'' | UnitTestVerified \<Rightarrow> ''unit-test-verified'' | TypeCheckOnly \<Rightarrow> ''type-check-only''
     | VerifierBlocked \<Rightarrow> ''verifier-blocked'' | VerifierFailed \<Rightarrow> ''verifier-failed'')"

definition verdictOrNull :: "string \<Rightarrow> verdict option" where
  "verdictOrNull s =
     (if s = ''live-ui-verified'' then Some LiveUiVerified else if s = ''unit-test-verified'' then Some UnitTestVerified
      else if s = ''type-check-only'' then Some TypeCheckOnly else if s = ''verifier-blocked'' then Some VerifierBlocked
      else if s = ''verifier-failed'' then Some VerifierFailed else None)"

definition parseVerdict :: "string \<Rightarrow> verdict orch" where
  "parseVerdict s = (case verdictOrNull s of Some v \<Rightarrow> Inr v
     | None \<Rightarrow> Inl (UserError ''verdict must be live-ui-verified, unit-test-verified, type-check-only, verifier-blocked, or verifier-failed''))"

definition pr_state_text :: "FrontierPrState \<Rightarrow> string" where
  "pr_state_text s = (case s of PrOpen \<Rightarrow> ''OPEN'' | PrMerged \<Rightarrow> ''MERGED'' | PrClosed \<Rightarrow> ''CLOSED'')"

definition frontierPrStateOrNull :: "json option \<Rightarrow> FrontierPrState option" where
  "frontierPrStateOrNull v = (case v of
       Some (JStr s) \<Rightarrow> if s = ''OPEN'' then Some PrOpen else if s = ''MERGED'' then Some PrMerged else if s = ''CLOSED'' then Some PrClosed else None
     | _ \<Rightarrow> None)"

abbreviation TAB :: char where "TAB \<equiv> CHR 9"
abbreviation LF :: char where "LF \<equiv> CHR 10"
abbreviation CR :: char where "CR \<equiv> CHR 13"

definition cleanCell :: "string \<Rightarrow> string" where
  "cleanCell v =
     (let cleaned = map (\<lambda>c. if c \<in> {TAB, LF, CR} then CHR '' '' else c) v in
      case cleaned of
        c # _ \<Rightarrow> if c \<in> {CHR ''='', CHR ''+'', CHR ''-'', CHR ''@''} then CHR 39 # cleaned else cleaned
      | [] \<Rightarrow> cleaned)"

definition requiredCell :: "string \<Rightarrow> string \<Rightarrow> string orch" where
  "requiredCell v label = (if js_trim (cleanCell v) = [] then Inl (UserError (label @ '' must not be empty'')) else Inr (cleanCell v))"

definition requiredLine :: "string \<Rightarrow> string \<Rightarrow> string orch" where
  "requiredLine v label =
     (let cleaned = js_trim (map (\<lambda>c. if c \<in> {LF, CR} then CHR '' '' else c) v) in
      if cleaned = [] then Inl (UserError (label @ '' must not be empty'')) else Inr cleaned)"

text \<open>A parameter that may be \<open>undefined\<close>.\<close>

definition optional :: "('a \<Rightarrow> 'b orch) \<Rightarrow> 'b \<Rightarrow> 'a option \<Rightarrow> 'b orch" where
  "optional f d v = (case v of None \<Rightarrow> Inr d | Some x \<Rightarrow> f x)"

definition safe_integer :: "rat \<Rightarrow> bool" where
  "safe_integer q \<longleftrightarrow> q = of_int \<lfloor>q\<rfloor> \<and> \<bar>q\<bar> \<le> 9007199254740991"

definition positiveInteger :: "rat \<Rightarrow> string \<Rightarrow> int orch" where
  "positiveInteger q label = (if \<not> safe_integer q \<or> q < 1 then Inl (UserError (label @ '' must be a positive integer'')) else Inr \<lfloor>q\<rfloor>)"

section \<open>Tab-separated tables\<close>

text \<open>\<open>None\<close> is a file that is not there.\<close>

definition requiredFile :: "string \<Rightarrow> string option \<Rightarrow> string orch" where
  "requiredFile store t = (case t of Some s \<Rightarrow> Inr s | None \<Rightarrow> Inl (UserError (''store is not initialized at '' @ store @ ''; run orch init'')))"

definition readTsv :: "string \<Rightarrow> string \<Rightarrow> string \<Rightarrow> nat \<Rightarrow> string option \<Rightarrow> string list list orch" where
  "readTsv store name header width t =
     rbind (requiredFile store t) (\<lambda>s.
       (let ls = js_split LF (filter (\<lambda>c. c \<noteq> CR) s) in
        if hd ls \<noteq> header then Inl (UserError (name @ '' has an invalid header''))
        else rmap (\<lambda>v. let cells = js_split TAB v in if length cells \<noteq> width then Inl (UserError (name @ '' has a malformed row'')) else Inr cells)
          (filter (\<lambda>v. v \<noteq> []) (tl ls))))"

definition writeTsv :: "string \<Rightarrow> string list list \<Rightarrow> string" where
  "writeTsv header rows =
     (let body = js_join [LF] (map (\<lambda>row. js_join [TAB] (map cleanCell row)) rows) in header @ [LF] @ body @ (if body \<noteq> [] then [LF] else []))"

definition UNIT_HEADER :: string where
  "UNIT_HEADER = js_join [TAB] [''id'', ''track'', ''state'', ''branch'', ''pr'', ''sha'', ''brief'']"

definition LEDGER_HEADER :: string where
  "LEDGER_HEADER = js_join [TAB] [''pr'', ''sha'', ''verdict'', ''evidence'', ''verifier'', ''ts'']"

definition unitCells :: "Unit \<Rightarrow> string list" where
  "unitCells u = [un_id u, un_track u, un_state u, un_branch u, un_pr u, un_sha u, un_brief u]"

definition unit_of_row :: "string list \<Rightarrow> Unit" where
  "unit_of_row r = \<lparr>un_id = r ! 0, un_track = r ! 1, un_state = r ! 2, un_branch = r ! 3, un_pr = r ! 4, un_sha = r ! 5, un_brief = r ! 6\<rparr>"

definition readUnits :: "string \<Rightarrow> string option \<Rightarrow> Unit list orch" where
  "readUnits store t = rbind (readTsv store ''units.tsv'' UNIT_HEADER 7 t) (\<lambda>rows. Inr (map unit_of_row rows))"

definition saveUnits :: "Unit list \<Rightarrow> string" where
  "saveUnits us = writeTsv UNIT_HEADER (map unitCells us)"

definition ledgerCells :: "LedgerEntry \<Rightarrow> string list" where
  "ledgerCells e = [le_pr e, le_sha e, verdict_text (le_verdict e), le_evidence e, le_verifier e, le_ts e]"

definition entry_of_row :: "string list \<Rightarrow> LedgerEntry orch" where
  "entry_of_row r = (case verdictOrNull (r ! 2) of
       None \<Rightarrow> Inl (UserError (''ledger.tsv has invalid verdict '' @ r ! 2))
     | Some v \<Rightarrow> Inr \<lparr>le_pr = r ! 0, le_sha = r ! 1, le_verdict = v, le_evidence = r ! 3, le_verifier = r ! 4, le_ts = r ! 5\<rparr>)"

definition readLedger :: "string \<Rightarrow> string option \<Rightarrow> LedgerEntry list orch" where
  "readLedger store t = rbind (readTsv store ''ledger.tsv'' LEDGER_HEADER 6 t) (rmap entry_of_row)"

definition saveLedger :: "LedgerEntry list \<Rightarrow> string" where
  "saveLedger es = writeTsv LEDGER_HEADER (map ledgerCells es)"

section \<open>Inbox pointers\<close>

definition pointerCells :: "InboxPointer \<Rightarrow> string list" where
  "pointerCells p = [ip_ts p, ip_agent p, ip_unit p, ip_status p, ip_report p]"

definition pointer_text :: "InboxPointer \<Rightarrow> string" where
  "pointer_text p = js_join [TAB] (map cleanCell (pointerCells p)) @ [LF]"

text \<open>\<open>replace(/\r?\n$/, "")\<close>.\<close>

definition no_final_newline :: "string \<Rightarrow> string" where
  "no_final_newline s =
     (if s \<noteq> [] \<and> last s = LF then (let r = butlast s in if r \<noteq> [] \<and> last r = CR then butlast r else r) else s)"

definition pointer_of_file :: "string \<Rightarrow> string \<Rightarrow> InboxPointer orch" where
  "pointer_of_file name text' =
     (let raw = no_final_newline text'; row = js_split TAB raw in
      if CR \<in> set raw \<or> LF \<in> set raw \<or> length row \<noteq> 5 then Inl (UserError (''inbox pointer '' @ name @ '' is malformed''))
      else Inr \<lparr>ip_ts = row ! 0, ip_agent = row ! 1, ip_unit = row ! 2, ip_status = row ! 3, ip_report = row ! 4\<rparr>)"

section \<open>Gates\<close>

fun break_on :: "string \<Rightarrow> string \<Rightarrow> (string \<times> string) option" where
  "break_on sep [] = None"
| "break_on sep (c # cs) = (if take (length sep) (c # cs) = sep then Some ([], drop (length sep) (c # cs))
     else map_option (\<lambda>(a, b). (c # a, b)) (break_on sep cs))"

definition GATE_SEP :: string where
  "GATE_SEP = [LF, LF] @ ''## ''"

lemma break_on_shorter: "break_on sep s = Some (a, b) \<Longrightarrow> sep \<noteq> [] \<Longrightarrow> length b < length s"
proof (induction s arbitrary: a)
  case (Cons c cs)
  then show ?case by (cases sep) (fastforce split: if_splits)+
qed simp

text \<open>\<open>split("\n\n## ")\<close>.\<close>

function gate_blocks :: "string \<Rightarrow> string list" where
  "gate_blocks s = (case break_on GATE_SEP s of None \<Rightarrow> [s] | Some (a, b) \<Rightarrow> a # gate_blocks b)"
  by pat_completeness auto
termination
  by (relation "measure length") (auto dest: break_on_shorter simp: GATE_SEP_def)

declare gate_blocks.simps [simp del]

definition gate_line :: "string \<Rightarrow> string \<Rightarrow> string" where
  "gate_line name v = ''- '' @ name @ '': '' @ v"

definition gate_block :: "Gate \<Rightarrow> string list" where
  "gate_block g = (case g of
       OpenGate t \<Rightarrow> [ga_id t, [], gate_line ''Status'' ''open'', gate_line ''Question'' (ga_question t), gate_line ''Options'' (ga_options t),
         gate_line ''Default'' (ga_defaultAnswer t)]
     | ResolvedGate t a \<Rightarrow> [ga_id t, [], gate_line ''Status'' ''resolved'', gate_line ''Question'' (ga_question t), gate_line ''Options'' (ga_options t),
         gate_line ''Default'' (ga_defaultAnswer t), gate_line ''Answer'' a])"

definition renderGates :: "Gate list \<Rightarrow> string" where
  "renderGates gs =
     (if gs = [] then [] else ''# Gates'' @ [LF, LF] @ js_join [LF, LF] (map (\<lambda>g. ''## '' @ js_join [LF] (gate_block g)) gs) @ [LF])"

text \<open>\<open>/^- ([^:]+): (.*)$/\<close> on one line.\<close>

definition gate_field :: "string \<Rightarrow> (string \<times> string) option" where
  "gate_field l =
     (let r = drop 2 l; name = takeWhile (\<lambda>c. c \<noteq> CHR '':'') r; v = dropWhile (\<lambda>c. c \<noteq> CHR '':'') r in
      if take 2 l = ''- '' \<and> name \<noteq> [] \<and> take 2 v = '': '' then Some (name, drop 2 v) else None)"

definition gate_id :: "Gate \<Rightarrow> string" where
  "gate_id g = (case g of OpenGate t \<Rightarrow> ga_id t | ResolvedGate t _ \<Rightarrow> ga_id t)"

definition gate_of_fields :: "string \<Rightarrow> (string \<times> string) list \<Rightarrow> Gate orch" where
  "gate_of_fields i fs =
     (let get = map_of (rev fs); malformed = Inl (UserError (''gates.md has a malformed gate '' @ i)) in
      case (get ''Question'', get ''Options'', get ''Default'') of
        (Some q, Some os, Some d) \<Rightarrow>
          if i = [] then malformed
          else (let t = \<lparr>ga_id = i, ga_question = q, ga_options = os, ga_defaultAnswer = d\<rparr>; status = get ''Status'' in
            if status = Some ''open'' then Inr (OpenGate t)
            else (case (status = Some ''resolved'', get ''Answer'') of
                (True, Some a) \<Rightarrow> Inr (ResolvedGate t a)
              | _ \<Rightarrow> Inl (UserError (''gates.md has invalid status '' @ (case status of Some s \<Rightarrow> s | None \<Rightarrow> [])))))
      | _ \<Rightarrow> malformed)"

definition gate_of_block :: "string \<Rightarrow> Gate orch" where
  "gate_of_block b =
     (let ls = filter (\<lambda>l. l \<noteq> []) (js_split LF b); i = (case ls of l # _ \<Rightarrow> l | [] \<Rightarrow> []) in
      rbind (rmap (\<lambda>l. case gate_field l of Some f \<Rightarrow> Inr f | None \<Rightarrow> Inl (UserError (''gates.md has a malformed gate '' @ i))) (tl ls)) (gate_of_fields i))"

definition readGates :: "string \<Rightarrow> string option \<Rightarrow> Gate list orch" where
  "readGates store t =
     rbind (requiredFile store t) (\<lambda>s.
       (let raw = js_trim (filter (\<lambda>c. c \<noteq> CR) s); start = ''# Gates'' @ [LF, LF] @ ''## '' in
        if raw = [] then Inr []
        else if take (length start) raw \<noteq> start then Inl (UserError ''gates.md has an invalid heading'')
        else rbind (rmap gate_of_block (gate_blocks (drop (length start) raw)))
          (\<lambda>gs. if distinct (map gate_id gs) then Inr gs else Inl (UserError ''gates.md has duplicate gate ids''))))"

section \<open>Standing orders\<close>

text \<open>\<open>/^([1-9]\d*)\. (.+)$/\<close> on one line.\<close>

definition order_line :: "string \<Rightarrow> (nat \<times> string) option" where
  "order_line l =
     (let ds = takeWhile js_digit l; r = dropWhile js_digit l in
      if ds \<noteq> [] \<and> hd ds \<noteq> CHR ''0'' \<and> take 2 r = ''. '' \<and> drop 2 r \<noteq> [] then Some (nat_of_digits ds, drop 2 r) else None)"

fun order_lines :: "nat \<Rightarrow> string list \<Rightarrow> StandingLine list orch" where
  "order_lines n [] = Inr []"
| "order_lines n (l # ls) =
     (case order_line l of
        Some (k, line) \<Rightarrow> if k = n + 1 then rbind (order_lines (n + 1) ls) (\<lambda>r. Inr (\<lparr>sl_number = k, sl_line = line\<rparr> # r))
          else Inl (UserError ''preferences.md has malformed numbering'')
      | None \<Rightarrow> Inl (UserError ''preferences.md has malformed numbering''))"

definition readStanding :: "string \<Rightarrow> string option \<Rightarrow> StandingLine list orch" where
  "readStanding store t =
     rbind (requiredFile store t) (\<lambda>s.
       (let raw = filter (\<lambda>c. c \<noteq> CR) s in
        if js_trim raw = [] then Inr [] else order_lines 0 (filter (\<lambda>l. l \<noteq> []) (js_split LF raw))))"

definition standing_line :: "StandingLine \<Rightarrow> string" where
  "standing_line x = digits_of_nat (sl_number x) @ ''. '' @ sl_line x"

definition renderStanding :: "StandingLine list \<Rightarrow> string" where
  "renderStanding xs = js_join [LF] (map standing_line xs) @ [LF]"

section \<open>The frontier\<close>

definition safe_int_of :: "json option \<Rightarrow> int option" where
  "safe_int_of v = (case v of Some (JNum q) \<Rightarrow> if safe_integer q then Some \<lfloor>q\<rfloor> else None | _ \<Rightarrow> None)"

definition frontier_row :: "json \<Rightarrow> FrontierPr orch" where
  "frontier_row row =
     (case (isRecord row, safe_int_of (field row ''pr''), as_string (field row ''branches''), as_string (field row ''sha''), frontierPrStateOrNull (field row ''state'')) of
        (True, Some pr, Some br, Some sha, Some st) \<Rightarrow>
          if pr < 1 \<or> br = [] then Inl (UserError ''frontier.json has an invalid PR row'') else Inr \<lparr>fp_pr = pr, fp_branches = br, fp_sha = sha, fp_state = st\<rparr>
      | _ \<Rightarrow> Inl (UserError ''frontier.json has an invalid PR row''))"

definition lowest_of :: "json option \<Rightarrow> int option option" where
  "lowest_of v = (if v = Some JNull then Some None else map_option Some (safe_int_of v))"

definition parseFrontier :: "(string \<Rightarrow> json option) \<Rightarrow> string \<Rightarrow> Frontier orch" where
  "parseFrontier parse raw =
     (case parse raw of
        None \<Rightarrow> Inl (UserError ''frontier.json is not valid JSON'')
      | Some v \<Rightarrow>
          if \<not> isRecord v then Inl (UserError ''frontier.json must contain an object'')
          else if v = JObj [] then Inr \<lparr>fr_generation = 0, fr_prs = [], fr_lowestUnmerged = None\<rparr>
          else (case (safe_int_of (field v ''generation''), field v ''prs'', lowest_of (field v ''lowestUnmerged'')) of
              (Some g, Some (JArr rows), Some low) \<Rightarrow>
                if g < 0 then Inl (UserError ''frontier.json has an invalid shape'')
                else rbind (rmap frontier_row rows) (\<lambda>prs. Inr \<lparr>fr_generation = g, fr_prs = prs, fr_lowestUnmerged = low\<rparr>)
            | _ \<Rightarrow> Inl (UserError ''frontier.json has an invalid shape'')))"

definition readFrontier :: "(string \<Rightarrow> json option) \<Rightarrow> string \<Rightarrow> string option \<Rightarrow> Frontier orch" where
  "readFrontier parse store t = rbind (requiredFile store t) (parseFrontier parse)"

definition jint :: "int \<Rightarrow> json" where
  "jint i = JNum (of_int i)"

definition frontier_json :: "Frontier \<Rightarrow> json" where
  "frontier_json f = JObj [(''generation'', jint (fr_generation f)),
     (''prs'', JArr (map (\<lambda>r. JObj [(''branches'', JStr (fp_branches r)), (''pr'', jint (fp_pr r)), (''state'', JStr (pr_state_text (fp_state r))), (''sha'', JStr (fp_sha r))]) (fr_prs f))),
     (''lowestUnmerged'', case fr_lowestUnmerged f of Some l \<Rightarrow> jint l | None \<Rightarrow> JNull)]"

end
