(* ===== verification/OrchOps.thy ===== *)
theory OrchOps
  imports OrchStore
begin

text \<open>
  The operations of the orchestration store (\<open>openStore\<close> of \<open>skills/poteto-mode/scripts/orch/store.ts\<close>) over its folder. A file is its text, \<open>None\<close> where it is not there, and
  an atomic write replaces it. \<open>JSON\<close>, the collation of file names, the clock, random ids, and what \<open>gt\<close> and \<open>git\<close> print are arguments.
\<close>

section \<open>The folder and the handle\<close>

record orch_disk =
  od_dir :: bool
  od_units :: "string option"
  od_ledger :: "string option"
  od_inbox :: "(string \<times> string) list option"
  od_gates :: "string option"
  od_preferences :: "string option"
  od_frontier :: "string option"
  od_status :: "string option"

record orch_store =
  os_closed :: bool
  os_locked :: bool
  os_disk :: orch_disk

record orch_env =
  oe_store :: string
  oe_parse :: "string \<Rightarrow> json option"
  oe_print :: "json \<Rightarrow> string"
  oe_collate :: "string \<Rightarrow> string \<Rightarrow> bool"

definition not_initialized :: "orch_env \<Rightarrow> orch_error" where
  "not_initialized env = UserError (''store is not initialized at '' @ oe_store env @ ''; run orch init'')"

text \<open>\<open>lock\<close> is how \<open>acquireLock\<close> ends, where it is called.\<close>

definition ensureLock :: "unit orch \<Rightarrow> orch_store \<Rightarrow> orch_store orch" where
  "ensureLock lock s =
     (if os_closed s then Inl (UserError ''store is closed'')
      else if os_locked s then Inr s
      else rbind lock (\<lambda>_. Inr (s\<lparr>os_locked := True\<rparr>)))"

definition beginWrite :: "orch_env \<Rightarrow> unit orch \<Rightarrow> orch_store \<Rightarrow> orch_store orch" where
  "beginWrite env lock s =
     (if os_closed s then Inl (UserError ''store is closed'')
      else if \<not> od_dir (os_disk s) then Inl (not_initialized env)
      else ensureLock lock s)"

text \<open>A write begins, then reads and replaces files; an error leaves the files as they are and the lock held.\<close>

definition writing :: "orch_env \<Rightarrow> unit orch \<Rightarrow> (orch_disk \<Rightarrow> ('r \<times> orch_disk) orch) \<Rightarrow> orch_store \<Rightarrow> 'r orch \<times> orch_store" where
  "writing env lock body s =
     (case beginWrite env lock s of
        Inl e \<Rightarrow> (Inl e, s)
      | Inr s' \<Rightarrow> (case body (os_disk s') of Inl e \<Rightarrow> (Inl e, s') | Inr (r, d) \<Rightarrow> (Inr r, s'\<lparr>os_disk := d\<rparr>)))"

definition reading :: "(orch_disk \<Rightarrow> 'r orch) \<Rightarrow> orch_store \<Rightarrow> 'r orch" where
  "reading body s = (if os_closed s then Inl (UserError ''store is closed'') else body (os_disk s))"

definition if_missing :: "string \<Rightarrow> string option \<Rightarrow> string option" where
  "if_missing t f = (case f of None \<Rightarrow> Some t | Some s \<Rightarrow> Some s)"

definition orch_init :: "orch_env \<Rightarrow> unit orch \<Rightarrow> orch_store \<Rightarrow> string orch \<times> orch_store" where
  "orch_init env lock s =
     (if os_closed s then (Inl (UserError ''store is closed''), s)
      else let s1 = s\<lparr>os_disk := (os_disk s)\<lparr>od_dir := True\<rparr>\<rparr> in
        case ensureLock lock s1 of
          Inl e \<Rightarrow> (Inl e, s1)
        | Inr s2 \<Rightarrow>
            (Inr (oe_store env),
             s2\<lparr>os_disk := (let d = os_disk s2 in
                d\<lparr>od_units := if_missing (UNIT_HEADER @ [LF]) (od_units d), od_ledger := if_missing (LEDGER_HEADER @ [LF]) (od_ledger d),
                  od_inbox := (case od_inbox d of None \<Rightarrow> Some [] | Some fs \<Rightarrow> Some fs), od_gates := if_missing [] (od_gates d),
                  od_preferences := if_missing [] (od_preferences d), od_frontier := if_missing (''{}'' @ [LF]) (od_frontier d)\<rparr>)\<rparr>))"

definition orch_close :: "orch_store \<Rightarrow> orch_store" where
  "orch_close s = (if os_closed s then s else s\<lparr>os_closed := True, os_locked := False\<rparr>)"

section \<open>Units\<close>

definition units_add :: "orch_env \<Rightarrow> unit orch \<Rightarrow> string \<Rightarrow> string \<Rightarrow> string option \<Rightarrow> orch_store \<Rightarrow> Unit orch \<times> orch_store" where
  "units_add env lock id' track brief = writing env lock (\<lambda>d.
     rbind (requiredCell id' ''unit id'') (\<lambda>i. rbind (requiredCell track ''track'') (\<lambda>t. rbind (optional (\<lambda>b. requiredCell b ''brief'') [] brief) (\<lambda>b.
       let row = \<lparr>un_id = i, un_track = t, un_state = ''pending'', un_branch = [], un_pr = [], un_sha = [], un_brief = b\<rparr> in
       rbind (readUnits (oe_store env) (od_units d)) (\<lambda>rows.
         if list_ex (\<lambda>u. un_id u = i) rows then Inl (UserError (''unit '' @ i @ '' already exists''))
         else Inr (row, d\<lparr>od_units := Some (saveUnits (rows @ [row]))\<rparr>))))))"

definition pr_text :: "rat \<Rightarrow> string orch" where
  "pr_text q = rbind (positiveInteger q ''PR'') (\<lambda>n. Inr (show_int n))"

definition updated_unit :: "Unit \<Rightarrow> string \<Rightarrow> string option \<Rightarrow> rat option \<Rightarrow> string option \<Rightarrow> Unit orch" where
  "updated_unit old st branch pr sha =
     rbind (optional (\<lambda>b. requiredCell b ''branch'') (un_branch old) branch) (\<lambda>b. rbind (optional pr_text (un_pr old) pr) (\<lambda>p.
       rbind (optional (\<lambda>x. requiredCell x ''SHA'') (un_sha old) sha) (\<lambda>x. Inr (old\<lparr>un_state := st, un_branch := b, un_pr := p, un_sha := x\<rparr>))))"

definition units_set :: "orch_env \<Rightarrow> unit orch \<Rightarrow> string \<Rightarrow> string \<Rightarrow> string option \<Rightarrow> rat option \<Rightarrow> string option \<Rightarrow> orch_store \<Rightarrow> Unit orch \<times> orch_store" where
  "units_set env lock id' state branch pr sha = writing env lock (\<lambda>d.
     rbind (requiredCell id' ''unit id'') (\<lambda>i. rbind (requiredCell state ''state'') (\<lambda>st. rbind (readUnits (oe_store env) (od_units d)) (\<lambda>rows.
       case find_index (\<lambda>u. un_id u = i) rows of
         None \<Rightarrow> Inl (NotFoundError (''unit '' @ i @ '' not found'') None)
       | Some n \<Rightarrow> rbind (updated_unit (rows ! n) st branch pr sha) (\<lambda>row. Inr (row, d\<lparr>od_units := Some (saveUnits (rows[n := row]))\<rparr>))))))"

definition units_get :: "orch_env \<Rightarrow> string \<Rightarrow> orch_store \<Rightarrow> Unit orch" where
  "units_get env id' = reading (\<lambda>d.
     rbind (requiredCell id' ''unit id'') (\<lambda>i. rbind (readUnits (oe_store env) (od_units d)) (\<lambda>rows.
       case List.find (\<lambda>u. un_id u = i) rows of Some u \<Rightarrow> Inr u | None \<Rightarrow> Inl (NotFoundError (''unit '' @ i @ '' not found'') None))))"

definition some_cell :: "string \<Rightarrow> string option \<Rightarrow> string option orch" where
  "some_cell label v = optional (\<lambda>x. rbind (requiredCell x label) (\<lambda>c. Inr (Some c))) None v"

definition units_list :: "orch_env \<Rightarrow> string option \<Rightarrow> string option \<Rightarrow> orch_store \<Rightarrow> Unit list orch" where
  "units_list env state track = reading (\<lambda>d.
     rbind (some_cell ''state'' state) (\<lambda>st. rbind (some_cell ''track'' track) (\<lambda>t. rbind (readUnits (oe_store env) (od_units d)) (\<lambda>rows.
       Inr (filter (\<lambda>u. (st = None \<or> st = Some (un_state u)) \<and> (t = None \<or> t = Some (un_track u))) rows)))))"

section \<open>The ledger\<close>

definition put_verdict :: "LedgerEntry \<Rightarrow> LedgerEntry list \<Rightarrow> LedgerEntry list" where
  "put_verdict row rows =
     (case find_index (\<lambda>e. le_pr e = le_pr row \<and> le_sha e = le_sha row) rows of None \<Rightarrow> rows @ [row] | Some n \<Rightarrow> rows[n := row])"

text \<open>\<open>ts\<close> is \<open>new Date().toISOString()\<close>.\<close>

definition ledger_record :: "orch_env \<Rightarrow> unit orch \<Rightarrow> string \<Rightarrow> rat \<Rightarrow> string \<Rightarrow> string \<Rightarrow> string \<Rightarrow> string option \<Rightarrow> orch_store \<Rightarrow> LedgerEntry orch \<times> orch_store" where
  "ledger_record env lock ts pr sha verdict' evidence verifier = writing env lock (\<lambda>d.
     rbind (parseVerdict verdict') (\<lambda>v. rbind (pr_text pr) (\<lambda>p. rbind (requiredCell sha ''SHA'') (\<lambda>x. rbind (requiredCell evidence ''evidence'') (\<lambda>ev.
       rbind (optional (\<lambda>w. requiredCell w ''verifier'') [] verifier) (\<lambda>w.
         let row = \<lparr>le_pr = p, le_sha = x, le_verdict = v, le_evidence = ev, le_verifier = w, le_ts = ts\<rparr> in
         rbind (readLedger (oe_store env) (od_ledger d)) (\<lambda>rows. Inr (row, d\<lparr>od_ledger := Some (saveLedger (put_verdict row rows))\<rparr>))))))))"

definition ledger_check :: "orch_env \<Rightarrow> rat \<Rightarrow> string \<Rightarrow> orch_store \<Rightarrow> LedgerEntry orch" where
  "ledger_check env pr sha = reading (\<lambda>d.
     rbind (pr_text pr) (\<lambda>p. rbind (requiredCell sha ''SHA'') (\<lambda>x. rbind (readLedger (oe_store env) (od_ledger d)) (\<lambda>rows.
       case List.find (\<lambda>e. le_pr e = p \<and> le_sha e = x) rows of
         Some e \<Rightarrow> Inr e
       | None \<Rightarrow> Inl (NotFoundError ''NOT-VERIFIED'' (Some (''NOT-VERIFIED'', JObj [(''pr'', JStr p), (''sha'', JStr x), (''verdict'', JStr ''NOT-VERIFIED'')])))))))"

section \<open>The inbox\<close>

text \<open>\<open>sort\<close> by a collation: stable, each name before the first it does not come after.\<close>

fun place_in :: "('a \<Rightarrow> 'a \<Rightarrow> bool) \<Rightarrow> 'a \<Rightarrow> 'a list \<Rightarrow> 'a list" where
  "place_in le x [] = [x]"
| "place_in le x (y # ys) = (if le x y then x # y # ys else y # place_in le x ys)"

definition collated :: "('a \<Rightarrow> 'a \<Rightarrow> bool) \<Rightarrow> 'a list \<Rightarrow> 'a list" where
  "collated le xs = foldr (place_in le) xs []"

definition is_pointer_file :: "string \<Rightarrow> bool" where
  "is_pointer_file name \<longleftrightarrow> drop (length name - 4) name = ''.tsv''"

definition readPointers :: "orch_env \<Rightarrow> (string \<times> string) list option \<Rightarrow> InboxPointer list orch" where
  "readPointers env inbox =
     (case inbox of
        None \<Rightarrow> Inl (not_initialized env)
      | Some fs \<Rightarrow> rmap (\<lambda>(name, t). pointer_of_file name t) (collated (\<lambda>a b. oe_collate env (fst a) (fst b)) (filter (\<lambda>(name, _). is_pointer_file name) fs)))"

text \<open>The file of a push is named by its time, the process and a random id (\<open>tail\<close>).\<close>

definition pointer_name :: "string \<Rightarrow> string \<Rightarrow> string" where
  "pointer_name ts ending = map (\<lambda>c. if c = CHR '':'' \<or> c = CHR ''.'' then CHR ''-'' else c) ts @ ''-'' @ ending @ ''.tsv''"

definition inbox_push :: "orch_env \<Rightarrow> unit orch \<Rightarrow> string \<Rightarrow> string \<Rightarrow> string \<Rightarrow> string \<Rightarrow> string \<Rightarrow> string option \<Rightarrow> orch_store \<Rightarrow> (InboxPointer \<times> string) orch \<times> orch_store" where
  "inbox_push env lock ts ending agent unit' status report = writing env lock (\<lambda>d.
     rbind (requiredCell agent ''agent'') (\<lambda>a. rbind (requiredCell unit' ''unit'') (\<lambda>u. rbind (requiredCell status ''status'') (\<lambda>st.
       rbind (optional (\<lambda>r. requiredCell r ''report'') [] report) (\<lambda>r.
         let p = \<lparr>ip_ts = ts, ip_agent = a, ip_unit = u, ip_status = st, ip_report = r\<rparr>; name = pointer_name ts ending in
         case od_inbox d of
           None \<Rightarrow> Inl (not_initialized env)
         | Some fs \<Rightarrow> Inr ((p, name), d\<lparr>od_inbox := Some (AList.update name (pointer_text p) fs)\<rparr>))))))"

text \<open>\<open>mkdir\<close> of the new inbox may fail, and then the old one is moved back.\<close>

definition inbox_drain :: "orch_env \<Rightarrow> unit orch \<Rightarrow> string option \<Rightarrow> orch_store \<Rightarrow> InboxPointer list orch \<times> orch_store" where
  "inbox_drain env lock mkdir_error = writing env lock (\<lambda>d.
     rbind (readPointers env (od_inbox d)) (\<lambda>rows.
       case mkdir_error of Some e \<Rightarrow> Inl (SystemError e) | None \<Rightarrow> Inr (rows, d\<lparr>od_inbox := Some []\<rparr>)))"

definition inbox_peek :: "orch_env \<Rightarrow> orch_store \<Rightarrow> InboxPointer list orch" where
  "inbox_peek env = reading (\<lambda>d. readPointers env (od_inbox d))"

definition inbox_count :: "orch_env \<Rightarrow> orch_store \<Rightarrow> nat orch" where
  "inbox_count env = reading (\<lambda>d. rbind (readPointers env (od_inbox d)) (\<lambda>rows. Inr (length rows)))"

section \<open>Gates and standing orders\<close>

definition put_gate :: "Gate \<Rightarrow> Gate list \<Rightarrow> Gate list" where
  "put_gate g rows = (case find_index (\<lambda>old. gate_id old = gate_id g) rows of None \<Rightarrow> rows @ [g] | Some n \<Rightarrow> rows[n := g])"

definition gates_park :: "orch_env \<Rightarrow> unit orch \<Rightarrow> string \<Rightarrow> string \<Rightarrow> string \<Rightarrow> string \<Rightarrow> orch_store \<Rightarrow> Gate orch \<times> orch_store" where
  "gates_park env lock id' question options default' = writing env lock (\<lambda>d.
     rbind (requiredLine id' ''gate id'') (\<lambda>i. rbind (requiredLine question ''question'') (\<lambda>q. rbind (requiredLine options ''options'') (\<lambda>os.
       rbind (requiredLine default' ''default'') (\<lambda>df.
         let g = OpenGate \<lparr>ga_id = i, ga_question = q, ga_options = os, ga_defaultAnswer = df\<rparr> in
         rbind (readGates (oe_store env) (od_gates d)) (\<lambda>rows. Inr (g, d\<lparr>od_gates := Some (renderGates (put_gate g rows))\<rparr>)))))))"

definition is_open_gate :: "Gate \<Rightarrow> bool" where
  "is_open_gate g = (case g of OpenGate _ \<Rightarrow> True | ResolvedGate _ _ \<Rightarrow> False)"

definition gates_list :: "orch_env \<Rightarrow> orch_store \<Rightarrow> Gate list orch" where
  "gates_list env = reading (\<lambda>d. rbind (readGates (oe_store env) (od_gates d)) (\<lambda>rows. Inr (filter is_open_gate rows)))"

definition gate_asked :: "Gate \<Rightarrow> gate_text" where
  "gate_asked g = (case g of OpenGate t \<Rightarrow> t | ResolvedGate t _ \<Rightarrow> t)"

definition gates_resolve :: "orch_env \<Rightarrow> unit orch \<Rightarrow> string \<Rightarrow> string \<Rightarrow> orch_store \<Rightarrow> Gate orch \<times> orch_store" where
  "gates_resolve env lock id' answer = writing env lock (\<lambda>d.
     rbind (requiredLine id' ''gate id'') (\<lambda>i. rbind (readGates (oe_store env) (od_gates d)) (\<lambda>rows.
       case find_index (\<lambda>g. gate_id g = i) rows of
         None \<Rightarrow> Inl (NotFoundError (''gate '' @ i @ '' not found'') None)
       | Some n \<Rightarrow> rbind (requiredLine answer ''answer'') (\<lambda>a.
           let g = ResolvedGate (gate_asked (rows ! n)) a in Inr (g, d\<lparr>od_gates := Some (renderGates (rows[n := g]))\<rparr>)))))"

definition standing_show :: "orch_env \<Rightarrow> orch_store \<Rightarrow> StandingLine list orch" where
  "standing_show env = reading (\<lambda>d. readStanding (oe_store env) (od_preferences d))"

definition standing_add :: "orch_env \<Rightarrow> unit orch \<Rightarrow> string \<Rightarrow> orch_store \<Rightarrow> StandingLine orch \<times> orch_store" where
  "standing_add env lock line = writing env lock (\<lambda>d.
     rbind (readStanding (oe_store env) (od_preferences d)) (\<lambda>rows. rbind (requiredLine line ''standing order'') (\<lambda>l.
       let x = \<lparr>sl_number = length rows + 1, sl_line = l\<rparr> in Inr (x, d\<lparr>od_preferences := Some (renderStanding (rows @ [x]))\<rparr>))))"

section \<open>The frontier\<close>

text \<open>\<open>validateFrontierPin\<close>.\<close>

definition nums :: "int list \<Rightarrow> string" where
  "nums ns = js_join '','' (map show_int ns)"

definition validateFrontierPin :: "int list \<Rightarrow> int list \<Rightarrow> unit orch" where
  "validateFrontierPin actual expected =
     (if actual = expected then Inr ()
      else let missing = filter (\<lambda>p. p \<notin> set actual) expected; extra = filter (\<lambda>p. p \<notin> set expected) actual in
        Inl (UserError (''frontier pin mismatch: '' @ js_join ''; ''
          ((if missing \<noteq> [] then [''missing from gt: '' @ nums missing] else []) @ (if extra \<noteq> [] then [''extra in gt: '' @ nums extra] else [])
           @ (if missing = [] \<and> extra = [] then [''order differs: expected '' @ nums expected @ ''; gt '' @ nums actual] else [])))))"

text \<open>\<open>stack\<close> is what \<open>resolveFrontier\<close> gives, on the folder \<open>repo\<close>.\<close>

definition frontier_set :: "orch_env \<Rightarrow> unit orch \<Rightarrow> FrontierPr list orch \<Rightarrow> string \<Rightarrow> rat list option \<Rightarrow> orch_store \<Rightarrow> Frontier orch \<times> orch_store" where
  "frontier_set env lock stack repo prs = writing env lock (\<lambda>d.
     rbind (requiredLine repo ''repo directory'') (\<lambda>_. rbind (optional (\<lambda>qs. rbind (rmap (\<lambda>q. positiveInteger q ''PR'') qs) (\<lambda>ns. Inr (Some ns))) None prs) (\<lambda>pin.
       if (case pin of Some ns \<Rightarrow> \<not> distinct ns | None \<Rightarrow> False) then Inl (UserError ''--prs must not contain duplicates'')
       else rbind (readFrontier (oe_parse env) (oe_store env) (od_frontier d)) (\<lambda>old. rbind stack (\<lambda>rows.
         rbind (case pin of Some ns \<Rightarrow> validateFrontierPin (map fp_pr rows) ns | None \<Rightarrow> Inr ()) (\<lambda>_.
           let v = \<lparr>fr_generation = fr_generation old + 1, fr_prs = rows,
                    fr_lowestUnmerged = map_option fp_pr (List.find (\<lambda>r. fp_state r = PrOpen) rows)\<rparr> in
           Inr (v, d\<lparr>od_frontier := Some (oe_print env (frontier_json v) @ [LF])\<rparr>)))))))"

definition frontier_show :: "orch_env \<Rightarrow> orch_store \<Rightarrow> Frontier orch" where
  "frontier_show env = reading (\<lambda>d. readFrontier (oe_parse env) (oe_store env) (od_frontier d))"

end
