(* ===== verification/OrchStatus.thy ===== *)
theory OrchStatus
  imports OrchOps "HOL-Library.Char_ord" "HOL-Library.List_Lexorder"
begin

text \<open>
  The status of the orchestration store (\<open>status.render\<close> of \<open>skills/poteto-mode/scripts/orch/store.ts\<close>): the counts of its rows, the summary that \<open>status.md\<close> carries in a comment,
  what changed since the last one, and the page; the readers of what \<open>gt\<close> prints; and the one-line answers of the command line (\<open>orch.ts\<close>).
\<close>

section \<open>Counts\<close>

text \<open>
  An object used as a map: a name that every object inherits reads as text, so adding one to it gives text, and \<open>__proto__\<close> keeps nothing. \<open>native\<close> is the text of such a
  name's value.
\<close>

datatype orch_count = Num nat | Glued string

type_synonym Counts = "(string \<times> orch_count) list"

definition count_up :: "(string \<Rightarrow> string option) \<Rightarrow> string \<Rightarrow> Counts \<Rightarrow> Counts" where
  "count_up native v counts =
     (if v = ''__proto__'' then counts
      else AList.update v
        (case map_of counts v of
           Some (Num n) \<Rightarrow> Num (n + 1)
         | Some (Glued t) \<Rightarrow> Glued (t @ ''1'')
         | None \<Rightarrow> (case native v of Some t \<Rightarrow> Glued (t @ ''1'') | None \<Rightarrow> Num 1)) counts)"

text \<open>An object lists its index keys first, in order.\<close>

definition index_key :: "string \<Rightarrow> bool" where
  "index_key s \<longleftrightarrow> digits_of_nat (nat_of_digits s) = s \<and> nat_of_digits s < 4294967295"

definition own_keys :: "(string \<times> 'v) list \<Rightarrow> (string \<times> 'v) list" where
  "own_keys fs = sort_key (\<lambda>(k, _). nat_of_digits k) (filter (\<lambda>(k, _). index_key k) fs) @ filter (\<lambda>(k, _). \<not> index_key k) fs"

definition countValues :: "orch_env \<Rightarrow> (string \<Rightarrow> string option) \<Rightarrow> string list \<Rightarrow> Counts" where
  "countValues env native vs = own_keys (collated (\<lambda>a b. oe_collate env (fst a) (fst b)) (own_keys (fold (count_up native) vs [])))"

definition count_named :: "(string \<Rightarrow> string option) \<Rightarrow> Counts \<Rightarrow> string \<Rightarrow> orch_count" where
  "count_named native counts name = (case map_of counts name of Some c \<Rightarrow> c | None \<Rightarrow> (case native name of Some t \<Rightarrow> Glued t | None \<Rightarrow> Num 0))"

definition count_text :: "orch_count \<Rightarrow> string" where
  "count_text c = (case c of Num n \<Rightarrow> digits_of_nat n | Glued t \<Rightarrow> t)"

definition countLine :: "Counts \<Rightarrow> string" where
  "countLine counts = (if counts = [] then ''none'' else js_join '', '' (map (\<lambda>(name, c). name @ ''='' @ count_text c) counts))"

section \<open>The summary\<close>

record StatusSummary =
  ss_unitStates :: Counts
  ss_ledgerVerdicts :: Counts
  ss_frontierGeneration :: rat
  ss_openGateIds :: "string list"

text \<open>\<open>line\<close> is \<open>JSON.stringify\<close> on one line, \<open>num\<close> a number's text.\<close>

record status_env =
  se_native :: "string \<Rightarrow> string option"
  se_line :: "json \<Rightarrow> string"
  se_num :: "rat \<Rightarrow> string"

definition summarize :: "orch_env \<Rightarrow> status_env \<Rightarrow> Unit list \<Rightarrow> LedgerEntry list \<Rightarrow> Frontier \<Rightarrow> Gate list \<Rightarrow> StatusSummary" where
  "summarize env se us es f gs =
     \<lparr>ss_unitStates = countValues env (se_native se) (map un_state us), ss_ledgerVerdicts = countValues env (se_native se) (map (\<lambda>e. verdict_text (le_verdict e)) es),
       ss_frontierGeneration = of_int (fr_generation f), ss_openGateIds = sort (map gate_id (filter is_open_gate gs))\<rparr>"

fun count_fields :: "(string \<times> json) list \<Rightarrow> Counts \<Rightarrow> Counts option" where
  "count_fields [] out = Some out"
| "count_fields ((name, v) # fs) out =
     (case safe_int_of (Some v) of
        Some n \<Rightarrow> if n < 0 then None else count_fields fs (if name = ''__proto__'' then out else AList.update name (Num (nat n)) out)
      | None \<Rightarrow> None)"

definition countRecord :: "json option \<Rightarrow> Counts option" where
  "countRecord v = (case v of Some (JObj fs) \<Rightarrow> count_fields fs [] | _ \<Rightarrow> None)"

definition SUMMARY_MARK :: string where
  "SUMMARY_MARK = ''<!-- orch-summary ''"

text \<open>\<open>/<!-- orch-summary (.+) -->/\<close>: the first mark whose line closes it, up to the line's last close.\<close>

definition last_close :: "string \<Rightarrow> string option" where
  "last_close l = (case filter (\<lambda>n. take 4 (drop n l) = '' -->'') (rev [1..<length l]) of n # _ \<Rightarrow> Some (take n l) | [] \<Rightarrow> None)"

fun summary_text :: "string \<Rightarrow> string option" where
  "summary_text [] = None"
| "summary_text (c # cs) =
     (if take (length SUMMARY_MARK) (c # cs) = SUMMARY_MARK
      then (case last_close (takeWhile (\<lambda>x. x \<noteq> LF \<and> x \<noteq> CR) (drop (length SUMMARY_MARK) (c # cs))) of Some t \<Rightarrow> Some t | None \<Rightarrow> summary_text cs)
      else summary_text cs)"

definition ids_of :: "json list \<Rightarrow> string list option" where
  "ids_of vs = (let ss = List.map_filter (\<lambda>v. as_string (Some v)) vs in if length ss = length vs then Some ss else None)"

definition previousSummary :: "(string \<Rightarrow> json option) \<Rightarrow> string \<Rightarrow> StatusSummary option" where
  "previousSummary parse raw =
     (case summary_text raw of
        None \<Rightarrow> None
      | Some t \<Rightarrow> (case parse t of
            None \<Rightarrow> None
          | Some v \<Rightarrow> (case (as_number (field v ''frontierGeneration''), field v ''openGateIds'') of
                (Some g, Some (JArr ids)) \<Rightarrow> (case (countRecord (field v ''unitStates''), countRecord (field v ''ledgerVerdicts''), ids_of ids) of
                    (Some us, Some ls, Some gs) \<Rightarrow> Some \<lparr>ss_unitStates = us, ss_ledgerVerdicts = ls, ss_frontierGeneration = g, ss_openGateIds = gs\<rparr>
                  | _ \<Rightarrow> None)
              | _ \<Rightarrow> None)))"

definition count_changes :: "(string \<Rightarrow> string option) \<Rightarrow> string \<Rightarrow> Counts \<Rightarrow> Counts \<Rightarrow> string list" where
  "count_changes native label old new =
     map (\<lambda>n. label @ '' '' @ n @ '' '' @ count_text (count_named native old n) @ ''->'' @ count_text (count_named native new n))
       (filter (\<lambda>n. count_named native old n \<noteq> count_named native new n) (sort (js_uniq (map fst old @ map fst new))))"

definition status_changed :: "status_env \<Rightarrow> StatusSummary option \<Rightarrow> StatusSummary \<Rightarrow> string" where
  "status_changed se before new =
     (case before of
        None \<Rightarrow> ''first render''
      | Some old \<Rightarrow>
          (let result = count_changes (se_native se) ''units'' (ss_unitStates old) (ss_unitStates new)
               @ count_changes (se_native se) ''ledger'' (ss_ledgerVerdicts old) (ss_ledgerVerdicts new)
               @ (if ss_frontierGeneration old \<noteq> ss_frontierGeneration new
                  then [''frontier generation '' @ se_num se (ss_frontierGeneration old) @ ''->'' @ se_num se (ss_frontierGeneration new)] else [])
               @ (if js_join [CHR 0x00] (ss_openGateIds old) \<noteq> js_join [CHR 0x00] (ss_openGateIds new)
                  then [''open gates '' @ digits_of_nat (length (ss_openGateIds old)) @ ''->'' @ digits_of_nat (length (ss_openGateIds new))] else [])
           in if result = [] then ''no derived changes'' else js_join ''; '' result))"

section \<open>The page\<close>

definition markdown :: "string \<Rightarrow> string" where
  "markdown v = concat (map (\<lambda>c. if c = CHR 92 then [CHR 92, CHR 92] else if c = CHR ''|'' then [CHR 92, CHR ''|''] else [c]) v)"

definition status_table :: "string list \<Rightarrow> string list list \<Rightarrow> string" where
  "status_table headers rows =
     (if rows = [] then ''(none)''
      else js_join [LF] ([''| '' @ js_join '' | '' headers @ '' |'', ''| '' @ js_join '' | '' (map (\<lambda>_. ''---'') headers) @ '' |'']
        @ map (\<lambda>row. ''| '' @ js_join '' | '' (map markdown row) @ '' |'') rows))"

definition pr_cells :: "FrontierPr \<Rightarrow> string list" where
  "pr_cells r = [fp_branches r, show_int (fp_pr r), fp_sha r, pr_state_text (fp_state r)]"

definition gate_cells :: "Gate \<Rightarrow> string list" where
  "gate_cells g =
     [gate_id g, (case g of OpenGate _ \<Rightarrow> ''open'' | ResolvedGate _ _ \<Rightarrow> ''resolved''), ga_question (gate_asked g), ga_options (gate_asked g), ga_defaultAnswer (gate_asked g),
      (case g of OpenGate _ \<Rightarrow> [] | ResolvedGate _ a \<Rightarrow> a)]"

definition counts_json :: "Counts \<Rightarrow> json" where
  "counts_json counts = JObj (map (\<lambda>(n, c). (n, case c of Num k \<Rightarrow> JNum (of_nat k) | Glued t \<Rightarrow> JStr t)) counts)"

definition summary_json :: "StatusSummary \<Rightarrow> json" where
  "summary_json s = JObj [(''unitStates'', counts_json (ss_unitStates s)), (''ledgerVerdicts'', counts_json (ss_ledgerVerdicts s)),
     (''frontierGeneration'', JNum (ss_frontierGeneration s)), (''openGateIds'', JArr (map JStr (ss_openGateIds s)))]"

text \<open>The page above its summary comment, and the page; \<open>stamp\<close> is the time it is made.\<close>

definition status_page :: "string \<Rightarrow> Unit list \<Rightarrow> LedgerEntry list \<Rightarrow> Frontier \<Rightarrow> Gate list \<Rightarrow> StatusSummary \<Rightarrow> string" where
  "status_page stamp us es f gs s =
     js_join [LF] [''# Orchestrate status'', [], ''Generated: '' @ stamp, [], ''## Units'', [], ''States: '' @ countLine (ss_unitStates s), [],
       status_table [''ID'', ''Track'', ''State'', ''Branch'', ''PR'', ''SHA'', ''Brief''] (map unitCells us), [],
       ''## Verification ledger'', [], ''Verdicts: '' @ countLine (ss_ledgerVerdicts s), [],
       status_table [''PR'', ''SHA'', ''Verdict'', ''Evidence'', ''Verifier'', ''Timestamp''] (map ledgerCells es), [],
       ''## Frontier'', [], ''Generation: '' @ show_int (fr_generation f),
       ''Lowest unmerged: '' @ (case fr_lowestUnmerged f of Some l \<Rightarrow> show_int l | None \<Rightarrow> ''none''), [],
       status_table [''Branch'', ''PR'', ''SHA'', ''State''] (map pr_cells (fr_prs f)), [],
       ''## Gates'', [], status_table [''ID'', ''Status'', ''Question'', ''Options'', ''Default'', ''Answer''] (map gate_cells gs), [], []]"

definition statusMarkdown :: "status_env \<Rightarrow> string \<Rightarrow> Unit list \<Rightarrow> LedgerEntry list \<Rightarrow> Frontier \<Rightarrow> Gate list \<Rightarrow> StatusSummary \<Rightarrow> string" where
  "statusMarkdown se stamp us es f gs s = status_page stamp us es f gs s @ SUMMARY_MARK @ se_line se (summary_json s) @ '' -->'' @ [LF]"

record StatusReport =
  sr_units :: "Unit list"
  sr_ledger :: "LedgerEntry list"
  sr_frontier :: Frontier
  sr_gates :: "Gate list"
  sr_summary :: StatusSummary
  sr_changed :: string

definition status_render :: "orch_env \<Rightarrow> status_env \<Rightarrow> unit orch \<Rightarrow> string \<Rightarrow> orch_store \<Rightarrow> StatusReport orch \<times> orch_store" where
  "status_render env se lock stamp = writing env lock (\<lambda>d.
     rbind (readUnits (oe_store env) (od_units d)) (\<lambda>us. rbind (readLedger (oe_store env) (od_ledger d)) (\<lambda>es.
       rbind (readFrontier (oe_parse env) (oe_store env) (od_frontier d)) (\<lambda>f. rbind (readGates (oe_store env) (od_gates d)) (\<lambda>gs.
         let s = summarize env se us es f gs; before = Option.bind (od_status d) (previousSummary (oe_parse env)) in
         Inr (\<lparr>sr_units = us, sr_ledger = es, sr_frontier = f, sr_gates = gs, sr_summary = s, sr_changed = status_changed se before s\<rparr>,
              d\<lparr>od_status := Some (statusMarkdown se stamp us es f gs s)\<rparr>))))))"

definition units_counts :: "orch_env \<Rightarrow> status_env \<Rightarrow> orch_store \<Rightarrow> Counts orch" where
  "units_counts env se = reading (\<lambda>d. rbind (readUnits (oe_store env) (od_units d)) (\<lambda>us. Inr (countValues env (se_native se) (map un_state us))))"

definition ledger_summary :: "orch_env \<Rightarrow> status_env \<Rightarrow> orch_store \<Rightarrow> Counts orch" where
  "ledger_summary env se = reading (\<lambda>d. rbind (readLedger (oe_store env) (od_ledger d)) (\<lambda>es. Inr (countValues env (se_native se) (map (\<lambda>e. verdict_text (le_verdict e)) es))))"

section \<open>What \<open>gt\<close> and \<open>git\<close> print\<close>

definition OPEN_GT_PR_STATUSES :: "string list" where
  "OPEN_GT_PR_STATUSES =
     [''Trunk branch locked'', ''Changes requested'', ''Waiting on PRs in this stack to merge'', ''Waiting on downstack merge state'', ''Draft'', ''Required checks failed'',
      ''Undergoing failure detection'', ''Merge queue failed on current head commit'', ''Handed off to merge queue...'', ''Waiting on downstack'', ''Merge conflicts'',
      ''Needs reviewers'', ''Needs approvals'', ''Needs restack'', ''Queued to merge...'', ''Ready to merge'', ''Ready to merge as stack'', ''Rebasing...'', ''Waiting on CI...'',
      ''Stale, needs rebase onto trunk'', ''Unresolved comments'', ''Waiting on required CI'', ''Waiting to merge...'']"

text \<open>\<open>/^(?:\[origin\] )?PR #([1-9]\d*)(?: \(([^)\r\n]+)\))?(?: .+)?$/\<close> on one line: the number and the status.\<close>

definition gt_rest :: "string \<Rightarrow> bool" where
  "gt_rest r \<longleftrightarrow> r = [] \<or> hd r = CHR '' '' \<and> tl r \<noteq> []"

definition gt_status :: "string \<Rightarrow> string option option" where
  "gt_status r =
     (let s = takeWhile (\<lambda>c. c \<noteq> CHR '')'') (drop 2 r); after = drop (length s + 3) r in
      if take 2 r = '' ('' \<and> s \<noteq> [] \<and> length s + 2 < length r \<and> gt_rest after then Some (Some s)
      else if gt_rest r then Some None else None)"

definition gt_row :: "string \<Rightarrow> (nat \<times> string option) option" where
  "gt_row detail =
     (let d = (if take 9 detail = ''[origin] '' then drop 9 detail else detail); ds = takeWhile js_digit (drop 4 d) in
      if take 4 d = ''PR #'' \<and> ds \<noteq> [] \<and> hd ds \<noteq> CHR ''0'' then map_option (Pair (nat_of_digits ds)) (gt_status (drop (4 + length ds) d)) else None)"

definition parseGtPullRequest :: "string \<Rightarrow> string \<Rightarrow> (int \<times> FrontierPrState) orch" where
  "parseGtPullRequest branch detail =
     (case gt_row detail of
        Some (pr, status) \<Rightarrow>
          if 9007199254740991 < pr then Inl (UserError (''gt info output has an invalid PR row for branch '' @ branch @ '': '' @ detail))
          else (case status of
              None \<Rightarrow> Inr (int pr, PrOpen)
            | Some s \<Rightarrow>
                if s = ''Merged'' then Inr (int pr, PrMerged) else if s = ''Closed'' then Inr (int pr, PrClosed)
                else if s \<in> set OPEN_GT_PR_STATUSES then Inr (int pr, PrOpen)
                else Inl (UserError (''gt info output has an unknown PR state for branch '' @ branch @ '': '' @ s)))
      | None \<Rightarrow> Inl (UserError (''gt info output has an invalid PR row for branch '' @ branch @ '': '' @ detail)))"

text \<open>\<open>info\<close> is what \<open>gt info\<close> prints for a branch, or how it fails.\<close>

definition graphitePullRequest :: "(string \<Rightarrow> string orch) \<Rightarrow> string \<Rightarrow> (int \<times> FrontierPrState) orch" where
  "graphitePullRequest info branch =
     rbind (info branch) (\<lambda>raw.
       (let rows = filter (\<lambda>l. take 4 l = ''PR #'' \<or> take 13 l = ''[origin] PR #'') (js_split LF (filter (\<lambda>c. c \<noteq> CR) raw)) in
        if rows = [] then Inl (UserError (''gt info output branch '' @ branch @ '' has no pull request; this clone's gt metadata may predate the submit, so resolve the frontier from the stacker's clone or after gt sync''))
        else if 1 < length rows then Inl (UserError (''gt info output contains multiple PRs for branch '' @ branch))
        else parseGtPullRequest branch (hd rows)))"

definition sha_char :: "char \<Rightarrow> bool" where
  "sha_char c \<longleftrightarrow> (let n = of_char c :: nat in 48 \<le> n \<and> n \<le> 57 \<or> 97 \<le> n \<and> n \<le> 102 \<or> 65 \<le> n \<and> n \<le> 70)"

definition branchSha :: "(string \<Rightarrow> string orch) \<Rightarrow> string \<Rightarrow> string orch" where
  "branchSha rev_parse branch =
     rbind (rev_parse branch) (\<lambda>raw. let sha = js_trim raw in
       if 40 \<le> length sha \<and> length sha \<le> 64 \<and> list_all sha_char sha then Inr sha else Inl (UserError (''git rev-parse '' @ branch @ '' returned an invalid SHA'')))"

text \<open>The stack, from the branches that \<open>gt log short\<close> lists.\<close>

definition resolveFrontier :: "string list orch \<Rightarrow> (string \<Rightarrow> string orch) \<Rightarrow> (string \<Rightarrow> string orch) \<Rightarrow> FrontierPr list orch" where
  "resolveFrontier branches info rev_parse =
     rbind branches (\<lambda>bs. rbind (rmap (\<lambda>b. rbind (graphitePullRequest info b) (\<lambda>p. Inr (b, p))) bs) (\<lambda>rows.
       if \<not> distinct (map (\<lambda>(_, p). fst p) rows) then Inl (UserError ''gt info output contains duplicate pull requests'')
       else rmap (\<lambda>(b, p). rbind (branchSha rev_parse b) (\<lambda>sha. Inr \<lparr>fp_pr = fst p, fp_branches = b, fp_sha = sha, fp_state = snd p\<rparr>)) rows))"

section \<open>The command line\<close>

definition DISPLAY_LIMIT :: nat where "DISPLAY_LIMIT = 4"

text \<open>An argument that Commander refuses is \<open>None\<close>.\<close>

definition pr_argument :: "string \<Rightarrow> int option" where
  "pr_argument s =
     (if s \<noteq> [] \<and> list_all js_digit s \<and> hd s \<noteq> CHR ''0'' \<and> nat_of_digits s \<le> 9007199254740991 then Some (int (nat_of_digits s)) else None)"

definition prList :: "string \<Rightarrow> int list option" where
  "prList s = (let parts = js_split (CHR '','') s in if [] \<in> set parts then None else those (map pr_argument parts))"

definition unitLine :: "Unit \<Rightarrow> string" where
  "unitLine u = js_join [TAB] (unitCells u)"

definition pointerLine :: "InboxPointer \<Rightarrow> string" where
  "pointerLine p = js_join [TAB] (pointerCells p)"

definition gateLine :: "Gate \<Rightarrow> string" where
  "gateLine g = js_join [TAB] [gate_id g, ga_question (gate_asked g), ga_options (gate_asked g), ga_defaultAnswer (gate_asked g)]"

definition compactRows :: "('r \<Rightarrow> string) \<Rightarrow> string \<Rightarrow> nat option \<Rightarrow> 'r list \<Rightarrow> string" where
  "compactRows format none_text limit rows =
     (if rows = [] then none_text
      else js_join [LF] (map format (case limit of None \<Rightarrow> rows | Some n \<Rightarrow> take n rows)
        @ (case limit of Some n \<Rightarrow> if n < length rows then [''... '' @ digits_of_nat (length rows - n) @ '' more; use --json''] else [] | None \<Rightarrow> [])))"

definition frontierLine :: "Frontier \<Rightarrow> string" where
  "frontierLine f =
     ''generation='' @ show_int (fr_generation f) @ '' prs='' @
     (if fr_prs f = [] then ''none''
      else js_join '','' (map (\<lambda>r. fp_branches r @ ''#'' @ show_int (fp_pr r) @ ''@'' @ fp_sha r @ '':'' @ pr_state_text (fp_state r)) (fr_prs f))) @
     '' lowest-unmerged='' @ (case fr_lowestUnmerged f of Some l \<Rightarrow> show_int l | None \<Rightarrow> ''none'')"

definition statusLines :: "StatusReport \<Rightarrow> string" where
  "statusLines r =
     (let ids = ss_openGateIds (sr_summary r); visible = take DISPLAY_LIMIT ids in
      js_join [LF]
        [''counts: units='' @ digits_of_nat (length (sr_units r)) @ ''; states='' @ countLine (ss_unitStates (sr_summary r)) @ ''; ledger='' @ countLine (ss_ledgerVerdicts (sr_summary r)),
         ''changed: '' @ sr_changed r,
         ''gates open: '' @ digits_of_nat (length ids) @
           (if visible \<noteq> [] then ''; ids='' @ js_join '','' visible @ (if DISPLAY_LIMIT < length ids then '',+'' @ digits_of_nat (length ids - DISPLAY_LIMIT) @ '' more'' else []) else [])])"

text \<open>\<open>handleError\<close>: what goes to each stream, and the exit code. \<open>short\<close> and \<open>pretty\<close> render an answer.\<close>

definition handleError :: "(json \<Rightarrow> string) \<Rightarrow> bool \<Rightarrow> orch_error \<Rightarrow> (string \<times> string) \<times> nat" where
  "handleError pretty asJson e =
     (case e of
        NotFoundError m None \<Rightarrow> (([], ''error: '' @ m @ [LF]), 2)
      | NotFoundError m (Some (short, v)) \<Rightarrow> ((let t = (if asJson then pretty v else short) in if t \<noteq> [] \<and> last t = LF then t else t @ [LF], []), 2)
      | UserError m \<Rightarrow> (([], ''error: '' @ m @ [LF]), 1)
      | SystemError m \<Rightarrow> (([], ''error: '' @ m @ [LF]), 1))"

end
