(* ===== verification/OrchFiles.thy ===== *)
theory OrchFiles
  imports OrchOps
begin

text \<open>
  The files of the orchestration store read back what was written: every table of cleaned cells, every list of gates and standing orders made of lines, every pointer and
  every frontier.
\<close>

section \<open>Cells and lines\<close>

definition cell_ok :: "string \<Rightarrow> bool" where
  "cell_ok c \<longleftrightarrow> TAB \<notin> set c \<and> LF \<notin> set c \<and> CR \<notin> set c \<and> (c = [] \<or> hd c \<notin> {CHR ''='', CHR ''+'', CHR ''-'', CHR ''@''})"

lemma cell_ok_clean [simp]: "cell_ok (cleanCell v)"
  by (cases v) (auto simp: cell_ok_def cleanCell_def Let_def)

lemma clean_ok: "cell_ok c \<Longrightarrow> cleanCell c = c"
proof (cases c)
  case (Cons x xs)
  assume "cell_ok c"
  with Cons have "map (\<lambda>c. if c \<in> {TAB, LF, CR} then CHR '' '' else c) c = c" by (auto simp: cell_ok_def intro!: map_idI)
  then show ?thesis using \<open>cell_ok c\<close> Cons by (simp add: cleanCell_def Let_def cell_ok_def)
qed (simp add: cleanCell_def)

lemma cleanCell_idem [simp]: "cleanCell (cleanCell v) = cleanCell v"
  by (simp add: clean_ok)

lemma requiredCell_ok: "requiredCell v label = Inr c \<Longrightarrow> cell_ok c"
  by (auto simp: requiredCell_def split: if_splits)

definition line_ok :: "string \<Rightarrow> bool" where
  "line_ok l \<longleftrightarrow> l \<noteq> [] \<and> trimmed l \<and> LF \<notin> set l \<and> CR \<notin> set l"

lemma set_js_trim: "set (js_trim s) \<subseteq> set s"
  unfolding js_trim_def using set_dropWhileD by (metis set_rev subsetI)

lemma requiredLine_ok: "requiredLine v label = Inr l \<Longrightarrow> line_ok l"
proof -
  assume r: "requiredLine v label = Inr l"
  let ?s = "map (\<lambda>c. if c \<in> {LF, CR} then CHR '' '' else c) v"
  have l: "l = js_trim ?s" "l \<noteq> []" using r by (auto simp: requiredLine_def Let_def split: if_splits)
  moreover have "LF \<notin> set ?s" "CR \<notin> set ?s" by auto
  ultimately show ?thesis using set_js_trim[of ?s] js_trim_trimmed by (auto simp: line_ok_def)
qed

lemma lines_back:
  assumes "\<forall>l \<in> set ls. LF \<notin> set l"
  shows "js_split LF (js_join [LF] ls @ [LF]) = (if ls = [] then [[], []] else ls @ [[]])"
proof (cases "ls = []")
  case False
  then have "js_join [LF] ls @ [LF] = js_join [LF] (ls @ [[]])"
    by (induction "[LF]" ls rule: js_join.induct) (auto simp: neq_Nil_conv)
  then show ?thesis using assms False by (simp add: js_split_join)
qed simp

section \<open>Tables\<close>

lemma join_cells_free: "\<forall>c \<in> set cs. x \<notin> set c \<Longrightarrow> x \<noteq> TAB \<Longrightarrow> x \<notin> set (js_join [TAB] cs)"
  by (induction "[TAB]" cs rule: js_join.induct) auto

lemma join_nonempty: "2 \<le> length cs \<Longrightarrow> js_join [TAB] cs \<noteq> []"
  by (induction "[TAB]" cs rule: js_join.induct) auto

lemma join_free: "\<forall>c \<in> set cs. x \<notin> set c \<Longrightarrow> x \<notin> set d \<Longrightarrow> x \<notin> set (js_join d cs)"
  by (induction d cs rule: js_join.induct) auto

lemma filter_id: "x \<notin> set s \<Longrightarrow> filter (\<lambda>c. c \<noteq> x) s = s"
  by (induction s) auto

lemma tsv_reads_back:
  assumes "\<forall>r \<in> set rows. length r = w" and "2 \<le> w" and "LF \<notin> set header" and "CR \<notin> set header"
  shows "readTsv store name header w (Some (writeTsv header rows)) = Inr (map (map cleanCell) rows)"
proof -
  define ls where "ls = map (\<lambda>row. js_join [TAB] (map cleanCell row)) rows"
  have cells: "\<forall>c \<in> set (map cleanCell row). x \<notin> set c" if "x \<in> {TAB, LF, CR}" for x row
    using that cell_ok_clean by (fastforce simp: cell_ok_def simp del: cell_ok_clean)
  have free: "\<forall>l \<in> set ls. LF \<notin> set l \<and> CR \<notin> set l"
  proof
    fix l assume "l \<in> set ls"
    then obtain row where l: "l = js_join [TAB] (map cleanCell row)" by (auto simp: ls_def)
    show "LF \<notin> set l \<and> CR \<notin> set l" unfolding l using cells[of LF row] cells[of CR row] by (simp add: join_cells_free)
  qed
  have full: "\<forall>l \<in> set ls. l \<noteq> []" using assms(1,2) by (auto simp: ls_def join_nonempty)
  have body: "js_join [LF] ls \<noteq> [] \<longleftrightarrow> ls \<noteq> []"
    using full by (cases ls rule: remdups_adj.cases) auto
  have text': "writeTsv header rows = header @ LF # (js_join [LF] ls @ (if ls \<noteq> [] then [LF] else []))"
    using body by (simp add: writeTsv_def ls_def Let_def)
  have "CR \<notin> set (writeTsv header rows)"
    unfolding text' using assms(4) free join_free[of ls CR "[LF]"] by auto
  then have "filter (\<lambda>c. c \<noteq> CR) (writeTsv header rows) = writeTsv header rows" by (rule filter_id)
  moreover have "js_split LF (writeTsv header rows) = header # (if ls = [] then [[]] else ls @ [[]])"
    unfolding text' using assms(3) free by (simp add: js_split_append lines_back)
  moreover have "filter (\<lambda>v. v \<noteq> []) (if ls = [] then [[]] else ls @ [[]]) = ls" using full by (auto simp: filter_id_conv)
  ultimately have "readTsv store name header w (Some (writeTsv header rows)) =
      rmap (\<lambda>v. let cells = js_split TAB v in if length cells \<noteq> w then Inl (UserError (name @ '' has a malformed row'')) else Inr cells) ls"
    by (simp add: readTsv_def requiredFile_def Let_def)
  also have "\<dots> = rmap (\<lambda>row. Inr (map cleanCell row)) rows"
    unfolding ls_def using assms(1,2)
  proof (induction rows)
    case (Cons row rows)
    have "js_split TAB (js_join [TAB] (map cleanCell row)) = map cleanCell row"
      using Cons.prems cells[of TAB row] by (intro js_split_join) auto
    then show ?case using Cons by (simp add: Let_def)
  qed simp
  also have "\<dots> = Inr (map (map cleanCell) rows)" by (rule rmap_all_Inr) simp
  finally show ?thesis .
qed

definition row_ok :: "Unit \<Rightarrow> bool" where
  "row_ok u \<longleftrightarrow> list_all cell_ok (unitCells u)"

definition ledger_ok :: "LedgerEntry \<Rightarrow> bool" where
  "ledger_ok e \<longleftrightarrow> list_all cell_ok (ledgerCells e)"

definition pointer_ok :: "InboxPointer \<Rightarrow> bool" where
  "pointer_ok p \<longleftrightarrow> list_all cell_ok (pointerCells p)"

lemma units_read_back:
  assumes "\<forall>u \<in> set us. row_ok u"
  shows "readUnits store (Some (saveUnits us)) = Inr us"
proof -
  have "readTsv store ''units.tsv'' UNIT_HEADER 7 (Some (saveUnits us)) = Inr (map (map cleanCell) (map unitCells us))"
    unfolding saveUnits_def by (rule tsv_reads_back) (auto simp: unitCells_def UNIT_HEADER_def)
  moreover have "unit_of_row (map cleanCell (unitCells u)) = u" if "u \<in> set us" for u
    using assms that by (auto simp: row_ok_def unitCells_def unit_of_row_def clean_ok)
  ultimately show ?thesis by (simp add: readUnits_def map_idI)
qed

lemma verdict_back [simp]: "verdictOrNull (verdict_text v) = Some v"
  by (cases v) (simp_all add: verdictOrNull_def verdict_text_def)

lemma verdict_cell [simp]: "cell_ok (verdict_text v)"
  by (cases v) (simp_all add: cell_ok_def verdict_text_def)

lemma ledger_reads_back:
  assumes "\<forall>e \<in> set es. ledger_ok e"
  shows "readLedger store (Some (saveLedger es)) = Inr es"
proof -
  have "readTsv store ''ledger.tsv'' LEDGER_HEADER 6 (Some (saveLedger es)) = Inr (map (map cleanCell) (map ledgerCells es))"
    unfolding saveLedger_def by (rule tsv_reads_back) (auto simp: ledgerCells_def LEDGER_HEADER_def)
  moreover have "entry_of_row (map cleanCell (ledgerCells e)) = Inr e" if "e \<in> set es" for e
    using assms that by (auto simp: ledger_ok_def ledgerCells_def entry_of_row_def clean_ok)
  then have "rmap entry_of_row (map (map cleanCell) (map ledgerCells es)) = Inr es"
    by (induction es) auto
  ultimately show ?thesis by (simp add: readLedger_def)
qed

lemma pointer_reads_back:
  assumes "pointer_ok p"
  shows "pointer_of_file name (pointer_text p) = Inr p"
proof -
  have ok: "\<forall>c \<in> set (pointerCells p). cell_ok c" using assms by (simp add: pointer_ok_def list_all_iff)
  then have clean: "map cleanCell (pointerCells p) = pointerCells p" by (simp add: clean_ok map_idI)
  let ?raw = "js_join [TAB] (pointerCells p)"
  have free: "LF \<notin> set ?raw" "CR \<notin> set ?raw" by (rule join_cells_free; use ok in \<open>force simp: cell_ok_def\<close>)+
  have "no_final_newline (?raw @ [LF]) = ?raw"
    using free(2) by (auto simp: no_final_newline_def Let_def) (metis last_in_set)
  moreover have "js_split TAB ?raw = pointerCells p" using ok by (intro js_split_join) (auto simp: cell_ok_def pointerCells_def)
  ultimately show ?thesis using free by (simp add: pointer_of_file_def pointer_text_def clean Let_def) (simp add: pointerCells_def)
qed

section \<open>Gates\<close>

text \<open>A text with no blank line before a heading, and none at its end: the separator of the gates can start in it nowhere.\<close>

fun no_gap :: "string \<Rightarrow> bool" where
  "no_gap [] \<longleftrightarrow> True"
| "no_gap (c # cs) \<longleftrightarrow> take 3 (c # cs) \<noteq> [LF, LF, CHR ''#''] \<and> no_gap cs"

lemma no_gap_free: "LF \<notin> set w \<Longrightarrow> no_gap (w @ r) = no_gap r"
  by (induction w) auto

lemma no_gap_line: "LF \<notin> set w \<Longrightarrow> no_gap w"
  using no_gap_free[of w "[]"] by simp

lemma break_on_sep:
  assumes "no_gap t" and "t = [] \<or> last t \<noteq> LF"
  shows "break_on GATE_SEP (t @ GATE_SEP @ r) = Some (t, r)"
  using assms
proof (induction t)
  case Nil
  then show ?case by (simp add: GATE_SEP_def)
next
  case (Cons c cs)
  have "take (length GATE_SEP) (c # cs @ GATE_SEP @ r) \<noteq> GATE_SEP"
  proof
    assume a: "take (length GATE_SEP) (c # cs @ GATE_SEP @ r) = GATE_SEP"
    then have c: "c = LF" by (simp add: GATE_SEP_def)
    with Cons.prems obtain d ds where cs: "cs = d # ds" by (cases cs) auto
    with a have d: "d = LF" by (simp add: GATE_SEP_def)
    with Cons.prems cs obtain e es where ds: "ds = e # es" by (cases ds) auto
    with a cs have "e = CHR ''#''" by (simp add: GATE_SEP_def)
    then show False using Cons.prems(1) c d cs ds by simp
  qed
  then show ?case using Cons by (auto split: if_splits)
qed

lemma break_on_none:
  assumes "no_gap t"
  shows "break_on GATE_SEP t = None"
  using assms
proof (induction t)
  case (Cons c cs)
  have "take (length GATE_SEP) (c # cs) \<noteq> GATE_SEP"
  proof
    assume "take (length GATE_SEP) (c # cs) = GATE_SEP"
    then have "take 3 (take (length GATE_SEP) (c # cs)) = [LF, LF, CHR ''#'']" by (simp add: GATE_SEP_def)
    then show False using Cons.prems by (simp add: GATE_SEP_def min_def)
  qed
  then show ?case using Cons by simp
qed simp

lemma gate_blocks_join:
  "ts \<noteq> [] \<Longrightarrow> \<forall>t \<in> set ts. no_gap t \<and> t \<noteq> [] \<and> last t \<noteq> LF \<Longrightarrow> gate_blocks (js_join GATE_SEP ts) = ts"
proof (induction "GATE_SEP" ts rule: js_join.induct)
  case (2 w)
  then show ?case by (subst gate_blocks.simps) (simp add: break_on_none)
next
  case (3 w v ws)
  then show ?case by (subst gate_blocks.simps) (simp add: break_on_sep)
qed simp

definition gate_ok :: "Gate \<Rightarrow> bool" where
  "gate_ok g \<longleftrightarrow> line_ok (ga_id (gate_asked g)) \<and> line_ok (ga_question (gate_asked g)) \<and> line_ok (ga_options (gate_asked g)) \<and> line_ok (ga_defaultAnswer (gate_asked g)) \<and>
     (case g of OpenGate _ \<Rightarrow> True | ResolvedGate _ a \<Rightarrow> line_ok a)"

lemma gate_field_line: "name \<noteq> [] \<Longrightarrow> CHR '':'' \<notin> set name \<Longrightarrow> gate_field (gate_line name v) = Some (name, v)"
proof -
  assume n: "name \<noteq> []" "CHR '':'' \<notin> set name"
  have "takeWhile (\<lambda>c. c \<noteq> CHR '':'') (name @ CHR '':'' # r) = name" "dropWhile (\<lambda>c. c \<noteq> CHR '':'') (name @ CHR '':'' # r) = CHR '':'' # r" for r
    using n(2) by (induction name) auto
  then show ?thesis using n(1) by (simp add: gate_field_def gate_line_def Let_def)
qed

lemma gate_block_lines: "gate_ok g \<Longrightarrow> \<forall>l \<in> set (gate_block g). LF \<notin> set l \<and> CR \<notin> set l"
  by (cases g) (auto simp: gate_ok_def gate_block_def gate_line_def line_ok_def gate_asked_def)

lemma gate_block_reads_back:
  assumes "gate_ok g"
  shows "gate_of_block (js_join [LF] (gate_block g)) = Inr g"
proof -
  have ne: "gate_block g \<noteq> []" by (cases g) (simp_all add: gate_block_def)
  have "js_split LF (js_join [LF] (gate_block g)) = gate_block g" using ne gate_block_lines[OF assms] by (intro js_split_join) auto
  then show ?thesis using assms
    by (cases g) (simp_all add: gate_of_block_def Let_def gate_ok_def line_ok_def gate_asked_def gate_block_def gate_field_line gate_of_fields_def, simp_all add: gate_line_def)
qed

lemma gate_block_shape:
  assumes "gate_ok g"
  shows "no_gap (js_join [LF] (gate_block g)) \<and> js_join [LF] (gate_block g) \<noteq> [] \<and> \<not> js_ws (last (js_join [LF] (gate_block g)))"
proof -
  have lines: "no_gap (LF # CHR ''-'' # r) = no_gap r" "no_gap (LF # LF # CHR ''-'' # r) = no_gap r" for r by simp_all
  have "js_ws CHR '' '' \<and> js_ws LF" by (simp add: js_ws_def)
  then show ?thesis using assms
    by (cases g) (auto simp: gate_block_def gate_line_def gate_ok_def line_ok_def gate_asked_def no_gap_free no_gap_line trimmed_def)
qed

lemma join_heads: "ts \<noteq> [] \<Longrightarrow> js_join [LF, LF] (map (\<lambda>t. ''## '' @ t) ts) = ''## '' @ js_join GATE_SEP ts"
  by (induction "GATE_SEP" ts rule: js_join.induct) (simp_all add: GATE_SEP_def)

lemma last_join: "ts \<noteq> [] \<Longrightarrow> last ts \<noteq> [] \<Longrightarrow> js_join d ts \<noteq> [] \<and> last (js_join d ts) = last (last ts)"
  by (induction d ts rule: js_join.induct) auto

lemma trim_newline: "s \<noteq> [] \<Longrightarrow> trimmed s \<Longrightarrow> js_trim (s @ [LF]) = s"
proof -
  assume s: "s \<noteq> []" "trimmed s"
  then obtain c cs where cs: "s = c # cs" "\<not> js_ws c" by (cases s) (auto simp: trimmed_def)
  have "js_trim (s @ [LF]) = rev (dropWhile js_ws (LF # rev s))" using cs by (simp add: js_trim_def)
  also have "\<dots> = rev (dropWhile js_ws (rev s))" by (simp add: js_ws_def)
  also have "\<dots> = js_trim s" using cs by (simp add: js_trim_def)
  finally show ?thesis using js_trim_id[OF s(2)] by simp
qed

lemma gates_read_back:
  assumes "\<forall>g \<in> set gs. gate_ok g" and "distinct (map gate_id gs)"
  shows "readGates store (Some (renderGates gs)) = Inr gs"
proof (cases "gs = []")
  case True
  then show ?thesis by (simp add: readGates_def requiredFile_def renderGates_def js_trim_def)
next
  case False
  define ts where "ts = map (\<lambda>g. js_join [LF] (gate_block g)) gs"
  define start where "start = ''# Gates'' @ [LF, LF] @ ''## ''"
  have ts: "ts \<noteq> []" "\<forall>t \<in> set ts. no_gap t \<and> t \<noteq> [] \<and> \<not> js_ws (last t)" using False gate_block_shape assms(1) by (auto simp: ts_def)
  have ws: "js_ws LF" by (simp add: js_ws_def)
  have render: "renderGates gs = start @ js_join GATE_SEP ts @ [LF]"
    using False join_heads[OF ts(1)] by (simp add: renderGates_def ts_def start_def comp_def)
  have l: "js_join GATE_SEP ts \<noteq> []" "last (js_join GATE_SEP ts) = last (last ts)" using last_join[of ts GATE_SEP] ts by auto
  have lw: "\<not> js_ws (last (last ts))" using ts by simp
  have "trimmed (start @ js_join GATE_SEP ts)" using l lw by (simp add: trimmed_def start_def) (simp add: js_ws_def)
  then have trim: "js_trim (renderGates gs) = start @ js_join GATE_SEP ts"
    using trim_newline[of "start @ js_join GATE_SEP ts"] unfolding render by (simp add: start_def)
  have "CR \<notin> set t" if t: "t \<in> set ts" for t
  proof -
    obtain g where g: "g \<in> set gs" "t = js_join [LF] (gate_block g)" using t by (auto simp: ts_def)
    show ?thesis unfolding g(2) by (rule join_free) (use gate_block_lines assms(1) g(1) in auto)
  qed
  then have "CR \<notin> set (js_join GATE_SEP ts)" by (intro join_free) (auto simp: GATE_SEP_def)
  then have "filter (\<lambda>c. c \<noteq> CR) (renderGates gs) = renderGates gs" unfolding render by (intro filter_id) (auto simp: start_def)
  moreover have "gate_blocks (js_join GATE_SEP ts) = ts" using ts ws by (intro gate_blocks_join) auto
  moreover have "rmap gate_of_block ts = Inr gs"
    using assms(1) unfolding ts_def by (induction gs) (auto simp: gate_block_reads_back)
  ultimately show ?thesis using assms(2) trim
    by (simp add: readGates_def requiredFile_def Let_def) (simp add: start_def)
qed

section \<open>Standing orders and the frontier\<close>

lemma digits_head: "0 < n \<Longrightarrow> hd (digits_of_nat n) \<noteq> CHR ''0''"
proof (induction n rule: digits_of_nat.induct)
  case (1 n)
  show ?case
  proof (cases "n < 10")
    case True
    then have "of_char (char_of (48 + n) :: char) = 48 + n" by simp
    moreover have "of_char (CHR ''0'') = (48 :: nat)" by simp
    ultimately have "char_of (48 + n) \<noteq> CHR ''0''" using 1(2) by (metis add_cancel_right_right less_irrefl_nat)
    then show ?thesis using True by (simp add: digits_of_nat.simps)
  next
    case False
    then show ?thesis using 1 by (subst digits_of_nat.simps) simp
  qed
qed

lemma order_reads_back:
  assumes "line_ok l" and "0 < n"
  shows "order_line (standing_line \<lparr>sl_number = n, sl_line = l\<rparr>) = Some (n, l)"
proof -
  have ds: "\<forall>c \<in> set (digits_of_nat n). js_digit c" by (rule digits_of_nat_digits)
  then have "takeWhile js_digit (digits_of_nat n @ ''. '' @ l) = digits_of_nat n" "dropWhile js_digit (digits_of_nat n @ ''. '' @ l) = ''. '' @ l"
    by (simp_all add: takeWhile_append dropWhile_append js_digit_def)
  then show ?thesis using assms digits_head by (simp add: order_line_def standing_line_def Let_def line_ok_def)
qed

fun numbered :: "nat \<Rightarrow> StandingLine list \<Rightarrow> bool" where
  "numbered n [] \<longleftrightarrow> True"
| "numbered n (x # xs) \<longleftrightarrow> sl_number x = n + 1 \<and> line_ok (sl_line x) \<and> numbered (n + 1) xs"

lemma numbered_snoc: "numbered n (xs @ [x]) \<longleftrightarrow> numbered n xs \<and> sl_number x = n + length xs + 1 \<and> line_ok (sl_line x)"
  by (induction xs arbitrary: n) auto

lemma numbered_line: "numbered n xs \<Longrightarrow> x \<in> set xs \<Longrightarrow> line_ok (sl_line x)"
  by (induction xs arbitrary: n) auto

lemma order_lines_back: "numbered n xs \<Longrightarrow> order_lines n (map standing_line xs) = Inr xs"
proof (induction xs arbitrary: n)
  case (Cons x xs)
  then show ?case using order_reads_back[of "sl_line x" "n + 1"] by (cases x) simp
qed simp

lemma js_trim_empty: "js_trim s = [] \<Longrightarrow> c \<in> set s \<Longrightarrow> js_ws c"
proof -
  assume a: "js_trim s = []" "c \<in> set s"
  then have "\<forall>x \<in> set (dropWhile js_ws s). js_ws x" by (simp add: js_trim_def dropWhile_eq_Nil_conv)
  then have "dropWhile js_ws s = []" using hd_dropWhile hd_in_set by metis
  then show ?thesis using a(2) by (simp add: dropWhile_eq_Nil_conv)
qed

lemma standing_reads_back:
  assumes "numbered 0 xs"
  shows "readStanding store (Some (if xs = [] then [] else renderStanding xs)) = Inr xs"
proof (cases "xs = []")
  case False
  let ?ls = "map standing_line xs"
  have free: "LF \<notin> set l \<and> CR \<notin> set l \<and> l \<noteq> []" if m: "l \<in> set ?ls" for l
  proof -
    obtain x where x: "x \<in> set xs" "l = standing_line x" using m by auto
    have "\<not> js_digit LF" "\<not> js_digit CR" by (simp_all add: js_digit_def)
    then have "LF \<notin> set (digits_of_nat (sl_number x))" "CR \<notin> set (digits_of_nat (sl_number x))" using digits_of_nat_digits by blast+
    then show ?thesis using x(2) numbered_line[OF assms x(1)] by (simp add: standing_line_def line_ok_def)
  qed
  have "CR \<notin> set (js_join [LF] ?ls)" using free by (intro join_free) auto
  then have cr: "filter (\<lambda>c. c \<noteq> CR) (renderStanding xs) = renderStanding xs" by (intro filter_id) (simp add: renderStanding_def)
  have "js_split LF (renderStanding xs) = ?ls @ [[]]" using lines_back[of ?ls] free False by (simp add: renderStanding_def)
  then have ls: "filter (\<lambda>l. l \<noteq> []) (js_split LF (renderStanding xs)) = ?ls" using free by (auto simp: filter_id_conv)
  obtain x ys where x: "xs = x # ys" using False by (cases xs) auto
  have "hd (digits_of_nat (sl_number x)) \<in> set (digits_of_nat (sl_number x))" by simp
  then have "\<not> js_ws (hd (digits_of_nat (sl_number x)))" using digits_of_nat_digits by (fastforce simp: js_digit_def js_ws_def)
  moreover have "hd (digits_of_nat (sl_number x)) \<in> set (renderStanding xs)"
    unfolding x renderStanding_def by (cases ys) (auto simp: standing_line_def)
  ultimately have "js_trim (renderStanding xs) \<noteq> []" using js_trim_empty by blast
  then show ?thesis using False cr ls order_lines_back[OF assms] by (simp add: readStanding_def requiredFile_def Let_def)
qed (simp add: readStanding_def requiredFile_def js_trim_def)

definition frontier_ok :: "Frontier \<Rightarrow> bool" where
  "frontier_ok f \<longleftrightarrow> 0 \<le> fr_generation f \<and> fr_generation f \<le> 9007199254740991 \<and>
     (\<forall>r \<in> set (fr_prs f). 1 \<le> fp_pr r \<and> fp_pr r \<le> 9007199254740991 \<and> fp_branches r \<noteq> []) \<and>
     (\<forall>l. fr_lowestUnmerged f = Some l \<longrightarrow> \<bar>l\<bar> \<le> 9007199254740991)"

lemma safe_int_back: "\<bar>i\<bar> \<le> 9007199254740991 \<Longrightarrow> safe_int_of (Some (jint i)) = Some i"
  by (simp add: safe_int_of_def jint_def safe_integer_def)

lemma rmap_back: "(\<And>x. x \<in> set xs \<Longrightarrow> g (h x) = Inr x) \<Longrightarrow> rmap g (map h xs) = Inr xs"
  by (induction xs) auto

lemma frontier_reads_back:
  assumes "frontier_ok f" and "parse t = Some (frontier_json f)"
  shows "parseFrontier parse t = Inr f"
proof -
  let ?row = "\<lambda>r. JObj [(''branches'', JStr (fp_branches r)), (''pr'', jint (fp_pr r)), (''state'', JStr (pr_state_text (fp_state r))), (''sha'', JStr (fp_sha r))]"
  have "frontier_row (?row r) = Inr r" if "r \<in> set (fr_prs f)" for r
    using assms(1) that by (cases "fp_state r") (auto simp: frontier_ok_def frontier_row_def safe_int_back as_string_def frontierPrStateOrNull_def pr_state_text_def)
  then have "rmap frontier_row (map ?row (fr_prs f)) = Inr (fr_prs f)" by (rule rmap_back)
  moreover have "lowest_of (Some (case fr_lowestUnmerged f of Some l \<Rightarrow> jint l | None \<Rightarrow> JNull)) = Some (fr_lowestUnmerged f)"
    using assms(1) by (cases "fr_lowestUnmerged f") (auto simp: lowest_of_def safe_int_back frontier_ok_def, simp add: jint_def)
  ultimately show ?thesis using assms by (simp add: parseFrontier_def frontier_json_def frontier_ok_def safe_int_back)
qed

end
