(* ===== verification/OrchTables.thy ===== *)
theory OrchTables
  imports OrchFiles
begin

text \<open>
  What the orchestration store promises: tables. Each operation of the store is stated once more on lists of rows, with no file, and a handle of the store on a fresh folder
  gives, over any run of writes, the answers of the tables, whose rows the files then hold.
\<close>

section \<open>The tables\<close>

record tables =
  tb_units :: "Unit list"
  tb_ledger :: "LedgerEntry list"
  tb_inbox :: "(string \<times> InboxPointer) list"
  tb_gates :: "Gate list"
  tb_standing :: "StandingLine list"
  tb_frontier :: Frontier

definition no_tables :: tables where
  "no_tables = \<lparr>tb_units = [], tb_ledger = [], tb_inbox = [], tb_gates = [], tb_standing = [], tb_frontier = \<lparr>fr_generation = 0, fr_prs = [], fr_lowestUnmerged = None\<rparr>\<rparr>"

definition t_add_unit :: "string \<Rightarrow> string \<Rightarrow> string option \<Rightarrow> tables \<Rightarrow> (Unit \<times> tables) orch" where
  "t_add_unit id' track brief tb =
     rbind (requiredCell id' ''unit id'') (\<lambda>i. rbind (requiredCell track ''track'') (\<lambda>t. rbind (optional (\<lambda>b. requiredCell b ''brief'') [] brief) (\<lambda>b.
       if i \<in> un_id ` set (tb_units tb) then Inl (UserError (''unit '' @ i @ '' already exists''))
       else let row = \<lparr>un_id = i, un_track = t, un_state = ''pending'', un_branch = [], un_pr = [], un_sha = [], un_brief = b\<rparr> in
         Inr (row, tb\<lparr>tb_units := tb_units tb @ [row]\<rparr>))))"

definition t_set_unit :: "string \<Rightarrow> string \<Rightarrow> string option \<Rightarrow> rat option \<Rightarrow> string option \<Rightarrow> tables \<Rightarrow> (Unit \<times> tables) orch" where
  "t_set_unit id' state branch pr sha tb =
     rbind (requiredCell id' ''unit id'') (\<lambda>i. rbind (requiredCell state ''state'') (\<lambda>st.
       case find_index (\<lambda>u. un_id u = i) (tb_units tb) of
         None \<Rightarrow> Inl (NotFoundError (''unit '' @ i @ '' not found'') None)
       | Some n \<Rightarrow> rbind (updated_unit (tb_units tb ! n) st branch pr sha) (\<lambda>row. Inr (row, tb\<lparr>tb_units := (tb_units tb)[n := row]\<rparr>))))"

definition t_record :: "string \<Rightarrow> rat \<Rightarrow> string \<Rightarrow> string \<Rightarrow> string \<Rightarrow> string option \<Rightarrow> tables \<Rightarrow> (LedgerEntry \<times> tables) orch" where
  "t_record ts pr sha verdict' evidence verifier tb =
     rbind (parseVerdict verdict') (\<lambda>v. rbind (pr_text pr) (\<lambda>p. rbind (requiredCell sha ''SHA'') (\<lambda>x. rbind (requiredCell evidence ''evidence'') (\<lambda>ev.
       rbind (optional (\<lambda>w. requiredCell w ''verifier'') [] verifier) (\<lambda>w.
         let row = \<lparr>le_pr = p, le_sha = x, le_verdict = v, le_evidence = ev, le_verifier = w, le_ts = ts\<rparr> in
         Inr (row, tb\<lparr>tb_ledger := put_verdict row (tb_ledger tb)\<rparr>))))))"

definition t_push :: "string \<Rightarrow> string \<Rightarrow> string \<Rightarrow> string \<Rightarrow> string \<Rightarrow> string option \<Rightarrow> tables \<Rightarrow> ((InboxPointer \<times> string) \<times> tables) orch" where
  "t_push ts ending agent unit' status report tb =
     rbind (requiredCell agent ''agent'') (\<lambda>a. rbind (requiredCell unit' ''unit'') (\<lambda>u. rbind (requiredCell status ''status'') (\<lambda>st.
       rbind (optional (\<lambda>r. requiredCell r ''report'') [] report) (\<lambda>r.
         let p = \<lparr>ip_ts = ts, ip_agent = a, ip_unit = u, ip_status = st, ip_report = r\<rparr>; name = pointer_name ts ending in
         Inr ((p, name), tb\<lparr>tb_inbox := AList.update name p (tb_inbox tb)\<rparr>)))))"

definition pointers_of :: "orch_env \<Rightarrow> tables \<Rightarrow> InboxPointer list" where
  "pointers_of env tb = map snd (collated (\<lambda>a b. oe_collate env (fst a) (fst b)) (tb_inbox tb))"

definition t_drain :: "orch_env \<Rightarrow> string option \<Rightarrow> tables \<Rightarrow> (InboxPointer list \<times> tables) orch" where
  "t_drain env mkdir_error tb = (case mkdir_error of Some e \<Rightarrow> Inl (SystemError e) | None \<Rightarrow> Inr (pointers_of env tb, tb\<lparr>tb_inbox := []\<rparr>))"

definition t_park :: "string \<Rightarrow> string \<Rightarrow> string \<Rightarrow> string \<Rightarrow> tables \<Rightarrow> (Gate \<times> tables) orch" where
  "t_park id' question options default' tb =
     rbind (requiredLine id' ''gate id'') (\<lambda>i. rbind (requiredLine question ''question'') (\<lambda>q. rbind (requiredLine options ''options'') (\<lambda>os.
       rbind (requiredLine default' ''default'') (\<lambda>df.
         let g = OpenGate \<lparr>ga_id = i, ga_question = q, ga_options = os, ga_defaultAnswer = df\<rparr> in Inr (g, tb\<lparr>tb_gates := put_gate g (tb_gates tb)\<rparr>)))))"

definition t_resolve :: "string \<Rightarrow> string \<Rightarrow> tables \<Rightarrow> (Gate \<times> tables) orch" where
  "t_resolve id' answer tb =
     rbind (requiredLine id' ''gate id'') (\<lambda>i.
       case find_index (\<lambda>g. gate_id g = i) (tb_gates tb) of
         None \<Rightarrow> Inl (NotFoundError (''gate '' @ i @ '' not found'') None)
       | Some n \<Rightarrow> rbind (requiredLine answer ''answer'') (\<lambda>a.
           let g = ResolvedGate (gate_asked (tb_gates tb ! n)) a in Inr (g, tb\<lparr>tb_gates := (tb_gates tb)[n := g]\<rparr>)))"

definition t_standing :: "string \<Rightarrow> tables \<Rightarrow> (StandingLine \<times> tables) orch" where
  "t_standing line tb =
     rbind (requiredLine line ''standing order'') (\<lambda>l.
       let x = \<lparr>sl_number = length (tb_standing tb) + 1, sl_line = l\<rparr> in Inr (x, tb\<lparr>tb_standing := tb_standing tb @ [x]\<rparr>))"

definition t_frontier :: "FrontierPr list orch \<Rightarrow> string \<Rightarrow> rat list option \<Rightarrow> tables \<Rightarrow> (Frontier \<times> tables) orch" where
  "t_frontier stack repo prs tb =
     rbind (requiredLine repo ''repo directory'') (\<lambda>_. rbind (optional (\<lambda>qs. rbind (rmap (\<lambda>q. positiveInteger q ''PR'') qs) (\<lambda>ns. Inr (Some ns))) None prs) (\<lambda>pin.
       if (case pin of Some ns \<Rightarrow> \<not> distinct ns | None \<Rightarrow> False) then Inl (UserError ''--prs must not contain duplicates'')
       else rbind stack (\<lambda>rows. rbind (case pin of Some ns \<Rightarrow> validateFrontierPin (map fp_pr rows) ns | None \<Rightarrow> Inr ()) (\<lambda>_.
         let v = \<lparr>fr_generation = fr_generation (tb_frontier tb) + 1, fr_prs = rows,
                  fr_lowestUnmerged = map_option fp_pr (List.find (\<lambda>r. fp_state r = PrOpen) rows)\<rparr> in Inr (v, tb\<lparr>tb_frontier := v\<rparr>)))))"

section \<open>Writes, on the store and on the tables\<close>

datatype orch_op =
    AddUnit string string "string option"
  | SetUnit string string "string option" "rat option" "string option"
  | RecordVerdict string rat string string string "string option"
  | PushPointer string string string string string "string option"
  | DrainInbox "string option"
  | ParkGate string string string string
  | ResolveGate string string
  | SetFrontier "FrontierPr list orch" string "rat list option"
  | AddStanding string

datatype orch_result = UnitRow Unit | LedgerRow LedgerEntry | PointerRow InboxPointer string | PointerRows "InboxPointer list" | GateRow Gate | FrontierRow Frontier
  | StandingRow StandingLine

definition tagged :: "('r \<Rightarrow> orch_result) \<Rightarrow> 'r orch \<times> 's \<Rightarrow> orch_result orch \<times> 's" where
  "tagged f x = (map_sum id f (fst x), snd x)"

definition orch_run :: "orch_env \<Rightarrow> unit orch \<Rightarrow> orch_op \<Rightarrow> orch_store \<Rightarrow> orch_result orch \<times> orch_store" where
  "orch_run env lock op s =
     (case op of
        AddUnit i t b \<Rightarrow> tagged UnitRow (units_add env lock i t b s)
      | SetUnit i st br pr sha \<Rightarrow> tagged UnitRow (units_set env lock i st br pr sha s)
      | RecordVerdict ts pr sha v e w \<Rightarrow> tagged LedgerRow (ledger_record env lock ts pr sha v e w s)
      | PushPointer ts n a u st r \<Rightarrow> tagged (\<lambda>(p, f). PointerRow p f) (inbox_push env lock ts n a u st r s)
      | DrainInbox e \<Rightarrow> tagged PointerRows (inbox_drain env lock e s)
      | ParkGate i q os d \<Rightarrow> tagged GateRow (gates_park env lock i q os d s)
      | ResolveGate i a \<Rightarrow> tagged GateRow (gates_resolve env lock i a s)
      | SetFrontier stack repo prs \<Rightarrow> tagged FrontierRow (frontier_set env lock stack repo prs s)
      | AddStanding l \<Rightarrow> tagged StandingRow (standing_add env lock l s))"

fun orch_runs :: "orch_env \<Rightarrow> (unit orch \<times> orch_op) list \<Rightarrow> orch_store \<Rightarrow> orch_result orch list \<times> orch_store" where
  "orch_runs env [] s = ([], s)"
| "orch_runs env ((lock, op) # ops) s =
     (let (r, s') = orch_run env lock op s; (rs, s'') = orch_runs env ops s' in (r # rs, s''))"

definition t_op :: "orch_env \<Rightarrow> orch_op \<Rightarrow> tables \<Rightarrow> (orch_result \<times> tables) orch" where
  "t_op env op tb =
     (case op of
        AddUnit i t b \<Rightarrow> map_sum id (apfst UnitRow) (t_add_unit i t b tb)
      | SetUnit i st br pr sha \<Rightarrow> map_sum id (apfst UnitRow) (t_set_unit i st br pr sha tb)
      | RecordVerdict ts pr sha v e w \<Rightarrow> map_sum id (apfst LedgerRow) (t_record ts pr sha v e w tb)
      | PushPointer ts n a u st r \<Rightarrow> map_sum id (apfst (\<lambda>(p, f). PointerRow p f)) (t_push ts n a u st r tb)
      | DrainInbox e \<Rightarrow> map_sum id (apfst PointerRows) (t_drain env e tb)
      | ParkGate i q os d \<Rightarrow> map_sum id (apfst GateRow) (t_park i q os d tb)
      | ResolveGate i a \<Rightarrow> map_sum id (apfst GateRow) (t_resolve i a tb)
      | SetFrontier stack repo prs \<Rightarrow> map_sum id (apfst FrontierRow) (t_frontier stack repo prs tb)
      | AddStanding l \<Rightarrow> map_sum id (apfst StandingRow) (t_standing l tb))"

text \<open>The first write takes the lock, and every later one has it.\<close>

definition t_step :: "orch_env \<Rightarrow> unit orch \<Rightarrow> orch_op \<Rightarrow> bool \<times> tables \<Rightarrow> orch_result orch \<times> (bool \<times> tables)" where
  "t_step env lock op x =
     (case (fst x, lock) of
        (False, Inl e) \<Rightarrow> (Inl e, x)
      | _ \<Rightarrow> (case t_op env op (snd x) of Inl e \<Rightarrow> (Inl e, (True, snd x)) | Inr (r, tb) \<Rightarrow> (Inr r, (True, tb))))"

fun t_steps :: "orch_env \<Rightarrow> (unit orch \<times> orch_op) list \<Rightarrow> bool \<times> tables \<Rightarrow> orch_result orch list \<times> (bool \<times> tables)" where
  "t_steps env [] x = ([], x)"
| "t_steps env ((lock, op) # ops) x = (let (r, x') = t_step env lock op x; (rs, x'') = t_steps env ops x' in (r # rs, x''))"

section \<open>What the files hold\<close>

definition files_hold :: "orch_env \<Rightarrow> orch_disk \<Rightarrow> tables \<Rightarrow> bool" where
  "files_hold env d tb \<longleftrightarrow> od_dir d \<and> od_units d = Some (saveUnits (tb_units tb)) \<and> od_ledger d = Some (saveLedger (tb_ledger tb)) \<and>
     od_inbox d = Some (map (apsnd pointer_text) (tb_inbox tb)) \<and> od_gates d = Some (renderGates (tb_gates tb)) \<and>
     od_preferences d = Some (if tb_standing tb = [] then [] else renderStanding (tb_standing tb)) \<and>
     readFrontier (oe_parse env) (oe_store env) (od_frontier d) = Inr (tb_frontier tb)"

definition entry_key :: "LedgerEntry \<Rightarrow> string \<times> string" where
  "entry_key e = (le_pr e, le_sha e)"

definition tables_ok :: "tables \<Rightarrow> bool" where
  "tables_ok tb \<longleftrightarrow>
     list_all row_ok (tb_units tb) \<and> distinct (map un_id (tb_units tb)) \<and> list_all ledger_ok (tb_ledger tb) \<and> distinct (map entry_key (tb_ledger tb)) \<and>
     list_all (\<lambda>(n, p). is_pointer_file n \<and> pointer_ok p) (tb_inbox tb) \<and> distinct (map fst (tb_inbox tb)) \<and>
     list_all gate_ok (tb_gates tb) \<and> distinct (map gate_id (tb_gates tb)) \<and> numbered 0 (tb_standing tb) \<and> frontier_ok (tb_frontier tb)"

text \<open>What an operation takes from outside: a time is a cell, and a stack has pull requests the frontier can hold.\<close>

definition stack_ok :: "FrontierPr list \<Rightarrow> bool" where
  "stack_ok rows \<longleftrightarrow> list_all (\<lambda>r. 1 \<le> fp_pr r \<and> fp_pr r \<le> 9007199254740991 \<and> fp_branches r \<noteq> []) rows"

definition orch_op_ok :: "orch_op \<Rightarrow> bool" where
  "orch_op_ok op = (case op of
       RecordVerdict ts _ _ _ _ _ \<Rightarrow> cell_ok ts
     | PushPointer ts _ _ _ _ _ \<Rightarrow> cell_ok ts
     | SetFrontier (Inr rows) _ _ \<Rightarrow> stack_ok rows
     | _ \<Rightarrow> True)"

text \<open>\<open>JSON.parse\<close> reads what \<open>JSON.stringify\<close> writes, and an empty object.\<close>

definition json_laws :: "orch_env \<Rightarrow> bool" where
  "json_laws env \<longleftrightarrow> (\<forall>f. oe_parse env (oe_print env (frontier_json f) @ [LF]) = Some (frontier_json f)) \<and> oe_parse env (''{}'' @ [LF]) = Some (JObj [])"

end
