(* ===== verification/OrchRules.thy ===== *)
theory OrchRules
  imports OrchTables "HOL-Library.Multiset"
begin

text \<open>
  The store refines the tables: each write gives the answer of the tables and leaves the files of the tables' next state, so no write can lose a row or leave a file the
  store cannot read back. Over whole runs the ledger answers the last verdict recorded, and every pushed pointer is drained once.
\<close>

section \<open>Reads of the files\<close>

lemma holds_reads:
  assumes "files_hold env d tb" and "tables_ok tb"
  shows "readUnits (oe_store env) (od_units d) = Inr (tb_units tb)" "readLedger (oe_store env) (od_ledger d) = Inr (tb_ledger tb)"
    "readGates (oe_store env) (od_gates d) = Inr (tb_gates tb)" "readStanding (oe_store env) (od_preferences d) = Inr (tb_standing tb)"
    "readFrontier (oe_parse env) (oe_store env) (od_frontier d) = Inr (tb_frontier tb)" "od_inbox d = Some (map (apsnd pointer_text) (tb_inbox tb))"
  using assms units_read_back ledger_reads_back gates_read_back standing_reads_back by (auto simp: files_hold_def tables_ok_def list_all_iff)

lemma place_in_map: "place_in le (f x) (map f xs) = map f (place_in (\<lambda>a b. le (f a) (f b)) x xs)"
  by (induction xs) auto

lemma collated_map: "collated le (map f xs) = map f (collated (\<lambda>a b. le (f a) (f b)) xs)"
  by (induction xs) (auto simp: collated_def place_in_map)

lemma mset_place_in [simp]: "mset (place_in le x xs) = add_mset x (mset xs)"
  by (induction xs) auto

lemma mset_collated [simp]: "mset (collated le xs) = mset xs"
  by (induction xs) (auto simp: collated_def)

lemma set_collated [simp]: "set (collated le xs) = set xs"
  by (metis mset_collated set_mset_mset)

lemma holds_pointers:
  assumes "files_hold env d tb" and "tables_ok tb"
  shows "readPointers env (od_inbox d) = Inr (pointers_of env tb)"
proof -
  have ok: "is_pointer_file (fst x) \<and> pointer_ok (snd x)" if "x \<in> set (tb_inbox tb)" for x using assms(2) that by (auto simp: tables_ok_def list_all_iff)
  let ?le = "\<lambda>a b. oe_collate env (fst a) (fst b)"
  have "filter (\<lambda>(name, _). is_pointer_file name) (map (apsnd pointer_text) (tb_inbox tb)) = map (apsnd pointer_text) (tb_inbox tb)"
    using ok by (auto simp: filter_id_conv)
  moreover have "collated ?le (map (apsnd pointer_text) (tb_inbox tb)) = map (apsnd pointer_text) (collated ?le (tb_inbox tb))"
    by (simp add: collated_map)
  moreover have "rmap (\<lambda>(name, t). pointer_of_file name t) (map (apsnd pointer_text) (collated ?le (tb_inbox tb))) = Inr (map snd (collated ?le (tb_inbox tb)))"
  proof -
    have "rmap (\<lambda>(name, t). pointer_of_file name t) (map (apsnd pointer_text) xs) = Inr (map snd xs)" if "\<forall>x \<in> set xs. pointer_ok (snd x)" for xs
      using that by (induction xs) (auto simp: pointer_reads_back)
    then show ?thesis using ok by simp
  qed
  ultimately show ?thesis by (simp add: holds_reads(6)[OF assms] readPointers_def pointers_of_def)
qed

section \<open>One write\<close>

definition agree :: "orch_env \<Rightarrow> ('r \<times> orch_disk) orch \<Rightarrow> ('r \<times> tables) orch \<Rightarrow> bool" where
  "agree env x y \<longleftrightarrow> (case (x, y) of
       (Inl e, Inl e') \<Rightarrow> e = e'
     | (Inr (r, d), Inr (r', tb)) \<Rightarrow> r = r' \<and> files_hold env d tb \<and> tables_ok tb
     | _ \<Rightarrow> False)"

lemma agree_simps [simp]:
  "agree env (Inl e) (Inl e')  \<longleftrightarrow> e = e'" "agree env (Inr (r, d)) (Inr (r', tb)) \<longleftrightarrow> r = r' \<and> files_hold env d tb \<and> tables_ok tb"
  by (simp_all add: agree_def)

lemma agree_rbind: "(\<And>x. m = Inr x \<Longrightarrow> agree env (f x) (g x)) \<Longrightarrow> agree env (rbind m f) (rbind m g)"
  by (cases m) auto

definition sim :: "orch_env \<Rightarrow> orch_store \<Rightarrow> bool \<times> tables \<Rightarrow> bool" where
  "sim env s x \<longleftrightarrow> \<not> os_closed s \<and> os_locked s = fst x \<and> files_hold env (os_disk s) (snd x) \<and> tables_ok (snd x)"

lemma optional_cell: "optional (\<lambda>b. requiredCell b l) d v = Inr c \<Longrightarrow> cell_ok d \<Longrightarrow> cell_ok c"
  by (cases v) (auto simp: optional_def dest: requiredCell_ok)

lemma cell_simps [simp]: "cell_ok []" "cell_ok ''pending''"
  by (simp_all add: cell_ok_def)

definition stepped :: "orch_env \<Rightarrow> unit orch \<Rightarrow> bool \<times> tables \<Rightarrow> 'r orch \<times> orch_store \<Rightarrow> ('r \<times> tables) orch \<Rightarrow> bool" where
  "stepped env lock x out y \<longleftrightarrow>
     (case (fst x, lock) of
        (False, Inl e) \<Rightarrow> fst out = Inl e \<and> sim env (snd out) x
      | _ \<Rightarrow> (case y of
            Inl e \<Rightarrow> fst out = Inl e \<and> sim env (snd out) (True, snd x)
          | Inr (r, tb) \<Rightarrow> fst out = Inr r \<and> sim env (snd out) (True, tb)))"

lemma writing_stepped:
  assumes "sim env s x" and "files_hold env (os_disk s) (snd x) \<Longrightarrow> tables_ok (snd x) \<Longrightarrow> agree env (body (os_disk s)) y"
  shows "stepped env lock x (writing env lock body s) y"
proof -
  have s: "\<not> os_closed s" "os_locked s = fst x" "files_hold env (os_disk s) (snd x)" "tables_ok (snd x)" using assms(1) by (auto simp: sim_def)
  then have d: "od_dir (os_disk s)" by (simp add: files_hold_def)
  have ag: "agree env (body (os_disk s)) y" using assms(2) s by blast
  show ?thesis
  proof (cases "fst x = False \<and> (\<exists>e. lock = Inl e)")
    case True
    then show ?thesis using s d assms(1) by (auto simp: stepped_def writing_def beginWrite_def ensureLock_def)
  next
    case False
    let ?s = "s\<lparr>os_locked := True\<rparr>"
    have "beginWrite env lock s = Inr ?s"
      using False s(1,2) d by (cases "fst x"; cases lock) (auto simp: beginWrite_def ensureLock_def)
    then have w: "writing env lock body s = (case body (os_disk s) of Inl e \<Rightarrow> (Inl e, ?s) | Inr (r, d) \<Rightarrow> (Inr r, ?s\<lparr>os_disk := d\<rparr>))"
      by (simp add: writing_def)
    have "stepped env lock x out y \<longleftrightarrow> (case y of Inl e \<Rightarrow> fst out = Inl e \<and> sim env (snd out) (True, snd x) | Inr (r, tb) \<Rightarrow> fst out = Inr r \<and> sim env (snd out) (True, tb))" for out :: "'a orch \<times> orch_store"
      using False by (auto simp: stepped_def split: bool.splits sum.splits)
    then show ?thesis using ag s unfolding w
      by (cases "body (os_disk s)"; cases y) (auto simp: agree_def sim_def)
  qed
qed

lemma tagged_stepped: "stepped env lock x out y \<Longrightarrow> stepped env lock x (tagged f out) (map_sum id (apfst f) y)"
  by (cases out; cases y) (auto simp: stepped_def tagged_def split: bool.splits sum.splits)

lemma add_unit_steps: "sim env s x \<Longrightarrow> stepped env lock x (units_add env lock i t b s) (t_add_unit i t b (snd x))"
  unfolding units_add_def t_add_unit_def
  by (rule writing_stepped, assumption, rule agree_rbind, rule agree_rbind, rule agree_rbind, frule (1) holds_reads(1))
    (auto simp: Let_def list_ex_iff files_hold_def tables_ok_def row_ok_def unitCells_def dest!: requiredCell_ok optional_cell)

lemma digits_cell [simp]: "cell_ok (digits_of_nat n)"
proof -
  have "c \<notin> {TAB, LF, CR, CHR ''='', CHR ''+'', CHR ''-'', CHR ''@''}" if "c \<in> set (digits_of_nat n)" for c
    using digits_of_nat_digits that by (fastforce simp: js_digit_def)
  from this[of "hd (digits_of_nat n)"] this show ?thesis by (auto simp: cell_ok_def)
qed

lemma pr_text_cell:
  assumes "pr_text q = Inr p"
  shows "cell_ok p"
proof -
  have "1 \<le> q" "p = show_int \<lfloor>q\<rfloor>" using assms by (auto simp: pr_text_def positiveInteger_def split: if_splits)
  then have "p = digits_of_nat (nat \<lfloor>q\<rfloor>)" by (simp add: show_int_def)
  then show ?thesis by simp
qed

lemma optional_pr: "optional pr_text d v = Inr c \<Longrightarrow> cell_ok d \<Longrightarrow> cell_ok c"
  by (cases v) (auto simp: optional_def dest: pr_text_cell)

lemma updated_unit_ok:
  assumes "updated_unit old st br pr sha = Inr row" and "row_ok old" and "cell_ok st"
  shows "row_ok row \<and> un_id row = un_id old"
  using assms by (auto simp: updated_unit_def row_ok_def unitCells_def dest!: optional_cell optional_pr)

lemma keyed_replace:
  assumes "distinct (map f xs)" and "n < length xs" and "f y = f (xs ! n)"
  shows "distinct (map f (xs[n := y]))"
proof -
  have "map f (xs[n := y]) = map f xs" using assms(2,3) by (metis list_update_id map_update nth_map)
  then show ?thesis using assms(1) by simp
qed

lemma list_all_replace: "list_all P xs \<Longrightarrow> P y \<Longrightarrow> list_all P (xs[n := y])"
  by (auto simp: list_all_iff dest!: set_update_subset_insert[THEN subsetD])

lemma set_unit_steps: "sim env s x \<Longrightarrow> stepped env lock x (units_set env lock i st br pr sha s) (t_set_unit i st br pr sha (snd x))"
  unfolding units_set_def t_set_unit_def
proof (rule writing_stepped, assumption, rule agree_rbind, rule agree_rbind)
  fix i' st' assume h: "files_hold env (os_disk s) (snd x)" "tables_ok (snd x)" and st: "requiredCell st ''state'' = Inr st'"
  let ?rows = "tb_units (snd x)"
  show "agree env
      (rbind (readUnits (oe_store env) (od_units (os_disk s))) (\<lambda>rows. case find_index (\<lambda>u. un_id u = i') rows of
         None \<Rightarrow> Inl (NotFoundError (''unit '' @ i' @ '' not found'') None)
       | Some n \<Rightarrow> rbind (updated_unit (rows ! n) st' br pr sha) (\<lambda>row. Inr (row, os_disk s\<lparr>od_units := Some (saveUnits (rows[n := row]))\<rparr>))))
      (case find_index (\<lambda>u. un_id u = i') ?rows of
         None \<Rightarrow> Inl (NotFoundError (''unit '' @ i' @ '' not found'') None)
       | Some n \<Rightarrow> rbind (updated_unit (?rows ! n) st' br pr sha) (\<lambda>row. Inr (row, (snd x)\<lparr>tb_units := ?rows[n := row]\<rparr>)))"
  proof (cases "find_index (\<lambda>u. un_id u = i') ?rows")
    case (Some n)
    then have n: "n < length ?rows" using find_index_Some by fastforce
    have ok: "row_ok row \<and> un_id row = un_id (?rows ! n)" if "updated_unit (?rows ! n) st' br pr sha = Inr row" for row
      using updated_unit_ok[OF that] h(2) n requiredCell_ok[OF st] by (simp add: tables_ok_def list_all_length)
    show ?thesis unfolding holds_reads(1)[OF h] rbind_simps Some option.case
    proof (rule agree_rbind)
      fix row assume "updated_unit (?rows ! n) st' br pr sha = Inr row"
      from ok[OF this] show "agree env (Inr (row, os_disk s\<lparr>od_units := Some (saveUnits (?rows[n := row]))\<rparr>)) (Inr (row, (snd x)\<lparr>tb_units := ?rows[n := row]\<rparr>))"
        using h n by (auto simp: files_hold_def tables_ok_def keyed_replace list_all_replace)
    qed
  qed (simp add: holds_reads(1)[OF h])
qed

lemma put_entry_ok:
  assumes "list_all ledger_ok es" and "distinct (map entry_key es)" and "ledger_ok row"
  shows "list_all ledger_ok (put_verdict row es) \<and> distinct (map entry_key (put_verdict row es))"
proof (cases "find_index (\<lambda>e. le_pr e = le_pr row \<and> le_sha e = le_sha row) es")
  case None
  then have "entry_key row \<notin> set (map entry_key es)" by (auto simp: find_index_None entry_key_def)
  then show ?thesis using assms None by (simp add: put_verdict_def)
next
  case (Some n)
  then have "n < length es" "entry_key row = entry_key (es ! n)" using find_index_Some[OF Some] by (auto simp: entry_key_def)
  then show ?thesis using assms Some by (simp add: put_verdict_def list_all_replace keyed_replace)
qed

lemma record_steps:
  assumes "sim env s x" and "cell_ok ts"
  shows "stepped env lock x (ledger_record env lock ts pr sha v e w s) (t_record ts pr sha v e w (snd x))"
  unfolding ledger_record_def t_record_def
proof (rule writing_stepped[OF assms(1)], intro agree_rbind, frule (1) holds_reads(2), goal_cases)
  case (1 v' p c ev w')
  then have "ledger_ok \<lparr>le_pr = p, le_sha = c, le_verdict = v', le_evidence = ev, le_verifier = w', le_ts = ts\<rparr>"
    using assms(2) by (auto simp: ledger_ok_def ledgerCells_def dest: pr_text_cell requiredCell_ok optional_cell)
  with 1 show ?case using put_entry_ok by (simp add: Let_def files_hold_def tables_ok_def)
qed

lemma put_gate_ok:
  assumes "list_all gate_ok gs" and "distinct (map gate_id gs)" and "gate_ok g"
  shows "list_all gate_ok (put_gate g gs) \<and> distinct (map gate_id (put_gate g gs))"
proof (cases "find_index (\<lambda>old. gate_id old = gate_id g) gs")
  case None
  then have "gate_id g \<notin> set (map gate_id gs)" by (auto simp: find_index_None)
  then show ?thesis using assms None by (simp add: put_gate_def)
next
  case (Some n)
  then have "n < length gs" "gate_id g = gate_id (gs ! n)" using find_index_Some[OF Some] by auto
  then show ?thesis using assms Some by (simp add: put_gate_def list_all_replace keyed_replace)
qed

lemma park_steps: "sim env s x \<Longrightarrow> stepped env lock x (gates_park env lock i q os d s) (t_park i q os d (snd x))"
  unfolding gates_park_def t_park_def
proof (rule writing_stepped, assumption, intro agree_rbind, frule (1) holds_reads(3), goal_cases)
  case (1 i' q' os' d')
  then have "gate_ok (OpenGate \<lparr>ga_id = i', ga_question = q', ga_options = os', ga_defaultAnswer = d'\<rparr>)"
    by (auto simp: gate_ok_def gate_asked_def dest: requiredLine_ok)
  with 1 show ?case using put_gate_ok by (simp add: Let_def files_hold_def tables_ok_def)
qed

lemma resolve_steps: "sim env s x \<Longrightarrow> stepped env lock x (gates_resolve env lock i a s) (t_resolve i a (snd x))"
  unfolding gates_resolve_def t_resolve_def
proof (rule writing_stepped, assumption, rule agree_rbind, frule (1) holds_reads(3), goal_cases)
  case (1 i')
  let ?gs = "tb_gates (snd x)"
  show ?case
  proof (cases "find_index (\<lambda>g. gate_id g = i') ?gs")
    case None
    with 1 show ?thesis by simp
  next
    case (Some n)
    then have n: "n < length ?gs" using find_index_Some by fastforce
    have g: "gate_ok (ResolvedGate (gate_asked (?gs ! n)) a') \<and> gate_id (ResolvedGate (gate_asked (?gs ! n)) a') = gate_id (?gs ! n)" if "requiredLine a ''answer'' = Inr a'" for a'
    proof -
      have "gate_ok (?gs ! n)" using 1 n by (simp add: tables_ok_def list_all_length)
      then show ?thesis using requiredLine_ok[OF that] by (cases "?gs ! n") (auto simp: gate_ok_def gate_asked_def gate_id_def)
    qed
    have r: "readGates (oe_store env) (od_gates (os_disk s)) = Inr ?gs" using 1 holds_reads(3) by blast
    show ?thesis unfolding r rbind_simps Some option.case
    proof (rule agree_rbind)
      fix a' assume "requiredLine a ''answer'' = Inr a'"
      from g[OF this] show "agree env
         (let g = ResolvedGate (gate_asked (?gs ! n)) a' in Inr (g, os_disk s\<lparr>od_gates := Some (renderGates (?gs[n := g]))\<rparr>))
         (let g = ResolvedGate (gate_asked (?gs ! n)) a' in Inr (g, (snd x)\<lparr>tb_gates := ?gs[n := g]\<rparr>))"
        using 1 n by (auto simp: Let_def files_hold_def tables_ok_def keyed_replace list_all_replace)
    qed
  qed
qed

lemma standing_steps: "sim env s x \<Longrightarrow> stepped env lock x (standing_add env lock l s) (t_standing l (snd x))"
  unfolding standing_add_def t_standing_def
proof (rule writing_stepped, assumption, frule (1) holds_reads(4), goal_cases)
  case 1
  have r: "readStanding (oe_store env) (od_preferences (os_disk s)) = Inr (tb_standing (snd x))" using 1 holds_reads(4) by blast
  show ?case unfolding r rbind_simps
    by (rule agree_rbind) (use 1 in \<open>auto simp: Let_def files_hold_def tables_ok_def numbered_snoc dest: requiredLine_ok\<close>)
qed

lemma pointer_file_name: "is_pointer_file (pointer_name ts ending)"
  by (simp add: is_pointer_file_def pointer_name_def)

lemma update_pointer: "AList.update n (pointer_text p) (map (apsnd pointer_text) xs) = map (apsnd pointer_text) (AList.update n p xs)"
  by (induction xs) auto

lemma update_list_all: "list_all P xs \<Longrightarrow> P (k, v) \<Longrightarrow> list_all P (AList.update k v xs)"
  by (induction xs) auto

lemma push_steps:
  assumes "sim env s x" and "cell_ok ts"
  shows "stepped env lock x (inbox_push env lock ts n a u st r s) (t_push ts n a u st r (snd x))"
  unfolding inbox_push_def t_push_def
proof (rule writing_stepped[OF assms(1)], intro agree_rbind, goal_cases)
  case (1 a' u' st' r')
  then have "pointer_ok \<lparr>ip_ts = ts, ip_agent = a', ip_unit = u', ip_status = st', ip_report = r'\<rparr>"
    using assms(2) by (auto simp: pointer_ok_def pointerCells_def dest: requiredCell_ok optional_cell)
  with 1 show ?case using pointer_file_name
    by (simp add: holds_reads(6) Let_def) (simp add: files_hold_def tables_ok_def update_pointer update_list_all distinct_update)
qed

lemma drain_steps: "sim env s x \<Longrightarrow> stepped env lock x (inbox_drain env lock e s) (t_drain env e (snd x))"
  unfolding inbox_drain_def t_drain_def
  by (rule writing_stepped, assumption, frule (1) holds_pointers) (auto simp: files_hold_def tables_ok_def split: option.split)

lemma frontier_steps:
  assumes "sim env s x" and "json_laws env" and "fr_generation (tb_frontier (snd x)) < 9007199254740991" and "case stack of Inr rows \<Rightarrow> stack_ok rows | Inl _ \<Rightarrow> True"
  shows "stepped env lock x (frontier_set env lock stack repo prs s) (t_frontier stack repo prs (snd x))"
  unfolding frontier_set_def t_frontier_def
proof (rule writing_stepped[OF assms(1)], intro agree_rbind, goal_cases)
  case (1 r pin)
  then have r: "readFrontier (oe_parse env) (oe_store env) (od_frontier (os_disk s)) = Inr (tb_frontier (snd x))" using holds_reads(5) by blast
  let ?v = "\<lambda>rows. \<lparr>fr_generation = fr_generation (tb_frontier (snd x)) + 1, fr_prs = rows, fr_lowestUnmerged = map_option fp_pr (List.find (\<lambda>r. fp_state r = PrOpen) rows)\<rparr>"
  have v: "frontier_ok (?v rows)" if "stack = Inr rows" for rows
  proof -
    have rows: "\<forall>r \<in> set rows. 1 \<le> fp_pr r \<and> fp_pr r \<le> 9007199254740991 \<and> fp_branches r \<noteq> []" using assms(4) that by (simp add: stack_ok_def list_all_iff)
    have "\<bar>l\<bar> \<le> 9007199254740991" if f: "map_option fp_pr (List.find (\<lambda>r. fp_state r = PrOpen) rows) = Some l" for l
    proof -
      obtain r where "r \<in> set rows" "l = fp_pr r" using f by (auto simp: find_Some_iff) (metis nth_mem)
      then show ?thesis using rows by force
    qed
    then show ?thesis using rows assms(3) 1 by (auto simp: frontier_ok_def tables_ok_def)
  qed
  have rb: "readFrontier (oe_parse env) (oe_store env) (Some (oe_print env (frontier_json f) @ [LF])) = Inr f" if "frontier_ok f" for f
    using frontier_reads_back[OF that] assms(2) by (simp add: readFrontier_def requiredFile_def json_laws_def)
  show ?case unfolding r rbind_simps
  proof (cases "case pin of Some ns \<Rightarrow> \<not> distinct ns | None \<Rightarrow> False")
    case False
    then show "agree env
      (if (case pin of Some ns \<Rightarrow> \<not> distinct ns | None \<Rightarrow> False) then Inl (UserError ''--prs must not contain duplicates'')
       else rbind stack (\<lambda>rows. rbind (case pin of Some ns \<Rightarrow> validateFrontierPin (map fp_pr rows) ns | None \<Rightarrow> Inr ()) (\<lambda>_.
         let v = \<lparr>fr_generation = fr_generation (tb_frontier (snd x)) + 1, fr_prs = rows, fr_lowestUnmerged = map_option fp_pr (List.find (\<lambda>r. fp_state r = PrOpen) rows)\<rparr>
         in Inr (v, os_disk s\<lparr>od_frontier := Some (oe_print env (frontier_json v) @ [LF])\<rparr>))))
      (if (case pin of Some ns \<Rightarrow> \<not> distinct ns | None \<Rightarrow> False) then Inl (UserError ''--prs must not contain duplicates'')
       else rbind stack (\<lambda>rows. rbind (case pin of Some ns \<Rightarrow> validateFrontierPin (map fp_pr rows) ns | None \<Rightarrow> Inr ()) (\<lambda>_.
         let v = \<lparr>fr_generation = fr_generation (tb_frontier (snd x)) + 1, fr_prs = rows, fr_lowestUnmerged = map_option fp_pr (List.find (\<lambda>r. fp_state r = PrOpen) rows)\<rparr>
         in Inr (v, (snd x)\<lparr>tb_frontier := v\<rparr>))))"
      unfolding if_not_P[OF False] Let_def
      by (intro agree_rbind) (use 1 in \<open>simp add: files_hold_def tables_ok_def rb v\<close>)
  qed simp
qed

section \<open>Runs\<close>

lemma op_steps:
  assumes "sim env s x" and "json_laws env" and "orch_op_ok op" and "fr_generation (tb_frontier (snd x)) < 9007199254740991"
  shows "stepped env lock x (orch_run env lock op s) (t_op env op (snd x))"
proof (cases op)
  case (SetFrontier stack repo prs)
  have "case stack of Inr rows \<Rightarrow> stack_ok rows | Inl _ \<Rightarrow> True" using assms(3) SetFrontier by (simp add: orch_op_ok_def split: sum.splits)
  then show ?thesis using SetFrontier assms by (simp add: orch_run_def t_op_def tagged_stepped frontier_steps)
qed (use assms in \<open>simp_all add: orch_run_def t_op_def orch_op_ok_def tagged_stepped add_unit_steps set_unit_steps record_steps push_steps drain_steps park_steps resolve_steps standing_steps\<close>)

lemma generation_steps: "t_op env op tb = Inr (r, tb') \<Longrightarrow> fr_generation (tb_frontier tb') \<le> fr_generation (tb_frontier tb) + 1"
  by (auto simp: t_op_def t_add_unit_def t_set_unit_def t_record_def t_push_def t_drain_def t_park_def t_resolve_def t_standing_def t_frontier_def Let_def map_sum_def
    split: orch_op.splits sum.splits option.splits if_splits)

lemma step_agrees:
  assumes "sim env s x" and "json_laws env" and "orch_op_ok op" and "fr_generation (tb_frontier (snd x)) < 9007199254740991"
  shows "fst (orch_run env lock op s) = fst (t_step env lock op x) \<and> sim env (snd (orch_run env lock op s)) (snd (t_step env lock op x)) \<and>
    fr_generation (tb_frontier (snd (snd (t_step env lock op x)))) \<le> fr_generation (tb_frontier (snd x)) + 1"
  using op_steps[OF assms, of lock] generation_steps[of env op "snd x"]
  by (auto simp: stepped_def t_step_def split: bool.splits sum.splits prod.splits)

lemma runs_agree:
  assumes "sim env s x" and "json_laws env" and "\<forall>(_, op) \<in> set ops. orch_op_ok op" and "fr_generation (tb_frontier (snd x)) + int (length ops) \<le> 9007199254740991"
  shows "fst (orch_runs env ops s) = fst (t_steps env ops x) \<and> sim env (snd (orch_runs env ops s)) (snd (t_steps env ops x))"
  using assms
proof (induction ops arbitrary: s x)
  case (Cons o' ops)
  obtain lock op where o': "o' = (lock, op)" by fastforce
  have st: "fst (orch_run env lock op s) = fst (t_step env lock op x)" "sim env (snd (orch_run env lock op s)) (snd (t_step env lock op x))"
    "fr_generation (tb_frontier (snd (snd (t_step env lock op x)))) \<le> fr_generation (tb_frontier (snd x)) + 1"
    using step_agrees[of env s x op lock] Cons.prems o' by auto
  from Cons.IH[OF st(2) assms(2)] st(3) Cons.prems o'
  show ?case using st(1) by (auto simp: case_prod_unfold Let_def)
qed simp

text \<open>A handle that has just made its folder.\<close>

definition no_folder :: orch_store where
  "no_folder = \<lparr>os_closed = False, os_locked = False,
     os_disk = \<lparr>od_dir = False, od_units = None, od_ledger = None, od_inbox = None, od_gates = None, od_preferences = None, od_frontier = None, od_status = None\<rparr>\<rparr>"

lemma init_sim:
  assumes "json_laws env"
  shows "sim env (snd (orch_init env (Inr ()) no_folder)) (True, no_tables)"
  using assms by (simp add: orch_init_def no_folder_def ensureLock_def if_missing_def sim_def files_hold_def no_tables_def tables_ok_def saveUnits_def saveLedger_def writeTsv_def
    renderGates_def readFrontier_def requiredFile_def parseFrontier_def json_laws_def frontier_ok_def)

text \<open>
  C11. The store is its tables: on a fresh folder, over any list of writes, each with its own lock outcome, the answers of the store, errors too, are those of the tables, and
  afterwards every file reads back as the tables' rows: so no write loses a row, writes a file that cannot be read, or answers from stale rows.
\<close>

theorem store_refines_tables:
  assumes "json_laws env" and "\<forall>(_, op) \<in> set ops. orch_op_ok op" and "length ops \<le> 9007199254740991"
    and "orch_runs env ops (snd (orch_init env (Inr ()) no_folder)) = (answers, s)" and "t_steps env ops (True, no_tables) = (expected, (k, tb))"
  shows "answers = expected \<and> readUnits (oe_store env) (od_units (os_disk s)) = Inr (tb_units tb) \<and> readLedger (oe_store env) (od_ledger (os_disk s)) = Inr (tb_ledger tb) \<and>
    readGates (oe_store env) (od_gates (os_disk s)) = Inr (tb_gates tb) \<and> readStanding (oe_store env) (od_preferences (os_disk s)) = Inr (tb_standing tb) \<and>
    readFrontier (oe_parse env) (oe_store env) (od_frontier (os_disk s)) = Inr (tb_frontier tb) \<and> readPointers env (od_inbox (os_disk s)) = Inr (pointers_of env tb)"
proof -
  have "fst (orch_runs env ops (snd (orch_init env (Inr ()) no_folder))) = fst (t_steps env ops (True, no_tables)) \<and>
      sim env (snd (orch_runs env ops (snd (orch_init env (Inr ()) no_folder)))) (snd (t_steps env ops (True, no_tables)))"
    by (rule runs_agree[OF init_sim[OF assms(1)] assms(1,2)]) (use assms(3) in \<open>simp add: no_tables_def\<close>)
  then have "answers = expected" "sim env s (k, tb)" using assms(4,5) by simp_all
  then show ?thesis using holds_reads(1-5) holds_pointers by (simp add: sim_def)
qed

end
