(* ===== verification/OrchRuns.thy ===== *)
theory OrchRuns
  imports OrchRules
begin

text \<open>
  What whole runs of the orchestration store promise, read off its tables: the ledger answers with the last verdict recorded for a commit, and every pushed pointer is drained
  once or still in the inbox. The examples run on a small executable JSON.
\<close>

section \<open>A run\<close>

definition good_run :: "orch_env \<Rightarrow> (unit orch \<times> orch_op) list \<Rightarrow> orch_result orch list \<Rightarrow> orch_store \<Rightarrow> bool" where
  "good_run env ops answers s \<longleftrightarrow> json_laws env \<and> (\<forall>(_, op) \<in> set ops. orch_op_ok op) \<and> length ops \<le> 9007199254740991 \<and>
     orch_runs env ops (snd (orch_init env (Inr ()) no_folder)) = (answers, s)"

lemma good_run_tables:
  assumes "good_run env ops answers s"
  obtains k tb where "t_steps env ops (True, no_tables) = (answers, (k, tb))" and "sim env s (k, tb)"
proof -
  have g: "json_laws env" "\<forall>(_, op) \<in> set ops. orch_op_ok op" "length ops \<le> 9007199254740991" "orch_runs env ops (snd (orch_init env (Inr ()) no_folder)) = (answers, s)"
    using assms by (simp_all add: good_run_def)
  have "fst (orch_runs env ops (snd (orch_init env (Inr ()) no_folder))) = fst (t_steps env ops (True, no_tables)) \<and>
      sim env (snd (orch_runs env ops (snd (orch_init env (Inr ()) no_folder)))) (snd (t_steps env ops (True, no_tables)))"
    by (rule runs_agree[OF init_sim[OF g(1)] g(1,2)]) (use g(3) in \<open>simp add: no_tables_def\<close>)
  then show ?thesis using that[of "fst (snd (t_steps env ops (True, no_tables)))" "snd (snd (t_steps env ops (True, no_tables)))"] g(4) by simp
qed

text \<open>The rows that the answers of a run report.\<close>

definition recorded :: "orch_result orch list \<Rightarrow> LedgerEntry list" where
  "recorded answers = List.map_filter (\<lambda>a. case a of Inr (LedgerRow e) \<Rightarrow> Some e | _ \<Rightarrow> None) answers"

definition pushed :: "orch_result orch list \<Rightarrow> (string \<times> InboxPointer) list" where
  "pushed answers = List.map_filter (\<lambda>a. case a of Inr (PointerRow p f) \<Rightarrow> Some (f, p) | _ \<Rightarrow> None) answers"

definition drained :: "orch_result orch list \<Rightarrow> InboxPointer list" where
  "drained answers = concat (List.map_filter (\<lambda>a. case a of Inr (PointerRows ps) \<Rightarrow> Some ps | _ \<Rightarrow> None) answers)"

lemma rows_Nil [simp]: "recorded [] = []" "pushed [] = []" "drained [] = []"
  by (simp_all add: recorded_def pushed_def drained_def map_filter_simps)

lemma rows_append: "recorded (as @ bs) = recorded as @ recorded bs" "pushed (as @ bs) = pushed as @ pushed bs" "drained (as @ bs) = drained as @ drained bs"
  by (simp_all add: recorded_def pushed_def drained_def List.map_filter_def)

lemma t_steps_snoc:
  "t_steps env (ops @ [(lock, op)]) x = (fst (t_steps env ops x) @ [fst (t_step env lock op (snd (t_steps env ops x)))], snd (t_step env lock op (snd (t_steps env ops x))))"
proof (induction ops arbitrary: x)
  case (Cons a ops)
  then show ?case by (cases a) (simp add: case_prod_unfold Let_def)
qed (simp add: case_prod_unfold Let_def)

text \<open>What a write does to the ledger and to the inbox, told by its answer.\<close>

lemma t_op_rows:
  assumes "t_op env op tb = Inr (r, tb')"
  shows "tb_ledger tb' = (case r of LedgerRow e \<Rightarrow> put_verdict e (tb_ledger tb) | _ \<Rightarrow> tb_ledger tb)"
    "tb_inbox tb' = (case r of PointerRow p f \<Rightarrow> AList.update f p (tb_inbox tb) | PointerRows _ \<Rightarrow> [] | _ \<Rightarrow> tb_inbox tb)"
    "r = PointerRows ps \<Longrightarrow> ps = pointers_of env tb"
  using assms
  by (auto simp: t_op_def t_add_unit_def t_set_unit_def t_record_def t_push_def t_drain_def t_park_def t_resolve_def t_standing_def t_frontier_def Let_def map_sum_def
    split: orch_op.splits sum.splits option.splits if_splits)

lemma t_step_cases:
  obtains (error) e where "fst (t_step env lock op (k, tb)) = Inl e" and "snd (snd (t_step env lock op (k, tb))) = tb"
  | (done_) r where "fst (t_step env lock op (k, tb)) = Inr r" and "t_op env op tb = Inr (r, snd (snd (t_step env lock op (k, tb))))"
  by (cases k; cases lock; cases "t_op env op tb") (auto simp: t_step_def)

section \<open>The ledger\<close>

definition entry_at :: "string \<Rightarrow> string \<Rightarrow> LedgerEntry list \<Rightarrow> LedgerEntry option" where
  "entry_at p x es = List.find (\<lambda>e. le_pr e = p \<and> le_sha e = x) es"

lemma find_replace:
  assumes "find_index P es = Some n" and "P row"
  shows "List.find P (es[n := row]) = Some row"
  using assms by (induction es arbitrary: n) (auto split: if_splits)

lemma find_replace_other:
  assumes "n < length es" and "\<not> P (es ! n)" and "\<not> P row"
  shows "List.find P (es[n := row]) = List.find P es"
  using assms by (induction es arbitrary: n) (auto simp: nth_Cons split: nat.splits)

lemma find_snoc: "List.find P (xs @ [x]) = (case List.find P xs of Some y \<Rightarrow> Some y | None \<Rightarrow> if P x then Some x else None)"
  by (induction xs) auto

lemma entry_put: "entry_at p x (put_verdict row es) = (if le_pr row = p \<and> le_sha row = x then Some row else entry_at p x es)"
proof (cases "find_index (\<lambda>e. le_pr e = le_pr row \<and> le_sha e = le_sha row) es")
  case None
  then have "entry_at (le_pr row) (le_sha row) es = None" by (auto simp: entry_at_def find_None_iff find_index_None)
  then show ?thesis using None by (auto simp: put_verdict_def entry_at_def find_snoc split: option.split)
next
  case (Some n)
  from find_index_Some[OF this] Some show ?thesis
    by (auto simp: put_verdict_def entry_at_def find_replace intro!: find_replace_other)
qed

lemma ledger_follows:
  "t_steps env ops (k, no_tables) = (answers, (k', tb)) \<Longrightarrow> entry_at p x (tb_ledger tb) = entry_at p x (rev (recorded answers))"
proof (induction ops arbitrary: answers k' tb rule: rev_induct)
  case Nil
  then show ?case by (auto simp: no_tables_def entry_at_def)
next
  case (snoc o' ops)
  obtain lock op where o': "o' = (lock, op)" by fastforce
  obtain as k1 t1 where as: "t_steps env ops (k, no_tables) = (as, (k1, t1))" by (metis prod.collapse)
  have ih: "entry_at p x (tb_ledger t1) = entry_at p x (rev (recorded as))" by (rule snoc.IH[OF as])
  have st: "answers = as @ [fst (t_step env lock op (k1, t1))]" "(k', tb) = snd (t_step env lock op (k1, t1))"
    using snoc.prems by (simp_all add: o' t_steps_snoc as)
  have tb: "tb = snd (snd (t_step env lock op (k1, t1)))" using st(2) by (metis snd_conv)
  show ?case
  proof (cases rule: t_step_cases[of env lock op k1 t1])
    case (error e)
    then show ?thesis using ih st(1) tb by (simp add: rows_append) (simp add: recorded_def map_filter_simps)
  next
    case (done_ r)
    have "recorded answers = recorded as @ (case r of LedgerRow e \<Rightarrow> [e] | _ \<Rightarrow> [])"
      by (simp add: st(1) done_(1) rows_append) (simp add: recorded_def map_filter_simps split: orch_result.split)
    moreover have "tb_ledger tb = (case r of LedgerRow e \<Rightarrow> put_verdict e (tb_ledger t1) | _ \<Rightarrow> tb_ledger t1)"
      using t_op_rows(1)[OF done_(2)] tb by simp
    ultimately show ?thesis using ih by (cases r) (simp_all add: entry_put, simp_all add: entry_at_def)
  qed
qed

text \<open>
  C27. The ledger answers with the last verdict: after any run, a check of a pull request and a commit gives the entry that was recorded for them last, and NOT-VERIFIED when
  none was.
\<close>

theorem ledger_answers_last:
  assumes "good_run env ops answers s" and "pr_text pr = Inr p" and "requiredCell sha ''SHA'' = Inr x"
  shows "ledger_check env pr sha s =
    (case List.find (\<lambda>e. le_pr e = p \<and> le_sha e = x) (rev (recorded answers)) of
       Some e \<Rightarrow> Inr e
     | None \<Rightarrow> Inl (NotFoundError ''NOT-VERIFIED'' (Some (''NOT-VERIFIED'', JObj [(''pr'', JStr p), (''sha'', JStr x), (''verdict'', JStr ''NOT-VERIFIED'')]))))"
proof -
  obtain k tb where tb: "t_steps env ops (True, no_tables) = (answers, (k, tb))" "sim env s (k, tb)" using good_run_tables[OF assms(1)] .
  then have "readLedger (oe_store env) (od_ledger (os_disk s)) = Inr (tb_ledger tb)" "\<not> os_closed s" using holds_reads(2) by (auto simp: sim_def)
  then show ?thesis using assms(2,3) ledger_follows[OF tb(1), of p x] by (simp add: ledger_check_def reading_def entry_at_def)
qed

section \<open>The inbox\<close>

lemma update_fresh: "k \<notin> fst ` set xs \<Longrightarrow> AList.update k v xs = xs @ [(k, v)]"
  by (induction xs) auto

lemma inbox_follows:
  assumes "t_steps env ops (k, no_tables) = (answers, (k', tb))" and "distinct (map fst (pushed answers))"
  shows "mset (map snd (pushed answers)) = mset (drained answers) + mset (map snd (tb_inbox tb)) \<and> fst ` set (tb_inbox tb) \<subseteq> fst ` set (pushed answers)"
  using assms
proof (induction ops arbitrary: answers k' tb rule: rev_induct)
  case Nil
  then show ?case by (auto simp: no_tables_def)
next
  case (snoc o' ops)
  obtain lock op where o': "o' = (lock, op)" by fastforce
  obtain as k1 t1 where as: "t_steps env ops (k, no_tables) = (as, (k1, t1))" by (metis prod.collapse)
  have st: "answers = as @ [fst (t_step env lock op (k1, t1))]" "(k', tb) = snd (t_step env lock op (k1, t1))"
    using snoc.prems(1) by (simp_all add: o' t_steps_snoc as)
  have tb: "tb = snd (snd (t_step env lock op (k1, t1)))" using st(2) by (metis snd_conv)
  have "distinct (map fst (pushed as))" using snoc.prems(2) by (simp add: st(1) rows_append)
  from snoc.IH[OF as this] have ih: "mset (map snd (pushed as)) = mset (drained as) + mset (map snd (tb_inbox t1))" "fst ` set (tb_inbox t1) \<subseteq> fst ` set (pushed as)" by blast+
  show ?case
  proof (cases rule: t_step_cases[of env lock op k1 t1])
    case (error e)
    then have "pushed answers = pushed as" "drained answers = drained as"
      by (simp_all add: st(1) rows_append) (simp_all add: pushed_def drained_def map_filter_simps)
    then show ?thesis using ih error(2) tb by simp
  next
    case (done_ r)
    have pd: "pushed answers = pushed as @ (case r of PointerRow p f \<Rightarrow> [(f, p)] | _ \<Rightarrow> [])" "drained answers = drained as @ (case r of PointerRows ps \<Rightarrow> ps | _ \<Rightarrow> [])"
      by (simp_all add: st(1) done_(1) rows_append) (simp_all add: pushed_def drained_def map_filter_simps split: orch_result.split)
    have inbox: "tb_inbox tb = (case r of PointerRow p f \<Rightarrow> AList.update f p (tb_inbox t1) | PointerRows _ \<Rightarrow> [] | _ \<Rightarrow> tb_inbox t1)"
      using t_op_rows(2)[OF done_(2)] tb by simp
    show ?thesis
    proof (cases r)
      case (PointerRow p f)
      then have "f \<notin> fst ` set (pushed as)" using snoc.prems(2) pd by simp
      then have "AList.update f p (tb_inbox t1) = tb_inbox t1 @ [(f, p)]" using ih(2) by (intro update_fresh) blast
      then show ?thesis using ih pd inbox PointerRow by auto
    next
      case (PointerRows ps)
      then have "ps = pointers_of env t1" using t_op_rows(3)[OF done_(2)] by simp
      then have "mset ps = mset (map snd (tb_inbox t1))" by (simp add: pointers_of_def)
      then show ?thesis using ih pd inbox PointerRows by simp
    qed (use ih pd inbox in simp_all)
  qed
qed

text \<open>
  C28. Every pushed pointer is drained once: after any run whose pushes have different file names, the pointers pushed are exactly those drained so far together with those
  the inbox shows, counted with their number.
\<close>

theorem pointers_drained_once:
  assumes "good_run env ops answers s" and "distinct (map fst (pushed answers))"
  shows "\<exists>left. inbox_peek env s = Inr left \<and> mset (map snd (pushed answers)) = mset (drained answers) + mset left"
proof -
  obtain k tb where tb: "t_steps env ops (True, no_tables) = (answers, (k, tb))" "sim env s (k, tb)" using good_run_tables[OF assms(1)] .
  then have "inbox_peek env s = Inr (pointers_of env tb)" using holds_pointers by (simp add: sim_def inbox_peek_def reading_def)
  moreover have "mset (pointers_of env tb) = mset (map snd (tb_inbox tb))" by (simp add: pointers_of_def)
  ultimately show ?thesis using inbox_follows[OF tb(1) assms(2)] by simp
qed

section \<open>Examples\<close>

text \<open>A small executable JSON: every text of a frontier is written with its length before it.\<close>

definition put_text :: "string \<Rightarrow> string" where
  "put_text s = digits_of_nat (length s) @ '':'' @ s"

fun get_texts :: "nat \<Rightarrow> string \<Rightarrow> string list" where
  "get_texts 0 t = []"
| "get_texts (Suc n) t =
     (if t = [] then [] else
        let k = nat_of_digits (takeWhile js_digit t); r = tl (dropWhile js_digit t) in take k r # get_texts n (drop k r))"

lemma get_texts_put: "length ss \<le> n \<Longrightarrow> get_texts n (concat (map put_text ss)) = ss"
proof (induction ss arbitrary: n)
  case Nil
  then show ?case by (cases n) simp_all
next
  case (Cons s ss)
  then obtain m where m: "n = Suc m" "length ss \<le> m" by (cases n) auto
  let ?t = "digits_of_nat (length s) @ '':'' @ s @ concat (map put_text ss)"
  have "\<forall>c \<in> set (digits_of_nat (length s)). js_digit c" by (rule digits_of_nat_digits)
  then have "takeWhile js_digit ?t = digits_of_nat (length s)" "dropWhile js_digit ?t = '':'' @ s @ concat (map put_text ss)"
    by (simp_all add: takeWhile_append dropWhile_append js_digit_def)
  then show ?case using m Cons.IH[of m] by (simp add: put_text_def[of s] Let_def)
qed

definition get_int :: "string \<Rightarrow> int" where
  "get_int s = (if take 1 s = ''-'' then - int (nat_of_digits (drop 1 s)) else int (nat_of_digits s))"

lemma get_int_show [simp]: "get_int (show_int i) = i"
proof -
  have "take 1 (digits_of_nat n) \<noteq> ''-''" for n
    using digits_cell[of n] by (cases "digits_of_nat n") (auto simp: cell_ok_def)
  then show ?thesis by (simp add: get_int_def show_int_def)
qed

definition int_of_json :: "json \<Rightarrow> int" where
  "int_of_json v = (case v of JNum q \<Rightarrow> \<lfloor>q\<rfloor> | _ \<Rightarrow> 0)"

definition text_of_json :: "json \<Rightarrow> string" where
  "text_of_json v = (case v of JStr s \<Rightarrow> s | _ \<Rightarrow> [])"

definition row_texts :: "json \<Rightarrow> string list" where
  "row_texts v = (case v of JObj [(_, b), (_, p), (_, st), (_, sha)] \<Rightarrow> [text_of_json b, show_int (int_of_json p), text_of_json st, text_of_json sha] | _ \<Rightarrow> [])"

definition small_print :: "json \<Rightarrow> string" where
  "small_print v = (case v of
       JObj [(_, g), (_, JArr rows), (_, l)] \<Rightarrow>
         concat (map put_text ([show_int (int_of_json g), if l = JNull then [] else show_int (int_of_json l)] @ concat (map row_texts rows)))
     | _ \<Rightarrow> [])"

fun rows_of_texts :: "string list \<Rightarrow> json list" where
  "rows_of_texts (b # p # st # sha # r) =
     JObj [(''branches'', JStr b), (''pr'', jint (get_int p)), (''state'', JStr st), (''sha'', JStr sha)] # rows_of_texts r"
| "rows_of_texts _ = []"

definition small_parse :: "string \<Rightarrow> json option" where
  "small_parse t =
     (if t = ''{}'' @ [LF] then Some (JObj [])
      else case get_texts (length t) (butlast t) of
          g # l # r \<Rightarrow> Some (JObj [(''generation'', jint (get_int g)), (''prs'', JArr (rows_of_texts r)), (''lowestUnmerged'', if l = [] then JNull else jint (get_int l))])
        | _ \<Rightarrow> None)"

definition small_env :: orch_env where
  "small_env = \<lparr>oe_store = ''/orch'', oe_parse = small_parse, oe_print = small_print, oe_collate = (\<lambda>a b. length a \<le> length b)\<rparr>"

lemma put_text_length: "length ss \<le> length (concat (map put_text ss))"
  by (induction ss) (simp_all add: put_text_def)

lemma small_back: "small_parse (small_print (frontier_json f) @ [LF]) = Some (frontier_json f)"
proof -
  let ?low = "case fr_lowestUnmerged f of Some l \<Rightarrow> show_int l | None \<Rightarrow> []"
  define row where "row = (\<lambda>r :: FrontierPr. JObj [(''branches'', JStr (fp_branches r)), (''pr'', jint (fp_pr r)), (''state'', JStr (pr_state_text (fp_state r))), (''sha'', JStr (fp_sha r))])"
  let ?rows = "map row (fr_prs f)"
  define ss where "ss = show_int (fr_generation f) # ?low # concat (map row_texts ?rows)"
  have int: "int_of_json (jint i) = i" "jint i \<noteq> JNull" "show_int i \<noteq> []" for i by (simp_all add: int_of_json_def jint_def show_int_def)
  have print: "small_print (frontier_json f) = concat (map put_text ss)"
    by (auto simp: small_print_def frontier_json_def ss_def row_def int split: option.split)
  have rows: "rows_of_texts (concat (map row_texts (map row rs))) = map row rs" for rs
  proof (induction rs)
    case (Cons r rs)
    have "row_texts (row r) = [fp_branches r, show_int (fp_pr r), pr_state_text (fp_state r), fp_sha r]" by (simp add: row_def row_texts_def text_of_json_def int)
    then show ?case using Cons by (simp add: row_def)
  qed simp
  have "hd (concat (map put_text ss)) \<noteq> CHR ''{''"
  proof -
    have "hd (digits_of_nat n) \<in> set (digits_of_nat n)" for n by simp
    then have d: "js_digit (hd (digits_of_nat n))" for n using digits_of_nat_digits by blast
    have "hd (digits_of_nat n) \<noteq> CHR ''{''" for n using d[of n] by (auto simp: js_digit_def)
    then show ?thesis by (simp add: ss_def put_text_def)
  qed
  moreover have "concat (map put_text ss) \<noteq> []" by (simp add: ss_def put_text_def)
  ultimately have ne: "concat (map put_text ss) @ [LF] \<noteq> ''{}'' @ [LF]" by (cases "concat (map put_text ss)") auto
  define t where "t = concat (map put_text ss)"
  have g: "get_texts (Suc (length t)) t = ss" using put_text_length[of ss] by (simp add: t_def get_texts_put del: get_texts.simps)
  have "small_parse (t @ [LF]) = (case ss of
      g # l # r \<Rightarrow> Some (JObj [(''generation'', jint (get_int g)), (''prs'', JArr (rows_of_texts r)), (''lowestUnmerged'', if l = [] then JNull else jint (get_int l))])
    | _ \<Rightarrow> None)"
    using ne g unfolding t_def[symmetric] by (simp add: small_parse_def del: get_texts.simps)
  also have "\<dots> = Some (frontier_json f)" using rows int by (auto simp: ss_def frontier_json_def row_def split: option.split)
  finally show ?thesis by (simp add: print t_def)
qed

lemma small_laws: "json_laws small_env"
  by (simp add: json_laws_def small_env_def small_back) (simp add: small_parse_def)

definition few_writes :: "(unit orch \<times> orch_op) list" where
  "few_writes = [(Inr (), AddUnit ''u1'' ''web'' None), (Inr (), RecordVerdict ''2026-01-02'' 7 ''ab12'' ''verifier-failed'' ''log.txt'' None),
     (Inr (), ParkGate ''g1'' ''Ship?'' ''yes or no'' ''no''), (Inr (), PushPointer ''2026-01-02'' ''1-a'' ''vent'' ''u1'' ''done'' None), (Inr (), DrainInbox None),
     (Inr (), RecordVerdict ''2026-01-03'' 7 ''ab12'' ''live-ui-verified'' ''shot.png'' None), (Inr (), PushPointer ''2026-01-03'' ''1-b'' ''vent'' ''u1'' ''ready'' None),
     (Inr (), AddUnit ''u1'' ''web'' None)]"

abbreviation few_run :: "orch_result orch list \<times> orch_store" where
  "few_run \<equiv> orch_runs small_env few_writes (snd (orch_init small_env (Inr ()) no_folder))"

lemma few_ok: "\<forall>(_, op) \<in> set few_writes. orch_op_ok op" "length few_writes \<le> 9007199254740991"
  by (simp_all add: few_writes_def orch_op_ok_def cell_ok_def)

lemma few_good: "good_run small_env few_writes (fst few_run) (snd few_run)"
  using small_laws few_ok by (simp add: good_run_def)

lemma few_steps: "fst few_run = fst (t_steps small_env few_writes (True, no_tables))"
  using runs_agree[OF init_sim[OF small_laws] small_laws few_ok(1)] few_ok(2) by (simp add: no_tables_def)

lemma few_units: "map un_id (tb_units (snd (snd (t_steps small_env few_writes (True, no_tables))))) = [''u1'']"
  by code_simp

lemma few_rows:
  "map (\<lambda>e. (le_pr e, le_sha e, le_verdict e)) (recorded (fst few_run)) = [(''7'', ''ab12'', VerifierFailed), (''7'', ''ab12'', LiveUiVerified)]"
  "distinct (map fst (pushed (fst few_run)))" "map ip_status (drained (fst few_run)) = [''done'']" "map ip_status (map snd (pushed (fst few_run))) = [''done'', ''ready'']"
  unfolding few_steps by code_simp+

lemma store_refines_tables_witness:
  "rbind (readUnits ''/orch'' (od_units (os_disk (snd few_run)))) (\<lambda>us. Inr (map un_id us)) = Inr [''u1'']"
proof -
  obtain answers s where run: "few_run = (answers, s)" by fastforce
  obtain expected k tb where steps: "t_steps small_env few_writes (True, no_tables) = (expected, (k, tb))" by (metis prod.collapse)
  have "readUnits (oe_store small_env) (od_units (os_disk s)) = Inr (tb_units tb)"
    using store_refines_tables[OF small_laws few_ok run steps] by blast
  then show ?thesis using run steps few_units by (simp add: small_env_def)
qed

lemma ledger_answers_last_witness: "rbind (ledger_check small_env 7 ''ab12'' (snd few_run)) (\<lambda>e. Inr (le_verdict e)) = Inr LiveUiVerified"
proof -
  have "pr_text 7 = Inr ''7''" "requiredCell ''ab12'' ''SHA'' = Inr ''ab12''"
    by code_simp+
  note check = ledger_answers_last[OF few_good this]
  obtain e1 e2 where e: "recorded (fst few_run) = [e1, e2]" using few_rows(1) by (auto simp: map_eq_Cons_conv)
  then have "le_pr e2 = ''7''" "le_sha e2 = ''ab12''" "le_verdict e2 = LiveUiVerified" using few_rows(1) by simp_all
  then show ?thesis using check e by simp
qed

lemma pointers_drained_once_witness: "\<exists>left. inbox_peek small_env (snd few_run) = Inr left \<and> map ip_status left = [''ready'']"
proof -
  obtain left where l: "inbox_peek small_env (snd few_run) = Inr left" "mset (map snd (pushed (fst few_run))) = mset (drained (fst few_run)) + mset left"
    using pointers_drained_once[OF few_good few_rows(2)] by blast
  from arg_cong[OF l(2), of "image_mset ip_status"]
  have "mset [''done'', ''ready''] = mset [''done''] + mset (map ip_status left)"
    using few_rows(3,4) by (metis mset_map image_mset_union)
  then have "mset (map ip_status left) = mset [''ready'']" by simp
  then show ?thesis using l(1) by (metis mset_single_iff_right)
qed

end
