(* ===== verification/OrchStatusRules.thy ===== *)
theory OrchStatusRules
  imports OrchStatus OrchRuns
begin

text \<open>
  The status page gives its summary back while no row holds a \<open><\<close>, so a render tells what changed since the last; a row that holds the comment's mark hides the summary from then
  on. The frontier of a checked stack is one the store can keep.
\<close>

section \<open>The summary in its page\<close>

definition no_angle :: "string \<Rightarrow> bool" where
  "no_angle s \<longleftrightarrow> CHR ''<'' \<notin> set s"

lemma no_angle_simps [simp]: "no_angle []" "no_angle (c # s) \<longleftrightarrow> c \<noteq> CHR ''<'' \<and> no_angle s" "no_angle (s @ t) \<longleftrightarrow> no_angle s \<and> no_angle t"
  by (auto simp: no_angle_def)

lemma no_angle_join: "no_angle d \<Longrightarrow> \<forall>t \<in> set ts. no_angle t \<Longrightarrow> no_angle (js_join d ts)"
  by (induction d ts rule: js_join.induct) auto

lemma no_angle_digits [simp]: "no_angle (digits_of_nat n)"
  using digits_of_nat_digits[of n] by (force simp: no_angle_def js_digit_def)

lemma no_angle_int [simp]: "no_angle (show_int i)"
  by (simp add: show_int_def)

lemma no_angle_markdown: "no_angle v \<Longrightarrow> no_angle (markdown v)"
  by (induction v) (auto simp: markdown_def)

lemma no_angle_table:
  assumes "\<forall>h \<in> set hs. no_angle h" and "\<forall>row \<in> set rows. \<forall>c \<in> set row. no_angle c"
  shows "no_angle (status_table hs rows)"
proof -
  have "no_angle (''| '' @ js_join '' | '' (map markdown row) @ '' |'')" if "row \<in> set rows" for row
    using assms(2) that by (auto intro!: no_angle_join no_angle_markdown)
  moreover have "no_angle (''| '' @ js_join '' | '' hs @ '' |'')" "no_angle (''| '' @ js_join '' | '' (map (\<lambda>_. ''---'') hs) @ '' |'')"
    using assms(1) by (auto intro!: no_angle_join)
  ultimately show ?thesis unfolding status_table_def by (auto intro!: no_angle_join)
qed

lemma summary_text_skip: "no_angle p \<Longrightarrow> summary_text (p @ r) = summary_text r"
proof (induction p)
  case (Cons c p)
  then show ?case by (simp add: SUMMARY_MARK_def)
qed simp

lemma last_close_only:
  assumes "t \<noteq> []"
  shows "last_close (t @ '' -->'') = Some t"
proof -
  have "length (t @ '' -->'') = Suc (length t) + 3" by simp
  then have up: "[1..<length (t @ '' -->'')] = [1..<length t] @ length t # [Suc (length t)..<length (t @ '' -->'')]"
  proof -
    have "1 \<le> length t" using assms by (simp add: Suc_le_eq)
    then have a: "[1..<length t + 4] = [1..<length t] @ [length t..<length t + 4]" by (rule upt_add_eq_append)
    have b: "[length t..<length t + 4] = length t # [Suc (length t)..<length t + 4]" by (rule upt_conv_Cons) simp
    have l: "length (t @ '' -->'') = length t + 4" by simp
    show ?thesis unfolding l a b by (rule refl)
  qed
  have "filter (\<lambda>n. take 4 (drop n (t @ '' -->'')) = '' -->'') [Suc (length t)..<length (t @ '' -->'')] = []"
    by (auto simp: filter_empty_conv dest!: arg_cong[of _ "'' -->''" length])
  then show ?thesis unfolding last_close_def up by simp
qed

lemma summary_text_mark:
  assumes "t \<noteq> []" and "LF \<notin> set t" and "CR \<notin> set t"
  shows "summary_text (SUMMARY_MARK @ t @ '' -->'' @ [LF]) = Some t"
proof -
  have tw: "takeWhile (\<lambda>x. x \<noteq> LF \<and> x \<noteq> CR) (t @ '' -->'' @ [LF]) = t @ '' -->''"
  proof -
    have "\<forall>x \<in> set (t @ '' -->''). x \<noteq> LF \<and> x \<noteq> CR" using assms(2,3) by auto
    then have "takeWhile (\<lambda>x. x \<noteq> LF \<and> x \<noteq> CR) ((t @ '' -->'') @ [LF]) = t @ '' -->''" by (subst takeWhile_append2) auto
    then show ?thesis by simp
  qed
  define r where "r = t @ '' -->'' @ [LF]"
  have s: "SUMMARY_MARK @ r = CHR ''<'' # (tl SUMMARY_MARK @ r)" by (simp add: SUMMARY_MARK_def)
  have m: "take (length SUMMARY_MARK) (SUMMARY_MARK @ r) = SUMMARY_MARK" "drop (length SUMMARY_MARK) (SUMMARY_MARK @ r) = r" by simp_all
  have "summary_text (SUMMARY_MARK @ r) = (case last_close (takeWhile (\<lambda>x. x \<noteq> LF \<and> x \<noteq> CR) r) of Some t \<Rightarrow> Some t | None \<Rightarrow> summary_text (tl SUMMARY_MARK @ r))"
    unfolding s summary_text.simps unfolding s[symmetric] m by simp
  then show ?thesis unfolding r_def tw last_close_only[OF assms(1)] by simp
qed

section \<open>Plain counts\<close>

text \<open>Counts are numbers while no counted name is one that every object inherits.\<close>

definition plain_name :: "status_env \<Rightarrow> string \<Rightarrow> bool" where
  "plain_name se v \<longleftrightarrow> v \<noteq> ''__proto__'' \<and> se_native se v = None"

definition plain_counts :: "Counts \<Rightarrow> bool" where
  "plain_counts counts \<longleftrightarrow> distinct (map fst counts) \<and> (\<forall>(n, c) \<in> set counts. n \<noteq> ''__proto__'' \<and> (\<exists>k. c = Num k \<and> k \<le> 9007199254740991))"

lemma set_own_keys [simp]: "set (own_keys fs) = set fs"
  by (auto simp: own_keys_def)

lemma distinct_filter_fst: "distinct (map fst (filter P fs @ filter (\<lambda>x. \<not> P x) fs)) = distinct (map fst fs)"
proof -
  have "mset (map fst (filter P fs @ filter (\<lambda>x. \<not> P x) fs)) = mset (map fst fs)" by (metis mset_map mset_append mset_filter multiset_partition)
  then show ?thesis by (metis mset_eq_imp_distinct_iff)
qed

lemma distinct_own_keys [simp]: "distinct (map fst (own_keys fs)) = distinct (map fst fs)"
proof -
  have "mset (map fst (own_keys fs)) = mset (map fst fs)"
    unfolding own_keys_def case_prod_unfold mset_map mset_append mset_sort mset_filter by (metis multiset_partition)
  then show ?thesis by (metis mset_eq_imp_distinct_iff)
qed

lemma distinct_collated [simp]: "distinct (map f (collated le fs)) = distinct (map f fs)"
  by (metis mset_collated mset_eq_imp_distinct_iff mset_map)

definition counted_to :: "nat \<Rightarrow> string set \<Rightarrow> Counts \<Rightarrow> bool" where
  "counted_to n names counts \<longleftrightarrow> distinct (map fst counts) \<and> (\<forall>(v, c) \<in> set counts. v \<in> names \<and> (\<exists>k \<le> n. c = Num k))"

lemma count_up_counts:
  assumes "counted_to n names counts" and "v \<in> names" and "plain_name se v"
  shows "counted_to (Suc n) names (count_up (se_native se) v counts)"
proof -
  have k: "\<exists>k \<le> n. c = Num k" if "map_of counts v = Some c" for c using assms(1) map_of_SomeD[OF that] by (auto simp: counted_to_def)
  obtain k where "k \<le> Suc n" "count_up (se_native se) v counts = AList.update v (Num k) counts"
  proof (cases "map_of counts v")
    case None
    then show ?thesis using that[of 1] assms(3) by (simp add: count_up_def plain_name_def)
  next
    case (Some c)
    then obtain m where "m \<le> n" "c = Num m" using k by blast
    then show ?thesis using that[of "Suc m"] Some assms(3) by (simp add: count_up_def plain_name_def)
  qed
  moreover have "distinct (map fst (AList.update v (Num k) counts))" using assms(1) by (simp add: counted_to_def distinct_update)
  moreover have "set (AList.update v (Num k) counts) \<subseteq> insert (v, Num k) (set counts)" by (rule set_alist_update)
  ultimately show ?thesis using assms(1,2) unfolding counted_to_def by (fastforce intro: le_SucI)
qed

lemma fold_count_up:
  assumes "counted_to n names counts" and "set vs \<subseteq> names" and "\<forall>v \<in> set vs. plain_name se v"
  shows "counted_to (n + length vs) names (fold (count_up (se_native se)) vs counts)"
  using assms
proof (induction vs arbitrary: n counts)
  case (Cons v vs)
  then show ?case using Cons.IH[OF count_up_counts[of n names counts v se]] by simp
qed simp

lemma countValues_plain:
  assumes "\<forall>v \<in> set vs. plain_name se v" and "length vs \<le> 9007199254740991"
  shows "plain_counts (countValues env (se_native se) vs) \<and> fst ` set (countValues env (se_native se) vs) \<subseteq> set vs"
proof -
  have "counted_to (0 + length vs) (set vs) (fold (count_up (se_native se)) vs [])" by (rule fold_count_up) (use assms(1) in \<open>auto simp: counted_to_def\<close>)
  then have c: "counted_to (length vs) (set vs) (countValues env (se_native se) vs)" by (simp add: counted_to_def countValues_def)
  then have "fst ` set (countValues env (se_native se) vs) \<subseteq> set vs" by (auto simp: counted_to_def)
  moreover have "plain_counts (countValues env (se_native se) vs)"
    using c assms unfolding plain_counts_def counted_to_def plain_name_def by (fastforce intro: order_trans)
  ultimately show ?thesis by blast
qed

lemma count_fields_back:
  assumes "plain_counts (out @ counts)"
  shows "count_fields (map (\<lambda>(n, c). (n, case c of Num k \<Rightarrow> JNum (of_nat k) | Glued t \<Rightarrow> JStr t)) counts) out = Some (out @ counts)"
  using assms
proof (induction counts arbitrary: out)
  case (Cons a counts)
  obtain n k where a: "a = (n, Num k)" "n \<noteq> ''__proto__''" "k \<le> 9007199254740991" using Cons.prems by (auto simp: plain_counts_def)
  have s: "safe_int_of (Some (JNum (of_nat k))) = Some (int k)"
    using safe_int_back[of "int k"] a(3) by (simp add: jint_def)
  have "n \<notin> fst ` set out" using Cons.prems a by (auto simp: plain_counts_def)
  then have "AList.update n (Num k) out = out @ [a]" using a by (simp add: alist_update_fresh)
  then show ?case using Cons.IH[of "out @ [a]"] Cons.prems a s by simp
qed simp

lemma countRecord_back: "plain_counts counts \<Longrightarrow> countRecord (Some (counts_json counts)) = Some counts"
  using count_fields_back[of "[]" counts] by (simp add: countRecord_def counts_json_def)

section \<open>Renders\<close>

text \<open>The rows of a report without a \<open><\<close>, counted under plain names.\<close>

definition plain_report :: "status_env \<Rightarrow> StatusReport \<Rightarrow> bool" where
  "plain_report se r \<longleftrightarrow>
     (\<forall>row \<in> set (map unitCells (sr_units r) @ map ledgerCells (sr_ledger r) @ map pr_cells (fr_prs (sr_frontier r)) @ map gate_cells (sr_gates r)). list_all no_angle row) \<and>
     (\<forall>u \<in> set (sr_units r). plain_name se (un_state u)) \<and> (\<forall>v. plain_name se (verdict_text v)) \<and>
     length (sr_units r) \<le> 9007199254740991 \<and> length (sr_ledger r) \<le> 9007199254740991"

text \<open>What \<open>JSON\<close> gives for the summary of a report: a text of one line, which it reads back.\<close>

definition summary_line_ok :: "orch_env \<Rightarrow> status_env \<Rightarrow> StatusSummary \<Rightarrow> bool" where
  "summary_line_ok env se s \<longleftrightarrow>
     (let t = se_line se (summary_json s) in oe_parse env t = Some (summary_json s) \<and> t \<noteq> [] \<and> LF \<notin> set t \<and> CR \<notin> set t)"

lemma no_angle_counts:
  assumes "plain_counts counts" and "\<forall>n \<in> fst ` set counts. no_angle n"
  shows "no_angle (countLine counts)"
proof -
  have "\<forall>t \<in> set (map (\<lambda>(name, c). name @ ''='' @ count_text c) counts). no_angle t"
    using assms by (fastforce simp: plain_counts_def count_text_def)
  then show ?thesis by (auto simp: countLine_def intro!: no_angle_join)
qed

lemma all_strings_back: "ids_of (map JStr ss) = Some ss"
  by (simp add: ids_of_def as_string_def List.map_filter_def comp_def)

lemma page_reads_back:
  assumes "plain_report se r" and "sr_summary r = summarize env se (sr_units r) (sr_ledger r) (sr_frontier r) (sr_gates r)"
    and "summary_line_ok env se (sr_summary r)" and "no_angle stamp"
  shows "previousSummary (oe_parse env) (statusMarkdown se stamp (sr_units r) (sr_ledger r) (sr_frontier r) (sr_gates r) (sr_summary r)) = Some (sr_summary r)"
proof -
  let ?s = "sr_summary r"
  have us: "plain_counts (ss_unitStates ?s) \<and> fst ` set (ss_unitStates ?s) \<subseteq> un_state ` set (sr_units r)"
    using countValues_plain[of "map un_state (sr_units r)" se env] assms(1,2) by (simp add: plain_report_def summarize_def)
  have ls: "plain_counts (ss_ledgerVerdicts ?s) \<and> fst ` set (ss_ledgerVerdicts ?s) \<subseteq> (\<lambda>e. verdict_text (le_verdict e)) ` set (sr_ledger r)"
    using countValues_plain[of "map (\<lambda>e. verdict_text (le_verdict e)) (sr_ledger r)" se env] assms(1,2) by (auto simp: plain_report_def summarize_def)
  have rows: "\<forall>u \<in> set (sr_units r). \<forall>c \<in> set (unitCells u). no_angle c" "\<forall>e \<in> set (sr_ledger r). \<forall>c \<in> set (ledgerCells e). no_angle c"
    "\<forall>p \<in> set (fr_prs (sr_frontier r)). \<forall>c \<in> set (pr_cells p). no_angle c" "\<forall>g \<in> set (sr_gates r). \<forall>c \<in> set (gate_cells g). no_angle c"
    using assms(1) by (auto simp: plain_report_def list_all_iff)
  have v: "no_angle (verdict_text x)" for x by (cases x) (simp_all add: verdict_text_def)
  have st: "no_angle (un_state u)" if "u \<in> set (sr_units r)" for u using rows(1) that by (auto simp: unitCells_def)
  have lines: "no_angle (countLine (ss_unitStates ?s))" "no_angle (countLine (ss_ledgerVerdicts ?s))"
    using us ls st v by (auto intro!: no_angle_counts)
  have "no_angle (status_page stamp (sr_units r) (sr_ledger r) (sr_frontier r) (sr_gates r) ?s)"
    unfolding status_page_def using assms(4) lines rows
    by (intro no_angle_join) (auto intro!: no_angle_table split: option.split)
  moreover have "summary_text (SUMMARY_MARK @ se_line se (summary_json ?s) @ '' -->'' @ [LF]) = Some (se_line se (summary_json ?s))"
    using assms(3) by (intro summary_text_mark) (simp_all add: summary_line_ok_def Let_def)
  ultimately have "summary_text (statusMarkdown se stamp (sr_units r) (sr_ledger r) (sr_frontier r) (sr_gates r) ?s) = Some (se_line se (summary_json ?s))"
    by (simp add: statusMarkdown_def summary_text_skip)
  moreover have "oe_parse env (se_line se (summary_json ?s)) = Some (summary_json ?s)" using assms(3) by (simp add: summary_line_ok_def Let_def)
  ultimately show ?thesis using us ls
    by (simp add: previousSummary_def summary_json_def as_number_def countRecord_back all_strings_back)
qed

lemma render_result:
  assumes "status_render env se lock stamp s = (Inr r, s')"
  shows "sr_summary r = summarize env se (sr_units r) (sr_ledger r) (sr_frontier r) (sr_gates r)"
    "od_status (os_disk s') = Some (statusMarkdown se stamp (sr_units r) (sr_ledger r) (sr_frontier r) (sr_gates r) (sr_summary r))"
    "sr_changed r = status_changed se (Option.bind (od_status (os_disk s)) (previousSummary (oe_parse env))) (sr_summary r)"
  using assms by (auto simp: status_render_def writing_def beginWrite_def ensureLock_def Let_def split: sum.splits if_splits)

text \<open>
  C31. A render tells what changed since the last one: when the rows of one render hold no \<open><\<close> and are counted under plain names, then whatever is written afterwards, the next
  render compares its own summary with exactly the summary of the first, and says so when they are the same.
\<close>

theorem render_tells_changes:
  assumes "status_render env se lock stamp s = (Inr r, s')" and "plain_report se r" and "summary_line_ok env se (sr_summary r)" and "no_angle stamp"
    and "od_status (os_disk t) = od_status (os_disk s')" and "status_render env se lock' stamp' t = (Inr q, t')"
  shows "sr_changed q = status_changed se (Some (sr_summary r)) (sr_summary q) \<and> (sr_summary q = sr_summary r \<longrightarrow> sr_changed q = ''no derived changes'')"
proof -
  have "Option.bind (od_status (os_disk t)) (previousSummary (oe_parse env)) = Some (sr_summary r)"
    using render_result(1,2)[OF assms(1)] assms(5) page_reads_back[OF assms(2) _ assms(3,4)] by simp
  then have "sr_changed q = status_changed se (Some (sr_summary r)) (sr_summary q)" using render_result(3)[OF assms(6)] by simp
  moreover have "status_changed se (Some x) x = ''no derived changes''" for x by (simp add: status_changed_def count_changes_def Let_def)
  ultimately show ?thesis by simp
qed

section \<open>Examples\<close>

text \<open>A render of a store that holds its tables.\<close>

definition report_of :: "orch_env \<Rightarrow> status_env \<Rightarrow> tables \<Rightarrow> string option \<Rightarrow> StatusReport" where
  "report_of env se tb page =
     (let s = summarize env se (tb_units tb) (tb_ledger tb) (tb_frontier tb) (tb_gates tb) in
      \<lparr>sr_units = tb_units tb, sr_ledger = tb_ledger tb, sr_frontier = tb_frontier tb, sr_gates = tb_gates tb, sr_summary = s,
        sr_changed = status_changed se (Option.bind page (previousSummary (oe_parse env))) s\<rparr>)"

lemma render_of_tables:
  assumes "sim env s (True, tb)" and "status_render env se lock stamp s = (out, s')"
  shows "out = Inr (report_of env se tb (od_status (os_disk s))) \<and> sim env s' (True, tb) \<and>
    od_status (os_disk s') = Some (let r = report_of env se tb None in statusMarkdown se stamp (sr_units r) (sr_ledger r) (sr_frontier r) (sr_gates r) (sr_summary r))"
proof -
  have s: "\<not> os_closed s" "os_locked s" "files_hold env (os_disk s) tb" "tables_ok tb" using assms(1) by (auto simp: sim_def)
  then have "od_dir (os_disk s)" by (simp add: files_hold_def)
  then show ?thesis using assms(2) s holds_reads(1-3,5)[OF s(3,4)]
    by (auto simp: status_render_def writing_def beginWrite_def ensureLock_def report_of_def Let_def sim_def) (simp add: files_hold_def)
qed

text \<open>A name with a character that is no digit is no index key.\<close>

lemma index_key_digits: "index_key v \<Longrightarrow> c \<in> set v \<Longrightarrow> js_digit c"
  using digits_of_nat_digits unfolding index_key_def by metis

lemma not_index: "\<not> index_key ''pending''" "\<not> index_key ''constructor''"
  using index_key_digits[of "''pending''" "CHR ''p''"] index_key_digits[of "''constructor''" "CHR ''c''"] by (auto simp: js_digit_def)

lemmas count_simps = countValues_def own_keys_def collated_def count_up_def

text \<open>A store with one unit; its summary's JSON text is \<open>s\<close>, and a plain object inherits \<open>constructor\<close>.\<close>

definition one_summary :: json where
  "one_summary = JObj [(''unitStates'', JObj [(''pending'', JNum 1)]), (''ledgerVerdicts'', JObj []), (''frontierGeneration'', JNum 0), (''openGateIds'', JArr [])]"

definition one_env :: orch_env where
  "one_env = small_env\<lparr>oe_parse := (\<lambda>t. if t = ''s'' then Some one_summary else if t = ''x'' then None else small_parse t)\<rparr>"

definition plain_se :: status_env where
  "plain_se = \<lparr>se_native = (\<lambda>n. if n = ''constructor'' then Some ''function Object() { [native code] }'' else None), se_line = (\<lambda>_. ''s''), se_num = (\<lambda>_. ''0'')\<rparr>"

lemma one_laws: "json_laws one_env"
  using small_laws by (auto simp: json_laws_def one_env_def small_env_def)

definition one_tables :: "string \<Rightarrow> tables" where
  "one_tables brief = no_tables\<lparr>tb_units := [\<lparr>un_id = ''u1'', un_track = ''web'', un_state = ''pending'', un_branch = [], un_pr = [], un_sha = [], un_brief = brief\<rparr>]\<rparr>"

definition one_unit :: "string option \<Rightarrow> orch_store" where
  "one_unit brief = snd (orch_runs one_env [(Inr (), AddUnit ''u1'' ''web'' brief)] (snd (orch_init one_env (Inr ()) no_folder)))"

definition first_render :: "string option \<Rightarrow> StatusReport orch \<times> orch_store" where
  "first_render brief = status_render one_env plain_se (Inr ()) ''2026-01-02'' (one_unit brief)"

definition next_render :: "string option \<Rightarrow> StatusReport orch \<times> orch_store" where
  "next_render brief = status_render one_env plain_se (Inr ()) ''2026-01-03'' (snd (first_render brief))"

abbreviation mark_brief :: string where
  "mark_brief \<equiv> SUMMARY_MARK @ ''x -->''"

lemma one_sim:
  assumes "snd (t_steps one_env [(Inr (), AddUnit ''u1'' ''web'' brief)] (True, no_tables)) = (True, one_tables b)"
  shows "sim one_env (one_unit brief) (True, one_tables b)"
  using runs_agree[OF init_sim[OF one_laws] one_laws, of "[(Inr (), AddUnit ''u1'' ''web'' brief)]"] assms
  by (simp add: one_unit_def no_tables_def orch_op_ok_def del: t_steps.simps orch_runs.simps)

lemma one_sims: "sim one_env (one_unit None) (True, one_tables [])" "sim one_env (one_unit (Some mark_brief)) (True, one_tables mark_brief)"
  by (rule one_sim, code_simp)+

lemma renders:
  assumes "sim one_env (one_unit brief) (True, one_tables b)"
  shows "\<exists>page. fst (first_render brief) = Inr (report_of one_env plain_se (one_tables b) page)"
    "fst (next_render brief) = Inr (report_of one_env plain_se (one_tables b)
      (Some (let r = report_of one_env plain_se (one_tables b) None in statusMarkdown plain_se ''2026-01-02'' (sr_units r) (sr_ledger r) (sr_frontier r) (sr_gates r) (sr_summary r))))"
proof -
  have a: "status_render one_env plain_se (Inr ()) ''2026-01-02'' (one_unit brief) = (fst (first_render brief), snd (first_render brief))"
    by (simp add: first_render_def)
  note r = render_of_tables[OF assms a]
  then show "\<exists>page. fst (first_render brief) = Inr (report_of one_env plain_se (one_tables b) page)" by blast
  have n: "status_render one_env plain_se (Inr ()) ''2026-01-03'' (snd (first_render brief)) = (fst (next_render brief), snd (next_render brief))"
    by (simp add: next_render_def)
  show "fst (next_render brief) = Inr (report_of one_env plain_se (one_tables b)
      (Some (let r = report_of one_env plain_se (one_tables b) None in statusMarkdown plain_se ''2026-01-02'' (sr_units r) (sr_ledger r) (sr_frontier r) (sr_gates r) (sr_summary r))))"
    using render_of_tables[OF _ n] r by metis
qed

lemma one_summary_json: "summary_json (summarize one_env plain_se (tb_units (one_tables b)) (tb_ledger (one_tables b)) (tb_frontier (one_tables b)) (tb_gates (one_tables b))) = one_summary"
proof -
  have "countValues one_env (se_native plain_se) [''pending''] = [(''pending'', Num 1)]" "countValues one_env (se_native plain_se) [] = []"
    by (simp_all add: count_simps not_index plain_se_def)
  then show ?thesis by (simp add: summary_json_def summarize_def one_tables_def no_tables_def counts_json_def one_summary_def)
qed

lemma render_tells_changes_witness:
  "map_sum id sr_changed (fst (next_render None)) = Inr ''no derived changes''"
proof -
  obtain page where r: "fst (first_render None) = Inr (report_of one_env plain_se (one_tables []) page)" using renders(1)[OF one_sims(1)] by blast
  let ?r = "report_of one_env plain_se (one_tables []) page"
  obtain q where q: "fst (next_render None) = Inr q" "sr_summary q = sr_summary ?r" using renders(2)[OF one_sims(1)] by (simp add: report_of_def Let_def)
  have first: "status_render one_env plain_se (Inr ()) ''2026-01-02'' (one_unit None) = (Inr ?r, snd (first_render None))"
    using r by (simp add: first_render_def prod_eq_iff)
  have next_: "status_render one_env plain_se (Inr ()) ''2026-01-03'' (snd (first_render None)) = (Inr q, snd (next_render None))"
    using q(1) by (simp add: next_render_def prod_eq_iff)
  have "plain_name plain_se (verdict_text v)" for v by (cases v) (simp_all add: plain_name_def plain_se_def verdict_text_def)
  then have plain: "plain_report plain_se ?r"
    by (simp add: plain_report_def report_of_def one_tables_def no_tables_def unitCells_def plain_name_def plain_se_def Let_def)
  have "summary_json (sr_summary ?r) = one_summary" using one_summary_json by (simp add: report_of_def Let_def)
  then have line: "summary_line_ok one_env plain_se (sr_summary ?r)" by (simp add: summary_line_ok_def one_env_def plain_se_def Let_def)
  have "no_angle ''2026-01-02''" by simp
  from render_tells_changes[OF first plain line this refl next_] show ?thesis using q by (metis map_sum.simps(2))
qed

text \<open>A brief that holds the summary's mark hides the summary: the next render says it is the first.\<close>

lemma mark_hides_summary: "map_sum id sr_changed (fst (next_render (Some mark_brief))) = Inr ''first render''"
proof -
  let ?tb = "one_tables mark_brief"
  let ?s = "summarize one_env plain_se (tb_units ?tb) (tb_ledger ?tb) (tb_frontier ?tb) (tb_gates ?tb)"
  have c: "countLine (ss_unitStates ?s) = ''pending=1''" "countLine (ss_ledgerVerdicts ?s) = ''none''"
  proof -
    have "digits_of_nat 1 = ''1''" by code_simp
    then have "countLine (countValues one_env (se_native plain_se) [''pending'']) = ''pending=1''" "countLine (countValues one_env (se_native plain_se) []) = ''none''"
      by (simp_all add: count_simps not_index plain_se_def countLine_def count_text_def)
    then show "countLine (ss_unitStates ?s) = ''pending=1''" "countLine (ss_ledgerVerdicts ?s) = ''none''" by (simp_all add: summarize_def one_tables_def no_tables_def)
  qed
  define above where "above = js_join [LF] [''# Orchestrate status'', [], ''Generated: 2026-01-02'', [], ''## Units'', [], ''States: pending=1'', [],
     ''| ID | Track | State | Branch | PR | SHA | Brief |'', ''| --- | --- | --- | --- | --- | --- | --- |'', ''| u1 | web | pending |  |  |  | '']"
  have "markdown mark_brief = mark_brief" by (simp add: markdown_def SUMMARY_MARK_def)
  then obtain rest where "status_page ''2026-01-02'' (tb_units ?tb) (tb_ledger ?tb) (tb_frontier ?tb) (tb_gates ?tb) ?s = above @ mark_brief @ '' |'' @ LF # rest"
    by (simp add: status_page_def c above_def status_table_def) (simp add: one_tables_def no_tables_def unitCells_def markdown_def)
  then obtain rest' where page: "statusMarkdown plain_se ''2026-01-02'' (tb_units ?tb) (tb_ledger ?tb) (tb_frontier ?tb) (tb_gates ?tb) ?s = above @ SUMMARY_MARK @ ''x --> |'' @ LF # rest'"
    by (simp add: statusMarkdown_def)
  have "no_angle above" by (simp add: above_def)
  then have "summary_text (above @ SUMMARY_MARK @ ''x --> |'' @ LF # rest') = summary_text (SUMMARY_MARK @ ''x --> |'' @ LF # rest')" by (rule summary_text_skip)
  also have "\<dots> = Some ''x''"
  proof -
    have "last_close ''x --> |'' = Some ''x''" by code_simp
    then show ?thesis by (simp add: SUMMARY_MARK_def)
  qed
  finally have "previousSummary (oe_parse one_env) (statusMarkdown plain_se ''2026-01-02'' (tb_units ?tb) (tb_ledger ?tb) (tb_frontier ?tb) (tb_gates ?tb) ?s) = None"
    unfolding page previousSummary_def by (simp add: one_env_def)
  then show ?thesis unfolding renders(2)[OF one_sims(2)] by (simp add: report_of_def Let_def status_changed_def)
qed

text \<open>States that are names every object inherits are not counted as numbers, or not at all.\<close>

lemma inherited_states:
  "countValues one_env (se_native plain_se) [''constructor'', ''constructor''] = [(''constructor'', Glued ''function Object() { [native code] }11'')]"
  "countValues one_env (se_native plain_se) [''__proto__''] = []"
  by (simp_all add: count_simps not_index plain_se_def)

section \<open>The frontier of a stack\<close>

text \<open>What \<open>resolveFrontier\<close> gives is a stack that the frontier file can keep, when \<open>gt\<close> lists named branches.\<close>

lemma gt_row_positive: "gt_row d = Some (n, st) \<Longrightarrow> 0 < n"
proof -
  assume "gt_row d = Some (n, st)"
  then obtain ds where n: "n = nat_of_digits ds" "ds \<noteq> []" "hd ds \<noteq> CHR ''0''" "\<forall>c \<in> set ds. js_digit c"
    by (auto simp: gt_row_def Let_def split: if_splits dest: set_takeWhileD)
  have mono: "foldl (\<lambda>n c. 10 * n + digit_val c) m cs \<ge> m" for m cs
  proof (induction cs arbitrary: m)
    case (Cons c cs)
    have "m \<le> 10 * m + digit_val c" by simp
    then show ?case using Cons[of "10 * m + digit_val c"] by simp
  qed simp
  obtain c cs where c: "ds = c # cs" using n(2) by (cases ds) auto
  have "48 \<le> (of_char c :: nat)" using n(4) c by (simp add: js_digit_def)
  moreover have "(of_char c :: nat) \<noteq> 48"
  proof
    assume "(of_char c :: nat) = 48"
    then have "c = char_of (48 :: nat)" by (metis char_of_char)
    moreover have "char_of (48 :: nat) = CHR ''0''" by code_simp
    ultimately show False using n(3) c by simp
  qed
  ultimately have "0 < digit_val c" by (simp add: digit_val_def)
  then show ?thesis using mono[of "digit_val c" cs] n(1) c by (simp add: nat_of_digits_def)
qed

lemma resolved_stack_ok:
  assumes "resolveFrontier branches info rev_parse = Inr rows" and "\<And>bs. branches = Inr bs \<Longrightarrow> [] \<notin> set bs"
  shows "stack_ok rows \<and> distinct (map fp_pr rows)"
proof -
  obtain bs ps where b: "branches = Inr bs" and p: "rmap (\<lambda>b. rbind (graphitePullRequest info b) (\<lambda>p. Inr (b, p))) bs = Inr ps"
    and d: "distinct (map (\<lambda>(_, p). fst p) ps)"
    and r: "rmap (\<lambda>(b, p). rbind (branchSha rev_parse b) (\<lambda>sha. Inr \<lparr>fp_pr = fst p, fp_branches = b, fp_sha = sha, fp_state = snd p\<rparr>)) ps = Inr rows"
    using assms(1) by (auto simp: resolveFrontier_def split: if_splits)
  have pr: "1 \<le> fst p \<and> fst p \<le> 9007199254740991" if "graphitePullRequest info x = Inr p" for x p
  proof -
    obtain l where "parseGtPullRequest x l = Inr p" using \<open>graphitePullRequest info x = Inr p\<close> by (auto simp: graphitePullRequest_def Let_def split: if_splits)
    then show ?thesis using gt_row_positive[of l] by (fastforce simp: parseGtPullRequest_def split: option.splits if_splits prod.splits)
  qed
  have ps: "b \<noteq> [] \<and> 1 \<le> fst q \<and> fst q \<le> 9007199254740991" if "(b, q) \<in> set ps" for b q
    using p that assms(2)[OF b] pr unfolding rmap_Inr
    by (induction bs ps rule: list_all2_induct) auto
  have "map fp_pr rows = map (\<lambda>(_, p). fst p) ps \<and> stack_ok rows"
    using r ps unfolding rmap_Inr
  proof (induction ps rows rule: list_all2_induct)
    case (Cons x xs y ys)
    obtain b q where x: "x = (b, q)" by (cases x) blast
    have "b \<noteq> [] \<and> 1 \<le> fst q \<and> fst q \<le> 9007199254740991" using Cons.prems[of b q] x by simp
    moreover have "map fp_pr ys = map (\<lambda>(_, p). fst p) xs \<and> stack_ok ys" by (rule Cons.IH) (rule Cons.prems, simp)
    ultimately show ?case using Cons.hyps(1) x by (auto simp: stack_ok_def)
  qed (simp add: stack_ok_def)
  then show ?thesis using d by simp
qed

end
