(* ===== verification/OrchLock.thy ===== *)
theory OrchLock
  imports OrchFiles
begin

text \<open>
  The lock of the orchestration store (\<open>acquireLock\<close> of \<open>skills/poteto-mode/scripts/orch/store.ts\<close>): processes that create, read, take over and remove one lock file, a step
  for each call of the file system. An opened file keeps its identity, so a write through a handle of a file that is gone reaches no one.
\<close>

section \<open>Processes and the lock file\<close>

text \<open>Where a process is in \<open>acquireLock\<close> or in the release it returned; the number is the file it opened.\<close>

datatype lock_phase = Away | Creating | Opened nat | ReadHolder | Unlinking | Recreating | ReadRetry | Holding | Releasing | Refused orch_error | Crashed

record lock_world =
  lw_file :: "(nat \<times> string) option"
  lw_made :: nat
  lw_phase :: "nat \<Rightarrow> lock_phase"

definition holder_text :: "string \<Rightarrow> string" where
  "holder_text t = (if js_trim t = [] then ''unknown'' else js_trim t)"

definition holderIsDead :: "(nat \<Rightarrow> bool) \<Rightarrow> string \<Rightarrow> bool" where
  "holderIsDead alive holder \<longleftrightarrow>
     (let n = nat_of_digits holder in digits_of_nat n = holder \<and> 0 < n \<and> n \<le> 9007199254740991 \<and> \<not> alive n)"

definition held_by :: "string \<Rightarrow> orch_error" where
  "held_by holder = UserError (''store lock held by pid '' @ holder)"

definition lw_alive :: "lock_world \<Rightarrow> nat \<Rightarrow> bool" where
  "lw_alive w p \<longleftrightarrow> lw_phase w p \<noteq> Crashed"

definition to_phase :: "nat \<Rightarrow> lock_phase \<Rightarrow> lock_world \<Rightarrow> lock_world" where
  "to_phase p ph w = w\<lparr>lw_phase := (lw_phase w)(p := ph)\<rparr>"

text \<open>\<open>open(path, "wx")\<close>: a new empty file, or \<open>EEXIST\<close>.\<close>

definition create_file :: "nat \<Rightarrow> lock_phase \<Rightarrow> lock_world \<Rightarrow> lock_world" where
  "create_file p there w =
     (case lw_file w of
        Some _ \<Rightarrow> to_phase p there w
      | None \<Rightarrow> to_phase p (Opened (lw_made w)) (w\<lparr>lw_file := Some (lw_made w, []), lw_made := Suc (lw_made w)\<rparr>))"

definition pid_line :: "nat \<Rightarrow> string" where
  "pid_line p = digits_of_nat p @ [LF]"

text \<open>The next call of process \<open>p\<close>; \<open>force\<close> is its \<open>--force\<close>.\<close>

definition lock_next :: "(nat \<Rightarrow> bool) \<Rightarrow> nat \<Rightarrow> lock_world \<Rightarrow> lock_world" where
  "lock_next force p w =
     (case lw_phase w p of
        Creating \<Rightarrow> create_file p ReadHolder w
      | Opened i \<Rightarrow> to_phase p Holding (case lw_file w of Some (j, t) \<Rightarrow> if j = i then w\<lparr>lw_file := Some (i, pid_line p)\<rparr> else w | None \<Rightarrow> w)
      | ReadHolder \<Rightarrow>
          (let holder = (case lw_file w of Some (_, t) \<Rightarrow> holder_text t | None \<Rightarrow> ''unknown'') in
           if holderIsDead (lw_alive w) holder \<or> force p then to_phase p Unlinking w else to_phase p (Refused (held_by holder)) w)
      | Unlinking \<Rightarrow>
          (case lw_file w of Some _ \<Rightarrow> to_phase p Recreating (w\<lparr>lw_file := None\<rparr>) | None \<Rightarrow> to_phase p (Refused (SystemError ''ENOENT'')) w)
      | Recreating \<Rightarrow> create_file p ReadRetry w
      | ReadRetry \<Rightarrow>
          (case lw_file w of
             Some (_, t) \<Rightarrow> to_phase p (Refused (held_by (holder_text t))) w
           | None \<Rightarrow> to_phase p (Refused (SystemError ''ENOENT'')) w)
      | Releasing \<Rightarrow> to_phase p Away (w\<lparr>lw_file := None\<rparr>)
      | _ \<Rightarrow> w)"

text \<open>The release reads the file and removes it only when it names the process.\<close>

definition release_read :: "nat \<Rightarrow> lock_world \<Rightarrow> lock_world" where
  "release_read p w =
     (case lw_file w of
        Some (_, t) \<Rightarrow> if js_trim t = digits_of_nat p then to_phase p Releasing w else to_phase p Away w
      | None \<Rightarrow> to_phase p Away w)"

inductive lock_moves :: "(nat \<Rightarrow> bool) \<Rightarrow> lock_world \<Rightarrow> lock_world \<Rightarrow> bool" for force where
  start: "lw_phase w p = Away \<Longrightarrow> lock_moves force w (to_phase p Creating w)"
| again: "lw_phase w p = Refused e \<Longrightarrow> lock_moves force w (to_phase p Creating w)"
| call: "lock_moves force w (lock_next force p w)"
| release: "lw_phase w p = Holding \<Longrightarrow> lock_moves force w (release_read p w)"

inductive lock_runs :: "(nat \<Rightarrow> bool) \<Rightarrow> lock_world \<Rightarrow> lock_world \<Rightarrow> bool" for force where
  move: "lock_moves force w v \<Longrightarrow> lock_runs force w v"
| crash: "lock_runs force w (to_phase p Crashed w)"

definition unlocked :: "lock_world \<Rightarrow> bool" where
  "unlocked w \<longleftrightarrow> lw_file w = None \<and> (\<forall>p. lw_phase w p = Away)"

section \<open>One holder\<close>

text \<open>The processes that have the lock: its file is theirs.\<close>

definition has_lock :: "lock_phase \<Rightarrow> bool" where
  "has_lock ph \<longleftrightarrow> (case ph of Opened _ \<Rightarrow> True | Holding \<Rightarrow> True | Releasing \<Rightarrow> True | _ \<Rightarrow> False)"

definition lock_owned :: "nat \<Rightarrow> lock_world \<Rightarrow> bool" where
  "lock_owned p w \<longleftrightarrow> (case lw_phase w p of
       Opened i \<Rightarrow> lw_file w = Some (i, [])
     | ph \<Rightarrow> has_lock ph \<longrightarrow> (\<exists>i. lw_file w = Some (i, pid_line p)))"

definition lock_inv :: "lock_world \<Rightarrow> bool" where
  "lock_inv w \<longleftrightarrow> (\<forall>p. lw_phase w p \<notin> {Unlinking, Recreating, ReadRetry, Crashed} \<and> lock_owned p w) \<and>
     (\<forall>i t. lw_file w = Some (i, t) \<longrightarrow> (\<exists>p. has_lock (lw_phase w p))) \<and>
     (\<forall>p q. has_lock (lw_phase w p) \<and> has_lock (lw_phase w q) \<longrightarrow> p = q)"

lemma pid_line_trim [simp]: "js_trim (pid_line p) = digits_of_nat p"
proof -
  have "hd (digits_of_nat p) \<in> set (digits_of_nat p)" "last (digits_of_nat p) \<in> set (digits_of_nat p)" by simp_all
  then have "js_digit (hd (digits_of_nat p))" "js_digit (last (digits_of_nat p))" using digits_of_nat_digits by blast+
  then have "trimmed (digits_of_nat p)" by (auto simp: trimmed_def js_digit_def js_ws_def)
  then show ?thesis by (simp add: pid_line_def trim_newline)
qed

lemma nobody_dead: "lock_inv w \<Longrightarrow> \<not> holderIsDead (lw_alive w) holder"
  by (auto simp: lock_inv_def holderIsDead_def lw_alive_def Let_def)

lemma other_phase [simp]: "lw_phase (to_phase p ph w) q = (if q = p then ph else lw_phase w q)" "lw_file (to_phase p ph w) = lw_file w"
  by (simp_all add: to_phase_def)

lemma has_lock_simps [simp]: "has_lock (Opened i)" "has_lock Holding" "has_lock Releasing" "\<not> has_lock Away" "\<not> has_lock Creating" "\<not> has_lock ReadHolder" "\<not> has_lock (Refused e)"
  by (simp_all add: has_lock_def)

text \<open>A process that changes neither the file nor whether it has the lock keeps the invariant.\<close>

lemma quiet_move:
  assumes "lock_inv w" and "\<not> has_lock (lw_phase w p)" and "ph \<in> {Away, Creating, ReadHolder} \<or> (\<exists>e. ph = Refused e)"
  shows "lock_inv (to_phase p ph w)"
  using assms unfolding lock_inv_def by (auto simp: lock_owned_def split: lock_phase.splits)

lemma create_keeps:
  assumes "lock_inv w" and "lw_phase w p = Creating"
  shows "lock_inv (create_file p ReadHolder w)"
proof (cases "lw_file w")
  case None
  have "\<not> has_lock (lw_phase w q)" for q
    using assms(1) None unfolding lock_inv_def by (auto simp: lock_owned_def has_lock_def split: lock_phase.splits)
  then show ?thesis using None assms unfolding lock_inv_def create_file_def
    by (auto simp: lock_owned_def split: lock_phase.splits)
next
  case (Some a)
  then show ?thesis using assms by (auto simp: create_file_def intro!: quiet_move)
qed

lemma owned_free: "\<not> has_lock (lw_phase w p) \<Longrightarrow> lock_owned p w"
  by (cases "lw_phase w p") (simp_all add: lock_owned_def)

lemma free_inv:
  assumes "lw_file v = None" and "\<And>q. \<not> has_lock (lw_phase v q)" and "\<And>q. lw_phase v q \<notin> {Unlinking, Recreating, ReadRetry, Crashed}"
  shows "lock_inv v"
proof -
  have "lock_owned q v" for q by (rule owned_free, rule assms(2))
  then show ?thesis unfolding lock_inv_def using assms by simp
qed

text \<open>The one process that has the lock moves on; nobody else has it.\<close>

lemma holder_move:
  assumes "lock_inv w" and "has_lock (lw_phase w p)" and "lw_file v = Some (i, t)" and "lw_phase v = (lw_phase w)(p := ph)"
    and "ph = Holding \<or> ph = Releasing" and "t = pid_line p"
  shows "lock_inv v"
proof -
  have others: "\<not> has_lock (lw_phase w q)" if "q \<noteq> p" for q using assms(1,2) that unfolding lock_inv_def by blast
  have "lock_owned q v \<and> lw_phase v q \<notin> {Unlinking, Recreating, ReadRetry, Crashed}" for q
    using assms others unfolding lock_inv_def lock_owned_def by (cases "q = p") (auto split: lock_phase.splits)
  moreover have "has_lock (lw_phase v q) \<longleftrightarrow> q = p" for q using assms(4,5) others by auto
  ultimately show ?thesis unfolding lock_inv_def by simp
qed

lemma file_of_holder:
  assumes "lock_inv w" and "lw_phase w p = Holding \<or> lw_phase w p = Releasing"
  obtains i where "lw_file w = Some (i, pid_line p)"
proof -
  have "lock_owned p w" using assms(1) by (simp add: lock_inv_def)
  then show ?thesis using assms(2) that by (auto simp: lock_owned_def)
qed

lemma next_keeps:
  assumes "lock_inv w" and "\<not> force p"
  shows "lock_inv (lock_next force p w)"
proof (cases "lw_phase w p")
  case Creating
  then show ?thesis using assms create_keeps by (simp add: lock_next_def)
next
  case (Opened i)
  have "lock_owned p w" using assms(1) by (simp add: lock_inv_def)
  then have "lw_file w = Some (i, [])" using Opened by (simp add: lock_owned_def)
  then show ?thesis using Opened assms(1) by (auto simp: lock_next_def to_phase_def intro!: holder_move[of w p _ i "pid_line p" Holding])
next
  case ReadHolder
  then show ?thesis using assms nobody_dead by (auto simp: lock_next_def Let_def intro!: quiet_move)
next
  case Releasing
  have others: "\<not> has_lock (lw_phase w q)" if "q \<noteq> p" for q using assms(1) Releasing that unfolding lock_inv_def by (metis has_lock_simps(3))
  have "\<not> has_lock (lw_phase (to_phase p Away (w\<lparr>lw_file := None\<rparr>)) q)" for q using others by (auto simp: to_phase_def)
  moreover have "lw_phase (to_phase p Away (w\<lparr>lw_file := None\<rparr>)) q \<notin> {Unlinking, Recreating, ReadRetry, Crashed}" for q
    using assms(1) unfolding lock_inv_def by (auto simp: to_phase_def)
  ultimately have "lock_inv (to_phase p Away (w\<lparr>lw_file := None\<rparr>))" by (intro free_inv) (simp_all add: to_phase_def)
  then show ?thesis using Releasing by (simp add: lock_next_def)
qed (use assms(1) in \<open>auto simp: lock_next_def lock_inv_def\<close>)

lemma moves_keep:
  assumes "lock_moves (\<lambda>_. False) w v" and "lock_inv w"
  shows "lock_inv v"
  using assms
proof (cases rule: lock_moves.cases)
  case (release p)
  then obtain i where f: "lw_file w = Some (i, pid_line p)" using file_of_holder assms(2) by metis
  then show ?thesis using release assms(2)
    by (auto simp: release_read_def to_phase_def intro!: holder_move[of w p _ i "pid_line p" Releasing])
qed (auto intro: next_keeps quiet_move)

interpretation orch_lock: step_invariant unlocked "lock_moves (\<lambda>_. False)" lock_inv
proof (unfold_locales, goal_cases)
  case (1 s)
  then show ?case by (simp add: unlocked_def lock_inv_def lock_owned_def)
next
  case (2 s t)
  then show ?case using moves_keep by blast
qed

text \<open>
  C13. One process at a time has the store: while no process dies and none forces, no two processes hold the lock after any run of their calls, however the calls interleave,
  and the lock file names the holder.
\<close>

theorem store_lock_exclusive:
  assumes "unlocked w" and "(lock_moves (\<lambda>_. False))\<^sup>*\<^sup>* w v" and "lw_phase v p = Holding"
  shows "(\<forall>q. lw_phase v q = Holding \<longrightarrow> q = p) \<and> (\<exists>i. lw_file v = Some (i, pid_line p))"
proof -
  have inv: "lock_inv v" using orch_lock.inv_reach assms(1,2) .
  then have "\<forall>q. lw_phase v q = Holding \<longrightarrow> q = p" using assms(3) unfolding lock_inv_def by (metis has_lock_simps(2))
  then show ?thesis using file_of_holder[OF inv] assms(3) by metis
qed

section \<open>Runs\<close>

definition lock_start :: lock_world where
  "lock_start = \<lparr>lw_file = None, lw_made = 0, lw_phase = (\<lambda>_. Away)\<rparr>"

abbreviation lock_go :: "nat \<Rightarrow> lock_world \<Rightarrow> lock_world" where
  "lock_go \<equiv> lock_next (\<lambda>_. False)"

definition taken :: "nat \<Rightarrow> lock_world \<Rightarrow> lock_world" where
  "taken p w = lock_go p (lock_go p (to_phase p Creating w))"

lemma store_lock_exclusive_witness: "lw_phase (taken 7 lock_start) 7 = Holding \<and> (\<exists>i. lw_file (taken 7 lock_start) = Some (i, pid_line 7))"
proof -
  have s: "unlocked lock_start" by (simp add: unlocked_def lock_start_def)
  have "lock_moves (\<lambda>_. False) lock_start (to_phase 7 Creating lock_start)" by (rule lock_moves.start) (simp add: lock_start_def)
  then have r: "(lock_moves (\<lambda>_. False))\<^sup>*\<^sup>* lock_start (taken 7 lock_start)"
    unfolding taken_def by (meson lock_moves.call rtranclp.rtrancl_into_rtrancl r_into_rtranclp)
  have h: "lw_phase (taken 7 lock_start) 7 = Holding" by (simp add: taken_def lock_next_def create_file_def lock_start_def to_phase_def)
  show ?thesis using store_lock_exclusive[OF s r h] h by blast
qed

text \<open>
  A lock whose holder died can be taken twice: two processes read the dead holder's number, and the second removes the lock the first has just made, so both have the store.
\<close>

lemma dead_lock_taken_twice:
  "\<exists>v. (lock_runs (\<lambda>_. False))\<^sup>*\<^sup>* lock_start v \<and> lw_phase v 2 = Holding \<and> lw_phase v 3 = Holding"
proof -
  let ?run = "lock_runs (\<lambda>_. False)"
  have call: "?run\<^sup>*\<^sup>* lock_start w \<Longrightarrow> ?run\<^sup>*\<^sup>* lock_start (lock_go p w)" for p w
    by (meson lock_moves.call lock_runs.move rtranclp.rtrancl_into_rtrancl)
  have start: "?run\<^sup>*\<^sup>* lock_start w \<Longrightarrow> lw_phase w p = Away \<Longrightarrow> ?run\<^sup>*\<^sup>* lock_start (to_phase p Creating w)" for p w
    by (meson lock_moves.start lock_runs.move rtranclp.rtrancl_into_rtrancl)
  have crash: "?run\<^sup>*\<^sup>* lock_start w \<Longrightarrow> ?run\<^sup>*\<^sup>* lock_start (to_phase p Crashed w)" for p w
    by (meson lock_runs.crash rtranclp.rtrancl_into_rtrancl)
  define a where "a = to_phase 4 Crashed (taken 4 lock_start)"
  have a: "?run\<^sup>*\<^sup>* lock_start a" unfolding a_def taken_def by (intro crash call start) (simp_all add: lock_start_def)
  have a_state: "a = \<lparr>lw_file = Some (0, pid_line 4), lw_made = 1, lw_phase = (\<lambda>_. Away)(4 := Crashed)\<rparr>"
    by (simp add: a_def taken_def lock_next_def create_file_def lock_start_def to_phase_def)
  define b where "b = lock_go 3 (lock_go 2 (lock_go 3 (lock_go 2 (to_phase 3 Creating (to_phase 2 Creating a)))))"
  have b: "?run\<^sup>*\<^sup>* lock_start b" unfolding b_def by (intro call start a) (simp_all add: a_state)
  have dead: "holderIsDead f (holder_text (pid_line 4))" if "\<not> f 4" for f
  proof -
    have "digits_of_nat 4 = ''4''" "nat_of_digits ''4'' = 4" by code_simp+
    then show ?thesis using that by (simp add: holderIsDead_def holder_text_def Let_def)
  qed
  have b_state: "b = \<lparr>lw_file = Some (0, pid_line 4), lw_made = 1, lw_phase = (\<lambda>_. Away)(4 := Crashed, 2 := Unlinking, 3 := Unlinking)\<rparr>"
    by (simp add: b_def a_state lock_next_def create_file_def to_phase_def dead lw_alive_def fun_eq_iff)
  define c where "c = lock_go 3 (lock_go 3 (lock_go 3 (lock_go 2 (lock_go 2 (lock_go 2 b)))))"
  have "?run\<^sup>*\<^sup>* lock_start c" unfolding c_def by (intro call b)
  moreover have "lw_phase c 2 = Holding \<and> lw_phase c 3 = Holding"
    by (simp add: c_def b_state lock_next_def create_file_def to_phase_def)
  ultimately show ?thesis by blast
qed

text \<open>
  A holder that dies between making the file and writing its number leaves a lock that no process takes over: its holder is unknown, and only \<open>--force\<close> ends it.
\<close>

definition unwritten :: "nat \<Rightarrow> lock_world \<Rightarrow> bool" where
  "unwritten i w \<longleftrightarrow> lw_file w = Some (i, []) \<and> (\<forall>p. lw_phase w p \<in> {Away, Creating, ReadHolder, Crashed} \<or> (\<exists>e. lw_phase w p = Refused e))"

lemma unwritten_stays:
  assumes "unwritten i w" and "(lock_runs (\<lambda>_. False))\<^sup>*\<^sup>* w v"
  shows "unwritten i v \<and> lw_phase v p \<noteq> Holding"
proof -
  have known: "\<not> holderIsDead f (holder_text [])" for f
  proof -
    have "\<not> js_digit CHR ''u''" by (simp add: js_digit_def)
    then have "digits_of_nat n \<noteq> ''unknown''" for n using digits_of_nat_digits[of n] by auto
    then show ?thesis by (simp add: holderIsDead_def holder_text_def js_trim_def Let_def)
  qed
  have "unwritten i v"
    using assms(2,1)
  proof (induction rule: rtranclp_induct)
    case (step y z)
    then have y: "unwritten i y" by blast
    have kept: "unwritten i (to_phase q ph y)" if "ph \<in> {Away, Creating, ReadHolder, Crashed} \<or> (\<exists>e. ph = Refused e)" for q ph
      using y that by (auto simp: unwritten_def)
    have next_: "unwritten i (lock_go q y)" for q
    proof -
      have f: "lw_file y = Some (i, [])" using y by (simp add: unwritten_def)
      have "lw_phase y q \<in> {Away, Creating, ReadHolder, Crashed} \<or> (\<exists>e. lw_phase y q = Refused e)" using y by (simp add: unwritten_def)
      then show ?thesis using y f known by (auto simp: lock_next_def create_file_def Let_def kept)
    qed
    from step.hyps(2) show ?case
    proof (cases rule: lock_runs.cases)
      case move
      then show ?thesis
      proof (cases rule: lock_moves.cases)
        case (release q)
        have "lw_phase y q \<in> {Away, Creating, ReadHolder, Crashed} \<or> (\<exists>e. lw_phase y q = Refused e)" using y by (simp add: unwritten_def)
        then show ?thesis using release by auto
      qed (auto simp: kept next_)
    qed (simp add: kept)
  qed
  moreover from this have "lw_phase v p \<in> {Away, Creating, ReadHolder, Crashed} \<or> (\<exists>e. lw_phase v p = Refused e)" by (simp add: unwritten_def)
  ultimately show ?thesis by auto
qed

end
