(* ===== verification/Spec2Isabelle.thy ===== *)
theory Spec2Isabelle
  imports SchedulerRuns Lease BusRuns Outbox LineDelta DutyRules DutyFile DutyCard BriefCap Turns PoolCli QueueWatch MessageKeys HeldSends
    KillGuard CapsGuard Pm2Guard WalkGuard BoardTypes GoalThreads HarnessRules
    TurnRules FeedRuns SessionRuns DutyRunRules OrchStatusRules OrchLock
begin

text \<open>
  \<^bold>\<open>What this is\<close>

  A verification library for the core logic of sieun-pi: the host that keeps agent sessions and their schedules, the bus that carries messages
  between agents, the pool that admits runs, and the chat server and client that keep the owner's sends, boards and duties. Each theory
  translates the TypeScript it names; the statements are proved of these definitions. Data keep the names of the source: a type is a
  record or a datatype, an operation is a function from the state before to the state after, a thrown error is \<open>Inl\<close> of its message, and
  what happens between two \<open>await\<close>s is one step.

  \<^bold>\<open>Parts, and the theories that model them\<close>

  \<^item> \<open>Prelude\<close> and \<open>Json\<close>: results, JavaScript text and Map operations, the values of \<open>JSON.parse\<close>, and the locale \<open>step_invariant\<close>,
    the contract of every component that moves in steps; \<open>SchedulerRuns\<close>, \<open>Lease\<close>, \<open>BusRuns\<close>, \<open>Outbox\<close>, \<open>Board\<close>, \<open>Turns\<close>,
    \<open>GoalThreads\<close>, \<open>FeedRuns\<close>, \<open>SessionRuns\<close>, \<open>OrchLock\<close> and \<open>QueueWatch\<close> interpret it on their own step relations.
  \<^item> pi-host's scheduler (\<open>packages/pi-host/src/schedule.ts\<close>, \<open>scheduler.ts\<close>): \<open>Schedule\<close> is the grammar of schedules, cron parsing and
    scanning, and the next run of a job; \<open>Scheduler\<close> is the scheduler's state with every operation, from \<open>setHeartbeat\<close> to the two halves of
    \<open>dispatch\<close> around the reopening of a session; \<open>SchedulerRuns\<close> proves the invariant of all reachable states, that a tick claims exactly the due jobs
    and moves them on, that a restart replays no claimed tick, and what one delivery does.
  \<^item> Session leases (\<open>lease.ts\<close>): \<open>Lease\<close> has the lockfile and the lease map of every process of a box. Between whole operations no two
    processes hold one session; at the grain of system calls they can, which is shown by a run.
  \<^item> The agent bus (\<open>packages/pi-family/registry.ts\<close>, \<open>packages/pi-rlm/src/core/bus\<close>, \<open>pi/agent-bus.ts\<close>): \<open>Family\<close> is the registry and who may
    write to whom; \<open>Bus\<close> is a send from the check of its text to the durable inbox; \<open>BusRuns\<close> shows that an accepted message is read exactly once over any
    sequence of sends, restarts and turns, and that a repeated keyed send delivers once.
  \<^item> The chat server's outbox (\<open>apps/chat/server/outbox.ts\<close>): \<open>Outbox\<close> has the rows, the log and the timers; a restart rebuilds the rows from the log,
    and no send that is neither done nor refused is left without a timer, an attempt or a reader.
  \<^item> Line deltas (\<open>components/prime-relay/line-delta.ts\<close>): \<open>LineDelta\<close> has the differ, the newline framing and both ends of the stream; applying a
    delta gives the line back, for a line and for a stream.
  \<^item> Boards (\<open>shared/board-delta.ts\<close>, \<open>shared/types.ts\<close>): \<open>Board\<close> has the plan tree, the delta of two boards, its application and the follower of a page.
  \<^item> Board operations (\<open>shared/chat-board.ts\<close>, \<open>artifact-link.ts\<close>, \<open>server/boards.ts\<close>): \<open>ArtifactLinks\<close> has the targets a link may name; \<open>BoardOps\<close> the reducer with
    its seven operations and the server's loop over a batch; \<open>BoardParse\<close> the parser of untrusted operations. \<open>BoardRules\<close> shows that ids stay apart, who may change what, that
    a step added under a finished goal reopens it and that the search for a fresh id ends; \<open>BoardTypes\<close> that no request leaves the board ill typed.
  \<^item> Duties (\<open>shared/chat-duties.ts\<close>, \<open>duty-streak.ts\<close>, \<open>duty-fixes.ts\<close>, \<open>stalled-calls.ts\<close>, \<open>duty-card.ts\<close>, \<open>duty-cadence.ts\<close>, \<open>server/brief-cap.ts\<close>):
    \<open>Duties\<close> has the data, the due rule and the verdict, \<open>DutyRules\<close> their theorems; \<open>DutyFile\<close> the definitions people write; \<open>DutyStreak\<close>, with the locale
    \<open>keep_best\<close> of its reading loops, the miss streaks; \<open>DutyFixes\<close> which step is at work on a missed metric; \<open>DutyCard\<close> what the card and its one line say;
    \<open>BriefCap\<close> the capped lists of a brief. \<open>DutyRun\<close> is one run of a duty (\<open>apps/chat/server/duty-run.ts\<close>): its precheck, its record and the brief of its job, and
    \<open>DutyRunRules\<close> shows when a run starts a job and what its brief names.
  \<^item> The pool (\<open>packages/pi-pool/src/core/turns.ts\<close>, \<open>pool-cli.ts\<close>): \<open>Turns\<close> is a run's wait for its slot as a state machine; \<open>PoolCli\<close> is the reading of a hook's
    answer and the credential loop.
  \<^item> The chat's queue watch (\<open>apps/chat/server/queue.ts\<close>): \<open>QueueWatch\<close>, with a store of entries, since a read keeps its entry across an \<open>await\<close>.
  \<^item> The command guards (\<open>packages/sieun-rules/src\<close>): \<open>Shell\<close> is the reader of shell text (\<open>shell.ts\<close>), whose lexer gives back the words of a quoted command;
    \<open>Guards\<close> has what the guards share and the locale \<open>command_guard\<close>, a guard that judges the commands of a text and the texts they hand on, with the exact set of
    commands such a guard refuses; \<open>KillGuard\<close>, \<open>CapsGuard\<close>, \<open>Pm2Guard\<close> and \<open>WalkGuard\<close> (\<open>kill.ts\<close>, \<open>caps.ts\<close>, \<open>pm2.ts\<close>, \<open>walk.ts\<close>) interpret it.
  \<^item> Thread goals (\<open>packages/pi-rlm/src/pi/goal.ts\<close>, \<open>packages/pi-host/src/durable/goal.ts\<close>): \<open>Goals\<close> is \<open>GoalState\<close> with its texts and the \<open>/goal\<close> command, and shows
    that a spent budget is final; \<open>GoalThreads\<close> is the document of a durable thread, whose late counting simulates a goal counted at once, and whose messages go out
    at most once. Two runs show a continuation that is never sent.
  \<^item> The continual harness (\<open>packages/pi-harness/src/core/store.ts\<close>, \<open>refine.ts\<close>): \<open>Harness\<close> has the state file, the merged view, a refine's edits, their application and
    their rollback; \<open>HarnessRules\<close> shows that a rollback restores what the refine found and that a refine leaves alone what another writer changed.
  \<^item> The turns of a thread's page (\<open>shared/turns.ts\<close>): \<open>ChatTurns\<close> groups a thread's messages into turns and exchanges, with the live tail and the triggers' one-line
    texts; \<open>TurnRules\<close> reads a page as a flat list of runs, and shows that every message shows at its place, that a run that is over never changes and that no later
    message hides an answer. A run shows a failed call whose thoughts and tool calls show nowhere.
  \<^item> What agents say to people (\<open>packages/pi-host/src/durable/feed.ts\<close>, the outbox of \<open>index-db.ts\<close>): \<open>DurableFeed\<close> has the reading of an entry, the index's rows and the
    streams, \<open>FeedRules\<close> their laws, and \<open>FeedRuns\<close> the host that opens, commits, crashes and rereads: a call has at most one row, every sent call of an open thread has
    one unless an index write failed, and a stream writes the rows after its cursor, each once and in order.
  \<^item> Rule files (\<open>packages/pi-claude-rules/src/core/rules.ts\<close>): \<open>RuleFiles\<close> has front matter, globs and the regular expression a glob becomes, and \<open>RuleGlobs\<close> shows that
    the expression matches the glob's own reading, brace by brace; \<open>SessionRules\<close> has the paths a tool call touches and a session's caches, and \<open>SessionRuns\<close> shows that a touched
    file's rules are in the context, each once, over any run of calls, compactions and reloads. A run with a move in the session's tree loses one.
  \<^item> The orchestration store (\<open>skills/poteto-mode/scripts/orch/store.ts\<close>, \<open>orch.ts\<close>): \<open>OrchStore\<close> has the rows and the reader and writer of each file, \<open>OrchOps\<close> every
    operation over the store's folder, and \<open>OrchFiles\<close> the round trips. \<open>OrchTables\<close> states the operations on plain tables, \<open>OrchRules\<close> shows that the files refine them over any
    run, and \<open>OrchRuns\<close> reads off the last verdict of a commit and the pointers of the inbox. \<open>OrchStatus\<close> and \<open>OrchStatusRules\<close> are the status page and what a render says of
    the last one; \<open>OrchLock\<close> is the lock file, which one process at a time holds while no process dies. Two runs show what a death does.
  \<^item> Message keys, cursors and held sends (\<open>shared/message-key.ts\<close>, \<open>held-sends.ts\<close>): \<open>MessageKeys\<close> and \<open>HeldSends\<close>.

  \<^bold>\<open>How the parts meet\<close>

  The scheduler delivers a due job to a session that pi-host opened under a lease. A run of a session waits for its slot in the pool's queue (\<open>Turns\<close>); the chat
  server follows that place (\<open>QueueWatch\<close>) and delivers what the owner sent (\<open>Outbox\<close>, from \<open>HeldSends\<close> of the page). Agents of one tree write to one
  another over the bus. A chat's board names the steps that fix a duty's missed metrics, so \<open>DutyFixes\<close> and \<open>DutyCard\<close> rest on \<open>Board\<close>, and
  the reducer of \<open>BoardOps\<close> checks a step's duty link with \<open>DutyFixes\<close>; the boards it makes are the ones the deltas of \<open>Board\<close> carry to the pages. The streaks of
  \<open>DutyStreak\<close> rest on the runs that \<open>Duties\<close> judges. The shell commands an agent runs pass the command guards first. A thread's goal rides on the runs the host settles, and what
  its agent says goes to the chat server through the feed; the page shows the thread as turns, keyed by \<open>MessageKeys\<close>.

  \<^bold>\<open>Parameters, bounds and fuel\<close>

  Code outside the repository or outside the model is an argument: the engine's date parser, the time zone offset, a process table, SHA-256, random ids, the text of
  a number or of any value, \<open>JSON.parse\<close> of a text, \<open>URL\<close> and \<open>decodeURIComponent\<close>, the pool's hook, the folders of the machine a guard runs on, and the two tests over English prose that
  change what a board stores. Text has code units below 256. Numbers that the code rounds or compares are rationals or integers;
  times are milliseconds. The cron scan covers 366 days, as the code does; the tree of a board delta takes one level of fuel per item, which is
  enough unless the delta makes an item its own descendant, where the code overflows its stack; the credential loop runs on a script of rounds and is \<open>None\<close>
  where the script ends. Every other loop is a total function with its measure.

  \<^bold>\<open>Not modelled\<close>

  Sockets, processes, HTTP handlers and user interface; the Pi runtime; the history index, whose logic is SQL; patterns over English prose; the other skills, vendored and
  retired code. The sentences the board's reducer answers with, its flags, and the owner's go are such patterns. The lock of \<open>packages/pi-harness\<close> rests on bounds of real time
  (a stale age and a heartbeat), which steps without a clock cannot hold. The reactions, post edits and wakes of the chat server and the bus observers are thin handlers around
  stores, emoji data and live sessions that the model does not have; the orchestration store's reader of \<open>gt\<close>'s tree is over box characters, which texts here do not hold.
\<close>

end
